(* ===== verification/Prelude.thy ===== *)
theory Prelude
  imports Main "HOL-Library.Word" "HOL-Library.List_Lexorder"
begin

text \<open>
  Shared vocabulary of the development.

  \<^item> the fixed-width integers of \<^verbatim>\<open>include/common.hpp\<close> as words;
  \<^item> the failure values of the model: a failed \<^verbatim>\<open>DB7_ASSERT\<close> (the build never defines
    \<^verbatim>\<open>NDEBUG\<close>, so assertions abort), a thrown exception, a dereferenced null pointer;
  \<^item> a flat byte memory with little-endian loads and stores, \<^verbatim>\<open>memcpy\<close> / \<^verbatim>\<open>memmove\<close> as
    block writes, and the frame lemmas every page layout uses;
  \<^item> the alignment helpers of \<^verbatim>\<open>shared/align_util.hpp\<close>;
  \<^item> the binary-search loop that all page layouts share, with its correctness lemma.
\<close>

unbundle bit_operations_syntax

section \<open>Integers\<close>

type_synonym u8 = "8 word"
type_synonym u16 = "16 word"
type_synonym u32 = "32 word"
type_synonym u64 = "64 word"

type_synonym page_id = u32
type_synonym table_id = u32

named_theorems mem_simps \<open>loads from a memory after stores\<close>
named_theorems res_simps \<open>the result type and its bind\<close>

section \<open>Failures as values\<close>

datatype db7_error =
    AssertFailed string
  | Unreachable
  | RuntimeError string
  | IOError string
  | MemoryError string
  | NullDeref
  | OutOfRange

type_synonym 'a res = "db7_error + 'a"

definition ebind :: "'a res \<Rightarrow> ('a \<Rightarrow> 'b res) \<Rightarrow> 'b res" where
  "ebind r f = (case r of Inl e \<Rightarrow> Inl e | Inr x \<Rightarrow> f x)"

definition DB7_ASSERT :: "bool \<Rightarrow> string \<Rightarrow> 'a res \<Rightarrow> 'a res" where
  "DB7_ASSERT c msg k = (if c then k else Inl (AssertFailed msg))"

lemma ebind_simps [simp, res_simps]:
  "ebind (Inr x) f = f x" "ebind (Inl e) f = Inl e"
  by (simp_all add: ebind_def)

lemma ebind_Inr_iff [res_simps]: "ebind r f = Inr y \<longleftrightarrow> (\<exists>x. r = Inr x \<and> f x = Inr y)"
  by (cases r) auto

lemma ebind_assoc: "ebind (ebind r f) g = ebind r (\<lambda>x. ebind (f x) g)"
  by (cases r) auto

lemma DB7_ASSERT_True [simp]: "c \<Longrightarrow> DB7_ASSERT c m k = k"
  by (simp add: DB7_ASSERT_def)

lemma DB7_ASSERT_False [simp]: "\<not> c \<Longrightarrow> DB7_ASSERT c m k = Inl (AssertFailed m)"
  by (simp add: DB7_ASSERT_def)

lemma DB7_ASSERT_Inr_iff [res_simps]: "DB7_ASSERT c m k = Inr y \<longleftrightarrow> c \<and> k = Inr y"
  by (simp add: DB7_ASSERT_def)

lemma ebind_cong [fundef_cong]:
  "r = r' \<Longrightarrow> (\<And>x. r' = Inr x \<Longrightarrow> f x = f' x) \<Longrightarrow> ebind r f = ebind r' f'"
  by (cases r') auto

lemma sint_eq_uint_if:
  "sint (w :: 'a::len word) = (if uint w < 2 ^ (LENGTH('a) - 1) then uint w else uint w - 2 ^ LENGTH('a))"
proof -
  define n where "n = LENGTH('a) - 1"
  have N: "LENGTH('a) = Suc n" by (simp add: n_def)
  have lt: "uint w < 2 ^ Suc n" using uint_lt2p [of w] by (simp add: N)
  have "0 \<le> uint w" by simp
  have s: "sint w = signed_take_bit n (uint w)" by (simp add: sint_uint n_def)
  show ?thesis
  proof (cases "uint w < 2 ^ n")
    case True
    then have "signed_take_bit n (uint w) = uint w" by (intro signed_take_bit_int_eq_self) (simp_all add: order_trans [OF _ \<open>0 \<le> uint w\<close>])
    with True s show ?thesis by (simp add: n_def)
  next
    case False
    have "signed_take_bit n (uint w) = signed_take_bit n (uint w - 2 ^ Suc n)"
      by (rule signed_take_bit_eq_iff_take_bit_eq [THEN iffD2]) (simp add: take_bit_eq_mod)
    also have "\<dots> = uint w - 2 ^ Suc n"
    proof (rule signed_take_bit_int_eq_self)
      show "- (2 ^ n) \<le> uint w - 2 ^ Suc n" using False by simp
      have "(0 :: int) < 2 ^ n" by simp
      with lt show "uint w - 2 ^ Suc n < 2 ^ n" unfolding power_Suc by linarith
    qed
    finally show ?thesis using False s by (simp add: N)
  qed
qed

section \<open>Operations that may not end\<close>

text \<open>A loop that never ends is \<^verbatim>\<open>None\<close>, a failed assertion or exception is \<^verbatim>\<open>Some (Inl _)\<close>.\<close>

definition obind :: "'a res option \<Rightarrow> ('a \<Rightarrow> 'b res option) \<Rightarrow> 'b res option" where
  "obind r f = Option.bind r (\<lambda>x. case x of Inl e \<Rightarrow> Some (Inl e) | Inr y \<Rightarrow> f y)"

lemma obind_simps [simp]: "obind (Some (Inr y)) f = f y" "obind (Some (Inl e)) f = Some (Inl e)" "obind None f = None"
  by (simp_all add: obind_def)

lemma obind_mono [partial_function_mono]:
  assumes "mono_option B" "\<And>y. mono_option (\<lambda>f. C y f)"
  shows "mono_option (\<lambda>f. obind (B f) (\<lambda>y. C y f))"
  unfolding obind_def
proof (rule bind_mono [OF assms(1)])
  show "mono_option (\<lambda>f. case x of Inl e \<Rightarrow> Some (Inl e) | Inr y \<Rightarrow> C y f)" for x
    using assms(2) by (cases x) (simp_all add: option.const_mono)
qed

section \<open>Byte memory\<close>

type_synonym mem = "nat \<Rightarrow> u8"

fun le_enc :: "nat \<Rightarrow> nat \<Rightarrow> u8 list" where
  "le_enc 0 v = []"
| "le_enc (Suc n) v = word_of_nat v # le_enc n (v div 256)"

fun le_dec :: "u8 list \<Rightarrow> nat" where
  "le_dec [] = 0"
| "le_dec (b # bs) = unat b + 256 * le_dec bs"

definition rd_bytes :: "mem \<Rightarrow> nat \<Rightarrow> nat \<Rightarrow> u8 list" where
  "rd_bytes m a n = map (\<lambda>i. m (a + i)) [0..<n]"

definition wr_bytes :: "mem \<Rightarrow> nat \<Rightarrow> u8 list \<Rightarrow> mem" where
  "wr_bytes m a bs = (\<lambda>i. if a \<le> i \<and> i < a + length bs then bs ! (i - a) else m i)"

definition memmove :: "mem \<Rightarrow> nat \<Rightarrow> nat \<Rightarrow> nat \<Rightarrow> mem" where
  "memmove m dst src n = wr_bytes m dst (rd_bytes m src n)"

definition rd16 :: "mem \<Rightarrow> nat \<Rightarrow> u16" where
  "rd16 m a = word_of_nat (le_dec (rd_bytes m a 2))"

definition rd32 :: "mem \<Rightarrow> nat \<Rightarrow> u32" where
  "rd32 m a = word_of_nat (le_dec (rd_bytes m a 4))"

definition wr16 :: "mem \<Rightarrow> nat \<Rightarrow> u16 \<Rightarrow> mem" where
  "wr16 m a v = wr_bytes m a (le_enc 2 (unat v))"

definition wr32 :: "mem \<Rightarrow> nat \<Rightarrow> u32 \<Rightarrow> mem" where
  "wr32 m a v = wr_bytes m a (le_enc 4 (unat v))"

lemma unat_u8_less: "unat (w :: u8) < 256"
  using unsigned_less [of w, where ?'a = nat] by simp

lemma unat_u16_less: "unat (w :: u16) < 65536"
  using unsigned_less [of w, where ?'a = nat] by simp

lemma unat_u32_less: "unat (w :: u32) < 4294967296"
  using unsigned_less [of w, where ?'a = nat] by simp

lemma unat_u64_less: "unat (w :: u64) < 18446744073709551616"
  using unsigned_less [of w, where ?'a = nat] by simp

lemmas unat_bounds = unat_u8_less unat_u16_less unat_u32_less unat_u64_less

lemma unat_ucast_u32_u64 [simp]: "unat (ucast (w :: u32) :: u64) = unat w"
  using unat_u32_less [of w] by (simp add: unsigned_ucast_eq take_bit_eq_mod)

lemma unat_ucast_u16_u32 [simp]: "unat (ucast (w :: u16) :: u32) = unat w"
  using unat_u16_less [of w] by (simp add: unsigned_ucast_eq take_bit_eq_mod)

lemma unat_plus_small: "unat a + unat b < 2 ^ LENGTH('a) \<Longrightarrow> unat (a + b :: 'a::len word) = unat a + unat b"
  by (simp add: unat_word_ariths)

lemma unat_of_nat_small: "n < 2 ^ LENGTH('a) \<Longrightarrow> unat (word_of_nat n :: 'a::len word) = n"
  by (simp add: unat_of_nat)

lemma length_le_enc [simp]: "length (le_enc n v) = n"
  by (induction n arbitrary: v) auto

lemma length_rd_bytes [simp]: "length (rd_bytes m a n) = n"
  by (simp add: rd_bytes_def)

lemma nth_rd_bytes [simp]: "i < n \<Longrightarrow> rd_bytes m a n ! i = m (a + i)"
  by (simp add: rd_bytes_def)

lemma rd_bytes_0 [simp]: "rd_bytes m a 0 = []"
  by (simp add: rd_bytes_def)

lemma le_dec_enc: "le_dec (le_enc n v) = v mod 256 ^ n"
proof (induction n arbitrary: v)
  case 0
  show ?case by simp
next
  case (Suc n)
  have "unat (word_of_nat v :: u8) = v mod 256"
    by (simp add: unat_of_nat)
  then show ?case
    by (simp add: Suc.IH mod_mult2_eq)
qed

lemma le_dec_less: "le_dec bs < 256 ^ length bs"
proof (induction bs)
  case Nil
  show ?case by simp
next
  case (Cons b bs)
  with unat_u8_less [of b] show ?case by simp
qed

lemma le_enc_dec: "le_enc (length bs) (le_dec bs) = bs"
proof (induction bs)
  case (Cons b bs)
  have "(unat b + 256 * le_dec bs) div 256 = le_dec bs"
    using unat_u8_less [of b] by simp
  moreover have "(word_of_nat (unat b + 256 * le_dec bs) :: u8) = b"
    unfolding word_unat_eq_iff unat_of_nat using unat_u8_less [of b] by simp
  ultimately show ?case using Cons.IH by simp
qed simp

lemma le_enc_dec_word:
  assumes "LENGTH('a::len) = 8 * n" "length bs = n"
  shows "le_enc n (unat (word_of_nat (le_dec bs) :: 'a word)) = bs"
proof -
  have "256 ^ n = (2 :: nat) ^ LENGTH('a)" unfolding assms(1) power_mult by simp
  then have "unat (word_of_nat (le_dec bs) :: 'a word) = le_dec bs"
    using le_dec_less [of bs] assms(2) by (simp add: unat_of_nat)
  with le_enc_dec [of bs] assms(2) show ?thesis by simp
qed

lemma wr_bytes_rd_bytes: "wr_bytes m a (rd_bytes m a n) = m"
  by (rule ext) (auto simp: wr_bytes_def)

lemma wr16_rd16: "wr16 m a (rd16 m a) = m"
  by (simp add: wr16_def rd16_def le_enc_dec_word [of 2] wr_bytes_rd_bytes)

lemma wr_bytes_apply: "wr_bytes m a bs i = (if a \<le> i \<and> i < a + length bs then bs ! (i - a) else m i)"
  by (simp add: wr_bytes_def)

lemma wr_bytes_outside [mem_simps]: "i < a \<or> a + length bs \<le> i \<Longrightarrow> wr_bytes m a bs i = m i"
  by (auto simp: wr_bytes_def)

lemma wr_bytes_Nil [simp]: "wr_bytes m a [] = m"
  by (rule ext) (auto simp: wr_bytes_def)

lemma rd_wr_bytes_same [mem_simps]: "n = length bs \<Longrightarrow> rd_bytes (wr_bytes m a bs) a n = bs"
  by (rule nth_equalityI) (simp_all add: wr_bytes_def)

lemma rd_bytes_cong: "(\<And>i. b \<le> i \<Longrightarrow> i < b + n \<Longrightarrow> m i = m' i) \<Longrightarrow> rd_bytes m b n = rd_bytes m' b n"
  by (rule nth_equalityI) simp_all

lemma rd_wr_bytes_disj [mem_simps]:
  "b + n \<le> a \<or> a + length bs \<le> b \<Longrightarrow> rd_bytes (wr_bytes m a bs) b n = rd_bytes m b n"
  by (rule rd_bytes_cong) (auto simp: wr_bytes_def)

lemma rd_bytes_sub:
  "rd_bytes m (a + i) k = take k (drop i (rd_bytes m a n))" if "i + k \<le> n"
  using that by (intro nth_equalityI) (auto simp: add.assoc)

lemma rd_wr_bytes_inside:
  "i + k \<le> length bs \<Longrightarrow> rd_bytes (wr_bytes m a bs) (a + i) k = take k (drop i bs)"
  by (intro nth_equalityI) (auto simp: wr_bytes_def)

lemma length_concat_const: "(\<And>x. length (f x) = n) \<Longrightarrow> length (concat (map f xs)) = n * length xs"
  by (induction xs) auto

lemma take_drop_concat:
  assumes "\<And>x. length (f x) = n" "i < length xs"
  shows "take n (drop (n * i) (concat (map f xs))) = f (xs ! i)"
  using assms(2)
proof (induction xs arbitrary: i)
  case (Cons x xs)
  then show ?case by (cases i) (auto simp: assms(1))
qed simp

lemma rd32_array:
  assumes "i < length xs"
  shows "rd32 (wr_bytes m a (concat (map (\<lambda>c. le_enc 4 (unat (c :: u32))) xs))) (a + 4 * i) = xs ! i"
proof -
  have "4 * i + 4 \<le> length (concat (map (\<lambda>c. le_enc 4 (unat (c :: u32))) xs))"
    using assms by (simp add: length_concat_const [where n = 4])
  then show ?thesis
    using assms unat_u32_less [of "xs ! i"]
    by (simp add: rd32_def rd_wr_bytes_inside take_drop_concat le_dec_enc)
qed

lemma rd16_array:
  assumes "i < length xs"
  shows "rd16 (wr_bytes m a (concat (map (\<lambda>c. le_enc 2 (unat (c :: u16))) xs))) (a + 2 * i) = xs ! i"
proof -
  have "2 * i + 2 \<le> length (concat (map (\<lambda>c. le_enc 2 (unat (c :: u16))) xs))"
    using assms by (simp add: length_concat_const [where n = 2])
  then show ?thesis
    using assms unat_u16_less [of "xs ! i"]
    by (simp add: rd16_def rd_wr_bytes_inside take_drop_concat le_dec_enc)
qed

lemma rd16_wr16_same [mem_simps]: "rd16 (wr16 m a v) a = v"
  using unat_u16_less [of v] by (simp add: rd16_def wr16_def rd_wr_bytes_same le_dec_enc)

lemma rd32_wr32_same [mem_simps]: "rd32 (wr32 m a v) a = v"
  using unat_u32_less [of v] by (simp add: rd32_def wr32_def rd_wr_bytes_same le_dec_enc)

lemma wr16_outside [mem_simps]: "i < a \<or> a + 2 \<le> i \<Longrightarrow> wr16 m a v i = m i"
  by (simp add: wr16_def wr_bytes_outside)

lemma wr32_outside [mem_simps]: "i < a \<or> a + 4 \<le> i \<Longrightarrow> wr32 m a v i = m i"
  by (simp add: wr32_def wr_bytes_outside)

lemma rd_bytes_wr16_disj [mem_simps]: "b + n \<le> a \<or> a + 2 \<le> b \<Longrightarrow> rd_bytes (wr16 m a v) b n = rd_bytes m b n"
  by (simp add: wr16_def rd_wr_bytes_disj)

lemma rd_bytes_wr32_disj [mem_simps]: "b + n \<le> a \<or> a + 4 \<le> b \<Longrightarrow> rd_bytes (wr32 m a v) b n = rd_bytes m b n"
  by (simp add: wr32_def rd_wr_bytes_disj)

lemma rd16_wr16_disj [mem_simps]: "b + 2 \<le> a \<or> a + 2 \<le> b \<Longrightarrow> rd16 (wr16 m a v) b = rd16 m b"
  by (simp add: rd16_def rd_bytes_wr16_disj)

lemma rd16_wr32_disj [mem_simps]: "b + 2 \<le> a \<or> a + 4 \<le> b \<Longrightarrow> rd16 (wr32 m a v) b = rd16 m b"
  by (simp add: rd16_def rd_bytes_wr32_disj)

lemma rd32_wr16_disj [mem_simps]: "b + 4 \<le> a \<or> a + 2 \<le> b \<Longrightarrow> rd32 (wr16 m a v) b = rd32 m b"
  by (simp add: rd32_def rd_bytes_wr16_disj)

lemma rd32_wr32_disj [mem_simps]: "b + 4 \<le> a \<or> a + 4 \<le> b \<Longrightarrow> rd32 (wr32 m a v) b = rd32 m b"
  by (simp add: rd32_def rd_bytes_wr32_disj)

lemma rd16_wr_bytes_disj [mem_simps]: "b + 2 \<le> a \<or> a + length bs \<le> b \<Longrightarrow> rd16 (wr_bytes m a bs) b = rd16 m b"
  by (simp add: rd16_def rd_wr_bytes_disj)

lemma rd32_wr_bytes_disj [mem_simps]: "b + 4 \<le> a \<or> a + length bs \<le> b \<Longrightarrow> rd32 (wr_bytes m a bs) b = rd32 m b"
  by (simp add: rd32_def rd_wr_bytes_disj)

lemma memmove_outside [mem_simps]: "i < a \<or> a + n \<le> i \<Longrightarrow> memmove m a s n i = m i"
  by (simp add: memmove_def wr_bytes_outside)

lemma rd16_memmove_disj [mem_simps]: "b + 2 \<le> a \<or> a + n \<le> b \<Longrightarrow> rd16 (memmove m a s n) b = rd16 m b"
  by (simp add: memmove_def rd16_wr_bytes_disj)

lemma rd32_memmove_disj [mem_simps]: "b + 4 \<le> a \<or> a + n \<le> b \<Longrightarrow> rd32 (memmove m a s n) b = rd32 m b"
  by (simp add: memmove_def rd32_wr_bytes_disj)

lemma rd_bytes_memmove_disj [mem_simps]:
  "b + k \<le> a \<or> a + n \<le> b \<Longrightarrow> rd_bytes (memmove m a s n) b k = rd_bytes m b k"
  by (simp add: memmove_def rd_wr_bytes_disj)

lemma rd_bytes_memmove_inside:
  assumes "i + k \<le> n"
  shows "rd_bytes (memmove m a s n) (a + i) k = rd_bytes m (s + i) k"
  using assms by (intro nth_equalityI) (auto simp: memmove_def wr_bytes_def add.assoc)

lemma rd16_memmove_inside:
  "i + 2 \<le> n \<Longrightarrow> rd16 (memmove m a s n) (a + i) = rd16 m (s + i)"
  by (simp add: rd16_def rd_bytes_memmove_inside)

lemma rd32_memmove_inside:
  "i + 4 \<le> n \<Longrightarrow> rd32 (memmove m a s n) (a + i) = rd32 m (s + i)"
  by (simp add: rd32_def rd_bytes_memmove_inside)

lemma rd_bytes_upd_disj [mem_simps]: "x < a \<or> a + n \<le> x \<Longrightarrow> rd_bytes (m(x := v)) a n = rd_bytes m a n"
  by (rule rd_bytes_cong) auto

lemma rd16_upd_disj [mem_simps]: "x < a \<or> a + 2 \<le> x \<Longrightarrow> rd16 (m(x := v)) a = rd16 m a"
  by (simp add: rd16_def rd_bytes_upd_disj)

lemma rd32_upd_disj [mem_simps]: "x < a \<or> a + 4 \<le> x \<Longrightarrow> rd32 (m(x := v)) a = rd32 m a"
  by (simp add: rd32_def rd_bytes_upd_disj)

section \<open>Alignment (shared/align_util.hpp)\<close>

definition AlignUp :: "u64 \<Rightarrow> u32 \<Rightarrow> u64" where
  "AlignUp addr alignment = (addr + ucast alignment - 1) AND NOT (ucast alignment - 1)"

definition AlignDown :: "'a::len word \<Rightarrow> u64 \<Rightarrow> 'a word" where
  "AlignDown value alignment = ucast ((ucast value :: u64) AND NOT (alignment - 1))"

lemma and_not_mask_word:
  "(w :: 'a::len word) AND NOT (2 ^ k - 1) = push_bit k (drop_bit k w)"
  by (rule bit_word_eqI)
    (auto simp: bit_simps mask_eq_exp_minus_1 [symmetric] not_less)

lemma unat_push_drop:
  "unat (push_bit k (drop_bit k (w :: 'a::len word))) = unat w div 2 ^ k * 2 ^ k"
proof -
  have "unat w div 2 ^ k * 2 ^ k \<le> unat w"
    by simp
  then have "unat w div 2 ^ k * 2 ^ k < 2 ^ LENGTH('a)"
    using unsigned_less [of w, where ?'a = nat] by (rule le_less_trans)
  then show ?thesis
    by (simp only: unsigned_push_bit_eq unsigned_drop_bit_eq)
      (simp add: take_bit_eq_mod drop_bit_eq_div push_bit_eq_mult)
qed

lemma unat_AlignDown:
  assumes "LENGTH('a) \<le> 64"
  shows "unat (AlignDown (v :: 'a::len word) (2 ^ k)) = unat v div 2 ^ k * 2 ^ k"
proof -
  have "unat v div 2 ^ k * 2 ^ k \<le> unat v"
    by simp
  then have "unat v div 2 ^ k * 2 ^ k < 2 ^ LENGTH('a)"
    using unsigned_less [of v, where ?'a = nat] by (rule le_less_trans)
  moreover have "unat v < 2 ^ 64"
    by (rule less_le_trans [OF unsigned_less]) (use power_increasing [OF assms, of "2 :: nat"] in simp)
  ultimately show ?thesis
    by (simp add: AlignDown_def and_not_mask_word unsigned_ucast_eq unat_push_drop take_bit_eq_mod)
qed

lemma unat_AlignUp:
  assumes "k < 32" "unat v + 2 ^ k - 1 < 2 ^ 64"
  shows "unat (AlignUp v (2 ^ k)) = (unat v + 2 ^ k - 1) div 2 ^ k * 2 ^ k"
proof -
  have p: "(2 :: nat) ^ k < 2 ^ 32" using assms(1) by (intro power_strict_increasing) simp_all
  have u: "(ucast (2 ^ k :: u32) :: u64) = 2 ^ k"
  proof (rule word_unat_eq_iff [THEN iffD2])
    have "unat (word_of_nat (2 ^ k) :: u32) = 2 ^ k" "unat (word_of_nat (2 ^ k) :: u64) = 2 ^ k"
      using p by (simp_all only: unat_of_nat) simp_all
    then show "unat (ucast (2 ^ k :: u32) :: u64) = unat (2 ^ k :: u64)"
      by (metis of_nat_numeral of_nat_power unat_ucast_u32_u64)
  qed
  have "(2 :: nat) ^ k < 2 ^ 64" using assms(1) by (intro power_strict_increasing) simp_all
  have "v + 2 ^ k - 1 = word_of_nat (unat v + 2 ^ k - 1)"
    by (simp add: of_nat_diff Suc_le_eq)
  then have "unat (v + 2 ^ k - 1) = unat v + 2 ^ k - 1"
    using assms(2) by (simp only: unat_of_nat) (simp add: take_bit_eq_mod)
  then show ?thesis
    by (simp only: AlignUp_def u and_not_mask_word unat_push_drop)
qed

section \<open>Comparing byte strings\<close>

text \<open>Only the sign of the C result is specified and used; the model returns -1, 0 or 1.\<close>

fun memcmp :: "u8 list \<Rightarrow> u8 list \<Rightarrow> int" where
  "memcmp (x # xs) (y # ys) = (if x < y then -1 else if y < x then 1 else memcmp xs ys)"
| "memcmp xs ys = 0"

lemma memcmp_take_less:
  "memcmp (take (min (length b) (length a)) a) (take (min (length b) (length a)) b) < 0 \<longleftrightarrow>
     a < b \<and> take (min (length b) (length a)) a \<noteq> take (min (length b) (length a)) b"
  by (induction a b rule: memcmp.induct) auto

lemma memcmp_eq_0:
  "length a = length b \<Longrightarrow> memcmp a b = 0 \<longleftrightarrow> a = b"
  by (induction a b rule: memcmp.induct) auto

lemma memcmp_antisym: "memcmp b a = - memcmp a b"
  by (induction a b rule: memcmp.induct) auto

lemma Nil_less_iff: "[] < (ys :: 'a::order list) \<longleftrightarrow> ys \<noteq> []"
  by (cases ys) auto

lemma prefix_less_length:
  fixes a b :: "u8 list"
  assumes "take (min (length b) (length a)) a = take (min (length b) (length a)) b"
  shows "a < b \<longleftrightarrow> length a < length b"
  using assms by (induction a b rule: memcmp.induct) (auto simp: Nil_less_iff)

section \<open>The binary-search loop of the page layouts\<close>

function bisect :: "(nat \<Rightarrow> bool) \<Rightarrow> nat \<Rightarrow> nat \<Rightarrow> nat" where
  "bisect goes_right lo hi =
     (if lo < hi then
        (let mid = lo + (hi - lo) div 2
         in if goes_right mid then bisect goes_right (mid + 1) hi else bisect goes_right lo mid)
      else lo)"
  by pat_completeness auto
termination
  by (relation "measure (\<lambda>(p, lo, hi). hi - lo)") auto

declare bisect.simps [simp del]

lemma bisect_done [simp]: "\<not> lo < hi \<Longrightarrow> bisect p lo hi = lo"
  by (simp add: bisect.simps [of p lo hi])

lemma bisect_step:
  "lo < hi \<Longrightarrow> mid = lo + (hi - lo) div 2 \<Longrightarrow>
    bisect p lo hi = (if p mid then bisect p (mid + 1) hi else bisect p lo mid)"
  by (simp add: bisect.simps [of p lo hi] Let_def)

lemma bisect_spec:
  assumes "lo \<le> hi" and "\<And>i. i < lo \<Longrightarrow> p i" and "\<And>i. hi \<le> i \<Longrightarrow> i < n \<Longrightarrow> \<not> p i"
    and "\<And>i j. i \<le> j \<Longrightarrow> j < n \<Longrightarrow> p j \<Longrightarrow> p i" and "hi \<le> n"
  shows "lo \<le> bisect p lo hi \<and> bisect p lo hi \<le> hi \<and> (\<forall>i < bisect p lo hi. p i) \<and>
    (\<forall>i. bisect p lo hi \<le> i \<longrightarrow> i < n \<longrightarrow> \<not> p i)"
  using assms
proof (induction p lo hi rule: bisect.induct)
  case (1 p lo hi)
  note mono = "1.prems"(4)
  define mid where "mid = lo + (hi - lo) div 2"
  show ?case
  proof (cases "lo < hi")
    case False
    with "1.prems" show ?thesis by auto
  next
    case True
    then have mid: "lo \<le> mid" "mid < hi" by (auto simp: mid_def)
    show ?thesis
    proof (cases "p mid")
      case pm: True
      have below: "\<And>i. i < mid + 1 \<Longrightarrow> p i"
        using mono [of _ mid] pm mid "1.prems"(5) by (simp add: less_Suc_eq_le)
      have "mid + 1 \<le> bisect p (mid + 1) hi \<and> bisect p (mid + 1) hi \<le> hi \<and>
        (\<forall>i < bisect p (mid + 1) hi. p i) \<and>
        (\<forall>i. bisect p (mid + 1) hi \<le> i \<longrightarrow> i < n \<longrightarrow> \<not> p i)"
        using "1.IH"(1) [OF True mid_def pm _ below "1.prems"(3) mono "1.prems"(5)] mid by simp
      with True pm mid show ?thesis
        by (auto simp: bisect_step [OF True mid_def])
    next
      case pm: False
      have above: "\<And>i. mid \<le> i \<Longrightarrow> i < n \<Longrightarrow> \<not> p i"
        using mono pm mid by blast
      have "lo \<le> bisect p lo mid \<and> bisect p lo mid \<le> mid \<and>
        (\<forall>i < bisect p lo mid. p i) \<and>
        (\<forall>i. bisect p lo mid \<le> i \<longrightarrow> i < n \<longrightarrow> \<not> p i)"
        using "1.IH"(2) [OF True mid_def pm _ "1.prems"(2) above mono] mid "1.prems"(5) by simp
      with True pm mid show ?thesis
        by (auto simp: bisect_step [OF True mid_def])
    qed
  qed
qed

lemma bisect_cong:
  assumes "\<And>i. i < hi \<Longrightarrow> p i = q i"
  shows "bisect p lo hi = bisect q lo hi"
  using assms
proof (induction p lo hi rule: bisect.induct)
  case (1 p lo hi)
  define mid where "mid = lo + (hi - lo) div 2"
  show ?case
  proof (cases "lo < hi")
    case True
    then have "mid < hi" by (auto simp: mid_def)
    with "1.IH" [OF True mid_def] "1.prems" True show ?thesis
      by (auto simp: bisect_step [OF True mid_def])
  qed simp
qed

lemma bisect_le: "lo \<le> hi \<Longrightarrow> lo \<le> bisect p lo hi \<and> bisect p lo hi \<le> hi"
proof (induction p lo hi rule: bisect.induct)
  case (1 p lo hi)
  define mid where "mid = lo + (hi - lo) div 2"
  show ?case
  proof (cases "lo < hi")
    case False
    with "1.prems" show ?thesis by simp
  next
    case True
    then have "lo \<le> mid" "mid < hi" by (auto simp: mid_def)
    with "1.IH" [OF True mid_def] True show ?thesis
      by (auto simp: bisect_step [OF True mid_def])
  qed
qed

section \<open>Sorted lists\<close>

lemma insort_at_position:
  fixes xs :: "'a::linorder list"
  assumes "r \<le> length xs" and "\<And>i. i < r \<Longrightarrow> xs ! i < x" and "r < length xs \<Longrightarrow> x \<le> xs ! r"
  shows "insort x xs = take r xs @ x # drop r xs"
  using assms
proof (induction xs arbitrary: r)
  case Nil
  then show ?case by simp
next
  case (Cons y ys)
  show ?case
  proof (cases r)
    case 0
    with Cons.prems show ?thesis by simp
  next
    case (Suc r')
    with Cons.prems(2) [of 0] have "y < x" by simp
    moreover have "insort x ys = take r' ys @ x # drop r' ys"
    proof (rule Cons.IH)
      show "i < r' \<Longrightarrow> ys ! i < x" for i
        using Cons.prems(2) [of "Suc i"] Suc by simp
    qed (use Cons.prems Suc in auto)
    ultimately show ?thesis using Suc by (simp add: not_le [symmetric])
  qed
qed

lemma sorted_wrt_less_nth_mono:
  fixes xs :: "'a::linorder list"
  assumes "sorted_wrt (<) xs" "i \<le> j" "j < length xs"
  shows "xs ! i \<le> xs ! j"
  using assms sorted_wrt_nth_less [of "(<)" xs i j] by (cases "i = j") auto

lemma strict_sorted_insort:
  fixes xs :: "'a::linorder list"
  assumes "sorted_wrt (<) xs" "x \<notin> set xs"
  shows "sorted_wrt (<) (insort x xs)"
  using assms by (simp add: strict_sorted_iff sorted_insort distinct_insort)

lemma sorted_wrt_remove_nth:
  assumes "sorted_wrt P xs" "i < length xs"
  shows "sorted_wrt P (take i xs @ drop (Suc i) xs)"
proof -
  have "sorted_wrt P (take i xs @ xs ! i # drop (Suc i) xs)"
    using assms by (simp add: id_take_nth_drop [symmetric])
  then show ?thesis by (simp add: sorted_wrt_append)
qed

lemma sorted_wrt_members:
  "sorted_wrt P xs \<Longrightarrow> x \<in> set xs \<Longrightarrow> y \<in> set xs \<Longrightarrow> x \<noteq> y \<Longrightarrow> P x y \<or> P y x"
  by (induction xs) auto

lemma bisect_filter:
  assumes mono: "sorted_wrt (\<lambda>x y. Q y \<longrightarrow> Q x) ks" and p: "\<And>i. i < length ks \<Longrightarrow> p i \<longleftrightarrow> Q (ks ! i)"
  shows "bisect p 0 (length ks) = length (filter Q ks)" "drop (length (filter Q ks)) ks = dropWhile Q ks"
    "dropWhile Q ks = filter (\<lambda>k. \<not> Q k) ks"
proof -
  define P where "P i = (i < length ks \<and> Q (ks ! i))" for i
  define r where "r = bisect P 0 (length ks)"
  have mono': "P i" if "i \<le> j" "j < length ks" "P j" for i j
    using sorted_wrt_nth_less [OF mono, of i j] that by (cases "i = j") (auto simp: P_def)
  have r: "r \<le> length ks \<and> (\<forall>i < r. P i) \<and> (\<forall>i. r \<le> i \<longrightarrow> i < length ks \<longrightarrow> \<not> P i)"
    unfolding r_def by (rule conjunct2 [OF bisect_spec [OF le0 _ _ mono' order_refl]]) simp_all
  then have t: "filter Q (take r ks) = take r ks" "filter Q (drop r ks) = []" "r \<le> length ks"
    by (auto simp: filter_id_conv filter_empty_conv in_set_conv_nth P_def)
  then have f: "filter Q ks = take r ks"
    by (metis append_Nil2 append_take_drop_id filter_append)
  have "bisect p 0 (length ks) = r"
    unfolding r_def using p by (intro bisect_cong) (simp add: P_def)
  with f t(3) show "bisect p 0 (length ks) = length (filter Q ks)" by simp
  have "dropWhile Q ks = dropWhile Q (take r ks @ drop r ks)" by simp
  also have "\<dots> = dropWhile Q (drop r ks)"
    using t(1) by (intro dropWhile_append2) (auto simp: filter_id_conv)
  also have "\<dots> = drop r ks"
    using t(2) by (cases "drop r ks") (auto split: if_splits)
  finally have d: "dropWhile Q ks = drop r ks" .
  with f t(3) show "drop (length (filter Q ks)) ks = dropWhile Q ks" by simp
  have "filter (\<lambda>k. \<not> Q k) (take r ks @ drop r ks) = drop r ks"
    using t(1,2) unfolding filter_append by (auto simp: filter_id_conv filter_empty_conv)
  with d show "dropWhile Q ks = filter (\<lambda>k. \<not> Q k) ks" by simp
qed

lemma bisect_position:
  fixes ks :: "'a::linorder list"
  assumes srt: "sorted_wrt (<) ks" and p: "\<And>i. i < length ks \<Longrightarrow> p i \<longleftrightarrow> ks ! i < b"
  shows "bisect p 0 (length ks) = length (filter (\<lambda>k. k < b) ks)"
  using srt p by (intro bisect_filter(1)) (auto elim: sorted_wrt_mono_rel [rotated])

lemma takeWhile_eq_filter:
  "sorted_wrt (\<lambda>x y. P y \<longrightarrow> P x) xs \<Longrightarrow> takeWhile P xs = filter P xs"
proof (induction xs)
  case (Cons x xs)
  then show ?case by (auto simp: filter_empty_conv)
qed simp

end
