(* ===== verification/SlottedPage.thy ===== *)
theory SlottedPage
  imports Prelude
begin

text \<open>
  The slotted page that both B-tree node layouts use
  (\<^verbatim>\<open>include/access/index/layouts/varlen/varlen_layout_models.hpp\<close> and the parts of
  \<^verbatim>\<open>varlen_layout_leaf.hpp\<close> / \<^verbatim>\<open>varlen_layout_intermediate.hpp\<close> that the source repeats in
  both classes, there marked "should be templated").

  A page is a byte memory of \<^verbatim>\<open>DB7_PAGE_SIZE\<close> = 8192 bytes: the \<^verbatim>\<open>VarlenHeader\<close> at offset 0
  (\<^verbatim>\<open>pid\<close> 0, \<^verbatim>\<open>rlink\<close> 4, \<^verbatim>\<open>count\<close> 8, \<^verbatim>\<open>max_val\<close> 10, \<^verbatim>\<open>level\<close> 12, \<^verbatim>\<open>heap_offset\<close> 16; the base
  struct is 16 bytes because of its 4-byte alignment, so the header is 20 bytes), then the
  array of 16-bit slots growing up, and the heap of records growing down from the end of the
  page. A record is a fixed-size header that holds the key length at \<^verbatim>\<open>len_pos\<close>, then the key.

  The two layouts differ in the record header only, which is the parameter \<^verbatim>\<open>slot_fmt\<close>: the leaf
  header is a bare 16-bit length (size 2, alignment 2), the intermediate header is
  \<^verbatim>\<open>{u32 result; u16 len}\<close> (size 8, alignment 4, length at offset 4). The lemmas are proved once,
  in the locale \<open>slot_layout\<close>, and interpreted for both formats.
\<close>

section \<open>Constants and keys\<close>

definition DB7_PAGE_SIZE :: nat where
  "DB7_PAGE_SIZE = 8192"

definition DB7_MAX_ROW_SIZE :: nat where
  "DB7_MAX_ROW_SIZE = 819"

definition header_size :: nat where
  "header_size = 20"

definition UNDEFINED_PAGE :: page_id where
  "UNDEFINED_PAGE = 0xFFFFFFFF"

definition UNDEFINED_OFFSET :: u16 where
  "UNDEFINED_OFFSET = 0xFFFF"

text \<open>A key is a length and a pointer to a buffer, null for a default-constructed key.\<close>

record Key =
  klen :: u16
  kdata :: "u8 list option"

definition key_bytes :: "Key \<Rightarrow> u8 list" where
  "key_bytes k = take (unat (klen k)) (case kdata k of None \<Rightarrow> [] | Some bs \<Rightarrow> bs)"

definition mk_key :: "u8 list \<Rightarrow> Key" where
  "mk_key bs = \<lparr>klen = word_of_nat (length bs), kdata = Some bs\<rparr>"

definition key_ok :: "Key \<Rightarrow> bool" where
  "key_ok k \<longleftrightarrow> (\<exists>bs. kdata k = Some bs \<and> unat (klen k) \<le> length bs)"

section \<open>The node header\<close>

definition hdr_pid :: "mem \<Rightarrow> page_id" where
  "hdr_pid d = rd32 d 0"

definition GetRLink :: "mem \<Rightarrow> page_id" where
  "GetRLink d = rd32 d 4"

definition GetCount :: "mem \<Rightarrow> u16" where
  "GetCount d = rd16 d 8"

definition hdr_max_val :: "mem \<Rightarrow> u16" where
  "hdr_max_val d = rd16 d 10"

definition GetLevel :: "mem \<Rightarrow> u8" where
  "GetLevel d = d 12"

definition hdr_heap_offset :: "mem \<Rightarrow> u16" where
  "hdr_heap_offset d = rd16 d 16"

definition set_rlink :: "mem \<Rightarrow> page_id \<Rightarrow> mem" where
  "set_rlink d v = wr32 d 4 v"

definition set_count :: "mem \<Rightarrow> u16 \<Rightarrow> mem" where
  "set_count d v = wr16 d 8 v"

definition set_max_val :: "mem \<Rightarrow> u16 \<Rightarrow> mem" where
  "set_max_val d v = wr16 d 10 v"

definition set_heap_offset :: "mem \<Rightarrow> u16 \<Rightarrow> mem" where
  "set_heap_offset d v = wr16 d 16 v"

definition WriteHeader :: "mem \<Rightarrow> page_id \<Rightarrow> page_id \<Rightarrow> u16 \<Rightarrow> u16 \<Rightarrow> u8 \<Rightarrow> u16 \<Rightarrow> mem" where
  "WriteHeader d pid rlink count max_val level heap_offset =
     (let d1 = wr32 d 0 pid;
          d2 = set_rlink d1 rlink;
          d3 = set_count d2 count;
          d4 = set_max_val d3 max_val;
          d5 = d4(12 := level)
      in set_heap_offset d5 heap_offset)"

definition InitHeader :: "mem \<Rightarrow> u32 \<Rightarrow> u8 \<Rightarrow> page_id \<Rightarrow> mem" where
  "InitHeader d count level pid =
     WriteHeader d pid UNDEFINED_PAGE (ucast count) UNDEFINED_OFFSET level (word_of_nat DB7_PAGE_SIZE)"

section \<open>Slots\<close>

definition slot_addr :: "nat \<Rightarrow> nat" where
  "slot_addr i = header_size + 2 * i"

definition get_slot :: "mem \<Rightarrow> nat \<Rightarrow> u16" where
  "get_slot d i = rd16 d (slot_addr i)"

definition set_slot :: "mem \<Rightarrow> nat \<Rightarrow> u16 \<Rightarrow> mem" where
  "set_slot d i v = wr16 d (slot_addr i) v"

definition ShiftRightInsert :: "mem \<Rightarrow> nat \<Rightarrow> u16 \<Rightarrow> u16 \<Rightarrow> mem" where
  "ShiftRightInsert d idx count heap_offset =
     set_slot (memmove d (slot_addr (idx + 1)) (slot_addr idx) ((unat count - idx) * 2)) idx heap_offset"

text \<open>For an index at or past the count the C size expression is negative and the move runs off
  the page; the model reports it.\<close>

definition ShiftLeftDelete :: "mem \<Rightarrow> nat \<Rightarrow> u16 \<Rightarrow> mem res" where
  "ShiftLeftDelete d idx count =
     DB7_ASSERT (count \<ge> 1) ''Nothing to delete''
       (if idx < unat count
        then Inr (memmove d (slot_addr idx) (slot_addr (idx + 1)) ((unat count - idx - 1) * 2))
        else Inl OutOfRange)"

section \<open>Records\<close>

record slot_fmt =
  hdr_size :: nat
  hdr_align :: nat
  len_pos :: nat

definition slot_len :: "slot_fmt \<Rightarrow> mem \<Rightarrow> nat \<Rightarrow> u16" where
  "slot_len F d off = rd16 d (off + len_pos F)"

text \<open>The header bytes in front of the length: nothing for a leaf, the child page id for an
  intermediate node.\<close>

definition slot_val :: "slot_fmt \<Rightarrow> mem \<Rightarrow> nat \<Rightarrow> u8 list" where
  "slot_val F d off = rd_bytes d off (len_pos F)"

definition slot_key :: "slot_fmt \<Rightarrow> mem \<Rightarrow> nat \<Rightarrow> u8 list" where
  "slot_key F d off = rd_bytes d (off + hdr_size F) (unat (slot_len F d off))"

definition CalculateHeapOffset :: "slot_fmt \<Rightarrow> u16 \<Rightarrow> u16 \<Rightarrow> u16" where
  "CalculateHeapOffset F prev_heap_offset tuple_len =
     (let heap_offset = prev_heap_offset - tuple_len - word_of_nat (hdr_size F)
      in AlignDown heap_offset (word_of_nat (hdr_align F)))"

text \<open>\<open>val\<close> is the encoded header value; padding bytes of the header keep what was there.\<close>

definition AppendHeap :: "slot_fmt \<Rightarrow> mem \<Rightarrow> u8 list \<Rightarrow> Key \<Rightarrow> mem \<times> u16" where
  "AppendHeap F d val key =
     (let new_heap_offset = CalculateHeapOffset F (hdr_heap_offset d) (klen key);
          a = unat new_heap_offset;
          d1 = wr16 (wr_bytes d a val) (a + len_pos F) (klen key);
          d2 = wr_bytes d1 (a + hdr_size F) (key_bytes key)
      in (set_heap_offset d2 new_heap_offset, new_heap_offset))"

definition HasSpaceFor :: "slot_fmt \<Rightarrow> mem \<Rightarrow> u16 \<Rightarrow> bool" where
  "HasSpaceFor F d tuple_len =
     (let slot_size = (GetCount d + 1) * 2;
          new_heap_offset = CalculateHeapOffset F (hdr_heap_offset d) tuple_len
      in unat new_heap_offset \<ge> unat slot_size + header_size)"

definition MoveHeap :: "slot_fmt \<Rightarrow> mem \<Rightarrow> u16 \<Rightarrow> u16 \<Rightarrow> (mem \<times> u16) res" where
  "MoveHeap F d old_offset len =
     (let new_heap_offset = CalculateHeapOffset F (hdr_heap_offset d) len;
          d1 = memmove d (unat new_heap_offset) (unat old_offset) (hdr_size F + unat len);
          d2 = set_heap_offset d1 new_heap_offset
      in DB7_ASSERT (new_heap_offset \<ge> old_offset) ''compaction must not move tuples down''
           (Inr (d2, new_heap_offset)))"

fun compact_loop :: "slot_fmt \<Rightarrow> mem \<Rightarrow> nat list \<Rightarrow> mem res" where
  "compact_loop F d [] = Inr d"
| "compact_loop F d (idx # idxs) =
     ebind (MoveHeap F d (get_slot d idx) (slot_len F d (unat (get_slot d idx))))
       (\<lambda>(d', off). compact_loop F (set_slot d' idx off) idxs)"

text \<open>\<^verbatim>\<open>std::sort\<close> with the comparator \<open>slots[a] > slots[b]\<close>: slot offsets are pairwise different on a
  well-formed page, so the order is determined.\<close>

definition CompactHeap :: "slot_fmt \<Rightarrow> mem \<Rightarrow> nat \<Rightarrow> mem res" where
  "CompactHeap F d count =
     DB7_ASSERT (unat (hdr_heap_offset d) = DB7_PAGE_SIZE) ''heap not set correctly''
       (compact_loop F d (sort_key (\<lambda>i. - int (unat (get_slot d i))) [0..<count]))"

fun split_scan :: "nat list \<Rightarrow> nat \<Rightarrow> nat \<Rightarrow> nat \<Rightarrow> nat \<Rightarrow> nat" where
  "split_scan [] target accumulated i count = count - 1"
| "split_scan (l # ls) target accumulated i count =
     (if accumulated + l \<ge> target then min (i + 1) (count - 1)
      else split_scan ls target (accumulated + l) (i + 1) count)"

text \<open>The sums are 32 bits wide in the source; at most 65535 lengths of at most 65535 fit.\<close>

definition FindSplitPoint :: "slot_fmt \<Rightarrow> mem \<Rightarrow> nat \<Rightarrow> nat res" where
  "FindSplitPoint F d count =
     DB7_ASSERT (count \<ge> 2) ''cannot split fewer than two tuples''
       (let lens = map (\<lambda>i. unat (slot_len F d (unat (get_slot d i)))) [0..<count];
            live = sum_list lens
        in Inr (split_scan lens (live div 2) 0 0 count))"

section \<open>Key comparison\<close>

text \<open>\<open>CmpFull slot main\<close>: negative if slot < main, zero if equal, positive if slot > main.\<close>

definition CmpFull :: "u8 list \<Rightarrow> u8 list \<Rightarrow> int" where
  "CmpFull slot_bs main_bs =
     (let min_len = min (length main_bs) (length slot_bs);
          cmp = memcmp (take min_len slot_bs) (take min_len main_bs)
      in if cmp \<noteq> 0 then cmp
         else (if length main_bs < length slot_bs then 1 else 0)
            - (if length main_bs > length slot_bs then 1 else 0))"

lemma CmpFull_less: "CmpFull a b < 0 \<longleftrightarrow> a < b"
proof -
  let ?n = "min (length b) (length a)"
  show ?thesis
  proof (cases "take ?n a = take ?n b")
    case True
    then have "memcmp (take ?n a) (take ?n b) = 0"
      by (simp add: memcmp_eq_0)
    moreover from True have "a < b \<longleftrightarrow> length a < length b"
      by (rule prefix_less_length)
    ultimately show ?thesis by (simp add: CmpFull_def Let_def)
  next
    case False
    then have "memcmp (take ?n a) (take ?n b) \<noteq> 0"
      by (simp add: memcmp_eq_0)
    with False show ?thesis
      using memcmp_take_less [of b a] by (simp add: CmpFull_def Let_def)
  qed
qed

lemma CmpFull_antisym: "CmpFull b a = - CmpFull a b"
  by (simp add: CmpFull_def Let_def memcmp_antisym [of "take _ b"] min.commute)

lemma CmpFull_greater: "CmpFull a b > 0 \<longleftrightarrow> b < a"
  using CmpFull_less [of b a] CmpFull_antisym [of b a] by simp

lemma CmpFull_eq: "CmpFull a b = 0 \<longleftrightarrow> a = b"
  using CmpFull_less [of a b] CmpFull_greater [of a b]
  by (cases "CmpFull a b" "0 :: int" rule: linorder_cases) auto

lemma CmpFull_le: "CmpFull a b \<le> 0 \<longleftrightarrow> a \<le> b"
  using CmpFull_greater [of a b] by (simp add: not_less [symmetric])

section \<open>Well-formed pages and their abstraction\<close>

definition slot_end :: "slot_fmt \<Rightarrow> mem \<Rightarrow> nat \<Rightarrow> nat" where
  "slot_end F d s = s + hdr_size F + unat (slot_len F d s)"

definition slots_of :: "mem \<Rightarrow> nat \<Rightarrow> nat list" where
  "slots_of d n = map (\<lambda>i. unat (get_slot d i)) [0..<n]"

definition page_slots :: "mem \<Rightarrow> nat list" where
  "page_slots d = slots_of d (unat (GetCount d))"

type_synonym entry = "u8 list \<times> u8 list"

definition slot_ent :: "slot_fmt \<Rightarrow> mem \<Rightarrow> nat \<Rightarrow> entry" where
  "slot_ent F d s = (slot_key F d s, slot_val F d s)"

definition page_ents :: "slot_fmt \<Rightarrow> mem \<Rightarrow> entry list" where
  "page_ents F d = map (slot_ent F d) (page_slots d)"

definition page_keys :: "slot_fmt \<Rightarrow> mem \<Rightarrow> u8 list list" where
  "page_keys F d = map (slot_key F d) (page_slots d)"

definition page_fence :: "slot_fmt \<Rightarrow> mem \<Rightarrow> u8 list option" where
  "page_fence F d =
     (if hdr_max_val d = UNDEFINED_OFFSET then None else Some (slot_key F d (unat (hdr_max_val d))))"

definition slot_ok :: "slot_fmt \<Rightarrow> mem \<Rightarrow> nat \<Rightarrow> nat \<Rightarrow> bool" where
  "slot_ok F d lb s \<longleftrightarrow> lb \<le> s \<and> hdr_align F dvd s \<and> slot_end F d s \<le> DB7_PAGE_SIZE"

definition slots_disjoint :: "slot_fmt \<Rightarrow> mem \<Rightarrow> nat list \<Rightarrow> bool" where
  "slots_disjoint F d ss \<longleftrightarrow>
     sorted_wrt (\<lambda>s t. slot_end F d s \<le> t \<or> slot_end F d t \<le> s) ss"

definition page_ok :: "slot_fmt \<Rightarrow> mem \<Rightarrow> bool" where
  "page_ok F d \<longleftrightarrow>
     slot_addr (unat (GetCount d)) \<le> unat (hdr_heap_offset d) \<and>
     unat (hdr_heap_offset d) \<le> DB7_PAGE_SIZE \<and>
     hdr_align F dvd unat (hdr_heap_offset d) \<and>
     (\<forall>s \<in> set (page_slots d). slot_ok F d (unat (hdr_heap_offset d)) s) \<and>
     slots_disjoint F d (page_slots d) \<and>
     (hdr_max_val d = UNDEFINED_OFFSET \<or>
        slot_ok F d (unat (hdr_heap_offset d)) (unat (hdr_max_val d)))"

text \<open>What appending a record with key \<open>bs\<close> does to a page.\<close>

definition appended :: "slot_fmt \<Rightarrow> mem \<Rightarrow> u8 list \<Rightarrow> u8 list \<Rightarrow> mem \<Rightarrow> u16 \<Rightarrow> bool" where
  "appended F d val bs d' off \<longleftrightarrow>
     unat off = (unat (hdr_heap_offset d) - length bs - hdr_size F) div hdr_align F * hdr_align F \<and>
     hdr_heap_offset d' = off \<and>
     unat (slot_len F d' (unat off)) = length bs \<and>
     slot_ent F d' (unat off) = (bs, val) \<and>
     (\<forall>x. (x < unat off \<or> unat off + hdr_size F + length bs \<le> x) \<and> (x < 16 \<or> 18 \<le> x) \<longrightarrow> d' x = d x)"

lemmas hdr_defs = hdr_pid_def GetRLink_def GetCount_def hdr_max_val_def GetLevel_def
  hdr_heap_offset_def set_rlink_def set_count_def set_max_val_def set_heap_offset_def
  get_slot_def set_slot_def slot_addr_def header_size_def

lemma length_slots_of [simp]: "length (slots_of d n) = n"
  by (simp add: slots_of_def)

lemma nth_slots_of [simp]: "i < n \<Longrightarrow> slots_of d n ! i = unat (get_slot d i)"
  by (simp add: slots_of_def)

lemma length_page_slots [simp]: "length (page_slots d) = unat (GetCount d)"
  by (simp add: page_slots_def)

lemma length_page_keys [simp]: "length (page_keys F d) = unat (GetCount d)"
  by (simp add: page_keys_def)

lemma nth_page_slots [simp]: "i < unat (GetCount d) \<Longrightarrow> page_slots d ! i = unat (get_slot d i)"
  by (simp add: page_slots_def)

lemma length_page_ents [simp]: "length (page_ents F d) = unat (GetCount d)"
  by (simp add: page_ents_def)

lemma nth_page_ents [simp]:
  "i < unat (GetCount d) \<Longrightarrow> page_ents F d ! i = slot_ent F d (unat (get_slot d i))"
  by (simp add: page_ents_def)

lemma page_keys_ents: "page_keys F d = map fst (page_ents F d)"
  by (simp add: page_keys_def page_ents_def slot_ent_def)

lemma nth_page_keys [simp]:
  "i < unat (GetCount d) \<Longrightarrow> page_keys F d ! i = slot_key F d (unat (get_slot d i))"
  by (simp add: page_keys_def)

lemma length_key_bytes: "key_ok k \<Longrightarrow> length (key_bytes k) = unat (klen k)"
  by (auto simp: key_ok_def key_bytes_def)

lemma length_slot_key [simp]: "length (slot_key F d s) = unat (slot_len F d s)"
  by (simp add: slot_key_def)

lemma key_bytes_mk_key [simp]: "length bs < 65536 \<Longrightarrow> key_bytes (mk_key bs) = bs"
  by (simp add: key_bytes_def mk_key_def unat_of_nat)

lemma klen_mk_key [simp]: "klen (mk_key bs) = word_of_nat (length bs)"
  by (simp add: mk_key_def)

lemma key_ok_mk_key: "length bs < 65536 \<Longrightarrow> key_ok (mk_key bs)"
  by (simp add: key_ok_def mk_key_def unat_of_nat)

lemma mk_key_slot_key [simp]: "klen (mk_key (slot_key F d s)) = slot_len F d s"
  by simp

section \<open>Slot array lemmas\<close>

definition insert_slot :: "mem \<Rightarrow> nat \<Rightarrow> u16 \<Rightarrow> mem" where
  "insert_slot d idx heap_offset =
     set_count (ShiftRightInsert d idx (GetCount d) heap_offset) (GetCount d + 1)"

lemma insert_slot_outside:
  assumes "idx \<le> unat (GetCount d)"
    "x < 8 \<or> 10 \<le> x" "x < slot_addr idx \<or> slot_addr (unat (GetCount d) + 1) \<le> x"
  shows "insert_slot d idx off x = d x"
  using assms by (auto simp: insert_slot_def ShiftRightInsert_def hdr_defs mem_simps)

lemma insert_slot_get:
  assumes "idx \<le> unat (GetCount d)" "j \<le> unat (GetCount d)"
  shows "get_slot (insert_slot d idx off) j =
    (if j < idx then get_slot d j else if j = idx then off else get_slot d (j - 1))"
proof -
  consider "j < idx" | "j = idx" | "idx < j" by linarith
  then show ?thesis
  proof cases
    case 3
    define i where "i = j - idx - 1"
    have j: "j = idx + 1 + i" using 3 by (simp add: i_def)
    have "rd16 (memmove d (20 + 2 * (idx + 1)) (20 + 2 * idx) ((unat (GetCount d) - idx) * 2))
        ((20 + 2 * (idx + 1)) + 2 * i) = rd16 d ((20 + 2 * idx) + 2 * i)"
      using assms j by (intro rd16_memmove_inside) auto
    with 3 show ?thesis
      by (simp add: insert_slot_def ShiftRightInsert_def hdr_defs mem_simps j algebra_simps)
  qed (use assms in \<open>simp_all add: insert_slot_def ShiftRightInsert_def hdr_defs mem_simps\<close>)
qed

lemma insert_slot_count:
  assumes "idx \<le> unat (GetCount d)"
  shows "GetCount (insert_slot d idx off) = GetCount d + 1"
  by (simp add: insert_slot_def hdr_defs mem_simps)

lemma insert_slot_header:
  assumes "idx \<le> unat (GetCount d)"
  shows "hdr_pid (insert_slot d idx off) = hdr_pid d" "GetRLink (insert_slot d idx off) = GetRLink d"
    "hdr_max_val (insert_slot d idx off) = hdr_max_val d" "GetLevel (insert_slot d idx off) = GetLevel d"
    "hdr_heap_offset (insert_slot d idx off) = hdr_heap_offset d"
  by (simp_all add: insert_slot_def ShiftRightInsert_def hdr_defs mem_simps)

lemma insert_slot_page_slots:
  assumes "idx \<le> unat (GetCount d)" "unat (GetCount d) + 1 < 65536"
  shows "page_slots (insert_slot d idx off) =
    take idx (page_slots d) @ unat off # drop idx (page_slots d)"
proof (rule nth_equalityI)
  have c: "unat (GetCount (insert_slot d idx off)) = unat (GetCount d) + 1"
    using assms by (simp add: insert_slot_count unat_word_ariths)
  then show "length (page_slots (insert_slot d idx off)) =
    length (take idx (page_slots d) @ unat off # drop idx (page_slots d))"
    using assms by simp
  fix i
  assume "i < length (page_slots (insert_slot d idx off))"
  then have "i \<le> unat (GetCount d)" using c by simp
  with assms c show "page_slots (insert_slot d idx off) ! i =
    (take idx (page_slots d) @ unat off # drop idx (page_slots d)) ! i"
    by (auto simp: insert_slot_get nth_append nth_Cons' min_def)
qed

definition delete_slot :: "mem \<Rightarrow> nat \<Rightarrow> mem" where
  "delete_slot d idx =
     set_count (memmove d (slot_addr idx) (slot_addr (idx + 1)) ((unat (GetCount d) - idx - 1) * 2))
       (GetCount d - 1)"

lemma delete_slot_outside:
  assumes "idx < unat (GetCount d)"
    "x < 8 \<or> 10 \<le> x" "x < slot_addr idx \<or> slot_addr (unat (GetCount d)) \<le> x"
  shows "delete_slot d idx x = d x"
  using assms by (auto simp: delete_slot_def hdr_defs mem_simps)

lemma delete_slot_get:
  assumes "idx < unat (GetCount d)" "j < unat (GetCount d) - 1"
  shows "get_slot (delete_slot d idx) j = (if j < idx then get_slot d j else get_slot d (j + 1))"
proof (cases "j < idx")
  case False
  define i where "i = j - idx"
  have j: "j = idx + i" using False by (simp add: i_def)
  have "rd16 (memmove d (20 + 2 * idx) (20 + 2 * (idx + 1)) ((unat (GetCount d) - idx - 1) * 2))
      ((20 + 2 * idx) + 2 * i) = rd16 d ((20 + 2 * (idx + 1)) + 2 * i)"
    using assms j by (intro rd16_memmove_inside) auto
  with False show ?thesis
    by (simp add: delete_slot_def hdr_defs mem_simps j algebra_simps)
qed (use assms in \<open>simp add: delete_slot_def hdr_defs mem_simps\<close>)

lemma delete_slot_header:
  shows "hdr_pid (delete_slot d idx) = hdr_pid d" "GetRLink (delete_slot d idx) = GetRLink d"
    "hdr_max_val (delete_slot d idx) = hdr_max_val d" "GetLevel (delete_slot d idx) = GetLevel d"
    "hdr_heap_offset (delete_slot d idx) = hdr_heap_offset d"
    "GetCount (delete_slot d idx) = GetCount d - 1"
  by (simp_all add: delete_slot_def hdr_defs mem_simps)

lemma delete_slot_page_slots:
  assumes "idx < unat (GetCount d)"
  shows "page_slots (delete_slot d idx) = take idx (page_slots d) @ drop (Suc idx) (page_slots d)"
proof (rule nth_equalityI)
  have c: "unat (GetCount (delete_slot d idx)) = unat (GetCount d) - 1"
    using assms by (simp add: delete_slot_header unat_sub word_le_nat_alt)
  then show "length (page_slots (delete_slot d idx)) =
    length (take idx (page_slots d) @ drop (Suc idx) (page_slots d))"
    using assms by simp
  fix i
  assume "i < length (page_slots (delete_slot d idx))"
  with c have "i < unat (GetCount d) - 1" by simp
  with assms c show "page_slots (delete_slot d idx) ! i =
    (take idx (page_slots d) @ drop (Suc idx) (page_slots d)) ! i"
    by (auto simp: delete_slot_get nth_append min_def)
qed

section \<open>Lemmas shared by the two record formats\<close>

locale slot_layout =
  fixes F :: slot_fmt
  assumes fmt_align: "hdr_align F = 2 \<or> hdr_align F = 4"
    and fmt_len: "len_pos F + 2 \<le> hdr_size F"
    and fmt_size: "hdr_size F \<le> 8"
begin

lemma align_pos: "0 < hdr_align F"
  using fmt_align by auto

lemma align_dvd_page: "hdr_align F dvd DB7_PAGE_SIZE"
  using fmt_align by (auto simp: DB7_PAGE_SIZE_def)

lemma unat_CalculateHeapOffset:
  assumes "hdr_size F + unat len \<le> unat prev"
  shows "unat (CalculateHeapOffset F prev len) =
    (unat prev - unat len - hdr_size F) div hdr_align F * hdr_align F"
proof -
  have hs: "unat (word_of_nat (hdr_size F) :: u16) = hdr_size F"
    using fmt_size by (simp add: unat_of_nat)
  have "unat (prev - len) = unat prev - unat len"
    using assms by (intro unat_sub) (simp add: word_le_nat_alt)
  moreover from this have "unat (prev - len - word_of_nat (hdr_size F)) = unat prev - unat len - hdr_size F"
    using assms hs by (subst unat_sub) (simp_all add: word_le_nat_alt)
  moreover have "\<exists>k. (word_of_nat (hdr_align F) :: u64) = 2 ^ k \<and> hdr_align F = 2 ^ k"
    using fmt_align by (auto intro: exI [of _ 1] exI [of _ 2])
  ultimately show ?thesis
    by (auto simp: CalculateHeapOffset_def Let_def unat_AlignDown)
qed

lemma round_down_le: "(n :: nat) div hdr_align F * hdr_align F \<le> n"
  by simp

lemma slot_frame:
  assumes "\<And>x. s \<le> x \<Longrightarrow> x < slot_end F d s \<Longrightarrow> d' x = d x"
  shows "slot_len F d' s = slot_len F d s" "slot_key F d' s = slot_key F d s"
    "slot_end F d' s = slot_end F d s" "slot_ent F d' s = slot_ent F d s"
proof -
  have "rd_bytes d' (s + len_pos F) 2 = rd_bytes d (s + len_pos F) 2"
    using assms fmt_len by (intro rd_bytes_cong) (auto simp: slot_end_def)
  then show len: "slot_len F d' s = slot_len F d s"
    by (simp add: slot_len_def rd16_def)
  show key: "slot_key F d' s = slot_key F d s"
    unfolding slot_key_def len
    using assms by (intro rd_bytes_cong) (auto simp: slot_end_def)
  have "slot_val F d' s = slot_val F d s"
    unfolding slot_val_def
    using assms fmt_len by (intro rd_bytes_cong) (auto simp: slot_end_def)
  with key show "slot_ent F d' s = slot_ent F d s" by (simp add: slot_ent_def)
  show "slot_end F d' s = slot_end F d s"
    by (simp add: slot_end_def len)
qed

lemma slot_end_gt: "s + 2 \<le> slot_end F d s"
  using fmt_len by (simp add: slot_end_def)

lemma appendedD:
  assumes "appended F d val bs d' off"
  shows "unat off = (unat (hdr_heap_offset d) - length bs - hdr_size F) div hdr_align F * hdr_align F"
    "hdr_heap_offset d' = off" "unat (slot_len F d' (unat off)) = length bs"
    "slot_ent F d' (unat off) = (bs, val)"
    "\<And>x. x < unat off \<or> unat off + hdr_size F + length bs \<le> x \<Longrightarrow> x < 16 \<or> 18 \<le> x \<Longrightarrow> d' x = d x"
  using assms unfolding appended_def by blast+

lemma appended_bounds:
  assumes "appended F d val bs d' off" "hdr_size F + length bs \<le> unat (hdr_heap_offset d)"
  shows "unat off + hdr_size F + length bs \<le> unat (hdr_heap_offset d)" "hdr_align F dvd unat off"
    "slot_end F d' (unat off) = unat off + hdr_size F + length bs"
proof -
  have "unat off \<le> unat (hdr_heap_offset d) - length bs - hdr_size F"
    unfolding appendedD(1) [OF assms(1)] by simp
  with assms(2) show "unat off + hdr_size F + length bs \<le> unat (hdr_heap_offset d)"
    by linarith
  show "hdr_align F dvd unat off"
    unfolding appendedD(1) [OF assms(1)] by simp
  show "slot_end F d' (unat off) = unat off + hdr_size F + length bs"
    by (simp add: appendedD(3) [OF assms(1)] slot_end_def)
qed

lemma appended_frame_rd:
  assumes "appended F d val bs d' off" "20 \<le> unat off" "b + n \<le> 16 \<or> 18 \<le> b \<and> b + n \<le> unat off"
  shows "rd_bytes d' b n = rd_bytes d b n"
  using assms(2,3) by (intro rd_bytes_cong appendedD(5) [OF assms(1)]) auto

lemma appended_header:
  assumes "appended F d val bs d' off" "20 \<le> unat off"
  shows "GetCount d' = GetCount d" "hdr_pid d' = hdr_pid d" "GetRLink d' = GetRLink d"
    "hdr_max_val d' = hdr_max_val d" "GetLevel d' = GetLevel d"
  using appended_frame_rd [OF assms] appendedD(5) [OF assms(1), of 12] assms(2)
  by (simp_all add: hdr_defs rd16_def rd32_def)

lemma appended_slot:
  assumes "appended F d val bs d' off" "slot_addr n \<le> unat off" "i < n"
  shows "get_slot d' i = get_slot d i"
  using assms(2,3) appended_frame_rd [OF assms(1), of "slot_addr i" 2]
  by (simp add: hdr_defs rd16_def)

lemma appended_old_slot:
  assumes "appended F d val bs d' off" "hdr_size F + length bs \<le> unat (hdr_heap_offset d)"
    "unat (hdr_heap_offset d) \<le> s" "20 \<le> unat off"
  shows "slot_len F d' s = slot_len F d s" "slot_key F d' s = slot_key F d s"
    "slot_end F d' s = slot_end F d s" "slot_ent F d' s = slot_ent F d s"
proof -
  have "d' x = d x" if "s \<le> x" for x
    using that assms appended_bounds(1) [OF assms(1,2)] by (intro appendedD(5) [OF assms(1)]) auto
  then show "slot_len F d' s = slot_len F d s" "slot_key F d' s = slot_key F d s"
    "slot_end F d' s = slot_end F d s" "slot_ent F d' s = slot_ent F d s"
    by (auto intro: slot_frame)
qed

lemma AppendHeap_appended:
  assumes ap: "AppendHeap F d val key = (d', off)" and k: "key_ok key \<or> klen key = 0"
    and v: "length val = len_pos F"
    and fit: "hdr_size F + unat (klen key) \<le> unat (hdr_heap_offset d)" and off20: "20 \<le> unat off"
  shows "appended F d val (key_bytes key) d' off"
proof -
  let ?h = "unat (hdr_heap_offset d)" and ?n = "unat (klen key)" and ?a = "hdr_align F"
  have len: "length (key_bytes key) = ?n"
    using k length_key_bytes [of key] by (auto simp: key_bytes_def)
  have off_def: "off = CalculateHeapOffset F (hdr_heap_offset d) (klen key)"
    and d': "d' = set_heap_offset (wr_bytes (wr16 (wr_bytes d (unat off) val) (unat off + len_pos F) (klen key))
      (unat off + hdr_size F) (key_bytes key)) off"
    using ap by (auto simp: AppendHeap_def Let_def)
  have off: "unat off = (?h - ?n - hdr_size F) div ?a * ?a"
    unfolding off_def using fit by (rule unat_CalculateHeapOffset)
  have sl: "slot_len F d' (unat off) = klen key"
    using off20 fmt_len by (simp add: d' slot_len_def set_heap_offset_def mem_simps)
  have "slot_key F d' (unat off) = key_bytes key"
    using off20 len unfolding slot_key_def sl by (simp add: d' set_heap_offset_def mem_simps)
  moreover have "slot_val F d' (unat off) = val"
    using off20 v fmt_len unfolding slot_val_def by (simp add: d' set_heap_offset_def mem_simps)
  moreover have "d' x = d x"
    if "(x < unat off \<or> unat off + hdr_size F + length (key_bytes key) \<le> x)" "(x < 16 \<or> 18 \<le> x)" for x
    using that fmt_len v by (auto simp: d' set_heap_offset_def mem_simps)
  moreover have "hdr_heap_offset d' = off" by (simp add: d' hdr_defs mem_simps)
  ultimately show ?thesis
    using off len sl by (simp add: appended_def slot_ent_def)
qed

lemma page_okD:
  assumes "page_ok F d"
  shows "slot_addr (unat (GetCount d)) \<le> unat (hdr_heap_offset d)"
    "unat (hdr_heap_offset d) \<le> DB7_PAGE_SIZE" "hdr_align F dvd unat (hdr_heap_offset d)"
    "\<And>s. s \<in> set (page_slots d) \<Longrightarrow> slot_ok F d (unat (hdr_heap_offset d)) s"
    "slots_disjoint F d (page_slots d)"
    "hdr_max_val d \<noteq> UNDEFINED_OFFSET \<Longrightarrow> slot_ok F d (unat (hdr_heap_offset d)) (unat (hdr_max_val d))"
  using assms by (auto simp: page_ok_def)

lemma slots_disjoint_cong:
  assumes "\<And>s. s \<in> set ss \<Longrightarrow> slot_end F d' s = slot_end F d s"
  shows "slots_disjoint F d' ss = slots_disjoint F d ss"
  unfolding slots_disjoint_def using assms by (induction ss) auto

lemma insert_appended:
  assumes ok: "page_ok F d" and ap: "appended F d val bs d1 off"
    and fit: "hdr_size F + length bs \<le> unat (hdr_heap_offset d)"
    and room: "slot_addr (unat (GetCount d) + 1) \<le> unat off"
    and idx: "idx \<le> unat (GetCount d)"
  defines "d2 \<equiv> insert_slot d1 idx off"
  shows "page_slots d2 = take idx (page_slots d) @ unat off # drop idx (page_slots d)"
    and "\<And>x. unat off \<le> x \<Longrightarrow> d2 x = d1 x"
    and "\<And>x. unat (hdr_heap_offset d) \<le> x \<Longrightarrow> d2 x = d x"
    and "GetRLink d2 = GetRLink d" "GetLevel d2 = GetLevel d" "hdr_pid d2 = hdr_pid d"
    and "hdr_heap_offset d2 = off" "unat (GetCount d2) = unat (GetCount d) + 1" "hdr_max_val d2 = hdr_max_val d"
    and "slot_ent F d2 (unat off) = (bs, val)" "slot_end F d2 (unat off) = unat off + hdr_size F + length bs"
proof -
  let ?n = "unat (GetCount d)" and ?h = "unat (hdr_heap_offset d)"
  have off20: "20 \<le> unat off" using room by (simp add: slot_addr_def header_size_def)
  note hdr1 = appended_header [OF ap off20] and bnd = appended_bounds [OF ap fit]
  have idx1: "idx \<le> unat (GetCount d1)" using idx hdr1 by simp
  have n_small: "?n + 1 < 65536"
    using page_okD(1,2) [OF ok] by (simp add: slot_addr_def header_size_def DB7_PAGE_SIZE_def)
  have "page_slots d1 = page_slots d"
    using hdr1 room by (intro nth_equalityI) (simp_all add: appended_slot [OF ap, of "?n + 1"])
  then show "page_slots d2 = take idx (page_slots d) @ unat off # drop idx (page_slots d)"
    using insert_slot_page_slots [OF idx1, of off] n_small hdr1 by (simp add: d2_def)
  show tail: "d2 x = d1 x" if "unat off \<le> x" for x
    using that room off20 hdr1 idx1 unfolding d2_def
    by (intro insert_slot_outside) (auto simp: slot_addr_def header_size_def)
  then show "d2 x = d x" if "?h \<le> x" for x
    using that bnd(1) off20 appendedD(5) [OF ap, of x] by simp
  show "slot_ent F d2 (unat off) = (bs, val)" "slot_end F d2 (unat off) = unat off + hdr_size F + length bs"
    using slot_frame [of "unat off" d1 d2] tail appendedD(4) [OF ap] bnd(3) by auto
  show "GetRLink d2 = GetRLink d" "GetLevel d2 = GetLevel d" "hdr_pid d2 = hdr_pid d"
      "hdr_heap_offset d2 = off" "unat (GetCount d2) = ?n + 1" "hdr_max_val d2 = hdr_max_val d"
    using insert_slot_header [OF idx1] hdr1 appendedD(2) [OF ap] insert_slot_count [OF idx1] n_small
    by (simp_all add: d2_def unat_word_ariths)
qed

text \<open>The slots of a page with one more record stay within bounds and apart.\<close>

lemma slots_disjoint_insert:
  assumes "slots_disjoint F d (xs @ ys)" "\<And>s. s \<in> set (xs @ ys) \<Longrightarrow> slot_end F d o' \<le> s"
  shows "slots_disjoint F d (xs @ o' # ys)"
  using assms unfolding slots_disjoint_def sorted_wrt_append by auto

lemma page_insert:
  assumes ok: "page_ok F d" and ap: "appended F d val bs d1 off"
    and fit: "hdr_size F + length bs \<le> unat (hdr_heap_offset d)"
    and room: "slot_addr (unat (GetCount d) + 1) \<le> unat off"
    and idx: "idx \<le> unat (GetCount d)"
  defines "d2 \<equiv> insert_slot d1 idx off"
  shows "page_ok F d2"
    and "page_ents F d2 = take idx (page_ents F d) @ (bs, val) # drop idx (page_ents F d)"
    and "page_fence F d2 = page_fence F d"
    and "GetRLink d2 = GetRLink d" "GetLevel d2 = GetLevel d" "hdr_pid d2 = hdr_pid d"
    and "hdr_heap_offset d2 = off" "unat (GetCount d2) = unat (GetCount d) + 1"
    and "page_slots d2 = take idx (page_slots d) @ unat off # drop idx (page_slots d)"
    and "\<And>x. unat (hdr_heap_offset d) \<le> x \<Longrightarrow> d2 x = d x"
    and "\<And>x. unat off \<le> x \<Longrightarrow> d2 x = d1 x"
proof -
  let ?h = "unat (hdr_heap_offset d)" and ?S = "page_slots d"
  note okD = page_okD [OF ok] and bnd = appended_bounds [OF ap fit]
  note ins = insert_appended [OF ok ap fit room idx, folded d2_def]
  show "GetRLink d2 = GetRLink d" "GetLevel d2 = GetLevel d" "hdr_pid d2 = hdr_pid d" "hdr_heap_offset d2 = off"
    "unat (GetCount d2) = unat (GetCount d) + 1" "page_slots d2 = take idx ?S @ unat off # drop idx ?S"
    "\<And>x. ?h \<le> x \<Longrightarrow> d2 x = d x" "\<And>x. unat off \<le> x \<Longrightarrow> d2 x = d1 x"
    by (fact ins)+
  have old: "slot_len F d2 s = slot_len F d s" "slot_key F d2 s = slot_key F d s"
    "slot_end F d2 s = slot_end F d s" "slot_ent F d2 s = slot_ent F d s" if "?h \<le> s" for s
    using that ins(3) by (auto intro: slot_frame)
  have ge: "?h \<le> s" "hdr_align F dvd s" "slot_end F d s \<le> DB7_PAGE_SIZE" if "s \<in> set ?S" for s
    using okD(4) [OF that] by (auto simp: slot_ok_def)
  have part: "set (take idx ?S) \<subseteq> set ?S" "set (drop idx ?S) \<subseteq> set ?S"
    by (auto dest: in_set_takeD in_set_dropD)
  show "page_ents F d2 = take idx (page_ents F d) @ (bs, val) # drop idx (page_ents F d)"
    using part ge(1) by (auto simp: page_ents_def ins(1,10) old take_map drop_map)
  show "page_fence F d2 = page_fence F d"
    using okD(6) by (auto simp: page_fence_def ins(9) old slot_ok_def)
  have "slots_disjoint F d2 (page_slots d2)"
    unfolding ins(1) using slots_disjoint_cong [of ?S d2 d] old ge(1) okD(5) bnd(1) part
    by (intro slots_disjoint_insert) (auto simp: ins(11) intro: order_trans)
  moreover have "slot_ok F d2 (unat off) s" if "s \<in> set (page_slots d2)" for s
  proof (cases "s \<in> set ?S")
    case True
    with ge [OF True] bnd(1) show ?thesis by (auto simp: slot_ok_def old)
  next
    case False
    with that part have "s = unat off" by (auto simp: ins(1))
    with bnd ins(11) okD(2) show ?thesis by (simp add: slot_ok_def)
  qed
  moreover have "hdr_max_val d \<noteq> UNDEFINED_OFFSET \<Longrightarrow> slot_ok F d2 (unat off) (unat (hdr_max_val d))"
    using okD(6) bnd(1) by (auto simp: slot_ok_def old)
  ultimately show "page_ok F d2"
    using ins room bnd okD(2) by (auto simp: page_ok_def)
qed

lemma page_delete:
  assumes ok: "page_ok F d" and idx: "idx < unat (GetCount d)"
  defines "d2 \<equiv> delete_slot d idx"
  shows "page_ok F d2"
    and "page_ents F d2 = take idx (page_ents F d) @ drop (Suc idx) (page_ents F d)"
    and "page_fence F d2 = page_fence F d"
    and "\<And>x. unat (hdr_heap_offset d) \<le> x \<Longrightarrow> d2 x = d x"
proof -
  let ?h = "unat (hdr_heap_offset d)"
  note okD = page_okD [OF ok] and hdr = delete_slot_header [of d idx, folded d2_def]
  have c: "unat (GetCount d2) = unat (GetCount d) - 1"
    using idx by (simp add: hdr unat_sub word_le_nat_alt)
  have slots2: "page_slots d2 = take idx (page_slots d) @ drop (Suc idx) (page_slots d)"
    unfolding d2_def by (rule delete_slot_page_slots [OF idx])
  show high: "d2 x = d x" if "?h \<le> x" for x
    using that okD(1) idx unfolding d2_def
    by (intro delete_slot_outside) (auto simp: slot_addr_def header_size_def)
  have old: "slot_key F d2 s = slot_key F d s" "slot_end F d2 s = slot_end F d s"
    "slot_ent F d2 s = slot_ent F d s" if "?h \<le> s" for s
    using that high by (auto intro: slot_frame)
  have ge: "?h \<le> s" if "s \<in> set (page_slots d)" for s
    using okD(4) [OF that] by (auto simp: slot_ok_def)
  have part: "set (page_slots d2) \<subseteq> set (page_slots d)"
    by (auto simp: slots2 dest: in_set_takeD in_set_dropD)
  have keys: "map (slot_ent F d2) xs = map (slot_ent F d) xs" if "set xs \<subseteq> set (page_slots d)" for xs
    using that ge by (auto simp: old)
  show "page_ents F d2 = take idx (page_ents F d) @ drop (Suc idx) (page_ents F d)"
    using keys [OF part] by (simp add: page_ents_def slots2 take_map drop_map)
  show "page_fence F d2 = page_fence F d"
    using okD(6) by (auto simp: page_fence_def hdr old slot_ok_def)
  have "slots_disjoint F d (page_slots d2)"
    using okD(5) idx unfolding slots2 slots_disjoint_def by (intro sorted_wrt_remove_nth) simp_all
  then have "slots_disjoint F d2 (page_slots d2)"
    using slots_disjoint_cong [of "page_slots d2" d2 d] part ge old by blast
  moreover have "slot_ok F d2 ?h s" if "s \<in> set (page_slots d2)" for s
    using okD(4) [of s] that part by (auto simp: slot_ok_def old)
  moreover have "hdr_max_val d \<noteq> UNDEFINED_OFFSET \<Longrightarrow> slot_ok F d2 ?h (unat (hdr_max_val d))"
    using okD(6) by (auto simp: slot_ok_def old)
  ultimately show "page_ok F d2"
    using okD(1,2,3) c by (auto simp: page_ok_def hdr slot_addr_def)
qed

lemma MoveHeap_ok:
  assumes lb: "20 \<le> lb" "lb \<le> unat old" and al: "hdr_align F dvd unat old"
    and fit: "slot_end F d (unat old) \<le> unat (hdr_heap_offset d)"
  defines "len \<equiv> slot_len F d (unat old)"
  obtains d' off where "MoveHeap F d old len = Inr (d', off)"
    "hdr_heap_offset d' = off" "hdr_align F dvd unat off" "unat old \<le> unat off"
    "unat off + hdr_size F + unat len \<le> unat (hdr_heap_offset d)"
    "unat (hdr_heap_offset d) < unat off + hdr_size F + unat len + hdr_align F"
    "rd_bytes d' (unat off) (hdr_size F + unat len) = rd_bytes d (unat old) (hdr_size F + unat len)"
    "\<And>x. x < unat off \<or> unat (hdr_heap_offset d) \<le> x \<Longrightarrow> x < 16 \<or> 18 \<le> x \<Longrightarrow> d' x = d x"
proof -
  let ?h = "unat (hdr_heap_offset d)" and ?a = "hdr_align F"
  define off where "off = CalculateHeapOffset F (hdr_heap_offset d) len"
  define d1 where "d1 = memmove d (unat off) (unat old) (hdr_size F + unat len)"
  have size: "unat old + hdr_size F + unat len \<le> ?h"
    using fit by (simp add: slot_end_def len_def)
  then have off: "unat off = (?h - unat len - hdr_size F) div ?a * ?a"
    unfolding off_def by (intro unat_CalculateHeapOffset) simp
  obtain q where q: "unat old = ?a * q" using al by (auto elim: dvdE)
  have "?a * q \<le> ?h - unat len - hdr_size F" using size q by simp
  then have "q \<le> (?h - unat len - hdr_size F) div ?a"
    using align_pos by (simp add: less_eq_div_iff_mult_less_eq mult.commute)
  then have ge: "unat old \<le> unat off" unfolding off q by simp
  have le: "unat off \<le> ?h - unat len - hdr_size F" unfolding off by simp
  have gt: "?h - unat len - hdr_size F < unat off + ?a"
    unfolding off using dividend_less_div_times [OF align_pos, of "?h - unat len - hdr_size F"] by simp
  show thesis
  proof
    show "MoveHeap F d old len = Inr (set_heap_offset d1 off, off)"
      using ge by (simp add: MoveHeap_def Let_def off_def [symmetric] d1_def word_le_nat_alt)
    show "hdr_heap_offset (set_heap_offset d1 off) = off"
      by (simp add: hdr_defs mem_simps)
    show "?a dvd unat off" unfolding off by simp
    show "unat old \<le> unat off" by (rule ge)
    show fits: "unat off + hdr_size F + unat len \<le> ?h" using le size by linarith
    show "?h < unat off + hdr_size F + unat len + ?a" using gt size by linarith
    show "rd_bytes (set_heap_offset d1 off) (unat off) (hdr_size F + unat len) =
        rd_bytes d (unat old) (hdr_size F + unat len)"
      using rd_bytes_memmove_inside [of 0 "hdr_size F + unat len" _ d "unat off" "unat old"] lb ge
      by (simp add: hdr_defs mem_simps d1_def)
    show "set_heap_offset d1 off x = d x"
      if "x < unat off \<or> ?h \<le> x" "x < 16 \<or> 18 \<le> x" for x
      using that fits by (auto simp: set_heap_offset_def d1_def mem_simps)
  qed
qed

text \<open>The repacking loop: records are visited by descending offset, so each move stays above the
  records that are still to be moved.\<close>

definition compact_pre :: "mem \<Rightarrow> nat \<Rightarrow> nat list \<Rightarrow> bool" where
  "compact_pre d lb idxs \<longleftrightarrow>
     distinct idxs \<and> 20 \<le> lb \<and> lb \<le> unat (hdr_heap_offset d) \<and>
     hdr_align F dvd unat (hdr_heap_offset d) \<and>
     (\<forall>i \<in> set idxs. slot_addr (i + 1) \<le> lb \<and> slot_ok F d lb (unat (get_slot d i)) \<and>
        slot_end F d (unat (get_slot d i)) \<le> unat (hdr_heap_offset d)) \<and>
     sorted_wrt (\<lambda>i j. slot_end F d (unat (get_slot d j)) \<le> unat (get_slot d i)) idxs"

definition record_moved :: "mem \<Rightarrow> mem \<Rightarrow> nat \<Rightarrow> bool" where
  "record_moved d d' i \<longleftrightarrow>
     (let n = hdr_size F + unat (slot_len F d (unat (get_slot d i)))
      in rd_bytes d' (unat (get_slot d' i)) n = rd_bytes d (unat (get_slot d i)) n)"

definition compact_post :: "mem \<Rightarrow> nat \<Rightarrow> nat list \<Rightarrow> mem \<Rightarrow> bool" where
  "compact_post d lb idxs d' \<longleftrightarrow>
     lb \<le> unat (hdr_heap_offset d') \<and> hdr_align F dvd unat (hdr_heap_offset d') \<and>
     unat (hdr_heap_offset d') \<le> unat (hdr_heap_offset d) \<and>
     unat (hdr_heap_offset d) \<le> unat (hdr_heap_offset d') +
       (\<Sum>i\<leftarrow>idxs. hdr_size F + unat (slot_len F d (unat (get_slot d i))) + (hdr_align F - 1)) \<and>
     (\<forall>i \<in> set idxs. record_moved d d' i \<and>
        unat (hdr_heap_offset d') \<le> unat (get_slot d' i) \<and> hdr_align F dvd unat (get_slot d' i) \<and>
        slot_end F d' (unat (get_slot d' i)) \<le> unat (hdr_heap_offset d)) \<and>
     sorted_wrt (\<lambda>i j. slot_end F d' (unat (get_slot d' j)) \<le> unat (get_slot d' i)) idxs \<and>
     (\<forall>x. (unat (hdr_heap_offset d) \<le> x \<or> x < lb) \<and> (x < 16 \<or> 18 \<le> x) \<and>
        (\<forall>i \<in> set idxs. x < slot_addr i \<or> slot_addr (i + 1) \<le> x) \<longrightarrow> d' x = d x)"

lemma record_moved_slot:
  assumes "record_moved d d' i"
  shows "slot_len F d' (unat (get_slot d' i)) = slot_len F d (unat (get_slot d i))"
    "slot_ent F d' (unat (get_slot d' i)) = slot_ent F d (unat (get_slot d i))"
proof -
  let ?s = "unat (get_slot d i)" and ?s' = "unat (get_slot d' i)"
  define n where "n = hdr_size F + unat (slot_len F d ?s)"
  have eq: "rd_bytes d' ?s' n = rd_bytes d ?s n"
    using assms by (simp add: record_moved_def Let_def n_def)
  have sub: "rd_bytes d' (?s' + k) m = rd_bytes d (?s + k) m" if "k + m \<le> n" for k m
    by (simp add: rd_bytes_sub [OF that] eq)
  show len: "slot_len F d' ?s' = slot_len F d ?s"
    using sub [of "len_pos F" 2] fmt_len by (simp add: slot_len_def rd16_def n_def)
  have "slot_key F d' ?s' = slot_key F d ?s"
    unfolding slot_key_def len by (rule sub) (simp add: n_def)
  moreover have "slot_val F d' ?s' = slot_val F d ?s"
    using sub [of 0 "len_pos F"] fmt_len by (simp add: slot_val_def n_def)
  ultimately show "slot_ent F d' ?s' = slot_ent F d ?s" by (simp add: slot_ent_def)
qed

text \<open>One move: the state in which the loop continues, and what it keeps for the rest.\<close>

definition move_post :: "mem \<Rightarrow> nat \<Rightarrow> nat \<Rightarrow> nat list \<Rightarrow> mem \<Rightarrow> u16 \<Rightarrow> bool" where
  "move_post d lb idx idxs d2 off \<longleftrightarrow>
     compact_pre d2 lb idxs \<and> hdr_heap_offset d2 = off \<and> get_slot d2 idx = off \<and>
     lb \<le> unat off \<and> hdr_align F dvd unat off \<and> record_moved d d2 idx \<and>
     unat off + hdr_size F + unat (slot_len F d (unat (get_slot d idx))) \<le> unat (hdr_heap_offset d) \<and>
     unat (hdr_heap_offset d) < unat off + hdr_size F + unat (slot_len F d (unat (get_slot d idx))) + hdr_align F \<and>
     (\<forall>j \<in> set idxs. get_slot d2 j = get_slot d j \<and>
        (\<forall>x. unat (get_slot d j) \<le> x \<and> x < slot_end F d (unat (get_slot d j)) \<longrightarrow> d2 x = d x)) \<and>
     (\<forall>x. (x < slot_addr idx \<or> slot_addr (idx + 1) \<le> x) \<and> (x < unat off \<or> unat (hdr_heap_offset d) \<le> x) \<and>
        (x < 16 \<or> 18 \<le> x) \<longrightarrow> d2 x = d x)"

lemma compact_move:
  assumes pre: "compact_pre d lb (idx # idxs)"
  shows "\<exists>d1 off. MoveHeap F d (get_slot d idx) (slot_len F d (unat (get_slot d idx))) = Inr (d1, off) \<and>
    move_post d lb idx idxs (set_slot d1 idx off) off"
proof -
  let ?old = "get_slot d idx" and ?h = "unat (hdr_heap_offset d)"
  let ?len = "slot_len F d (unat ?old)"
  from pre have c: "slot_addr (idx + 1) \<le> lb" "lb \<le> unat ?old" "hdr_align F dvd unat ?old"
    "slot_end F d (unat ?old) \<le> ?h" "20 \<le> lb" "idx \<notin> set idxs" "distinct idxs"
    by (auto simp: compact_pre_def slot_ok_def)
  obtain d1 off where mv: "MoveHeap F d ?old ?len = Inr (d1, off)"
    and h1: "hdr_heap_offset d1 = off" and al: "hdr_align F dvd unat off" and up: "unat ?old \<le> unat off"
    and fit: "unat off + hdr_size F + unat ?len \<le> ?h" "?h < unat off + hdr_size F + unat ?len + hdr_align F"
    and cp: "rd_bytes d1 (unat off) (hdr_size F + unat ?len) = rd_bytes d (unat ?old) (hdr_size F + unat ?len)"
    and fr: "\<And>x. x < unat off \<or> ?h \<le> x \<Longrightarrow> x < 16 \<or> 18 \<le> x \<Longrightarrow> d1 x = d x"
    using MoveHeap_ok [OF c(5,2,3,4)] by blast
  define d2 where "d2 = set_slot d1 idx off"
  have lbo: "lb \<le> unat off" "20 \<le> unat off" using c(2,5) up by auto
  have d2_d: "d2 x = d x"
    if "x < slot_addr idx \<or> slot_addr (idx + 1) \<le> x" "x < unat off \<or> ?h \<le> x" "x < 16 \<or> 18 \<le> x" for x
    using that(1) fr [OF that(2,3)] by (auto simp: d2_def set_slot_def slot_addr_def mem_simps)
  have h2: "hdr_heap_offset d2 = off" "get_slot d2 idx = off"
    using h1 by (simp_all add: d2_def hdr_defs mem_simps)
  have "rd_bytes d2 (unat off) (hdr_size F + unat ?len) = rd_bytes d1 (unat off) (hdr_size F + unat ?len)"
    using c(1) lbo by (simp add: d2_def set_slot_def slot_addr_def mem_simps)
  then have moved: "record_moved d d2 idx"
    using cp h2 by (simp add: record_moved_def Let_def)
  have rest: "get_slot d2 j = get_slot d j \<and>
      (\<forall>x. unat (get_slot d j) \<le> x \<and> x < slot_end F d (unat (get_slot d j)) \<longrightarrow> d2 x = d x) \<and>
      slot_end F d (unat (get_slot d j)) \<le> unat ?old"
    if j: "j \<in> set idxs" for j
  proof (intro conjI allI impI)
    have cj: "slot_addr (j + 1) \<le> lb" "lb \<le> unat (get_slot d j)" "j \<noteq> idx"
      using pre j c(6) by (auto simp: compact_pre_def slot_ok_def)
    have "rd_bytes d2 (slot_addr j) 2 = rd_bytes d (slot_addr j) 2"
      using cj lbo by (intro rd_bytes_cong d2_d) (auto simp: slot_addr_def header_size_def)
    then show "get_slot d2 j = get_slot d j" by (simp add: get_slot_def rd16_def)
    show ej: "slot_end F d (unat (get_slot d j)) \<le> unat ?old"
      using pre j by (auto simp: compact_pre_def)
    show "d2 x = d x" if "unat (get_slot d j) \<le> x \<and> x < slot_end F d (unat (get_slot d j))" for x
      using that cj ej up c(1,5) by (intro d2_d) auto
  qed
  then have same: "get_slot d2 j = get_slot d j" "slot_end F d2 (unat (get_slot d j)) = slot_end F d (unat (get_slot d j))"
    "slot_end F d (unat (get_slot d j)) \<le> unat off" if "j \<in> set idxs" for j
    using that slot_frame(3) [of "unat (get_slot d j)" d d2] up by (auto intro: order_trans)
  have "sorted_wrt (\<lambda>i j. slot_end F d (unat (get_slot d j)) \<le> unat (get_slot d i)) idxs"
    using pre by (simp add: compact_pre_def)
  then have "sorted_wrt (\<lambda>i j. slot_end F d2 (unat (get_slot d2 j)) \<le> unat (get_slot d2 i)) idxs"
    by (rule sorted_wrt_mono_rel [rotated]) (simp add: same)
  then have "compact_pre d2 lb idxs"
    using pre same h2 lbo al c(7) by (auto simp: compact_pre_def slot_ok_def)
  then have "move_post d lb idx idxs d2 off"
    using h2 lbo(1) al moved fit rest d2_d unfolding move_post_def by blast
  with mv show ?thesis unfolding d2_def by blast
qed

lemma move_post_keep:
  assumes mp: "move_post d lb idx idxs d2 off" and pre: "compact_pre d lb (idx # idxs)"
    and post: "compact_post d2 lb idxs d'"
    and x: "unat off \<le> x \<or> slot_addr idx \<le> x \<and> x < slot_addr (idx + 1)"
  shows "d' x = d2 x"
proof -
  have c: "idx \<notin> set idxs" "slot_addr (idx + 1) \<le> lb" "20 \<le> lb" "lb \<le> unat off" "hdr_heap_offset d2 = off"
    using pre mp by (auto simp: compact_pre_def move_post_def)
  have "x < slot_addr j \<or> slot_addr (j + 1) \<le> x" if j: "j \<in> set idxs" for j
  proof -
    have "slot_addr (j + 1) \<le> lb" "j \<noteq> idx" using pre j by (auto simp: compact_pre_def)
    with x c(4) show ?thesis by (auto simp: slot_addr_def)
  qed
  moreover have "18 \<le> x" using x c by (auto simp: slot_addr_def header_size_def)
  ultimately show ?thesis
    using post x c unfolding compact_post_def by auto
qed

lemma move_post_slots:
  assumes mp: "move_post d lb idx idxs d2 off" and pre: "compact_pre d lb (idx # idxs)"
    and post: "compact_post d2 lb idxs d'"
  shows "get_slot d' idx = off" "record_moved d d' idx"
    "slot_end F d' (unat off) = unat off + hdr_size F + unat (slot_len F d (unat (get_slot d idx)))"
    "\<And>j. j \<in> set idxs \<Longrightarrow> record_moved d d' j \<and> slot_len F d2 (unat (get_slot d2 j)) = slot_len F d (unat (get_slot d j))"
proof -
  note keep = move_post_keep [OF mp pre post]
  have r2: "get_slot d2 idx = off" "record_moved d d2 idx"
    using mp by (auto simp: move_post_def)
  have "rd_bytes d' (slot_addr idx) 2 = rd_bytes d2 (slot_addr idx) 2"
    using keep by (intro rd_bytes_cong) (auto simp: slot_addr_def)
  then show s: "get_slot d' idx = off" using r2(1) by (simp add: get_slot_def rd16_def)
  have "rd_bytes d' (unat off) n = rd_bytes d2 (unat off) n" for n
    using keep by (intro rd_bytes_cong) auto
  then show m: "record_moved d d' idx"
    using r2 s by (simp add: record_moved_def Let_def)
  show "slot_end F d' (unat off) = unat off + hdr_size F + unat (slot_len F d (unat (get_slot d idx)))"
    using record_moved_slot(1) [OF m] s by (simp add: slot_end_def)
  fix j
  assume j: "j \<in> set idxs"
  then have gj: "get_slot d2 j = get_slot d j"
    and ej: "\<And>x. unat (get_slot d j) \<le> x \<Longrightarrow> x < slot_end F d (unat (get_slot d j)) \<Longrightarrow> d2 x = d x"
    using mp by (auto simp: move_post_def)
  have len: "slot_len F d2 (unat (get_slot d2 j)) = slot_len F d (unat (get_slot d j))"
    using slot_frame(1) [of "unat (get_slot d j)" d d2] ej gj by simp
  have "rd_bytes d2 (unat (get_slot d j)) (hdr_size F + unat (slot_len F d (unat (get_slot d j)))) =
      rd_bytes d (unat (get_slot d j)) (hdr_size F + unat (slot_len F d (unat (get_slot d j))))"
    using ej by (intro rd_bytes_cong) (auto simp: slot_end_def)
  moreover have "record_moved d2 d' j" using post j by (auto simp: compact_post_def)
  ultimately show "record_moved d d' j \<and> slot_len F d2 (unat (get_slot d2 j)) = slot_len F d (unat (get_slot d j))"
    using len gj by (simp add: record_moved_def Let_def)
qed

lemma compact_post_step:
  assumes mp: "move_post d lb idx idxs d2 off" and pre: "compact_pre d lb (idx # idxs)"
    and post: "compact_post d2 lb idxs d'"
  shows "compact_post d lb (idx # idxs) d'"
proof -
  note sl = move_post_slots [OF mp pre post]
  have o: "hdr_heap_offset d2 = off" "lb \<le> unat off" "hdr_align F dvd unat off"
    "unat off + hdr_size F + unat (slot_len F d (unat (get_slot d idx))) \<le> unat (hdr_heap_offset d)"
    "unat (hdr_heap_offset d) < unat off + hdr_size F + unat (slot_len F d (unat (get_slot d idx))) + hdr_align F"
    using mp by (auto simp: move_post_def)
  have p: "lb \<le> unat (hdr_heap_offset d')" "hdr_align F dvd unat (hdr_heap_offset d')"
    "unat (hdr_heap_offset d') \<le> unat off"
    "unat off \<le> unat (hdr_heap_offset d') + (\<Sum>i\<leftarrow>idxs. hdr_size F + unat (slot_len F d2 (unat (get_slot d2 i))) + (hdr_align F - 1))"
    "\<And>i. i \<in> set idxs \<Longrightarrow> unat (hdr_heap_offset d') \<le> unat (get_slot d' i) \<and> hdr_align F dvd unat (get_slot d' i) \<and>
        slot_end F d' (unat (get_slot d' i)) \<le> unat off"
    "sorted_wrt (\<lambda>i j. slot_end F d' (unat (get_slot d' j)) \<le> unat (get_slot d' i)) idxs"
    using post o(1) by (auto simp: compact_post_def)
  define S where "S = (\<Sum>i\<leftarrow>idxs. hdr_size F + unat (slot_len F d (unat (get_slot d i))) + (hdr_align F - 1))"
  have "map (\<lambda>i. hdr_size F + unat (slot_len F d2 (unat (get_slot d2 i))) + (hdr_align F - 1)) idxs =
      map (\<lambda>i. hdr_size F + unat (slot_len F d (unat (get_slot d i))) + (hdr_align F - 1)) idxs"
    using sl(4) by (intro map_cong refl) simp
  with p(4) have "unat off \<le> unat (hdr_heap_offset d') + S" by (simp only: S_def)
  with o(5) align_pos have "unat (hdr_heap_offset d) \<le> unat (hdr_heap_offset d') +
      (hdr_size F + unat (slot_len F d (unat (get_slot d idx))) + (hdr_align F - 1) + S)"
    by linarith
  then have sum: "unat (hdr_heap_offset d) \<le> unat (hdr_heap_offset d') +
      (\<Sum>i\<leftarrow>idx # idxs. hdr_size F + unat (slot_len F d (unat (get_slot d i))) + (hdr_align F - 1))"
    by (simp only: S_def list.map sum_list.Cons)
  have frame: "d' x = d x" if "unat (hdr_heap_offset d) \<le> x \<or> x < lb" "x < 16 \<or> 18 \<le> x"
      "\<forall>i \<in> set (idx # idxs). x < slot_addr i \<or> slot_addr (i + 1) \<le> x" for x
  proof -
    have "d' x = d2 x" using post that o by (auto simp: compact_post_def)
    also have "d2 x = d x" using mp that o unfolding move_post_def by auto
    finally show ?thesis .
  qed
  show ?thesis
    unfolding compact_post_def
  proof (intro conjI allI impI ballI)
    fix i
    assume "i \<in> set (idx # idxs)"
    then consider "i = idx" | "i \<in> set idxs" by auto
    then show "record_moved d d' i" "unat (hdr_heap_offset d') \<le> unat (get_slot d' i)"
      "hdr_align F dvd unat (get_slot d' i)" "slot_end F d' (unat (get_slot d' i)) \<le> unat (hdr_heap_offset d)"
      using sl o p by (cases; force)+
  qed (use p o sum sl frame in \<open>auto intro: order_trans\<close>)
qed

lemma compact_loop_ok:
  "compact_pre d lb idxs \<Longrightarrow> \<exists>d'. compact_loop F d idxs = Inr d' \<and> compact_post d lb idxs d'"
proof (induction idxs arbitrary: d)
  case Nil
  then show ?case by (simp add: compact_pre_def compact_post_def)
next
  case (Cons idx idxs)
  obtain d1 off where mv: "MoveHeap F d (get_slot d idx) (slot_len F d (unat (get_slot d idx))) = Inr (d1, off)"
    and mp: "move_post d lb idx idxs (set_slot d1 idx off) off"
    using compact_move [OF Cons.prems] by blast
  from mp have "compact_pre (set_slot d1 idx off) lb idxs" by (simp add: move_post_def)
  then obtain d' where lp: "compact_loop F (set_slot d1 idx off) idxs = Inr d'"
    and post: "compact_post (set_slot d1 idx off) lb idxs d'"
    using Cons.IH by blast
  from compact_post_step [OF mp Cons.prems post] mv lp show ?case by simp
qed

end

end
