(* ===== verification/SlottedSplit.thy ===== *)
theory SlottedSplit
  imports SlottedPage
begin

text \<open>
  Splitting a slotted page (\<^verbatim>\<open>CopyHalfRight\<close>, \<^verbatim>\<open>CompactHeap\<close> and \<^verbatim>\<open>Split\<close> of both varlen layouts).

  The two layouts repeat the same code over different record headers, so the operations are
  stated once over the record format. The lemmas show that a split keeps both pages well formed,
  cuts the entry list in two at the split point, moves the old high fence to the right page, makes
  the first right key the fence of the left page, and how much heap each half still has.
\<close>

section \<open>Operations\<close>

definition slot_Key :: "slot_fmt \<Rightarrow> mem \<Rightarrow> nat \<Rightarrow> Key" where
  "slot_Key F d s = \<lparr>klen = slot_len F d s, kdata = Some (slot_key F d s)\<rparr>"

fun copy_loop :: "slot_fmt \<Rightarrow> mem \<Rightarrow> mem \<Rightarrow> nat list \<Rightarrow> nat \<Rightarrow> mem" where
  "copy_loop F left_data right_data [] split = right_data"
| "copy_loop F left_data right_data (i # is) split =
     (let s = unat (get_slot left_data i);
          (right1, off) = AppendHeap F right_data (slot_val F left_data s) (slot_Key F left_data s)
      in copy_loop F left_data (set_slot right1 (i - split) off) is split)"

definition CopyHalfRight :: "slot_fmt \<Rightarrow> mem \<Rightarrow> mem \<Rightarrow> nat \<Rightarrow> mem \<times> u16" where
  "CopyHalfRight F left_data right_data split =
     (let mv = unat (hdr_max_val left_data);
          (right1, right_max) =
            (if hdr_max_val left_data \<noteq> UNDEFINED_OFFSET
             then AppendHeap F right_data (slot_val F left_data mv) (slot_Key F left_data mv)
             else (right_data, UNDEFINED_OFFSET))
      in (copy_loop F left_data right1 [split..<unat (GetCount left_data)] split, right_max))"

text \<open>The part of \<^verbatim>\<open>Split\<close> up to the header updates; the third component is the offset of the sentinel
  record, the first slot of the right page.\<close>

definition SplitHalves :: "slot_fmt \<Rightarrow> mem \<Rightarrow> mem \<Rightarrow> page_id \<Rightarrow> (mem \<times> mem \<times> nat) res" where
  "SplitHalves F left_data right_data new_pid =
     ebind (FindSplitPoint F left_data (unat (GetCount left_data))) (\<lambda>split.
       let (right1, right_max) = CopyHalfRight F left_data right_data split
       in ebind (CompactHeap F (set_heap_offset left_data (word_of_nat DB7_PAGE_SIZE)) split) (\<lambda>left1.
            let s = unat (get_slot right1 0);
                (left2, left_max) = AppendHeap F left1 (slot_val F right1 s) (slot_Key F right1 s);
                right2 = set_max_val (set_count (set_rlink right1 (GetRLink left2))
                           (GetCount left2 - word_of_nat split)) right_max;
                left3 = set_max_val (set_count (set_rlink left2 new_pid) (word_of_nat split)) left_max
            in Inr (left3, right2, s)))"

text \<open>\<open>ins\<close> is the layout's \<^verbatim>\<open>InsertSlot\<close>. The returned key is read from the right page at the end, as the
  caller's \<^verbatim>\<open>CopyKey\<close> does through the pointer it gets.\<close>

definition Split :: "slot_fmt \<Rightarrow> (mem \<Rightarrow> u16 \<Rightarrow> mem res) \<Rightarrow> mem \<Rightarrow> mem \<Rightarrow> page_id \<Rightarrow> Key \<Rightarrow> u8 list \<Rightarrow>
    (mem \<times> mem \<times> Key) res" where
  "Split F ins left_data right_data new_pid key val =
     DB7_ASSERT (kdata key \<noteq> None) ''invalid key''
    (DB7_ASSERT (klen key \<noteq> 0) ''invalid key''
    (DB7_ASSERT (unat (hdr_heap_offset right_data) = DB7_PAGE_SIZE) ''Heap must not be filled''
    (ebind (SplitHalves F left_data right_data new_pid) (\<lambda>(left1, right1, s).
       let sentinel = slot_Key F right1 s;
           sentinel_in = (\<lambda>r. \<lparr>klen = klen sentinel,
                               kdata = Some (rd_bytes r (s + hdr_size F) (unat (klen sentinel)))\<rparr>)
       in if CmpFull (key_bytes sentinel) (key_bytes key) \<le> 0
          then DB7_ASSERT (HasSpaceFor F right1 (klen key)) ''new key does not fit in right half after split''
                 (let (right2, off) = AppendHeap F right1 val key
                  in ebind (ins right2 off) (\<lambda>right3. Inr (left1, right3, sentinel_in right3)))
          else DB7_ASSERT (HasSpaceFor F left1 (klen key)) ''new key does not fit in left half after split''
                 (let (left2, off) = AppendHeap F left1 val key
                  in ebind (ins left2 off) (\<lambda>left3. Inr (left3, right1, sentinel_in right1)))))))"

section \<open>Space accounting\<close>

text \<open>An upper bound on the heap space a record takes, alignment included.\<close>

definition rec_cost :: "slot_fmt \<Rightarrow> nat \<Rightarrow> nat" where
  "rec_cost F n = hdr_size F + n + (hdr_align F - 1)"

definition ents_cost :: "slot_fmt \<Rightarrow> entry list \<Rightarrow> nat" where
  "ents_cost F es = (\<Sum>e\<leftarrow>es. rec_cost F (length (fst e)))"

definition fence_cost :: "slot_fmt \<Rightarrow> mem \<Rightarrow> nat" where
  "fence_cost F d = (case page_fence F d of None \<Rightarrow> 0 | Some k \<Rightarrow> rec_cost F (length k))"

text \<open>What a record certainly takes: its bytes and its slot.\<close>

definition live_cost :: "slot_fmt \<Rightarrow> entry list \<Rightarrow> nat" where
  "live_cost F es = (\<Sum>e\<leftarrow>es. hdr_size F + length (fst e) + 2)"

lemma key_ok_slot_Key: "key_ok (slot_Key F d s)"
  by (simp add: key_ok_def slot_Key_def)

lemma key_bytes_slot_Key [simp]: "key_bytes (slot_Key F d s) = slot_key F d s"
  by (simp add: key_bytes_def slot_Key_def)

lemma klen_slot_Key [simp]: "klen (slot_Key F d s) = slot_len F d s"
  by (simp add: slot_Key_def)

lemma length_slot_val [simp]: "length (slot_val F d s) = len_pos F"
  by (simp add: slot_val_def)

lemma ents_cost_append [simp]: "ents_cost F (xs @ ys) = ents_cost F xs + ents_cost F ys"
  by (simp add: ents_cost_def)

lemma live_cost_append [simp]: "live_cost F (xs @ ys) = live_cost F xs + live_cost F ys"
  by (simp add: live_cost_def)

text \<open>Header fields other than the heap offset, overlaid on a page.\<close>

definition with_header :: "mem \<Rightarrow> nat \<Rightarrow> u16 \<Rightarrow> mem" where
  "with_header d k mv = set_max_val (set_count d (word_of_nat k)) mv"

lemma with_header_outside: "x < 8 \<or> 12 \<le> x \<Longrightarrow> with_header d k mv x = d x"
  by (auto simp: with_header_def set_max_val_def set_count_def mem_simps)

lemma with_header_inside: "8 \<le> x \<Longrightarrow> x < 12 \<Longrightarrow> with_header d k mv x = with_header e k mv x"
  by (auto simp: with_header_def set_max_val_def set_count_def wr16_def wr_bytes_def)

lemma with_header_fields [simp]:
  "GetCount (with_header d k mv) = word_of_nat k" "hdr_max_val (with_header d k mv) = mv"
  "hdr_heap_offset (with_header d k mv) = hdr_heap_offset d" "get_slot (with_header d k mv) i = get_slot d i"
  "GetRLink (with_header d k mv) = GetRLink d" "GetLevel (with_header d k mv) = GetLevel d"
  "hdr_pid (with_header d k mv) = hdr_pid d"
  by (simp_all add: with_header_def hdr_defs mem_simps)

lemma set_max_val_with_header: "set_max_val (with_header d k mv) mv' = with_header d k mv'"
  by (rule ext) (auto simp: with_header_def set_max_val_def set_count_def wr16_def wr_bytes_def)

lemma with_header_set_rlink: "with_header (set_rlink d x) k mv = set_rlink (with_header d k mv) x"
  by (rule ext) (auto simp: with_header_def set_max_val_def set_count_def set_rlink_def wr16_def wr32_def wr_bytes_def)

lemma with_header_insert:
  assumes "k + 1 < 65536"
  shows "insert_slot (with_header d k mv) k off = with_header (set_slot d k off) (k + 1) mv"
proof -
  have "unat (word_of_nat k :: u16) = k" using assms by (simp add: unat_of_nat)
  then have "insert_slot (with_header d k mv) k off = set_count (set_slot (with_header d k mv) k off) (word_of_nat (k + 1))"
    by (simp add: insert_slot_def ShiftRightInsert_def memmove_def add.commute)
  also have "\<dots> = with_header (set_slot d k off) (k + 1) mv"
    by (rule ext) (auto simp: with_header_def set_max_val_def set_count_def set_slot_def slot_addr_def
        header_size_def wr16_def wr_bytes_def)
  finally show ?thesis .
qed

text \<open>A page on which \<^verbatim>\<open>InitHeader\<close> was just run with count 0.\<close>

definition fresh_page :: "mem \<Rightarrow> bool" where
  "fresh_page d \<longleftrightarrow> GetCount d = 0 \<and> unat (hdr_heap_offset d) = DB7_PAGE_SIZE \<and>
     hdr_max_val d = UNDEFINED_OFFSET \<and> GetRLink d = UNDEFINED_PAGE"

lemma InitHeader_fresh: "fresh_page (InitHeader d 0 level pid)"
  by (simp add: fresh_page_def InitHeader_def WriteHeader_def Let_def hdr_defs mem_simps
      DB7_PAGE_SIZE_def)

lemma InitHeader_fields:
  "GetLevel (InitHeader d c level pid) = level" "hdr_pid (InitHeader d c level pid) = pid"
  by (simp_all add: InitHeader_def WriteHeader_def Let_def hdr_defs mem_simps)

section \<open>Appending to a page\<close>

context slot_layout
begin

lemma AppendHeap_room:
  assumes ap: "AppendHeap F d val key = (d', off)" and k: "key_ok key \<or> klen key = 0"
    and v: "length val = len_pos F"
    and fit: "slot_addr m + rec_cost F (unat (klen key)) \<le> unat (hdr_heap_offset d)"
  shows "appended F d val (key_bytes key) d' off" "slot_addr m \<le> unat off"
    "hdr_size F + length (key_bytes key) \<le> unat (hdr_heap_offset d)"
    "unat (hdr_heap_offset d) \<le> unat off + rec_cost F (unat (klen key))"
proof -
  let ?h = "unat (hdr_heap_offset d)" and ?n = "unat (klen key)" and ?a = "hdr_align F"
  have len: "length (key_bytes key) = ?n"
    using k length_key_bytes [of key] by (auto simp: key_bytes_def)
  have off_def: "off = CalculateHeapOffset F (hdr_heap_offset d) (klen key)"
    using ap by (auto simp: AppendHeap_def Let_def)
  have fit1: "hdr_size F + ?n \<le> ?h" using fit by (simp add: rec_cost_def)
  then show "hdr_size F + length (key_bytes key) \<le> ?h" using len by simp
  have "?h - ?n - hdr_size F < unat off + ?a"
    unfolding off_def unat_CalculateHeapOffset [OF fit1]
    using dividend_less_div_times [OF align_pos, of "?h - ?n - hdr_size F"] by simp
  then show "?h \<le> unat off + rec_cost F ?n" and room: "slot_addr m \<le> unat off"
    using fit align_pos by (simp_all add: rec_cost_def)
  show "appended F d val (key_bytes key) d' off"
    using room by (intro AppendHeap_appended [OF ap k v fit1]) (simp add: slot_addr_def header_size_def)
qed

lemma appended_overlay:
  assumes ap: "appended F d val bs d' off" and off: "20 \<le> unat off"
    and out: "\<And>x. x < 8 \<or> 12 \<le> x \<Longrightarrow> e x = d x \<and> e' x = d' x"
    and ins: "\<And>x. 8 \<le> x \<Longrightarrow> x < 12 \<Longrightarrow> e' x = e x"
  shows "appended F e val bs e' off"
proof -
  have h: "hdr_heap_offset e = hdr_heap_offset d" "hdr_heap_offset e' = hdr_heap_offset d'"
    using out by (auto simp: hdr_heap_offset_def rd16_def intro!: arg_cong [of _ _ le_dec] rd_bytes_cong
        arg_cong [of _ _ "word_of_nat :: nat \<Rightarrow> u16"])
  have s: "slot_len F e' (unat off) = slot_len F d' (unat off)" "slot_ent F e' (unat off) = slot_ent F d' (unat off)"
    using off out by (auto intro!: slot_frame)
  have "e' x = e x"
    if "(x < unat off \<or> unat off + hdr_size F + length bs \<le> x) \<and> (x < 16 \<or> 18 \<le> x)" for x
    using that out [of x] ins [of x] appendedD(5) [OF ap, of x] by (cases "x < 8 \<or> 12 \<le> x") auto
  with ap show ?thesis unfolding appended_def h s by auto
qed

text \<open>Appending a record and making it the high fence.\<close>

lemma page_append_fence:
  assumes ok: "page_ok F d" and ap: "appended F d val bs d1 off"
    and fit: "hdr_size F + length bs \<le> unat (hdr_heap_offset d)"
    and room: "slot_addr (unat (GetCount d)) \<le> unat off"
  defines "d2 \<equiv> set_max_val d1 off"
  shows "page_ok F d2" "page_ents F d2 = page_ents F d" "page_fence F d2 = Some bs"
    "hdr_heap_offset d2 = off" "GetCount d2 = GetCount d" "GetLevel d2 = GetLevel d" "hdr_pid d2 = hdr_pid d"
    "GetRLink d2 = GetRLink d"
proof -
  let ?h = "unat (hdr_heap_offset d)"
  note okD = page_okD [OF ok]
  have off20: "20 \<le> unat off" using room by (simp add: slot_addr_def header_size_def)
  note hdr1 = appended_header [OF ap off20] and bnd = appended_bounds [OF ap fit]
  show hdr2: "hdr_heap_offset d2 = off" "GetCount d2 = GetCount d" "GetLevel d2 = GetLevel d"
      "hdr_pid d2 = hdr_pid d" "GetRLink d2 = GetRLink d"
    using hdr1 appendedD(2) [OF ap] by (simp_all add: d2_def hdr_defs mem_simps)
  have mv: "hdr_max_val d2 = off" by (simp add: d2_def hdr_defs mem_simps)
  have tail: "d2 x = d1 x" if "20 \<le> x" for x
    using that by (simp add: d2_def set_max_val_def mem_simps)
  have slots: "page_slots d2 = page_slots d"
  proof (rule nth_equalityI)
    fix i
    assume "i < length (page_slots d2)"
    then have i: "i < unat (GetCount d)" using hdr2 by simp
    have "get_slot d2 i = get_slot d1 i" by (simp add: d2_def hdr_defs mem_simps)
    with i hdr2 show "page_slots d2 ! i = page_slots d ! i"
      using appended_slot [OF ap room i] by simp
  qed (use hdr2 in simp)
  have ge: "?h \<le> s" "hdr_align F dvd s" "slot_end F d s \<le> DB7_PAGE_SIZE" if "s \<in> set (page_slots d)" for s
    using okD(4) [OF that] by (auto simp: slot_ok_def)
  have old: "slot_end F d2 s = slot_end F d s" "slot_ent F d2 s = slot_ent F d s" if "?h \<le> s" for s
    using that bnd(1) off20 appended_old_slot [OF ap fit that off20] slot_frame [of s d1 d2] tail by auto
  show "page_ents F d2 = page_ents F d"
    using ge(1) by (auto simp: page_ents_def slots old)
  have new: "slot_ent F d2 (unat off) = (bs, val)" "slot_end F d2 (unat off) = unat off + hdr_size F + length bs"
    using slot_frame [of "unat off" d1 d2] tail off20 appendedD(4) [OF ap] bnd(3) by auto
  have "unat off \<noteq> unat UNDEFINED_OFFSET"
    using bnd(1) okD(2) by (simp add: UNDEFINED_OFFSET_def DB7_PAGE_SIZE_def)
  then have undef: "off \<noteq> UNDEFINED_OFFSET" by auto
  then show "page_fence F d2 = Some bs"
    using new(1) by (simp add: page_fence_def mv slot_ent_def)
  have "slots_disjoint F d2 (page_slots d2)"
    using okD(5) slots_disjoint_cong [of "page_slots d" d2 d] old(1) ge(1) by (simp add: slots)
  moreover have "slot_ok F d2 (unat off) s" if "s \<in> set (page_slots d2)" for s
    using ge [of s] that bnd(1) by (auto simp: slot_ok_def old slots)
  moreover have "slot_ok F d2 (unat off) (unat off)"
    using bnd new(2) okD(2) by (simp add: slot_ok_def)
  ultimately show "page_ok F d2"
    using hdr2 mv room bnd okD(2) by (auto simp: page_ok_def)
qed

text \<open>Appending a record and its slot at the end of the array, seen with the header the page gets at the
  end of the operation.\<close>

lemma append_step:
  assumes ok: "page_ok F (with_header d k mv)" and k: "k + 1 < 65536"
    and key: "key_ok key \<or> klen key = 0" and v: "length val = len_pos F"
    and fit: "slot_addr (k + 1) + rec_cost F (unat (klen key)) \<le> unat (hdr_heap_offset d)"
    and ap: "AppendHeap F d val key = (d1, off)"
  defines "d2 \<equiv> set_slot d1 k off"
  shows "page_ok F (with_header d2 (k + 1) mv)"
    "page_ents F (with_header d2 (k + 1) mv) = page_ents F (with_header d k mv) @ [(key_bytes key, val)]"
    "page_fence F (with_header d2 (k + 1) mv) = page_fence F (with_header d k mv)"
    "unat (hdr_heap_offset d) \<le> unat (hdr_heap_offset d2) + rec_cost F (unat (klen key))"
    "GetRLink d2 = GetRLink d" "GetLevel d2 = GetLevel d" "hdr_pid d2 = hdr_pid d"
    "hdr_max_val d2 = hdr_max_val d"
proof -
  let ?H = "\<lambda>d. with_header d k mv"
  note room = AppendHeap_room [OF ap key v fit]
  have off20: "20 \<le> unat off" using room(2) by (simp add: slot_addr_def header_size_def)
  have ap2: "appended F (?H d) val (key_bytes key) (?H d1) off"
    using room(1) off20 by (rule appended_overlay) (simp_all add: with_header_outside with_header_inside)
  have uk: "unat (word_of_nat k :: u16) = k" using k by (simp add: unat_of_nat)
  have eq: "insert_slot (?H d1) k off = with_header d2 (k + 1) mv"
    unfolding d2_def by (rule with_header_insert [OF k])
  have cnt: "unat (GetCount (?H d)) = k" "unat (hdr_heap_offset (?H d)) = unat (hdr_heap_offset d)"
    by (simp_all add: uk)
  note ins = page_insert [OF ok ap2, of k, unfolded eq cnt, OF room(3,2) order_refl]
  have "length (page_ents F (?H d)) = k" using cnt by simp
  with ins(2) show "page_ents F (with_header d2 (k + 1) mv) = page_ents F (?H d) @ [(key_bytes key, val)]"
    by simp
  show "page_ok F (with_header d2 (k + 1) mv)" "page_fence F (with_header d2 (k + 1) mv) = page_fence F (?H d)"
    by (fact ins(1), fact ins(3))
  show "unat (hdr_heap_offset d) \<le> unat (hdr_heap_offset d2) + rec_cost F (unat (klen key))"
    using ins(7) room(4) by simp
  show "GetRLink d2 = GetRLink d" "GetLevel d2 = GetLevel d" "hdr_pid d2 = hdr_pid d"
    using ins(4-6) by simp_all
  have "hdr_max_val d1 = hdr_max_val d" by (rule appended_header(4) [OF room(1) off20])
  then show "hdr_max_val d2 = hdr_max_val d" by (simp add: d2_def hdr_defs mem_simps)
qed

lemma copy_loop_ok:
  assumes "page_ok F (with_header d (j - split) mv)" "split \<le> j" "j \<le> n" "n < 65536"
    "slot_addr (n - split) + (\<Sum>i\<leftarrow>[j..<n]. rec_cost F (unat (slot_len F l (unat (get_slot l i))))) \<le>
      unat (hdr_heap_offset d)"
  defines "d' \<equiv> copy_loop F l d [j..<n] split"
  shows "page_ok F (with_header d' (n - split) mv) \<and>
    page_ents F (with_header d' (n - split) mv) =
      page_ents F (with_header d (j - split) mv) @ map (\<lambda>i. slot_ent F l (unat (get_slot l i))) [j..<n] \<and>
    page_fence F (with_header d' (n - split) mv) = page_fence F (with_header d (j - split) mv) \<and>
    unat (hdr_heap_offset d) \<le> unat (hdr_heap_offset d') +
      (\<Sum>i\<leftarrow>[j..<n]. rec_cost F (unat (slot_len F l (unat (get_slot l i))))) \<and>
    GetRLink d' = GetRLink d \<and> GetLevel d' = GetLevel d \<and> hdr_pid d' = hdr_pid d"
  using assms(1-5) unfolding d'_def
proof (induction "n - j" arbitrary: d j)
  case 0
  then show ?case by simp
next
  case (Suc m)
  then have jn: "j < n" and up: "[j..<n] = j # [Suc j..<n]" by (simp_all add: upt_conv_Cons)
  let ?s = "unat (get_slot l j)"
  obtain d1 off where ap: "AppendHeap F d (slot_val F l ?s) (slot_Key F l ?s) = (d1, off)"
    by (cases "AppendHeap F d (slot_val F l ?s) (slot_Key F l ?s)")
  have k: "j - split + 1 < 65536" and jk: "Suc j - split = j - split + 1"
    using jn Suc.prems by simp_all
  have fit: "slot_addr (j - split + 1) + rec_cost F (unat (klen (slot_Key F l ?s))) \<le> unat (hdr_heap_offset d)"
    using Suc.prems jn by (simp add: up slot_addr_def)
  note st = append_step [OF Suc.prems(1) k disjI1 [OF key_ok_slot_Key] length_slot_val fit ap,
      unfolded klen_slot_Key key_bytes_slot_Key, folded slot_ent_def]
  define d2 where "d2 = set_slot d1 (j - split) off"
  have step: "copy_loop F l d [j..<n] split = copy_loop F l d2 [Suc j..<n] split"
    by (simp add: up ap d2_def)
  have sum: "slot_addr (n - split) + (\<Sum>i\<leftarrow>[Suc j..<n]. rec_cost F (unat (slot_len F l (unat (get_slot l i))))) \<le>
      unat (hdr_heap_offset d2)"
    using Suc.prems(5) st(4) by (simp add: up d2_def)
  have "m = n - Suc j" using Suc.hyps(2) by simp
  note IH = Suc.hyps(1) [OF this _ _ _ Suc.prems(4) sum]
  show ?case
    unfolding step unfolding up using IH st Suc.prems jn by (simp add: jk d2_def [symmetric])
qed

lemma disjoint_by_offset:
  assumes dj: "slots_disjoint F d (slots_of d n)" and ij: "i < n" "j < n" "i \<noteq> j"
    and le: "unat (get_slot d j) \<le> unat (get_slot d i)"
  shows "slot_end F d (unat (get_slot d j)) \<le> unat (get_slot d i)"
proof -
  have P: "slot_end F d (unat (get_slot d i)) \<le> unat (get_slot d j) \<or>
      slot_end F d (unat (get_slot d j)) \<le> unat (get_slot d i)" if "i < j" "j < n" for i j
    using dj that unfolding slots_disjoint_def
    by (auto simp: sorted_wrt_iff_nth_less)
  have "slot_end F d (unat (get_slot d i)) \<le> unat (get_slot d j) \<or>
      slot_end F d (unat (get_slot d j)) \<le> unat (get_slot d i)"
    using P [of i j] P [of j i] ij by (cases "i < j") auto
  with le slot_end_gt [of "unat (get_slot d i)" d] show ?thesis by auto
qed

lemma compact_order:
  assumes dj: "slots_disjoint F d (slots_of d n)"
  defines "idxs \<equiv> sort_key (\<lambda>i. - int (unat (get_slot d i))) [0..<n]"
  shows "distinct idxs" "set idxs = {0..<n}"
    "sorted_wrt (\<lambda>i j. slot_end F d (unat (get_slot d j)) \<le> unat (get_slot d i)) idxs"
proof -
  show dist: "distinct idxs" and st: "set idxs = {0..<n}"
    by (simp_all add: idxs_def)
  have "sorted (map (\<lambda>i. - int (unat (get_slot d i))) idxs)" by (simp add: idxs_def)
  then have srt: "sorted_wrt (\<lambda>i j. unat (get_slot d j) \<le> unat (get_slot d i)) idxs"
    by (simp add: sorted_wrt_map del: of_nat_unat)
  show "sorted_wrt (\<lambda>i j. slot_end F d (unat (get_slot d j)) \<le> unat (get_slot d i)) idxs"
    unfolding sorted_wrt_iff_nth_less
  proof (intro allI impI)
    fix a b
    assume ab: "a < b" "b < length idxs"
    then have "idxs ! a \<noteq> idxs ! b" "idxs ! a < n" "idxs ! b < n"
      using dist st nth_mem [of a idxs] nth_mem [of b idxs] by (auto simp: nth_eq_iff_index_eq)
    then show "slot_end F d (unat (get_slot d (idxs ! b))) \<le> unat (get_slot d (idxs ! a))"
      using disjoint_by_offset [OF dj, of "idxs ! a" "idxs ! b"] sorted_wrt_nth_less [OF srt ab] by auto
  qed
qed

lemma sum_list_same_set:
  "distinct xs \<Longrightarrow> set xs = {0..<n} \<Longrightarrow> (\<Sum>x\<leftarrow>xs. f x :: nat) = (\<Sum>x\<leftarrow>[0..<n]. f x)"
  by (simp add: sum_list_distinct_conv_sum_set)

lemma compact_pre_page:
  assumes ok: "page_ok F d" and n: "n \<le> unat (GetCount d)"
  defines "d0 \<equiv> set_heap_offset d (word_of_nat DB7_PAGE_SIZE)"
  defines "idxs \<equiv> sort_key (\<lambda>i. - int (unat (get_slot d0 i))) [0..<n]"
  shows "compact_pre d0 (unat (hdr_heap_offset d)) idxs" "distinct idxs" "set idxs = {0..<n}"
    "unat (hdr_heap_offset d0) = DB7_PAGE_SIZE" "\<And>i. get_slot d0 i = get_slot d i"
    "\<And>s. 20 \<le> s \<Longrightarrow> slot_ent F d0 s = slot_ent F d s \<and> slot_len F d0 s = slot_len F d s"
proof -
  note okD = page_okD [OF ok]
  have h20: "20 \<le> unat (hdr_heap_offset d)" using okD(1) by (simp add: slot_addr_def header_size_def)
  show h0: "unat (hdr_heap_offset d0) = DB7_PAGE_SIZE"
    by (simp add: d0_def hdr_defs mem_simps DB7_PAGE_SIZE_def)
  show gs: "get_slot d0 i = get_slot d i" for i by (simp add: d0_def hdr_defs mem_simps)
  have "d0 x = d x" if "20 \<le> x" for x using that by (simp add: d0_def set_heap_offset_def mem_simps)
  then have fr: "slot_end F d0 s = slot_end F d s \<and> slot_ent F d0 s = slot_ent F d s \<and> slot_len F d0 s = slot_len F d s"
    if "20 \<le> s" for s
    using that slot_frame [of s d d0] by auto
  then show "20 \<le> s \<Longrightarrow> slot_ent F d0 s = slot_ent F d s \<and> slot_len F d0 s = slot_len F d s" for s by blast
  have sok: "slot_ok F d (unat (hdr_heap_offset d)) (unat (get_slot d i))" if "i < n" for i
  proof -
    have "unat (get_slot d i) = page_slots d ! i" using that n by simp
    then show ?thesis using okD(4) that n by (metis length_page_slots nth_mem order_less_le_trans)
  qed
  have ge20: "20 \<le> unat (get_slot d i)" if "i < n" for i
    using sok [OF that] h20 by (simp add: slot_ok_def)
  have pre: "slots_of d n = take n (page_slots d)"
    using n by (intro nth_equalityI) simp_all
  have "slots_disjoint F d (slots_of d n)"
    using okD(5) unfolding slots_disjoint_def pre by (rule sorted_wrt_take)
  moreover have "slots_of d0 n = slots_of d n" by (simp add: slots_of_def gs)
  moreover have "slots_disjoint F d0 (slots_of d n) = slots_disjoint F d (slots_of d n)"
    using fr ge20 by (intro slots_disjoint_cong) (auto simp: slots_of_def)
  ultimately have "slots_disjoint F d0 (slots_of d0 n)" by simp
  note co = compact_order [OF this, folded idxs_def]
  show "distinct idxs" "set idxs = {0..<n}" by (fact co(1), fact co(2))
  have "slot_addr (i + 1) \<le> unat (hdr_heap_offset d)" if "i < n" for i
    using okD(1) n that by (simp add: slot_addr_def)
  then show "compact_pre d0 (unat (hdr_heap_offset d)) idxs"
    unfolding compact_pre_def
    using co h0 h20 okD(2) align_dvd_page sok fr ge20 by (auto simp: slot_ok_def gs)
qed

text \<open>After the moves the records of the first n slots are apart and unchanged, under the page's new header.\<close>

lemma compact_post_slots:
  assumes post: "compact_post d0 lb idxs d'" and set: "set idxs = {0..<n}"
  shows "slots_disjoint F d' (slots_of d' n)"
proof -
  have w: "sorted_wrt (\<lambda>i j. slot_end F d' (unat (get_slot d' j)) \<le> unat (get_slot d' i)) idxs"
    using post by (simp add: compact_post_def)
  show ?thesis
    unfolding slots_disjoint_def sorted_wrt_iff_nth_less
  proof (intro allI impI)
    fix i j
    assume ij: "i < j" "j < length (slots_of d' n)"
    then have "i \<in> set idxs" "j \<in> set idxs" "i \<noteq> j" using set by auto
    from sorted_wrt_members [OF w this] ij
    show "slot_end F d' (slots_of d' n ! i) \<le> slots_of d' n ! j \<or> slot_end F d' (slots_of d' n ! j) \<le> slots_of d' n ! i"
      by auto
  qed
qed

lemma compact_post_page:
  assumes post: "compact_post d0 lb idxs d'" and set: "set idxs = {0..<n}" and h0: "unat (hdr_heap_offset d0) = DB7_PAGE_SIZE"
    and lb: "20 \<le> lb" "slot_addr n \<le> lb" and n: "n < 65536"
  shows "page_ok F (with_header d' n UNDEFINED_OFFSET)"
    "page_ents F (with_header d' n UNDEFINED_OFFSET) = map (\<lambda>i. slot_ent F d0 (unat (get_slot d0 i))) [0..<n]"
proof -
  let ?D = "with_header d' n UNDEFINED_OFFSET"
  have un: "unat (word_of_nat n :: u16) = n" using n by (simp add: unat_of_nat)
  have p: "lb \<le> unat (hdr_heap_offset d')" "hdr_align F dvd unat (hdr_heap_offset d')"
      "unat (hdr_heap_offset d') \<le> DB7_PAGE_SIZE"
    and q: "\<And>i. i < n \<Longrightarrow> record_moved d0 d' i \<and> unat (hdr_heap_offset d') \<le> unat (get_slot d' i) \<and>
        hdr_align F dvd unat (get_slot d' i) \<and> slot_end F d' (unat (get_slot d' i)) \<le> DB7_PAGE_SIZE"
    using post set h0 by (simp_all add: compact_post_def)
  have slotsD: "page_slots ?D = slots_of d' n" by (simp add: page_slots_def slots_of_def un)
  have fD: "slot_end F ?D s = slot_end F d' s \<and> slot_ent F ?D s = slot_ent F d' s" if "20 \<le> s" for s
    using that slot_frame [of s d' ?D] by (auto simp: with_header_outside)
  have ge: "20 \<le> unat (get_slot d' i)" if "i < n" for i using q [OF that] p lb by linarith
  have "slot_ent F ?D (unat (get_slot d' i)) = slot_ent F d0 (unat (get_slot d0 i))" if "i < n" for i
    using record_moved_slot(2) [of d0 d' i] q [OF that] fD [OF ge [OF that]] by simp
  then show "page_ents F ?D = map (\<lambda>i. slot_ent F d0 (unat (get_slot d0 i))) [0..<n]"
    by (intro nth_equalityI) (simp_all add: un)
  have "slots_disjoint F ?D (slots_of d' n) = slots_disjoint F d' (slots_of d' n)"
    using fD ge by (intro slots_disjoint_cong) (auto simp: slots_of_def)
  with compact_post_slots [OF post set] show "page_ok F ?D"
    unfolding page_ok_def slotsD using p q lb fD ge by (auto simp: un slots_of_def slot_ok_def)
qed

lemma CompactHeap_ok:
  assumes ok: "page_ok F d" and n: "n \<le> unat (GetCount d)"
  shows "\<exists>d'. CompactHeap F (set_heap_offset d (word_of_nat DB7_PAGE_SIZE)) n = Inr d' \<and>
    page_ok F (with_header d' n UNDEFINED_OFFSET) \<and>
    page_ents F (with_header d' n UNDEFINED_OFFSET) = take n (page_ents F d) \<and>
    DB7_PAGE_SIZE \<le> unat (hdr_heap_offset d') + ents_cost F (take n (page_ents F d)) \<and>
    GetCount d' = GetCount d \<and> GetRLink d' = GetRLink d \<and> GetLevel d' = GetLevel d \<and> hdr_pid d' = hdr_pid d"
proof -
  let ?d0 = "set_heap_offset d (word_of_nat DB7_PAGE_SIZE)" and ?lb = "unat (hdr_heap_offset d)"
  let ?idxs = "sort_key (\<lambda>i. - int (unat (get_slot ?d0 i))) [0..<n]"
  let ?cost = "\<lambda>i. rec_cost F (unat (slot_len F ?d0 (unat (get_slot ?d0 i))))"
  note pre = compact_pre_page [OF ok n] and okD = page_okD [OF ok]
  from compact_loop_ok [OF pre(1)] obtain d' where lp: "compact_loop F ?d0 ?idxs = Inr d'"
    and post: "compact_post ?d0 ?lb ?idxs d'" by blast
  have run: "CompactHeap F ?d0 n = Inr d'"
    using lp pre(4) by (simp add: CompactHeap_def del: of_nat_unat)
  have nb: "n < 65536" using n unat_u16_less [of "GetCount d"] by linarith
  have lb: "20 \<le> ?lb" "slot_addr n \<le> ?lb" using okD(1) n by (simp_all add: slot_addr_def header_size_def)
  note pg = compact_post_page [OF post pre(3,4) lb nb]
  have "d' x = ?d0 x" if "x < 16" for x
    using post that lb unfolding compact_post_def by (auto simp: slot_addr_def header_size_def)
  then have fr: "rd_bytes d' a k = rd_bytes ?d0 a k" "d' 12 = ?d0 12" if "a + k \<le> 16" for a k
    using that by (auto intro: rd_bytes_cong)
  have hdr: "GetCount d' = GetCount d" "GetRLink d' = GetRLink d" "GetLevel d' = GetLevel d" "hdr_pid d' = hdr_pid d"
    using fr [of 8 2] fr [of 4 4] fr [of 0 4] by (simp_all add: hdr_defs mem_simps rd16_def rd32_def)
  have ge0: "20 \<le> unat (get_slot d i)" if "i < n" for i
    using okD(4) [of "unat (get_slot d i)"] that n lb nth_mem [of i "page_slots d"] by (auto simp: slot_ok_def)
  have ents: "map (\<lambda>i. slot_ent F ?d0 (unat (get_slot ?d0 i))) [0..<n] = take n (page_ents F d)"
    using n pre(5,6) ge0 by (intro nth_equalityI) simp_all
  have "DB7_PAGE_SIZE \<le> unat (hdr_heap_offset d') + (\<Sum>i\<leftarrow>?idxs. ?cost i)"
    using post pre(4) unfolding compact_post_def rec_cost_def by metis
  also have "(\<Sum>i\<leftarrow>?idxs. ?cost i) = (\<Sum>i\<leftarrow>[0..<n]. ?cost i)"
    by (rule sum_list_same_set [OF pre(2,3)])
  also have "map ?cost [0..<n] = map (\<lambda>e. rec_cost F (length (fst e))) (take n (page_ents F d))"
    using n pre(5,6) ge0 by (intro nth_equalityI) (simp_all add: slot_ent_def)
  finally show ?thesis
    using run pg hdr unfolding ents by (auto simp: ents_cost_def)
qed

lemma page_ok_empty:
  assumes "GetCount d = 0" "unat (hdr_heap_offset d) = DB7_PAGE_SIZE" "hdr_max_val d = UNDEFINED_OFFSET"
  shows "page_ok F d" "page_ents F d = []" "page_fence F d = None"
  using assms align_dvd_page
  by (auto simp: page_ok_def page_ents_def page_slots_def slots_of_def page_fence_def slots_disjoint_def
      slot_addr_def header_size_def DB7_PAGE_SIZE_def)

lemma copy_fence_ok:
  assumes fresh: "fresh_page right" and fit: "slot_addr m + fence_cost F left \<le> DB7_PAGE_SIZE"
  defines "r \<equiv> (if hdr_max_val left \<noteq> UNDEFINED_OFFSET
      then AppendHeap F right (slot_val F left (unat (hdr_max_val left))) (slot_Key F left (unat (hdr_max_val left)))
      else (right, UNDEFINED_OFFSET))"
  shows "page_ok F (with_header (fst r) 0 (snd r))" "page_ents F (with_header (fst r) 0 (snd r)) = []"
    "page_fence F (with_header (fst r) 0 (snd r)) = page_fence F left"
    "DB7_PAGE_SIZE \<le> unat (hdr_heap_offset (fst r)) + fence_cost F left"
    "GetRLink (fst r) = GetRLink right" "GetLevel (fst r) = GetLevel right" "hdr_pid (fst r) = hdr_pid right"
proof -
  let ?H = "\<lambda>d. with_header d 0 UNDEFINED_OFFSET" and ?mv = "unat (hdr_max_val left)"
  have h: "unat (hdr_heap_offset right) = DB7_PAGE_SIZE" using fresh by (simp add: fresh_page_def)
  then have hH: "unat (hdr_heap_offset (?H right)) = DB7_PAGE_SIZE" by simp
  note empty = page_ok_empty [of "?H right", simplified, OF h]
  have "page_ok F (with_header (fst r) 0 (snd r)) \<and> page_ents F (with_header (fst r) 0 (snd r)) = [] \<and>
    page_fence F (with_header (fst r) 0 (snd r)) = page_fence F left \<and>
    DB7_PAGE_SIZE \<le> unat (hdr_heap_offset (fst r)) + fence_cost F left \<and>
    GetRLink (fst r) = GetRLink right \<and> GetLevel (fst r) = GetLevel right \<and> hdr_pid (fst r) = hdr_pid right"
  proof (cases "hdr_max_val left = UNDEFINED_OFFSET")
    case True
    then show ?thesis using empty h by (simp add: r_def page_fence_def)
  next
    case False
    then have fence: "page_fence F left = Some (slot_key F left ?mv)"
        "fence_cost F left = rec_cost F (unat (slot_len F left ?mv))"
      by (simp_all add: page_fence_def fence_cost_def)
    obtain d1 off where ap: "AppendHeap F right (slot_val F left ?mv) (slot_Key F left ?mv) = (d1, off)"
      by (cases "AppendHeap F right (slot_val F left ?mv) (slot_Key F left ?mv)")
    note room = AppendHeap_room [OF ap disjI1 [OF key_ok_slot_Key] length_slot_val, of m,
        unfolded klen_slot_Key key_bytes_slot_Key h, OF fit [unfolded fence(2)]]
    have off20: "20 \<le> unat off" using room(2) by (simp add: slot_addr_def header_size_def)
    have ap2: "appended F (?H right) (slot_val F left ?mv) (slot_key F left ?mv) (?H d1) off"
      using room(1) off20 by (rule appended_overlay) (simp_all add: with_header_outside with_header_inside)
    have z: "slot_addr (unat (GetCount (?H right))) \<le> unat off"
      using off20 by (simp add: slot_addr_def header_size_def)
    note af = page_append_fence [OF empty(1) ap2 _ z, unfolded hH, OF room(3), unfolded set_max_val_with_header]
    have "r = (d1, off)" using False ap by (simp add: r_def)
    with af empty room(4) fence show ?thesis by simp
  qed
  then show "page_ok F (with_header (fst r) 0 (snd r))" "page_ents F (with_header (fst r) 0 (snd r)) = []"
    "page_fence F (with_header (fst r) 0 (snd r)) = page_fence F left"
    "DB7_PAGE_SIZE \<le> unat (hdr_heap_offset (fst r)) + fence_cost F left"
    "GetRLink (fst r) = GetRLink right" "GetLevel (fst r) = GetLevel right" "hdr_pid (fst r) = hdr_pid right"
    by blast+
qed

lemma CopyHalfRight_ok:
  assumes fresh: "fresh_page right" and split: "split \<le> unat (GetCount left)"
    and fit: "slot_addr (unat (GetCount left) - split) + fence_cost F left +
      ents_cost F (drop split (page_ents F left)) \<le> DB7_PAGE_SIZE"
    and run: "CopyHalfRight F left right split = (r, rm)"
  defines "D \<equiv> with_header r (unat (GetCount left) - split) rm"
  shows "page_ok F D" "page_ents F D = drop split (page_ents F left)" "page_fence F D = page_fence F left"
    "DB7_PAGE_SIZE \<le> unat (hdr_heap_offset r) + fence_cost F left + ents_cost F (drop split (page_ents F left))"
    "GetRLink r = GetRLink right" "GetLevel r = GetLevel right" "hdr_pid r = hdr_pid right"
proof -
  let ?n = "unat (GetCount left)"
  define q where "q = (if hdr_max_val left \<noteq> UNDEFINED_OFFSET
      then AppendHeap F right (slot_val F left (unat (hdr_max_val left))) (slot_Key F left (unat (hdr_max_val left)))
      else (right, UNDEFINED_OFFSET))"
  have r: "r = copy_loop F left (fst q) [split..<?n] split" "rm = snd q"
    using run by (simp_all add: CopyHalfRight_def Let_def q_def split: prod.splits if_splits)
  have ents: "map (\<lambda>i. slot_ent F left (unat (get_slot left i))) [split..<?n] = drop split (page_ents F left)"
    using split by (intro nth_equalityI) simp_all
  have "map (\<lambda>i. rec_cost F (unat (slot_len F left (unat (get_slot left i))))) [split..<?n] =
      map (\<lambda>e. rec_cost F (length (fst e))) (drop split (page_ents F left))"
    unfolding ents [symmetric] by (simp add: slot_ent_def comp_def)
  then have cost: "(\<Sum>i\<leftarrow>[split..<?n]. rec_cost F (unat (slot_len F left (unat (get_slot left i))))) =
      ents_cost F (drop split (page_ents F left))"
    by (simp only: ents_cost_def)
  have "slot_addr (?n - split) + fence_cost F left \<le> DB7_PAGE_SIZE" using fit by simp
  note cf = copy_fence_ok [OF fresh this, folded q_def]
  note cl = copy_loop_ok [of "fst q" split split "snd q" ?n left, folded r(1), unfolded cost ents diff_self_eq_0]
  have "slot_addr (?n - split) + ents_cost F (drop split (page_ents F left)) \<le> unat (hdr_heap_offset (fst q))"
    using fit cf(4) by linarith
  then have "page_ok F D \<and> page_ents F D = page_ents F (with_header (fst q) 0 (snd q)) @ drop split (page_ents F left) \<and>
      page_fence F D = page_fence F (with_header (fst q) 0 (snd q)) \<and>
      unat (hdr_heap_offset (fst q)) \<le> unat (hdr_heap_offset r) + ents_cost F (drop split (page_ents F left)) \<and>
      GetRLink r = GetRLink (fst q) \<and> GetLevel r = GetLevel (fst q) \<and> hdr_pid r = hdr_pid (fst q)"
    using cl [OF cf(1) order_refl split unat_u16_less] unfolding D_def r(2) by blast
  with cf show "page_ok F D" "page_ents F D = drop split (page_ents F left)" "page_fence F D = page_fence F left"
    "DB7_PAGE_SIZE \<le> unat (hdr_heap_offset r) + fence_cost F left + ents_cost F (drop split (page_ents F left))"
    "GetRLink r = GetRLink right" "GetLevel r = GetLevel right" "hdr_pid r = hdr_pid right"
    by auto
qed

lemma page_set_rlink:
  assumes "page_ok F d"
  shows "page_ok F (set_rlink d x)" "page_ents F (set_rlink d x) = page_ents F d"
    "page_fence F (set_rlink d x) = page_fence F d"
proof -
  let ?e = "set_rlink d x"
  note okD = page_okD [OF assms]
  have hdr: "GetCount ?e = GetCount d" "hdr_heap_offset ?e = hdr_heap_offset d" "hdr_max_val ?e = hdr_max_val d"
      "get_slot ?e i = get_slot d i" for i
    by (simp_all add: hdr_defs mem_simps)
  have slots: "page_slots ?e = page_slots d" by (simp add: page_slots_def slots_of_def hdr)
  have "20 \<le> unat (hdr_heap_offset d)" using okD(1) by (simp add: slot_addr_def header_size_def)
  then have fr: "slot_end F ?e s = slot_end F d s" "slot_ent F ?e s = slot_ent F d s" "slot_key F ?e s = slot_key F d s"
    if "unat (hdr_heap_offset d) \<le> s" for s
    using that slot_frame [of s d ?e] by (auto simp: set_rlink_def mem_simps)
  have ge: "unat (hdr_heap_offset d) \<le> s" if "s \<in> set (page_slots d)" for s
    using okD(4) [OF that] by (simp add: slot_ok_def)
  show "page_ents F ?e = page_ents F d" using ge by (auto simp: page_ents_def slots fr)
  show "page_fence F ?e = page_fence F d"
    using okD(6) by (auto simp: page_fence_def hdr fr slot_ok_def)
  show "page_ok F ?e"
    using okD slots_disjoint_cong [of "page_slots d" ?e d] ge fr
    unfolding page_ok_def slots hdr slot_ok_def by auto
qed

lemma first_slot:
  assumes "page_ok F (with_header d k mv)" "0 < k" "k < 65536"
  shows "page_ents F (with_header d k mv) ! 0 = slot_ent F d (unat (get_slot d 0))" "20 \<le> unat (get_slot d 0)"
proof -
  let ?D = "with_header d k mv"
  note okD = page_okD [OF assms(1)]
  have c: "unat (GetCount ?D) = k" using assms(3) by (simp add: unat_of_nat)
  have "unat (get_slot d 0) \<in> set (page_slots ?D)"
    using nth_mem [of 0 "page_slots ?D"] assms(2) c by simp
  from okD(4) [OF this] okD(1) show ge: "20 \<le> unat (get_slot d 0)"
    by (simp add: slot_ok_def slot_addr_def header_size_def)
  then have "slot_ent F ?D (unat (get_slot d 0)) = slot_ent F d (unat (get_slot d 0))"
    using slot_frame(4) [of "unat (get_slot d 0)" d ?D] by (simp add: with_header_outside)
  with assms(2) c show "page_ents F ?D ! 0 = slot_ent F d (unat (get_slot d 0))" by simp
qed

text \<open>The left half: compacted page, sentinel appended as its fence.\<close>

lemma left_half_ok:
  assumes ok: "page_ok F (with_header d n UNDEFINED_OFFSET)" and n: "n < 65536" and v: "length val = len_pos F"
    and k: "key_ok key" and fit: "slot_addr n + rec_cost F (unat (klen key)) \<le> unat (hdr_heap_offset d)"
    and ap: "AppendHeap F d val key = (d1, off)"
  defines "D \<equiv> with_header d1 n off"
  shows "page_ok F D" "page_ents F D = page_ents F (with_header d n UNDEFINED_OFFSET)"
    "page_fence F D = Some (key_bytes key)" "GetCount d1 = GetCount d" "GetRLink d1 = GetRLink d"
    "GetLevel D = GetLevel d" "hdr_pid D = hdr_pid d"
    "unat (hdr_heap_offset d) \<le> unat (hdr_heap_offset D) + rec_cost F (unat (klen key))"
proof -
  let ?H = "\<lambda>d. with_header d n UNDEFINED_OFFSET"
  note room = AppendHeap_room [OF ap disjI1 [OF k] v fit]
  have off20: "20 \<le> unat off" using room(2) by (simp add: slot_addr_def header_size_def)
  have ap2: "appended F (?H d) val (key_bytes key) (?H d1) off"
    using room(1) off20 by (rule appended_overlay) (simp_all add: with_header_outside with_header_inside)
  have eq: "set_max_val (?H d1) off = D" by (simp add: D_def set_max_val_with_header)
  have h: "unat (hdr_heap_offset (?H d)) = unat (hdr_heap_offset d)" "unat (GetCount (?H d)) = n"
    using n by (simp_all add: unat_of_nat)
  note af = page_append_fence [OF ok ap2, unfolded h eq, OF room(3) room(2)]
  show "page_ok F D" "page_ents F D = page_ents F (?H d)" "page_fence F D = Some (key_bytes key)"
    "GetCount d1 = GetCount d" "GetRLink d1 = GetRLink d" "GetLevel D = GetLevel d" "hdr_pid D = hdr_pid d"
    "unat (hdr_heap_offset d) \<le> unat (hdr_heap_offset D) + rec_cost F (unat (klen key))"
    using af appended_header [OF room(1) off20] room(4) by simp_all
qed

definition halves_post :: "mem \<Rightarrow> page_id \<Rightarrow> mem \<Rightarrow> nat \<Rightarrow> mem \<Rightarrow> mem \<Rightarrow> nat \<Rightarrow> bool" where
  "halves_post left new_pid right split l r s \<longleftrightarrow>
     page_ok F l \<and> page_ok F r \<and>
     page_ents F l = take split (page_ents F left) \<and> page_ents F r = drop split (page_ents F left) \<and>
     page_fence F l = Some (fst (page_ents F left ! split)) \<and> page_fence F r = page_fence F left \<and>
     GetRLink l = new_pid \<and> GetRLink r = GetRLink left \<and>
     GetLevel l = GetLevel left \<and> hdr_pid l = hdr_pid left \<and>
     GetLevel r = GetLevel right \<and> hdr_pid r = hdr_pid right \<and>
     s = unat (get_slot r 0) \<and>
     DB7_PAGE_SIZE \<le> unat (hdr_heap_offset l) + ents_cost F (take split (page_ents F left)) +
       rec_cost F (length (fst (page_ents F left ! split))) \<and>
     DB7_PAGE_SIZE \<le> unat (hdr_heap_offset r) + fence_cost F left + ents_cost F (drop split (page_ents F left))"

lemma SplitHalves_ok:
  assumes ok: "page_ok F left" and fresh: "fresh_page right"
    and sp: "FindSplitPoint F left (unat (GetCount left)) = Inr split" "0 < split" "split < unat (GetCount left)"
    and fitR: "slot_addr (unat (GetCount left) - split) + fence_cost F left +
      ents_cost F (drop split (page_ents F left)) \<le> DB7_PAGE_SIZE"
    and fitL: "slot_addr split + ents_cost F (take split (page_ents F left)) +
      rec_cost F (length (fst (page_ents F left ! split))) \<le> DB7_PAGE_SIZE"
  shows "\<exists>l r s. SplitHalves F left right new_pid = Inr (l, r, s) \<and> halves_post left new_pid right split l r s"
proof -
  let ?n = "unat (GetCount left)" and ?es = "page_ents F left"
  have nb: "split < 65536" "?n - split < 65536" using sp unat_u16_less [of "GetCount left"] by linarith+
  obtain r1 rm where cr: "CopyHalfRight F left right split = (r1, rm)" by fastforce
  note R = CopyHalfRight_ok [OF fresh less_imp_le [OF sp(3)] fitR cr]
  obtain l1 where cl: "CompactHeap F (set_heap_offset left (word_of_nat DB7_PAGE_SIZE)) split = Inr l1"
    and okl: "page_ok F (with_header l1 split UNDEFINED_OFFSET)"
    and el: "page_ents F (with_header l1 split UNDEFINED_OFFSET) = take split ?es"
    and hl: "DB7_PAGE_SIZE \<le> unat (hdr_heap_offset l1) + ents_cost F (take split ?es)"
    and fl: "GetCount l1 = GetCount left" "GetRLink l1 = GetRLink left" "GetLevel l1 = GetLevel left" "hdr_pid l1 = hdr_pid left"
    using CompactHeap_ok [OF ok less_imp_le [OF sp(3)]] by blast
  define s where "s = unat (get_slot r1 0)"
  have fs: "slot_ent F r1 s = ?es ! split"
    using first_slot(1) [OF R(1)] sp nb R(2) by (simp add: s_def)
  then have sk: "slot_key F r1 s = fst (?es ! split)" by (simp add: slot_ent_def prod_eq_iff)
  then have sl: "unat (slot_len F r1 s) = length (fst (?es ! split))" by (metis length_slot_key)
  obtain l2 lm where ap: "AppendHeap F l1 (slot_val F r1 s) (slot_Key F r1 s) = (l2, lm)" by fastforce
  have "slot_addr split + rec_cost F (unat (klen (slot_Key F r1 s))) \<le> unat (hdr_heap_offset l1)"
    using fitL hl sl by simp
  note L = left_half_ok [OF okl nb(1) length_slot_val key_ok_slot_Key this ap]
  define l r where "l = set_rlink (with_header l2 split lm) new_pid"
    and "r = set_rlink (with_header r1 (?n - split) rm) (GetRLink left)"
  have cnt: "GetCount left - word_of_nat split = word_of_nat (?n - split)"
    using sp by (simp add: of_nat_diff)
  have run: "SplitHalves F left right new_pid = Inr (l, r, s)"
    by (simp add: SplitHalves_def sp(1) cr cl ap Let_def s_def [symmetric] l_def r_def L(4,5) fl cnt
        with_header_set_rlink [symmetric]) (simp add: with_header_def)
  note rl = page_set_rlink [OF L(1), of new_pid] and rr = page_set_rlink [OF R(1), of "GetRLink left"]
  have hdr: "GetRLink l = new_pid" "GetRLink r = GetRLink left" "GetLevel l = GetLevel left" "hdr_pid l = hdr_pid left"
      "GetLevel r = GetLevel right" "hdr_pid r = hdr_pid right" "get_slot r 0 = get_slot r1 0"
      "hdr_heap_offset l = hdr_heap_offset l2" "hdr_heap_offset r = hdr_heap_offset r1"
    using L(6,7) R(6,7) fl by (simp_all add: l_def r_def with_header_def hdr_defs mem_simps)
  have bl: "DB7_PAGE_SIZE \<le> unat (hdr_heap_offset l) + ents_cost F (take split ?es) + rec_cost F (length (fst (?es ! split)))"
    using L(8) hl sl hdr(8) by simp
  have "halves_post left new_pid right split l r s"
    unfolding halves_post_def
    using rl rr hdr L(2,3) R(2-4) el sk bl by (simp add: l_def [symmetric] r_def [symmetric] s_def)
  with run show ?thesis by blast
qed

end

section \<open>The split point\<close>

lemma split_scan_spec:
  assumes "pre @ ls = lens" "acc = sum_list pre" "i = length pre" "2 \<le> length lens"
    "i = 0 \<or> acc < target" "target \<le> sum_list lens"
  shows "let r = split_scan ls target acc i (length lens)
    in 0 < r \<and> r < length lens \<and> (r = 1 \<or> sum_list (take (r - 1) lens) < target) \<and>
       (r = length lens - 1 \<or> target \<le> sum_list (take r lens))"
  using assms
proof (induction ls arbitrary: pre acc i)
  case Nil
  have "sum_list (take (length lens - 2) lens) \<le> sum_list lens"
    by (metis append_take_drop_id le_add1 sum_list_append)
  with Nil show ?case by (auto simp: Let_def)
next
  case (Cons l ls)
  show ?case
  proof (cases "target \<le> acc + l")
    case True
    let ?r = "min (i + 1) (length lens - 1)"
    have tk: "take (i + 1) lens = pre @ [l]" "take i lens = pre" "i + 1 \<le> length lens"
      using Cons.prems by auto
    have "take (?r - 1) lens = take (?r - 1) (take i lens)" by simp
    then have "sum_list (take (?r - 1) lens) \<le> acc"
      using tk(2) Cons.prems(2) by (metis append_take_drop_id le_add1 sum_list_append)
    with True tk Cons.prems show ?thesis by (auto simp: Let_def min_def split: if_splits)
  next
    case False
    with Cons.IH [of "pre @ [l]" "acc + l" "i + 1"] Cons.prems show ?thesis by simp
  qed
qed

lemma FindSplitPoint_ok:
  fixes F :: slot_fmt and d :: mem
  assumes "2 \<le> n"
  defines "lens \<equiv> map (\<lambda>i. unat (slot_len F d (unat (get_slot d i)))) [0..<n]"
  shows "\<exists>sp. FindSplitPoint F d n = Inr sp \<and> 0 < sp \<and> sp < n \<and>
    2 * sum_list (take (sp - 1) lens) \<le> sum_list lens \<and>
    (sp = n - 1 \<or> sum_list lens \<le> 2 * sum_list (take sp lens) + 1)"
  using split_scan_spec [of "[]" lens lens 0 0 "sum_list lens div 2"] assms(1)
  by (auto simp: FindSplitPoint_def lens_def Let_def)

definition ents_len :: "entry list \<Rightarrow> nat" where
  "ents_len es = (\<Sum>e\<leftarrow>es. length (fst e))"

lemma ents_len_append [simp]: "ents_len (xs @ ys) = ents_len xs + ents_len ys"
  by (simp add: ents_len_def)

lemma ents_take_drop:
  "ents_cost F es = ents_cost F (take n es) + ents_cost F (drop n es)"
  "live_cost F es = live_cost F (take n es) + live_cost F (drop n es)"
  "ents_len es = ents_len (take n es) + ents_len (drop n es)"
  by (metis append_take_drop_id ents_cost_append live_cost_append ents_len_append)+

lemma page_split_point:
  assumes "2 \<le> unat (GetCount d)"
  shows "\<exists>sp. FindSplitPoint F d (unat (GetCount d)) = Inr sp \<and> 0 < sp \<and> sp < unat (GetCount d) \<and>
    2 * ents_len (take (sp - 1) (page_ents F d)) \<le> ents_len (page_ents F d) \<and>
    (sp = unat (GetCount d) - 1 \<or> ents_len (page_ents F d) \<le> 2 * ents_len (take sp (page_ents F d)) + 1)"
proof -
  have "map (\<lambda>i. unat (slot_len F d (unat (get_slot d i)))) [0..<unat (GetCount d)] =
      map (\<lambda>e. length (fst e)) (page_ents F d)"
    by (intro nth_equalityI) (simp_all add: slot_ent_def)
  with FindSplitPoint_ok [OF assms, of F d] show ?thesis
    by (simp add: ents_len_def take_map)
qed

section \<open>Capacity of the halves\<close>

lemma sum_disjoint_le:
  fixes st en :: "nat \<Rightarrow> nat"
  assumes "sorted_wrt (\<lambda>i j. en j \<le> st i) is" "\<And>i. i \<in> set is \<Longrightarrow> lb \<le> st i \<and> st i \<le> en i \<and> en i \<le> ub" "lb \<le> ub"
  shows "(\<Sum>i\<leftarrow>is. en i - st i) + lb \<le> ub"
  using assms
proof (induction "is" arbitrary: ub)
  case (Cons i "is")
  have "(\<Sum>i\<leftarrow>is. en i - st i) + lb \<le> st i"
    using Cons.prems by (intro Cons.IH) auto
  moreover have "st i \<le> en i" "en i \<le> ub" using Cons.prems(2) [of i] by simp_all
  ultimately show ?case unfolding list.map sum_list.Cons by linarith
qed simp

text \<open>\<open>p\<close>, \<open>q\<close> and \<open>r\<close> bound the padded cost of a record by its certain cost and its key length; the
  first entry of a page may be the empty key.\<close>

definition cost_ratio :: "slot_fmt \<Rightarrow> nat \<Rightarrow> nat \<Rightarrow> nat \<Rightarrow> entry list \<Rightarrow> bool" where
  "cost_ratio F p q r es \<longleftrightarrow>
     q * (ents_cost F es + 2 * length es) \<le> p * (live_cost F es + ents_len es) + r"

lemma cost_ratio_append:
  "cost_ratio F p q r xs \<Longrightarrow> cost_ratio F p q r' ys \<Longrightarrow> cost_ratio F p q (r + r') (xs @ ys)"
  by (simp add: cost_ratio_def algebra_simps)

lemma cost_ratio_list:
  assumes "\<And>e. e \<in> set es \<Longrightarrow> cost_ratio F p q 0 [e]"
  shows "cost_ratio F p q 0 es"
  using assms
proof (induction es)
  case Nil
  show ?case by (simp add: cost_ratio_def ents_cost_def)
next
  case (Cons e es)
  with cost_ratio_append [of F p q 0 "[e]" 0 es] show ?case by simp
qed

context slot_layout
begin

lemma page_live_cost:
  assumes ok: "page_ok F d"
  shows "live_cost F (page_ents F d) + 20 \<le> DB7_PAGE_SIZE"
proof -
  let ?n = "unat (GetCount d)" and ?h = "unat (hdr_heap_offset d)"
  let ?st = "\<lambda>i. unat (get_slot d i)"
  note okD = page_okD [OF ok]
  have dj: "slots_disjoint F d (slots_of d ?n)" using okD(5) by (simp add: page_slots_def)
  define idxs where "idxs = sort_key (\<lambda>i. - int (unat (get_slot d i))) [0..<?n]"
  note co = compact_order [OF dj, folded idxs_def]
  have sok: "slot_ok F d ?h (?st i)" if "i < ?n" for i
    using okD(4) [of "?st i"] nth_mem [of i "page_slots d"] that by simp
  have "(\<Sum>i\<leftarrow>idxs. slot_end F d (?st i) - ?st i) + ?h \<le> DB7_PAGE_SIZE"
    using co sok okD(2) by (intro sum_disjoint_le) (auto simp: slot_ok_def slot_end_def)
  also have "(\<Sum>i\<leftarrow>idxs. slot_end F d (?st i) - ?st i) = (\<Sum>i\<leftarrow>[0..<?n]. slot_end F d (?st i) - ?st i)"
    by (rule sum_list_same_set [OF co(1,2)])
  also have "map (\<lambda>i. slot_end F d (?st i) - ?st i) [0..<?n] = map (\<lambda>e. hdr_size F + length (fst e)) (page_ents F d)"
    by (intro nth_equalityI) (simp_all add: slot_end_def slot_ent_def)
  finally have "(\<Sum>e\<leftarrow>page_ents F d. hdr_size F + length (fst e)) + ?h \<le> DB7_PAGE_SIZE" .
  moreover have "live_cost F es = (\<Sum>e\<leftarrow>es. hdr_size F + length (fst e)) + 2 * length es" for es :: "entry list"
    by (induction es) (simp_all add: live_cost_def)
  ultimately show ?thesis using okD(1) by (simp add: slot_addr_def header_size_def)
qed

lemma ents_len_le_live: "ents_len es \<le> live_cost F es"
  unfolding ents_len_def live_cost_def by (rule sum_list_mono) simp

text \<open>What each half costs before its neighbour's records are added.\<close>

lemma left_capacity:
  assumes ok: "page_ok F d" and sp: "0 < sp" "sp < length (page_ents F d)"
    and bal: "2 * ents_len (take (sp - 1) (page_ents F d)) \<le> ents_len (page_ents F d)"
    and hd: "cost_ratio F p q r (take 1 (page_ents F d))" and tl: "\<And>e. e \<in> set (tl (page_ents F d)) \<Longrightarrow> cost_ratio F p q 0 [e]"
  defines "es \<equiv> page_ents F d"
  shows "q * (ents_cost F (take (sp - 1) es) + 2 * (sp - 1)) \<le> p * 8172 + r"
proof -
  note live = page_live_cost [OF ok, folded es_def, unfolded DB7_PAGE_SIZE_def]
  have pos: "es \<noteq> []" using sp by (metis es_def less_nat_zero_code list.size(3))
  then have h1: "cost_ratio F p q r [es ! 0]" using hd by (cases es) (simp_all add: es_def [symmetric])
  let ?P = "take (sp - 1) es"
  have cP: "cost_ratio F p q r ?P"
  proof (cases "sp = 1")
    case True
    then show ?thesis by (simp add: cost_ratio_def ents_cost_def)
  next
    case False
    then have P: "?P = [es ! 0] @ take (sp - 2) (tl es)"
      using pos sp by (cases es) (auto simp: take_Cons' numeral_2_eq_2 Suc_diff_Suc)
    have "cost_ratio F p q 0 (take (sp - 2) (tl es))"
      by (rule cost_ratio_list) (use tl in_set_takeD es_def in fast)
    from cost_ratio_append [OF h1 this] show ?thesis unfolding P by simp
  qed
  have "live_cost F ?P + ents_len ?P \<le> 8172"
    using live bal ents_take_drop(2) [of F es "sp - 1"] ents_take_drop(3) [of es "sp - 1"]
      ents_len_le_live [of "drop (sp - 1) es"] by (simp add: es_def [symmetric])
  then have "p * (live_cost F ?P + ents_len ?P) \<le> p * 8172" by (rule mult_le_mono2)
  moreover have lP: "length ?P = sp - 1" using sp by (simp add: es_def)
  ultimately show ?thesis using cP unfolding cost_ratio_def lP by linarith
qed

lemma one_more_capacity:
  assumes sp: "0 < sp" "sp < length es" and tl: "\<And>e. e \<in> set (tl es) \<Longrightarrow> length (fst e) \<le> M"
  shows "ents_cost F (take sp es) \<le> ents_cost F (take (sp - 1) es) + rec_cost F (max M (length (fst (es ! 0))))"
proof -
  have lt: "sp - 1 < length es" using sp by simp
  have "take sp es = take (sp - 1) es @ [es ! (sp - 1)]" using sp lt take_Suc_conv_app_nth [OF lt] by simp
  moreover have "length (fst (es ! (sp - 1))) \<le> max M (length (fst (es ! 0)))"
  proof (cases "sp = 1")
    case False
    then have "es ! (sp - 1) \<in> set (tl es)"
      using sp lt nth_mem [of "sp - 2" "tl es"] by (auto simp: nth_tl numeral_2_eq_2 Suc_diff_Suc)
    then show ?thesis using tl by (simp add: le_max_iff_disj)
  qed simp
  ultimately show ?thesis by (simp add: ents_cost_def rec_cost_def)
qed

lemma right_capacity:
  assumes ok: "page_ok F d" and sp: "0 < sp" "sp < length (page_ents F d)"
    and bal: "sp = length (page_ents F d) - 1 \<or> ents_len (page_ents F d) \<le> 2 * ents_len (take sp (page_ents F d)) + 1"
    and tl: "\<And>e. e \<in> set (tl (page_ents F d)) \<Longrightarrow> cost_ratio F p q 0 [e] \<and> length (fst e) \<le> M"
  defines "es \<equiv> page_ents F d"
  shows "q * (ents_cost F (drop sp es) + 2 * (length es - sp)) \<le> p * 8173 \<or>
    ents_cost F (drop sp es) \<le> rec_cost F M \<and> length es - sp = 1"
proof -
  note live = page_live_cost [OF ok, folded es_def, unfolded DB7_PAGE_SIZE_def]
  let ?D = "drop sp es"
  have D_tl: "set ?D \<subseteq> set (tl es)" using sp by (cases es) (auto simp: drop_Cons' dest: in_set_dropD split: if_splits)
  show ?thesis
  proof (cases "sp = length es - 1")
    case True
    then have l1: "length es - sp = 1" using sp by (simp add: es_def)
    then have "length ?D = 1" by simp
    then obtain e where e: "?D = [e]" unfolding One_nat_def length_Suc_conv by auto
    with D_tl tl [of e] l1 show ?thesis by (simp add: ents_cost_def rec_cost_def es_def)
  next
    case False
    have cD: "cost_ratio F p q 0 ?D" by (rule cost_ratio_list) (use tl D_tl es_def in blast)
    have "live_cost F ?D + ents_len ?D \<le> 8173"
      using live bal False ents_take_drop(2) [of F es sp] ents_take_drop(3) [of es sp]
        ents_len_le_live [of "take sp es"] by (simp add: es_def [symmetric])
    then have "p * (live_cost F ?D + ents_len ?D) \<le> p * 8173" by (rule mult_le_mono2)
    then have "q * (ents_cost F ?D + 2 * (length es - sp)) \<le> p * 8173"
      using cD unfolding cost_ratio_def length_drop by linarith
    then show ?thesis ..
  qed
qed

lemma split_capacity:
  assumes ok: "page_ok F d" and sp: "0 < sp" "sp < length (page_ents F d)"
    and bal: "2 * ents_len (take (sp - 1) (page_ents F d)) \<le> ents_len (page_ents F d)"
      "sp = length (page_ents F d) - 1 \<or> ents_len (page_ents F d) \<le> 2 * ents_len (take sp (page_ents F d)) + 1"
    and hd: "cost_ratio F p q r (take 1 (page_ents F d))"
    and tl: "\<forall>e \<in> set (tl (page_ents F d)). cost_ratio F p q 0 [e] \<and> length (fst e) \<le> M"
  defines "es \<equiv> page_ents F d"
  shows "q * (ents_cost F (take (sp - 1) es) + 2 * (sp - 1)) \<le> p * 8172 + r"
    "ents_cost F (take sp es) \<le> ents_cost F (take (sp - 1) es) + rec_cost F (max M (length (fst (es ! 0))))"
    "q * (ents_cost F (drop sp es) + 2 * (length es - sp)) \<le> p * 8173 \<or>
     ents_cost F (drop sp es) \<le> rec_cost F M \<and> length es - sp = 1"
  using left_capacity [OF ok sp bal(1) hd] one_more_capacity [OF sp, of M] right_capacity [OF ok sp bal(2), of p q M] tl
  unfolding es_def by blast+

end

end
