(* ===== verification/NodeLayout.thy ===== *)
theory NodeLayout
  imports SlottedSplit
begin

text \<open>
  The contract of a B-tree node page, proved once for the leaf and the intermediate layout.

  The abstract node is a list of entries (key, header value) sorted strictly by key. A layout
  provides \<^verbatim>\<open>InsertSlot\<close>; the locale \<open>node_layout\<close> states what it has to do with a record that has
  just been appended to the heap (put its slot behind the smaller keys), and derives that inserting
  and splitting implement the list operations \<open>ent_insert\<close> and taking the list apart.
\<close>

section \<open>The abstract node\<close>

definition ent_insert :: "u8 list \<Rightarrow> u8 list \<Rightarrow> entry list \<Rightarrow> entry list" where
  "ent_insert k v es = takeWhile (\<lambda>e. fst e < k) es @ (k, v) # dropWhile (\<lambda>e. fst e < k) es"

definition ent_delete :: "u8 list \<Rightarrow> entry list \<Rightarrow> entry list" where
  "ent_delete k es = filter (\<lambda>e. fst e \<noteq> k) es"

definition keys_sorted :: "entry list \<Rightarrow> bool" where
  "keys_sorted es \<longleftrightarrow> sorted_wrt (<) (map fst es)"

lemma sorted_take_filter:
  fixes ks :: "'a::linorder list"
  assumes "sorted_wrt (<) ks"
  shows "take (length (filter (\<lambda>k. k < b) ks)) ks = takeWhile (\<lambda>k. k < b) ks"
  using assms
proof (induction ks)
  case (Cons k ks)
  have "filter (\<lambda>k. k < b) ks = []" if "\<not> k < b"
    using Cons.prems that by (auto simp: filter_empty_conv)
  with Cons show ?case by simp
qed simp

lemma take_position:
  fixes b :: "u8 list"
  assumes "keys_sorted es"
  defines "n \<equiv> length (filter (\<lambda>k. k < b) (map fst es))"
  shows "take n es = takeWhile (\<lambda>e. fst e < b) es" "drop n es = dropWhile (\<lambda>e. fst e < b) es" "n \<le> length es"
proof -
  have "map fst (take n es) = map fst (takeWhile (\<lambda>e. fst e < b) es)"
    using sorted_take_filter [of "map fst es" b] assms(1)
    by (simp add: take_map n_def keys_sorted_def takeWhile_map comp_def)
  then have l: "length (take n es) = length (takeWhile (\<lambda>e. fst e < b) es)" by (metis length_map)
  show n: "n \<le> length es" by (metis n_def length_filter_le length_map)
  from l n have n': "n = length (takeWhile (\<lambda>e. fst e < b) es)" by simp
  show "take n es = takeWhile (\<lambda>e. fst e < b) es" "drop n es = dropWhile (\<lambda>e. fst e < b) es"
    by (simp_all add: n' takeWhile_eq_take [symmetric] dropWhile_eq_drop [symmetric])
qed

lemma ent_insert_sorted:
  assumes "keys_sorted es" "k \<notin> fst ` set es"
  shows "keys_sorted (ent_insert k v es)"
proof -
  let ?P = "\<lambda>e. fst e < k"
  have split: "es = takeWhile ?P es @ dropWhile ?P es" by simp
  have "sorted_wrt (<) (map fst (takeWhile ?P es) @ map fst (dropWhile ?P es))"
    using assms(1) by (metis keys_sorted_def map_append takeWhile_dropWhile_id)
  then have parts: "sorted_wrt (<) (map fst (takeWhile ?P es))" "sorted_wrt (<) (map fst (dropWhile ?P es))"
    "\<forall>x\<in>set (takeWhile ?P es). \<forall>y\<in>set (dropWhile ?P es). fst x < fst y"
    by (auto simp: sorted_wrt_append)
  have "k < fst y" if y: "y \<in> set (dropWhile ?P es)" for y
  proof -
    obtain z zs where z: "dropWhile ?P es = z # zs" using y by (cases "dropWhile ?P es") auto
    then have "\<not> fst z < k" by (metis dropWhile_eq_Cons_conv)
    moreover have "z \<in> set es" "y \<in> set es" using z that by (metis set_dropWhileD list.set_intros(1), metis set_dropWhileD)
    ultimately have "k < fst z" using assms(2) by (metis imageI linorder_neqE)
    moreover have "fst z \<le> fst y" using parts(2) that z by auto
    ultimately show ?thesis by simp
  qed
  with parts show ?thesis
    by (auto simp: keys_sorted_def ent_insert_def sorted_wrt_append dest: set_takeWhileD)
qed

lemma set_ent_insert: "set (ent_insert k v es) = insert (k, v) (set es)"
proof -
  have "set es = set (takeWhile (\<lambda>e. fst e < k) es) \<union> set (dropWhile (\<lambda>e. fst e < k) es)"
    by (metis set_append takeWhile_dropWhile_id)
  then show ?thesis by (auto simp: ent_insert_def)
qed

lemma ent_insert_append_right:
  assumes "\<And>e. e \<in> set xs \<Longrightarrow> fst e < k"
  shows "xs @ ent_insert k v ys = ent_insert k v (xs @ ys)"
  using assms by (simp add: ent_insert_def takeWhile_append2 dropWhile_append2)

lemma ent_insert_append_left:
  assumes "ys \<noteq> []" "k \<le> fst (hd ys)"
  shows "ent_insert k v xs @ ys = ent_insert k v (xs @ ys)"
proof -
  have "\<not> fst (hd ys) < k" using assms(2) by simp
  then have "takeWhile (\<lambda>e. fst e < k) ys = []" "dropWhile (\<lambda>e. fst e < k) ys = ys"
    using assms(1) by (cases ys; simp)+
  then show ?thesis
    by (auto simp: ent_insert_def takeWhile_append dropWhile_append)
qed

section \<open>What a split has to do\<close>

definition split_fits :: "slot_fmt \<Rightarrow> mem \<Rightarrow> nat \<Rightarrow> bool" where
  "split_fits F d len \<longleftrightarrow>
     (\<forall>sp. FindSplitPoint F d (unat (GetCount d)) = Inr sp \<longrightarrow>
        slot_addr (sp + 1) + ents_cost F (take sp (page_ents F d)) +
          rec_cost F (length (fst (page_ents F d ! sp))) + rec_cost F len \<le> DB7_PAGE_SIZE \<and>
        slot_addr (unat (GetCount d) - sp + 1) + fence_cost F d +
          ents_cost F (drop sp (page_ents F d)) + rec_cost F len \<le> DB7_PAGE_SIZE)"

text \<open>No space of the heap is lost to deleted records.\<close>

definition page_tight :: "slot_fmt \<Rightarrow> mem \<Rightarrow> bool" where
  "page_tight F d \<longleftrightarrow> DB7_PAGE_SIZE \<le> unat (hdr_heap_offset d) + fence_cost F d + ents_cost F (page_ents F d)"

lemma ents_cost_insert: "ents_cost F (ent_insert k v es) = ents_cost F es + rec_cost F (length k)"
proof -
  have "ents_cost F es = ents_cost F (takeWhile (\<lambda>e. fst e < k) es) + ents_cost F (dropWhile (\<lambda>e. fst e < k) es)"
    by (metis ents_cost_append takeWhile_dropWhile_id)
  then show ?thesis by (simp add: ent_insert_def ents_cost_def)
qed

definition split_post :: "slot_fmt \<Rightarrow> mem \<Rightarrow> mem \<Rightarrow> page_id \<Rightarrow> u8 list \<Rightarrow> u8 list \<Rightarrow> mem \<Rightarrow> mem \<Rightarrow> Key \<Rightarrow> bool" where
  "split_post F left right new_pid k v l r sent \<longleftrightarrow>
     page_ok F l \<and> page_ok F r \<and>
     page_ents F l @ page_ents F r = ent_insert k v (page_ents F left) \<and>
     page_ents F l \<noteq> [] \<and> page_ents F r \<noteq> [] \<and>
     key_ok sent \<and> key_bytes sent = fst (hd (page_ents F r)) \<and>
     page_fence F l = Some (key_bytes sent) \<and> page_fence F r = page_fence F left \<and>
     GetRLink l = new_pid \<and> GetRLink r = GetRLink left \<and>
     GetLevel l = GetLevel left \<and> hdr_pid l = hdr_pid left \<and>
     GetLevel r = GetLevel right \<and> hdr_pid r = hdr_pid right \<and> page_tight F l \<and> page_tight F r \<and>
     key_bytes sent \<in> fst ` set (page_ents F left) \<and> hd (page_ents F left) \<in> set (page_ents F l)"

context slot_layout
begin

text \<open>Appending a record leaves the keys of the page readable.\<close>

lemma appended_keys:
  assumes ok: "page_ok F d" and ap: "appended F d val bs d1 off"
    and fit: "hdr_size F + length bs \<le> unat (hdr_heap_offset d)"
    and room: "slot_addr (unat (GetCount d) + 1) \<le> unat off"
  shows "GetCount d1 = GetCount d" "page_keys F d1 = page_keys F d" "slot_key F d1 (unat off) = bs"
    "page_ents F d1 = page_ents F d"
proof -
  have off20: "20 \<le> unat off" using room by (simp add: slot_addr_def header_size_def)
  show c: "GetCount d1 = GetCount d" by (rule appended_header(1) [OF ap off20])
  have slot: "get_slot d1 i = get_slot d i" if "i < unat (GetCount d)" for i
    using appended_slot [OF ap room, of i] that by simp
  have ge: "unat (hdr_heap_offset d) \<le> unat (get_slot d i)" if "i < unat (GetCount d)" for i
    using page_okD(4) [OF ok, of "unat (get_slot d i)"] that nth_mem [of i "page_slots d"] by (simp add: slot_ok_def)
  show ents: "page_ents F d1 = page_ents F d"
    using c slot ge appended_old_slot(4) [OF ap fit _ off20] by (intro nth_equalityI) simp_all
  then show "page_keys F d1 = page_keys F d" by (simp add: page_keys_ents)
  show "slot_key F d1 (unat off) = bs" using appendedD(4) [OF ap] by (simp add: slot_ent_def)
qed

end

section \<open>The contract\<close>

locale node_layout = slot_layout +
  fixes ins :: "mem \<Rightarrow> u16 \<Rightarrow> mem res"
  assumes ins_spec:
    "\<lbrakk>page_ok F d; sorted_wrt (<) (page_keys F d); appended F d val bs d1 off;
      hdr_size F + length bs \<le> unat (hdr_heap_offset d);
      slot_addr (unat (GetCount d) + 1) \<le> unat off; bs \<notin> set (page_keys F d)\<rbrakk> \<Longrightarrow>
     ins d1 off = Inr (insert_slot d1 (length (filter (\<lambda>k. k < bs) (page_keys F d))) off)"
begin

lemma HasSpaceFor_iff:
  assumes ok: "page_ok F d" and fit: "hdr_size F + unat len \<le> unat (hdr_heap_offset d)"
  shows "HasSpaceFor F d len \<longleftrightarrow>
    slot_addr (unat (GetCount d) + 1) \<le> unat (CalculateHeapOffset F (hdr_heap_offset d) len)"
proof -
  note okD = page_okD [OF ok]
  have "unat (GetCount d) \<le> 4086"
    using okD(1,2) by (simp add: slot_addr_def header_size_def DB7_PAGE_SIZE_def)
  then have "unat ((GetCount d + 1) * 2 :: u16) = 2 * (unat (GetCount d) + 1)"
    by (simp add: unat_word_ariths mod_simps)
  then show ?thesis by (auto simp: HasSpaceFor_def Let_def slot_addr_def header_size_def)
qed

definition inserted :: "mem \<Rightarrow> u8 list \<Rightarrow> u8 list \<Rightarrow> mem \<Rightarrow> bool" where
  "inserted d k v d2 \<longleftrightarrow>
     page_ok F d2 \<and> page_ents F d2 = ent_insert k v (page_ents F d) \<and> page_fence F d2 = page_fence F d \<and>
     GetRLink d2 = GetRLink d \<and> GetLevel d2 = GetLevel d \<and> hdr_pid d2 = hdr_pid d \<and>
     unat (GetCount d2) = unat (GetCount d) + 1 \<and> (page_tight F d \<longrightarrow> page_tight F d2) \<and>
     (\<forall>x \<ge> unat (hdr_heap_offset d). d2 x = d x)"

lemma insert_ok:
  assumes ok: "page_ok F d" and srt: "keys_sorted (page_ents F d)"
    and k: "key_ok key" and v: "length val = len_pos F"
    and sp: "HasSpaceFor F d (klen key)" and fit: "hdr_size F + unat (klen key) \<le> unat (hdr_heap_offset d)"
    and new: "key_bytes key \<notin> fst ` set (page_ents F d)" and ap: "AppendHeap F d val key = (d1, off)"
  shows "\<exists>d2. ins d1 off = Inr d2 \<and> inserted d (key_bytes key) val d2"
proof -
  let ?bs = "key_bytes key" and ?n = "unat (GetCount d)"
  have off: "off = CalculateHeapOffset F (hdr_heap_offset d) (klen key)"
    using ap by (auto simp: AppendHeap_def Let_def)
  have room: "slot_addr (?n + 1) \<le> unat off"
    using sp HasSpaceFor_iff [OF ok fit] off by simp
  then have "20 \<le> unat off" by (simp add: slot_addr_def header_size_def)
  note ap' = AppendHeap_appended [OF ap disjI1 [OF k] v fit this]
  have fit': "hdr_size F + length ?bs \<le> unat (hdr_heap_offset d)"
    using fit length_key_bytes [OF k] by simp
  have keys: "page_keys F d = map fst (page_ents F d)" by (rule page_keys_ents)
  define idx where "idx = length (filter (\<lambda>k. k < ?bs) (page_keys F d))"
  note pos = take_position [OF srt, of ?bs, folded keys, folded idx_def]
  have idx: "idx \<le> ?n" using pos(3) by simp
  have run: "ins d1 off = Inr (insert_slot d1 idx off)"
    unfolding idx_def using ok srt ap' fit' room new
    by (intro ins_spec) (auto simp: keys keys_sorted_def)
  note pi = page_insert [OF ok ap' fit' room idx]
  have ents: "page_ents F (insert_slot d1 idx off) = ent_insert ?bs val (page_ents F d)"
    using pi(2) pos by (simp add: ent_insert_def)
  have "unat (hdr_heap_offset d) \<le> unat off + rec_cost F (length ?bs)"
    using dividend_less_div_times [OF align_pos, of "unat (hdr_heap_offset d) - unat (klen key) - hdr_size F"] fit
    unfolding off unat_CalculateHeapOffset [OF fit] by (simp add: rec_cost_def length_key_bytes [OF k])
  then have "page_tight F d \<longrightarrow> page_tight F (insert_slot d1 idx off)"
    using pi(3,7) by (simp add: page_tight_def ents ents_cost_insert fence_cost_def)
  with run pi ents show ?thesis unfolding inserted_def by blast
qed

lemma HasSpaceFor_room:
  assumes ok: "page_ok F d"
    and fit: "slot_addr (unat (GetCount d) + 1) + rec_cost F (unat len) \<le> unat (hdr_heap_offset d)"
  shows "HasSpaceFor F d len" "hdr_size F + unat len \<le> unat (hdr_heap_offset d)"
proof -
  let ?h = "unat (hdr_heap_offset d)" and ?o = "unat (CalculateHeapOffset F (hdr_heap_offset d) len)"
  show f: "hdr_size F + unat len \<le> ?h" using fit by (simp add: rec_cost_def)
  have "?h - unat len - hdr_size F < ?o + hdr_align F"
    unfolding unat_CalculateHeapOffset [OF f]
    using dividend_less_div_times [OF align_pos, of "?h - unat len - hdr_size F"] by simp
  with fit show "HasSpaceFor F d len"
    unfolding HasSpaceFor_iff [OF ok f] by (simp add: rec_cost_def)
qed

text \<open>The sentinel key read from the right page, before or after the new key went in.\<close>

lemma sentinel_read:
  assumes ok: "page_ok F r" and ne: "page_ents F r \<noteq> []" and same: "\<forall>x \<ge> unat (hdr_heap_offset r). r' x = r x"
  defines "s \<equiv> unat (get_slot r 0)"
  defines "K \<equiv> \<lparr>klen = slot_len F r s, kdata = Some (rd_bytes r' (s + hdr_size F) (unat (slot_len F r s)))\<rparr>"
  shows "key_ok K" "key_bytes K = fst (hd (page_ents F r))" "slot_key F r s = fst (hd (page_ents F r))"
proof -
  have c: "0 < unat (GetCount r)" using ne by (metis length_greater_0_conv length_page_ents)
  then have "s \<in> set (page_slots r)" using nth_mem [of 0 "page_slots r"] by (simp add: s_def)
  with page_okD(4) [OF ok] have "unat (hdr_heap_offset r) \<le> s" by (auto simp: slot_ok_def)
  then have "rd_bytes r' (s + hdr_size F) (unat (slot_len F r s)) = slot_key F r s"
    unfolding slot_key_def using same by (intro rd_bytes_cong) auto
  moreover show "slot_key F r s = fst (hd (page_ents F r))"
    using c ne by (simp add: hd_conv_nth s_def slot_ent_def)
  ultimately show "key_ok K" "key_bytes K = fst (hd (page_ents F r))"
    using length_slot_key [of F r s] by (simp_all add: K_def key_ok_def key_bytes_def)
qed

text \<open>The halves of a page, and the halves with the new key in either.\<close>

lemma halves_facts:
  assumes hp: "halves_post left new_pid right sp l r s" and sp: "0 < sp" "sp < unat (GetCount left)"
    and srt: "keys_sorted (page_ents F left)"
  shows "page_ents F l @ page_ents F r = page_ents F left" "page_ents F l \<noteq> []" "page_ents F r \<noteq> []"
    "unat (GetCount l) = sp" "unat (GetCount r) = unat (GetCount left) - sp"
    "hd (page_ents F r) = page_ents F left ! sp" "keys_sorted (page_ents F l)" "keys_sorted (page_ents F r)"
    "\<forall>e \<in> set (page_ents F l). fst e < fst (hd (page_ents F r))" "page_tight F l" "page_tight F r"
    "fst (hd (page_ents F r)) \<in> fst ` set (page_ents F left)" "hd (page_ents F left) \<in> set (page_ents F l)"
proof -
  let ?es = "page_ents F left"
  have e: "page_ents F l = take sp ?es" "page_ents F r = drop sp ?es" using hp by (auto simp: halves_post_def)
  then show hd: "hd (page_ents F r) = ?es ! sp" using sp by (simp add: hd_drop_conv_nth)
  show "page_ents F l @ page_ents F r = ?es" "page_ents F l \<noteq> []" "page_ents F r \<noteq> []"
    using sp e by (auto simp flip: length_greater_0_conv)
  show "unat (GetCount l) = sp" "unat (GetCount r) = unat (GetCount left) - sp"
    using arg_cong [OF e(1), of length] arg_cong [OF e(2), of length] sp by simp_all
  show "keys_sorted (page_ents F l)" "keys_sorted (page_ents F r)"
    using srt e by (simp_all add: keys_sorted_def take_map [symmetric] drop_map [symmetric] sorted_wrt_take sorted_wrt_drop)
  have "fst x < fst (?es ! sp)" if "x \<in> set (take sp ?es)" for x
    using srt that sp by (auto simp: keys_sorted_def sorted_wrt_iff_nth_less in_set_conv_nth)
  then show "\<forall>x \<in> set (page_ents F l). fst x < fst (hd (page_ents F r))" by (simp add: e(1) hd)
  show "page_tight F l" "page_tight F r" using hp e by (auto simp: halves_post_def page_tight_def fence_cost_def)
  show "fst (hd (page_ents F r)) \<in> fst ` set ?es" unfolding hd using sp by (intro imageI nth_mem) simp
  show "hd ?es \<in> set (page_ents F l)" using sp e(1) hd_in_set [of "take sp ?es"] by (simp flip: length_greater_0_conv)
qed

lemma halves_right:
  assumes hp: "halves_post left new_pid right sp l r s" and sp: "0 < sp" "sp < unat (GetCount left)"
    and srt: "keys_sorted (page_ents F left)" and post: "inserted r k val r2" and lo: "fst (hd (page_ents F r)) < k"
  shows "split_post F left right new_pid k val l r2
    \<lparr>klen = slot_len F r s, kdata = Some (rd_bytes r2 (s + hdr_size F) (unat (slot_len F r s)))\<rparr>"
proof -
  note h = halves_facts [OF hp sp srt]
  have e2: "page_ents F r2 = ent_insert k val (page_ents F r)" using post by (simp add: inserted_def)
  have "hd (page_ents F r2) = hd (page_ents F r)"
    using h(3) lo unfolding e2 ent_insert_def by (cases "page_ents F r") simp_all
  moreover have "fst e < k" if "e \<in> set (page_ents F l)" for e using h(9) lo that by fastforce
  from ent_insert_append_right [OF this, of "page_ents F l" val "page_ents F r"]
  have "page_ents F l @ page_ents F r2 = ent_insert k val (page_ents F left)" by (simp add: e2 h(1))
  moreover have "page_ents F r2 \<noteq> []" by (simp add: e2 ent_insert_def)
  moreover have "page_ok F r" "s = unat (get_slot r 0)" using hp by (simp_all add: halves_post_def)
  moreover have "\<forall>x \<ge> unat (hdr_heap_offset r). r2 x = r x" using post by (simp add: inserted_def)
  ultimately show ?thesis
    using hp post h(2,6,10-13) sentinel_read [OF _ h(3), of r2] by (simp add: split_post_def halves_post_def inserted_def)
qed

lemma halves_left:
  assumes hp: "halves_post left new_pid right sp l r s" and sp: "0 < sp" "sp < unat (GetCount left)"
    and srt: "keys_sorted (page_ents F left)" and post: "inserted l k val l2" and hi: "k < fst (hd (page_ents F r))"
  shows "split_post F left right new_pid k val l2 r
    \<lparr>klen = slot_len F r s, kdata = Some (rd_bytes r (s + hdr_size F) (unat (slot_len F r s)))\<rparr>"
proof -
  note h = halves_facts [OF hp sp srt]
  have e2: "page_ents F l2 = ent_insert k val (page_ents F l)" using post by (simp add: inserted_def)
  then have "page_ents F l2 @ page_ents F r = ent_insert k val (page_ents F left)"
    using hi h(1,3) ent_insert_append_left [of "page_ents F r" k val "page_ents F l"] by simp
  moreover have "page_ents F l2 \<noteq> []" by (simp add: e2 ent_insert_def)
  moreover have "hd (page_ents F left) \<in> set (page_ents F l2)" using h(13) by (simp add: e2 set_ent_insert)
  moreover have "page_ok F r" "s = unat (get_slot r 0)" using hp by (simp_all add: halves_post_def)
  ultimately show ?thesis
    using hp post h(3,6,10-13) sentinel_read [OF _ h(3), of r] by (simp add: split_post_def halves_post_def inserted_def)
qed

lemma Split_ok:
  assumes ok: "page_ok F left" and srt: "keys_sorted (page_ents F left)" and fresh: "fresh_page right"
    and cnt: "2 \<le> unat (GetCount left)" and k: "key_ok key" "klen key \<noteq> 0" and v: "length val = len_pos F"
    and new: "key_bytes key \<notin> fst ` set (page_ents F left)" and fits: "split_fits F left (unat (klen key))"
  shows "\<exists>l r sent. Split F ins left right new_pid key val = Inr (l, r, sent) \<and>
    split_post F left right new_pid (key_bytes key) val l r sent"
proof -
  let ?es = "page_ents F left" and ?n = "unat (GetCount left)" and ?bs = "key_bytes key"
  obtain sp where sp: "FindSplitPoint F left ?n = Inr sp" "0 < sp" "sp < ?n"
    using page_split_point [OF cnt, of F] by blast
  have fL: "slot_addr (sp + 1) + ents_cost F (take sp ?es) + rec_cost F (length (fst (?es ! sp))) + rec_cost F (unat (klen key)) \<le> DB7_PAGE_SIZE"
    and fR: "slot_addr (?n - sp + 1) + fence_cost F left + ents_cost F (drop sp ?es) + rec_cost F (unat (klen key)) \<le> DB7_PAGE_SIZE"
    using fits sp(1) by (auto simp: split_fits_def)
  have "slot_addr (?n - sp) + fence_cost F left + ents_cost F (drop sp ?es) \<le> DB7_PAGE_SIZE"
      "slot_addr sp + ents_cost F (take sp ?es) + rec_cost F (length (fst (?es ! sp))) \<le> DB7_PAGE_SIZE"
    using fL fR by (simp_all add: slot_addr_def)
  from SplitHalves_ok [OF ok fresh sp this, of new_pid] obtain l r s
    where sh: "SplitHalves F left right new_pid = Inr (l, r, s)" and hp: "halves_post left new_pid right sp l r s"
    by blast
  note h = halves_facts [OF hp sp(2,3) srt]
  have okl: "page_ok F l" and okr: "page_ok F r" and s: "s = unat (get_slot r 0)" using hp by (auto simp: halves_post_def)
  have dis: "?bs \<notin> fst ` set (page_ents F l)" "?bs \<notin> fst ` set (page_ents F r)" using new by (auto simp: h(1) [symmetric])
  have "kdata key \<noteq> None" "unat (hdr_heap_offset right) = DB7_PAGE_SIZE"
    using k(1) fresh by (auto simp: key_ok_def fresh_page_def)
  note unf = Split_def sh Let_def this k(2)
  have sk: "slot_key F r s = fst (hd (page_ents F r))" using sentinel_read(3) [OF okr h(3), of r] by (simp add: s)
  show ?thesis
  proof (cases "fst (hd (page_ents F r)) \<le> ?bs")
    case True
    have "slot_addr (unat (GetCount r) + 1) + rec_cost F (unat (klen key)) \<le> unat (hdr_heap_offset r)"
      using fR hp h(5) by (simp add: halves_post_def)
    note room = HasSpaceFor_room [OF okr this]
    obtain r1 off where ap: "AppendHeap F r val key = (r1, off)" by fastforce
    obtain r2 where ir: "ins r1 off = Inr r2" and post: "inserted r ?bs val r2"
      using insert_ok [OF okr h(8) k(1) v room dis(2) ap] by blast
    have "fst (hd (page_ents F r)) < ?bs" using True dis(2) h(3) by (metis hd_in_set image_eqI le_neq_trans)
    from halves_right [OF hp sp(2,3) srt post this] show ?thesis
      using True room(1) ap ir sk by (simp add: unf CmpFull_le)
  next
    case False
    have "slot_addr (unat (GetCount l) + 1) + rec_cost F (unat (klen key)) \<le> unat (hdr_heap_offset l)"
      using fL hp h(4) by (simp add: halves_post_def)
    note room = HasSpaceFor_room [OF okl this]
    obtain l1 off where ap: "AppendHeap F l val key = (l1, off)" by fastforce
    obtain l2 where il: "ins l1 off = Inr l2" and post: "inserted l ?bs val l2"
      using insert_ok [OF okl h(7) k(1) v room dis(1) ap] by blast
    from halves_left [OF hp sp(2,3) srt post] False show ?thesis
      using room(1) ap il sk by (simp add: unf CmpFull_le)
  qed
qed

end

end
