(* ===== verification/Shared.thy ===== *)
theory Shared
  imports Prelude
begin

text \<open>
  The utilities of \<^verbatim>\<open>include/shared\<close>: byte swapping, tuple identifiers, result objects, hashing, the
  bump arena of the undo buffers and the object pool that hands those arenas out.
\<close>

section \<open>Result objects and tuple identifiers (shared/models)\<close>

text \<open>\<^verbatim>\<open>ResultObj<Typ>\<close>: success with a value, or failure with an optional message.\<close>

datatype 'a ResultObj = Ok 'a | Fail "string option"

record 'v VectorValues =
  vec :: "'v list"
  proceed :: bool

record TupleId =
  tid_value :: u64

definition TupleId_of :: "u32 \<Rightarrow> u32 \<Rightarrow> TupleId" where
  "TupleId_of idx pagid = \<lparr>tid_value = push_bit 32 (ucast pagid) OR ucast idx\<rparr>"

definition GetIndex :: "TupleId \<Rightarrow> u32" where
  "GetIndex t = ucast (tid_value t)"

definition GetPageId :: "TupleId \<Rightarrow> u32" where
  "GetPageId t = ucast (drop_bit 32 (tid_value t))"

definition INVALID_TID :: TupleId where
  "INVALID_TID = \<lparr>tid_value = 0\<rparr>"

lemma TupleId_fields: "GetIndex (TupleId_of idx pagid) = idx" "GetPageId (TupleId_of idx pagid) = pagid"
  by (rule bit_word_eqI; auto simp: TupleId_of_def GetIndex_def GetPageId_def bit_simps dest: bit_imp_le_length)+

lemma TupleId_of_fields: "TupleId_of (GetIndex t) (GetPageId t) = t"
proof -
  have "push_bit 32 (ucast (GetPageId t)) OR ucast (GetIndex t) = tid_value t"
    by (rule bit_word_eqI) (auto simp: GetIndex_def GetPageId_def bit_simps not_less)
  then show ?thesis by (simp add: TupleId_of_def)
qed

section \<open>Byte order (shared/byte_utils.hpp)\<close>

definition ByteSwapIfLittleEndian :: "'a::len word \<Rightarrow> 'a word" where
  "ByteSwapIfLittleEndian v = word_of_nat (le_dec (rev (le_enc (LENGTH('a) div 8) (unat v))))"

definition be_enc :: "nat \<Rightarrow> nat \<Rightarrow> u8 list" where
  "be_enc n v = rev (le_enc n v)"

definition be_dec :: "u8 list \<Rightarrow> nat" where
  "be_dec bs = le_dec (rev bs)"

lemma length_be_enc [simp]: "length (be_enc n v) = n"
  by (simp add: be_enc_def)

lemma be_dec_enc: "be_dec (be_enc n v) = v mod 256 ^ n"
  by (simp add: be_dec_def be_enc_def le_dec_enc)

lemma be_enc_dec: "be_enc (length bs) (be_dec bs) = bs"
  using le_enc_dec [of "rev bs"] by (simp add: be_enc_def be_dec_def)

lemma le_enc_ByteSwap:
  assumes "LENGTH('a::len) = 8 * n"
  shows "le_enc n (unat (ByteSwapIfLittleEndian (v :: 'a word))) = be_enc n (unat v)"
proof -
  have "256 ^ n = (2 :: nat) ^ LENGTH('a)"
    unfolding assms power_mult by simp
  moreover have "le_dec (rev (le_enc n (unat v))) < 256 ^ n"
    using le_dec_less [of "rev (le_enc n (unat v))"] by simp
  ultimately have "unat (ByteSwapIfLittleEndian v) = le_dec (rev (le_enc n (unat v)))"
    using assms by (simp add: ByteSwapIfLittleEndian_def unat_of_nat)
  then show ?thesis
    using le_enc_dec [of "rev (le_enc n (unat v))"] by (simp add: be_enc_def)
qed

lemma ByteSwap_involution:
  assumes "LENGTH('a::len) = 8 * n"
  shows "ByteSwapIfLittleEndian (ByteSwapIfLittleEndian (v :: 'a word)) = v"
proof -
  have "256 ^ n = (2 :: nat) ^ LENGTH('a)"
    unfolding assms power_mult by simp
  then have "unat v mod 256 ^ n = unat v"
    using unsigned_less [of v, where ?'a = nat] by (intro mod_less) simp
  then show ?thesis
    unfolding ByteSwapIfLittleEndian_def [of "ByteSwapIfLittleEndian v"]
    using le_enc_ByteSwap [OF assms, of v] assms
    by (simp add: be_enc_def le_dec_enc)
qed

section \<open>Hashing (shared/hash_util.hpp)\<close>

definition murmurhash32 :: "u32 \<Rightarrow> u32" where
  "murmurhash32 data =
     (let h = data;
          h = h XOR drop_bit 16 h;
          h = h * 0x85ebca6b;
          h = h XOR drop_bit 13 h;
          h = h * 0xc2b2ae35;
          h = h XOR drop_bit 16 h
      in h)"

definition murmurhash64 :: "u64 \<Rightarrow> u64" where
  "murmurhash64 data =
     (let h = data;
          h = h XOR drop_bit 33 h;
          h = h * 0xff51afd7ed558ccd;
          h = h XOR drop_bit 33 h;
          h = h * 0xc4ceb9fe1a85ec53;
          h = h XOR drop_bit 33 h
      in h)"

lemma xorshift_inj:
  fixes x y :: "'a::len word"
  assumes "0 < k" "x XOR drop_bit k x = y XOR drop_bit k y"
  shows "x = y"
proof -
  have step: "(bit x n \<noteq> bit y n) = (bit x (n + k) \<noteq> bit y (n + k))" if "n < LENGTH('a)" for n
  proof -
    have "bit (x XOR drop_bit k x) n = bit (y XOR drop_bit k y) n" using assms(2) by simp
    with that show ?thesis by (auto simp: bit_simps add.commute)
  qed
  have "bit x n = bit y n" for n
  proof (induction "LENGTH('a) - n" arbitrary: n rule: less_induct)
    case less
    show ?case
    proof (cases "n < LENGTH('a)")
      case True
      with assms(1) less [of "n + k"] step [OF True] show ?thesis by auto
    next
      case False
      then show ?thesis by (metis bit_word_def impossible_bit linorder_not_less exp_eq_0_imp_not_bit word_exp_length_eq_0 bit_imp_le_length)
    qed
  qed
  then show ?thesis by (simp add: bit_eq_iff)
qed

lemma mult_inj_inverse:
  fixes a b x y :: "'a::len word"
  assumes "a * b = 1" "x * a = y * a"
  shows "x = y"
  by (metis assms mult.assoc mult_1_right)

section \<open>Aligned memory (shared/align_util.hpp)\<close>

definition IsAligned :: "nat \<Rightarrow> nat \<Rightarrow> bool" where
  "IsAligned al ptr \<longleftrightarrow> ptr mod al = 0"

text \<open>\<open>got\<close> is whether \<^verbatim>\<open>aligned_alloc\<close> returned a block; the result is its size and its bytes.\<close>

definition AllocAligned :: "bool \<Rightarrow> u32 \<Rightarrow> u32 \<Rightarrow> (u32 \<times> mem) res" where
  "AllocAligned got sz alignment =
     (let alloc_size = ucast (AlignUp (ucast sz) alignment)
      in DB7_ASSERT got ''aligned_alloc failed'' (Inr (alloc_size, \<lambda>_. 0)))"

text \<open>A block for pages of disk is a multiple of the alignment and no more than one alignment larger than asked for.\<close>

lemma AllocAligned_size:
  assumes "k < 32" "unat sz + 2 ^ k \<le> 2 ^ 32"
  shows "\<exists>n. AllocAligned True sz (2 ^ k) = Inr (n, \<lambda>_. 0) \<and> IsAligned (2 ^ k) (unat n) \<and> unat sz \<le> unat n \<and> unat n < unat sz + 2 ^ k"
proof -
  let ?n = "(unat sz + 2 ^ k - 1) div 2 ^ k * 2 ^ k"
  have "?n \<le> unat sz + 2 ^ k - 1" "0 < (2 :: nat) ^ k" by (rule div_times_less_eq_dividend) simp
  then have n: "?n < unat sz + 2 ^ k" by linarith
  have "unat (AlignUp (ucast sz) (2 ^ k)) = ?n"
    using unat_AlignUp [of k "ucast sz"] assms by (simp add: unat_ucast_u32_u64)
  moreover have "?n < 2 ^ 32" using n assms(2) by linarith
  ultimately have u: "unat (ucast (AlignUp (ucast sz) (2 ^ k)) :: u32) = ?n"
    by (simp add: unsigned_ucast_eq take_bit_eq_mod)
  have "?n + (unat sz + 2 ^ k - 1) mod 2 ^ k = unat sz + 2 ^ k - 1" "(unat sz + 2 ^ k - 1) mod 2 ^ k < 2 ^ k"
    by (rule div_mult_mod_eq) simp
  then have "unat sz \<le> ?n" by linarith
  with n u show ?thesis by (simp add: AllocAligned_def IsAligned_def)
qed

section \<open>The bump arena (shared/arena/fixed_bump_arena.hpp)\<close>

definition ALLOCATOR_BLOCK_SIZE :: u64 where
  "ALLOCATOR_BLOCK_SIZE = 4096"

record FixedBumpArena =
  arena_data :: mem
  arena_size :: u32

definition FixedBumpArena_new :: "mem \<Rightarrow> FixedBumpArena" where
  "FixedBumpArena_new d = \<lparr>arena_data = d, arena_size = 0\<rparr>"

definition arena_Reset :: "FixedBumpArena \<Rightarrow> FixedBumpArena" where
  "arena_Reset a = a\<lparr>arena_size := 0\<rparr>"

definition HasAvailableSpace :: "FixedBumpArena \<Rightarrow> u32 \<Rightarrow> bool" where
  "HasAvailableSpace a sz \<longleftrightarrow> ucast (arena_size a) + AlignUp (ucast sz) 8 \<le> ALLOCATOR_BLOCK_SIZE"

text \<open>The result is the offset of the allocated block in \<^verbatim>\<open>data_\<close>; the 64-bit sum is truncated into
  \<^verbatim>\<open>size_\<close>.\<close>

definition arena_Allocate :: "FixedBumpArena \<Rightarrow> u32 \<Rightarrow> (FixedBumpArena \<times> nat) res" where
  "arena_Allocate a sz =
     DB7_ASSERT (HasAvailableSpace a sz) ''No space available''
       (Inr (a\<lparr>arena_size := ucast (ucast (arena_size a) + AlignUp (ucast sz) 8 :: u64)\<rparr>,
             unat (arena_size a)))"

definition arena_ok :: "FixedBumpArena \<Rightarrow> bool" where
  "arena_ok a \<longleftrightarrow> unat (arena_size a) \<le> 4096 \<and> 8 dvd unat (arena_size a)"

lemma unat_AlignUp8: "unat (AlignUp (ucast (s :: u32)) 8) = (unat s + 7) div 8 * 8"
proof -
  define w where "w = (ucast s + 7 :: u64)"
  have "unat w = unat s + 7"
    using unat_u32_less [of s] by (simp add: w_def unat_word_ariths unsigned_ucast_eq take_bit_eq_mod)
  moreover have "AlignUp (ucast s) 8 = w AND NOT (2 ^ 3 - 1)"
  proof -
    have "(ucast (8 :: u32) :: u64) = 2 ^ 3" "ucast s + 2 ^ 3 - 1 = w" by (simp_all add: w_def)
    then show ?thesis by (simp only: AlignUp_def)
  qed
  ultimately show ?thesis by (simp only: and_not_mask_word unat_push_drop) simp
qed

lemma HasAvailableSpace_iff:
  "HasAvailableSpace a sz \<longleftrightarrow> unat (arena_size a) + (unat sz + 7) div 8 * 8 \<le> 4096"
proof -
  have "unat (ucast (arena_size a) + AlignUp (ucast sz) 8 :: u64) =
      unat (arena_size a) + (unat sz + 7) div 8 * 8"
    using unat_u32_less [of sz] unat_u32_less [of "arena_size a"]
    by (simp add: unat_word_ariths unat_AlignUp8 unsigned_ucast_eq take_bit_eq_mod)
  then show ?thesis by (simp add: HasAvailableSpace_def ALLOCATOR_BLOCK_SIZE_def word_le_nat_alt)
qed

lemma arena_Allocate_ok:
  assumes "arena_ok a" "HasAvailableSpace a sz"
  shows "\<exists>a'. arena_Allocate a sz = Inr (a', unat (arena_size a)) \<and> arena_ok a' \<and>
    unat (arena_size a') = unat (arena_size a) + (unat sz + 7) div 8 * 8 \<and> arena_data a' = arena_data a"
proof -
  let ?n = "unat (arena_size a) + (unat sz + 7) div 8 * 8"
  have le: "?n \<le> 4096" using assms(2) HasAvailableSpace_iff by simp
  have "unat (ucast (arena_size a) + AlignUp (ucast sz) 8 :: u64) = ?n"
    using unat_u32_less [of sz] unat_u32_less [of "arena_size a"]
    by (simp add: unat_word_ariths unat_AlignUp8 unsigned_ucast_eq take_bit_eq_mod)
  then have "unat (ucast (ucast (arena_size a) + AlignUp (ucast sz) 8 :: u64) :: u32) = ?n"
    using le by (simp add: unsigned_ucast_eq take_bit_eq_mod)
  with le assms show ?thesis
    by (auto simp: arena_Allocate_def arena_ok_def intro!: dvd_add)
qed

section \<open>The object pool (shared/arena/object_pool.hpp)\<close>

text \<open>Objects are named by numbers. \<^verbatim>\<open>pool_queue\<close> is the free list, \<^verbatim>\<open>pool_out\<close> the objects that callers hold,
  \<^verbatim>\<open>pool_next\<close> the name of the next object that \<^verbatim>\<open>new\<close> creates.\<close>

record ObjectPool =
  pool_queue :: "nat list"
  size_limit :: u32
  reuse_limit :: u32
  curr_size :: u32
  pool_out :: "nat set"
  pool_next :: nat

definition ObjectPool_new :: "u32 \<Rightarrow> u32 \<Rightarrow> ObjectPool" where
  "ObjectPool_new sl rl =
     \<lparr>pool_queue = [], size_limit = sl, reuse_limit = rl, curr_size = 0, pool_out = {}, pool_next = 0\<rparr>"

definition pool_Get :: "ObjectPool \<Rightarrow> (ObjectPool \<times> nat) res" where
  "pool_Get p =
     (case pool_queue p of
        obj # rest \<Rightarrow> Inr (p\<lparr>pool_queue := rest, pool_out := insert obj (pool_out p)\<rparr>, obj)
      | [] \<Rightarrow>
          (if curr_size p \<ge> size_limit p
           then Inl (MemoryError ''No more objects in the pool'')
           else Inr (p\<lparr>curr_size := curr_size p + 1, pool_out := insert (pool_next p) (pool_out p),
                       pool_next := pool_next p + 1\<rparr>, pool_next p)))"

definition pool_Release :: "ObjectPool \<Rightarrow> nat \<Rightarrow> ObjectPool" where
  "pool_Release p obj =
     (if curr_size p \<ge> reuse_limit p
      then p\<lparr>curr_size := curr_size p - 1, pool_out := pool_out p - {obj}\<rparr>
      else p\<lparr>curr_size := curr_size p + 1, pool_queue := pool_queue p @ [obj],
             pool_out := pool_out p - {obj}\<rparr>)"

definition pool_objects :: "ObjectPool \<Rightarrow> nat set" where
  "pool_objects p = set (pool_queue p) \<union> pool_out p"

definition pool_ok :: "ObjectPool \<Rightarrow> bool" where
  "pool_ok p \<longleftrightarrow> distinct (pool_queue p) \<and> set (pool_queue p) \<inter> pool_out p = {} \<and> finite (pool_out p) \<and>
     (\<forall>x \<in> pool_objects p. x < pool_next p) \<and>
     card (pool_objects p) \<le> unat (curr_size p) \<and> curr_size p \<le> size_limit p \<and> reuse_limit p \<le> size_limit p"

inductive pool_reach :: "u32 \<Rightarrow> u32 \<Rightarrow> ObjectPool \<Rightarrow> bool" for sl rl where
  pool_init: "pool_reach sl rl (ObjectPool_new sl rl)"
| pool_get: "pool_reach sl rl p \<Longrightarrow> pool_Get p = Inr (p', obj) \<Longrightarrow> pool_reach sl rl p'"
| pool_release: "pool_reach sl rl p \<Longrightarrow> obj \<in> pool_out p \<Longrightarrow> pool_reach sl rl (pool_Release p obj)"

lemma unat_suc_less: "x < y \<Longrightarrow> unat (x + 1 :: u32) = unat x + 1"
  using unat_u32_less [of y] by (simp add: word_less_nat_alt unat_word_ariths)

lemma pool_Get_ok:
  assumes ok: "pool_ok p" and g: "pool_Get p = Inr (p', obj)"
  shows "pool_ok p'" "obj \<in> pool_out p'" "obj \<notin> pool_out p"
proof -
  have *: "pool_ok p' \<and> obj \<in> pool_out p' \<and> obj \<notin> pool_out p"
  proof (cases "pool_queue p")
    case Nil
    with g have lt: "curr_size p < size_limit p" and obj: "obj = pool_next p"
      and p': "p' = p\<lparr>curr_size := curr_size p + 1, pool_out := insert (pool_next p) (pool_out p), pool_next := pool_next p + 1\<rparr>"
      by (auto simp: pool_Get_def split: if_splits)
    have "curr_size p + 1 \<le> size_limit p" using lt by (simp add: word_le_nat_alt unat_suc_less [OF lt] word_less_nat_alt)
    moreover have "card (insert (pool_next p) (pool_out p)) \<le> unat (curr_size p + 1)"
      using ok Nil by (simp add: pool_ok_def pool_objects_def unat_suc_less [OF lt] card_insert_if)
    moreover have "pool_next p \<notin> pool_out p" using ok by (auto simp: pool_ok_def pool_objects_def)
    ultimately show ?thesis using ok Nil by (auto simp: pool_ok_def pool_objects_def p' obj)
  next
    case (Cons o' rest)
    with g have p': "p' = p\<lparr>pool_queue := rest, pool_out := insert o' (pool_out p)\<rparr>" and obj: "obj = o'"
      by (auto simp: pool_Get_def)
    have "pool_objects p' = pool_objects p" using Cons by (auto simp: pool_objects_def p')
    with ok Cons show ?thesis by (auto simp: pool_ok_def p' obj)
  qed
  then show "pool_ok p'" "obj \<in> pool_out p'" "obj \<notin> pool_out p" by blast+
qed

lemma pool_Release_ok:
  assumes ok: "pool_ok p" and o: "obj \<in> pool_out p"
  shows "pool_ok (pool_Release p obj)"
proof (cases "curr_size p \<ge> reuse_limit p")
  case True
  have fin: "finite (pool_objects p)" using ok by (simp add: pool_ok_def pool_objects_def)
  have eq: "set (pool_queue p) \<union> (pool_out p - {obj}) = pool_objects p - {obj}"
    using ok o by (auto simp: pool_ok_def pool_objects_def)
  have "card (pool_objects p) > 0" using fin o by (auto simp: pool_objects_def card_gt_0_iff)
  with ok have pos: "0 < unat (curr_size p)" by (simp add: pool_ok_def)
  then have u: "unat (curr_size p - 1) = unat (curr_size p) - 1" by (intro unat_minus_one) auto
  have "card (pool_objects p - {obj}) \<le> unat (curr_size p - 1)"
    using ok o u by (auto simp: pool_ok_def pool_objects_def intro: diff_le_mono)
  moreover have "curr_size p - 1 \<le> size_limit p"
    using ok u by (auto simp: pool_ok_def word_le_nat_alt)
  ultimately show ?thesis
    using True ok eq by (auto simp: pool_ok_def pool_Release_def pool_objects_def)
next
  case False
  then have lt: "curr_size p < reuse_limit p" by simp
  have eq: "set (pool_queue p @ [obj]) \<union> (pool_out p - {obj}) = pool_objects p"
    using o by (auto simp: pool_objects_def)
  have "curr_size p + 1 \<le> size_limit p"
    using ok lt by (simp add: pool_ok_def word_le_nat_alt word_less_nat_alt unat_suc_less [OF lt])
  with False ok o eq show ?thesis
    by (auto simp: pool_ok_def pool_Release_def pool_objects_def unat_suc_less [OF lt])
qed

lemma pool_reach_ok: "pool_reach sl rl p \<Longrightarrow> rl \<le> sl \<Longrightarrow> pool_ok p \<and> size_limit p = sl \<and> reuse_limit p = rl"
proof (induction rule: pool_reach.induct)
  case pool_init
  then show ?case by (simp add: pool_ok_def pool_objects_def ObjectPool_new_def)
next
  case (pool_get p p' obj)
  then show ?case
    using pool_Get_ok(1) [of p p' obj] by (auto simp: pool_Get_def split: list.splits if_splits)
next
  case (pool_release p obj)
  then show ?case using pool_Release_ok [of p obj] by (auto simp: pool_Release_def)
qed

end
