(* ===== verification/LeafLayout.thy ===== *)
theory LeafLayout
  imports NodeLayout Shared "HOL-Library.Sublist"
begin

text \<open>
  The leaf page layout (\<^verbatim>\<open>include/access/index/layouts/varlen/varlen_layout_leaf.hpp\<close>), for the value type
  \<^verbatim>\<open>TupleId\<close> (8 bytes) that the program instantiates it with.

  A leaf entry is a key whose last eight bytes are the big-endian tuple identifier; \<^verbatim>\<open>CmpFull\<close> orders
  whole entries, \<^verbatim>\<open>CmpPrefix\<close> compares what is in front of the identifier. The layout interprets
  \<open>node_layout\<close>; the lemmas below add what is specific to leaves: deletion, the scan of all values
  of a key, and the uniqueness check.
\<close>

section \<open>Operations\<close>

definition leaf_fmt :: slot_fmt where
  "leaf_fmt = \<lparr>hdr_size = 2, hdr_align = 2, len_pos = 0\<rparr>"

definition sizeof_ValTyp :: nat where
  "sizeof_ValTyp = 8"

definition leaf_key :: "mem \<Rightarrow> nat \<Rightarrow> u8 list" where
  "leaf_key d i = slot_key leaf_fmt d (unat (get_slot d i))"

text \<open>\<^verbatim>\<open>SlotValLeaf::Result\<close>: the last eight bytes of the entry, byte-swapped.\<close>

definition leaf_Result :: "mem \<Rightarrow> nat \<Rightarrow> u64" where
  "leaf_Result d s =
     word_of_nat (be_dec (rd_bytes d (s + 2 + unat (slot_len leaf_fmt d s) - sizeof_ValTyp) sizeof_ValTyp))"

definition leaf_AppendHeap :: "mem \<Rightarrow> Key \<Rightarrow> mem \<times> u16" where
  "leaf_AppendHeap d key = AppendHeap leaf_fmt d [] key"

text \<open>The subtraction is done on an unsigned 32-bit length: entries shorter than a tuple identifier wrap
  around and are reported as greater.\<close>

definition CmpPrefix :: "u8 list \<Rightarrow> u8 list \<Rightarrow> int" where
  "CmpPrefix slot_bs main_bs =
     (let min_len = (word_of_nat (min (length main_bs) (length slot_bs)) - word_of_nat sizeof_ValTyp :: u32);
          n = unat min_len
      in if n \<ge> DB7_MAX_ROW_SIZE then 1
         else let cmp = memcmp (take n slot_bs) (take n main_bs)
              in if cmp \<noteq> 0 then cmp
                 else (if length main_bs < length slot_bs then 1 else 0)
                    - (if length main_bs > length slot_bs then 1 else 0))"

definition leaf_FindInsertPosition :: "mem \<Rightarrow> u8 list \<Rightarrow> nat \<Rightarrow> nat" where
  "leaf_FindInsertPosition d main_bs count = bisect (\<lambda>mid. CmpFull (leaf_key d mid) main_bs < 0) 0 count"

definition leaf_FindStartPosition :: "mem \<Rightarrow> u8 list \<Rightarrow> nat \<Rightarrow> nat" where
  "leaf_FindStartPosition d main_bs count = bisect (\<lambda>mid. CmpPrefix (leaf_key d mid) main_bs < 0) 0 count"

function delete_search :: "(nat \<Rightarrow> int) \<Rightarrow> nat \<Rightarrow> nat \<Rightarrow> nat" where
  "delete_search cmp lo hi =
     (if lo < hi then
        (let mid = lo + (hi - lo) div 2; res = cmp mid
         in if res = 0 then mid
            else if res < 0 then delete_search cmp (mid + 1) hi
            else delete_search cmp lo mid)
      else lo)"
  by pat_completeness auto
termination
  by (relation "measure (\<lambda>(cmp, lo, hi). hi - lo)") auto

declare delete_search.simps [simp del]

definition leaf_FindDeletePosition :: "mem \<Rightarrow> u8 list \<Rightarrow> nat \<Rightarrow> nat" where
  "leaf_FindDeletePosition d main_bs count = delete_search (\<lambda>mid. CmpFull (leaf_key d mid) main_bs) 0 count"

definition leaf_InsertSlot :: "mem \<Rightarrow> u16 \<Rightarrow> mem" where
  "leaf_InsertSlot d heap_offset =
     (let main_bs = slot_key leaf_fmt d (unat heap_offset);
          idx = leaf_FindInsertPosition d main_bs (unat (GetCount d))
      in set_count (ShiftRightInsert d idx (GetCount d) heap_offset) (GetCount d + 1))"

definition check_key :: "Key \<Rightarrow> 'a res \<Rightarrow> 'a res" where
  "check_key key k = DB7_ASSERT (kdata key \<noteq> None) ''invalid key'' (DB7_ASSERT (klen key \<noteq> 0) ''invalid key'' k)"

definition leaf_HighPrefixCmp :: "mem \<Rightarrow> Key \<Rightarrow> bool res" where
  "leaf_HighPrefixCmp d key =
     check_key key
       (if hdr_max_val d = UNDEFINED_OFFSET then Inr False
        else Inr (CmpPrefix (slot_key leaf_fmt d (unat (hdr_max_val d))) (key_bytes key) = 0))"

fun leaf_scan :: "mem \<Rightarrow> u8 list \<Rightarrow> nat list \<Rightarrow> u64 list" where
  "leaf_scan d main_bs [] = []"
| "leaf_scan d main_bs (i # is) =
     (if CmpPrefix (leaf_key d i) main_bs \<noteq> 0 then []
      else leaf_Result d (unat (get_slot d i)) # leaf_scan d main_bs is)"

definition leaf_Get :: "mem \<Rightarrow> nat \<Rightarrow> Key \<Rightarrow> u64 VectorValues \<Rightarrow> u64 VectorValues res" where
  "leaf_Get d count key results =
     check_key key
       (let main_bs = key_bytes key;
            idx = leaf_FindInsertPosition d main_bs count
        in ebind (leaf_HighPrefixCmp d key) (\<lambda>p.
             Inr \<lparr>vec = vec results @ leaf_scan d main_bs [idx..<count], proceed = p\<rparr>))"

definition leaf_Insert :: "mem \<Rightarrow> Key \<Rightarrow> mem res" where
  "leaf_Insert d key =
     check_key key
       (DB7_ASSERT (unat (klen key) < DB7_MAX_ROW_SIZE) ''should be checked in the binder''
         (let (d1, tuple_heap_offset) = leaf_AppendHeap d key
          in Inr (leaf_InsertSlot d1 tuple_heap_offset)))"

definition leaf_HasSpace :: "mem \<Rightarrow> Key \<Rightarrow> bool res" where
  "leaf_HasSpace d key = check_key key (Inr (HasSpaceFor leaf_fmt d (klen key)))"

definition leaf_HasSplit :: "mem \<Rightarrow> Key \<Rightarrow> bool res" where
  "leaf_HasSplit d key =
     check_key key
       (if hdr_max_val d = UNDEFINED_OFFSET then Inr False
        else Inr (CmpFull (slot_key leaf_fmt d (unat (hdr_max_val d))) (key_bytes key) \<le> 0))"

definition leaf_Split :: "mem \<Rightarrow> mem \<Rightarrow> page_id \<Rightarrow> Key \<Rightarrow> (mem \<times> mem \<times> Key) res" where
  "leaf_Split left_data right_data new_pid key =
     Split leaf_fmt (\<lambda>d off. Inr (leaf_InsertSlot d off)) left_data right_data new_pid key []"

definition leaf_Delete :: "mem \<Rightarrow> Key \<Rightarrow> mem res" where
  "leaf_Delete d key =
     check_key key
       (let count = GetCount d;
            main_bs = key_bytes key;
            idx = leaf_FindDeletePosition d main_bs (unat count);
            cmp = CmpFull (leaf_key d idx) main_bs
        in DB7_ASSERT (cmp = 0) ''Unreachable. Key is not found''
             (ebind (ShiftLeftDelete d idx count) (\<lambda>d1. Inr (set_count d1 (count - 1)))))"

text \<open>\<open>conflict\<close> is \<^verbatim>\<open>txn->HasUniqueConflict(tid, tbl_id)\<close>; \<open>start\<close> is \<^verbatim>\<open>None\<close> for the argument -1.\<close>

definition leaf_CheckUnique :: "(u64 \<Rightarrow> bool) \<Rightarrow> mem \<Rightarrow> Key \<Rightarrow> nat option \<Rightarrow> bool ResultObj res" where
  "leaf_CheckUnique conflict d key start =
     check_key key
       (let count = unat (GetCount d);
            main_bs = key_bytes key;
            idx = (case start of None \<Rightarrow> leaf_FindStartPosition d main_bs count | Some i \<Rightarrow> i)
        in if list_ex conflict (leaf_scan d main_bs [idx..<count]) then Inr (Fail None)
           else ebind (leaf_HighPrefixCmp d key) (\<lambda>p. Inr (Ok p)))"

section \<open>The layout implements the node contract\<close>

interpretation leaf: slot_layout leaf_fmt
  by unfold_locales (simp_all add: leaf_fmt_def)

lemma leaf_fmt_simps [simp]: "hdr_size leaf_fmt = 2" "hdr_align leaf_fmt = 2" "len_pos leaf_fmt = 0"
  by (simp_all add: leaf_fmt_def)

lemma leaf_keys_nth: "i < unat (GetCount d) \<Longrightarrow> leaf_key d i = page_keys leaf_fmt d ! i"
  by (simp add: leaf_key_def)

lemma leaf_FindInsertPosition_eq:
  assumes "sorted_wrt (<) (page_keys leaf_fmt d)"
  shows "leaf_FindInsertPosition d b (unat (GetCount d)) = length (filter (\<lambda>k. k < b) (page_keys leaf_fmt d))"
  using bisect_position [OF assms, of "\<lambda>mid. CmpFull (leaf_key d mid) b < 0" b]
  by (simp add: leaf_FindInsertPosition_def CmpFull_less leaf_keys_nth)

lemma leaf_InsertSlot_spec:
  assumes "page_ok leaf_fmt d" "sorted_wrt (<) (page_keys leaf_fmt d)" "appended leaf_fmt d val bs d1 off"
    "hdr_size leaf_fmt + length bs \<le> unat (hdr_heap_offset d)" "slot_addr (unat (GetCount d) + 1) \<le> unat off"
  shows "leaf_InsertSlot d1 off = insert_slot d1 (length (filter (\<lambda>k. k < bs) (page_keys leaf_fmt d))) off"
proof -
  note ak = leaf.appended_keys [OF assms(1,3-5)]
  have "leaf_FindInsertPosition d1 bs (unat (GetCount d1)) = length (filter (\<lambda>k. k < bs) (page_keys leaf_fmt d))"
    using leaf_FindInsertPosition_eq [of d1 bs] assms(2) ak by simp
  with ak(3) show ?thesis by (simp add: leaf_InsertSlot_def insert_slot_def Let_def)
qed

interpretation leaf: node_layout leaf_fmt "\<lambda>d off. Inr (leaf_InsertSlot d off)"
  by unfold_locales (simp add: leaf_InsertSlot_spec)

section \<open>Insertion and splitting\<close>

lemma keys_ent_insert:
  assumes "keys_sorted es"
  shows "map fst (ent_insert k v es) = insort k (map fst es)"
proof -
  define n where "n = length (filter (\<lambda>x. x < k) (map fst es))"
  note tp = take_position [OF assms, of k, folded n_def]
  have "insort k (map fst es) = take n (map fst es) @ k # drop n (map fst es)"
  proof (rule insort_at_position)
    show "n \<le> length (map fst es)" using tp(3) by simp
    show "map fst es ! i < k" if "i < n" for i
    proof -
      have "take n es ! i \<in> set (take n es)" using that tp(3) by (intro nth_mem) simp
      then have "es ! i \<in> set (takeWhile (\<lambda>e. fst e < k) es)" using that tp(1) by (metis nth_take)
      then show ?thesis using that tp(3) by (auto dest: set_takeWhileD)
    qed
    show "k \<le> map fst es ! n" if lt: "n < length (map fst es)"
    proof -
      have "hd (drop n es) = es ! n" "drop n es \<noteq> []" using lt by (simp_all add: hd_drop_conv_nth)
      then show ?thesis using hd_dropWhile [of "\<lambda>e. fst e < k" es] lt tp(2) by simp
    qed
  qed
  with tp show ?thesis by (simp add: ent_insert_def take_map drop_map)
qed

lemma leaf_page_ents: "page_ents leaf_fmt d = map (\<lambda>k. (k, [])) (page_keys leaf_fmt d)"
  by (simp add: page_ents_def page_keys_def slot_ent_def slot_val_def)

lemma leaf_keys_sorted: "keys_sorted (page_ents leaf_fmt d) \<longleftrightarrow> sorted_wrt (<) (page_keys leaf_fmt d)"
  by (simp add: keys_sorted_def page_keys_ents)

lemma leaf_cost_ratio: "9 \<le> length (fst e) \<Longrightarrow> cost_ratio leaf_fmt 7 11 0 [e]"
  by (simp add: cost_ratio_def ents_cost_def live_cost_def ents_len_def rec_cost_def)

definition leaf_key_lengths :: "mem \<Rightarrow> bool" where
  "leaf_key_lengths d \<longleftrightarrow> (\<forall>k \<in> set (page_keys leaf_fmt d). 9 \<le> length k \<and> length k < DB7_MAX_ROW_SIZE) \<and>
     (\<forall>f. page_fence leaf_fmt d = Some f \<longrightarrow> length f < DB7_MAX_ROW_SIZE)"

lemma leaf_split_fits:
  assumes ok: "page_ok leaf_fmt d" and cnt: "2 \<le> unat (GetCount d)" and len: "leaf_key_lengths d"
    and n: "n < DB7_MAX_ROW_SIZE"
  shows "split_fits leaf_fmt d n"
  unfolding split_fits_def
proof (intro allI impI)
  fix sp
  let ?es = "page_ents leaf_fmt d"
  assume sp: "FindSplitPoint leaf_fmt d (unat (GetCount d)) = Inr sp"
  from page_split_point [OF cnt, of leaf_fmt] sp have b: "0 < sp" "sp < length ?es"
    "2 * ents_len (take (sp - 1) ?es) \<le> ents_len ?es"
    "sp = length ?es - 1 \<or> ents_len ?es \<le> 2 * ents_len (take sp ?es) + 1" by auto
  have el: "9 \<le> length (fst e)" "length (fst e) \<le> 818" if "e \<in> set ?es" for e
    using len that by (force simp: leaf_key_lengths_def page_keys_ents DB7_MAX_ROW_SIZE_def)+
  have first: "take 1 ?es = [?es ! 0]" "?es ! 0 \<in> set ?es" "?es ! sp \<in> set ?es"
    using b nth_mem [of 0 ?es] nth_mem [of sp ?es] by (cases ?es; simp)+
  have "e \<in> set ?es" if "e \<in> set (tl ?es)" for e using that by (rule list.set_sel(2) [rotated]) (use first in auto)
  then have "\<forall>e \<in> set (tl ?es). cost_ratio leaf_fmt 7 11 0 [e] \<and> length (fst e) \<le> 818"
    using el leaf_cost_ratio by blast
  note cap0 = leaf.split_capacity [OF ok b, of 7 11 0 818, unfolded first(1), OF leaf_cost_ratio [OF el(1) [OF first(2)]] this]
  have m: "max 818 (length (fst (?es ! 0))) = 818" using el(2) [OF first(2)] by simp
  note cap = cap0 [unfolded m rec_cost_def leaf_fmt_simps]
  have fence: "fence_cost leaf_fmt d \<le> 821"
    using len by (auto simp: fence_cost_def leaf_key_lengths_def rec_cost_def DB7_MAX_ROW_SIZE_def split: option.splits)
  show "slot_addr (sp + 1) + ents_cost leaf_fmt (take sp ?es) + rec_cost leaf_fmt (length (fst (?es ! sp))) +
      rec_cost leaf_fmt n \<le> DB7_PAGE_SIZE \<and>
    slot_addr (unat (GetCount d) - sp + 1) + fence_cost leaf_fmt d + ents_cost leaf_fmt (drop sp ?es) +
      rec_cost leaf_fmt n \<le> DB7_PAGE_SIZE"
    unfolding rec_cost_def leaf_fmt_simps slot_addr_def header_size_def DB7_PAGE_SIZE_def
  proof (intro conjI)
    have len: "length (fst (?es ! sp)) \<le> 818" "n \<le> 818" "sp < unat (GetCount d)"
      using el(2) [OF first(3)] n b(2) by (simp_all add: DB7_MAX_ROW_SIZE_def)
    show "20 + 2 * (sp + 1) + ents_cost leaf_fmt (take sp ?es) + (2 + length (fst (?es ! sp)) + (2 - 1)) +
        (2 + n + (2 - 1)) \<le> 8192"
      using cap(1,2) len(1,2) b(1) by (cases sp) simp_all
    show "20 + 2 * (unat (GetCount d) - sp + 1) + fence_cost leaf_fmt d + ents_cost leaf_fmt (drop sp ?es) +
        (2 + n + (2 - 1)) \<le> 8192"
      using cap(3) len(2,3) fence unfolding length_page_ents by (elim disjE conjE) simp_all
  qed
qed

section \<open>Deletion\<close>

lemma delete_search_found:
  fixes ks :: "u8 list list"
  assumes "sorted_wrt (<) ks" "i < length ks" "\<And>j. j < length ks \<Longrightarrow> cmp j = CmpFull (ks ! j) (ks ! i)"
    "lo \<le> i" "i < hi" "hi \<le> length ks"
  shows "delete_search cmp lo hi = i"
  using assms
proof (induction cmp lo hi rule: delete_search.induct)
  case (1 cmp lo hi)
  define mid where "mid = lo + (hi - lo) div 2"
  have lh: "lo < hi" and mid: "lo \<le> mid" "mid < hi" "mid < length ks" using "1.prems" by (auto simp: mid_def)
  have cmp: "cmp mid = CmpFull (ks ! mid) (ks ! i)" using "1.prems"(3) mid by simp
  note step = delete_search.simps [of cmp lo hi]
  consider "mid = i" | "mid < i" | "i < mid" by linarith
  then show ?case
  proof cases
    case 1
    then show ?thesis using step lh cmp CmpFull_eq by (simp add: mid_def [symmetric] Let_def)
  next
    case 2
    then have "ks ! mid < ks ! i" using "1.prems" sorted_wrt_nth_less by blast
    then have "cmp mid < 0" using cmp CmpFull_less by simp
    with 2 "1.IH"(1) [OF lh mid_def refl] "1.prems" step lh show ?thesis
      by (simp add: mid_def [symmetric] Let_def)
  next
    case 3
    then have "ks ! i < ks ! mid" using "1.prems" mid sorted_wrt_nth_less by blast
    then have "cmp mid > 0" using cmp CmpFull_greater by simp
    with 3 "1.IH"(2) [OF lh mid_def refl] "1.prems" mid step lh show ?thesis
      by (simp add: mid_def [symmetric] Let_def)
  qed
qed

lemma remove_nth_filter:
  assumes "distinct ks" "i < length ks"
  shows "take i ks @ drop (Suc i) ks = filter (\<lambda>k. k \<noteq> ks ! i) ks"
proof -
  have split: "ks = take i ks @ ks ! i # drop (Suc i) ks" using assms(2) by (rule id_take_nth_drop)
  then have "ks ! i \<notin> set (take i ks)" "ks ! i \<notin> set (drop (Suc i) ks)"
    using assms by (metis distinct_append distinct.simps(2) disjoint_iff list.set_intros(1))+
  then have "filter (\<lambda>k. k \<noteq> ks ! i) (take i ks) = take i ks"
      "filter (\<lambda>k. k \<noteq> ks ! i) (drop (Suc i) ks) = drop (Suc i) ks"
    by (intro filter_True; auto)+
  then have "filter (\<lambda>k. k \<noteq> ks ! i) (take i ks @ ks ! i # drop (Suc i) ks) = take i ks @ drop (Suc i) ks"
    by simp
  with split show ?thesis by simp
qed

lemma leaf_Delete_found:
  assumes ok: "page_ok leaf_fmt d" and srt: "sorted_wrt (<) (page_keys leaf_fmt d)"
    and k: "key_ok key" "klen key \<noteq> 0" and i: "i < unat (GetCount d)" "page_keys leaf_fmt d ! i = key_bytes key"
  shows "leaf_Delete d key = Inr (delete_slot d i)"
proof -
  have pos: "leaf_FindDeletePosition d (key_bytes key) (unat (GetCount d)) = i"
    unfolding leaf_FindDeletePosition_def using srt i
    by (intro delete_search_found [of "page_keys leaf_fmt d"]) (simp_all add: leaf_key_def)
  have "leaf_key d i = key_bytes key" using i by (simp add: leaf_keys_nth)
  moreover have "kdata key \<noteq> None" using k by (auto simp: key_ok_def)
  moreover have "GetCount d \<ge> 1" using i(1) by (simp add: word_le_nat_alt)
  ultimately show ?thesis
    using pos k(2) i by (simp add: leaf_Delete_def check_key_def Let_def CmpFull_eq ShiftLeftDelete_def delete_slot_def)
qed

section \<open>The operations on whole pages\<close>

lemma check_key_ok: "key_ok key \<Longrightarrow> klen key \<noteq> 0 \<Longrightarrow> check_key key k = k"
  by (auto simp: check_key_def key_ok_def)

lemma leaf_HasSpace_True:
  "leaf_HasSpace d key = Inr True \<Longrightarrow> HasSpaceFor leaf_fmt d (klen key)"
  by (auto simp: leaf_HasSpace_def check_key_def DB7_ASSERT_def split: if_splits)

text \<open>What a leaf operation may leave behind: \<open>ks\<close> is the new key list.\<close>

definition leaf_updated :: "mem \<Rightarrow> u8 list list \<Rightarrow> mem \<Rightarrow> bool" where
  "leaf_updated d ks d' \<longleftrightarrow>
     page_ok leaf_fmt d' \<and> page_keys leaf_fmt d' = ks \<and> page_fence leaf_fmt d' = page_fence leaf_fmt d \<and>
     GetRLink d' = GetRLink d \<and> GetLevel d' = GetLevel d \<and> hdr_pid d' = hdr_pid d \<and>
     (\<forall>x \<ge> unat (hdr_heap_offset d). d' x = d x)"

lemma leaf_Insert_updated:
  assumes ok: "page_ok leaf_fmt d" and srt: "sorted_wrt (<) (page_keys leaf_fmt d)"
    and k: "key_ok key" "0 < unat (klen key)" "unat (klen key) < DB7_MAX_ROW_SIZE"
    and sp: "HasSpaceFor leaf_fmt d (klen key)" "2 + unat (klen key) \<le> unat (hdr_heap_offset d)"
    and new: "key_bytes key \<notin> set (page_keys leaf_fmt d)"
  shows "\<exists>d'. leaf_Insert d key = Inr d' \<and> leaf_updated d (insort (key_bytes key) (page_keys leaf_fmt d)) d'"
proof -
  obtain d1 off where ap: "AppendHeap leaf_fmt d [] key = (d1, off)" by fastforce
  have "key_bytes key \<notin> fst ` set (page_ents leaf_fmt d)" using new by (simp add: page_keys_ents)
  with leaf.insert_ok [OF ok _ k(1) _ sp(1) _ _ ap] srt sp(2)
  obtain d2 where d2: "leaf_InsertSlot d1 off = d2" and ins: "leaf.inserted d (key_bytes key) [] d2"
    by (auto simp: leaf_keys_sorted)
  have "klen key \<noteq> 0" using k(2) by auto
  then have "leaf_Insert d key = Inr d2"
    using k d2 by (simp add: leaf_Insert_def check_key_ok leaf_AppendHeap_def ap)
  moreover have "page_keys leaf_fmt d2 = insort (key_bytes key) (page_keys leaf_fmt d)"
    using ins keys_ent_insert [of "page_ents leaf_fmt d"] srt
    by (simp add: leaf.inserted_def page_keys_ents keys_sorted_def)
  ultimately show ?thesis using ins by (auto simp: leaf.inserted_def leaf_updated_def)
qed

lemma leaf_empty:
  "page_ok leaf_fmt (InitHeader d 0 level pid)" "page_keys leaf_fmt (InitHeader d 0 level pid) = []"
  "unat (hdr_heap_offset (InitHeader d 0 level pid)) = 8192" "GetCount (InitHeader d 0 level pid) = 0"
  using InitHeader_fresh [of d level pid] leaf.page_ok_empty [of "InitHeader d 0 level pid"]
  by (simp_all add: fresh_page_def page_keys_ents DB7_PAGE_SIZE_def)

definition demo_key :: "u8 \<Rightarrow> u8 \<Rightarrow> Key" where
  "demo_key b t = mk_key [b, 0, 0, 0, 0, 0, 0, 0, t]"

lemma demo_key_simps [simp]:
  "key_ok (demo_key b t)" "klen (demo_key b t) = 9" "key_bytes (demo_key b t) = [b, 0, 0, 0, 0, 0, 0, 0, t]"
  "kdata (demo_key b t) = Some [b, 0, 0, 0, 0, 0, 0, 0, t]"
  by (auto simp: demo_key_def mk_key_def key_ok_def key_bytes_def)

definition demo_leaf1 :: mem where
  "demo_leaf1 = projr (leaf_Insert (InitHeader (\<lambda>_. 0) 0 0 2) (demo_key 7 1))"

definition demo_leaf2 :: mem where
  "demo_leaf2 = projr (leaf_Insert demo_leaf1 (demo_key 3 4))"

lemma demo_leaf1:
  "leaf_Insert (InitHeader (\<lambda>_. 0) 0 0 2) (demo_key 7 1) = Inr demo_leaf1"
  "leaf_updated (InitHeader (\<lambda>_. 0) 0 0 2) [key_bytes (demo_key 7 1)] demo_leaf1"
proof -
  let ?d = "InitHeader (\<lambda>_. 0) 0 0 2"
  have "HasSpaceFor leaf_fmt ?d (klen (demo_key 7 1))"
    using leaf_empty [of "\<lambda>_. 0" 0 2]
    by (intro leaf.HasSpaceFor_room(1)) (auto simp: slot_addr_def header_size_def rec_cost_def)
  with leaf_Insert_updated [of ?d "demo_key 7 1"] leaf_empty [of "\<lambda>_. 0" 0 2]
  have "\<exists>d'. leaf_Insert ?d (demo_key 7 1) = Inr d' \<and> leaf_updated ?d [key_bytes (demo_key 7 1)] d'"
    by (simp add: DB7_MAX_ROW_SIZE_def)
  then show "leaf_Insert ?d (demo_key 7 1) = Inr demo_leaf1"
    "leaf_updated ?d [key_bytes (demo_key 7 1)] demo_leaf1"
    by (auto simp: demo_leaf1_def)
qed

text \<open>inserting a key into a leaf that has room for it keeps the page well formed and puts the key
  at its place in the sorted key list; the fence, the right link and all memory above the heap of the
  page are untouched, so in particular nothing outside the page is written.\<close>

theorem leaf_Insert_refines:
  assumes "page_ok leaf_fmt d" "sorted_wrt (<) (page_keys leaf_fmt d)"
    and "key_ok key" "0 < unat (klen key)" "unat (klen key) < DB7_MAX_ROW_SIZE"
    and "leaf_HasSpace d key = Inr True" "2 + unat (klen key) \<le> unat (hdr_heap_offset d)"
    and "key_bytes key \<notin> set (page_keys leaf_fmt d)"
  shows "\<exists>d'. leaf_Insert d key = Inr d' \<and>
    leaf_updated d (insort (key_bytes key) (page_keys leaf_fmt d)) d' \<and> (\<forall>x \<ge> DB7_PAGE_SIZE. d' x = d x)"
  using leaf_Insert_updated [OF assms(1-5) leaf_HasSpace_True [OF assms(6)] assms(7,8)]
    leaf.page_okD(2) [OF assms(1)]
  by (auto simp: leaf_updated_def)

lemma demo_leaf1_heap: "unat (hdr_heap_offset demo_leaf1) = 8180" "GetCount demo_leaf1 = 1"
proof -
  show "GetCount demo_leaf1 = 1"
    using demo_leaf1(2) length_page_keys [of leaf_fmt demo_leaf1]
    by (simp add: leaf_updated_def word_unat_eq_iff)
  have h: "hdr_heap_offset (InitHeader (\<lambda>_. 0) 0 0 2) = 8192"
    using leaf_empty(3) [of "\<lambda>_. 0" 0 2] by (simp add: word_unat_eq_iff)
  have a: "CalculateHeapOffset leaf_fmt 8192 9 = 8180"
    by (simp add: CalculateHeapOffset_def AlignDown_def)
  show "unat (hdr_heap_offset demo_leaf1) = 8180"
    unfolding demo_leaf1_def
    by (simp add: leaf_Insert_def check_key_ok DB7_MAX_ROW_SIZE_def leaf_AppendHeap_def AppendHeap_def Let_def
        leaf_InsertSlot_def ShiftRightInsert_def h [unfolded hdr_heap_offset_def] a hdr_defs mem_simps)
qed

lemma leaf_Insert_refines_witness:
  "\<exists>d'. leaf_Insert demo_leaf1 (demo_key 3 4) = Inr d' \<and>
    page_keys leaf_fmt d' = [key_bytes (demo_key 3 4), key_bytes (demo_key 7 1)]"
proof -
  have u: "leaf_updated (InitHeader (\<lambda>_. 0) 0 0 2) [key_bytes (demo_key 7 1)] demo_leaf1" by (rule demo_leaf1(2))
  then have ok: "page_ok leaf_fmt demo_leaf1" and ks: "page_keys leaf_fmt demo_leaf1 = [key_bytes (demo_key 7 1)]"
    by (auto simp: leaf_updated_def)
  have "HasSpaceFor leaf_fmt demo_leaf1 9"
    using demo_leaf1_heap
    by (intro leaf.HasSpaceFor_room(1) [OF ok]) (auto simp: slot_addr_def header_size_def rec_cost_def)
  then have sp: "leaf_HasSpace demo_leaf1 (demo_key 3 4) = Inr True"
    by (simp add: leaf_HasSpace_def check_key_ok)
  show ?thesis
    using leaf_Insert_refines [of demo_leaf1 "demo_key 3 4", OF ok _ _ _ _ sp] ks demo_leaf1_heap
    by (auto simp: leaf_updated_def DB7_MAX_ROW_SIZE_def)
qed

lemma demo_leaf1_room:
  "HasSpaceFor leaf_fmt demo_leaf1 9" "page_ok leaf_fmt demo_leaf1"
  "page_keys leaf_fmt demo_leaf1 = [key_bytes (demo_key 7 1)]"
proof -
  show ok: "page_ok leaf_fmt demo_leaf1" and "page_keys leaf_fmt demo_leaf1 = [key_bytes (demo_key 7 1)]"
    using demo_leaf1(2) by (auto simp: leaf_updated_def)
  show "HasSpaceFor leaf_fmt demo_leaf1 9"
    using demo_leaf1_heap
    by (intro leaf.HasSpaceFor_room(1) [OF ok]) (auto simp: slot_addr_def header_size_def rec_cost_def)
qed

lemma demo_leaf2:
  "page_ok leaf_fmt demo_leaf2" "page_keys leaf_fmt demo_leaf2 = [key_bytes (demo_key 3 4), key_bytes (demo_key 7 1)]"
  "page_fence leaf_fmt demo_leaf2 = None" "unat (GetCount demo_leaf2) = 2"
proof -
  obtain d' where d': "leaf_Insert demo_leaf1 (demo_key 3 4) = Inr d'"
    "leaf_updated demo_leaf1 (insort (key_bytes (demo_key 3 4)) [key_bytes (demo_key 7 1)]) d'"
    using leaf_Insert_updated [of demo_leaf1 "demo_key 3 4"] demo_leaf1_room demo_leaf1_heap
    by (auto simp: DB7_MAX_ROW_SIZE_def)
  then have eq: "demo_leaf2 = d'" by (simp add: demo_leaf2_def)
  have "page_fence leaf_fmt demo_leaf1 = None"
    using demo_leaf1(2) InitHeader_fresh [of "\<lambda>_. 0" 0 2]
    by (simp add: leaf_updated_def fresh_page_def page_fence_def)
  with d'(2) show "page_ok leaf_fmt demo_leaf2" "page_fence leaf_fmt demo_leaf2 = None"
    and ks: "page_keys leaf_fmt demo_leaf2 = [key_bytes (demo_key 3 4), key_bytes (demo_key 7 1)]"
    by (auto simp: leaf_updated_def eq)
  show "unat (GetCount demo_leaf2) = 2" using ks length_page_keys [of leaf_fmt demo_leaf2] by simp
qed

text \<open>C10: splitting a full leaf while inserting a key never fails for legal key lengths (a key and its
  eight-byte identifier, below the row-size limit): the two pages are well formed and together hold
  the old keys and the new one in order; the first key of the right page is returned as the separator
  and becomes the high fence of the left page, the old fence and right link move to the right page.\<close>

theorem leaf_Split_refines:
  assumes "page_ok leaf_fmt left" "sorted_wrt (<) (page_keys leaf_fmt left)" "fresh_page right"
    and "2 \<le> unat (GetCount left)" "leaf_key_lengths left"
    and "key_ok key" "0 < unat (klen key)" "unat (klen key) < DB7_MAX_ROW_SIZE"
    and "key_bytes key \<notin> set (page_keys leaf_fmt left)"
  shows "\<exists>l r sent. leaf_Split left right new_pid key = Inr (l, r, sent) \<and>
    page_ok leaf_fmt l \<and> page_ok leaf_fmt r \<and> page_keys leaf_fmt l \<noteq> [] \<and> page_keys leaf_fmt r \<noteq> [] \<and>
    page_keys leaf_fmt l @ page_keys leaf_fmt r = insort (key_bytes key) (page_keys leaf_fmt left) \<and>
    key_bytes sent = hd (page_keys leaf_fmt r) \<and> page_fence leaf_fmt l = Some (key_bytes sent) \<and>
    page_fence leaf_fmt r = page_fence leaf_fmt left \<and> GetRLink l = new_pid \<and> GetRLink r = GetRLink left"
proof -
  have "key_bytes key \<notin> fst ` set (page_ents leaf_fmt left)" "klen key \<noteq> 0"
    using assms(7,9) by (auto simp: page_keys_ents)
  with leaf.Split_ok [OF assms(1) _ assms(3,4,6) _ _ _ leaf_split_fits [OF assms(1,4,5,8)], of "[]" new_pid]
    assms(2)
  obtain l r sent where "Split leaf_fmt (\<lambda>d off. Inr (leaf_InsertSlot d off)) left right new_pid key [] = Inr (l, r, sent)"
    and post: "split_post leaf_fmt left right new_pid (key_bytes key) [] l r sent"
    by (auto simp: leaf_keys_sorted)
  moreover have "map fst (ent_insert (key_bytes key) [] (page_ents leaf_fmt left)) =
      insort (key_bytes key) (page_keys leaf_fmt left)"
    using keys_ent_insert [of "page_ents leaf_fmt left"] assms(2) by (simp add: leaf_keys_sorted page_keys_ents)
  ultimately show ?thesis
    by (auto simp: leaf_Split_def split_post_def page_keys_ents hd_map simp flip: map_append)
qed

lemma leaf_Split_refines_witness:
  "\<exists>l r sent. leaf_Split demo_leaf2 (InitHeader (\<lambda>_. 0) 0 0 3) 3 (demo_key 5 9) = Inr (l, r, sent) \<and>
    page_keys leaf_fmt l @ page_keys leaf_fmt r =
      [key_bytes (demo_key 3 4), key_bytes (demo_key 5 9), key_bytes (demo_key 7 1)]"
proof -
  have "leaf_key_lengths demo_leaf2"
    by (auto simp: leaf_key_lengths_def demo_leaf2 DB7_MAX_ROW_SIZE_def)
  from leaf_Split_refines [OF demo_leaf2(1) _ InitHeader_fresh _ this, of "demo_key 5 9" "\<lambda>_. 0" 0 3 3]
  show ?thesis by (auto simp: demo_leaf2(2,4) DB7_MAX_ROW_SIZE_def)
qed

lemma leaf_Delete_updated:
  assumes "page_ok leaf_fmt d" "sorted_wrt (<) (page_keys leaf_fmt d)"
    and "key_ok key" "klen key \<noteq> 0" "key_bytes key \<in> set (page_keys leaf_fmt d)"
  shows "\<exists>d'. leaf_Delete d key = Inr d' \<and>
    leaf_updated d (filter (\<lambda>k. k \<noteq> key_bytes key) (page_keys leaf_fmt d)) d' \<and>
    hdr_heap_offset d' = hdr_heap_offset d"
proof -
  obtain i where i: "i < unat (GetCount d)" "page_keys leaf_fmt d ! i = key_bytes key"
    using assms(5) by (auto simp: in_set_conv_nth)
  have dist: "distinct (page_keys leaf_fmt d)" using assms(2) by (simp add: strict_sorted_iff)
  note pd = leaf.page_delete [OF assms(1) i(1)]
  have "page_keys leaf_fmt (delete_slot d i) = filter (\<lambda>k. k \<noteq> key_bytes key) (page_keys leaf_fmt d)"
    using pd(2) remove_nth_filter [OF dist, of i] i
    by (simp add: page_keys_ents take_map [symmetric] drop_map [symmetric] flip: i(2))
  then show ?thesis
    using leaf_Delete_found [OF assms(1-4) i] pd by (auto simp: leaf_updated_def delete_slot_header)
qed

text \<open>deleting a key that a sorted leaf holds removes exactly this key and keeps the page well
  formed; its heap space is not reclaimed, so no other record moves.\<close>

theorem leaf_Delete_refines:
  assumes "page_ok leaf_fmt d" "sorted_wrt (<) (page_keys leaf_fmt d)"
    and "key_ok key" "klen key \<noteq> 0" "key_bytes key \<in> set (page_keys leaf_fmt d)"
  shows "\<exists>d'. leaf_Delete d key = Inr d' \<and>
    leaf_updated d (filter (\<lambda>k. k \<noteq> key_bytes key) (page_keys leaf_fmt d)) d' \<and>
    hdr_heap_offset d' = hdr_heap_offset d"
  by (rule leaf_Delete_updated [OF assms])

lemma leaf_Delete_refines_witness:
  "\<exists>d'. leaf_Delete demo_leaf2 (demo_key 3 4) = Inr d' \<and> page_keys leaf_fmt d' = [key_bytes (demo_key 7 1)]"
  using leaf_Delete_refines [OF demo_leaf2(1), of "demo_key 3 4"]
  by (auto simp: demo_leaf2(2) leaf_updated_def)

lemma delete_search_all_less:
  "lo \<le> hi \<Longrightarrow> (\<And>j. j < hi \<Longrightarrow> cmp j < 0) \<Longrightarrow> delete_search cmp lo hi = hi"
proof (induction cmp lo hi rule: delete_search.induct)
  case (1 cmp lo hi)
  define mid where "mid = lo + (hi - lo) div 2"
  show ?case
  proof (cases "lo < hi")
    case True
    then have mid: "mid < hi" by (auto simp: mid_def)
    with "1.prems"(2) have "cmp mid < 0" by blast
    with "1.IH"(1) [OF True mid_def refl] "1.prems"(2) mid delete_search.simps [of cmp lo hi] True show ?thesis
      by (simp add: mid_def [symmetric] Let_def)
  next
    case False
    with "1.prems"(1) delete_search.simps [of cmp lo hi] show ?thesis by simp
  qed
qed

lemma delete_slot_last:
  assumes "0 < unat (GetCount d)"
  defines "n \<equiv> unat (GetCount d) - 1"
  shows "get_slot (delete_slot d n) j = get_slot d j" "x < 8 \<or> 10 \<le> x \<Longrightarrow> delete_slot d n x = d x"
proof -
  have e: "delete_slot d n = set_count d (GetCount d - 1)"
    by (simp add: delete_slot_def n_def memmove_def)
  show "get_slot (delete_slot d n) j = get_slot d j" by (simp add: e hdr_defs mem_simps)
  show "x < 8 \<or> 10 \<le> x \<Longrightarrow> delete_slot d n x = d x" by (auto simp: e set_count_def mem_simps)
qed

text \<open>deleting the largest key of a leaf a second time does not run into the "Key is not found"
  assertion: the stale slot behind the array still names the old record, the comparison succeeds, and
  the slot array is moved by a negative count (in C, a huge unsigned size).\<close>

theorem leaf_Delete_twice_stale_slot:
  assumes "page_ok leaf_fmt d" "sorted_wrt (<) (page_keys leaf_fmt d)" "2 \<le> unat (GetCount d)"
    and "key_ok key" "klen key \<noteq> 0" "last (page_keys leaf_fmt d) = key_bytes key"
  shows "\<exists>d'. leaf_Delete d key = Inr d' \<and> key_bytes key \<notin> set (page_keys leaf_fmt d') \<and>
    leaf_Delete d' key = Inl OutOfRange"
proof -
  let ?n = "unat (GetCount d)" and ?ks = "page_keys leaf_fmt d"
  define d' where "d' = delete_slot d (?n - 1)"
  have ne: "?ks \<noteq> []" using assms(3) by (metis length_page_keys list.size(3) not_numeral_le_zero)
  have last: "?ks ! (?n - 1) = key_bytes key" using assms(6) ne by (simp add: last_conv_nth)
  have del: "leaf_Delete d key = Inr d'"
    unfolding d'_def using assms last by (intro leaf_Delete_found) auto
  have c: "unat (GetCount d') = ?n - 1"
    using assms(3) by (simp add: d'_def delete_slot_header unat_sub word_le_nat_alt)
  have slot: "get_slot d' j = get_slot d j" and same: "x < 8 \<or> 10 \<le> x \<Longrightarrow> d' x = d x" for j x
    using assms(3) delete_slot_last [of d] by (auto simp: d'_def)
  have key: "leaf_key d' j = ?ks ! j" if "j < ?n" for j
  proof -
    have "slot_ok leaf_fmt d (unat (hdr_heap_offset d)) (unat (get_slot d j))"
      using leaf.page_okD(4) [OF assms(1), of "unat (get_slot d j)"] that nth_mem [of j "page_slots d"] by simp
    then have "20 \<le> unat (get_slot d j)"
      using leaf.page_okD(1) [OF assms(1)] by (simp add: slot_ok_def slot_addr_def header_size_def)
    then show ?thesis
      using that leaf.slot_frame(2) [of "unat (get_slot d j)" d d'] same by (simp add: leaf_key_def slot)
  qed
  have less: "?ks ! j < key_bytes key" if "j < ?n - 1" for j
    using sorted_wrt_nth_less [OF assms(2), of j "?n - 1"] that last by simp
  have "leaf_FindDeletePosition d' (key_bytes key) (unat (GetCount d')) = ?n - 1"
    unfolding leaf_FindDeletePosition_def c
    using key less by (intro delete_search_all_less) (auto simp: CmpFull_less)
  moreover have "leaf_key d' (?n - 1) = key_bytes key" using key assms(3) last by simp
  moreover have "GetCount d' \<ge> 1" using c assms(3) by (simp add: word_le_nat_alt)
  ultimately have "leaf_Delete d' key = Inl OutOfRange"
    using c assms(4,5) by (simp add: leaf_Delete_def check_key_ok Let_def CmpFull_eq ShiftLeftDelete_def)
  moreover have "key_bytes key \<notin> set (page_keys leaf_fmt d')"
  proof
    assume "key_bytes key \<in> set (page_keys leaf_fmt d')"
    then obtain i where "i < ?n - 1" "leaf_key d' i = key_bytes key"
      unfolding in_set_conv_nth length_page_keys c by (metis c leaf_keys_nth)
    with key [of i] less [of i] show False by simp
  qed
  ultimately show ?thesis using del by blast
qed

lemma leaf_Delete_twice_stale_slot_witness:
  "\<exists>d'. leaf_Delete demo_leaf2 (demo_key 7 1) = Inr d' \<and> leaf_Delete d' (demo_key 7 1) = Inl OutOfRange"
  using leaf_Delete_twice_stale_slot [OF demo_leaf2(1), of "demo_key 7 1"]
  by (auto simp: demo_leaf2(2,4))

text \<open>the free-space test is wrong when the free heap is smaller than the record: the 16-bit
  subtraction wraps around, \<^verbatim>\<open>HasSpace\<close> answers yes, and the record is then put at an offset behind the
  end of the page.\<close>

theorem leaf_HasSpace_wraps:
  assumes "page_ok leaf_fmt d" "key_ok key" "0 < unat (klen key)" "unat (klen key) < DB7_MAX_ROW_SIZE"
    and "unat (hdr_heap_offset d) < unat (klen key) + 2"
  shows "leaf_HasSpace d key = Inr True \<and> DB7_PAGE_SIZE \<le> unat (snd (leaf_AppendHeap d key))"
proof -
  let ?h = "hdr_heap_offset d" and ?w = "hdr_heap_offset d - klen key - 2"
  let ?off = "CalculateHeapOffset leaf_fmt ?h (klen key)"
  have n: "unat (GetCount d) \<le> 4086"
    using leaf.page_okD(1,2) [OF assms(1)] by (simp add: slot_addr_def header_size_def DB7_PAGE_SIZE_def)
  define X where "X = int (unat ?h) - int (unat (klen key)) - 2"
  have X: "- 821 \<le> X" "X < 0" using assms(4,5) unfolding X_def DB7_MAX_ROW_SIZE_def by linarith+
  have "int (unat ?w) = X mod 65536"
    by (simp add: X_def uint_word_ariths mod_simps)
  also have "\<dots> = (X + 65536) mod 65536" by simp
  also have "\<dots> = X + 65536" using X by (intro mod_pos_pos_trivial) simp_all
  finally have w: "64000 \<le> unat ?w" using X by linarith
  have "unat ?off = unat ?w div 2 * 2"
    using unat_AlignDown [of ?w 1] by (simp add: CalculateHeapOffset_def Let_def)
  with w have off: "63999 \<le> unat ?off" by linarith
  then have "DB7_PAGE_SIZE \<le> unat (snd (leaf_AppendHeap d key))"
    by (simp add: leaf_AppendHeap_def AppendHeap_def Let_def DB7_PAGE_SIZE_def)
  moreover have "unat ((GetCount d + 1) * 2 :: u16) = 2 * (unat (GetCount d) + 1)"
    using n by (simp add: unat_word_ariths mod_simps)
  then have "HasSpaceFor leaf_fmt d (klen key)"
    using off n by (simp add: HasSpaceFor_def Let_def header_size_def)
  moreover have "klen key \<noteq> 0" using assms(3) by auto
  ultimately show ?thesis
    using assms(2) by (simp add: leaf_HasSpace_def check_key_ok)
qed

lemma leaf_HasSpace_wraps_witness:
  "leaf_HasSpace (set_heap_offset (InitHeader (\<lambda>_. 0) 0 0 2) 100) (mk_key (replicate 300 1)) = Inr True"
proof -
  let ?d = "set_heap_offset (InitHeader (\<lambda>_. 0) 0 0 2) 100"
  have h: "unat (hdr_heap_offset ?d) = 100" "GetCount ?d = 0" "hdr_max_val ?d = UNDEFINED_OFFSET"
    using InitHeader_fresh [of "\<lambda>_. 0" 0 2] by (simp_all add: fresh_page_def hdr_defs mem_simps)
  then have "page_ok leaf_fmt ?d"
    by (simp add: page_ok_def page_slots_def slots_of_def slots_disjoint_def slot_addr_def header_size_def DB7_PAGE_SIZE_def)
  from leaf_HasSpace_wraps [OF this, of "mk_key (replicate 300 1)"] h show ?thesis
    by (simp add: key_ok_mk_key DB7_MAX_ROW_SIZE_def)
qed

section \<open>Scans over all values of a key\<close>

definition tid_prefix :: "u8 list \<Rightarrow> u8 list" where
  "tid_prefix bs = take (length bs - sizeof_ValTyp) bs"

definition tid_of :: "u8 list \<Rightarrow> u64" where
  "tid_of bs = word_of_nat (be_dec (drop (length bs - sizeof_ValTyp) bs))"

definition prefix_free :: "u8 list set \<Rightarrow> bool" where
  "prefix_free S \<longleftrightarrow> (\<forall>x \<in> S. \<forall>y \<in> S. prefix x y \<longrightarrow> x = y)"

lemma lex_no_prefix:
  fixes x y :: "'a::linorder list"
  assumes "\<not> prefix x y" "\<not> prefix y x"
  shows "x @ s < y @ t \<longleftrightarrow> x < y"
  using assms
proof (induction x arbitrary: y)
  case (Cons a x)
  then show ?case by (cases y) auto
qed simp

lemma tid_prefix_append: "8 \<le> length bs \<Longrightarrow> tid_prefix bs @ drop (length bs - 8) bs = bs"
  by (simp add: tid_prefix_def sizeof_ValTyp_def)

text \<open>On keys none of which is a proper prefix of another, the order of whole entries and the order of
  what precedes the identifier agree.\<close>

lemma prefix_order:
  assumes "prefix_free S" "tid_prefix a \<in> S" "tid_prefix b \<in> S" "8 \<le> length a" "8 \<le> length b" "a < b"
  shows "tid_prefix a \<le> tid_prefix b"
proof (cases "tid_prefix a = tid_prefix b")
  case False
  with assms(1-3) have "\<not> prefix (tid_prefix a) (tid_prefix b)" "\<not> prefix (tid_prefix b) (tid_prefix a)"
    unfolding prefix_free_def by metis+
  from lex_no_prefix [OF this, of "drop (length a - 8) a" "drop (length b - 8) b"] assms(4-6)
  show ?thesis by (simp add: tid_prefix_append)
qed simp

lemma CmpPrefix_eq:
  assumes "8 \<le> length a" "8 \<le> length b" "length b < DB7_MAX_ROW_SIZE + 8"
  shows "CmpPrefix a b = CmpFull (tid_prefix a) (tid_prefix b)"
proof -
  let ?m = "min (length b) (length a)"
  have u: "unat (word_of_nat ?m :: u32) = ?m"
    using assms by (simp add: unat_of_nat DB7_MAX_ROW_SIZE_def min_def)
  have "(8 :: u32) \<le> word_of_nat ?m" unfolding word_le_nat_alt u using assms by simp
  then have n: "unat (word_of_nat ?m - 8 :: u32) = ?m - 8"
    using u by (simp add: unat_sub)
  have lt: "\<not> DB7_MAX_ROW_SIZE \<le> ?m - 8" using assms by linarith
  have len: "length (tid_prefix a) = length a - 8" "length (tid_prefix b) = length b - 8"
    by (simp_all add: tid_prefix_def sizeof_ValTyp_def)
  have "min (length b - 8) (length a - 8) = ?m - 8" by (simp add: min_def)
  moreover have "take (?m - 8) (tid_prefix a) = take (?m - 8) a" "take (?m - 8) (tid_prefix b) = take (?m - 8) b"
    by (simp_all add: tid_prefix_def sizeof_ValTyp_def min_def)
  moreover have "(length b - 8 < length a - 8) = (length b < length a)" "(length a - 8 < length b - 8) = (length a < length b)"
    using assms by auto
  ultimately show ?thesis
    using n lt by (simp add: CmpPrefix_def CmpFull_def Let_def len sizeof_ValTyp_def)
qed

lemma leaf_Result_eq:
  assumes "8 \<le> length (slot_key leaf_fmt d s)"
  shows "leaf_Result d s = tid_of (slot_key leaf_fmt d s)"
proof -
  let ?n = "unat (slot_len leaf_fmt d s)"
  have "s + 2 + ?n - 8 = (s + 2) + (?n - 8)" using assms by simp
  then have "rd_bytes d (s + 2 + ?n - 8) 8 = take 8 (drop (?n - 8) (rd_bytes d (s + 2) ?n))"
    using rd_bytes_sub [of "?n - 8" 8 ?n d "s + 2"] assms by simp
  also have "\<dots> = drop (?n - 8) (slot_key leaf_fmt d s)" by (simp add: slot_key_def)
  finally show ?thesis by (simp add: leaf_Result_def tid_of_def sizeof_ValTyp_def)
qed

lemma leaf_scan_eq:
  assumes "\<And>i. i \<in> set is \<Longrightarrow> 8 \<le> length (leaf_key d i)"
  shows "leaf_scan d b is = map tid_of (takeWhile (\<lambda>k. CmpPrefix k b = 0) (map (leaf_key d) is))"
  using assms by (induction "is") (auto simp: leaf_key_def leaf_Result_eq)

lemma leaf_scan_drop:
  assumes "\<And>k. k \<in> set (page_keys leaf_fmt d) \<Longrightarrow> 8 \<le> length k"
  shows "leaf_scan d b [j..<unat (GetCount d)] =
    map tid_of (takeWhile (\<lambda>k. CmpPrefix k b = 0) (drop j (page_keys leaf_fmt d)))"
proof -
  have "map (leaf_key d) [j..<unat (GetCount d)] = drop j (page_keys leaf_fmt d)"
    by (intro nth_equalityI) (simp_all add: leaf_keys_nth)
  moreover have "8 \<le> length (leaf_key d i)" if "i \<in> set [j..<unat (GetCount d)]" for i
    using that assms [of "leaf_key d i"] nth_mem [of i "page_keys leaf_fmt d"] by (simp add: leaf_keys_nth)
  ultimately show ?thesis using leaf_scan_eq [of "[j..<unat (GetCount d)]" d b] by simp
qed

text \<open>A leaf whose keys can be searched by prefix \<open>p\<close>.\<close>

definition searchable :: "mem \<Rightarrow> u8 list \<Rightarrow> bool" where
  "searchable d p \<longleftrightarrow>
     sorted_wrt (<) (page_keys leaf_fmt d) \<and> (\<forall>k \<in> set (page_keys leaf_fmt d). 8 \<le> length k) \<and>
     (\<forall>f. page_fence leaf_fmt d = Some f \<longrightarrow> 8 \<le> length f) \<and> length p < DB7_MAX_ROW_SIZE \<and>
     prefix_free (insert p (tid_prefix ` set (page_keys leaf_fmt d)))"

lemma leaf_HighPrefixCmp_eq:
  assumes "searchable d p" "key_ok key" "klen key \<noteq> 0" "key_bytes key = p @ t" "length t = 8"
  shows "leaf_HighPrefixCmp d key = Inr (\<exists>f. page_fence leaf_fmt d = Some f \<and> tid_prefix f = p)"
proof -
  have b: "tid_prefix (p @ t) = p" "8 \<le> length (p @ t)" "length (p @ t) < DB7_MAX_ROW_SIZE + 8"
    using assms(1,5) by (simp_all add: tid_prefix_def sizeof_ValTyp_def searchable_def)
  have f: "8 \<le> length (slot_key leaf_fmt d (unat (hdr_max_val d)))" if "hdr_max_val d \<noteq> UNDEFINED_OFFSET"
    using that assms(1) by (simp add: searchable_def page_fence_def)
  have "CmpPrefix (slot_key leaf_fmt d (unat (hdr_max_val d))) (p @ t) = 0 \<longleftrightarrow>
      tid_prefix (slot_key leaf_fmt d (unat (hdr_max_val d))) = p" if "hdr_max_val d \<noteq> UNDEFINED_OFFSET"
    using CmpPrefix_eq [OF f [OF that] b(2,3)] b(1) CmpFull_eq by simp
  then show ?thesis
    using assms(2-4) by (simp add: leaf_HighPrefixCmp_def check_key_ok page_fence_def)
qed

lemma CmpPrefix_main:
  assumes "searchable d p" "k \<in> set (page_keys leaf_fmt d)" "length t = 8"
  shows "CmpPrefix k (p @ t) = CmpFull (tid_prefix k) p" "tid_prefix (p @ t) = p"
proof -
  show t: "tid_prefix (p @ t) = p" using assms(3) by (simp add: tid_prefix_def sizeof_ValTyp_def)
  show "CmpPrefix k (p @ t) = CmpFull (tid_prefix k) p"
    using assms CmpPrefix_eq [of k "p @ t"] by (simp add: searchable_def t)
qed

text \<open>The prefixes of a searchable leaf appear in order, so the entries of one key are a block.\<close>

lemma searchable_prefix_sorted:
  assumes "searchable d p"
  shows "sorted_wrt (\<lambda>a b. tid_prefix a \<le> tid_prefix b) (page_keys leaf_fmt d)"
proof -
  have s: "sorted_wrt (<) (page_keys leaf_fmt d)" "\<And>k. k \<in> set (page_keys leaf_fmt d) \<Longrightarrow> 8 \<le> length k"
    and pf: "prefix_free (insert p (tid_prefix ` set (page_keys leaf_fmt d)))"
    using assms by (auto simp: searchable_def)
  show ?thesis
    by (rule sorted_wrt_mono_rel [OF _ s(1)]) (use prefix_order [OF pf] s(2) in auto)
qed

lemma scan_block:
  assumes "searchable d p" "length t = 8"
    and "dropWhile Q (page_keys leaf_fmt d) = filter (\<lambda>k. \<not> Q k) (page_keys leaf_fmt d)"
    and "\<And>k. k \<in> set (page_keys leaf_fmt d) \<Longrightarrow> tid_prefix k = p \<Longrightarrow> \<not> Q k"
    and "\<And>k. k \<in> set (page_keys leaf_fmt d) \<Longrightarrow> tid_prefix k < p \<Longrightarrow> Q k"
  shows "takeWhile (\<lambda>k. CmpPrefix k (p @ t) = 0) (dropWhile Q (page_keys leaf_fmt d)) =
    filter (\<lambda>k. tid_prefix k = p) (page_keys leaf_fmt d)"
proof -
  let ?ks = "page_keys leaf_fmt d"
  let ?P = "\<lambda>k. tid_prefix k = p"
  have eq: "CmpPrefix k (p @ t) = 0 \<longleftrightarrow> ?P k" if "k \<in> set ?ks" for k
    using CmpPrefix_main(1) [OF assms(1) that assms(2)] CmpFull_eq by simp
  have "sorted_wrt (\<lambda>a b. tid_prefix a \<le> tid_prefix b) (filter (\<lambda>k. \<not> Q k) ?ks)"
    by (rule sorted_wrt_filter [OF searchable_prefix_sorted [OF assms(1)]])
  then have "sorted_wrt (\<lambda>a b. ?P b \<longrightarrow> ?P a) (filter (\<lambda>k. \<not> Q k) ?ks)"
    by (rule sorted_wrt_mono_rel [rotated]) (use assms(5) in fastforce)
  then have "takeWhile ?P (filter (\<lambda>k. \<not> Q k) ?ks) = filter ?P (filter (\<lambda>k. \<not> Q k) ?ks)"
    by (rule takeWhile_eq_filter)
  also have "\<dots> = filter ?P ?ks"
    using assms(4) by (auto intro: filter_cong simp: filter_filter)
  finally have "takeWhile ?P (dropWhile Q ?ks) = filter ?P ?ks" unfolding assms(3) .
  moreover have "takeWhile (\<lambda>k. CmpPrefix k (p @ t) = 0) (dropWhile Q ?ks) = takeWhile ?P (dropWhile Q ?ks)"
    by (rule takeWhile_cong) (use eq set_dropWhileD in fast)+
  ultimately show ?thesis by simp
qed

lemma replicate_0_least: "length ts = n \<Longrightarrow> replicate n (0 :: u8) \<le> ts"
proof (induction n arbitrary: ts)
  case (Suc n)
  then show ?case by (cases ts) (auto simp: le_less word_gt_0)
qed simp

lemma append_less_mono: "(x @ s < x @ t) = (s < (t :: u8 list))"
  by (induction x) auto

lemma Get_start:
  assumes "searchable d p" "k \<in> set (page_keys leaf_fmt d)"
  defines "b \<equiv> p @ replicate 8 0"
  shows "tid_prefix k = p \<Longrightarrow> \<not> k < b" "tid_prefix k < p \<Longrightarrow> k < b"
proof -
  have len: "8 \<le> length k" and pf: "prefix_free (insert p (tid_prefix ` set (page_keys leaf_fmt d)))"
    using assms(1,2) by (auto simp: searchable_def)
  note app = tid_prefix_append [OF len]
  show "\<not> k < b" if "tid_prefix k = p"
  proof -
    have "replicate 8 0 \<le> drop (length k - 8) k" using len by (intro replicate_0_least) simp
    with app that show ?thesis unfolding b_def by (metis append_less_mono not_less)
  qed
  show "k < b" if lt: "tid_prefix k < p"
  proof -
    have "\<not> prefix (tid_prefix k) p" "\<not> prefix p (tid_prefix k)"
      using lt pf assms(2) unfolding prefix_free_def by (metis imageI insertI1 insertI2 less_irrefl)+
    from lex_no_prefix [OF this] lt app show ?thesis unfolding b_def by metis
  qed
qed

lemma leaf_Get_block:
  assumes "searchable d p" "key_ok key" "klen key \<noteq> 0" "key_bytes key = p @ replicate 8 0"
  shows "leaf_Get d (unat (GetCount d)) key results = Inr
    \<lparr>vec = vec results @ map tid_of (filter (\<lambda>k. tid_prefix k = p) (page_keys leaf_fmt d)),
     proceed = (\<exists>f. page_fence leaf_fmt d = Some f \<and> tid_prefix f = p)\<rparr>"
proof -
  let ?ks = "page_keys leaf_fmt d" and ?b = "p @ replicate 8 0"
  have srt: "sorted_wrt (<) ?ks" and len: "\<And>k. k \<in> set ?ks \<Longrightarrow> 8 \<le> length k"
    using assms(1) by (auto simp: searchable_def)
  have mono: "sorted_wrt (\<lambda>x y. y < ?b \<longrightarrow> x < ?b) ?ks"
    by (rule sorted_wrt_mono_rel [OF _ srt]) auto
  have "bisect (\<lambda>mid. CmpFull (leaf_key d mid) ?b < 0) 0 (length ?ks) = length (filter (\<lambda>k. k < ?b) ?ks)"
    and dw: "drop (length (filter (\<lambda>k. k < ?b) ?ks)) ?ks = dropWhile (\<lambda>k. k < ?b) ?ks"
      "dropWhile (\<lambda>k. k < ?b) ?ks = filter (\<lambda>k. \<not> k < ?b) ?ks"
    using bisect_filter [OF mono, of "\<lambda>mid. CmpFull (leaf_key d mid) ?b < 0"]
    by (simp_all add: CmpFull_less leaf_keys_nth)
  then have "leaf_scan d ?b [leaf_FindInsertPosition d ?b (unat (GetCount d))..<unat (GetCount d)] =
      map tid_of (takeWhile (\<lambda>k. CmpPrefix k ?b = 0) (dropWhile (\<lambda>k. k < ?b) ?ks))"
    using leaf_scan_drop [OF len] by (simp add: leaf_FindInsertPosition_def)
  also have "takeWhile (\<lambda>k. CmpPrefix k ?b = 0) (dropWhile (\<lambda>k. k < ?b) ?ks) = filter (\<lambda>k. tid_prefix k = p) ?ks"
    using dw(2) Get_start [OF assms(1)] by (intro scan_block [OF assms(1)]) auto
  finally show ?thesis
    using leaf_HighPrefixCmp_eq [OF assms, of] assms by (simp add: leaf_Get_def check_key_ok Let_def)
qed

text \<open>a lookup on a leaf returns, in order, exactly the tuple identifiers of all entries whose key is
  the searched one, and tells the caller to go on to the right sibling exactly when the high fence still
  has that key. The keys on the page must not be proper prefixes of each other or of the searched key.\<close>

theorem leaf_Get_complete:
  assumes "searchable d p" "key_ok key" "klen key \<noteq> 0" "key_bytes key = p @ replicate 8 0"
  shows "leaf_Get d (unat (GetCount d)) key results = Inr
    \<lparr>vec = vec results @ map tid_of (filter (\<lambda>k. tid_prefix k = p) (page_keys leaf_fmt d)),
     proceed = (\<exists>f. page_fence leaf_fmt d = Some f \<and> tid_prefix f = p)\<rparr>"
  by (rule leaf_Get_block [OF assms])

lemma demo_leaf2_searchable: "searchable demo_leaf2 [b]"
  by (auto simp: searchable_def demo_leaf2 DB7_MAX_ROW_SIZE_def prefix_free_def tid_prefix_def sizeof_ValTyp_def)

lemma replicate_8: "replicate 8 x = [x, x, x, x, x, x, x, x]"
  by (simp add: numeral_eq_Suc)

lemma leaf_Get_complete_witness:
  "leaf_Get demo_leaf2 2 (demo_key 7 0) \<lparr>vec = [], proceed = False\<rparr> = Inr \<lparr>vec = [1], proceed = False\<rparr>"
  using leaf_Get_complete [OF demo_leaf2_searchable, of "demo_key 7 0" 7 "\<lparr>vec = [], proceed = False\<rparr>"]
  by (simp add: demo_leaf2 tid_prefix_def tid_of_def sizeof_ValTyp_def be_dec_def replicate_8)

lemma leaf_CheckUnique_block:
  assumes "searchable d p" "key_ok key" "klen key \<noteq> 0" "key_bytes key = p @ t" "length t = 8"
    and start: "start = None \<or> start = Some 0 \<and> (\<forall>k \<in> set (page_keys leaf_fmt d). \<not> tid_prefix k < p)"
  shows "leaf_CheckUnique conflict d key start = Inr
    (if \<exists>k \<in> set (page_keys leaf_fmt d). tid_prefix k = p \<and> conflict (tid_of k) then Fail None
     else Ok (\<exists>f. page_fence leaf_fmt d = Some f \<and> tid_prefix f = p))"
proof -
  let ?ks = "page_keys leaf_fmt d" and ?b = "p @ t"
  have len: "\<And>k. k \<in> set ?ks \<Longrightarrow> 8 \<le> length k" using assms(1) by (auto simp: searchable_def)
  have mono: "sorted_wrt (\<lambda>x y. tid_prefix y < p \<longrightarrow> tid_prefix x < p) ?ks"
    by (rule sorted_wrt_mono_rel [OF _ searchable_prefix_sorted [OF assms(1)]]) auto
  have cmp: "CmpPrefix (leaf_key d i) ?b < 0 \<longleftrightarrow> tid_prefix (?ks ! i) < p" if "i < length ?ks" for i
    using CmpPrefix_main(1) [OF assms(1) nth_mem [OF that] assms(5)] that by (simp add: leaf_keys_nth CmpFull_less)
  from bisect_filter [OF mono, of "\<lambda>i. CmpPrefix (leaf_key d i) ?b < 0"] cmp
  have "bisect (\<lambda>i. CmpPrefix (leaf_key d i) ?b < 0) 0 (length ?ks) = length (filter (\<lambda>k. tid_prefix k < p) ?ks)"
    and dw: "drop (length (filter (\<lambda>k. tid_prefix k < p) ?ks)) ?ks = dropWhile (\<lambda>k. tid_prefix k < p) ?ks"
      "dropWhile (\<lambda>k. tid_prefix k < p) ?ks = filter (\<lambda>k. \<not> tid_prefix k < p) ?ks"
    by simp_all
  then have "leaf_scan d ?b [leaf_FindStartPosition d ?b (unat (GetCount d))..<unat (GetCount d)] =
      map tid_of (takeWhile (\<lambda>k. CmpPrefix k ?b = 0) (dropWhile (\<lambda>k. tid_prefix k < p) ?ks))"
    using leaf_scan_drop [OF len] by (simp add: leaf_FindStartPosition_def)
  moreover have "dropWhile (\<lambda>k. tid_prefix k < p) ?ks = ?ks" if "start = Some 0"
    using start that by (cases ?ks) auto
  then have "leaf_scan d ?b [0..<unat (GetCount d)] =
      map tid_of (takeWhile (\<lambda>k. CmpPrefix k ?b = 0) (dropWhile (\<lambda>k. tid_prefix k < p) ?ks))" if "start = Some 0"
    using leaf_scan_drop [where b = ?b and j = 0, OF len] that by simp
  ultimately have "leaf_scan d ?b [(case start of None \<Rightarrow> leaf_FindStartPosition d ?b (unat (GetCount d)) | Some i \<Rightarrow> i)..<unat (GetCount d)] =
      map tid_of (takeWhile (\<lambda>k. CmpPrefix k ?b = 0) (dropWhile (\<lambda>k. tid_prefix k < p) ?ks))"
    using start by auto
  also have "takeWhile (\<lambda>k. CmpPrefix k ?b = 0) (dropWhile (\<lambda>k. tid_prefix k < p) ?ks) = filter (\<lambda>k. tid_prefix k = p) ?ks"
    using dw(2) by (intro scan_block [OF assms(1,5)]) auto
  finally show ?thesis
    using leaf_HighPrefixCmp_eq [OF assms(1-5)] assms(2-4)
    by (auto simp: leaf_CheckUnique_def check_key_ok Let_def list_ex_iff)
qed

text \<open>the uniqueness check of a leaf fails exactly when some entry with the searched key belongs to a
  conflicting tuple, and otherwise tells the caller whether the right sibling must be checked too.\<close>

theorem leaf_CheckUnique_spec:
  assumes "searchable d p" "key_ok key" "klen key \<noteq> 0" "key_bytes key = p @ t" "length t = 8"
  shows "leaf_CheckUnique conflict d key None = Inr
    (if \<exists>k \<in> set (page_keys leaf_fmt d). tid_prefix k = p \<and> conflict (tid_of k) then Fail None
     else Ok (\<exists>f. page_fence leaf_fmt d = Some f \<and> tid_prefix f = p))"
  by (rule leaf_CheckUnique_block [OF assms]) simp

lemma leaf_CheckUnique_spec_witness:
  "leaf_CheckUnique (\<lambda>t. t = 4) demo_leaf2 (demo_key 3 9) None = Inr (Fail None)"
  using leaf_CheckUnique_spec [OF demo_leaf2_searchable, of "demo_key 3 9" 3 "[0, 0, 0, 0, 0, 0, 0, 9]" "\<lambda>t. t = 4"]
  by (simp add: demo_leaf2 tid_prefix_def tid_of_def sizeof_ValTyp_def be_dec_def replicate_8)

end
