(* ===== verification/InterLayout.thy ===== *)
theory InterLayout
  imports NodeLayout Shared
begin

text \<open>
  The intermediate page layout
  (\<^verbatim>\<open>include/access/index/layouts/varlen/varlen_layout_intermediate.hpp\<close>), for the child type \<^verbatim>\<open>page_id\<close>.

  An intermediate entry is a separator key and the child page that holds the keys from this
  separator up to the next one; the leftmost separator is the empty key. The abstract node is the
  list \<open>inter_ents\<close> of (separator, child) pairs. The layout interprets \<open>node_layout\<close> with the
  insertion search that aborts on a separator that is already there.
\<close>

section \<open>Operations\<close>

definition inter_fmt :: slot_fmt where
  "inter_fmt = \<lparr>hdr_size = 8, hdr_align = 4, len_pos = 4\<rparr>"

definition inter_key :: "mem \<Rightarrow> nat \<Rightarrow> u8 list" where
  "inter_key d i = slot_key inter_fmt d (unat (get_slot d i))"

definition inter_result :: "mem \<Rightarrow> nat \<Rightarrow> page_id" where
  "inter_result d s = rd32 d s"

definition child_enc :: "page_id \<Rightarrow> u8 list" where
  "child_enc v = le_enc 4 (unat v)"

definition inter_AppendHeap :: "mem \<Rightarrow> Key \<Rightarrow> page_id \<Rightarrow> mem \<times> u16" where
  "inter_AppendHeap d key v = AppendHeap inter_fmt d (child_enc v) key"

function insert_search :: "(nat \<Rightarrow> int) \<Rightarrow> nat \<Rightarrow> nat \<Rightarrow> nat res" where
  "insert_search cmp lo hi =
     (if lo < hi then
        (let mid = lo + (hi - lo) div 2; res = cmp mid
         in DB7_ASSERT (res \<noteq> 0) ''Somehow there are identical entries in the tree''
              (if res < 0 then insert_search cmp (mid + 1) hi else insert_search cmp lo mid))
      else Inr lo)"
  by pat_completeness auto
termination
  by (relation "measure (\<lambda>(cmp, lo, hi). hi - lo)") auto

declare insert_search.simps [simp del]

definition inter_FindInsertPosition :: "mem \<Rightarrow> u8 list \<Rightarrow> nat \<Rightarrow> nat res" where
  "inter_FindInsertPosition d main_bs count = insert_search (\<lambda>mid. CmpFull (inter_key d mid) main_bs) 0 count"

definition inter_FindChild :: "mem \<Rightarrow> u8 list \<Rightarrow> nat \<Rightarrow> nat" where
  "inter_FindChild d main_bs count = bisect (\<lambda>mid. CmpFull (inter_key d mid) main_bs \<le> 0) 0 count"

definition inter_InsertSlot :: "mem \<Rightarrow> u16 \<Rightarrow> mem res" where
  "inter_InsertSlot d heap_offset =
     (let main_bs = slot_key inter_fmt d (unat heap_offset)
      in ebind (inter_FindInsertPosition d main_bs (unat (GetCount d))) (\<lambda>idx.
           Inr (set_count (ShiftRightInsert d idx (GetCount d) heap_offset) (GetCount d + 1))))"

text \<open>The assertion \<^verbatim>\<open>idx >= 0\<close> is about an unsigned value and never fails; for index 0 the code reads the
  two bytes in front of the slot array.\<close>

definition inter_Get :: "mem \<Rightarrow> nat \<Rightarrow> Key \<Rightarrow> page_id" where
  "inter_Get d count key =
     (let idx = inter_FindChild d (key_bytes key) count;
          slot = (if idx = 0 then rd16 d (header_size - 2) else get_slot d (idx - 1))
      in inter_result d (unat slot))"

definition inter_Insert :: "mem \<Rightarrow> Key \<Rightarrow> page_id \<Rightarrow> mem res" where
  "inter_Insert d key v =
     DB7_ASSERT (kdata key \<noteq> None) ''invalid key''
    (DB7_ASSERT (unat (klen key) < DB7_MAX_ROW_SIZE) ''should be checked in the binder''
    (DB7_ASSERT (v \<noteq> 0) ''Can not insert 0 which is invalid page''
      (let (d1, off) = inter_AppendHeap d key v in inter_InsertSlot d1 off)))"

definition inter_check_key :: "Key \<Rightarrow> 'a res \<Rightarrow> 'a res" where
  "inter_check_key key k = DB7_ASSERT (kdata key \<noteq> None) ''invalid key'' (DB7_ASSERT (klen key \<noteq> 0) ''invalid key'' k)"

definition inter_HasSpace :: "mem \<Rightarrow> Key \<Rightarrow> bool res" where
  "inter_HasSpace d key = inter_check_key key (Inr (HasSpaceFor inter_fmt d (klen key)))"

definition inter_HasSplit :: "mem \<Rightarrow> Key \<Rightarrow> bool res" where
  "inter_HasSplit d key =
     inter_check_key key
       (if hdr_max_val d = UNDEFINED_OFFSET then Inr False
        else Inr (CmpFull (slot_key inter_fmt d (unat (hdr_max_val d))) (key_bytes key) \<le> 0))"

definition inter_Split :: "mem \<Rightarrow> mem \<Rightarrow> page_id \<Rightarrow> Key \<Rightarrow> page_id \<Rightarrow> (mem \<times> mem \<times> Key) res" where
  "inter_Split left_data right_data new_pid key v =
     Split inter_fmt inter_InsertSlot left_data right_data new_pid key (child_enc v)"

text \<open>The private operations of the class, for the record format of an intermediate page. \<open>inter_Split_code\<close> is the body of
  \<^verbatim>\<open>Split\<close> in terms of them.\<close>

definition inter_MoveHeap :: "mem \<Rightarrow> u16 \<Rightarrow> u16 \<Rightarrow> (mem \<times> u16) res" where
  "inter_MoveHeap d old_offset len = MoveHeap inter_fmt d old_offset len"

definition inter_CopyHalfRight :: "mem \<Rightarrow> mem \<Rightarrow> nat \<Rightarrow> mem \<times> u16" where
  "inter_CopyHalfRight left_data right_data split = CopyHalfRight inter_fmt left_data right_data split"

definition inter_CompactHeap :: "mem \<Rightarrow> nat \<Rightarrow> mem res" where
  "inter_CompactHeap d cnt = CompactHeap inter_fmt d cnt"

definition inter_FindSplitPoint :: "mem \<Rightarrow> nat \<Rightarrow> nat res" where
  "inter_FindSplitPoint d cnt = FindSplitPoint inter_fmt d cnt"

lemma inter_CompactHeap_code:
  "inter_CompactHeap d cnt =
     DB7_ASSERT (unat (hdr_heap_offset d) = DB7_PAGE_SIZE) ''heap not set correctly''
       (compact_loop inter_fmt d (sort_key (\<lambda>i. - int (unat (get_slot d i))) [0..<cnt]))"
  "compact_loop inter_fmt d [] = Inr d"
  "compact_loop inter_fmt d (idx # idxs) =
     ebind (inter_MoveHeap d (get_slot d idx) (slot_len inter_fmt d (unat (get_slot d idx))))
       (\<lambda>(d', off). compact_loop inter_fmt (set_slot d' idx off) idxs)"
  by (simp_all add: inter_CompactHeap_def CompactHeap_def inter_MoveHeap_def)

lemma inter_Split_code:
  "inter_Split left_data right_data new_pid key v =
     inter_check_key key
    (DB7_ASSERT (unat (hdr_heap_offset right_data) = DB7_PAGE_SIZE) ''Heap must not be filled''
    (ebind (inter_FindSplitPoint left_data (unat (GetCount left_data))) (\<lambda>split.
       let (right1, right_max) = inter_CopyHalfRight left_data right_data split
       in ebind (inter_CompactHeap (set_heap_offset left_data (word_of_nat DB7_PAGE_SIZE)) split) (\<lambda>left1.
          let s = unat (get_slot right1 0);
              (left2, left_max) = AppendHeap inter_fmt left1 (slot_val inter_fmt right1 s) (slot_Key inter_fmt right1 s);
              right2 = set_max_val (set_count (set_rlink right1 (GetRLink left2)) (GetCount left2 - word_of_nat split)) right_max;
              left3 = set_max_val (set_count (set_rlink left2 new_pid) (word_of_nat split)) left_max;
              sentinel = slot_Key inter_fmt right2 s;
              sentinel_in = (\<lambda>r. \<lparr>klen = klen sentinel, kdata = Some (rd_bytes r (s + hdr_size inter_fmt) (unat (klen sentinel)))\<rparr>)
          in if CmpFull (key_bytes sentinel) (key_bytes key) \<le> 0
             then DB7_ASSERT (HasSpaceFor inter_fmt right2 (klen key)) ''new key does not fit in right half after split''
                    (let (right3, off) = inter_AppendHeap right2 key v
                     in ebind (inter_InsertSlot right3 off) (\<lambda>right4. Inr (left3, right4, sentinel_in right4)))
             else DB7_ASSERT (HasSpaceFor inter_fmt left3 (klen key)) ''new key does not fit in left half after split''
                    (let (left4, off) = inter_AppendHeap left3 key v
                     in ebind (inter_InsertSlot left4 off) (\<lambda>left5. Inr (left5, right2, sentinel_in right2)))))))"
  by (simp add: inter_Split_def Split_def SplitHalves_def inter_check_key_def inter_FindSplitPoint_def inter_CopyHalfRight_def
      inter_CompactHeap_def inter_AppendHeap_def ebind_assoc Let_def case_prod_unfold cong: if_cong)

definition CreateRoot :: "mem \<Rightarrow> Key \<Rightarrow> page_id \<Rightarrow> page_id \<Rightarrow> mem" where
  "CreateRoot d key pid new_pid =
     (let (d1, o0) = inter_AppendHeap d \<lparr>klen = 0, kdata = None\<rparr> pid;
          d2 = set_slot d1 0 o0;
          (d3, o1) = inter_AppendHeap d2 key new_pid;
          d4 = set_slot d3 1 o1
      in set_count d4 2)"

section \<open>The layout implements the node contract\<close>

interpretation inter: slot_layout inter_fmt
  by unfold_locales (simp_all add: inter_fmt_def)

lemma inter_fmt_simps [simp]: "hdr_size inter_fmt = 8" "hdr_align inter_fmt = 4" "len_pos inter_fmt = 4"
  by (simp_all add: inter_fmt_def)

lemma inter_keys_nth: "i < unat (GetCount d) \<Longrightarrow> inter_key d i = page_keys inter_fmt d ! i"
  by (simp add: inter_key_def)

lemma insert_search_bisect:
  assumes "hi \<le> n" "\<And>j. j < n \<Longrightarrow> cmp j \<noteq> 0"
  shows "insert_search cmp lo hi = Inr (bisect (\<lambda>j. cmp j < 0) lo hi)"
  using assms
proof (induction cmp lo hi rule: insert_search.induct)
  case (1 cmp lo hi)
  define mid where "mid = lo + (hi - lo) div 2"
  show ?case
  proof (cases "lo < hi")
    case True
    then have "mid < hi" "mid < n" using "1.prems"(1) by (auto simp: mid_def)
    with "1.IH" [OF True mid_def refl] "1.prems" True show ?thesis
      by (simp add: insert_search.simps [of cmp lo hi] bisect_step [OF True mid_def] mid_def [symmetric] Let_def)
  qed (simp add: insert_search.simps)
qed

lemma inter_InsertSlot_spec:
  assumes "page_ok inter_fmt d" "sorted_wrt (<) (page_keys inter_fmt d)" "appended inter_fmt d val bs d1 off"
    "hdr_size inter_fmt + length bs \<le> unat (hdr_heap_offset d)" "slot_addr (unat (GetCount d) + 1) \<le> unat off"
    "bs \<notin> set (page_keys inter_fmt d)"
  shows "inter_InsertSlot d1 off = Inr (insert_slot d1 (length (filter (\<lambda>k. k < bs) (page_keys inter_fmt d))) off)"
proof -
  let ?ks = "page_keys inter_fmt d"
  note ak = inter.appended_keys [OF assms(1,3-5)]
  have key: "inter_key d1 i = ?ks ! i" if "i < length ?ks" for i
    using that ak inter_keys_nth [of i d1] by simp
  have "CmpFull (inter_key d1 i) bs \<noteq> 0" if "i < length ?ks" for i
    using that key assms(6) by (metis CmpFull_eq nth_mem)
  then have "inter_FindInsertPosition d1 bs (length ?ks) = Inr (bisect (\<lambda>i. CmpFull (inter_key d1 i) bs < 0) 0 (length ?ks))"
    unfolding inter_FindInsertPosition_def by (intro insert_search_bisect [OF order_refl])
  also have "bisect (\<lambda>i. CmpFull (inter_key d1 i) bs < 0) 0 (length ?ks) = length (filter (\<lambda>k. k < bs) ?ks)"
    using key by (intro bisect_position [OF assms(2)]) (simp add: CmpFull_less)
  finally show ?thesis
    using ak by (simp add: inter_InsertSlot_def insert_slot_def Let_def)
qed

interpretation inter: node_layout inter_fmt inter_InsertSlot
  by unfold_locales (simp add: inter_InsertSlot_spec)

section \<open>Separators and children\<close>

definition inter_ents :: "mem \<Rightarrow> (u8 list \<times> page_id) list" where
  "inter_ents d = map (\<lambda>e. (fst e, word_of_nat (le_dec (snd e)))) (page_ents inter_fmt d)"

definition route_insert :: "u8 list \<Rightarrow> page_id \<Rightarrow> (u8 list \<times> page_id) list \<Rightarrow> (u8 list \<times> page_id) list" where
  "route_insert k p es = takeWhile (\<lambda>e. fst e < k) es @ (k, p) # dropWhile (\<lambda>e. fst e < k) es"

text \<open>The child whose range holds the key: the one of the last separator that is not above it.\<close>

definition route_child :: "u8 list \<Rightarrow> (u8 list \<times> page_id) list \<Rightarrow> page_id" where
  "route_child k es = snd (last (filter (\<lambda>e. fst e \<le> k) es))"

lemma length_child_enc [simp]: "length (child_enc v) = 4"
  by (simp add: child_enc_def)

lemma child_dec_enc [simp]: "word_of_nat (le_dec (child_enc v)) = v"
  using unat_u32_less [of v] by (simp add: child_enc_def le_dec_enc)

lemma inter_ents_fst: "map fst (inter_ents d) = page_keys inter_fmt d"
  by (simp add: inter_ents_def page_keys_ents comp_def)

lemma length_inter_ents [simp]: "length (inter_ents d) = unat (GetCount d)"
  by (simp add: inter_ents_def)

lemma nth_inter_ents:
  "i < unat (GetCount d) \<Longrightarrow> inter_ents d ! i = (inter_key d i, inter_result d (unat (get_slot d i)))"
  by (simp add: inter_ents_def slot_ent_def inter_key_def inter_result_def slot_val_def rd32_def)

lemma inter_ents_route_insert:
  "page_ents inter_fmt d' = ent_insert k (child_enc v) (page_ents inter_fmt d) \<Longrightarrow>
    inter_ents d' = route_insert k v (inter_ents d)"
  by (simp add: inter_ents_def ent_insert_def route_insert_def takeWhile_map dropWhile_map comp_def)

lemma inter_keys_sorted: "keys_sorted (page_ents inter_fmt d) \<longleftrightarrow> sorted_wrt (<) (map fst (inter_ents d))"
  by (simp add: keys_sorted_def inter_ents_fst page_keys_ents)

text \<open>Lengths for which a split never runs out of space. The leftmost separator may be empty.\<close>

definition INTER_MAX_KEY :: nat where
  "INTER_MAX_KEY = 512"

definition inter_key_lengths :: "mem \<Rightarrow> bool" where
  "inter_key_lengths d \<longleftrightarrow>
     (\<forall>k \<in> set (page_keys inter_fmt d). length k \<le> INTER_MAX_KEY) \<and>
     (\<forall>k \<in> set (tl (page_keys inter_fmt d)). 9 \<le> length k) \<and>
     (\<forall>f. page_fence inter_fmt d = Some f \<longrightarrow> length f \<le> INTER_MAX_KEY)"

lemma inter_cost_ratio: "9 \<le> length (fst e) \<Longrightarrow> cost_ratio inter_fmt 11 14 0 [e]"
  "cost_ratio inter_fmt 11 14 72 [e]"
  by (simp_all add: cost_ratio_def ents_cost_def live_cost_def ents_len_def rec_cost_def)

lemma inter_split_fits:
  assumes ok: "page_ok inter_fmt d" and cnt: "2 \<le> unat (GetCount d)" and len: "inter_key_lengths d"
    and n: "n \<le> INTER_MAX_KEY"
  shows "split_fits inter_fmt d n"
  unfolding split_fits_def
proof (intro allI impI)
  fix sp
  let ?es = "page_ents inter_fmt d"
  assume sp: "FindSplitPoint inter_fmt d (unat (GetCount d)) = Inr sp"
  from page_split_point [OF cnt, of inter_fmt] sp have b: "0 < sp" "sp < length ?es"
    "2 * ents_len (take (sp - 1) ?es) \<le> ents_len ?es"
    "sp = length ?es - 1 \<or> ents_len ?es \<le> 2 * ents_len (take sp ?es) + 1" by auto
  have el: "length (fst e) \<le> 512" if "e \<in> set ?es" for e
    using len that by (force simp: inter_key_lengths_def page_keys_ents INTER_MAX_KEY_def)
  have et: "9 \<le> length (fst e)" if "e \<in> set (tl ?es)" for e
    using len that by (auto simp: inter_key_lengths_def page_keys_ents map_tl [symmetric])
  have first: "take 1 ?es = [?es ! 0]" "?es ! 0 \<in> set ?es" "?es ! sp \<in> set ?es"
    using b nth_mem [of 0 ?es] nth_mem [of sp ?es] by (cases ?es; simp)+
  have "e \<in> set ?es" if "e \<in> set (tl ?es)" for e using that by (rule list.set_sel(2) [rotated]) (use first in auto)
  then have "\<forall>e \<in> set (tl ?es). cost_ratio inter_fmt 11 14 0 [e] \<and> length (fst e) \<le> 512"
    using el et inter_cost_ratio(1) by blast
  note cap0 = inter.split_capacity [OF ok b, of 11 14 72 512, unfolded first(1), OF inter_cost_ratio(2) this]
  have m: "max 512 (length (fst (?es ! 0))) = 512" using el [OF first(2)] by simp
  note cap = cap0 [unfolded m rec_cost_def inter_fmt_simps]
  have fence: "fence_cost inter_fmt d \<le> 523"
    using len by (auto simp: fence_cost_def inter_key_lengths_def rec_cost_def INTER_MAX_KEY_def split: option.splits)
  have len': "length (fst (?es ! sp)) \<le> 512" "n \<le> 512" "sp < unat (GetCount d)"
    using el [OF first(3)] n b(2) by (simp_all add: INTER_MAX_KEY_def)
  show "slot_addr (sp + 1) + ents_cost inter_fmt (take sp ?es) + rec_cost inter_fmt (length (fst (?es ! sp))) +
      rec_cost inter_fmt n \<le> DB7_PAGE_SIZE \<and>
    slot_addr (unat (GetCount d) - sp + 1) + fence_cost inter_fmt d + ents_cost inter_fmt (drop sp ?es) +
      rec_cost inter_fmt n \<le> DB7_PAGE_SIZE"
    unfolding rec_cost_def inter_fmt_simps slot_addr_def header_size_def DB7_PAGE_SIZE_def
  proof (intro conjI)
    show "20 + 2 * (sp + 1) + ents_cost inter_fmt (take sp ?es) + (8 + length (fst (?es ! sp)) + (4 - 1)) +
        (8 + n + (4 - 1)) \<le> 8192"
      using cap(1,2) len'(1,2) b(1) by (cases sp) simp_all
    show "20 + 2 * (unat (GetCount d) - sp + 1) + fence_cost inter_fmt d + ents_cost inter_fmt (drop sp ?es) +
        (8 + n + (4 - 1)) \<le> 8192"
      using cap(3) len'(2,3) fence unfolding length_page_ents by (elim disjE conjE) simp_all
  qed
qed

section \<open>The operations on whole pages\<close>

lemma inter_Get_covering:
  assumes srt: "sorted_wrt (<) (map fst (inter_ents d))" and ne: "0 < unat (GetCount d)"
    and low: "fst (hd (inter_ents d)) \<le> key_bytes key"
  shows "inter_Get d (unat (GetCount d)) key = route_child (key_bytes key) (inter_ents d)"
proof -
  let ?k = "key_bytes key" and ?n = "unat (GetCount d)" and ?es = "inter_ents d"
  let ?F = "filter (\<lambda>e. fst e \<le> ?k) ?es"
  have mono: "sorted_wrt (\<lambda>x y. fst y \<le> ?k \<longrightarrow> fst x \<le> ?k) ?es"
    using srt by (auto simp: sorted_wrt_map elim: sorted_wrt_mono_rel [rotated])
  have "CmpFull (inter_key d i) ?k \<le> 0 \<longleftrightarrow> fst (?es ! i) \<le> ?k" if "i < length ?es" for i
    using that by (simp add: CmpFull_le nth_inter_ents)
  from bisect_filter [OF mono, of "\<lambda>i. CmpFull (inter_key d i) ?k \<le> 0"] this
  have r: "inter_FindChild d ?k ?n = length ?F"
    and dw: "drop (length ?F) ?es = dropWhile (\<lambda>e. fst e \<le> ?k) ?es"
    by (simp_all add: inter_FindChild_def)
  have "filter (\<lambda>e. fst e \<le> ?k) ?es = takeWhile (\<lambda>e. fst e \<le> ?k) ?es"
    using takeWhile_eq_filter [OF mono] by simp
  then have F: "?F = take (length ?F) ?es" by (metis takeWhile_eq_take)
  have "?es \<noteq> []" using ne by (metis length_0_conv length_inter_ents less_irrefl)
  then have "hd ?es \<in> set ?F" using low by simp
  then have pos: "0 < length ?F" by (metis length_pos_if_in_set)
  moreover have le: "length ?F \<le> ?n" by (metis length_filter_le length_inter_ents)
  ultimately have last: "last ?F = ?es ! (length ?F - 1)"
  proof -
    have "last ?F = ?F ! (length ?F - 1)" using pos by (intro last_conv_nth) auto
    also have "\<dots> = take (length ?F) ?es ! (length ?F - 1)" using F by simp
    finally show ?thesis using pos by simp
  qed
  have "length ?F - 1 < ?n" using pos le by linarith
  from nth_inter_ents [OF this] show ?thesis
    using r pos le last
    by (simp add: inter_Get_def Let_def route_child_def)
qed

lemma inter_empty: "unat (hdr_heap_offset (InitHeader d c level pid)) = 8192"
  "hdr_max_val (InitHeader d c level pid) = UNDEFINED_OFFSET" "GetRLink (InitHeader d c level pid) = UNDEFINED_PAGE"
  by (simp_all add: InitHeader_def WriteHeader_def Let_def hdr_defs mem_simps DB7_PAGE_SIZE_def)

lemma set_count_with_header: "hdr_max_val d = mv \<Longrightarrow> set_count d (word_of_nat k) = with_header d k mv"
proof -
  assume "hdr_max_val d = mv"
  then have "rd16 (set_count d (word_of_nat k)) 10 = mv" by (simp add: set_count_def hdr_max_val_def mem_simps)
  then show "set_count d (word_of_nat k) = with_header d k mv"
    using wr16_rd16 [of "set_count d (word_of_nat k)" 10] by (simp add: with_header_def set_max_val_def)
qed

lemma CreateRoot_ok:
  fixes d0 :: mem and pid new_pid rpid :: page_id and level :: u8
  assumes "key_ok key" "unat (klen key) < DB7_MAX_ROW_SIZE"
  defines "d \<equiv> CreateRoot (InitHeader d0 1 level rpid) key pid new_pid"
  shows "page_ok inter_fmt d" "page_ents inter_fmt d = [([], child_enc pid), (key_bytes key, child_enc new_pid)]"
    "page_fence inter_fmt d = None" "GetRLink d = UNDEFINED_PAGE" "GetLevel d = level" "hdr_pid d = rpid"
    "page_tight inter_fmt d"
proof -
  let ?I = "InitHeader d0 1 level rpid" and ?U = UNDEFINED_OFFSET and ?E = "\<lparr>klen = 0, kdata = None\<rparr>"
  have h: "unat (hdr_heap_offset (with_header ?I 0 ?U)) = DB7_PAGE_SIZE"
    by (simp add: inter_empty DB7_PAGE_SIZE_def)
  have e0: "page_ok inter_fmt (with_header ?I 0 ?U)" "page_ents inter_fmt (with_header ?I 0 ?U) = []"
      "page_fence inter_fmt (with_header ?I 0 ?U) = None"
    using inter.page_ok_empty [of "with_header ?I 0 ?U"] h by simp_all
  obtain d1 o0 where ap0: "AppendHeap inter_fmt ?I (child_enc pid) ?E = (d1, o0)" by fastforce
  define d2 where "d2 = set_slot d1 0 o0"
  have f0: "slot_addr (0 + 1) + rec_cost inter_fmt (unat (klen ?E)) \<le> unat (hdr_heap_offset ?I)"
    by (simp add: inter_empty slot_addr_def header_size_def rec_cost_def)
  note s0 = inter.append_step [OF e0(1) _ disjI2 _ f0 ap0, folded d2_def, simplified]
  obtain d3 o1 where ap1: "AppendHeap inter_fmt d2 (child_enc new_pid) key = (d3, o1)" by fastforce
  define d4 where "d4 = set_slot d3 1 o1"
  have f1: "slot_addr (1 + 1) + rec_cost inter_fmt (unat (klen key)) \<le> unat (hdr_heap_offset d2)"
    using s0(4) assms(2) by (simp add: inter_empty slot_addr_def header_size_def rec_cost_def DB7_MAX_ROW_SIZE_def)
  have ok1: "page_ok inter_fmt (with_header d2 1 ?U)" using s0(1) by simp
  note s1 = inter.append_step [OF ok1 _ disjI1 [OF assms(1)] _ f1 ap1, folded d4_def, simplified]
  have "d = set_count d4 (word_of_nat 2)"
    by (simp add: d_def CreateRoot_def inter_AppendHeap_def ap0 ap1 Let_def d4_def flip: d2_def)
  then have d: "d = with_header d4 2 ?U"
    using set_count_with_header [of d4 ?U 2] s0(8) s1(8) by (simp add: inter_empty)
  show "page_ok inter_fmt d" "page_fence inter_fmt d = None"
      "page_ents inter_fmt d = [([], child_enc pid), (key_bytes key, child_enc new_pid)]"
    using s0(1-3) s1(1-3) e0 by (simp_all add: d numeral_2_eq_2 key_bytes_def)
  show "GetRLink d = UNDEFINED_PAGE" "GetLevel d = level" "hdr_pid d = rpid"
    using s0(5-7) s1(5-7) by (simp_all add: d inter_empty InitHeader_fields)
  have "hdr_heap_offset d = hdr_heap_offset d4" by (simp add: d)
  then show "page_tight inter_fmt d"
    using s0(4) s1(4) \<open>page_ents inter_fmt d = _\<close> length_key_bytes [OF assms(1)]
    by (simp add: page_tight_def ents_cost_def inter_empty DB7_PAGE_SIZE_def)
qed

definition inter_updated :: "mem \<Rightarrow> (u8 list \<times> page_id) list \<Rightarrow> mem \<Rightarrow> bool" where
  "inter_updated d es d' \<longleftrightarrow>
     page_ok inter_fmt d' \<and> inter_ents d' = es \<and> page_fence inter_fmt d' = page_fence inter_fmt d \<and>
     GetRLink d' = GetRLink d \<and> GetLevel d' = GetLevel d \<and> hdr_pid d' = hdr_pid d \<and>
     (\<forall>x \<ge> unat (hdr_heap_offset d). d' x = d x)"

lemma inter_Insert_updated:
  assumes ok: "page_ok inter_fmt d" and srt: "sorted_wrt (<) (map fst (inter_ents d))"
    and k: "key_ok key" "unat (klen key) < DB7_MAX_ROW_SIZE" "v \<noteq> 0"
    and sp: "HasSpaceFor inter_fmt d (klen key)" "8 + unat (klen key) \<le> unat (hdr_heap_offset d)"
    and new: "key_bytes key \<notin> set (map fst (inter_ents d))"
  shows "\<exists>d'. inter_Insert d key v = Inr d' \<and> inter_updated d (route_insert (key_bytes key) v (inter_ents d)) d'"
proof -
  obtain d1 off where ap: "AppendHeap inter_fmt d (child_enc v) key = (d1, off)" by fastforce
  have "key_bytes key \<notin> fst ` set (page_ents inter_fmt d)"
    using new by (simp only: inter_ents_fst page_keys_ents) simp
  with inter.insert_ok [OF ok _ k(1) _ sp(1) _ _ ap] srt sp(2)
  obtain d2 where d2: "inter_InsertSlot d1 off = Inr d2" and ins: "inter.inserted d (key_bytes key) (child_enc v) d2"
    by (auto simp: inter_keys_sorted)
  have "kdata key \<noteq> None" using k(1) by (auto simp: key_ok_def)
  then have "inter_Insert d key v = Inr d2"
    using k d2 by (simp add: inter_Insert_def inter_AppendHeap_def ap)
  with ins show ?thesis
    using inter_ents_route_insert [of d2 "key_bytes key" v d] by (auto simp: inter.inserted_def inter_updated_def)
qed

text \<open>growing the tree writes a well-formed root with exactly two children: the old page under the
  empty separator and the new right page under the split key.\<close>

theorem CreateRoot_two_children:
  assumes "key_ok key" "unat (klen key) < DB7_MAX_ROW_SIZE" "klen key \<noteq> 0"
  shows "let d = CreateRoot (InitHeader d0 1 level rpid) key pid new_pid
    in page_ok inter_fmt d \<and> inter_ents d = [([], pid), (key_bytes key, new_pid)] \<and>
       sorted_wrt (<) (map fst (inter_ents d)) \<and> page_fence inter_fmt d = None \<and>
       GetRLink d = UNDEFINED_PAGE \<and> GetLevel d = level \<and> hdr_pid d = rpid"
proof -
  have "key_bytes key \<noteq> []" using length_key_bytes [OF assms(1)] assms(3) by (auto simp: unat_eq_zero)
  with CreateRoot_ok [OF assms(1,2), of d0 level rpid pid new_pid] show ?thesis
    by (simp add: Let_def inter_ents_def Nil_less_iff)
qed

definition sep_key :: "u8 \<Rightarrow> Key" where
  "sep_key b = mk_key [b, 0, 0, 0, 0, 0, 0, 0, 1]"

lemma sep_key_simps [simp]:
  "key_ok (sep_key b)" "klen (sep_key b) = 9" "key_bytes (sep_key b) = [b, 0, 0, 0, 0, 0, 0, 0, 1]"
  "kdata (sep_key b) = Some [b, 0, 0, 0, 0, 0, 0, 0, 1]"
  by (auto simp: sep_key_def mk_key_def key_ok_def key_bytes_def)

definition demo_root :: mem where
  "demo_root = CreateRoot (InitHeader (\<lambda>_. 0) 1 1 9) (sep_key 7) 5 6"

lemma CreateRoot_two_children_witness:
  "inter_ents demo_root = [([], 5), (key_bytes (sep_key 7), 6)]"
  using CreateRoot_two_children [of "sep_key 7" "\<lambda>_. 0" 1 9 5 6]
  by (simp add: demo_root_def Let_def DB7_MAX_ROW_SIZE_def)

lemma demo_root:
  "page_ok inter_fmt demo_root" "inter_ents demo_root = [([], 5), (key_bytes (sep_key 7), 6)]"
  "page_fence inter_fmt demo_root = None" "unat (GetCount demo_root) = 2"
  "page_keys inter_fmt demo_root = [[], key_bytes (sep_key 7)]"
proof -
  note cr = CreateRoot_ok [of "sep_key 7" "\<lambda>_. 0" 1 9 5 6, folded demo_root_def]
  show "page_ok inter_fmt demo_root" "page_fence inter_fmt demo_root = None"
      "inter_ents demo_root = [([], 5), (key_bytes (sep_key 7), 6)]"
    and ks: "page_keys inter_fmt demo_root = [[], key_bytes (sep_key 7)]"
    using cr by (simp_all add: inter_ents_def page_keys_ents DB7_MAX_ROW_SIZE_def)
  show "unat (GetCount demo_root) = 2" using ks length_page_keys [of inter_fmt demo_root] by simp
qed

text \<open>a search in a sorted intermediate page whose leftmost separator is not above the key follows the
  last separator that is not above the key.\<close>

theorem inter_Get_routes:
  assumes "sorted_wrt (<) (map fst (inter_ents d))" "0 < unat (GetCount d)"
    and "fst (hd (inter_ents d)) \<le> key_bytes key"
  shows "inter_Get d (unat (GetCount d)) key = route_child (key_bytes key) (inter_ents d)"
  by (rule inter_Get_covering [OF assms])

lemma inter_Get_routes_witness: "inter_Get demo_root 2 (sep_key 3) = 5 \<and> inter_Get demo_root 2 (sep_key 8) = 6"
  using inter_Get_routes [of demo_root "sep_key 3"] inter_Get_routes [of demo_root "sep_key 8"]
  by (simp add: demo_root route_child_def Nil_less_iff le_less)

text \<open>inserting a separator into an intermediate page with room for it keeps the page well formed and
  puts the (separator, child) pair at its place; the fence, the links and everything above the heap are
  untouched.\<close>

theorem inter_Insert_refines:
  assumes "page_ok inter_fmt d" "sorted_wrt (<) (map fst (inter_ents d))"
    and "key_ok key" "klen key \<noteq> 0" "unat (klen key) < DB7_MAX_ROW_SIZE" "v \<noteq> 0"
    and "inter_HasSpace d key = Inr True" "8 + unat (klen key) \<le> unat (hdr_heap_offset d)"
    and "key_bytes key \<notin> set (map fst (inter_ents d))"
  shows "\<exists>d'. inter_Insert d key v = Inr d' \<and>
    inter_updated d (route_insert (key_bytes key) v (inter_ents d)) d' \<and> (\<forall>x \<ge> DB7_PAGE_SIZE. d' x = d x)"
proof -
  have "HasSpaceFor inter_fmt d (klen key)"
    using assms(7) by (auto simp: inter_HasSpace_def inter_check_key_def DB7_ASSERT_def split: if_splits)
  from inter_Insert_updated [OF assms(1-3,5,6) this assms(8,9)] inter.page_okD(2) [OF assms(1)]
  show ?thesis by (auto simp: inter_updated_def)
qed

lemma demo_root_heap: "8132 \<le> unat (hdr_heap_offset demo_root)"
proof -
  have "unat (hdr_heap_offset demo_root) = 8164"
    by (simp add: demo_root_def CreateRoot_def inter_AppendHeap_def AppendHeap_def Let_def hdr_defs mem_simps
        inter_empty(1) [unfolded hdr_heap_offset_def] InitHeader_def WriteHeader_def CalculateHeapOffset_def
        AlignDown_def DB7_PAGE_SIZE_def)
  then show ?thesis by simp
qed

lemma inter_Insert_refines_witness:
  "\<exists>d'. inter_Insert demo_root (sep_key 8) 11 = Inr d' \<and>
    inter_ents d' = [([], 5), (key_bytes (sep_key 7), 6), (key_bytes (sep_key 8), 11)]"
proof -
  have "HasSpaceFor inter_fmt demo_root 9"
    using demo_root_heap demo_root(4)
    by (intro inter.HasSpaceFor_room(1) [OF demo_root(1)]) (simp add: slot_addr_def header_size_def rec_cost_def)
  then have "inter_HasSpace demo_root (sep_key 8) = Inr True" by (simp add: inter_HasSpace_def inter_check_key_def)
  from inter_Insert_refines [OF demo_root(1) _ _ _ _ _ this, of 11] demo_root_heap show ?thesis
    by (auto simp: demo_root(2) DB7_MAX_ROW_SIZE_def inter_updated_def route_insert_def Nil_less_iff)
qed

text \<open>splitting a full intermediate page never fails for separators of at most 512 bytes, of which only
  the leftmost may be shorter than nine: both halves are well formed and together hold the old pairs
  and the new one in order, the first separator of the right half is returned and fences the left half.\<close>

theorem inter_Split_refines:
  assumes "page_ok inter_fmt left" "sorted_wrt (<) (map fst (inter_ents left))" "fresh_page right"
    and "2 \<le> unat (GetCount left)" "inter_key_lengths left"
    and "key_ok key" "klen key \<noteq> 0" "unat (klen key) \<le> INTER_MAX_KEY"
    and "key_bytes key \<notin> set (map fst (inter_ents left))"
  shows "\<exists>l r sent. inter_Split left right new_pid key v = Inr (l, r, sent) \<and>
    page_ok inter_fmt l \<and> page_ok inter_fmt r \<and> inter_ents l \<noteq> [] \<and> inter_ents r \<noteq> [] \<and>
    inter_ents l @ inter_ents r = route_insert (key_bytes key) v (inter_ents left) \<and>
    key_bytes sent = fst (hd (inter_ents r)) \<and> page_fence inter_fmt l = Some (key_bytes sent) \<and>
    page_fence inter_fmt r = page_fence inter_fmt left \<and> GetRLink l = new_pid \<and> GetRLink r = GetRLink left"
proof -
  let ?dec = "\<lambda>e. (fst e, word_of_nat (le_dec (snd e)) :: page_id)"
  have "key_bytes key \<notin> fst ` set (page_ents inter_fmt left)"
    using assms(9) by (simp only: inter_ents_fst page_keys_ents) simp
  with inter.Split_ok [OF assms(1) _ assms(3,4,6,7) _ _ inter_split_fits [OF assms(1,4,5,8)], of "child_enc v" new_pid]
    assms(2)
  obtain l r sent where "Split inter_fmt inter_InsertSlot left right new_pid key (child_enc v) = Inr (l, r, sent)"
    and post: "split_post inter_fmt left right new_pid (key_bytes key) (child_enc v) l r sent"
    by (auto simp: inter_keys_sorted)
  moreover have "inter_ents l @ inter_ents r = route_insert (key_bytes key) v (inter_ents left)"
  proof -
    have "inter_ents l @ inter_ents r = map ?dec (ent_insert (key_bytes key) (child_enc v) (page_ents inter_fmt left))"
      using post by (simp add: inter_ents_def split_post_def flip: map_append)
    then show ?thesis
      by (simp add: inter_ents_def ent_insert_def route_insert_def takeWhile_map dropWhile_map comp_def)
  qed
  ultimately show ?thesis
    by (auto simp: inter_Split_def split_post_def inter_ents_def hd_map)
qed

lemma inter_Split_refines_witness:
  "\<exists>l r sent. inter_Split demo_root (InitHeader (\<lambda>_. 0) 0 1 10) 10 (sep_key 8) 11 = Inr (l, r, sent) \<and>
    inter_ents l @ inter_ents r = [([], 5), (key_bytes (sep_key 7), 6), (key_bytes (sep_key 8), 11)]"
proof -
  have "inter_key_lengths demo_root"
    by (auto simp: inter_key_lengths_def demo_root(3,5) INTER_MAX_KEY_def)
  from inter_Split_refines [OF demo_root(1) _ InitHeader_fresh _ this, of "sep_key 8" "\<lambda>_. 0" 1 10 10 11]
  show ?thesis
    by (auto simp: demo_root(2,4) INTER_MAX_KEY_def route_insert_def Nil_less_iff)
qed

end
