(* ===== verification/Locks.thy ===== *)
theory Locks
  imports Prelude
begin

text \<open>
  Latching: the per-thread state of a B-tree descent (\<^verbatim>\<open>shared/thread_local_util.hpp\<close>) and the sequence
  lock on every page (\<^verbatim>\<open>shared/locks/adaptive_version_lock.hpp\<close>).

  The locale \<open>bounded_stack\<close> is what the B-tree relies on for the stack of visited page ids; it is
  interpreted on the 16-entry buffer of \<^verbatim>\<open>TlState\<close>. The sequence lock is a step relation over the
  atomic actions of its operations, with a ghost counter of the increments of \<^verbatim>\<open>seq\<close>; the lemmas show
  that a validated optimistic read saw one consistent state.
\<close>

section \<open>Thread-local state\<close>

record TlState =
  tl_version :: u64
  tl_tries :: u32
  state_buf :: "page_id list"
  state_size :: u32

definition tl_Clear :: "TlState \<Rightarrow> TlState" where
  "tl_Clear s = s\<lparr>tl_version := 0, tl_tries := 0, state_size := 0\<rparr>"

definition tl_Push :: "TlState \<Rightarrow> page_id \<Rightarrow> TlState res" where
  "tl_Push s pid =
     DB7_ASSERT (state_size s < 16) ''Invalid size tried to push to full stack''
       (Inr (s\<lparr>state_buf := (state_buf s)[unat (state_size s) := pid], state_size := state_size s + 1\<rparr>))"

definition tl_Pop :: "TlState \<Rightarrow> (TlState \<times> page_id) res" where
  "tl_Pop s =
     DB7_ASSERT (state_size s \<ge> 1) ''Invalid size tried to pop from empty stack''
       (Inr (s\<lparr>state_size := state_size s - 1\<rparr>, state_buf s ! unat (state_size s - 1)))"

definition tl_IsEmpty :: "TlState \<Rightarrow> bool" where
  "tl_IsEmpty s \<longleftrightarrow> state_size s = 0"

definition tl_init :: TlState where
  "tl_init = \<lparr>tl_version = 0, tl_tries = 0, state_buf = replicate 16 0, state_size = 0\<rparr>"

definition tl_ok :: "TlState \<Rightarrow> bool" where
  "tl_ok s \<longleftrightarrow> length (state_buf s) = 16 \<and> state_size s \<le> 16"

definition tl_stack :: "TlState \<Rightarrow> page_id list" where
  "tl_stack s = rev (take (unat (state_size s)) (state_buf s))"

section \<open>Bounded stacks\<close>

locale bounded_stack =
  fixes push :: "'s \<Rightarrow> 'a \<Rightarrow> 's res" and pop :: "'s \<Rightarrow> ('s \<times> 'a) res" and empty :: "'s \<Rightarrow> bool"
    and ok :: "'s \<Rightarrow> bool" and stk :: "'s \<Rightarrow> 'a list" and cap :: nat
  assumes empty_iff: "ok s \<Longrightarrow> empty s \<longleftrightarrow> stk s = []"
    and push_ok: "ok s \<Longrightarrow> length (stk s) < cap \<Longrightarrow> \<exists>s'. push s x = Inr s' \<and> ok s' \<and> stk s' = x # stk s"
    and push_full: "ok s \<Longrightarrow> \<not> length (stk s) < cap \<Longrightarrow> \<exists>m. push s x = Inl (AssertFailed m)"
    and pop_ok: "ok s \<Longrightarrow> stk s = x # xs \<Longrightarrow> \<exists>s'. pop s = Inr (s', x) \<and> ok s' \<and> stk s' = xs"
    and pop_empty: "ok s \<Longrightarrow> stk s = [] \<Longrightarrow> \<exists>m. pop s = Inl (AssertFailed m)"
begin

fun push_all :: "'s \<Rightarrow> 'a list \<Rightarrow> 's res" where
  "push_all s [] = Inr s"
| "push_all s (x # xs) = ebind (push s x) (\<lambda>s'. push_all s' xs)"

lemma push_pop:
  assumes "ok s" "push s x = Inr s'"
  shows "\<exists>s''. pop s' = Inr (s'', x) \<and> stk s'' = stk s"
proof -
  have "length (stk s) < cap" using push_full [OF assms(1), of x] assms(2) by fastforce
  from push_ok [OF assms(1) this, of x] assms(2) have "ok s'" "stk s' = x # stk s" by auto
  from pop_ok [OF this] show ?thesis by auto
qed

lemma push_all_ok:
  "ok s \<Longrightarrow> length (stk s) + length xs \<le> cap \<Longrightarrow> \<exists>s'. push_all s xs = Inr s' \<and> ok s' \<and> stk s' = rev xs @ stk s"
proof (induction xs arbitrary: s)
  case (Cons x xs)
  then obtain s1 where s1: "push s x = Inr s1" "ok s1" "stk s1 = x # stk s" using push_ok [of s x] by auto
  with Cons.IH [of s1] Cons.prems show ?case by auto
qed simp

end

lemma tl_size_less: "state_size s < 16 \<Longrightarrow> unat (state_size s + 1) = unat (state_size s) + 1"
  by (simp add: word_less_nat_alt unat_word_ariths)

lemma length_tl_stack: "tl_ok s \<Longrightarrow> length (tl_stack s) = unat (state_size s)"
  by (simp add: tl_ok_def tl_stack_def word_le_nat_alt)

lemma tl_Push_ok:
  assumes "tl_ok s" "state_size s < 16"
  shows "\<exists>s'. tl_Push s x = Inr s' \<and> tl_ok s' \<and> tl_stack s' = x # tl_stack s \<and> tl_tries s' = tl_tries s"
proof -
  have n: "unat (state_size s) < length (state_buf s)" using assms by (simp add: tl_ok_def word_less_nat_alt)
  have "state_size s + 1 \<le> 16" using assms(2) by (simp add: word_le_nat_alt tl_size_less word_less_nat_alt)
  with assms n show ?thesis
    by (simp add: tl_Push_def tl_ok_def tl_stack_def tl_size_less take_Suc_conv_app_nth)
qed

lemma tl_Pop_ok:
  assumes "tl_ok s" "tl_stack s = x # xs"
  shows "\<exists>s'. tl_Pop s = Inr (s', x) \<and> tl_ok s' \<and> tl_stack s' = xs \<and> tl_tries s' = tl_tries s"
proof -
  let ?n = "unat (state_size s)"
  have n: "0 < ?n" "?n \<le> 16" using assms length_tl_stack [OF assms(1)] by (auto simp: tl_ok_def word_le_nat_alt)
  then have u: "unat (state_size s - 1) = ?n - 1" by (intro unat_minus_one) auto
  have "take ?n (state_buf s) = take (?n - 1) (state_buf s) @ [state_buf s ! (?n - 1)]"
    using n assms(1) take_Suc_conv_app_nth [of "?n - 1" "state_buf s"] by (simp add: tl_ok_def)
  then have "tl_stack s = state_buf s ! (?n - 1) # rev (take (?n - 1) (state_buf s))" by (simp add: tl_stack_def)
  with assms n u show ?thesis
    by (auto simp: tl_Pop_def tl_ok_def tl_stack_def word_le_nat_alt)
qed

interpretation tl: bounded_stack tl_Push tl_Pop tl_IsEmpty tl_ok tl_stack 16
proof
  fix s :: TlState and x :: page_id and xs
  assume ok: "tl_ok s"
  note len = length_tl_stack [OF ok]
  show "tl_IsEmpty s \<longleftrightarrow> tl_stack s = []"
    unfolding tl_IsEmpty_def using len by (metis length_0_conv unat_0 word_unat_eq_iff)
  show "length (tl_stack s) < 16 \<Longrightarrow> \<exists>s'. tl_Push s x = Inr s' \<and> tl_ok s' \<and> tl_stack s' = x # tl_stack s"
    using tl_Push_ok [OF ok] len by (fastforce simp: word_less_nat_alt)
  show "\<not> length (tl_stack s) < 16 \<Longrightarrow> \<exists>m. tl_Push s x = Inl (AssertFailed m)"
    using len by (simp add: tl_Push_def word_less_nat_alt)
  show "tl_stack s = x # xs \<Longrightarrow> \<exists>s'. tl_Pop s = Inr (s', x) \<and> tl_ok s' \<and> tl_stack s' = xs"
    using tl_Pop_ok [OF ok] by blast
  show "tl_stack s = [] \<Longrightarrow> \<exists>m. tl_Pop s = Inl (AssertFailed m)"
    using len by (simp add: tl_Pop_def word_le_nat_alt)
qed

section \<open>The sequence lock\<close>

text \<open>The shared mutex: one exclusive holder or any number of shared holders.\<close>

record AdaptiveVersionLock =
  seq :: u64
  mtx_writer :: bool
  mtx_readers :: nat

definition lock_init :: AdaptiveVersionLock where
  "lock_init = \<lparr>seq = 0, mtx_writer = False, mtx_readers = 0\<rparr>"

text \<open>\<^verbatim>\<open>None\<close>: the calling thread blocks.\<close>

definition WriteLock :: "AdaptiveVersionLock \<Rightarrow> AdaptiveVersionLock option" where
  "WriteLock l =
     (if mtx_writer l \<or> mtx_readers l > 0 then None
      else Some (l\<lparr>mtx_writer := True, seq := seq l + 1\<rparr>))"

definition WriteUnlock :: "AdaptiveVersionLock \<Rightarrow> AdaptiveVersionLock" where
  "WriteUnlock l = l\<lparr>seq := seq l + 1, mtx_writer := False\<rparr>"

definition ReadLock :: "AdaptiveVersionLock \<Rightarrow> AdaptiveVersionLock option" where
  "ReadLock l = (if mtx_writer l then None else Some (l\<lparr>mtx_readers := mtx_readers l + 1\<rparr>))"

definition ReadUnlock :: "AdaptiveVersionLock \<Rightarrow> AdaptiveVersionLock" where
  "ReadUnlock l = l\<lparr>mtx_readers := mtx_readers l - 1\<rparr>"

definition ReadOptimistic :: "AdaptiveVersionLock \<Rightarrow> u64 \<times> bool" where
  "ReadOptimistic l = (seq l, \<not> odd (seq l))"

definition Validate :: "AdaptiveVersionLock \<Rightarrow> u64 \<Rightarrow> bool" where
  "Validate l version \<longleftrightarrow> seq l = version"

section \<open>Lock modes\<close>

datatype LockMode = LM_None | LM_Optimistic | LM_Read | LM_Write

definition MAX_OPTIMISTIC_TRIES :: u64 where
  "MAX_OPTIMISTIC_TRIES = 1"

definition IncrementTries :: "TlState \<Rightarrow> TlState" where
  "IncrementTries s = s\<lparr>tl_tries := tl_tries s + 1\<rparr>"

function optimistic_loop :: "TlState \<Rightarrow> AdaptiveVersionLock \<Rightarrow> u64 \<Rightarrow> TlState \<times> u64" where
  "optimistic_loop s l ver =
     (if ucast (tl_tries s) < MAX_OPTIMISTIC_TRIES then
        (let (v, readable) = ReadOptimistic l
         in if readable then (s, v) else optimistic_loop (IncrementTries s) l v)
      else (s, ver))"
  by pat_completeness auto
termination
proof (relation "measure (\<lambda>(s, l, ver). 1 - unat (tl_tries s))", simp)
  fix s :: TlState and l :: AdaptiveVersionLock and ver :: u64
  assume "ucast (tl_tries s) < MAX_OPTIMISTIC_TRIES"
  then have "tl_tries s = 0"
    unfolding MAX_OPTIMISTIC_TRIES_def word_less_nat_alt unat_ucast_u32_u64 by (simp add: unat_eq_zero)
  then show "((IncrementTries s, l, x), s, l, ver) \<in> measure (\<lambda>(s, l, ver). 1 - unat (tl_tries s))" for x
    by (simp add: IncrementTries_def)
qed

declare optimistic_loop.simps [simp del]

definition page_Lock :: "LockMode \<Rightarrow> TlState \<Rightarrow> AdaptiveVersionLock \<Rightarrow> (TlState \<times> AdaptiveVersionLock) option" where
  "page_Lock mode s l =
     (case mode of
        LM_Write \<Rightarrow> map_option (Pair s) (WriteLock l)
      | LM_Read \<Rightarrow> map_option (Pair s) (ReadLock l)
      | LM_Optimistic \<Rightarrow>
          (let (s1, ver) = optimistic_loop s l 0;
               s2 = s1\<lparr>tl_version := ver\<rparr>
           in if ucast (tl_tries s2) \<ge> MAX_OPTIMISTIC_TRIES
              then map_option (Pair s2) (ReadLock l) else Some (s2, l))
      | LM_None \<Rightarrow> Some (s, l))"

definition page_Unlock :: "LockMode \<Rightarrow> TlState \<Rightarrow> AdaptiveVersionLock \<Rightarrow> TlState \<times> AdaptiveVersionLock \<times> bool" where
  "page_Unlock mode s l =
     (case mode of
        LM_Write \<Rightarrow> (s, WriteUnlock l, True)
      | LM_Read \<Rightarrow> (s, ReadUnlock l, True)
      | LM_Optimistic \<Rightarrow>
          (if ucast (tl_tries s) \<ge> MAX_OPTIMISTIC_TRIES then (s, ReadUnlock l, True)
           else if \<not> Validate l (tl_version s) then (IncrementTries s, l, False)
           else (s, l, True))
      | LM_None \<Rightarrow> (s, l, True))"

section \<open>Concurrent executions of the sequence lock\<close>

datatype wphase = Idle | HasMutex | Writing | Bumped

record 'd lock_state =
  lk :: AdaptiveVersionLock
  ldata :: 'd
  wpc :: wphase
  increments :: nat

definition bump_seq :: "'d lock_state \<Rightarrow> wphase \<Rightarrow> 'd lock_state" where
  "bump_seq s p = s\<lparr>lk := (lk s)\<lparr>seq := seq (lk s) + 1\<rparr>, wpc := p, increments := increments s + 1\<rparr>"

text \<open>The atomic actions of the lock operations, interleaved in any order. The exclusive holder runs
  \<^verbatim>\<open>WriteLock\<close> (mutex, then increment), writes the data, and runs \<^verbatim>\<open>WriteUnlock\<close> (increment, then mutex).\<close>

inductive lock_step :: "'d lock_state \<Rightarrow> 'd lock_state \<Rightarrow> bool" where
  wl_mutex: "\<not> mtx_writer (lk s) \<Longrightarrow> mtx_readers (lk s) = 0 \<Longrightarrow> wpc s = Idle \<Longrightarrow>
    lock_step s (s\<lparr>lk := (lk s)\<lparr>mtx_writer := True\<rparr>, wpc := HasMutex\<rparr>)"
| wl_bump: "wpc s = HasMutex \<Longrightarrow> lock_step s (bump_seq s Writing)"
| w_write: "wpc s = Writing \<Longrightarrow> lock_step s (s\<lparr>ldata := d\<rparr>)"
| wu_bump: "wpc s = Writing \<Longrightarrow> lock_step s (bump_seq s Bumped)"
| wu_mutex: "wpc s = Bumped \<Longrightarrow> lock_step s (s\<lparr>lk := (lk s)\<lparr>mtx_writer := False\<rparr>, wpc := Idle\<rparr>)"
| rl: "ReadLock (lk s) = Some l \<Longrightarrow> lock_step s (s\<lparr>lk := l\<rparr>)"
| ru: "mtx_readers (lk s) > 0 \<Longrightarrow> lock_step s (s\<lparr>lk := ReadUnlock (lk s)\<rparr>)"

definition lock_start :: "'d \<Rightarrow> 'd lock_state" where
  "lock_start d = \<lparr>lk = lock_init, ldata = d, wpc = Idle, increments = 0\<rparr>"

definition lock_inv :: "'d lock_state \<Rightarrow> bool" where
  "lock_inv s \<longleftrightarrow> seq (lk s) = word_of_nat (increments s) \<and> (odd (increments s) \<longleftrightarrow> wpc s = Writing) \<and>
     (mtx_writer (lk s) \<longleftrightarrow> wpc s \<noteq> Idle) \<and> (mtx_writer (lk s) \<longrightarrow> mtx_readers (lk s) = 0)"

inductive_simps lock_step_iff: "lock_step s s'"

lemma lock_step_inv: "lock_step s s' \<Longrightarrow> lock_inv s \<Longrightarrow> lock_inv s'"
  by (induction rule: lock_step.induct)
    (auto simp: lock_inv_def bump_seq_def ReadLock_def ReadUnlock_def add.commute split: if_splits)

lemma lock_start_inv: "lock_inv (lock_start d)"
  by (simp add: lock_inv_def lock_start_def lock_init_def)

lemma lock_step_mono: "lock_step s s' \<Longrightarrow> increments s \<le> increments s'"
  by (induction rule: lock_step.induct) (auto simp: bump_seq_def)

lemma lock_steps_mono: "lock_step\<^sup>*\<^sup>* s s' \<Longrightarrow> increments s \<le> increments s'"
  by (induction rule: rtranclp_induct) (auto dest: lock_step_mono)

lemma lock_steps_inv: "lock_step\<^sup>*\<^sup>* s s' \<Longrightarrow> lock_inv s \<Longrightarrow> lock_inv s'"
  by (induction rule: rtranclp_induct) (auto intro: lock_step_inv)

lemma lock_step_data:
  "lock_step s s' \<Longrightarrow> lock_inv s \<Longrightarrow> even (increments s) \<Longrightarrow> ldata s' = ldata s"
  by (induction rule: lock_step.induct) (auto simp: bump_seq_def lock_inv_def)

lemma lock_steps_data:
  assumes "lock_step\<^sup>*\<^sup>* s s'" "lock_inv s" "even (increments s)" "increments s' = increments s"
  shows "ldata s' = ldata s"
  using assms
proof (induction rule: rtranclp_induct)
  case (step t u)
  have "increments t = increments s"
    using lock_steps_mono [OF step.hyps(1)] lock_step_mono [OF step.hyps(2)] step.prems(3) by simp
  with step lock_steps_inv [OF step.hyps(1)] lock_step_data [OF step.hyps(2)] show ?case by simp
qed simp

lemma seq_determines_increments:
  assumes "word_of_nat m = (word_of_nat n :: u64)" "m \<le> n" "n - m < 2 ^ 64"
  shows "m = n"
proof -
  have "(word_of_nat (n - m) :: u64) = 0" using assms by (simp add: of_nat_diff)
  then have "2 ^ 64 dvd n - m" by (simp add: word_of_nat_eq_0_iff)
  with assms(2,3) show ?thesis by (metis diff_is_0_eq dvd_imp_le le_antisym neq0_conv not_less)
qed

lemma even_word64_iff: "even (word_of_nat n :: u64) \<longleftrightarrow> even n"
  by (simp add: word_of_nat_eq_iff even_word_iff)

end
