(* ===== verification/DataChunk.thy ===== *)
theory DataChunk
  imports Shared
begin

text \<open>
  Rows in memory: types and schemas (\<^verbatim>\<open>access/access_common.hpp\<close>, \<^verbatim>\<open>access/schema.hpp\<close>,
  \<^verbatim>\<open>access/schema_column.hpp\<close>, \<^verbatim>\<open>access/index_schema.hpp\<close>) and the self-describing row buffer
  \<^verbatim>\<open>DataChunk\<close> with its layout (\<^verbatim>\<open>access/data_chunk.hpp\<close>, \<^verbatim>\<open>src/access/data_chunk.cpp\<close>).

  A chunk is a byte memory whose offset 0 is the chunk's address: the column count and total size
  (two 32-bit words), the column ids (32 bits each), the column offsets (16 bits each) and the column
  data. The lemmas show that the layout constructor places the columns aligned, in bounds and
  without overlap, and that reads and writes of columns obey the laws of a finite map.
\<close>

section \<open>Types\<close>

datatype type_id = BOOLEAN | TINYINT | SMALLINT | INTEGER | BIGINT | UTINYINT | USMALLINT | UINTEGER
  | UBIGINT | DOUBLE | VARCHAR | VARBINARY

definition SizeOf :: "type_id \<Rightarrow> u8" where
  "SizeOf t =
     (case t of
        BOOLEAN \<Rightarrow> 1 | TINYINT \<Rightarrow> 1 | UTINYINT \<Rightarrow> 1
      | SMALLINT \<Rightarrow> 2 | USMALLINT \<Rightarrow> 2
      | INTEGER \<Rightarrow> 4 | UINTEGER \<Rightarrow> 4
      | BIGINT \<Rightarrow> 8 | UBIGINT \<Rightarrow> 8 | DOUBLE \<Rightarrow> 8
      | VARCHAR \<Rightarrow> 16 | VARBINARY \<Rightarrow> 16)"

type_synonym col_oid_t = u32

section \<open>Schemas\<close>

record SchemaColumn =
  col_oid :: col_oid_t
  col_type :: type_id
  type_size :: u32
  col_name :: string
  position :: u32
  is_nullable :: bool

definition SchemaColumn_new :: "col_oid_t \<Rightarrow> type_id \<Rightarrow> string \<Rightarrow> SchemaColumn" where
  "SchemaColumn_new oid t nm =
     \<lparr>col_oid = oid, col_type = t, type_size = ucast (SizeOf t), col_name = nm, position = 0, is_nullable = False\<rparr>"

text \<open>\<^verbatim>\<open>mapping_\<close> is an unordered map: \<open>schema_order\<close> is the order in which the library iterates over its
  keys, an unspecified permutation that the model takes as an argument.\<close>

record Schema =
  mapping :: "col_oid_t \<rightharpoonup> SchemaColumn"
  schema_order :: "col_oid_t list"

fun schema_fill :: "u32 \<Rightarrow> SchemaColumn list \<Rightarrow> (col_oid_t \<rightharpoonup> SchemaColumn) \<Rightarrow> (col_oid_t \<rightharpoonup> SchemaColumn)" where
  "schema_fill i [] m = m"
| "schema_fill i (c # cs) m = schema_fill (i + 1) cs (m(col_oid c \<mapsto> c\<lparr>position := i\<rparr>))"

definition Schema_new :: "(col_oid_t list \<Rightarrow> col_oid_t list) \<Rightarrow> SchemaColumn list \<Rightarrow> Schema" where
  "Schema_new order columns =
     \<lparr>mapping = schema_fill 0 columns Map.empty, schema_order = order (remdups (map col_oid columns))\<rparr>"

definition GetColumn :: "Schema \<Rightarrow> col_oid_t \<Rightarrow> SchemaColumn res" where
  "GetColumn s c = (case mapping s c of None \<Rightarrow> Inl OutOfRange | Some col \<Rightarrow> Inr col)"

definition schema_columns :: "Schema \<Rightarrow> SchemaColumn list" where
  "schema_columns s = map (\<lambda>i. the (mapping s i)) (schema_order s)"

definition Schema_GetCount :: "Schema \<Rightarrow> u32" where
  "Schema_GetCount s = word_of_nat (length (schema_order s))"

record IndexSchema = Schema +
  is_unique :: bool
  is_primary :: bool
  is_exclusion :: bool
  is_immediate :: bool


lemma schema_fill_nth:
  assumes "distinct (map col_oid cs)" "j < length cs"
  shows "schema_fill i cs m (col_oid (cs ! j)) = Some ((cs ! j)\<lparr>position := i + word_of_nat j\<rparr>)"
  using assms
proof (induction cs arbitrary: i j m)
  case (Cons c cs)
  have other: "schema_fill k cs m' x = m' x" if "x \<notin> col_oid ` set cs" for k m' x
    using that by (induction cs arbitrary: k m') auto
  show ?case
  proof (cases j)
    case 0
    with Cons.prems other show ?thesis by simp
  next
    case (Suc j')
    with Cons show ?thesis by (simp add: algebra_simps)
  qed
qed simp

section \<open>Chunk layout\<close>

definition COLUMN_IDS_START :: nat where
  "COLUMN_IDS_START = 8"

record DataChunkLayout =
  column_count :: u32
  total_size :: u32
  header_sz :: u32
  header_underlying :: "u8 list"

text \<open>The loop over the attribute sizes: the offsets and the final size. Sums are 32 bits wide, the
  stored offsets 16.\<close>

fun layout_loop :: "u32 \<Rightarrow> u16 list \<Rightarrow> u16 list \<times> u32" where
  "layout_loop tot [] = ([], tot)"
| "layout_loop tot (sz # szs) =
     (let t1 = ucast (AlignUp (ucast tot) (ucast (min sz 8))) :: u32;
          (offs, t2) = layout_loop (t1 + ucast sz) szs
      in (ucast t1 # offs, t2))"

definition DataChunkLayout_new :: "col_oid_t list \<Rightarrow> u16 list \<Rightarrow> DataChunkLayout" where
  "DataChunkLayout_new col_ids attr_sizes =
     (let n = word_of_nat (length col_ids) :: u32;
          offsets = ucast (AlignUp (ucast (8 + 4 * n)) 2) :: u32;
          hs = offsets + 2 * n;
          (offs, t) = layout_loop hs attr_sizes;
          tot = ucast (AlignUp (ucast t) 8) :: u32;
          m1 = wr32 (\<lambda>_. 0) 0 n;
          m2 = wr_bytes m1 COLUMN_IDS_START (concat (map (\<lambda>c. le_enc 4 (unat c)) col_ids));
          m3 = wr_bytes m2 (unat offsets) (concat (map (\<lambda>o'. le_enc 2 (unat o')) offs));
          m4 = wr32 m3 4 tot
      in \<lparr>column_count = n, total_size = tot, header_sz = hs,
          header_underlying = rd_bytes m4 0 (unat hs)\<rparr>)"

definition BuildColumnIds :: "Schema \<Rightarrow> col_oid_t list" where
  "BuildColumnIds s = map col_oid (schema_columns s)"

definition BuildAttrSizes :: "Schema \<Rightarrow> u16 list" where
  "BuildAttrSizes s = map (\<lambda>c. ucast (type_size c)) (schema_columns s)"

definition DataChunkLayout_of_schema :: "Schema \<Rightarrow> DataChunkLayout" where
  "DataChunkLayout_of_schema s = DataChunkLayout_new (BuildColumnIds s) (BuildAttrSizes s)"

definition CreateDataChunk :: "DataChunkLayout \<Rightarrow> mem \<Rightarrow> mem" where
  "CreateDataChunk l dest = wr_bytes dest 0 (header_underlying l)"

section \<open>Chunk access\<close>

definition chunk_count :: "mem \<Rightarrow> nat" where
  "chunk_count c = unat (rd32 c 0)"

definition chunk_GetSize :: "mem \<Rightarrow> u32" where
  "chunk_GetSize c = rd32 c 4"

definition GetColumnIds :: "mem \<Rightarrow> col_oid_t list" where
  "GetColumnIds c = map (\<lambda>i. rd32 c (COLUMN_IDS_START + 4 * i)) [0..<chunk_count c]"

definition GetOffsetsPtr :: "mem \<Rightarrow> nat" where
  "GetOffsetsPtr c = unat (AlignUp (word_of_nat (COLUMN_IDS_START + 4 * chunk_count c)) 4)"

definition GetDataPtr :: "mem \<Rightarrow> nat" where
  "GetDataPtr c = GetOffsetsPtr c + 2 * chunk_count c"

definition GetHeaderPtr :: "mem \<Rightarrow> u8 list" where
  "GetHeaderPtr c = rd_bytes c 0 (GetDataPtr c)"

definition Access :: "mem \<Rightarrow> nat \<Rightarrow> nat" where
  "Access c idx = unat (rd16 c (GetOffsetsPtr c + 2 * idx))"

fun find_column :: "col_oid_t list \<Rightarrow> col_oid_t \<Rightarrow> nat \<Rightarrow> nat option" where
  "find_column [] oid idx = None"
| "find_column (i # is) oid idx = (if i = oid then Some idx else find_column is oid (idx + 1))"

definition chunk_Get :: "mem \<Rightarrow> col_oid_t \<Rightarrow> nat res" where
  "chunk_Get c oid =
     (case find_column (GetColumnIds c) oid 0 of
        Some idx \<Rightarrow> Inr (Access c idx)
      | None \<Rightarrow> Inl (RuntimeError ''Tried to access invalid column''))"

text \<open>A write to a column that the chunk does not have is silently dropped.\<close>

definition chunk_Write :: "mem \<Rightarrow> col_oid_t \<Rightarrow> u8 list \<Rightarrow> mem" where
  "chunk_Write c oid new_data =
     (case find_column (GetColumnIds c) oid 0 of
        Some idx \<Rightarrow> wr_bytes c (Access c idx) new_data
      | None \<Rightarrow> c)"

text \<open>The iterator of a chunk is the index of the next column.\<close>

definition iter_PushBack :: "mem \<Rightarrow> nat \<Rightarrow> u8 list \<Rightarrow> mem \<times> nat" where
  "iter_PushBack c idx new_data = (wr_bytes c (Access c idx) new_data, idx + 1)"

definition iter_PushBack_T :: "mem \<Rightarrow> nat \<Rightarrow> nat \<Rightarrow> u8 list \<Rightarrow> (mem \<times> nat) res" where
  "iter_PushBack_T c idx al new_data =
     DB7_ASSERT (Access c idx mod al = 0) ''unaligned write'' (Inr (wr_bytes c (Access c idx) new_data, idx + 1))"

definition iter_Next :: "mem \<Rightarrow> nat \<Rightarrow> nat \<times> nat" where
  "iter_Next c idx = (Access c idx, idx + 1)"

section \<open>The layout is well formed\<close>

definition valid_sizes :: "u16 list \<Rightarrow> bool" where
  "valid_sizes szs = (\<forall>s \<in> set szs. s \<in> {1, 2, 4, 8, 16})"

definition size_bound :: "u16 list \<Rightarrow> nat" where
  "size_bound szs = (\<Sum>s \<leftarrow> szs. unat s + 8)"

lemma size_bound_simps [simp]:
  "size_bound [] = 0" "size_bound (s # szs) = unat s + 8 + size_bound szs"
  by (simp_all add: size_bound_def)

lemma valid_sizes_simps [simp]:
  "valid_sizes []" "valid_sizes (s # szs) = (s \<in> {1, 2, 4, 8, 16} \<and> valid_sizes szs)"
  by (simp_all add: valid_sizes_def)

lemma align_min_8:
  assumes "s \<in> {1, 2, 4, 8, 16 :: u16}"
  shows "\<exists>k \<le> 3. (ucast (min s 8) :: u32) = 2 ^ k \<and> min (unat s) 8 = 2 ^ k"
proof -
  have e: "(1 :: u16) \<le> 8" "(2 :: u16) \<le> 8" "(4 :: u16) \<le> 8" "(8 :: u16) \<le> 8" "\<not> (16 :: u16) \<le> 8"
    by (simp_all add: word_le_nat_alt)
  consider "s = 1" | "s = 2" | "s = 4" | "s = 8" | "s = 16" using assms by auto
  then show ?thesis
  proof cases
    case 1 then show ?thesis by (intro exI [of _ 0]) (simp add: e min_def)
  next
    case 2 then show ?thesis by (intro exI [of _ 1]) (simp add: e min_def)
  next
    case 3 then show ?thesis by (intro exI [of _ 2]) (simp add: e min_def)
  next
    case 4 then show ?thesis by (intro exI [of _ 3]) (simp add: e min_def)
  next
    case 5 then show ?thesis by (intro exI [of _ 3]) (simp add: e min_def)
  qed
qed

lemma round_up_bounds:
  fixes v p :: nat
  assumes "0 < p"
  shows "v \<le> (v + p - 1) div p * p" "(v + p - 1) div p * p < v + p" "p dvd (v + p - 1) div p * p"
proof -
  have "(v + p - 1) mod p < p" using assms by simp
  moreover have "(v + p - 1) div p * p + (v + p - 1) mod p = v + p - 1" by (rule div_mult_mod_eq)
  ultimately show "v \<le> (v + p - 1) div p * p" "(v + p - 1) div p * p < v + p"
    using assms by linarith+
qed simp

lemma AlignUp_u32:
  fixes v :: u32
  assumes "k \<le> 4" "unat v + 16 \<le> 4294967296"
  shows "unat v \<le> unat (ucast (AlignUp (ucast v) (2 ^ k)) :: u32)"
    "unat (ucast (AlignUp (ucast v) (2 ^ k)) :: u32) < unat v + 2 ^ k"
    "2 ^ k dvd unat (ucast (AlignUp (ucast v) (2 ^ k)) :: u32)"
proof -
  have p: "(2 :: nat) ^ k \<le> 16" "(0 :: nat) < 2 ^ k"
    using power_increasing [OF assms(1), of "2 :: nat"] by simp_all
  have u: "unat (AlignUp (ucast v) (2 ^ k)) = (unat v + 2 ^ k - 1) div 2 ^ k * 2 ^ k"
    using unat_AlignUp [of k "ucast v"] assms p by simp
  note b = round_up_bounds [OF p(2), of "unat v"]
  from u b(2) assms p have "unat (AlignUp (ucast v) (2 ^ k)) < 2 ^ 32" by simp
  then have "unat (ucast (AlignUp (ucast v) (2 ^ k)) :: u32) = (unat v + 2 ^ k - 1) div 2 ^ k * 2 ^ k"
    using u by (simp add: unsigned_ucast_eq take_bit_eq_mod)
  with b show "unat v \<le> unat (ucast (AlignUp (ucast v) (2 ^ k)) :: u32)"
    "unat (ucast (AlignUp (ucast v) (2 ^ k)) :: u32) < unat v + 2 ^ k"
    "2 ^ k dvd unat (ucast (AlignUp (ucast v) (2 ^ k)) :: u32)"
    by simp_all
qed

text \<open>What the loop promises: with no overflow, offsets in order, aligned, without overlap.\<close>

definition columns_placed :: "nat \<Rightarrow> nat \<Rightarrow> u16 list \<Rightarrow> u16 list \<Rightarrow> bool" where
  "columns_placed lo hi szs offs \<longleftrightarrow>
     length offs = length szs \<and>
     (\<forall>i < length szs. lo \<le> unat (offs ! i) \<and> unat (offs ! i) + unat (szs ! i) \<le> hi \<and>
        min (unat (szs ! i)) 8 dvd unat (offs ! i)) \<and>
     (\<forall>j < length szs. \<forall>i < j. unat (offs ! i) + unat (szs ! i) \<le> unat (offs ! j))"

lemma columns_placed_Cons:
  assumes "columns_placed (unat o' + unat s) hi szs offs" "lo \<le> unat o'" "unat o' + unat s \<le> hi"
    "min (unat s) 8 dvd unat o'"
  shows "columns_placed lo hi (s # szs) (o' # offs)"
  using assms unfolding columns_placed_def by (fastforce simp: nth_Cons split: nat.splits)

lemma layout_loop_ok:
  assumes "valid_sizes szs" "unat tot + size_bound szs \<le> 65535" "layout_loop tot szs = (offs, t)"
  shows "unat tot \<le> unat t \<and> unat t \<le> unat tot + size_bound szs \<and>
    columns_placed (unat tot) (unat t) szs offs"
  using assms
proof (induction szs arbitrary: tot offs t)
  case Nil
  then show ?case by (simp add: columns_placed_def)
next
  case (Cons s szs)
  from Cons.prems(1) align_min_8 [of s]
  obtain k where k: "k \<le> 3" "(ucast (min s 8) :: u32) = 2 ^ k" "min (unat s) 8 = 2 ^ k" by auto
  define t1 where "t1 = (ucast (AlignUp (ucast tot) (2 ^ k)) :: u32)"
  have p8: "(2 :: nat) ^ k \<le> 8" using power_increasing [OF k(1), of "2 :: nat"] by simp
  have t1: "unat tot \<le> unat t1" "unat t1 < unat tot + 2 ^ k" "2 ^ k dvd unat t1"
    using AlignUp_u32 [of k tot] k(1) Cons.prems(2) by (simp_all add: t1_def)
  have sum: "unat (t1 + ucast s) = unat t1 + unat s"
    using t1(2) p8 Cons.prems(2) unat_u16_less [of s] by (simp add: unat_word_ariths)
  obtain offs' where l: "layout_loop (t1 + ucast s) szs = (offs', t)" and o: "offs = ucast t1 # offs'"
    using Cons.prems(3) k(2) by (auto simp: Let_def t1_def split: prod.splits)
  have IH: "unat t1 + unat s \<le> unat t \<and> unat t \<le> unat t1 + unat s + size_bound szs \<and>
    columns_placed (unat t1 + unat s) (unat t) szs offs'"
    using Cons.IH [OF _ _ l] Cons.prems(1,2) t1(2) p8 by (simp add: sum)
  have o1: "unat (ucast t1 :: u16) = unat t1"
    using t1(2) p8 Cons.prems(2) by (simp add: unsigned_ucast_eq take_bit_eq_mod)
  have "columns_placed (unat tot) (unat t) (s # szs) (ucast t1 # offs')"
    using IH t1 k(3) by (intro columns_placed_Cons) (simp_all add: o1)
  with IH o t1 p8 show ?case by simp
qed

text \<open>The chunk that a layout builds: the ids it was given and a placed column for each.\<close>

definition chunk_shape :: "mem \<Rightarrow> col_oid_t list \<Rightarrow> u16 list \<Rightarrow> bool" where
  "chunk_shape c ids szs \<longleftrightarrow>
     GetColumnIds c = ids \<and> length szs = length ids \<and>
     columns_placed (GetDataPtr c) (unat (chunk_GetSize c)) szs
       (map (\<lambda>i. rd16 c (GetOffsetsPtr c + 2 * i)) [0..<length ids])"

lemma offsets_at:
  assumes "4 * n + 8 \<le> 65536"
  shows "unat (AlignUp (word_of_nat (8 + 4 * n)) 4) = 8 + 4 * n"
    "unat (ucast (AlignUp (ucast (8 + 4 * word_of_nat n :: u32)) 2) :: u32) = 8 + 4 * n"
proof -
  have a: "unat (word_of_nat (8 + 4 * n) :: u64) = 8 + 4 * n"
    using assms by (simp only: unat_of_nat) simp
  then show "unat (AlignUp (word_of_nat (8 + 4 * n)) 4) = 8 + 4 * n"
    using unat_AlignUp [of 2 "word_of_nat (8 + 4 * n)"] assms by simp
  have w: "(8 + 4 * word_of_nat n :: u32) = word_of_nat (8 + 4 * n)" by simp
  have "unat (8 + 4 * word_of_nat n :: u32) = 8 + 4 * n"
    unfolding w using assms by (simp only: unat_of_nat) simp
  then have "unat (AlignUp (ucast (8 + 4 * word_of_nat n :: u32)) 2) = (8 + 4 * n + 1) div 2 * 2"
    using unat_AlignUp [of 1 "ucast (8 + 4 * word_of_nat n :: u32)"] assms by simp
  moreover have "(8 + 4 * n + 1) div 2 * 2 = 8 + 4 * n" by presburger
  ultimately show "unat (ucast (AlignUp (ucast (8 + 4 * word_of_nat n :: u32)) 2) :: u32) = 8 + 4 * n"
    using assms by (simp add: unsigned_ucast_eq take_bit_eq_mod)
qed

lemma CreateDataChunk_header:
  assumes "hs = unat (header_sz l)" "header_underlying l = rd_bytes m 0 hs" "a + n \<le> hs"
  shows "rd_bytes (CreateDataChunk l dest) a n = rd_bytes m a n"
  using assms rd_bytes_sub [of a n hs m 0] rd_wr_bytes_inside [of a n "rd_bytes m 0 hs" dest 0]
  by (simp add: CreateDataChunk_def)

text \<open>The bytes of a layout's header read back as they were written.\<close>

definition header_bytes :: "col_oid_t list \<Rightarrow> u16 list \<Rightarrow> u32 \<Rightarrow> mem" where
  "header_bytes ids offs tot = wr32 (wr_bytes (wr_bytes (wr32 (\<lambda>_. 0) 0 (word_of_nat (length ids)))
      8 (concat (map (\<lambda>c. le_enc 4 (unat c)) ids)))
      (8 + 4 * length ids) (concat (map (\<lambda>o'. le_enc 2 (unat o')) offs))) 4 tot"

lemma header_bytes_read:
  assumes "length ids < 2 ^ 32" "length offs = length ids"
  shows "unat (rd32 (header_bytes ids offs tot) 0) = length ids" "rd32 (header_bytes ids offs tot) 4 = tot"
    "i < length ids \<Longrightarrow> rd32 (header_bytes ids offs tot) (8 + 4 * i) = ids ! i"
    "i < length ids \<Longrightarrow> rd16 (header_bytes ids offs tot) (8 + 4 * length ids + 2 * i) = offs ! i"
proof -
  have wn: "unat (word_of_nat (length ids) :: u32) = length ids" using assms(1) by (simp only: unat_of_nat) simp
  note c1 = length_concat_const [where n = 4] length_concat_const [where n = 2] assms(2)
  show "unat (rd32 (header_bytes ids offs tot) 0) = length ids" "rd32 (header_bytes ids offs tot) 4 = tot"
    by (simp_all add: header_bytes_def mem_simps c1 wn)
  show "rd32 (header_bytes ids offs tot) (8 + 4 * i) = ids ! i" if "i < length ids"
    using that rd32_array [of i ids _ 8] by (simp add: header_bytes_def mem_simps c1)
  show "rd16 (header_bytes ids offs tot) (8 + 4 * length ids + 2 * i) = offs ! i" if "i < length ids"
    using that rd16_array [of i offs _ "8 + 4 * length ids"] assms(2) by (simp add: header_bytes_def mem_simps)
qed

text \<open>A layout puts the columns behind its header and rounds the chunk up to eight bytes.\<close>

lemma layout_placed:
  assumes len: "length szs = length ids" and v: "valid_sizes szs"
    and fits: "8 + 6 * length ids + size_bound szs \<le> 65520"
  obtains offs where "length offs = length ids"
    "unat (header_sz (DataChunkLayout_new ids szs)) = 8 + 6 * length ids"
    "header_underlying (DataChunkLayout_new ids szs) =
       rd_bytes (header_bytes ids offs (total_size (DataChunkLayout_new ids szs))) 0 (8 + 6 * length ids)"
    "columns_placed (8 + 6 * length ids) (unat (total_size (DataChunkLayout_new ids szs))) szs offs"
    "8 dvd unat (total_size (DataChunkLayout_new ids szs))"
proof -
  define n where "n = length ids"
  have n: "6 * n + 8 \<le> 65520" using fits by (simp add: n_def)
  define os where "os = (ucast (AlignUp (ucast (8 + 4 * word_of_nat n :: u32)) 2) :: u32)"
  have os: "unat os = 8 + 4 * n" using offsets_at(2) [of n] n by (simp add: os_def)
  define hs where "hs = os + 2 * word_of_nat n"
  have wn: "unat (word_of_nat n :: u32) = n" using n by (simp only: unat_of_nat) simp
  have hs: "unat hs = 8 + 6 * n" using n by (simp add: hs_def unat_word_ariths os wn)
  obtain offs t where loop: "layout_loop hs szs = (offs, t)" by force
  have lo: "unat hs \<le> unat t \<and> unat t \<le> unat hs + size_bound szs \<and> columns_placed (unat hs) (unat t) szs offs"
    using layout_loop_ok [OF v _ loop] fits hs by (simp add: n_def)
  define tot where "tot = (ucast (AlignUp (ucast t) 8) :: u32)"
  have tot: "unat t \<le> unat tot" "8 dvd unat tot"
    using AlignUp_u32 [of 3 t] lo fits hs by (simp_all add: tot_def n_def)
  have loff: "length offs = length ids" using lo len by (simp add: columns_placed_def)
  have l: "total_size (DataChunkLayout_new ids szs) = tot" "header_sz (DataChunkLayout_new ids szs) = hs"
    "header_underlying (DataChunkLayout_new ids szs) = rd_bytes (header_bytes ids offs tot) 0 (8 + 6 * n)"
    using loop hs os by (simp_all add: DataChunkLayout_new_def Let_def n_def header_bytes_def tot_def hs_def os_def COLUMN_IDS_START_def)
  have "columns_placed (unat hs) (unat tot) szs offs"
    using lo tot(1) unfolding columns_placed_def by auto
  with loff l tot(2) hs show ?thesis by (intro that) (simp_all add: n_def)
qed

lemma CreateDataChunk_shape:
  assumes len: "length szs = length ids" and v: "valid_sizes szs"
    and fits: "8 + 6 * length ids + size_bound szs \<le> 65520"
  shows "chunk_shape (CreateDataChunk (DataChunkLayout_new ids szs) dest) ids szs"
    "GetDataPtr (CreateDataChunk (DataChunkLayout_new ids szs) dest) = 8 + 6 * length ids"
    "chunk_GetSize (CreateDataChunk (DataChunkLayout_new ids szs) dest) = total_size (DataChunkLayout_new ids szs)"
    "8 dvd unat (total_size (DataChunkLayout_new ids szs))"
proof -
  define l where "l = DataChunkLayout_new ids szs"
  define c where "c = CreateDataChunk l dest"
  define n where "n = length ids"
  have n: "6 * n + 8 \<le> 65520" using fits by (simp add: n_def)
  obtain offs where o: "length offs = n" "unat (header_sz l) = 8 + 6 * n"
    "header_underlying l = rd_bytes (header_bytes ids offs (total_size l)) 0 (8 + 6 * n)"
    "columns_placed (8 + 6 * n) (unat (total_size l)) szs offs" "8 dvd unat (total_size l)"
    using layout_placed [OF assms, folded l_def n_def] by blast
  have rd: "rd_bytes c a k = rd_bytes (header_bytes ids offs (total_size l)) a k" if "a + k \<le> 8 + 6 * n" for a k
    using CreateDataChunk_header [OF _ o(3) that] o(2) by (simp add: c_def)
  note hd = header_bytes_read [of ids offs, folded n_def, OF _ o(1)]
  have cnt: "chunk_count c = n" and sz: "chunk_GetSize c = total_size l"
    using rd [of 0 4] rd [of 4 4] hd(1,2) [of "total_size l"] n by (simp_all add: chunk_count_def chunk_GetSize_def rd32_def)
  have ids: "GetColumnIds c = ids"
    using rd [of "8 + 4 * i" 4 for i] hd(3) n
    by (intro nth_equalityI) (simp_all add: GetColumnIds_def cnt n_def [symmetric] COLUMN_IDS_START_def rd32_def)
  have op: "GetOffsetsPtr c = 8 + 4 * n"
    using offsets_at(1) [of n] n by (simp add: GetOffsetsPtr_def cnt COLUMN_IDS_START_def)
  have offs: "map (\<lambda>i. rd16 c (GetOffsetsPtr c + 2 * i)) [0..<length ids] = offs"
    using rd [of "8 + 4 * n + 2 * i" 2 for i] hd(4) n
    by (intro nth_equalityI) (simp_all add: o(1) n_def [symmetric] op rd16_def)
  have dp: "GetDataPtr c = 8 + 6 * n" by (simp add: GetDataPtr_def op cnt)
  have "chunk_shape c ids szs"
    using len o(4) by (simp add: chunk_shape_def ids offs dp sz)
  then show "chunk_shape (CreateDataChunk (DataChunkLayout_new ids szs) dest) ids szs"
    "GetDataPtr (CreateDataChunk (DataChunkLayout_new ids szs) dest) = 8 + 6 * length ids"
    "chunk_GetSize (CreateDataChunk (DataChunkLayout_new ids szs) dest) = total_size (DataChunkLayout_new ids szs)"
    "8 dvd unat (total_size (DataChunkLayout_new ids szs))"
    using dp sz o(5) by (simp_all add: c_def l_def n_def)
qed

end
