(* ===== verification/ChunkRows.thy ===== *)
theory ChunkRows
  imports DataChunk
begin

text \<open>
  The contents of a chunk as a finite map from column ids to the bytes of the column, and the laws of
  \<^verbatim>\<open>Get\<close>, \<^verbatim>\<open>Write\<close> and of the iterators over it.
\<close>

lemma GetOffsetsPtr_eq: "GetOffsetsPtr c = 8 + 4 * chunk_count c"
proof -
  have n: "chunk_count c < 4294967296"
    using unat_u32_less [of "rd32 c 0"] by (simp add: chunk_count_def)
  have "unat (word_of_nat (8 + 4 * chunk_count c) :: u64) = 8 + 4 * chunk_count c"
    using n by (simp only: unat_of_nat) simp
  then show ?thesis
    using unat_AlignUp [of 2 "word_of_nat (8 + 4 * chunk_count c)"] n
    by (simp add: GetOffsetsPtr_def COLUMN_IDS_START_def)
qed

lemma GetDataPtr_eq: "GetDataPtr c = 8 + 6 * chunk_count c"
  by (simp add: GetDataPtr_def GetOffsetsPtr_eq)

lemma length_GetColumnIds [simp]: "length (GetColumnIds c) = chunk_count c"
  by (simp add: GetColumnIds_def)

lemma chunk_header_cong:
  assumes "\<And>a. a < GetDataPtr c \<Longrightarrow> c' a = c a"
  shows "chunk_count c' = chunk_count c" "GetColumnIds c' = GetColumnIds c" "chunk_GetSize c' = chunk_GetSize c"
    "GetOffsetsPtr c' = GetOffsetsPtr c" "GetDataPtr c' = GetDataPtr c"
    "i < chunk_count c \<Longrightarrow> Access c' i = Access c i"
proof -
  have rd: "rd_bytes c' a k = rd_bytes c a k" if "a + k \<le> 8 + 6 * chunk_count c" for a k
    using that assms by (intro rd_bytes_cong) (simp add: GetDataPtr_eq)
  show n: "chunk_count c' = chunk_count c" by (simp add: chunk_count_def rd32_def rd)
  show "GetColumnIds c' = GetColumnIds c"
    unfolding GetColumnIds_def n by (rule map_cong) (simp_all add: rd32_def rd COLUMN_IDS_START_def)
  show "chunk_GetSize c' = chunk_GetSize c" by (simp add: chunk_GetSize_def rd32_def rd)
  show o: "GetOffsetsPtr c' = GetOffsetsPtr c" "GetDataPtr c' = GetDataPtr c"
    by (simp_all add: GetOffsetsPtr_eq GetDataPtr_eq n)
  show "i < chunk_count c \<Longrightarrow> Access c' i = Access c i"
    by (simp add: Access_def o(1)) (simp add: GetOffsetsPtr_eq rd16_def rd)
qed

section \<open>Finding a column\<close>

lemma find_column_None: "find_column ids oid k = None \<longleftrightarrow> oid \<notin> set ids"
  by (induction ids arbitrary: k) auto

lemma find_column_ex: "oid \<in> set ids \<Longrightarrow> \<exists>i. find_column ids oid k = Some i"
  using find_column_None [of ids oid k] by auto

lemma find_column_Some:
  "find_column ids oid k = Some i \<Longrightarrow> k \<le> i \<and> i < k + length ids \<and> ids ! (i - k) = oid"
proof (induction ids arbitrary: k)
  case (Cons x xs)
  show ?case
  proof (cases "x = oid")
    case False
    with Cons.prems have "find_column xs oid (k + 1) = Some i" by simp
    from Cons.IH [OF this] show ?thesis by (simp add: nth_Cons')
  qed (use Cons.prems in auto)
qed simp

lemma find_column_nth:
  "distinct ids \<Longrightarrow> j < length ids \<Longrightarrow> find_column ids (ids ! j) k = Some (k + j)"
proof (induction ids arbitrary: k j)
  case (Cons x xs)
  then show ?case by (cases j) auto
qed simp

section \<open>Rows\<close>

text \<open>\<open>sz\<close> gives the width of each column; \<open>chunk_ok\<close> says that the chunk has the columns of a layout
  with these widths.\<close>

definition chunk_ok :: "(col_oid_t \<Rightarrow> u16) \<Rightarrow> mem \<Rightarrow> bool" where
  "chunk_ok sz c = chunk_shape c (GetColumnIds c) (map sz (GetColumnIds c))"

definition chunk_row :: "(col_oid_t \<Rightarrow> u16) \<Rightarrow> mem \<Rightarrow> col_oid_t \<rightharpoonup> u8 list" where
  "chunk_row sz c oid =
     map_option (\<lambda>i. rd_bytes c (Access c i) (unat (sz oid))) (find_column (GetColumnIds c) oid 0)"

lemma chunk_okD:
  assumes "chunk_ok sz c" "i < chunk_count c"
  shows "GetDataPtr c \<le> Access c i"
    "Access c i + unat (sz (GetColumnIds c ! i)) \<le> unat (chunk_GetSize c)"
    "min (unat (sz (GetColumnIds c ! i))) 8 dvd Access c i"
    "j < i \<Longrightarrow> Access c j + unat (sz (GetColumnIds c ! j)) \<le> Access c i"
proof -
  note p = assms(1) [unfolded chunk_ok_def chunk_shape_def columns_placed_def]
  from p assms(2) show "GetDataPtr c \<le> Access c i"
    "Access c i + unat (sz (GetColumnIds c ! i)) \<le> unat (chunk_GetSize c)"
    "min (unat (sz (GetColumnIds c ! i))) 8 dvd Access c i"
    by (simp_all add: Access_def)
  assume "j < i"
  with p assms(2) have "unat (map (\<lambda>i. rd16 c (GetOffsetsPtr c + 2 * i)) [0..<chunk_count c] ! j) +
      unat (map sz (GetColumnIds c) ! j) \<le> unat (map (\<lambda>i. rd16 c (GetOffsetsPtr c + 2 * i)) [0..<chunk_count c] ! i)"
    by simp
  with \<open>j < i\<close> assms(2) show "Access c j + unat (sz (GetColumnIds c ! j)) \<le> Access c i"
    by (simp add: Access_def)
qed

lemma chunk_ok_cong:
  assumes "chunk_ok sz c" "\<And>a. a < GetDataPtr c \<Longrightarrow> c' a = c a"
  shows "chunk_ok sz c'"
proof -
  note h = chunk_header_cong [of c c', OF assms(2)]
  have "rd16 c' (GetOffsetsPtr c + 2 * i) = rd16 c (GetOffsetsPtr c + 2 * i)" if "i < chunk_count c" for i
    using assms(2) that unfolding rd16_def
    by (intro arg_cong [where f = "\<lambda>b. word_of_nat (le_dec b)"] rd_bytes_cong)
      (simp add: GetDataPtr_eq GetOffsetsPtr_eq)
  then have "map (\<lambda>i. rd16 c' (GetOffsetsPtr c + 2 * i)) [0..<chunk_count c] =
      map (\<lambda>i. rd16 c (GetOffsetsPtr c + 2 * i)) [0..<chunk_count c]" by simp
  with assms(1) h show ?thesis by (simp add: chunk_ok_def chunk_shape_def del: map_eq_conv)
qed

lemma CreateDataChunk_ok:
  assumes "valid_sizes (map sz ids)" "8 + 6 * length ids + size_bound (map sz ids) \<le> 65520"
  shows "chunk_ok sz (CreateDataChunk (DataChunkLayout_new ids (map sz ids)) dest)"
    "GetColumnIds (CreateDataChunk (DataChunkLayout_new ids (map sz ids)) dest) = ids"
  using CreateDataChunk_shape(1) [of "map sz ids" ids dest] assms by (simp_all add: chunk_ok_def chunk_shape_def)

lemma dom_chunk_row: "dom (chunk_row sz c) = set (GetColumnIds c)"
  using find_column_None [of "GetColumnIds c" _ 0] by (auto simp: chunk_row_def dom_def)

lemma chunk_Get_row:
  assumes "oid \<in> set (GetColumnIds c)"
  shows "\<exists>a. chunk_Get c oid = Inr a \<and> chunk_row sz c oid = Some (rd_bytes c a (unat (sz oid)))"
  using find_column_ex [OF assms, of 0] by (auto simp: chunk_Get_def chunk_row_def)

text \<open>Storing the bytes of one column changes this column and nothing else.\<close>

lemma store_column:
  assumes ok: "chunk_ok sz c" and f: "find_column (GetColumnIds c) oid 0 = Some i"
    and len: "length bs = unat (sz oid)"
  shows "chunk_ok sz (wr_bytes c (Access c i) bs)"
    "GetColumnIds (wr_bytes c (Access c i) bs) = GetColumnIds c"
    "chunk_row sz (wr_bytes c (Access c i) bs) = (chunk_row sz c)(oid \<mapsto> bs)"
    "j < chunk_count c \<Longrightarrow> Access (wr_bytes c (Access c i) bs) j = Access c j"
    "chunk_GetSize (wr_bytes c (Access c i) bs) = chunk_GetSize c"
proof -
  let ?c = "wr_bytes c (Access c i) bs"
  from find_column_Some [OF f] have i: "i < chunk_count c" "GetColumnIds c ! i = oid" by simp_all
  have hdr: "?c a = c a" if "a < GetDataPtr c" for a
    using chunk_okD(1) [OF ok i(1)] that by (simp add: wr_bytes_outside)
  note h = chunk_header_cong [of c ?c, OF hdr]
  show "chunk_ok sz ?c" by (rule chunk_ok_cong [OF ok hdr])
  show "GetColumnIds ?c = GetColumnIds c" "j < chunk_count c \<Longrightarrow> Access ?c j = Access c j"
    "chunk_GetSize ?c = chunk_GetSize c"
    using h by simp_all
  show "chunk_row sz ?c = (chunk_row sz c)(oid \<mapsto> bs)"
  proof (rule ext)
    fix x
    show "chunk_row sz ?c x = ((chunk_row sz c)(oid \<mapsto> bs)) x"
    proof (cases "x = oid")
      case True
      with f i len h show ?thesis by (simp add: chunk_row_def rd_wr_bytes_same)
    next
      case False
      show ?thesis
      proof (cases "find_column (GetColumnIds c) x 0")
        case None
        with False h show ?thesis by (simp add: chunk_row_def)
      next
        case (Some j)
        from find_column_Some [OF this] have j: "j < chunk_count c" "GetColumnIds c ! j = x" by simp_all
        with False i have "j \<noteq> i" by auto
        then have "Access c j + unat (sz x) \<le> Access c i \<or> Access c i + length bs \<le> Access c j"
          using chunk_okD(4) [OF ok i(1), of j] chunk_okD(4) [OF ok j(1), of i] i j len by (cases "j < i") auto
        with False Some h j(1) show ?thesis by (simp add: chunk_row_def rd_wr_bytes_disj)
      qed
    qed
  qed
qed

lemma chunk_Write_ok:
  assumes "chunk_ok sz c" "oid \<in> set (GetColumnIds c)" "length bs = unat (sz oid)"
  shows "chunk_ok sz (chunk_Write c oid bs)"
    "GetColumnIds (chunk_Write c oid bs) = GetColumnIds c"
    "chunk_row sz (chunk_Write c oid bs) = (chunk_row sz c)(oid \<mapsto> bs)"
proof -
  from assms(2) obtain i where "find_column (GetColumnIds c) oid 0 = Some i"
    using find_column_ex by blast
  with store_column [OF assms(1) this assms(3)]
  show "chunk_ok sz (chunk_Write c oid bs)"
    "GetColumnIds (chunk_Write c oid bs) = GetColumnIds c"
    "chunk_row sz (chunk_Write c oid bs) = (chunk_row sz c)(oid \<mapsto> bs)"
    by (simp_all add: chunk_Write_def)
qed

lemma chunk_Write_missing: "oid \<notin> set (GetColumnIds c) \<Longrightarrow> chunk_Write c oid bs = c"
  using find_column_None [of "GetColumnIds c" oid 0] by (simp add: chunk_Write_def)

lemma chunk_row_nth:
  assumes "distinct (GetColumnIds c)" "i < chunk_count c"
  shows "chunk_row sz c (GetColumnIds c ! i) = Some (rd_bytes c (Access c i) (unat (sz (GetColumnIds c ! i))))"
  using find_column_nth [OF assms(1), of i 0] assms(2) by (simp add: chunk_row_def)

end
