(* ===== verification/Pax.thy ===== *)
theory Pax
  imports ChunkRows
begin

text \<open>
  The column-major page format \<^verbatim>\<open>PaxLayout\<close> (\<^verbatim>\<open>storage/layouts/pax.hpp\<close>, \<^verbatim>\<open>src/storage/layouts/pax.cpp\<close>,
  \<^verbatim>\<open>storage/page_header.hpp\<close>): a 32-bit row count, a bitmap of deleted rows, and one array per column.

  A page is a byte memory whose offset 0 is the first byte of the page. The lemmas show that the
  arrays that the constructor computes are aligned, disjoint, behind the bitmap and inside the page,
  and that cells and deletion marks can be written independently of each other.
\<close>

section \<open>The layout\<close>

definition DB7_PAGE_SIZE :: u32 where
  "DB7_PAGE_SIZE = 8192"

definition HEADER_SIZE :: u32 where
  "HEADER_SIZE = 4"

record PaxLayout =
  offsets :: "u32 list"
  sizes :: "u16 list"
  max_row_count :: u32

fun pax_sums :: "u16 list \<Rightarrow> u32 \<Rightarrow> u32 \<Rightarrow> u32 \<times> u32" where
  "pax_sums [] row_size worst_case_pad = (row_size, worst_case_pad)"
| "pax_sums (sz # szs) row_size worst_case_pad =
     pax_sums szs (row_size + ucast sz) (worst_case_pad + (ucast sz - 1))"

fun pax_offsets :: "u32 \<Rightarrow> u32 \<Rightarrow> u16 list \<Rightarrow> u32 list" where
  "pax_offsets max_rows off [] = []"
| "pax_offsets max_rows off (sz # szs) =
     (let aligned = ucast (AlignUp (ucast off) (ucast sz)) :: u32
      in aligned # pax_offsets max_rows (aligned + max_rows * ucast sz) szs)"

definition pax_max_rows :: "u16 list \<Rightarrow> u32" where
  "pax_max_rows szs =
     (let (row_size, worst_case_pad) = pax_sums szs 0 0
      in (DB7_PAGE_SIZE - HEADER_SIZE - worst_case_pad) * 8 div (1 + 8 * row_size))"

definition PaxLayout_new :: "u16 list \<Rightarrow> PaxLayout" where
  "PaxLayout_new szs =
     (let max_rows = pax_max_rows szs
      in \<lparr>offsets = pax_offsets max_rows (HEADER_SIZE + (max_rows + 7) div 8) szs,
          sizes = szs, max_row_count = max_rows\<rparr>)"

section \<open>Operations\<close>

definition pax_count :: "mem \<Rightarrow> u32" where
  "pax_count data = rd32 data 0"

definition IncrementHeaderCount :: "PaxLayout \<Rightarrow> mem \<Rightarrow> u32 \<Rightarrow> (u32 \<times> mem) res" where
  "IncrementHeaderCount l data cnt =
     (let old = pax_count data;
          data' = wr32 data 0 (old + cnt)
      in DB7_ASSERT (max_row_count l > pax_count data') ''Tried to insert more than available in page''
           (Inr (old, data')))"

definition CalcOffset :: "PaxLayout \<Rightarrow> u32 \<Rightarrow> u32 \<Rightarrow> u32" where
  "CalcOffset l row_idx column_idx =
     row_idx * ucast (sizes l ! unat column_idx) + offsets l ! unat column_idx"

definition pax_Get :: "PaxLayout \<Rightarrow> u16 \<Rightarrow> u32 \<Rightarrow> nat" where
  "pax_Get l column_idx row_idx = unat (CalcOffset l row_idx (ucast column_idx))"

definition pax_Insert :: "PaxLayout \<Rightarrow> mem \<Rightarrow> u8 list \<Rightarrow> u16 \<Rightarrow> u32 \<Rightarrow> mem" where
  "pax_Insert l page_data insert_data column_idx row_idx =
     wr_bytes page_data (unat (CalcOffset l row_idx (ucast column_idx))) insert_data"

definition pax_Update :: "PaxLayout \<Rightarrow> mem \<Rightarrow> u8 list \<Rightarrow> u16 \<Rightarrow> u32 \<Rightarrow> mem" where
  "pax_Update l page_data update_data column_idx row_idx =
     wr_bytes page_data (unat (CalcOffset l row_idx (ucast column_idx))) update_data"

text \<open>The second \<^verbatim>\<open>Update\<close> stores at a pointer; \<^verbatim>\<open>InternalWrite\<close> is the same behind a check for null.\<close>

definition pax_Update_at :: "mem \<Rightarrow> nat \<Rightarrow> u8 list \<Rightarrow> mem" where
  "pax_Update_at m dest update_data = wr_bytes m dest update_data"

definition InternalWrite :: "mem \<Rightarrow> nat option \<Rightarrow> u8 list \<Rightarrow> mem res" where
  "InternalWrite m data payload =
     DB7_ASSERT (data \<noteq> None) ''Page data in null'' (Inr (wr_bytes m (the data) payload))"

definition CalculateMaxSize :: "PaxLayout \<Rightarrow> u32 \<Rightarrow> u32" where
  "CalculateMaxSize l row_count =
     foldl (\<lambda>max_size sz. ucast (AlignUp (ucast max_size) (ucast sz)) + ucast sz * row_count) 0 (sizes l)"

lemma pax_Update_at_cell:
  "pax_Update_at m (unat (CalcOffset l row_idx (ucast column_idx))) bs = pax_Update l m bs column_idx row_idx"
  by (simp add: pax_Update_at_def pax_Update_def)

definition row_mask :: "u32 \<Rightarrow> u8" where
  "row_mask row_idx = push_bit (unat (row_idx mod 8)) 1"

definition pax_Delete :: "mem \<Rightarrow> u32 \<Rightarrow> mem" where
  "pax_Delete data row_idx =
     (let byte_offset = unat (HEADER_SIZE + row_idx div 8)
      in data(byte_offset := data byte_offset OR row_mask row_idx))"

definition pax_IsDeleted :: "mem \<Rightarrow> u32 \<Rightarrow> bool" where
  "pax_IsDeleted data row_idx = (data (unat (HEADER_SIZE + row_idx div 8)) AND row_mask row_idx > 0)"

section \<open>The column arrays fit\<close>

definition pad_sum :: "u16 list \<Rightarrow> nat" where
  "pad_sum szs = (\<Sum>s \<leftarrow> szs. unat s - 1)"

definition width_sum :: "u16 list \<Rightarrow> nat" where
  "width_sum szs = (\<Sum>s \<leftarrow> szs. unat s)"

lemma sum_simps [simp]:
  "pad_sum [] = 0" "pad_sum (s # szs) = unat s - 1 + pad_sum szs"
  "width_sum [] = 0" "width_sum (s # szs) = unat s + width_sum szs"
  by (simp_all add: pad_sum_def width_sum_def)

text \<open>The schemas that are laid out in a page: widths of the types, at most 500 columns.\<close>

definition pax_sizes_ok :: "u16 list \<Rightarrow> bool" where
  "pax_sizes_ok szs = (valid_sizes szs \<and> length szs \<le> 500)"

lemma valid_size:
  assumes "s \<in> {1, 2, 4, 8, 16 :: u16}"
  shows "\<exists>k \<le> 4. unat s = 2 ^ k \<and> (ucast s :: u32) = 2 ^ k"
proof -
  consider "s = 1" | "s = 2" | "s = 4" | "s = 8" | "s = 16" using assms by auto
  then show ?thesis
  proof cases
    case 1 then show ?thesis by (intro exI [of _ 0]) simp
  next
    case 2 then show ?thesis by (intro exI [of _ 1]) simp
  next
    case 3 then show ?thesis by (intro exI [of _ 2]) simp
  next
    case 4 then show ?thesis by (intro exI [of _ 3]) simp
  next
    case 5 then show ?thesis by (intro exI [of _ 4]) simp
  qed
qed

lemma valid_size_bounds: "s \<in> {1, 2, 4, 8, 16 :: u16} \<Longrightarrow> 1 \<le> unat s \<and> unat s \<le> 16"
  by auto

lemma sum_bounds:
  assumes "valid_sizes szs"
  shows "pad_sum szs + length szs = width_sum szs \<and> width_sum szs \<le> 16 * length szs"
  using assms
proof (induction szs)
  case (Cons s szs)
  with valid_size_bounds [of s] show ?case by auto
qed simp

lemma pax_sums_eq:
  assumes "valid_sizes szs"
  shows "pax_sums szs r w = (r + word_of_nat (width_sum szs), w + word_of_nat (pad_sum szs))"
  using assms
proof (induction szs arbitrary: r w)
  case (Cons s szs)
  have s: "word_of_nat (unat s) = (ucast s :: u32)"
    by (simp add: word_unat_eq_iff)
  from Cons.prems have "1 \<le> unat s" using valid_size_bounds by simp
  then have "word_of_nat (unat s - 1) = (ucast s - 1 :: u32)"
    by (simp add: of_nat_diff s del: of_nat_unat)
  with Cons s show ?case by (simp del: of_nat_unat add: add.assoc)
qed simp

lemma unat_max_rows:
  assumes "pax_sizes_ok szs"
  shows "unat (pax_max_rows szs) = (8188 - pad_sum szs) * 8 div (1 + 8 * width_sum szs)"
proof -
  have v: "valid_sizes szs" and n: "length szs \<le> 500" using assms by (auto simp: pax_sizes_ok_def)
  from sum_bounds [OF v] n have b: "pad_sum szs \<le> 7500" "width_sum szs \<le> 8000"
    using sum_bounds [OF v] by linarith+
  have n1: "(8188 - word_of_nat (pad_sum szs)) * 8 = (word_of_nat ((8188 - pad_sum szs) * 8) :: u32)"
    using b by (simp add: of_nat_diff)
  have n2: "1 + 8 * word_of_nat (width_sum szs) = (word_of_nat (1 + 8 * width_sum szs) :: u32)"
    by simp
  have "unat ((8188 - word_of_nat (pad_sum szs)) * 8 :: u32) = (8188 - pad_sum szs) * 8"
    unfolding n1 using b by (simp only: unat_of_nat) (simp add: take_bit_eq_mod)
  moreover have "unat (1 + 8 * word_of_nat (width_sum szs) :: u32) = 1 + 8 * width_sum szs"
    unfolding n2 using b by (simp only: unat_of_nat) (simp add: take_bit_eq_mod)
  ultimately show ?thesis
    by (simp add: pax_max_rows_def pax_sums_eq [OF v] DB7_PAGE_SIZE_def HEADER_SIZE_def unat_div)
qed

lemma max_rows_fit:
  fixes p w M :: nat
  assumes "M = (8188 - p) * 8 div (1 + 8 * w)" "p \<le> 8188"
  shows "4 + (M + 7) div 8 + p + M * w \<le> 8192" "M \<le> 65504"
proof -
  have "M * (1 + 8 * w) \<le> (8188 - p) * 8" unfolding assms(1) by (rule div_times_less_eq_dividend)
  then have "M + 8 * (M * w) \<le> 8 * (8188 - p)" by (simp add: algebra_simps)
  then have "(M + 7) div 8 + M * w \<le> 8188 - p" by linarith
  with assms(2) show "4 + (M + 7) div 8 + p + M * w \<le> 8192" by linarith
  show "M \<le> 65504" using \<open>M + 8 * (M * w) \<le> 8 * (8188 - p)\<close> by linarith
qed

definition arrays_placed :: "nat \<Rightarrow> nat \<Rightarrow> nat \<Rightarrow> u16 list \<Rightarrow> u32 list \<Rightarrow> bool" where
  "arrays_placed lo hi M szs offs \<longleftrightarrow>
     length offs = length szs \<and>
     (\<forall>i < length szs. lo \<le> unat (offs ! i) \<and> unat (offs ! i) + M * unat (szs ! i) \<le> hi \<and>
        unat (szs ! i) dvd unat (offs ! i)) \<and>
     (\<forall>j < length szs. \<forall>i < j. unat (offs ! i) + M * unat (szs ! i) \<le> unat (offs ! j))"

lemma arrays_placed_Cons:
  assumes "arrays_placed (unat o' + M * unat s) hi M szs offs" "lo \<le> unat o'" "unat o' + M * unat s \<le> hi"
    "unat s dvd unat o'"
  shows "arrays_placed lo hi M (s # szs) (o' # offs)"
  using assms unfolding arrays_placed_def by (fastforce simp: nth_Cons split: nat.splits)

lemma pax_offsets_ok:
  assumes "valid_sizes szs" "unat off + pad_sum szs + unat M * width_sum szs \<le> 8192"
  shows "arrays_placed (unat off) 8192 (unat M) szs (pax_offsets M off szs)"
  using assms
proof (induction szs arbitrary: off)
  case Nil
  then show ?case by (simp add: arrays_placed_def)
next
  case (Cons s szs)
  from Cons.prems(1) valid_size [of s] obtain k where k: "k \<le> 4" "unat s = 2 ^ k" "(ucast s :: u32) = 2 ^ k"
    by auto
  define a where "a = (ucast (AlignUp (ucast off) (2 ^ k)) :: u32)"
  have a: "unat off \<le> unat a" "unat a < unat off + unat s" "unat s dvd unat a"
    using AlignUp_u32 [of k off] k(1) Cons.prems(2) by (simp_all add: a_def k(2))
  have s1: "1 \<le> unat s" using Cons.prems(1) valid_size_bounds by simp
  have b: "unat a + pad_sum szs + unat M * (unat s + width_sum szs) \<le> 8192"
    using Cons.prems(2) a(2) s1 by simp
  then have b2: "unat a + unat M * unat s + (pad_sum szs + unat M * width_sum szs) \<le> 8192"
    by (simp add: add_mult_distrib2 del: of_nat_unat)
  then have sum: "unat (a + M * ucast s) = unat a + unat M * unat s"
    by (simp add: unat_word_ariths)
  have "arrays_placed (unat a + unat M * unat s) 8192 (unat M) szs (pax_offsets M (a + M * ucast s) szs)"
    using Cons.IH [of "a + M * ucast s"] Cons.prems(1) b2 by (simp add: sum)
  then have "arrays_placed (unat off) 8192 (unat M) (s # szs) (a # pax_offsets M (a + M * ucast s) szs)"
    using a b2 by (intro arrays_placed_Cons) simp_all
  then show ?case by (simp add: Let_def a_def k(3))
qed

text \<open>What the rest of the program relies on.\<close>

definition pax_ok :: "PaxLayout \<Rightarrow> bool" where
  "pax_ok l \<longleftrightarrow>
     arrays_placed (4 + (unat (max_row_count l) + 7) div 8) 8192 (unat (max_row_count l)) (sizes l) (offsets l)"

lemma PaxLayout_new_ok:
  assumes "pax_sizes_ok szs"
  shows "pax_ok (PaxLayout_new szs)"
    "unat (max_row_count (PaxLayout_new szs)) = (8188 - pad_sum szs) * 8 div (1 + 8 * width_sum szs)"
    "sizes (PaxLayout_new szs) = szs"
proof -
  let ?M = "pax_max_rows szs"
  have v: "valid_sizes szs" and n: "length szs \<le> 500" using assms by (auto simp: pax_sizes_ok_def)
  from sum_bounds [OF v] n have p: "pad_sum szs \<le> 8188" by linarith
  note fit = max_rows_fit [OF unat_max_rows [OF assms] p]
  have "unat (HEADER_SIZE + (?M + 7) div 8) = 4 + (unat ?M + 7) div 8"
    using fit(2) by (simp add: HEADER_SIZE_def unat_word_ariths unat_div)
  then have "pax_ok (PaxLayout_new szs)"
    using pax_offsets_ok [OF v, of "HEADER_SIZE + (?M + 7) div 8" ?M] fit(1)
    by (simp add: pax_ok_def PaxLayout_new_def Let_def)
  then show "pax_ok (PaxLayout_new szs)"
    "unat (max_row_count (PaxLayout_new szs)) = (8188 - pad_sum szs) * 8 div (1 + 8 * width_sum szs)"
    "sizes (PaxLayout_new szs) = szs"
    using unat_max_rows [OF assms] by (simp_all add: PaxLayout_new_def Let_def)
qed

section \<open>Cells and deletion marks\<close>

definition pax_cell :: "PaxLayout \<Rightarrow> mem \<Rightarrow> u16 \<Rightarrow> u32 \<Rightarrow> u8 list" where
  "pax_cell l m i r = rd_bytes m (pax_Get l i r) (unat (sizes l ! unat i))"

lemma pax_Get_eq:
  assumes "pax_ok l" "unat i < length (sizes l)" "r < max_row_count l"
  shows "pax_Get l i r = unat (offsets l ! unat i) + unat r * unat (sizes l ! unat i)"
    "4 + (unat (max_row_count l) + 7) div 8 \<le> pax_Get l i r"
    "pax_Get l i r + unat (sizes l ! unat i) \<le> unat (offsets l ! unat i) + unat (max_row_count l) * unat (sizes l ! unat i)"
    "pax_Get l i r + unat (sizes l ! unat i) \<le> 8192"
proof -
  note p = assms(1) [unfolded pax_ok_def arrays_placed_def]
  let ?o = "unat (offsets l ! unat i)" and ?s = "unat (sizes l ! unat i)" and ?M = "unat (max_row_count l)"
  from p assms(2) have o: "4 + (?M + 7) div 8 \<le> ?o" "?o + ?M * ?s \<le> 8192" by simp_all
  have r: "unat r + 1 \<le> ?M" using assms(3) by (simp add: word_less_nat_alt)
  have "(unat r + 1) * ?s \<le> ?M * ?s" by (rule mult_right_mono [OF r]) simp
  then have rs: "unat r * ?s + ?s \<le> ?M * ?s" by simp
  have "unat r * ?s < 4294967296" "unat r * ?s + ?o < 4294967296" using rs o by linarith+
  then have "unat (r * ucast (sizes l ! unat i) + offsets l ! unat i) = unat r * ?s + ?o"
    by (simp add: unat_word_ariths)
  moreover have "unat (ucast i :: u32) = unat i" by simp
  ultimately show g: "pax_Get l i r = ?o + unat r * ?s"
    by (simp only: pax_Get_def CalcOffset_def)
  show "4 + (?M + 7) div 8 \<le> pax_Get l i r" "pax_Get l i r + ?s \<le> ?o + ?M * ?s" "pax_Get l i r + ?s \<le> 8192"
    using g o rs by linarith+
qed

lemma rows_disjoint:
  fixes r r' s :: nat
  assumes "r \<noteq> r'"
  shows "r * s + s \<le> r' * s \<or> r' * s + s \<le> r * s"
proof -
  from assms consider "r + 1 \<le> r'" | "r' + 1 \<le> r" by linarith
  then show ?thesis
  proof cases
    case 1
    then have "(r + 1) * s \<le> r' * s" by (rule mult_right_mono) simp
    then show ?thesis by simp
  next
    case 2
    then have "(r' + 1) * s \<le> r * s" by (rule mult_right_mono) simp
    then show ?thesis by simp
  qed
qed

lemma pax_cells_disjoint:
  assumes ok: "pax_ok l" and i: "unat i < length (sizes l)" "r < max_row_count l"
    and j: "unat j < length (sizes l)" "r' < max_row_count l" and ne: "(i, r) \<noteq> (j, r')"
  shows "pax_Get l i r + unat (sizes l ! unat i) \<le> pax_Get l j r' \<or>
    pax_Get l j r' + unat (sizes l ! unat j) \<le> pax_Get l i r"
proof (cases "i = j")
  case True
  with ne have "unat r \<noteq> unat r'" by (simp add: word_unat_eq_iff)
  with rows_disjoint [OF this, of "unat (sizes l ! unat i)"] show ?thesis
    using pax_Get_eq(1) [OF ok i] pax_Get_eq(1) [OF ok j] unfolding True by linarith
next
  case False
  then consider "unat i < unat j" | "unat j < unat i" by (metis linorder_neqE_nat word_unat_eq_iff)
  then show ?thesis
  proof cases
    case 1
    with ok j(1) have "unat (offsets l ! unat i) + unat (max_row_count l) * unat (sizes l ! unat i) \<le> unat (offsets l ! unat j)"
      by (simp add: pax_ok_def arrays_placed_def)
    with pax_Get_eq(3) [OF ok i] pax_Get_eq(1) [OF ok j] show ?thesis by linarith
  next
    case 2
    with ok i(1) have "unat (offsets l ! unat j) + unat (max_row_count l) * unat (sizes l ! unat j) \<le> unat (offsets l ! unat i)"
      by (simp add: pax_ok_def arrays_placed_def)
    with pax_Get_eq(3) [OF ok j] pax_Get_eq(1) [OF ok i] show ?thesis by linarith
  qed
qed

lemma pax_cell_write:
  assumes ok: "pax_ok l" and i: "unat i < length (sizes l)" "r < max_row_count l"
    and j: "unat j < length (sizes l)" "r' < max_row_count l" and len: "length bs = unat (sizes l ! unat i)"
  shows "pax_cell l (wr_bytes m (pax_Get l i r) bs) j r' = (if (i, r) = (j, r') then bs else pax_cell l m j r')"
proof (cases "(i, r) = (j, r')")
  case True
  with len show ?thesis by (auto simp: pax_cell_def rd_wr_bytes_same)
next
  case False
  from pax_cells_disjoint [OF ok i j False] len show ?thesis
    using False by (auto simp: pax_cell_def rd_wr_bytes_disj)
qed

lemma bitmap_addr:
  "unat (HEADER_SIZE + r div 8) = 4 + unat r div 8"
  using unat_u32_less [of r] by (simp add: HEADER_SIZE_def unat_word_ariths unat_div)

lemma bitmap_below_cells:
  assumes "r < max_row_count l"
  shows "4 + unat r div 8 < 4 + (unat (max_row_count l) + 7) div 8"
  using assms by (simp add: word_less_nat_alt)

lemma pax_cell_write_header:
  assumes "pax_ok l" "unat i < length (sizes l)" "r < max_row_count l" "r' < max_row_count l"
  shows "pax_IsDeleted (wr_bytes m (pax_Get l i r) bs) r' = pax_IsDeleted m r'"
    "pax_count (wr_bytes m (pax_Get l i r) bs) = pax_count m"
  using pax_Get_eq(2) [OF assms(1-3)] bitmap_below_cells [OF assms(4)]
  by (simp_all add: pax_IsDeleted_def bitmap_addr wr_bytes_outside pax_count_def rd32_wr_bytes_disj)

lemma row_mask_bit:
  "bit (row_mask r) n \<longleftrightarrow> n = unat r mod 8"
proof -
  have "unat r mod 8 < 8" by simp
  then show ?thesis
    by (auto simp: row_mask_def unat_mod bit_exp_iff)
qed

lemma and_row_mask: "(b AND row_mask r > 0) \<longleftrightarrow> bit b (unat r mod 8)" for b :: u8
proof -
  have "(b AND row_mask r > 0) \<longleftrightarrow> b AND row_mask r \<noteq> 0"
    by (metis word_neq_0_conv)
  also have "\<dots> \<longleftrightarrow> (\<exists>n. bit (b AND row_mask r) n)"
    by (metis bit_0_eq bit_eq_iff bot_apply bot_bool_def)
  finally show ?thesis by (auto simp: bit_and_iff row_mask_bit)
qed

lemma pax_IsDeleted_eq: "pax_IsDeleted m r \<longleftrightarrow> bit (m (4 + unat r div 8)) (unat r mod 8)"
  by (simp add: pax_IsDeleted_def bitmap_addr and_row_mask)

lemma pax_IsDeleted_Delete: "pax_IsDeleted (pax_Delete m r) r' \<longleftrightarrow> r' = r \<or> pax_IsDeleted m r'"
proof -
  have "r' = r \<longleftrightarrow> unat r' div 8 = unat r div 8 \<and> unat r' mod 8 = unat r mod 8"
    by (metis div_mult_mod_eq word_unat_eq_iff)
  then show ?thesis
    by (auto simp: pax_IsDeleted_eq pax_Delete_def bitmap_addr Let_def bit_or_iff row_mask_bit)
qed

lemma pax_Delete_frame:
  assumes "pax_ok l" "unat i < length (sizes l)" "r' < max_row_count l" "r < max_row_count l"
  shows "pax_cell l (pax_Delete m r) i r' = pax_cell l m i r'" "pax_count (pax_Delete m r) = pax_count m"
  using pax_Get_eq(2) [OF assms(1-3)] bitmap_below_cells [OF assms(4)]
  by (simp_all add: pax_cell_def pax_Delete_def bitmap_addr Let_def rd_bytes_upd_disj pax_count_def rd32_upd_disj)

end
