(* ===== verification/ChunkUtils.thy ===== *)
theory ChunkUtils
  imports Pax
begin

text \<open>
  Moving rows between chunks and pages (\<^verbatim>\<open>access/chunk_utils.hpp\<close>).

  Chunk and page are separate memories. The abstract view of a table page is \<open>pax_row\<close>: for a row
  index, the finite map from column ids to bytes. The lemmas state each transfer as an operation on
  finite maps: reading restricts, updating overrides and keeps the old values, merging overrides.
\<close>

section \<open>The transfers\<close>

fun read_columns :: "Schema \<Rightarrow> PaxLayout \<Rightarrow> mem \<Rightarrow> u32 \<Rightarrow> col_oid_t list \<Rightarrow> mem \<Rightarrow> mem res" where
  "read_columns schema l page idx [] chunk = Inr chunk"
| "read_columns schema l page idx (i # is) chunk =
     ebind (GetColumn schema i) (\<lambda>info.
       let ptr = pax_Get l (ucast (position info)) idx
       in read_columns schema l page idx is (chunk_Write chunk i (rd_bytes page ptr (unat (type_size info)))))"

definition ReadSingleIntoChunk :: "Schema \<Rightarrow> PaxLayout \<Rightarrow> mem \<Rightarrow> mem \<Rightarrow> u32 \<Rightarrow> mem res" where
  "ReadSingleIntoChunk schema l chunk page idx = read_columns schema l page idx (GetColumnIds chunk) chunk"

fun insert_columns :: "Schema \<Rightarrow> PaxLayout \<Rightarrow> mem \<Rightarrow> u32 \<Rightarrow> u32 \<Rightarrow> col_oid_t list \<Rightarrow> mem \<Rightarrow> mem res" where
  "insert_columns schema l chunk item_count old_count [] page = Inr page"
| "insert_columns schema l chunk item_count old_count (i # is) page =
     ebind (GetColumn schema i) (\<lambda>info.
     ebind (chunk_Get chunk i) (\<lambda>src.
       insert_columns schema l chunk item_count old_count is
         (pax_Insert l page (rd_bytes chunk src (unat (type_size info * item_count)))
            (ucast (position info)) old_count)))"

definition InsertBulk :: "Schema \<Rightarrow> PaxLayout \<Rightarrow> mem \<Rightarrow> mem \<Rightarrow> u32 \<Rightarrow> (u32 \<times> mem) res" where
  "InsertBulk schema l chunk page item_count =
     ebind (IncrementHeaderCount l page item_count) (\<lambda>(old_count, page1).
     ebind (insert_columns schema l chunk item_count old_count (GetColumnIds chunk) page1) (\<lambda>page2.
       Inr (old_count, page2)))"

fun update_columns ::
    "Schema \<Rightarrow> PaxLayout \<Rightarrow> mem \<Rightarrow> u32 \<Rightarrow> col_oid_t list \<Rightarrow> nat \<Rightarrow> nat \<Rightarrow> mem \<Rightarrow> mem \<Rightarrow> (mem \<times> mem) res" where
  "update_columns schema l chunk idx [] delta_iter chunk_iter delta page = Inr (delta, page)"
| "update_columns schema l chunk idx (i # is) delta_iter chunk_iter delta page =
     ebind (GetColumn schema i) (\<lambda>column_info.
       let ptr = pax_Get l (ucast (position column_info)) idx;
           sz = unat (type_size column_info);
           (delta', delta_iter') = iter_PushBack delta delta_iter (rd_bytes page ptr sz);
           (src, chunk_iter') = iter_Next chunk chunk_iter
       in update_columns schema l chunk idx is delta_iter' chunk_iter' delta'
            (wr_bytes page ptr (rd_bytes chunk src sz)))"

definition UpdateSingle :: "Schema \<Rightarrow> PaxLayout \<Rightarrow> mem \<Rightarrow> mem \<Rightarrow> mem \<Rightarrow> u32 \<Rightarrow> (mem \<times> mem) res" where
  "UpdateSingle schema l chunk delta page idx =
     update_columns schema l chunk idx (GetColumnIds chunk) 0 0 delta page"

fun merge_columns :: "Schema \<Rightarrow> mem \<Rightarrow> col_oid_t list \<Rightarrow> nat \<Rightarrow> mem \<Rightarrow> mem res" where
  "merge_columns schema new_chunk [] new_idx curr_chunk = Inr curr_chunk"
| "merge_columns schema new_chunk (new_id # is) new_idx curr_chunk =
     (case find_column (GetColumnIds curr_chunk) new_id 0 of
        Some cur_idx \<Rightarrow>
          ebind (GetColumn schema new_id) (\<lambda>info.
            merge_columns schema new_chunk is (new_idx + 1)
              (wr_bytes curr_chunk (Access curr_chunk cur_idx)
                 (rd_bytes new_chunk (Access new_chunk new_idx) (unat (type_size info)))))
      | None \<Rightarrow> merge_columns schema new_chunk is (new_idx + 1) curr_chunk)"

definition Merge :: "Schema \<Rightarrow> mem \<Rightarrow> mem \<Rightarrow> mem res" where
  "Merge schema curr_chunk new_chunk = merge_columns schema new_chunk (GetColumnIds new_chunk) 0 curr_chunk"

section \<open>Rows of a page\<close>

definition schema_sz :: "Schema \<Rightarrow> col_oid_t \<Rightarrow> u16" where
  "schema_sz s oid = (case mapping s oid of Some col \<Rightarrow> ucast (type_size col) | None \<Rightarrow> 0)"

text \<open>The layout was made from the schema: every column has an array of its width of its own.\<close>

definition schema_ok :: "Schema \<Rightarrow> PaxLayout \<Rightarrow> bool" where
  "schema_ok s l \<longleftrightarrow>
     length (sizes l) \<le> 65535 \<and>
     (\<forall>oid col. mapping s oid = Some col \<longrightarrow>
        unat (position col) < length (sizes l) \<and> type_size col = ucast (sizes l ! unat (position col))) \<and>
     (\<forall>o1 c1 o2 c2. mapping s o1 = Some c1 \<longrightarrow> mapping s o2 = Some c2 \<longrightarrow> position c1 = position c2 \<longrightarrow> o1 = o2)"

definition pax_row :: "Schema \<Rightarrow> PaxLayout \<Rightarrow> mem \<Rightarrow> u32 \<Rightarrow> col_oid_t \<rightharpoonup> u8 list" where
  "pax_row s l m r oid = map_option (\<lambda>col. pax_cell l m (ucast (position col)) r) (mapping s oid)"

lemma schema_okD:
  assumes "schema_ok s l" "mapping s oid = Some col"
  shows "unat (ucast (position col) :: u16) = unat (position col)" "unat (position col) < length (sizes l)"
    "unat (type_size col) = unat (schema_sz s oid)" "schema_sz s oid = sizes l ! unat (position col)"
proof -
  from assms have p: "unat (position col) < length (sizes l)" "length (sizes l) \<le> 65535"
    "type_size col = ucast (sizes l ! unat (position col))" by (auto simp: schema_ok_def)
  show "unat (ucast (position col) :: u16) = unat (position col)" "unat (position col) < length (sizes l)"
    using p by (simp_all add: unsigned_ucast_eq take_bit_eq_mod)
  show s: "schema_sz s oid = sizes l ! unat (position col)"
    using assms(2) p(3) unat_u16_less [of "sizes l ! unat (position col)"]
    by (simp add: schema_sz_def word_unat_eq_iff unsigned_ucast_eq take_bit_eq_mod)
  show "unat (type_size col) = unat (schema_sz s oid)" unfolding s using p(3) by simp
qed

lemma pax_row_width:
  assumes "schema_ok s l" "pax_row s l m r oid = Some bs"
  shows "length bs = unat (schema_sz s oid)"
proof -
  from assms(2) obtain col where "mapping s oid = Some col" "bs = pax_cell l m (ucast (position col)) r"
    by (auto simp: pax_row_def)
  with schema_okD [OF assms(1)] show ?thesis by (simp add: pax_cell_def)
qed

lemma dom_pax_row: "dom (pax_row s l m r) = dom (mapping s)"
  by (auto simp: pax_row_def dom_def)

lemma pax_row_write:
  assumes ok: "pax_ok l" "schema_ok s l" and col: "mapping s oid = Some col"
    and r: "r < max_row_count l" "r' < max_row_count l" and len: "length bs = unat (schema_sz s oid)"
  shows "pax_row s l (wr_bytes m (pax_Get l (ucast (position col)) r) bs) r' =
    (if r' = r then (pax_row s l m r')(oid \<mapsto> bs) else pax_row s l m r')"
proof (rule ext)
  fix x
  note c = schema_okD [OF ok(2) col]
  show "pax_row s l (wr_bytes m (pax_Get l (ucast (position col)) r) bs) r' x =
    (if r' = r then (pax_row s l m r')(oid \<mapsto> bs) else pax_row s l m r') x"
  proof (cases "mapping s x")
    case None
    with col have "x \<noteq> oid" by auto
    with None show ?thesis by (simp add: pax_row_def)
  next
    case (Some xcol)
    note x = schema_okD [OF ok(2) Some]
    have same: "(ucast (position xcol) :: u16) = ucast (position col) \<longleftrightarrow> x = oid"
    proof
      assume "(ucast (position xcol) :: u16) = ucast (position col)"
      then have "unat (position xcol) = unat (position col)" using x(1) c(1) by metis
      then have "position xcol = position col" by (simp add: word_unat_eq_iff)
      with ok(2) Some col show "x = oid" by (auto simp: schema_ok_def)
    qed (use Some col in auto)
    have "pax_cell l (wr_bytes m (pax_Get l (ucast (position col)) r) bs) (ucast (position xcol)) r' =
      (if (ucast (position col) :: u16, r) = (ucast (position xcol), r') then bs
       else pax_cell l m (ucast (position xcol)) r')"
      using pax_cell_write [OF ok(1), of "ucast (position col)" r "ucast (position xcol)" r' bs m] c x r len by simp
    with Some same show ?thesis by (auto simp: pax_row_def)
  qed
qed

lemma pax_write_frame:
  assumes "pax_ok l" "schema_ok s l" "mapping s oid = Some col" "r < max_row_count l"
  shows "r' < max_row_count l \<Longrightarrow> pax_IsDeleted (wr_bytes m (pax_Get l (ucast (position col)) r) bs) r' = pax_IsDeleted m r'"
    "pax_count (wr_bytes m (pax_Get l (ucast (position col)) r) bs) = pax_count m"
  using pax_cell_write_header [OF assms(1), of "ucast (position col)" r] schema_okD [OF assms(2,3)] assms(4)
  by simp_all

lemma GetColumn_Some: "mapping s oid = Some col \<Longrightarrow> GetColumn s oid = Inr col"
  by (simp add: GetColumn_def)

section \<open>The transfers on rows\<close>

definition row_ctx :: "Schema \<Rightarrow> PaxLayout \<Rightarrow> u32 \<Rightarrow> bool" where
  "row_ctx s l r \<longleftrightarrow> pax_ok l \<and> schema_ok s l \<and> r < max_row_count l"

lemma pax_row_cell:
  assumes "schema_ok s l" "mapping s oid = Some col"
  shows "rd_bytes m (pax_Get l (ucast (position col)) r) (unat (type_size col)) = the (pax_row s l m r oid)"
    "pax_row s l m r oid = Some (the (pax_row s l m r oid))"
  using schema_okD [OF assms] assms(2) by (simp_all add: pax_row_def pax_cell_def)

lemma restrict_insert: "f x = Some y \<Longrightarrow> f |` insert x A = (f |` A)(x \<mapsto> y)"
  by (rule ext) (auto simp: restrict_map_def)

lemma read_columns_ok:
  assumes ctx: "row_ctx s l r" and c: "chunk_ok (schema_sz s) c"
    and ids: "set ids \<subseteq> set (GetColumnIds c)" "set ids \<subseteq> dom (mapping s)"
  shows "\<exists>c'. read_columns s l page r ids c = Inr c' \<and> chunk_ok (schema_sz s) c' \<and>
    GetColumnIds c' = GetColumnIds c \<and>
    chunk_row (schema_sz s) c' = chunk_row (schema_sz s) c ++ pax_row s l page r |` set ids"
  using c ids
proof (induction ids arbitrary: c)
  case Nil
  then show ?case by simp
next
  case (Cons i ids)
  from Cons.prems obtain col where col: "mapping s i = Some col" by auto
  from ctx have ok: "schema_ok s l" by (simp add: row_ctx_def)
  define bs where "bs = the (pax_row s l page r i)"
  note rw = pax_row_cell [OF ok col, of page r]
  have len: "length bs = unat (schema_sz s i)" using pax_row_width [OF ok rw(2)] by (simp add: bs_def)
  note w = chunk_Write_ok [OF Cons.prems(1) _ len]
  obtain c' where c': "read_columns s l page r ids (chunk_Write c i bs) = Inr c'" "chunk_ok (schema_sz s) c'"
    "GetColumnIds c' = GetColumnIds c"
    "chunk_row (schema_sz s) c' = chunk_row (schema_sz s) (chunk_Write c i bs) ++ pax_row s l page r |` set ids"
    using Cons.IH [of "chunk_Write c i bs"] Cons.prems w(1,2) by auto
  have "(chunk_row (schema_sz s) c)(i \<mapsto> bs) ++ pax_row s l page r |` set ids =
      chunk_row (schema_sz s) c ++ pax_row s l page r |` set (i # ids)"
    using rw(2) by (rule_tac ext) (auto simp: map_add_def restrict_map_def bs_def split: option.splits)
  with c' w(3) Cons.prems(2) show ?case by (simp add: GetColumn_Some [OF col] rw(1) bs_def [symmetric])
qed

lemma ReadSingleIntoChunk_ok:
  assumes "row_ctx s l r" "chunk_ok (schema_sz s) c" "set (GetColumnIds c) \<subseteq> dom (mapping s)"
  shows "\<exists>c'. ReadSingleIntoChunk s l c page r = Inr c' \<and> chunk_ok (schema_sz s) c' \<and>
    GetColumnIds c' = GetColumnIds c \<and>
    chunk_row (schema_sz s) c' = pax_row s l page r |` set (GetColumnIds c)"
proof -
  from read_columns_ok [OF assms(1,2) order_refl assms(3), of page]
  obtain c' where c': "ReadSingleIntoChunk s l c page r = Inr c'" "chunk_ok (schema_sz s) c'"
    "GetColumnIds c' = GetColumnIds c"
    "chunk_row (schema_sz s) c' = chunk_row (schema_sz s) c ++ pax_row s l page r |` set (GetColumnIds c)"
    by (auto simp: ReadSingleIntoChunk_def)
  have "dom (chunk_row (schema_sz s) c) \<subseteq> dom (pax_row s l page r |` set (GetColumnIds c))"
    using assms(3) by (auto simp: dom_chunk_row dom_pax_row)
  then have "chunk_row (schema_sz s) c ++ pax_row s l page r |` set (GetColumnIds c) =
      pax_row s l page r |` set (GetColumnIds c)"
    by (rule_tac ext) (force simp: map_add_def split: option.splits)
  with c' show ?thesis by simp
qed

text \<open>What a page operation on row \<open>r\<close> leaves alone.\<close>

definition same_except :: "Schema \<Rightarrow> PaxLayout \<Rightarrow> u32 \<Rightarrow> mem \<Rightarrow> mem \<Rightarrow> bool" where
  "same_except s l r m m' \<longleftrightarrow> pax_count m' = pax_count m \<and>
     (\<forall>r' < max_row_count l. pax_IsDeleted m' r' = pax_IsDeleted m r' \<and>
        (r' \<noteq> r \<longrightarrow> pax_row s l m' r' = pax_row s l m r'))"

lemma same_except_refl [simp]: "same_except s l r m m"
  by (simp add: same_except_def)

lemma same_except_trans: "same_except s l r m m' \<Longrightarrow> same_except s l r m' m'' \<Longrightarrow> same_except s l r m m''"
  by (simp add: same_except_def)

lemma store_cell:
  assumes ctx: "row_ctx s l r" and col: "mapping s oid = Some col" and len: "length bs = unat (schema_sz s oid)"
  shows "same_except s l r m (wr_bytes m (pax_Get l (ucast (position col)) r) bs)"
    "pax_row s l (wr_bytes m (pax_Get l (ucast (position col)) r) bs) r = (pax_row s l m r)(oid \<mapsto> bs)"
  using ctx col len pax_row_write [where l = l and s = s and oid = oid and col = col and r = r and bs = bs and m = m]
    pax_write_frame [where l = l and s = s and oid = oid and col = col and r = r and bs = bs and m = m]
  by (auto simp: row_ctx_def same_except_def)

lemma drop_nth_Cons: "drop k xs = y # ys \<Longrightarrow> k < length xs \<and> xs ! k = y \<and> drop (Suc k) xs = ys"
  by (metis Cons_nth_drop_Suc drop_eq_Nil2 leI list.distinct(1) list.inject)

lemma map_upd_restrict_notin: "x \<notin> A \<Longrightarrow> f(x \<mapsto> y) |` A = f |` A"
  by (rule ext) (auto simp: restrict_map_def)

lemma map_add_upd_restrict:
  "f x = Some y \<Longrightarrow> x \<notin> A \<Longrightarrow> g(x \<mapsto> y) ++ f |` A = g ++ f |` insert x A"
  by (rule ext) (auto simp: map_add_def restrict_map_def split: option.splits)

lemma insert_columns_ok:
  assumes ctx: "row_ctx s l r" and c: "chunk_ok (schema_sz s) c"
    and ids: "set ids \<subseteq> set (GetColumnIds c)" "set ids \<subseteq> dom (mapping s)" "distinct ids"
  shows "\<exists>m'. insert_columns s l c 1 r ids m = Inr m' \<and> same_except s l r m m' \<and>
    pax_row s l m' r = pax_row s l m r ++ chunk_row (schema_sz s) c |` set ids"
  using ids
proof (induction ids arbitrary: m)
  case Nil
  then show ?case by simp
next
  case (Cons i ids)
  from Cons.prems obtain col where col: "mapping s i = Some col" by auto
  from ctx have ok: "schema_ok s l" by (simp add: row_ctx_def)
  from chunk_Get_row [of i c "schema_sz s"] Cons.prems(1)
  obtain a where a: "chunk_Get c i = Inr a"
    "chunk_row (schema_sz s) c i = Some (rd_bytes c a (unat (schema_sz s i)))" by auto
  define bs where "bs = rd_bytes c a (unat (schema_sz s i))"
  define m1 where "m1 = wr_bytes m (pax_Get l (ucast (position col)) r) bs"
  have st: "same_except s l r m m1" "pax_row s l m1 r = (pax_row s l m r)(i \<mapsto> bs)"
    using store_cell [OF ctx col, of bs m] by (simp_all add: m1_def bs_def)
  obtain m' where m': "insert_columns s l c 1 r ids m1 = Inr m'" "same_except s l r m1 m'"
    "pax_row s l m' r = pax_row s l m1 r ++ chunk_row (schema_sz s) c |` set ids"
    using Cons.IH [of m1] Cons.prems by auto
  have "insert_columns s l c 1 r (i # ids) m = Inr m'"
    using m'(1) by (simp add: GetColumn_Some [OF col] a(1) schema_okD(3) [OF ok col] pax_Insert_def
        pax_Get_def [symmetric] bs_def [symmetric] m1_def)
  moreover have "pax_row s l m' r = pax_row s l m r ++ chunk_row (schema_sz s) c |` set (i # ids)"
    using map_add_upd_restrict [where f = "chunk_row (schema_sz s) c", OF a(2), of "set ids" "pax_row s l m r"] Cons.prems(3) m'(3) st(2)
    by (simp add: bs_def)
  ultimately show ?case using same_except_trans [OF st(1) m'(2)] by blast
qed

lemma map_add_restrict_dom: "dom g \<subseteq> A \<Longrightarrow> f ++ g |` A = f ++ g"
  by (rule ext) (auto simp: map_add_def restrict_map_def split: option.splits)

text \<open>The row count is not part of the cells.\<close>

lemma pax_row_count:
  assumes "row_ctx s l r'"
  shows "pax_row s l (wr32 m 0 v) r' = pax_row s l m r'" "pax_IsDeleted (wr32 m 0 v) r' = pax_IsDeleted m r'"
    "pax_count (wr32 m 0 v) = v"
proof -
  have "pax_cell l (wr32 m 0 v) (ucast (position col)) r' = pax_cell l m (ucast (position col)) r'"
    if "mapping s oid = Some col" for oid col
    using pax_Get_eq(2) [of l "ucast (position col)" r'] assms schema_okD [OF _ that, of l]
    by (simp add: row_ctx_def pax_cell_def rd_bytes_wr32_disj)
  then show "pax_row s l (wr32 m 0 v) r' = pax_row s l m r'"
    by (rule_tac ext) (auto simp: pax_row_def split: option.splits intro!: option.map_cong0)
  show "pax_IsDeleted (wr32 m 0 v) r' = pax_IsDeleted m r'"
    by (simp add: pax_IsDeleted_eq wr32_outside)
  show "pax_count (wr32 m 0 v) = v" by (simp add: pax_count_def rd32_wr32_same)
qed

lemma InsertBulk_ok:
  assumes ok: "pax_ok l" "schema_ok s l" and c: "chunk_ok (schema_sz s) c" "distinct (GetColumnIds c)"
    "set (GetColumnIds c) \<subseteq> dom (mapping s)" and room: "pax_count m + 1 < max_row_count l" "pax_count m < pax_count m + 1"
  shows "\<exists>m'. InsertBulk s l c m 1 = Inr (pax_count m, m') \<and> pax_count m' = pax_count m + 1 \<and>
    pax_row s l m' (pax_count m) = pax_row s l m (pax_count m) ++ chunk_row (schema_sz s) c \<and>
    (\<forall>r < max_row_count l. pax_IsDeleted m' r = pax_IsDeleted m r \<and>
       (r \<noteq> pax_count m \<longrightarrow> pax_row s l m' r = pax_row s l m r))"
proof -
  define r where "r = pax_count m"
  have r: "r < max_row_count l" using room by (simp add: r_def)
  then have ctx: "row_ctx s l r" using ok by (simp add: row_ctx_def)
  have ctx': "row_ctx s l r'" if "r' < max_row_count l" for r'
    using ok that by (simp add: row_ctx_def)
  from insert_columns_ok [OF ctx c(1) order_refl c(3,2), of "wr32 m 0 (r + 1)"]
  obtain m' where m': "insert_columns s l c 1 r (GetColumnIds c) (wr32 m 0 (r + 1)) = Inr m'"
    "same_except s l r (wr32 m 0 (r + 1)) m'"
    "pax_row s l m' r = pax_row s l (wr32 m 0 (r + 1)) r ++ chunk_row (schema_sz s) c |` set (GetColumnIds c)"
    by blast
  have "InsertBulk s l c m 1 = Inr (r, m')"
    using m'(1) room by (simp add: InsertBulk_def IncrementHeaderCount_def Let_def r_def pax_row_count(3) [OF ctx])
  moreover have "pax_row s l m' r = pax_row s l m r ++ chunk_row (schema_sz s) c"
    using m'(3) by (simp add: pax_row_count(1) [OF ctx] map_add_restrict_dom dom_chunk_row)
  moreover have "pax_count m' = r + 1" "\<forall>r' < max_row_count l. pax_IsDeleted m' r' = pax_IsDeleted m r' \<and>
       (r' \<noteq> r \<longrightarrow> pax_row s l m' r' = pax_row s l m r')"
    using m'(2) pax_row_count [OF ctx'] pax_row_count(3) [OF ctx] by (simp_all add: same_except_def)
  ultimately show ?thesis by (simp add: r_def)
qed

lemma update_columns_ok:
  assumes ctx: "row_ctx s l r" and c: "chunk_ok (schema_sz s) c" "distinct (GetColumnIds c)"
    and d: "chunk_ok (schema_sz s) d" "GetColumnIds d = GetColumnIds c"
    and ids: "ids = drop k (GetColumnIds c)" "set ids \<subseteq> dom (mapping s)"
  shows "\<exists>d' m'. update_columns s l c r ids k k d m = Inr (d', m') \<and> same_except s l r m m' \<and>
    chunk_ok (schema_sz s) d' \<and> GetColumnIds d' = GetColumnIds c \<and> chunk_GetSize d' = chunk_GetSize d \<and>
    chunk_row (schema_sz s) d' = chunk_row (schema_sz s) d ++ pax_row s l m r |` set ids \<and>
    pax_row s l m' r = pax_row s l m r ++ chunk_row (schema_sz s) c |` set ids"
  using ids d
proof (induction ids arbitrary: k d m)
  case Nil
  then show ?case by simp
next
  case (Cons i ids)
  from Cons.prems(2) obtain col where col: "mapping s i = Some col" by auto
  from ctx have ok: "schema_ok s l" by (simp add: row_ctx_def)
  note dr = drop_nth_Cons [OF Cons.prems(1) [symmetric]]
  then have k: "k < chunk_count c" "GetColumnIds c ! k = i" "ids = drop (Suc k) (GetColumnIds c)" by simp_all
  have "distinct (i # ids)" using c(2) by (metis Cons.prems(1) distinct_drop)
  then have notin: "i \<notin> set ids" by simp
  have cnt: "chunk_count d = chunk_count c" by (metis Cons.prems(4) length_GetColumnIds)
  have fd: "find_column (GetColumnIds d) i 0 = Some k"
    using find_column_nth [OF c(2), of k 0] k Cons.prems(4) by simp
  define old where "old = the (pax_row s l m r i)"
  note rw = pax_row_cell [OF ok col, of m r]
  have rd: "rd_bytes m (pax_Get l (ucast (position col)) r) (unat (schema_sz s i)) = old"
    using rw(1) by (simp add: old_def schema_okD(3) [OF ok col])
  have lo: "length old = unat (schema_sz s i)" using pax_row_width [OF ok rw(2)] by (simp add: old_def)
  define new where "new = rd_bytes c (Access c k) (unat (schema_sz s i))"
  have cr: "chunk_row (schema_sz s) c i = Some new"
    using chunk_row_nth [OF c(2) k(1)] k(2) by (simp add: new_def)
  define m1 where "m1 = wr_bytes m (pax_Get l (ucast (position col)) r) new"
  have st: "same_except s l r m m1" "pax_row s l m1 r = (pax_row s l m r)(i \<mapsto> new)"
    using store_cell [OF ctx col, of new m] by (simp_all add: m1_def new_def)
  define d1 where "d1 = wr_bytes d (Access d k) old"
  note sd = store_column [OF Cons.prems(3) fd lo, folded d1_def]
  obtain d' m' where IH: "update_columns s l c r ids (Suc k) (Suc k) d1 m1 = Inr (d', m')" "same_except s l r m1 m'"
    "chunk_ok (schema_sz s) d'" "GetColumnIds d' = GetColumnIds c" "chunk_GetSize d' = chunk_GetSize d1"
    "chunk_row (schema_sz s) d' = chunk_row (schema_sz s) d1 ++ pax_row s l m1 r |` set ids"
    "pax_row s l m' r = pax_row s l m1 r ++ chunk_row (schema_sz s) c |` set ids"
    using Cons.IH [OF k(3) _ sd(1), of m1] Cons.prems(2,4) sd(2) by auto
  have "update_columns s l c r (i # ids) k k d m = Inr (d', m')"
    using IH(1) by (simp add: GetColumn_Some [OF col] iter_PushBack_def iter_Next_def rd
        d1_def [symmetric] schema_okD(3) [OF ok col] new_def [symmetric] m1_def [symmetric] del: fun_upd_apply)
  moreover have "chunk_row (schema_sz s) d' = chunk_row (schema_sz s) d ++ pax_row s l m r |` set (i # ids)"
    using map_add_upd_restrict [where f = "pax_row s l m r", OF rw(2) notin, of "chunk_row (schema_sz s) d"]
    by (simp add: IH(6) sd(3) st(2) notin old_def del: fun_upd_apply)
  moreover have "pax_row s l m' r = pax_row s l m r ++ chunk_row (schema_sz s) c |` set (i # ids)"
    using map_add_upd_restrict [where f = "chunk_row (schema_sz s) c", OF cr notin, of "pax_row s l m r"]
    by (simp add: IH(7) st(2) del: fun_upd_apply)
  ultimately show ?case
    using IH(3,4,5) sd(5) same_except_trans [OF st(1) IH(2)] by auto
qed

lemma UpdateSingle_ok:
  assumes ctx: "row_ctx s l r" and c: "chunk_ok (schema_sz s) c" "distinct (GetColumnIds c)"
    "set (GetColumnIds c) \<subseteq> dom (mapping s)"
    and d: "chunk_ok (schema_sz s) d" "GetColumnIds d = GetColumnIds c"
  shows "\<exists>d' m'. UpdateSingle s l c d m r = Inr (d', m') \<and> same_except s l r m m' \<and>
    chunk_ok (schema_sz s) d' \<and> GetColumnIds d' = GetColumnIds c \<and> chunk_GetSize d' = chunk_GetSize d \<and>
    chunk_row (schema_sz s) d' = pax_row s l m r |` set (GetColumnIds c) \<and>
    pax_row s l m' r = pax_row s l m r ++ chunk_row (schema_sz s) c"
proof -
  have a: "chunk_row (schema_sz s) d ++ pax_row s l m r |` set (GetColumnIds c) = pax_row s l m r |` set (GetColumnIds c)"
  proof -
    have "dom (chunk_row (schema_sz s) d) \<subseteq> dom (pax_row s l m r |` set (GetColumnIds c))"
      using c(3) d(2) by (auto simp: dom_chunk_row dom_pax_row)
    then show ?thesis by (rule_tac ext) (force simp: map_add_def split: option.splits)
  qed
  have b: "pax_row s l m r ++ chunk_row (schema_sz s) c |` set (GetColumnIds c) = pax_row s l m r ++ chunk_row (schema_sz s) c"
    by (simp add: map_add_restrict_dom dom_chunk_row)
  show ?thesis
    using update_columns_ok [OF ctx c(1,2) d, of "GetColumnIds c" 0 m] c(3)
    by (simp add: UpdateSingle_def a b)
qed

lemma merge_columns_ok:
  assumes c: "chunk_ok (schema_sz s) c" and n: "chunk_ok (schema_sz s) n" "distinct (GetColumnIds n)"
    and ok: "schema_ok s l" and ids: "ids = drop k (GetColumnIds n)" "set ids \<subseteq> dom (mapping s)"
  shows "\<exists>c'. merge_columns s n ids k c = Inr c' \<and> chunk_ok (schema_sz s) c' \<and> GetColumnIds c' = GetColumnIds c \<and>
    chunk_row (schema_sz s) c' =
      chunk_row (schema_sz s) c ++ chunk_row (schema_sz s) n |` (set ids \<inter> set (GetColumnIds c))"
  using c ids
proof (induction ids arbitrary: k c)
  case Nil
  then show ?case by simp
next
  case (Cons i ids)
  from Cons.prems(3) obtain col where col: "mapping s i = Some col" by auto
  have k: "k < chunk_count n" "GetColumnIds n ! k = i" "ids = drop (Suc k) (GetColumnIds n)"
    using drop_nth_Cons [OF Cons.prems(2) [symmetric]] by simp_all
  show ?case
  proof (cases "find_column (GetColumnIds c) i 0")
    case None
    then have "i \<notin> set (GetColumnIds c)" by (simp add: find_column_None)
    with None Cons.IH [OF Cons.prems(1) k(3)] Cons.prems(3) show ?thesis by simp
  next
    case (Some j)
    then have iin: "i \<in> set (GetColumnIds c)" using find_column_None [of "GetColumnIds c" i 0] by simp
    have notin: "i \<notin> set ids" using n(2) by (metis Cons.prems(2) distinct.simps(2) distinct_drop)
    define v where "v = rd_bytes n (Access n k) (unat (schema_sz s i))"
    have nr: "chunk_row (schema_sz s) n i = Some v"
      using chunk_row_nth [OF n(2) k(1)] k(2) by (simp add: v_def)
    define c1 where "c1 = wr_bytes c (Access c j) v"
    note sc = store_column [OF Cons.prems(1) Some, of v, folded c1_def]
    have lv: "length v = unat (schema_sz s i)" by (simp add: v_def)
    obtain c' where IH: "merge_columns s n ids (Suc k) c1 = Inr c'" "chunk_ok (schema_sz s) c'"
      "GetColumnIds c' = GetColumnIds c"
      "chunk_row (schema_sz s) c' = chunk_row (schema_sz s) c1 ++ chunk_row (schema_sz s) n |` (set ids \<inter> set (GetColumnIds c))"
      using Cons.IH [OF sc(1) [OF lv] k(3)] Cons.prems(3) sc(2) [OF lv] by auto
    have "merge_columns s n (i # ids) k c = Inr c'"
      using IH(1) by (simp add: Some GetColumn_Some [OF col] schema_okD(3) [OF ok col] v_def [symmetric] c1_def [symmetric])
    moreover have "chunk_row (schema_sz s) c' =
        chunk_row (schema_sz s) c ++ chunk_row (schema_sz s) n |` (set (i # ids) \<inter> set (GetColumnIds c))"
      using map_add_upd_restrict [where f = "chunk_row (schema_sz s) n" and A = "set ids \<inter> set (GetColumnIds c)",
          OF nr, of "chunk_row (schema_sz s) c"] notin iin
      by (simp add: IH(4) sc(3) [OF lv] del: fun_upd_apply)
    ultimately show ?thesis using IH(2,3) by blast
  qed
qed

lemma Merge_ok:
  assumes "chunk_ok (schema_sz s) c" "chunk_ok (schema_sz s) n" "distinct (GetColumnIds n)" "schema_ok s l"
    "set (GetColumnIds n) \<subseteq> dom (mapping s)"
  shows "\<exists>c'. Merge s c n = Inr c' \<and> chunk_ok (schema_sz s) c' \<and> GetColumnIds c' = GetColumnIds c \<and>
    chunk_row (schema_sz s) c' = chunk_row (schema_sz s) c ++ chunk_row (schema_sz s) n |` set (GetColumnIds c)"
proof -
  have e: "chunk_row (schema_sz s) n |` (set (GetColumnIds n) \<inter> A) = chunk_row (schema_sz s) n |` A" for A
    using dom_chunk_row [of "schema_sz s" n] by (rule_tac ext) (auto simp: restrict_map_def domIff set_eq_iff)
  show ?thesis
    using merge_columns_ok [OF assms(1-4), of "GetColumnIds n" 0] assms(5) by (simp add: Merge_def e)
qed

end
