(* ===== verification/Undo.thy ===== *)
theory Undo
  imports ChunkUtils
begin

text \<open>
  Timestamps, conflicts and undo records: \<^verbatim>\<open>transaction/transaction_util.hpp\<close>,
  \<^verbatim>\<open>transaction/timestamp_manager.hpp\<close>, \<^verbatim>\<open>storage/undo_buffer.hpp\<close>, \<^verbatim>\<open>storage/mvcc\<close> and the record
  keeping of \<^verbatim>\<open>transaction/transaction_context.hpp\<close> and \<^verbatim>\<open>transaction_manager.cpp\<close>.

  An undo record is named by the arena and the offset at which it was allocated; \<open>undo_heap\<close> holds the
  records, the arenas hold the fill levels. A record has a delta chunk when it was allocated for an
  update. The 32-bit word that the undo iterator reads behind a record without delta lies in memory
  that no record owns (padding, or unused arena bytes); it is the argument \<open>pad\<close>.
\<close>

section \<open>Timestamps\<close>

type_synonym timestamp_t = u64

definition INVALID_TXN_TIMESTAMP :: timestamp_t where
  "INVALID_TXN_TIMESTAMP = 0x8000000000000000"

definition IsCommitted :: "timestamp_t \<Rightarrow> bool" where
  "IsCommitted timestamp \<longleftrightarrow> sint timestamp \<ge> 0"

definition IsNewerThan :: "timestamp_t \<Rightarrow> timestamp_t \<Rightarrow> bool" where
  "IsNewerThan a b \<longleftrightarrow> a > b"

definition TxnUtil_HasConflict :: "timestamp_t \<Rightarrow> timestamp_t \<Rightarrow> timestamp_t \<Rightarrow> bool" where
  "TxnUtil_HasConflict version_timestamp txn_id start_time =
     (let owned_by_other_txn = \<not> IsCommitted version_timestamp \<and> version_timestamp \<noteq> txn_id;
          newer_committed_version = IsCommitted version_timestamp \<and> IsNewerThan version_timestamp start_time
      in owned_by_other_txn \<or> newer_committed_version)"

text \<open>The clock: the state is the next timestamp.\<close>

definition CheckOutTimestamp :: "timestamp_t \<Rightarrow> timestamp_t \<times> timestamp_t" where
  "CheckOutTimestamp clock = (clock, clock + 1)"

lemma IsCommitted_iff: "IsCommitted t \<longleftrightarrow> unat t < 2 ^ 63"
proof -
  have "sint t = (if uint t < 2 ^ 63 then uint t else uint t - 2 ^ 64)"
    using sint_eq_uint_if [of t] by simp
  moreover have "uint t < 2 ^ 64" using uint_lt2p [of t] by simp
  moreover have "uint t < 2 ^ 63 \<longleftrightarrow> unat t < 2 ^ 63"
    using of_nat_less_iff [of "unat t" "2 ^ 63", where ?'a = int] by simp
  ultimately show ?thesis by (simp add: IsCommitted_def)
qed

text \<open>Start times stay below \<open>2 ^ 63\<close>; a transaction's own stamp is its start with the top bit set.\<close>

definition txn_stamp :: "timestamp_t \<Rightarrow> timestamp_t" where
  "txn_stamp start = start + INVALID_TXN_TIMESTAMP"

lemma unat_txn_stamp: "unat start < 2 ^ 63 \<Longrightarrow> unat (txn_stamp start) = unat start + 2 ^ 63"
  by (simp add: txn_stamp_def INVALID_TXN_TIMESTAMP_def unat_word_ariths)

lemma txn_stamp_inj:
  "unat a < 2 ^ 63 \<Longrightarrow> unat b < 2 ^ 63 \<Longrightarrow> txn_stamp a = txn_stamp b \<longleftrightarrow> a = b"
  by (auto simp: txn_stamp_def)

lemma HasConflict_iff:
  assumes "unat start < 2 ^ 63"
  shows "TxnUtil_HasConflict ts (txn_stamp start) start \<longleftrightarrow> ts > start \<and> ts \<noteq> txn_stamp start"
  using assms unat_txn_stamp [OF assms]
  by (auto simp: TxnUtil_HasConflict_def IsCommitted_iff IsNewerThan_def word_less_nat_alt)

section \<open>Undo records\<close>

datatype DeltaRecordType = UPDATE | INSERT | DELETE | INVALID

type_synonym undo_ptr = "nat \<times> nat"

record UndoRecord =
  rec_type :: DeltaRecordType
  rec_next :: "undo_ptr option"
  rec_timestamp :: timestamp_t
  t_id_of :: table_id
  p_id_of :: page_id
  idx_of :: u32
  delta_of :: "mem option"

definition UNDO_RECORD_SIZE :: u32 where
  "UNDO_RECORD_SIZE = 40"

definition undo_IsDeleted :: "UndoRecord \<Rightarrow> bool" where
  "undo_IsDeleted r \<longleftrightarrow> rec_type r = DELETE"

definition Invalidate :: "UndoRecord \<Rightarrow> UndoRecord" where
  "Invalidate r = r\<lparr>rec_type := INVALID\<rparr>"

definition SetTimestamp :: "UndoRecord \<Rightarrow> timestamp_t \<Rightarrow> UndoRecord" where
  "SetTimestamp r time = r\<lparr>rec_timestamp := time\<rparr>"

definition InitializeInsert :: "timestamp_t \<Rightarrow> table_id \<Rightarrow> page_id \<Rightarrow> u32 \<Rightarrow> UndoRecord" where
  "InitializeInsert timestamp tbl pid i =
     \<lparr>rec_type = INSERT, rec_next = None, rec_timestamp = timestamp, t_id_of = tbl, p_id_of = pid, idx_of = i, delta_of = None\<rparr>"

definition InitializeDelete :: "timestamp_t \<Rightarrow> table_id \<Rightarrow> page_id \<Rightarrow> u32 \<Rightarrow> UndoRecord" where
  "InitializeDelete timestamp tbl pid i =
     \<lparr>rec_type = DELETE, rec_next = None, rec_timestamp = timestamp, t_id_of = tbl, p_id_of = pid, idx_of = i, delta_of = None\<rparr>"

text \<open>The bytes behind the copied chunk header are what the arena held before: \<open>old\<close>.\<close>

definition InitializeUpdate :: "timestamp_t \<Rightarrow> table_id \<Rightarrow> page_id \<Rightarrow> u32 \<Rightarrow> u8 list \<Rightarrow> mem \<Rightarrow> UndoRecord" where
  "InitializeUpdate timestamp tbl pid i chunk_header old =
     \<lparr>rec_type = UPDATE, rec_next = None, rec_timestamp = timestamp, t_id_of = tbl, p_id_of = pid, idx_of = i,
      delta_of = Some (wr_bytes old 0 chunk_header)\<rparr>"

section \<open>The undo buffer\<close>

record UndoStore =
  undo_heap :: "undo_ptr \<Rightarrow> UndoRecord option"
  arenas :: "nat \<Rightarrow> FixedBumpArena"
  arena_pool :: ObjectPool

record UndoBuffer =
  buffers :: "nat list"
  last_record :: "undo_ptr option"

definition UndoBuffer_new :: UndoBuffer where
  "UndoBuffer_new = \<lparr>buffers = [], last_record = None\<rparr>"

text \<open>Taking a segment from the pool. An object that the pool takes from its queue keeps its fill level; a
  new one starts empty.\<close>

definition take_segment :: "UndoStore \<Rightarrow> (UndoStore \<times> nat) res" where
  "take_segment st =
     ebind (pool_Get (arena_pool st)) (\<lambda>(pool', seg).
       let arenas' = (if pool_queue (arena_pool st) = []
                      then (arenas st)(seg := FixedBumpArena_new (arena_data (arenas st seg))) else arenas st)
       in Inr (st\<lparr>arenas := arenas', arena_pool := pool'\<rparr>, seg))"

definition NewEntry :: "UndoStore \<Rightarrow> UndoBuffer \<Rightarrow> u32 \<Rightarrow> (UndoStore \<times> UndoBuffer \<times> undo_ptr) res" where
  "NewEntry st b sz =
     ebind
       (if buffers b = [] \<or> \<not> HasAvailableSpace (arenas st (last (buffers b))) sz
        then ebind (take_segment st) (\<lambda>(st', seg). Inr (st', b\<lparr>buffers := buffers b @ [seg]\<rparr>))
        else Inr (st, b))
       (\<lambda>(st1, b1).
         let seg = last (buffers b1)
         in ebind (arena_Allocate (arenas st1 seg) sz) (\<lambda>(a', off).
              DB7_ASSERT (off mod 8 = 0) ''unaligned ptr''
                (Inr (st1\<lparr>arenas := (arenas st1)(seg := a')\<rparr>, b1\<lparr>last_record := Some (seg, off)\<rparr>, (seg, off)))))"

definition UndoBuffer_destroy :: "UndoStore \<Rightarrow> UndoBuffer \<Rightarrow> UndoStore" where
  "UndoBuffer_destroy st b = st\<lparr>arena_pool := foldl pool_Release (arena_pool st) (buffers b)\<rparr>"

definition set_record :: "UndoStore \<Rightarrow> undo_ptr \<Rightarrow> UndoRecord \<Rightarrow> UndoStore" where
  "set_record st p r = st\<lparr>undo_heap := (undo_heap st)(p := Some r)\<rparr>"

text \<open>The iterator of the buffer: the remaining segments and the offset in the first of them.\<close>

definition delta_size :: "(undo_ptr \<Rightarrow> u32) \<Rightarrow> undo_ptr \<Rightarrow> UndoRecord \<Rightarrow> u32" where
  "delta_size pad p r = (case delta_of r of Some d \<Rightarrow> chunk_GetSize d | None \<Rightarrow> pad p)"

definition undo_iter_next ::
    "(undo_ptr \<Rightarrow> u32) \<Rightarrow> UndoStore \<Rightarrow> nat \<Rightarrow> nat list \<Rightarrow> u32 \<Rightarrow> UndoRecord \<Rightarrow> nat list \<times> u32" where
  "undo_iter_next pad st seg segs segment_offset r =
     (let segment_offset' = segment_offset + (UNDO_RECORD_SIZE + delta_size pad (seg, unat segment_offset) r)
      in if segment_offset' = arena_size (arenas st seg) then (segs, 0) else (seg # segs, segment_offset'))"

text \<open>As values, the iterators are pairs of the remaining segments and the offset: \<^verbatim>\<open>begin\<close>, \<^verbatim>\<open>end\<close>, the record under the
  iterator, comparison, and the postfix increment, which returns the old iterator.\<close>

type_synonym undo_iter = "nat list \<times> u32"

definition undo_begin :: "UndoBuffer \<Rightarrow> undo_iter" where
  "undo_begin b = (buffers b, 0)"

definition undo_end :: "UndoBuffer \<Rightarrow> undo_iter" where
  "undo_end b = ([], 0)"

definition undo_deref :: "UndoStore \<Rightarrow> undo_iter \<Rightarrow> (undo_ptr \<times> UndoRecord) res" where
  "undo_deref st it =
     (case it of ([], _) \<Rightarrow> Inl OutOfRange
      | (seg # _, segment_offset) \<Rightarrow>
          (case undo_heap st (seg, unat segment_offset) of None \<Rightarrow> Inl OutOfRange
           | Some r \<Rightarrow> Inr ((seg, unat segment_offset), r)))"

definition undo_iter_eq :: "undo_iter \<Rightarrow> undo_iter \<Rightarrow> bool" where
  "undo_iter_eq it other \<longleftrightarrow> snd it = snd other \<and> fst it = fst other"

definition undo_postfix :: "(undo_ptr \<Rightarrow> u32) \<Rightarrow> UndoStore \<Rightarrow> undo_iter \<Rightarrow> (undo_iter \<times> undo_iter) res" where
  "undo_postfix pad st it =
     ebind (undo_deref st it) (\<lambda>(p, r). Inr (it, undo_iter_next pad st (fst p) (tl (fst it)) (snd it) r))"

text \<open>The loop of \<^verbatim>\<open>RestampVersions\<close>. Dereferencing the iterator where no record starts is the value
  \<open>Inl OutOfRange\<close>; the fuel bounds the number of steps.\<close>

fun restamp_loop ::
    "nat \<Rightarrow> (undo_ptr \<Rightarrow> u32) \<Rightarrow> timestamp_t \<Rightarrow> UndoStore \<Rightarrow> nat list \<Rightarrow> u32 \<Rightarrow> UndoStore res option" where
  "restamp_loop 0 pad commit_time st segs segment_offset = None"
| "restamp_loop (Suc fuel) pad commit_time st segs segment_offset =
     (case segs of
        [] \<Rightarrow> Some (if segment_offset = 0 then Inr st else Inl OutOfRange)
      | seg # rest \<Rightarrow>
          (case undo_heap st (seg, unat segment_offset) of
             None \<Rightarrow> Some (Inl OutOfRange)
           | Some r \<Rightarrow>
               let st' = set_record st (seg, unat segment_offset) (SetTimestamp r commit_time);
                   (segs', segment_offset') = undo_iter_next pad st' seg rest segment_offset r
               in restamp_loop fuel pad commit_time st' segs' segment_offset'))"

definition RestampVersions ::
    "nat \<Rightarrow> (undo_ptr \<Rightarrow> u32) \<Rightarrow> UndoStore \<Rightarrow> UndoBuffer \<Rightarrow> timestamp_t \<Rightarrow> UndoStore res option" where
  "RestampVersions fuel pad st b commit_time = restamp_loop fuel pad commit_time st (buffers b) 0"

text \<open>The loop is the range-based \<^verbatim>\<open>for\<close> of the code: from \<^verbatim>\<open>begin\<close>, as long as the iterator is not \<^verbatim>\<open>end\<close>, one step on.\<close>

lemma restamp_loop_iter:
  "restamp_loop (Suc fuel) pad time st segs off =
     (if undo_iter_eq (segs, off) (undo_end b) then Some (Inr st)
      else case undo_deref st (segs, off) of
          Inl e \<Rightarrow> Some (Inl e)
        | Inr (p, r) \<Rightarrow>
            (let st' = set_record st p (SetTimestamp r time); it = undo_iter_next pad st' (fst p) (tl segs) off r
             in restamp_loop fuel pad time st' (fst it) (snd it)))"
  by (cases segs) (auto simp: undo_iter_eq_def undo_end_def undo_deref_def Let_def split: option.splits prod.splits)

section \<open>The redo buffer (storage/redo_buffer.hpp)\<close>

datatype DurabilityPolicy = DISABLED | SYNC

text \<open>\<open>log_manager\<close> says whether there is a log manager; flushing is not written yet in the source.\<close>

record RedoBuffer =
  log_manager :: bool
  segment_old :: nat
  redo_segment :: nat
  redo_last_record :: "(nat \<times> nat) option"
  has_flushed :: bool

definition RedoBuffer_new :: "UndoStore \<Rightarrow> bool \<Rightarrow> (UndoStore \<times> RedoBuffer) res" where
  "RedoBuffer_new st lm =
     ebind (take_segment st) (\<lambda>(st', seg).
       Inr (st', \<lparr>log_manager = lm, segment_old = seg, redo_segment = seg, redo_last_record = None, has_flushed = False\<rparr>))"

definition redo_NewEntry ::
    "UndoStore \<Rightarrow> RedoBuffer \<Rightarrow> u32 \<Rightarrow> DurabilityPolicy \<Rightarrow> (UndoStore \<times> RedoBuffer \<times> nat \<times> nat) res" where
  "redo_NewEntry st b sz policy =
     (let b1 = (if \<not> HasAvailableSpace (arenas st (redo_segment b)) sz
                then if log_manager b \<and> policy = DISABLED then b\<lparr>has_flushed := True\<rparr>
                     else b\<lparr>redo_segment := segment_old b\<rparr>
                else b);
          seg = redo_segment b1
      in DB7_ASSERT (HasAvailableSpace (arenas st seg) sz) ''Data larger than page''
           (ebind (arena_Allocate (arenas st seg) sz) (\<lambda>(a', off).
              Inr (st\<lparr>arenas := (arenas st)(seg := a')\<rparr>, b1\<lparr>redo_last_record := Some (seg, off)\<rparr>, seg, off))))"

definition RedoBuffer_destroy :: "UndoStore \<Rightarrow> RedoBuffer \<Rightarrow> UndoStore" where
  "RedoBuffer_destroy st b = st\<lparr>arena_pool := pool_Release (arena_pool st) (redo_segment b)\<rparr>"

section \<open>Transaction contexts\<close>

record TransactionContext =
  start_time :: timestamp_t
  finish_time :: timestamp_t
  rollback :: bool
  undo_buffer :: UndoBuffer
  redo_buffer :: RedoBuffer
  durability_policy :: DurabilityPolicy

definition TransactionContext_new ::
    "UndoStore \<Rightarrow> timestamp_t \<Rightarrow> timestamp_t \<Rightarrow> (UndoStore \<times> TransactionContext) res" where
  "TransactionContext_new st time finish =
     ebind (RedoBuffer_new st False) (\<lambda>(st', redo).
       Inr (st', \<lparr>start_time = time, finish_time = finish, rollback = False, undo_buffer = UndoBuffer_new,
                   redo_buffer = redo, durability_policy = SYNC\<rparr>))"

definition Abort :: "TransactionContext \<Rightarrow> TransactionContext" where
  "Abort txn = txn\<lparr>rollback := True\<rparr>"

text \<open>The commit latch is only held inside \<^verbatim>\<open>Commit\<close>; between whole calls it is free and \<^verbatim>\<open>Try\<close> returns.\<close>

definition BeginTransaction :: "UndoStore \<Rightarrow> timestamp_t \<Rightarrow> (UndoStore \<times> timestamp_t \<times> TransactionContext) res" where
  "BeginTransaction st clock =
     (let (start, clock') = CheckOutTimestamp clock
      in ebind (TransactionContext_new st start (start + INVALID_TXN_TIMESTAMP)) (\<lambda>(st', txn).
           Inr (st', clock', txn)))"

definition Commit ::
    "nat \<Rightarrow> (undo_ptr \<Rightarrow> u32) \<Rightarrow> timestamp_t \<Rightarrow> UndoStore \<Rightarrow> TransactionContext \<Rightarrow> (timestamp_t \<times> timestamp_t \<times> UndoStore) res option" where
  "Commit fuel pad clock st txn =
     (if rollback txn then Some (Inl (AssertFailed ''Txn shouldnt be aborted''))
      else
        let (commit_time, clock') = CheckOutTimestamp clock
        in map_option (\<lambda>r. ebind r (\<lambda>st'. Inr (commit_time, clock', st')))
             (RestampVersions fuel pad st (undo_buffer txn) commit_time))"

definition new_undo ::
    "UndoStore \<Rightarrow> TransactionContext \<Rightarrow> u32 \<Rightarrow> (undo_ptr \<Rightarrow> UndoStore \<Rightarrow> UndoRecord) \<Rightarrow>
     (UndoStore \<times> TransactionContext \<times> undo_ptr) res" where
  "new_undo st txn sz mk =
     ebind (NewEntry st (undo_buffer txn) sz) (\<lambda>(st1, b1, p).
       Inr (set_record st1 p (mk p st1), txn\<lparr>undo_buffer := b1\<rparr>, p))"

definition UndoRecordForInsert ::
    "UndoStore \<Rightarrow> TransactionContext \<Rightarrow> table_id \<Rightarrow> page_id \<Rightarrow> u32 \<Rightarrow> (UndoStore \<times> TransactionContext \<times> undo_ptr) res" where
  "UndoRecordForInsert st txn tbl pid i =
     new_undo st txn UNDO_RECORD_SIZE (\<lambda>p st1. InitializeInsert (finish_time txn) tbl pid i)"

definition UndoRecordForDelete ::
    "UndoStore \<Rightarrow> TransactionContext \<Rightarrow> table_id \<Rightarrow> page_id \<Rightarrow> u32 \<Rightarrow> (UndoStore \<times> TransactionContext \<times> undo_ptr) res" where
  "UndoRecordForDelete st txn tbl pid i =
     new_undo st txn UNDO_RECORD_SIZE (\<lambda>p st1. InitializeDelete (finish_time txn) tbl pid i)"

definition UndoRecordForUpdate ::
    "UndoStore \<Rightarrow> TransactionContext \<Rightarrow> table_id \<Rightarrow> page_id \<Rightarrow> u32 \<Rightarrow> mem \<Rightarrow> (UndoStore \<times> TransactionContext \<times> undo_ptr) res" where
  "UndoRecordForUpdate st txn tbl pid i chunk =
     new_undo st txn (UNDO_RECORD_SIZE + chunk_GetSize chunk)
       (\<lambda>(seg, off) st1. InitializeUpdate (finish_time txn) tbl pid i (GetHeaderPtr chunk)
          (\<lambda>a. arena_data (arenas st1 seg) (off + 40 + a)))"

section \<open>A transaction's records\<close>

text \<open>\<open>filled st seg off sizes\<close>: from offset \<open>off\<close> to the fill level of the arena there are records of the
  given sizes, one behind the other, and no other record starts there.\<close>

definition rec_size :: "UndoRecord \<Rightarrow> nat" where
  "rec_size r = 40 + (case delta_of r of Some d \<Rightarrow> unat (chunk_GetSize d) | None \<Rightarrow> 0)"

fun filled :: "UndoStore \<Rightarrow> nat \<Rightarrow> nat \<Rightarrow> nat list \<Rightarrow> bool" where
  "filled st seg off [] \<longleftrightarrow> off = unat (arena_size (arenas st seg)) \<and> (\<forall>o' \<ge> off. undo_heap st (seg, o') = None)"
| "filled st seg off (n # ns) \<longleftrightarrow>
     (\<exists>r. undo_heap st (seg, off) = Some r \<and> n = rec_size r) \<and> off + n \<le> 4096 \<and>
     (\<forall>o'. off < o' \<and> o' < off + n \<longrightarrow> undo_heap st (seg, o') = None) \<and> filled st seg (off + n) ns"

definition undo_buf_ok :: "UndoStore \<Rightarrow> UndoBuffer \<Rightarrow> bool" where
  "undo_buf_ok st b \<longleftrightarrow> distinct (buffers b) \<and>
     (\<forall>seg \<in> set (buffers b). arena_ok (arenas st seg) \<and> (\<exists>ns. ns \<noteq> [] \<and> filled st seg 0 ns))"

definition stamp_heap :: "UndoStore \<Rightarrow> (undo_ptr \<Rightarrow> bool) \<Rightarrow> timestamp_t \<Rightarrow> undo_ptr \<Rightarrow> UndoRecord option" where
  "stamp_heap st P time p = (if P p then map_option (\<lambda>r. SetTimestamp r time) (undo_heap st p) else undo_heap st p)"

lemma rec_size_SetTimestamp [simp]: "rec_size (SetTimestamp r time) = rec_size r"
  by (simp add: rec_size_def SetTimestamp_def)

lemma filled_bound: "filled st seg off ns \<Longrightarrow> off \<le> unat (arena_size (arenas st seg))"
proof (induction ns arbitrary: off)
  case (Cons n ns)
  then have "off + n \<le> unat (arena_size (arenas st seg))" by simp
  then show ?case by simp
qed simp

lemma filled_cong:
  assumes "filled st seg off ns" "arenas st' seg = arenas st seg"
    "\<And>o'. off \<le> o' \<Longrightarrow> map_option rec_size (undo_heap st' (seg, o')) = map_option rec_size (undo_heap st (seg, o'))"
  shows "filled st' seg off ns"
  using assms
proof (induction ns arbitrary: off)
  case Nil
  then show ?case by auto
next
  case (Cons n ns)
  obtain r where r: "undo_heap st (seg, off) = Some r" "n = rec_size r" using Cons.prems(1) by auto
  with Cons.prems(3) [of off] obtain r' where "undo_heap st' (seg, off) = Some r'" "n = rec_size r'" by auto
  moreover have "filled st' seg (off + n) ns" using Cons.IH [of "off + n"] Cons.prems by simp
  moreover have "undo_heap st' (seg, o') = None" if "off < o'" "o' < off + n" for o'
    using Cons.prems(1) Cons.prems(3) [of o'] that by auto
  ultimately show ?case using Cons.prems(1) by auto
qed

lemma set_record_simps [simp]:
  "arenas (set_record st p r) = arenas st" "arena_pool (set_record st p r) = arena_pool st"
  "undo_heap (set_record st p r) = (undo_heap st)(p := Some r)"
  by (simp_all add: set_record_def)

lemma rec_step:
  assumes "delta_of r = None \<longrightarrow> pad p = 0" "unat off + rec_size r \<le> 4096"
  shows "unat (off + (UNDO_RECORD_SIZE + delta_size pad p r)) = unat off + rec_size r"
proof -
  have "unat (delta_size pad p r) = rec_size r - 40"
    using assms(1) by (auto simp: delta_size_def rec_size_def split: option.splits)
  moreover have "40 \<le> rec_size r" by (simp add: rec_size_def)
  ultimately show ?thesis
    using assms(2) by (simp add: unat_word_ariths UNDO_RECORD_SIZE_def)
qed

text \<open>One segment: every record of it gets the commit time, and the iterator arrives at the next segment.\<close>

lemma restamp_segment:
  assumes "filled st seg (unat off) ns" "ns \<noteq> []"
    and pad: "\<forall>p r. undo_heap st p = Some r \<longrightarrow> delta_of r = None \<longrightarrow> pad p = 0"
  shows "restamp_loop (length ns + fuel) pad time st (seg # rest) off =
    restamp_loop fuel pad time
      (st\<lparr>undo_heap := stamp_heap st (\<lambda>(s, o'). s = seg \<and> unat off \<le> o') time\<rparr>) rest 0"
  using assms
proof (induction ns arbitrary: st off)
  case Nil
  then show ?case by simp
next
  case (Cons n ns)
  from Cons.prems(1) obtain r where r: "undo_heap st (seg, unat off) = Some r" "n = rec_size r"
    "unat off + n \<le> 4096" and fl: "filled st seg (unat off + n) ns"
    and gap: "\<And>o'. unat off < o' \<Longrightarrow> o' < unat off + n \<Longrightarrow> undo_heap st (seg, o') = None" by auto
  define st' where "st' = set_record st (seg, unat off) (SetTimestamp r time)"
  define off' where "off' = off + (UNDO_RECORD_SIZE + delta_size pad (seg, unat off) r)"
  have off': "unat off' = unat off + n"
    using rec_step [of r pad "(seg, unat off)" off] Cons.prems(3) r by (simp add: off'_def)
  have n40: "40 \<le> n" by (simp add: r(2) rec_size_def)
  have step: "restamp_loop (length (n # ns) + fuel) pad time st (seg # rest) off =
      (if off' = arena_size (arenas st seg) then restamp_loop (length ns + fuel) pad time st' rest 0
       else restamp_loop (length ns + fuel) pad time st' (seg # rest) off')"
    by (simp add: r(1) undo_iter_next_def Let_def st'_def off'_def)
  have heap: "stamp_heap st' (\<lambda>(s, o'). s = seg \<and> unat off + n \<le> o') time =
      stamp_heap st (\<lambda>(s, o'). s = seg \<and> unat off \<le> o') time"
    using gap n40 r(1) by (auto simp: stamp_heap_def st'_def fun_eq_iff not_le)
  show ?case
  proof (cases ns)
    case Nil
    with fl have e: "unat off + n = unat (arena_size (arenas st seg))"
      and no: "\<And>o'. unat off + n \<le> o' \<Longrightarrow> undo_heap st (seg, o') = None" by auto
    from e off' have eq: "off' = arena_size (arenas st seg)" by (simp add: word_unat_eq_iff)
    have "st' = st\<lparr>undo_heap := stamp_heap st (\<lambda>(s, o'). s = seg \<and> unat off \<le> o') time\<rparr>"
      unfolding heap [symmetric] using no n40 by (auto simp: stamp_heap_def st'_def set_record_def fun_eq_iff)
    with step eq Nil show ?thesis by simp
  next
    case (Cons m ms)
    with fl have "0 < m" "unat off + n + m \<le> unat (arena_size (arenas st seg))"
      using filled_bound [of st seg "unat off + n + m" ms] by (auto simp: rec_size_def)
    with off' have ne: "off' \<noteq> arena_size (arenas st seg)" by auto
    have fl': "filled st' seg (unat off') ns"
      unfolding off' using fl n40 by (rule_tac filled_cong [OF fl]) (simp_all add: st'_def)
    have pad': "\<forall>p q. undo_heap st' p = Some q \<longrightarrow> delta_of q = None \<longrightarrow> pad p = 0"
      using Cons.prems(3) r(1) by (auto simp: st'_def SetTimestamp_def)
    have "restamp_loop (length ns + fuel) pad time st' (seg # rest) off' =
        restamp_loop fuel pad time (st'\<lparr>undo_heap := stamp_heap st' (\<lambda>(s, o'). s = seg \<and> unat off' \<le> o') time\<rparr>) rest 0"
      by (rule Cons.IH [OF fl' _ pad']) (simp add: Cons)
    also have "st'\<lparr>undo_heap := stamp_heap st' (\<lambda>(s, o'). s = seg \<and> unat off' \<le> o') time\<rparr> =
        st\<lparr>undo_heap := stamp_heap st (\<lambda>(s, o'). s = seg \<and> unat off \<le> o') time\<rparr>"
      unfolding off' heap by (simp add: st'_def set_record_def)
    finally show ?thesis using step ne by simp
  qed
qed

lemma restamp_segments:
  assumes "distinct segs" "\<forall>seg \<in> set segs. \<exists>ns. ns \<noteq> [] \<and> filled st seg 0 ns"
    "\<forall>p r. undo_heap st p = Some r \<longrightarrow> delta_of r = None \<longrightarrow> pad p = 0"
  shows "\<exists>n. \<forall>fuel. restamp_loop (n + Suc fuel) pad time st segs 0 =
    Some (Inr (st\<lparr>undo_heap := stamp_heap st (\<lambda>(s, o'). s \<in> set segs) time\<rparr>))"
  using assms
proof (induction segs arbitrary: st)
  case Nil
  have "st\<lparr>undo_heap := stamp_heap st (\<lambda>a. False) time\<rparr> = st"
    by (rule UndoStore.equality) (simp_all add: stamp_heap_def fun_eq_iff)
  then show ?case by (intro exI [of _ 0]) simp
next
  case (Cons seg segs)
  from Cons.prems(2) obtain ns where ns: "filled st seg 0 ns" "ns \<noteq> []" by auto
  define st' where "st' = st\<lparr>undo_heap := stamp_heap st (\<lambda>(s, o'). s = seg) time\<rparr>"
  have seg: "restamp_loop (length ns + fuel) pad time st (seg # segs) 0 = restamp_loop fuel pad time st' segs 0" for fuel
    using restamp_segment [where off = 0 and st = st, OF _ ns(2) Cons.prems(3)] ns(1) by (simp add: st'_def)
  have keep: "\<forall>s \<in> set segs. \<exists>ns. ns \<noteq> [] \<and> filled st' s 0 ns"
  proof
    fix s
    assume "s \<in> set segs"
    with Cons.prems(2) obtain ms where ms: "ms \<noteq> []" "filled st s 0 ms" by auto
    have "filled st' s 0 ms"
      by (rule filled_cong [OF ms(2)]) (simp_all add: st'_def stamp_heap_def option.map_comp comp_def)
    with ms(1) show "\<exists>ns. ns \<noteq> [] \<and> filled st' s 0 ns" by blast
  qed
  have "\<forall>p r. undo_heap st' p = Some r \<longrightarrow> delta_of r = None \<longrightarrow> pad p = 0"
    using Cons.prems(3) by (auto simp: st'_def stamp_heap_def SetTimestamp_def split: if_splits)
  with Cons.IH [OF _ keep] Cons.prems(1) obtain n where n: "restamp_loop (n + Suc fuel) pad time st' segs 0 =
      Some (Inr (st'\<lparr>undo_heap := stamp_heap st' (\<lambda>(s, o'). s \<in> set segs) time\<rparr>))" for fuel
    by auto
  have heap: "stamp_heap st' (\<lambda>(s, o'). s \<in> set segs) time = stamp_heap st (\<lambda>(s, o'). s \<in> set (seg # segs)) time"
    using Cons.prems(1) by (auto simp: stamp_heap_def st'_def fun_eq_iff)
  have "restamp_loop ((length ns + n) + Suc fuel) pad time st (seg # segs) 0 =
      Some (Inr (st\<lparr>undo_heap := stamp_heap st (\<lambda>(s, o'). s \<in> set (seg # segs)) time\<rparr>))" for fuel
    using seg [of "n + Suc fuel"] n [of fuel] heap by (simp add: st'_def add.assoc)
  then show ?case by blast
qed

text \<open>Where records are and where they are not; a transaction's arenas are its own.\<close>

definition store_ok :: "UndoStore \<Rightarrow> UndoBuffer \<Rightarrow> bool" where
  "store_ok st b \<longleftrightarrow> undo_buf_ok st b \<and> pool_ok (arena_pool st) \<and> set (buffers b) \<subseteq> pool_out (arena_pool st) \<and>
     (\<forall>seg o'. seg \<ge> pool_next (arena_pool st) \<longrightarrow> undo_heap st (seg, o') = None)"

text \<open>Appending a record to the last arena.\<close>

lemma filled_append:
  assumes "filled st seg off ns" "unat (arena_size (arenas st seg)) + n \<le> 4096" "n = rec_size r" "8 dvd n"
    "arenas st' = (arenas st)(seg := a')" "unat (arena_size a') = unat (arena_size (arenas st seg)) + n"
    "undo_heap st' = (undo_heap st)((seg, unat (arena_size (arenas st seg))) := Some r)"
  shows "filled st' seg off (ns @ [n])"
  using assms
proof (induction ns arbitrary: off)
  case Nil
  then show ?case by (auto simp: rec_size_def)
next
  case (Cons m ms)
  then have IH: "filled st' seg (off + m) (ms @ [n])" by simp
  have "off + m \<le> unat (arena_size (arenas st seg))" using Cons.prems(1) filled_bound by auto
  moreover have "0 < m" using Cons.prems(1) by (auto simp: rec_size_def)
  ultimately show ?case using Cons.prems(1,7) IH by auto
qed

text \<open>A store stays well formed when a record goes into one segment, old or new, and the rest stays.\<close>

lemma store_ok_record:
  assumes ok: "store_ok st b"
    and seg: "arena_ok a'" "filled (set_record st' (seg, off) r) seg 0 ns" "ns \<noteq> []"
    and st': "arenas st' = (arenas st)(seg := a')" "undo_heap st' = undo_heap st"
    and pool: "pool_ok (arena_pool st')" "pool_next (arena_pool st) \<le> pool_next (arena_pool st')" "seg < pool_next (arena_pool st')"
    and b': "distinct (buffers b')" "set (buffers b') \<subseteq> insert seg (set (buffers b))" "set (buffers b') \<subseteq> pool_out (arena_pool st')"
  shows "store_ok (set_record st' (seg, off) r) b'"
proof -
  note inv = ok [unfolded store_ok_def undo_buf_ok_def]
  have "arena_ok (arenas (set_record st' (seg, off) r) s) \<and> (\<exists>ns. ns \<noteq> [] \<and> filled (set_record st' (seg, off) r) s 0 ns)"
    if s: "s \<in> set (buffers b')" for s
  proof (cases "s = seg")
    case True
    then show ?thesis using seg st' by auto
  next
    case False
    with s b'(2) inv obtain ns where ns: "arena_ok (arenas st s)" "ns \<noteq> []" "filled st s 0 ns" by blast
    have "filled (set_record st' (seg, off) r) s 0 ns" using False st' by (intro filled_cong [OF ns(3)]) auto
    with ns False st' show ?thesis by auto
  qed
  then show ?thesis using inv pool b'(1,3) st'(2) by (auto simp: store_ok_def undo_buf_ok_def)
qed

definition entry_added :: "UndoStore \<Rightarrow> UndoBuffer \<Rightarrow> u32 \<Rightarrow> bool" where
  "entry_added st b sz \<longleftrightarrow>
     (\<exists>st' b' seg off. NewEntry st b sz = Inr (st', b', seg, off) \<and>
       undo_heap st' = undo_heap st \<and> undo_heap st (seg, off) = None \<and> b' = b\<lparr>buffers := buffers b', last_record := Some (seg, off)\<rparr> \<and>
       pool_queue (arena_pool st') = pool_queue (arena_pool st) \<and> size_limit (arena_pool st') = size_limit (arena_pool st) \<and>
       (\<forall>r. rec_size r = unat sz \<longrightarrow> store_ok (set_record st' (seg, off) r) b'))"

lemma size_aligned: "8 dvd n \<Longrightarrow> (n + 7) div 8 * 8 = (n :: nat)"
  by auto

text \<open>Without room in the last segment, the record starts a new one.\<close>

lemma NewEntry_new_segment:
  assumes ok: "store_ok st b" and q: "pool_queue (arena_pool st) = []"
    and room: "curr_size (arena_pool st) < size_limit (arena_pool st)" and sz: "8 dvd unat sz" "unat sz \<le> 4096" "0 < unat sz"
    and full: "buffers b = [] \<or> \<not> HasAvailableSpace (arenas st (last (buffers b))) sz"
  shows "entry_added st b sz"
proof -
  note inv = ok [unfolded store_ok_def undo_buf_ok_def] and al = size_aligned [OF sz(1)]
  define seg where "seg = pool_next (arena_pool st)"
  define pool' where "pool' = (arena_pool st)\<lparr>curr_size := curr_size (arena_pool st) + 1,
    pool_out := insert seg (pool_out (arena_pool st)), pool_next := seg + 1\<rparr>"
  have get: "pool_Get (arena_pool st) = Inr (pool', seg)"
    using q room by (simp add: pool_Get_def pool'_def seg_def)
  have pok: "pool_ok pool'" using pool_Get_ok(1) [OF _ get] inv by simp
  define a0 where "a0 = FixedBumpArena_new (arena_data (arenas st seg))"
  have a0: "arena_ok a0" "arena_size a0 = 0" "HasAvailableSpace a0 sz"
    using sz al by (simp_all add: a0_def FixedBumpArena_new_def arena_ok_def HasAvailableSpace_iff)
  obtain a' where a': "arena_Allocate a0 sz = Inr (a', 0)" "arena_ok a'" "unat (arena_size a') = unat sz"
    using arena_Allocate_ok [OF a0(1,3)] a0(2) al by auto
  define st' where "st' = st\<lparr>arenas := (arenas st)(seg := a'), arena_pool := pool'\<rparr>"
  define b' where "b' = b\<lparr>buffers := buffers b @ [seg], last_record := Some (seg, 0)\<rparr>"
  have new: "NewEntry st b sz = Inr (st', b', seg, 0)"
    using full get q a'(1) by (simp add: NewEntry_def take_segment_def Let_def a0_def st'_def b'_def)
  have fresh: "undo_heap st (seg, o') = None" for o' using inv by (simp add: seg_def)
  have segn: "seg \<notin> set (buffers b)" using inv by (auto simp: seg_def pool_ok_def pool_objects_def)
  have "store_ok (set_record st' (seg, 0) r) b'" if r: "rec_size r = unat sz" for r
  proof (rule store_ok_record [OF ok a'(2), where ns = "[unat sz]"])
    show "filled (set_record st' (seg, 0) r) seg 0 [unat sz]" using r sz a'(3) fresh by (auto simp: st'_def)
  qed (use inv segn pok in \<open>auto simp: st'_def b'_def pool'_def seg_def\<close>)
  with new fresh show ?thesis unfolding entry_added_def
    by (intro exI [of _ st'] exI [of _ b'] exI [of _ seg] exI [of _ 0]) (simp add: st'_def b'_def pool'_def)
qed

text \<open>Otherwise it goes behind the last record.\<close>

lemma filled_end: "filled st seg off ns \<Longrightarrow> undo_heap st (seg, unat (arena_size (arenas st seg))) = None"
  by (induction ns arbitrary: off) auto

lemma NewEntry_same_segment:
  assumes ok: "store_ok st b" and sz: "8 dvd unat sz" "unat sz \<le> 4096" "0 < unat sz"
    and sp: "buffers b \<noteq> []" "HasAvailableSpace (arenas st (last (buffers b))) sz"
  shows "entry_added st b sz"
proof -
  note inv = ok [unfolded store_ok_def undo_buf_ok_def] and al = size_aligned [OF sz(1)]
  define seg where "seg = last (buffers b)"
  have segin: "seg \<in> set (buffers b)" using sp(1) by (simp add: seg_def)
  with inv obtain ns where ns: "ns \<noteq> []" "filled st seg 0 ns" and aok: "arena_ok (arenas st seg)" by auto
  define off where "off = unat (arena_size (arenas st seg))"
  obtain a' where a': "arena_Allocate (arenas st seg) sz = Inr (a', off)" "arena_ok a'" "unat (arena_size a') = off + unat sz"
    using arena_Allocate_ok [OF aok, of sz] sp(2) al by (auto simp: off_def seg_def)
  have le: "off + unat sz \<le> 4096" using sp(2) al by (simp add: HasAvailableSpace_iff off_def seg_def)
  have o8: "off mod 8 = 0" using aok by (auto simp: arena_ok_def off_def)
  define st' where "st' = st\<lparr>arenas := (arenas st)(seg := a')\<rparr>"
  define b' where "b' = b\<lparr>last_record := Some (seg, off)\<rparr>"
  have new: "NewEntry st b sz = Inr (st', b', seg, off)"
    using sp a'(1) o8 by (simp add: NewEntry_def Let_def st'_def b'_def seg_def)
  have "store_ok (set_record st' (seg, off) r) b'" if r: "rec_size r = unat sz" for r
  proof (rule store_ok_record [OF ok a'(2), where ns = "ns @ [unat sz]"])
    show "filled (set_record st' (seg, off) r) seg 0 (ns @ [unat sz])"
      by (rule filled_append [OF ns(2), where r = r and a' = a']) (use le r sz a'(3) in \<open>auto simp: st'_def off_def\<close>)
  qed (use inv segin in \<open>auto simp: st'_def b'_def pool_ok_def pool_objects_def\<close>)
  with new filled_end [OF ns(2)] show ?thesis unfolding entry_added_def
    by (intro exI [of _ st'] exI [of _ b'] exI [of _ seg] exI [of _ off]) (simp add: st'_def b'_def off_def)
qed

lemma NewEntry_ok:
  assumes ok: "store_ok st b" and q: "pool_queue (arena_pool st) = []"
    and room: "curr_size (arena_pool st) < size_limit (arena_pool st)" and sz: "8 dvd unat sz" "unat sz \<le> 4096" "0 < unat sz"
  shows "\<exists>st' b' seg off a'. NewEntry st b sz = Inr (st', b', seg, off) \<and>
    undo_heap st' = undo_heap st \<and> undo_heap st (seg, off) = None \<and> b' = b\<lparr>buffers := buffers b', last_record := Some (seg, off)\<rparr> \<and>
    pool_queue (arena_pool st') = [] \<and> size_limit (arena_pool st') = size_limit (arena_pool st) \<and>
    (\<forall>r. rec_size r = unat sz \<longrightarrow> store_ok (set_record st' (seg, off) r) b')"
  using NewEntry_new_segment [OF assms] NewEntry_same_segment [OF ok sz] q unfolding entry_added_def by auto

end
