(* ===== verification/Mvcc.thy ===== *)
theory Mvcc
  imports Undo
begin

text \<open>
  The table heap with multi-version concurrency control: \<^verbatim>\<open>access/table.hpp\<close>, \<^verbatim>\<open>src/access/table.cpp\<close>,
  \<^verbatim>\<open>storage/mvcc/page_version_manager.hpp\<close>, \<^verbatim>\<open>storage/mvcc/version_ptr.hpp\<close> and the version lookups of
  \<^verbatim>\<open>transaction/transaction_context.hpp\<close>.

  A version array is named by the page id it was created for. The compare-and-swap loops take the
  argument \<open>others\<close>: the heads that other threads install between the load and the swap of each
  iteration; the empty list means that nobody interferes any more. Page latches make the other
  parts of an operation atomic. The walk along the version chain has fuel.
\<close>

section \<open>Version arrays\<close>

record PageIdentifier =
  tbl_id :: table_id
  pid :: page_id

record Mvcc =
  undo :: UndoStore
  version_table :: "PageIdentifier \<rightharpoonup> undo_ptr option list"

record TablePage =
  page_data :: mem
  page_versions :: "PageIdentifier option"

definition GetUnsafe :: "Mvcc \<Rightarrow> PageIdentifier \<Rightarrow> PageIdentifier option" where
  "GetUnsafe mv i = (case version_table mv i of None \<Rightarrow> None | Some _ \<Rightarrow> Some i)"

definition GetCreateVersions :: "Mvcc \<Rightarrow> PageIdentifier \<Rightarrow> u32 \<Rightarrow> Mvcc \<times> PageIdentifier" where
  "GetCreateVersions mv i cnt =
     (case GetUnsafe mv i of
        None \<Rightarrow> (mv\<lparr>version_table := (version_table mv)(i \<mapsto> replicate (unat cnt) None)\<rparr>, i)
      | Some arr \<Rightarrow> (mv, arr))"

definition version_load :: "Mvcc \<Rightarrow> PageIdentifier \<Rightarrow> u32 \<Rightarrow> undo_ptr option res" where
  "version_load mv arr i =
     (case version_table mv arr of
        None \<Rightarrow> Inl NullDeref
      | Some vs \<Rightarrow> if unat i < length vs then Inr (vs ! unat i) else Inl OutOfRange)"

definition version_store :: "Mvcc \<Rightarrow> PageIdentifier \<Rightarrow> u32 \<Rightarrow> undo_ptr option \<Rightarrow> Mvcc" where
  "version_store mv arr i p =
     mv\<lparr>version_table := (version_table mv)(arr := map_option (\<lambda>vs. vs[unat i := p]) (version_table mv arr))\<rparr>"

definition deref :: "Mvcc \<Rightarrow> undo_ptr \<Rightarrow> UndoRecord res" where
  "deref mv p = (case undo_heap (undo mv) p of None \<Rightarrow> Inl NullDeref | Some r \<Rightarrow> Inr r)"

definition mv_set_record :: "Mvcc \<Rightarrow> undo_ptr \<Rightarrow> UndoRecord \<Rightarrow> Mvcc" where
  "mv_set_record mv p r = mv\<lparr>undo := set_record (undo mv) p r\<rparr>"

definition GetDelta :: "Mvcc \<Rightarrow> PageIdentifier \<Rightarrow> u32 \<Rightarrow> undo_ptr option res" where
  "GetDelta mv i idx = (case GetUnsafe mv i of None \<Rightarrow> Inr None | Some arr \<Rightarrow> version_load mv arr idx)"

definition page_GetVersions :: "Mvcc \<Rightarrow> TablePage \<Rightarrow> PageIdentifier \<Rightarrow> u32 \<Rightarrow> Mvcc \<times> TablePage \<times> PageIdentifier" where
  "page_GetVersions mv page i cnt =
     (case page_versions page of
        None \<Rightarrow> (let (mv', arr) = GetCreateVersions mv i cnt in (mv', page\<lparr>page_versions := Some arr\<rparr>, arr))
      | Some arr \<Rightarrow> (mv, page, arr))"

section \<open>Conflicts and lookups of a transaction\<close>

definition HasConflict :: "Mvcc \<Rightarrow> TransactionContext \<Rightarrow> undo_ptr option \<Rightarrow> bool res" where
  "HasConflict mv txn version_ptr =
     (case version_ptr of
        None \<Rightarrow> Inr False
      | Some p \<Rightarrow> ebind (deref mv p) (\<lambda>r.
          Inr (TxnUtil_HasConflict (rec_timestamp r) (finish_time txn) (start_time txn))))"

definition HasUniqueConflict :: "Mvcc \<Rightarrow> TransactionContext \<Rightarrow> PageIdentifier \<Rightarrow> u32 \<Rightarrow> bool res" where
  "HasUniqueConflict mv txn i idx =
     ebind (GetDelta mv i idx) (\<lambda>u.
       case u of
         None \<Rightarrow> Inr True
       | Some p \<Rightarrow> ebind (deref mv p) (\<lambda>r.
           let safely_deleted = undo_IsDeleted r \<and>
                 \<not> TxnUtil_HasConflict (rec_timestamp r) (finish_time txn) (start_time txn)
           in Inr (\<not> safely_deleted)))"

fun GetTidForModify :: "Mvcc \<Rightarrow> TransactionContext \<Rightarrow> table_id \<Rightarrow> TupleId list \<Rightarrow> TupleId ResultObj res" where
  "GetTidForModify mv txn tbl [] = Inr (Ok INVALID_TID)"
| "GetTidForModify mv txn tbl (t # ts) =
     ebind (GetDelta mv \<lparr>tbl_id = tbl, pid = GetPageId t\<rparr> (GetIndex t)) (\<lambda>u.
       case u of
         None \<Rightarrow> Inr (Ok t)
       | Some p \<Rightarrow> ebind (deref mv p) (\<lambda>r.
           if TxnUtil_HasConflict (rec_timestamp r) (finish_time txn) (start_time txn)
           then Inr (Fail (Some ''Conflicting version''))
           else if \<not> undo_IsDeleted r then Inr (Ok t)
           else GetTidForModify mv txn tbl ts))"

fun GetTidExists :: "Mvcc \<Rightarrow> table_id \<Rightarrow> TupleId list \<Rightarrow> bool res" where
  "GetTidExists mv tbl [] = Inr False"
| "GetTidExists mv tbl (t # ts) =
     ebind (GetDelta mv \<lparr>tbl_id = tbl, pid = GetPageId t\<rparr> (GetIndex t)) (\<lambda>u.
       case u of
         None \<Rightarrow> Inr True
       | Some p \<Rightarrow> ebind (deref mv p) (\<lambda>r.
           if \<not> undo_IsDeleted r then Inr True else GetTidExists mv tbl ts))"

section \<open>Tables\<close>

datatype RowStatus = Visible | Deleted | NotVisible

record Table =
  tbl_schema :: Schema
  tbl_layout :: PaxLayout
  tbl_oid :: table_id
  varlen_oid :: table_id

definition fill_sizes :: "SchemaColumn list \<Rightarrow> u16 list \<Rightarrow> u16 list res" where
  "fill_sizes cols szs =
     foldl (\<lambda>acc col. ebind acc (\<lambda>s.
       DB7_ASSERT (position col < word_of_nat (length s)) ''Column position out of range''
         (Inr (s[unat (position col) := ucast (type_size col)])))) (Inr szs) cols"

definition CreateLayoutFromSchema :: "Schema \<Rightarrow> PaxLayout res" where
  "CreateLayoutFromSchema schema =
     ebind (fill_sizes (schema_columns schema) (replicate (unat (Schema_GetCount schema)) 0)) (\<lambda>szs.
       Inr (PaxLayout_new szs))"

text \<open>The loop of \<^verbatim>\<open>UpdateUndo\<close>: check the head, write the page and the before-image, then swap the head.\<close>

fun update_loop ::
    "undo_ptr option list \<Rightarrow> Table \<Rightarrow> TransactionContext \<Rightarrow> PageIdentifier \<Rightarrow> u32 \<Rightarrow> mem \<Rightarrow> undo_ptr \<Rightarrow>
     Mvcc \<Rightarrow> mem \<Rightarrow> (bool \<times> Mvcc \<times> mem) res" where
  "update_loop others t txn versions idx chunk rp mv data =
     ebind (version_load mv versions idx) (\<lambda>version_ptr.
     ebind (HasConflict mv txn version_ptr) (\<lambda>conflict.
     ebind (deref mv rp) (\<lambda>r.
       if version_ptr \<noteq> None \<and> (conflict \<or> pax_IsDeleted data idx)
       then Inr (False, mv_set_record mv rp (Invalidate r), data)
       else
         ebind (UpdateSingle (tbl_schema t) (tbl_layout t) chunk (the (delta_of r)) data idx) (\<lambda>(delta', data').
           let mv1 = mv_set_record mv rp (r\<lparr>delta_of := Some delta', rec_next := version_ptr\<rparr>)
           in case others of
                [] \<Rightarrow> Inr (True, version_store mv1 versions idx (Some rp), data')
              | h # rest \<Rightarrow>
                  let mv2 = version_store mv1 versions idx h
                  in if h = version_ptr then Inr (True, version_store mv2 versions idx (Some rp), data')
                     else update_loop rest t txn versions idx chunk rp mv2 data'))))"

definition UpdateUndo ::
    "undo_ptr option list \<Rightarrow> Table \<Rightarrow> TransactionContext \<Rightarrow> Mvcc \<Rightarrow> TupleId \<Rightarrow> TablePage \<Rightarrow> mem \<Rightarrow>
     (bool \<times> TransactionContext \<times> Mvcc \<times> TablePage) res" where
  "UpdateUndo others t txn mv tup page chunk =
     (let cnt = max_row_count (tbl_layout t)
      in ebind (UndoRecordForUpdate (undo mv) txn (tbl_oid t) (GetPageId tup) (GetIndex tup) chunk) (\<lambda>(st1, txn1, rp).
         let (mv2, page2, versions) =
               page_GetVersions (mv\<lparr>undo := st1\<rparr>) page \<lparr>tbl_id = tbl_oid t, pid = GetPageId tup\<rparr> cnt
         in ebind (update_loop others t txn1 versions (GetIndex tup) chunk rp mv2 (page_data page2)) (\<lambda>(valid, mv3, data').
              Inr (valid, txn1, mv3, page2\<lparr>page_data := data'\<rparr>))))"

text \<open>Pages by id, as the buffer pool hands them out (pinned, loaded and latched for the operation).\<close>

type_synonym TablePages = "PageIdentifier \<Rightarrow> TablePage"

definition Table_Update ::
    "undo_ptr option list \<Rightarrow> Table \<Rightarrow> TransactionContext \<Rightarrow> Mvcc \<Rightarrow> TablePages \<Rightarrow> u32 \<Rightarrow> mem \<Rightarrow>
     (bool \<times> TransactionContext \<times> Mvcc \<times> TablePages) res" where
  "Table_Update others t txn mv pages idx chunk =
     (let i = \<lparr>tbl_id = tbl_oid t, pid = 1\<rparr>
      in ebind (UpdateUndo others t txn mv (TupleId_of idx 1) (pages i) chunk) (\<lambda>(valid, txn', mv', page').
           Inr (valid, txn', mv', pages(i := page'))))"

definition InsertUndo ::
    "Table \<Rightarrow> TransactionContext \<Rightarrow> Mvcc \<Rightarrow> TupleId \<Rightarrow> TablePage \<Rightarrow> (TransactionContext \<times> Mvcc \<times> TablePage) res" where
  "InsertUndo t txn mv tup page =
     (let cnt = max_row_count (tbl_layout t)
      in ebind (UndoRecordForInsert (undo mv) txn (tbl_oid t) (GetPageId tup) (GetIndex tup)) (\<lambda>(st1, txn1, rp).
         let (mv2, page2, versions) =
               page_GetVersions (mv\<lparr>undo := st1\<rparr>) page \<lparr>tbl_id = tbl_oid t, pid = GetPageId tup\<rparr> cnt
         in ebind (version_load mv2 versions (GetIndex tup)) (\<lambda>_.
              Inr (txn1, version_store mv2 versions (GetIndex tup) (Some rp), page2))))"

declare update_loop.simps [simp del]

text \<open>The free-space manager: the page that rows go to and what is left of it.\<close>

record FreeSpaceManagerVarlen =
  next_page_id :: u32
  free_space :: u32

definition fsm_init :: FreeSpaceManagerVarlen where
  "fsm_init = \<lparr>next_page_id = 1, free_space = DB7_PAGE_SIZE - HEADER_SIZE\<rparr>"

definition fsm_Get :: "FreeSpaceManagerVarlen \<Rightarrow> u32 \<Rightarrow> FreeSpaceManagerVarlen \<times> u32" where
  "fsm_Get f space =
     (let f1 = (if free_space f < space
                then \<lparr>next_page_id = next_page_id f + 1, free_space = DB7_PAGE_SIZE - HEADER_SIZE\<rparr> else f)
      in (f1\<lparr>free_space := free_space f1 - space\<rparr>, next_page_id f1))"

definition Table_Insert ::
    "Table \<Rightarrow> TransactionContext \<Rightarrow> Mvcc \<Rightarrow> FreeSpaceManagerVarlen \<Rightarrow> TablePages \<Rightarrow> mem \<Rightarrow>
     (TupleId \<times> TransactionContext \<times> Mvcc \<times> FreeSpaceManagerVarlen \<times> TablePages) res" where
  "Table_Insert t txn mv fsm pages chunk =
     (let (fsm', page_no) = fsm_Get fsm (chunk_GetSize chunk);
          i = \<lparr>tbl_id = tbl_oid t, pid = page_no\<rparr>;
          insert_page = pages i
      in ebind (InsertBulk (tbl_schema t) (tbl_layout t) chunk (page_data insert_page) 1) (\<lambda>(old_count, data').
         let tup_id = TupleId_of old_count page_no
         in ebind (InsertUndo t txn mv tup_id (insert_page\<lparr>page_data := data'\<rparr>)) (\<lambda>(txn', mv', page').
              Inr (tup_id, txn', mv', fsm', pages(i := page')))))"

text \<open>Deleting: \<open>extra\<close> is the test that \<^verbatim>\<open>DeleteUndo\<close> and \<^verbatim>\<open>DeleteUndoRaw\<close> add to the conflict check.\<close>

fun delete_loop ::
    "undo_ptr option list \<Rightarrow> (Mvcc \<Rightarrow> undo_ptr option \<Rightarrow> bool res) \<Rightarrow> PageIdentifier \<Rightarrow> u32 \<Rightarrow> undo_ptr \<Rightarrow> Mvcc \<Rightarrow> (bool \<times> Mvcc) res" where
  "delete_loop others reject versions idx rp mv =
     ebind (version_load mv versions idx) (\<lambda>version_ptr.
     ebind (reject mv version_ptr) (\<lambda>rej.
     ebind (deref mv rp) (\<lambda>r.
       if rej then Inr (False, mv_set_record mv rp (Invalidate r))
       else
         let mv1 = mv_set_record mv rp (r\<lparr>rec_next := version_ptr\<rparr>)
         in case others of
              [] \<Rightarrow> Inr (True, version_store mv1 versions idx (Some rp))
            | h # rest \<Rightarrow>
                let mv2 = version_store mv1 versions idx h
                in if h = version_ptr then Inr (True, version_store mv2 versions idx (Some rp))
                   else delete_loop rest reject versions idx rp mv2)))"

declare delete_loop.simps [simp del]

definition DeleteUndoRaw ::
    "undo_ptr option list \<Rightarrow> Table \<Rightarrow> TransactionContext \<Rightarrow> Mvcc \<Rightarrow> TupleId \<Rightarrow> (bool \<times> TransactionContext \<times> Mvcc) res" where
  "DeleteUndoRaw others t txn mv tup =
     ebind (UndoRecordForDelete (undo mv) txn (tbl_oid t) (GetPageId tup) (GetIndex tup)) (\<lambda>(st1, txn1, rp).
       let (mv2, versions) = GetCreateVersions (mv\<lparr>undo := st1\<rparr>)
             \<lparr>tbl_id = tbl_oid t, pid = GetPageId tup\<rparr> (max_row_count (tbl_layout t));
           reject = (\<lambda>m vp. case vp of
               None \<Rightarrow> Inr False
             | Some p \<Rightarrow> ebind (HasConflict m txn1 vp) (\<lambda>c.
                 if c then Inr True else ebind (deref m p) (\<lambda>r. Inr (undo_IsDeleted r))))
       in ebind (delete_loop others reject versions (GetIndex tup) rp mv2) (\<lambda>(ok, mv3). Inr (ok, txn1, mv3)))"

definition DeleteUndo ::
    "undo_ptr option list \<Rightarrow> Table \<Rightarrow> TransactionContext \<Rightarrow> Mvcc \<Rightarrow> TupleId \<Rightarrow> TablePage \<Rightarrow>
     (bool \<times> TransactionContext \<times> Mvcc \<times> TablePage) res" where
  "DeleteUndo others t txn mv tup page =
     ebind (UndoRecordForDelete (undo mv) txn (tbl_oid t) (GetPageId tup) (GetIndex tup)) (\<lambda>(st1, txn1, rp).
       let (mv2, page2, versions) = page_GetVersions (mv\<lparr>undo := st1\<rparr>) page
             \<lparr>tbl_id = tbl_oid t, pid = GetPageId tup\<rparr> (max_row_count (tbl_layout t));
           reject = (\<lambda>m vp. ebind (HasConflict m txn1 vp) (\<lambda>c.
             Inr (c \<or> pax_IsDeleted (page_data page2) (GetIndex tup))))
       in ebind (delete_loop others reject versions (GetIndex tup) rp mv2) (\<lambda>(ok, mv3). Inr (ok, txn1, mv3, page2)))"

definition Table_Delete ::
    "undo_ptr option list \<Rightarrow> Table \<Rightarrow> TransactionContext \<Rightarrow> Mvcc \<Rightarrow> TablePages \<Rightarrow> u32 \<Rightarrow> page_id \<Rightarrow>
     (bool \<times> TransactionContext \<times> Mvcc \<times> TablePages) res" where
  "Table_Delete others t txn mv pages idx p =
     (let i = \<lparr>tbl_id = tbl_oid t, pid = p\<rparr>
      in ebind (DeleteUndo others t txn mv (TupleId_of idx p) (pages i)) (\<lambda>(is_valid, txn', mv', page').
           let page'' = (if is_valid then page'\<lparr>page_data := pax_Delete (page_data page') idx\<rparr> else page')
           in Inr (is_valid, txn', mv', pages(i := page''))))"

text \<open>Reading: walk to the newest version that the transaction may see, undoing newer updates.\<close>

fun select_walk :: "nat \<Rightarrow> Schema \<Rightarrow> Mvcc \<Rightarrow> TransactionContext \<Rightarrow> undo_ptr option \<Rightarrow> mem \<Rightarrow> (bool \<times> mem) res option" where
  "select_walk 0 schema mv txn version_ptr chunk = None"
| "select_walk (Suc fuel) schema mv txn version_ptr chunk =
     (case version_ptr of
        None \<Rightarrow> Some (Inr (True, chunk))
      | Some p \<Rightarrow>
          (case deref mv p of
             Inl e \<Rightarrow> Some (Inl e)
           | Inr r \<Rightarrow>
               if \<not> IsNewerThan (rec_timestamp r) (start_time txn) then Some (Inr (True, chunk))
               else case rec_type r of
                 UPDATE \<Rightarrow>
                   (case Merge schema chunk (the (delta_of r)) of
                      Inl e \<Rightarrow> Some (Inl e)
                    | Inr chunk' \<Rightarrow> select_walk fuel schema mv txn (rec_next r) chunk')
               | INSERT \<Rightarrow> Some (Inr (False, chunk))
               | _ \<Rightarrow> select_walk fuel schema mv txn (rec_next r) chunk))"

definition status_of :: "bool \<Rightarrow> RowStatus" where
  "status_of is_deleted = (if is_deleted then Deleted else Visible)"

definition SelectIntoChunk ::
    "nat \<Rightarrow> Table \<Rightarrow> TransactionContext \<Rightarrow> Mvcc \<Rightarrow> u32 \<Rightarrow> PageIdentifier \<Rightarrow> TablePage \<Rightarrow> mem \<Rightarrow>
     (RowStatus \<times> Mvcc \<times> TablePage \<times> mem) res option" where
  "SelectIntoChunk fuel t txn mv idx page_no page chunk =
     (let cnt = max_row_count (tbl_layout t)
      in case ReadSingleIntoChunk (tbl_schema t) (tbl_layout t) chunk (page_data page) idx of
           Inl e \<Rightarrow> Some (Inl e)
         | Inr chunk1 \<Rightarrow>
             if \<not> idx < cnt then Some (Inl (AssertFailed ''Out of range index''))
             else
               let (mv1, page1, versions) = page_GetVersions mv page \<lparr>tbl_id = tbl_oid t, pid = pid page_no\<rparr> cnt
               in case version_load mv1 versions idx of
                    Inl e \<Rightarrow> Some (Inl e)
                  | Inr None \<Rightarrow>
                      Some (Inr (status_of (pax_IsDeleted (page_data page) idx), mv1, page1, chunk1))
                  | Inr (Some p) \<Rightarrow>
                      (case deref mv1 p of
                         Inl e \<Rightarrow> Some (Inl e)
                       | Inr r \<Rightarrow>
                           if rec_timestamp r = finish_time txn
                           then Some (Inr (status_of (undo_IsDeleted r), mv1, page1, chunk1))
                           else map_option (\<lambda>w. ebind w (\<lambda>(visible, chunk2).
                                  Inr (if visible then status_of (undo_IsDeleted r) else NotVisible, mv1, page1, chunk2)))
                                (select_walk fuel (tbl_schema t) mv1 txn (Some p) chunk1)))"

definition Table_Select ::
    "nat \<Rightarrow> Table \<Rightarrow> TransactionContext \<Rightarrow> Mvcc \<Rightarrow> TablePages \<Rightarrow> u32 \<Rightarrow> page_id \<Rightarrow> mem \<Rightarrow>
     (RowStatus \<times> Mvcc \<times> TablePages \<times> mem) res option" where
  "Table_Select fuel t txn mv pages idx p chunk =
     (let i = \<lparr>tbl_id = tbl_oid t, pid = p\<rparr>
      in map_option (\<lambda>w. ebind w (\<lambda>(st, mv', page', chunk'). Inr (st, mv', pages(i := page'), chunk')))
           (SelectIntoChunk fuel t txn mv idx i (pages i) chunk))"

section \<open>Snapshots\<close>

text \<open>The abstract reading of a version chain: newest version first, the row of the page undone to the
  start time of the reader.\<close>

definition undo_row :: "Schema \<Rightarrow> UndoRecord \<Rightarrow> (col_oid_t \<rightharpoonup> u8 list) \<Rightarrow> (col_oid_t \<rightharpoonup> u8 list)" where
  "undo_row s r row = (if rec_type r = UPDATE then row ++ chunk_row (schema_sz s) (the (delta_of r)) else row)"

fun snapshot :: "Schema \<Rightarrow> timestamp_t \<Rightarrow> UndoRecord list \<Rightarrow> (col_oid_t \<rightharpoonup> u8 list) \<Rightarrow> (col_oid_t \<rightharpoonup> u8 list) option" where
  "snapshot s start [] row = Some row"
| "snapshot s start (r # rs) row =
     (if start < rec_timestamp r
      then if rec_type r = INSERT then None else snapshot s start rs (undo_row s r row)
      else Some row)"

fun chain :: "(undo_ptr \<Rightarrow> UndoRecord option) \<Rightarrow> undo_ptr option \<Rightarrow> UndoRecord list \<Rightarrow> bool" where
  "chain h p [] \<longleftrightarrow> p = None"
| "chain h p (r # rs) \<longleftrightarrow> (\<exists>q. p = Some q \<and> h q = Some r \<and> chain h (rec_next r) rs)"

definition delta_ok :: "Schema \<Rightarrow> UndoRecord \<Rightarrow> bool" where
  "delta_ok s r \<longleftrightarrow> (rec_type r = UPDATE \<longrightarrow>
     (\<exists>d. delta_of r = Some d \<and> chunk_ok (schema_sz s) d \<and> distinct (GetColumnIds d) \<and>
       set (GetColumnIds d) \<subseteq> dom (mapping s)))"

lemma map_add_restrict: "(f ++ g) |` A = f |` A ++ g |` A"
  by (rule ext) (simp add: map_add_def restrict_map_def)

lemma select_walk_snapshot:
  assumes ok: "schema_ok s l" and c: "chunk_ok (schema_sz s) c" "chunk_row (schema_sz s) c = row |` A" "A = set (GetColumnIds c)"
    and ch: "chain (undo_heap (undo mv)) p rs" "\<forall>r \<in> set rs. delta_ok s r" and fuel: "length rs < fuel"
  shows "\<exists>c'. select_walk fuel s mv txn p c = Some (Inr (snapshot s (start_time txn) rs row \<noteq> None, c')) \<and>
    GetColumnIds c' = GetColumnIds c \<and> chunk_ok (schema_sz s) c' \<and>
    (\<forall>row'. snapshot s (start_time txn) rs row = Some row' \<longrightarrow> chunk_row (schema_sz s) c' = row' |` A)"
  using c ch fuel
proof (induction rs arbitrary: p c row fuel)
  case Nil
  then show ?case by (cases fuel) auto
next
  case (Cons r rs)
  then obtain f where f: "fuel = Suc f" "length rs < f" by (cases fuel) auto
  from Cons.prems(4) obtain q where p: "p = Some q" "deref mv q = Inr r" and ch': "chain (undo_heap (undo mv)) (rec_next r) rs"
    by (auto simp: deref_def)
  show ?case
  proof (cases "start_time txn < rec_timestamp r")
    case False
    with Cons.prems p f show ?thesis by (auto simp: IsNewerThan_def)
  next
    case newer: True
    show ?thesis
    proof (cases "rec_type r = UPDATE")
      case False
      with newer Cons.IH [OF Cons.prems(1,2,3) ch' _ f(2)] Cons.prems p f show ?thesis
        by (cases "rec_type r") (auto simp: IsNewerThan_def undo_row_def)
    next
      case True
      with Cons.prems(5) obtain d where d: "delta_of r = Some d" "chunk_ok (schema_sz s) d" "distinct (GetColumnIds d)"
        "set (GetColumnIds d) \<subseteq> dom (mapping s)" by (auto simp: delta_ok_def)
      from Merge_ok [OF Cons.prems(1) d(2,3) ok d(4)] obtain c1 where c1: "Merge s c d = Inr c1" "chunk_ok (schema_sz s) c1"
        "GetColumnIds c1 = GetColumnIds c"
        "chunk_row (schema_sz s) c1 = chunk_row (schema_sz s) c ++ chunk_row (schema_sz s) d |` set (GetColumnIds c)" by auto
      have "chunk_row (schema_sz s) c1 = undo_row s r row |` A"
        using c1(4) Cons.prems(2,3) True d(1) by (simp add: undo_row_def map_add_restrict)
      from Cons.IH [OF c1(2) this _ ch' _ f(2)] Cons.prems(3,5) c1(3)
      show ?thesis using True newer p f c1(1) d(1) by (auto simp: IsNewerThan_def)
    qed
  qed
qed

end
