(* ===== verification/FreeSpace.thy ===== *)
theory FreeSpace
  imports Mvcc
begin

text \<open>
  The free-space managers (\<^verbatim>\<open>storage/fsm\<close>): which page a new row goes to, and which page id a new index
  page gets. The managers are process-wide counters; a run is the list of their answers.
\<close>

section \<open>Rows\<close>

text \<open>\<^verbatim>\<open>fsm.hpp\<close> is an older manager for rows with counters of its own; its body is the one of the manager in use.\<close>

definition FreeSpaceManager_Get :: "FreeSpaceManagerVarlen \<Rightarrow> u32 \<Rightarrow> FreeSpaceManagerVarlen \<times> u32" where
  "FreeSpaceManager_Get f space =
     (let f1 = (if free_space f < space
                then f\<lparr>next_page_id := next_page_id f + 1, free_space := DB7_PAGE_SIZE - HEADER_SIZE\<rparr> else f);
          f2 = f1\<lparr>free_space := free_space f1 - space\<rparr>
      in (f2, next_page_id f2))"

lemma FreeSpaceManager_Get_eq: "FreeSpaceManager_Get = fsm_Get"
  by (simp add: fun_eq_iff FreeSpaceManager_Get_def fsm_Get_def)

fun fsm_run :: "FreeSpaceManagerVarlen \<Rightarrow> u32 list \<Rightarrow> (u32 \<times> u32) list" where
  "fsm_run f [] = []"
| "fsm_run f (space # reqs) = (let (f', p) = fsm_Get f space in (p, space) # fsm_run f' reqs)"

definition granted :: "u32 \<Rightarrow> (u32 \<times> u32) list \<Rightarrow> nat" where
  "granted p run = (\<Sum>(q, space) \<leftarrow> run. if q = p then unat space else 0)"

lemma granted_simps [simp]:
  "granted p [] = 0" "granted p ((q, space) # run) = (if q = p then unat space else 0) + granted p run"
  by (simp_all add: granted_def)

lemma fsm_payload: "DB7_PAGE_SIZE - HEADER_SIZE = 8188"
  by (simp add: DB7_PAGE_SIZE_def HEADER_SIZE_def)

lemma fsm_run_bound:
  assumes "\<forall>space \<in> set reqs. unat space \<le> 8188" "unat (free_space f) \<le> 8188"
    "unat (next_page_id f) + length reqs < 4294967296"
  shows "granted p (fsm_run f reqs) \<le> (if p = next_page_id f then unat (free_space f) else if p < next_page_id f then 0 else 8188)"
  using assms
proof (induction reqs arbitrary: f)
  case Nil
  then show ?case by simp
next
  case (Cons space reqs)
  show ?case
  proof (cases "free_space f < space")
    case True
    define f' where "f' = \<lparr>next_page_id = next_page_id f + 1, free_space = 8188 - space\<rparr>"
    have get: "fsm_Get f space = (f', next_page_id f + 1)"
      using True by (simp add: fsm_Get_def fsm_payload f'_def)
    have u: "unat (next_page_id f + 1) = unat (next_page_id f) + 1" using Cons.prems(3) by (simp add: unat_word_ariths)
    have s: "unat (8188 - space) = 8188 - unat space" using Cons.prems(1) by (simp add: unat_sub word_le_nat_alt)
    have "granted p (fsm_run f' reqs) \<le> (if p = next_page_id f' then unat (free_space f') else if p < next_page_id f' then 0 else 8188)"
      by (rule Cons.IH) (use Cons.prems u s in \<open>simp_all add: f'_def del: of_nat_unat\<close>)
    then show ?thesis
      using get u s Cons.prems(1) by (auto simp: f'_def word_less_nat_alt word_unat_eq_iff simp del: of_nat_unat split: if_splits)
  next
    case False
    define f' where "f' = f\<lparr>free_space := free_space f - space\<rparr>"
    have get: "fsm_Get f space = (f', next_page_id f)" using False by (simp add: fsm_Get_def f'_def)
    have s: "unat (free_space f - space) = unat (free_space f) - unat space" using False by (simp add: unat_sub)
    have "granted p (fsm_run f' reqs) \<le> (if p = next_page_id f' then unat (free_space f') else if p < next_page_id f' then 0 else 8188)"
      by (rule Cons.IH) (use Cons.prems s in \<open>simp_all add: f'_def del: of_nat_unat\<close>)
    then show ?thesis
      using get s False by (auto simp: f'_def word_less_nat_alt simp del: of_nat_unat split: if_splits)
  qed
qed

text \<open>C34: No page is promised more bytes than it has behind its header, over any run of requests that each fit a page.\<close>

theorem fsm_never_overcommits:
  assumes "\<forall>space \<in> set reqs. unat space \<le> 8188" "length reqs < 4294967295"
  shows "granted p (fsm_run fsm_init reqs) \<le> 8188"
  using fsm_run_bound [of reqs fsm_init p] assms
  by (auto simp: fsm_init_def fsm_payload split: if_splits)

theorem fsm_never_overcommits_witness:
  "granted 1 (fsm_run fsm_init [8000, 100, 200]) \<le> 8188"
  using fsm_never_overcommits [of "[8000, 100, 200]" 1] by simp

text \<open>A request above the payload of a page makes the 32-bit free space wrap around, and the manager goes on
handing out the same page for requests of any size up to the wrapped value.\<close>

theorem fsm_oversized_wraps:
  assumes "free_space f < space" "8188 < space" "fsm_Get f space = (f', p)" "unat r \<le> 4294967296 + 8188 - unat space"
  shows "unat (free_space f') = 4294967296 + 8188 - unat space \<and> snd (fsm_Get f' r) = p"
proof -
  have f': "f' = \<lparr>next_page_id = p, free_space = 8188 - space\<rparr>"
    using assms(1,3) by (auto simp: fsm_Get_def fsm_payload)
  have u: "unat (8188 - space) = 4294967296 + 8188 - unat space"
    using assms(2) unat_u32_less [of space] by (simp add: unat_sub_if' word_less_nat_alt word_le_nat_alt)
  moreover have "r \<le> 8188 - space" using assms(4) u by (simp add: word_le_nat_alt)
  ultimately show ?thesis using f' by (simp add: fsm_Get_def)
qed

theorem fsm_oversized_wraps_witness:
  "unat (free_space (fst (fsm_Get fsm_init 9000))) = 4294966484"
  using fsm_oversized_wraps [of fsm_init 9000 "fst (fsm_Get fsm_init 9000)" "snd (fsm_Get fsm_init 9000)" 0]
  by (simp add: fsm_init_def fsm_payload)

section \<open>Index pages\<close>

type_synonym FreeSpaceManagerIndex = "table_id \<rightharpoonup> u32"

definition fsm_index_Get :: "FreeSpaceManagerIndex \<Rightarrow> table_id \<Rightarrow> FreeSpaceManagerIndex \<times> u32" where
  "fsm_index_Get page_ids tbl =
     (let it = (case page_ids tbl of Some v \<Rightarrow> v | None \<Rightarrow> 1) in (page_ids(tbl \<mapsto> it + 1), it))"

definition fsm_index_Reset :: FreeSpaceManagerIndex where
  "fsm_index_Reset = Map.empty"

fun fsm_index_run :: "FreeSpaceManagerIndex \<Rightarrow> table_id list \<Rightarrow> (table_id \<times> u32) list" where
  "fsm_index_run m [] = []"
| "fsm_index_run m (tbl # ts) = (let (m', p) = fsm_index_Get m tbl in (tbl, p) # fsm_index_run m' ts)"

definition next_of :: "FreeSpaceManagerIndex \<Rightarrow> table_id \<Rightarrow> u32" where
  "next_of m tbl = (case m tbl of Some v \<Rightarrow> v | None \<Rightarrow> 1)"

lemma fsm_index_step:
  assumes "\<forall>t. unat (next_of m t) + length (a # ts) < 4294967296"
  shows "\<exists>m'. fsm_index_run m (a # ts) = (a, next_of m a) # fsm_index_run m' ts \<and>
    (\<forall>x. unat (next_of m' x) = (if x = a then unat (next_of m a) + 1 else unat (next_of m x))) \<and>
    (\<forall>x. unat (next_of m' x) + length ts < 4294967296)"
proof -
  define m' where "m' = m(a \<mapsto> next_of m a + 1)"
  have run: "fsm_index_run m (a # ts) = (a, next_of m a) # fsm_index_run m' ts"
    by (simp add: fsm_index_Get_def next_of_def m'_def Let_def)
  have inc: "unat (next_of m a + 1) = unat (next_of m a) + 1"
    using assms [rule_format, of a] by (simp add: unat_word_ariths)
  have nx: "unat (next_of m' x) = (if x = a then unat (next_of m a) + 1 else unat (next_of m x))" for x
    using inc by (simp add: m'_def next_of_def [of "m(a \<mapsto> next_of m a + 1)"]) (simp add: next_of_def)
  have "unat (next_of m' x) + length ts < 4294967296" for x
    using assms [rule_format, of x] assms [rule_format, of a] nx [of x] by (cases "x = a") (simp_all del: of_nat_unat)
  with run nx show ?thesis by blast
qed

lemma fsm_index_run_ge:
  assumes "\<forall>t. unat (next_of m t) + length ts < 4294967296" "(t, p) \<in> set (fsm_index_run m ts)"
  shows "next_of m t \<le> p"
  using assms
proof (induction ts arbitrary: m)
  case (Cons a ts)
  obtain m' where m': "fsm_index_run m (a # ts) = (a, next_of m a) # fsm_index_run m' ts"
    "unat (next_of m' t) = (if t = a then unat (next_of m a) + 1 else unat (next_of m t))"
    "\<forall>x. unat (next_of m' x) + length ts < 4294967296"
    using fsm_index_step [OF Cons.prems(1)] by blast
  show ?case
  proof (cases "(t, p) = (a, next_of m a)")
    case False
    from Cons.prems(2) False have "(t, p) \<in> set (fsm_index_run m' ts)" unfolding m'(1) by auto
    then have "next_of m' t \<le> p" using Cons.IH [OF m'(3)] by blast
    with m'(2) show ?thesis by (auto simp: word_le_nat_alt split: if_splits)
  qed simp
qed simp

lemma fsm_index_run_distinct:
  assumes "\<forall>t. unat (next_of m t) + length ts < 4294967296"
  shows "distinct (fsm_index_run m ts)"
  using assms
proof (induction ts arbitrary: m)
  case (Cons a ts)
  obtain m' where m': "fsm_index_run m (a # ts) = (a, next_of m a) # fsm_index_run m' ts"
    "unat (next_of m' a) = unat (next_of m a) + 1" "\<forall>x. unat (next_of m' x) + length ts < 4294967296"
    using fsm_index_step [OF Cons.prems(1)] by auto
  have "(a, next_of m a) \<notin> set (fsm_index_run m' ts)"
    using fsm_index_run_ge [OF m'(3), of a "next_of m a"] m'(2) by (auto simp: word_le_nat_alt)
  with Cons.IH [OF m'(3)] show ?case unfolding m'(1) by simp
qed simp

text \<open>After a reset no index page id is handed out twice for the same table, and none is the invalid page 0.\<close>

theorem fsm_index_unique:
  assumes "length ts < 4294967295"
  shows "distinct (fsm_index_run fsm_index_Reset ts) \<and> (\<forall>(t, p) \<in> set (fsm_index_run fsm_index_Reset ts). p \<noteq> 0)"
proof -
  have n: "\<forall>t. unat (next_of fsm_index_Reset t) + length ts < 4294967296"
    using assms by (simp add: next_of_def fsm_index_Reset_def)
  have "p \<noteq> 0" if "(t, p) \<in> set (fsm_index_run fsm_index_Reset ts)" for t p
    using fsm_index_run_ge [OF n that] by (auto simp: next_of_def fsm_index_Reset_def)
  with fsm_index_run_distinct [OF n] show ?thesis by auto
qed

theorem fsm_index_unique_witness: "distinct (fsm_index_run fsm_index_Reset [3, 4, 3])"
  using fsm_index_unique [of "[3, 4, 3]"] by simp

end
