(* ===== verification/KeyEncoder.thy ===== *)
theory KeyEncoder
  imports DataChunk SlottedPage
begin

text \<open>
  Index keys (\<^verbatim>\<open>access/key_encoder.hpp\<close>, \<^verbatim>\<open>storage/varlen_entry.hpp\<close>): every column of a key is encoded as a
  byte string whose lexicographic order is the order of the values, the strings are concatenated, and
  the tuple id makes the key unique.

  The encoder appends to a buffer; the model returns the appended bytes. Unicode normalisation is the
  external library utf8proc: the argument \<open>norm\<close> maps the case-sensitivity flag and the input bytes to
  the normalised bytes, or to an error.
\<close>

section \<open>Inline strings (storage/varlen_entry.hpp)\<close>

definition INLINE_SIZE_CAP :: nat where
  "INLINE_SIZE_CAP = 12"

record VarlenRef =
  ref_pid :: page_id
  ref_offset :: u32

text \<open>An entry is 16 bytes of memory: the size, a prefix of four bytes, and a union of eight more inline
  bytes with a reference.\<close>

definition varlen_GetSize :: "mem \<Rightarrow> nat \<Rightarrow> u32" where
  "varlen_GetSize m p = rd32 m p"

definition varlen_GetPrefix :: "mem \<Rightarrow> nat \<Rightarrow> u32" where
  "varlen_GetPrefix m p = rd32 m (p + 4)"

definition varlen_GetRef :: "mem \<Rightarrow> nat \<Rightarrow> VarlenRef" where
  "varlen_GetRef m p = \<lparr>ref_pid = rd32 m (p + 8), ref_offset = rd32 m (p + 12)\<rparr>"

definition varlen_GetInline :: "nat \<Rightarrow> nat" where
  "varlen_GetInline p = p + 4"

definition varlen_IsInline :: "mem \<Rightarrow> nat \<Rightarrow> bool" where
  "varlen_IsInline m p \<longleftrightarrow> unat (varlen_GetSize m p) \<le> INLINE_SIZE_CAP"

definition varlen_Set :: "mem \<Rightarrow> nat \<Rightarrow> u8 list \<Rightarrow> mem" where
  "varlen_Set m p data =
     wr_bytes (wr32 m p (word_of_nat (length data))) (p + 4) (take (min (length data) INLINE_SIZE_CAP) data)"

definition varlen_Set_ref :: "mem \<Rightarrow> nat \<Rightarrow> u8 list \<Rightarrow> page_id \<Rightarrow> u32 \<Rightarrow> mem" where
  "varlen_Set_ref m p data pg off =
     wr32 (wr32 (wr_bytes (wr32 m p (word_of_nat (length data))) (p + 4) (take (if length data < 4 then length data else 4) data))
       (p + 8) pg) (p + 12) off"

lemma varlen_roundtrip:
  assumes "length data \<le> 12"
  shows "varlen_IsInline (varlen_Set m p data) p"
    "rd_bytes (varlen_Set m p data) (varlen_GetInline p) (unat (varlen_GetSize (varlen_Set m p data) p)) = data"
proof -
  have sz: "unat (varlen_GetSize (varlen_Set m p data) p) = length data"
    using assms by (simp add: varlen_GetSize_def varlen_Set_def mem_simps) (simp add: unat_of_nat)
  show "varlen_IsInline (varlen_Set m p data) p"
    using sz assms by (simp add: varlen_IsInline_def INLINE_SIZE_CAP_def)
  show "rd_bytes (varlen_Set m p data) (varlen_GetInline p) (unat (varlen_GetSize (varlen_Set m p data) p)) = data"
    unfolding sz using assms by (simp add: varlen_Set_def varlen_GetInline_def INLINE_SIZE_CAP_def rd_wr_bytes_same)
qed

section \<open>Encoding\<close>

record KeySpecs =
  is_nullable_key :: bool
  is_case_sensitive :: bool

definition EncodeUnsigned :: "'a::len word \<Rightarrow> u8 list" where
  "EncodeUnsigned v = le_enc (LENGTH('a) div 8) (unat (ByteSwapIfLittleEndian v))"

text \<open>The null marker that the encoding of every type starts with.\<close>

definition with_null_marker :: "KeySpecs \<Rightarrow> bool \<Rightarrow> u8 list res \<Rightarrow> u8 list res" where
  "with_null_marker specs is_data_null body =
     (if is_nullable_key specs
      then if is_data_null then Inr [0] else ebind body (\<lambda>b. Inr (1 # b))
      else body)"

definition Encode_signed :: "'a::len word \<Rightarrow> u8 list" where
  "Encode_signed data =
     (let u = data XOR push_bit (LENGTH('a) div 8 * 8 - 1) 1
      in le_enc (LENGTH('a) div 8) (unat (ByteSwapIfLittleEndian u)))"

text \<open>Doubles are their IEEE 754 bit patterns: zero of either sign compares equal to 0.0; not-a-number has an
  exponent of ones and a fraction that is not zero.\<close>

definition dbl_is_zero :: "u64 \<Rightarrow> bool" where
  "dbl_is_zero d \<longleftrightarrow> d AND 0x7FFFFFFFFFFFFFFF = 0"

definition dbl_isnan :: "u64 \<Rightarrow> bool" where
  "dbl_isnan d \<longleftrightarrow> (d AND 0x7FFFFFFFFFFFFFFF) > 0x7FF0000000000000"

definition quiet_NaN :: u64 where
  "quiet_NaN = 0x7FF8000000000000"

definition Encode_double :: "u64 \<Rightarrow> u8 list" where
  "Encode_double data =
     (let d = (if dbl_is_zero data then 0 else if dbl_isnan data then quiet_NaN else data);
          mask = (if drop_bit 63 d \<noteq> 0 then NOT 0 else push_bit 63 1);
          u = d XOR mask
      in le_enc 8 (unat (ByteSwapIfLittleEndian u)))"

text \<open>The re-encoder of the library terminates its output with a zero byte, which is part of the key.\<close>

definition EncodeStringNormalized :: "(bool \<Rightarrow> u8 list \<Rightarrow> u8 list res) \<Rightarrow> u8 list \<Rightarrow> bool \<Rightarrow> u8 list res" where
  "EncodeStringNormalized norm data cs = ebind (norm cs data) (\<lambda>b. Inr (b @ [0]))"

definition MaxEncodedSize :: "type_id \<Rightarrow> KeySpecs \<Rightarrow> u16" where
  "MaxEncodedSize t specs =
     (let n = (if is_nullable_key specs then 1 else 0)
      in case t of
           BOOLEAN \<Rightarrow> n + 1 | TINYINT \<Rightarrow> n + 1 | UTINYINT \<Rightarrow> n + 1
         | SMALLINT \<Rightarrow> n + 2 | USMALLINT \<Rightarrow> n + 2
         | INTEGER \<Rightarrow> n + 4 | UINTEGER \<Rightarrow> n + 4
         | BIGINT \<Rightarrow> n + 8 | UBIGINT \<Rightarrow> n + 8 | DOUBLE \<Rightarrow> n + 8
         | VARCHAR \<Rightarrow> n + 4 * (12 + 1) | VARBINARY \<Rightarrow> n + 4 * (12 + 1))"

record TypeSize =
  col_id :: col_oid_t
  ts_type :: type_id
  ts_size :: u16

definition TypeSize_new :: "col_oid_t \<Rightarrow> type_id \<Rightarrow> TypeSize" where
  "TypeSize_new i t = \<lparr>col_id = i, ts_type = t, ts_size = ucast (SizeOf t)\<rparr>"

definition plain_specs :: KeySpecs where
  "plain_specs = \<lparr>is_nullable_key = False, is_case_sensitive = False\<rparr>"

definition MaxKeyLen :: "TypeSize list \<Rightarrow> u16" where
  "MaxKeyLen types = foldl (\<lambda>n t. n + MaxEncodedSize (ts_type t) plain_specs) 0 types + 8"

definition rd8 :: "mem \<Rightarrow> nat \<Rightarrow> u8" where
  "rd8 m a = word_of_nat (le_dec (rd_bytes m a 1))"

definition rd64 :: "mem \<Rightarrow> nat \<Rightarrow> u64" where
  "rd64 m a = word_of_nat (le_dec (rd_bytes m a 8))"

text \<open>The bytes of a string are read from the entry whatever its size: an entry of more than 12 bytes is
  read beyond its inline part.\<close>

definition SwitchType ::
    "(bool \<Rightarrow> u8 list \<Rightarrow> u8 list res) \<Rightarrow> mem \<Rightarrow> nat \<Rightarrow> bool \<Rightarrow> type_id \<Rightarrow> KeySpecs \<Rightarrow> u8 list res" where
  "SwitchType norm m ptr is_data_null t specs =
     with_null_marker specs is_data_null
       (case t of
          BOOLEAN \<Rightarrow> Inr (EncodeUnsigned (rd8 m ptr))
        | UTINYINT \<Rightarrow> Inr (EncodeUnsigned (rd8 m ptr))
        | TINYINT \<Rightarrow> Inr (Encode_signed (rd8 m ptr))
        | USMALLINT \<Rightarrow> Inr (EncodeUnsigned (rd16 m ptr))
        | SMALLINT \<Rightarrow> Inr (Encode_signed (rd16 m ptr))
        | UINTEGER \<Rightarrow> Inr (EncodeUnsigned (rd32 m ptr))
        | INTEGER \<Rightarrow> Inr (Encode_signed (rd32 m ptr))
        | UBIGINT \<Rightarrow> Inr (EncodeUnsigned (rd64 m ptr))
        | BIGINT \<Rightarrow> Inr (Encode_signed (rd64 m ptr))
        | DOUBLE \<Rightarrow> Inr (Encode_double (rd64 m ptr))
        | _ \<Rightarrow> EncodeStringNormalized norm
                 (rd_bytes m (varlen_GetInline ptr) (unat (varlen_GetSize m ptr))) (is_case_sensitive specs))"

fun BuildKey_cols :: "(bool \<Rightarrow> u8 list \<Rightarrow> u8 list res) \<Rightarrow> mem \<Rightarrow> TypeSize list \<Rightarrow> u8 list res" where
  "BuildKey_cols norm chunk [] = Inr []"
| "BuildKey_cols norm chunk (t # ts) =
     ebind (chunk_Get chunk (col_id t)) (\<lambda>ptr.
     ebind (SwitchType norm chunk ptr False (ts_type t) plain_specs) (\<lambda>b.
     ebind (BuildKey_cols norm chunk ts) (\<lambda>rest. Inr (b @ rest))))"

abbreviation key_len :: "Key \<Rightarrow> u16" where
  "key_len k \<equiv> klen k"

abbreviation key_data :: "Key \<Rightarrow> u8 list" where
  "key_data k \<equiv> the (kdata k)"

definition BuildKey :: "(bool \<Rightarrow> u8 list \<Rightarrow> u8 list res) \<Rightarrow> mem \<Rightarrow> u64 \<Rightarrow> TypeSize list \<Rightarrow> Key res" where
  "BuildKey norm chunk key_value types =
     ebind (BuildKey_cols norm chunk types) (\<lambda>cols.
       let out = cols @ EncodeUnsigned key_value
       in Inr \<lparr>klen = word_of_nat (length out), kdata = Some out\<rparr>)"

section \<open>Big-endian order\<close>

lemma snoc_less: "length xs = length ys \<Longrightarrow> xs @ [a] < ys @ [b] \<longleftrightarrow> xs < ys \<or> xs = ys \<and> (a::'a::linorder) < b"
  by (induction xs ys rule: list_induct2) auto
lemma xor_top: "(v :: 'a::len word) XOR 2 ^ (LENGTH('a) - 1) = v + 2 ^ (LENGTH('a) - 1)"
proof -
  define n where "n = LENGTH('a) - 1"
  define t where "t = (2 ^ n :: 'a word)"
  have tt: "t + t = 0"
    by (simp add: t_def n_def flip: mult_2 power_Suc)
  have d: "x XOR t = x + t" if "\<not> bit x n" for x :: "'a word"
  proof -
    have "x AND t = 0"
      by (rule bit_word_eqI) (use that in \<open>auto simp: t_def bit_simps\<close>)
    then show ?thesis by (simp add: disjunctive_add_eq_or disjunctive_xor_eq_or)
  qed
  show ?thesis
  proof (cases "bit v n")
    case False
    with d show ?thesis by (simp add: t_def n_def)
  next
    case True
    then have "\<not> bit (v XOR t) n" by (simp add: t_def bit_simps n_def)
    from d [OF this] have "v = (v XOR t) + t" by (simp add: xor.assoc)
    then have "v + t = (v XOR t) + (t + t)" by (metis add.assoc)
    then have "v XOR t = v + t" unfolding tt by simp
    then show ?thesis by (simp add: t_def n_def)
  qed
qed

lemma unat_flip_top:
  "int (unat ((v :: 'a::len word) XOR 2 ^ (LENGTH('a) - 1))) = sint v + 2 ^ (LENGTH('a) - 1)"
proof -
  define n where "n = LENGTH('a) - 1"
  have N: "LENGTH('a) = Suc n" by (simp add: n_def)
  have p: "uint (2 ^ n :: 'a word) = 2 ^ n"
  proof -
    have "(2 ^ n :: 'a word) = word_of_int (2 ^ n)" by simp
    then have "uint (2 ^ n :: 'a word) = 2 ^ n mod 2 ^ LENGTH('a)" by (simp only: uint_word_of_int)
    then show ?thesis by (simp add: N)
  qed
  have lt: "0 \<le> uint v" "uint v < 2 * 2 ^ n" using uint_lt2p [of v] by (simp_all add: N)
  have s: "sint v = (if uint v < 2 ^ n then uint v else uint v - 2 * 2 ^ n)"
    using sint_eq_uint_if [of v] by (simp add: N)
  have "int (unat (v XOR 2 ^ n)) = uint (v + 2 ^ n)" using xor_top [of v] by (simp add: N)
  also have "\<dots> = (uint v + 2 ^ n) mod (2 * 2 ^ n)" by (simp add: uint_word_ariths p N)
  also have "\<dots> = sint v + 2 ^ n"
  proof (cases "uint v < 2 ^ n")
    case True
    with lt s show ?thesis by (simp add: mod_pos_pos_trivial)
  next
    case False
    have "(uint v + 2 ^ n) mod (2 * 2 ^ n) = (uint v - 2 ^ n + 2 * 2 ^ n) mod (2 * 2 ^ n)"
      by (rule arg_cong [where f = "\<lambda>x. x mod (2 * 2 ^ n)"]) simp
    also have "\<dots> = (uint v - 2 ^ n) mod (2 * 2 ^ n)" by (rule mod_add_self2)
    also have "\<dots> = uint v - 2 ^ n" using False lt by (intro mod_pos_pos_trivial) simp_all
    finally show ?thesis using False s by simp
  qed
  finally show ?thesis by (simp add: n_def)
qed

lemma be_enc_Suc: "be_enc (Suc n) v = be_enc n (v div 256) @ [word_of_nat v]"
  by (simp add: be_enc_def)

lemma be_enc_eq: "x < 256 ^ n \<Longrightarrow> y < 256 ^ n \<Longrightarrow> be_enc n x = be_enc n y \<longleftrightarrow> x = y"
  by (metis be_dec_enc mod_less)

lemma base_less:
  fixes a b r t :: nat
  assumes "r < 256" "t < 256"
  shows "a < b \<or> a = b \<and> r < t \<longleftrightarrow> 256 * a + r < 256 * b + t"
  using assms by (cases a b rule: linorder_cases) simp_all

lemma be_enc_less: "x < 256 ^ n \<Longrightarrow> y < 256 ^ n \<Longrightarrow> be_enc n x < be_enc n y \<longleftrightarrow> x < y"
proof (induction n arbitrary: x y)
  case (Suc n)
  have d: "x div 256 < 256 ^ n" "y div 256 < 256 ^ n"
    using Suc.prems by (simp_all add: div_less_iff_less_mult mult.commute)
  have b: "(word_of_nat x :: u8) < word_of_nat y \<longleftrightarrow> x mod 256 < y mod 256"
    by (simp add: word_less_nat_alt unat_of_nat)
  have "be_enc (Suc n) x < be_enc (Suc n) y \<longleftrightarrow>
      x div 256 < y div 256 \<or> x div 256 = y div 256 \<and> x mod 256 < y mod 256"
    unfolding be_enc_Suc using Suc.IH [OF d] be_enc_eq [OF d] b by (simp add: snoc_less)
  also have "\<dots> \<longleftrightarrow> x < y"
  proof -
    have "(x div 256 < y div 256 \<or> x div 256 = y div 256 \<and> x mod 256 < y mod 256) \<longleftrightarrow>
        256 * (x div 256) + x mod 256 < 256 * (y div 256) + y mod 256"
      by (rule base_less) simp_all
    then show ?thesis by simp
  qed
  finally show ?case .
qed simp

section \<open>Codes that keep the order\<close>

lemma append_less_free:
  assumes "\<And>x y. xs @ x \<noteq> ys @ y"
  shows "xs @ x < ys @ y \<longleftrightarrow> xs < (ys :: 'a::linorder list)"
  using assms
proof (induction xs arbitrary: ys)
  case Nil
  from Nil.prems [of ys "[]"] show ?case by simp
next
  case (Cons a xs)
  then show ?case
  proof (cases ys)
    case Nil
    with Cons.prems [of "[]" "a # xs"] show ?thesis by simp
  next
    case (Cons b ys')
    show ?thesis
    proof (cases "a = b")
      case True
      with Cons.IH [of ys'] Cons.prems \<open>ys = b # ys'\<close> show ?thesis by simp
    next
      case False
      with \<open>ys = b # ys'\<close> show ?thesis by simp
    qed
  qed
qed

lemma append_less_same: "zs @ x < zs @ y \<longleftrightarrow> x < (y :: 'a::linorder list)"
  by (induction zs) auto

locale order_code =
  fixes enc :: "'a \<Rightarrow> u8 list" and rank :: "'a \<Rightarrow> 'b::linorder"
  assumes enc_eq: "enc a = enc b \<longleftrightarrow> rank a = rank b"
    and enc_less: "enc a < enc b \<longleftrightarrow> rank a < rank b"
    and enc_prefix: "enc a @ x = enc b @ y \<Longrightarrow> enc a = enc b"
begin

lemma append_less: "enc a @ x < enc b @ y \<longleftrightarrow> rank a < rank b \<or> rank a = rank b \<and> x < y"
proof (cases "rank a = rank b")
  case True
  then show ?thesis using enc_eq [of a b] by (simp add: append_less_same)
next
  case False
  then have "enc a @ u \<noteq> enc b @ v" for u v using enc_prefix enc_eq by blast
  from append_less_free [OF this] False show ?thesis by (simp add: enc_less)
qed

lemma append_eq: "enc a @ x = enc b @ y \<longleftrightarrow> rank a = rank b \<and> x = y"
  using enc_prefix [of a x b y] enc_eq [of a b] by auto

end

locale fixed_code =
  fixes enc :: "'a \<Rightarrow> u8 list" and rank :: "'a \<Rightarrow> int" and n :: nat and val :: "'a \<Rightarrow> nat"
  assumes enc_val: "enc a = be_enc n (val a)"
    and val_bound: "val a < 256 ^ n"
    and val_rank: "val a < val b \<longleftrightarrow> rank a < rank b"

sublocale fixed_code < order_code
proof
  fix a b x y
  have v: "val a = val b \<longleftrightarrow> rank a = rank b" using val_rank [of a b] val_rank [of b a] by linarith
  show "enc a = enc b \<longleftrightarrow> rank a = rank b" by (simp add: enc_val be_enc_eq val_bound v)
  show "enc a < enc b \<longleftrightarrow> rank a < rank b" by (simp add: enc_val be_enc_less val_bound val_rank)
  show "enc a @ x = enc b @ y \<Longrightarrow> enc a = enc b" by (simp add: enc_val)
qed

lemma EncodeUnsigned_be:
  assumes "LENGTH('a::len) = 8 * n"
  shows "EncodeUnsigned (v :: 'a word) = be_enc n (unat v)" "unat v < 256 ^ n"
proof -
  show "EncodeUnsigned v = be_enc n (unat v)"
    using le_enc_ByteSwap [OF assms, of v] assms by (simp add: EncodeUnsigned_def)
  have "256 ^ n = (2 :: nat) ^ LENGTH('a)" unfolding assms power_mult by simp
  then show "unat v < 256 ^ n" using unsigned_less [of v, where ?'a = nat] by simp
qed

lemma Encode_signed_be:
  assumes "LENGTH('a::len) = 8 * n" "0 < n"
  shows "Encode_signed (v :: 'a word) = be_enc n (unat (v XOR 2 ^ (LENGTH('a) - 1)))"
proof -
  have l: "LENGTH('a) div 8 = n" "n * 8 = LENGTH('a)" using assms by simp_all
  have "Encode_signed v = le_enc n (unat (ByteSwapIfLittleEndian (v XOR 2 ^ (LENGTH('a) - 1))))"
    unfolding Encode_signed_def Let_def l by (simp add: push_bit_of_1)
  then show ?thesis using le_enc_ByteSwap [OF assms(1)] by simp
qed

lemma unsigned_code:
  assumes "LENGTH('a::len) = 8 * n"
  shows "fixed_code (EncodeUnsigned :: 'a word \<Rightarrow> u8 list) uint n unat"
proof
  fix a b :: "'a word"
  show "EncodeUnsigned a = be_enc n (unat a)" "unat a < 256 ^ n" by (rule EncodeUnsigned_be [OF assms])+
  show "unat a < unat b \<longleftrightarrow> uint a < uint b" using of_nat_less_iff [of "unat a" "unat b", where ?'a = int] by simp
qed

lemma signed_code:
  assumes "LENGTH('a::len) = 8 * n" "0 < n"
  shows "fixed_code (Encode_signed :: 'a word \<Rightarrow> u8 list) sint n (\<lambda>v. unat (v XOR 2 ^ (LENGTH('a) - 1)))"
proof
  fix a b :: "'a word"
  show "Encode_signed a = be_enc n (unat (a XOR 2 ^ (LENGTH('a) - 1)))" by (rule Encode_signed_be [OF assms])
  show "unat (a XOR 2 ^ (LENGTH('a) - 1)) < 256 ^ n" by (rule EncodeUnsigned_be(2) [OF assms(1)])
  show "unat (a XOR 2 ^ (LENGTH('a) - 1)) < unat (b XOR 2 ^ (LENGTH('a) - 1)) \<longleftrightarrow> sint a < sint b"
    using unat_flip_top [of a] unat_flip_top [of b] by linarith
qed

interpretation u8c: fixed_code "EncodeUnsigned :: u8 \<Rightarrow> u8 list" uint 1 unat
  by (rule unsigned_code) simp
interpretation u16c: fixed_code "EncodeUnsigned :: u16 \<Rightarrow> u8 list" uint 2 unat
  by (rule unsigned_code) simp
interpretation u32c: fixed_code "EncodeUnsigned :: u32 \<Rightarrow> u8 list" uint 4 unat
  by (rule unsigned_code) simp
interpretation u64c: fixed_code "EncodeUnsigned :: u64 \<Rightarrow> u8 list" uint 8 unat
  by (rule unsigned_code) simp
interpretation i8c: fixed_code "Encode_signed :: u8 \<Rightarrow> u8 list" sint 1 "\<lambda>v. unat (v XOR 2 ^ (LENGTH(8) - 1))"
  by (rule signed_code) simp_all
interpretation i16c: fixed_code "Encode_signed :: u16 \<Rightarrow> u8 list" sint 2 "\<lambda>v. unat (v XOR 2 ^ (LENGTH(16) - 1))"
  by (rule signed_code) simp_all
interpretation i32c: fixed_code "Encode_signed :: u32 \<Rightarrow> u8 list" sint 4 "\<lambda>v. unat (v XOR 2 ^ (LENGTH(32) - 1))"
  by (rule signed_code) simp_all
interpretation i64c: fixed_code "Encode_signed :: u64 \<Rightarrow> u8 list" sint 8 "\<lambda>v. unat (v XOR 2 ^ (LENGTH(64) - 1))"
  by (rule signed_code) simp_all

section \<open>Doubles\<close>

text \<open>The order of doubles: sign and magnitude of the bit pattern, both zeros equal, not-a-number above all.\<close>

definition dbl_rank :: "u64 \<Rightarrow> int" where
  "dbl_rank d =
     (if dbl_is_zero d then 0
      else if dbl_isnan d then 0x7FF8000000000000
      else if uint d < 2 ^ 63 then uint (d AND 0x7FFFFFFFFFFFFFFF)
      else - uint (d AND 0x7FFFFFFFFFFFFFFF))"

definition dbl_word :: "u64 \<Rightarrow> u64" where
  "dbl_word data =
     (let d = (if dbl_is_zero data then 0 else if dbl_isnan data then quiet_NaN else data)
      in d XOR (if drop_bit 63 d \<noteq> 0 then NOT 0 else push_bit 63 1))"

lemma uint_magnitude: "uint (d AND 0x7FFFFFFFFFFFFFFF :: u64) = uint d mod 2 ^ 63"
proof -
  have "d AND 0x7FFFFFFFFFFFFFFF = take_bit 63 d"
    by (simp add: take_bit_eq_mask mask_eq_exp_minus_1)
  then show ?thesis by (simp add: take_bit_eq_mod uint_mod)
qed

lemma magnitude_cases:
  "uint (d AND 0x7FFFFFFFFFFFFFFF :: u64) = (if uint d < 2 ^ 63 then uint d else uint d - 2 ^ 63)"
proof (cases "uint d < 2 ^ 63")
  case True
  then show ?thesis by (simp add: uint_magnitude mod_pos_pos_trivial)
next
  case False
  have lt: "uint d < 2 ^ 64" using uint_lt2p [of d] by simp
  have "uint d mod 2 ^ 63 = (uint d - 2 ^ 63 + 2 ^ 63) mod 2 ^ 63" by simp
  also have "\<dots> = (uint d - 2 ^ 63) mod 2 ^ 63" by (rule mod_add_self2)
  also have "\<dots> = uint d - 2 ^ 63" using False lt by (intro mod_pos_pos_trivial) simp_all
  finally show ?thesis using False by (simp add: uint_magnitude)
qed

lemma sign_bit_63: "drop_bit 63 d = 0 \<longleftrightarrow> uint (d :: u64) < 2 ^ 63"
proof -
  have "drop_bit 63 d = 0 \<longleftrightarrow> uint (drop_bit 63 d) = 0" by (simp add: uint_0_iff)
  also have "\<dots> \<longleftrightarrow> uint d div 2 ^ 63 = 0" by (simp add: drop_bit_eq_div uint_div)
  also have "\<dots> \<longleftrightarrow> uint d < 2 ^ 63" using uint_ge_0 [of d] by (auto simp: zdiv_eq_0_iff)
  finally show ?thesis .
qed

lemma uint_not: "uint (NOT d :: u64) = 2 ^ 64 - 1 - uint d"
proof -
  have "NOT d = - 1 - d" by (simp add: not_eq_complement)
  moreover have "uint d < 2 ^ 64" "0 \<le> uint d" using uint_lt2p [of d] by simp_all
  ultimately show ?thesis
    by (simp add: uint_word_ariths) (rule mod_pos_pos_trivial; use uint_ge_0 [of d] in linarith)
qed

lemma uint_flip_top64: "uint d < 2 ^ 63 \<Longrightarrow> uint (d XOR push_bit 63 1 :: u64) = uint d + 2 ^ 63"
  using unat_flip_top [of d] sint_eq_uint_if [of d] by (simp add: push_bit_of_1)

lemma dbl_word_rank:
  "uint (dbl_word d) = (if dbl_rank d < 0 then 2 ^ 63 - 1 + dbl_rank d else 2 ^ 63 + dbl_rank d)"
proof (cases "dbl_is_zero d")
  case True
  then show ?thesis by (simp add: dbl_word_def dbl_rank_def)
next
  case nz: False
  show ?thesis
  proof (cases "dbl_isnan d")
    case True
    have "uint (quiet_NaN XOR push_bit 63 1) = uint quiet_NaN + 2 ^ 63"
      by (rule uint_flip_top64) (simp add: quiet_NaN_def)
    moreover have "drop_bit 63 quiet_NaN = 0" by (simp add: sign_bit_63 quiet_NaN_def)
    ultimately show ?thesis using True nz by (simp add: dbl_word_def dbl_rank_def) (simp add: quiet_NaN_def)
  next
    case False
    have pos: "0 < uint (d AND 0x7FFFFFFFFFFFFFFF)"
      using nz by (metis dbl_is_zero_def uint_0_iff word_gt_0_no uint_ge_0 order_le_less)
    show ?thesis
    proof (cases "uint d < 2 ^ 63")
      case True
      then show ?thesis
        using nz False pos sign_bit_63 [of d] uint_flip_top64 [OF True] magnitude_cases [of d]
        by (simp add: dbl_word_def dbl_rank_def)
    next
      case neg: False
      then have "dbl_word d = NOT d" using nz False sign_bit_63 [of d] by (simp add: dbl_word_def)
      then show ?thesis
        using nz False pos neg uint_not [of d] magnitude_cases [of d] by (simp add: dbl_rank_def)
    qed
  qed
qed

interpretation dblc: fixed_code Encode_double dbl_rank 8 "\<lambda>d. unat (dbl_word d)"
proof
  fix a b
  show "Encode_double a = be_enc 8 (unat (dbl_word a))"
    using le_enc_ByteSwap [of 8 "dbl_word a"] by (simp add: Encode_double_def dbl_word_def Let_def)
  show "unat (dbl_word a) < 256 ^ 8" using unat_u64_less [of "dbl_word a"] by simp
  have "unat (dbl_word a) < unat (dbl_word b) \<longleftrightarrow> uint (dbl_word a) < uint (dbl_word b)"
    using of_nat_less_iff [of "unat (dbl_word a)" "unat (dbl_word b)", where ?'a = int] by simp
  then show "unat (dbl_word a) < unat (dbl_word b) \<longleftrightarrow> dbl_rank a < dbl_rank b"
    using dbl_word_rank [of a] dbl_word_rank [of b] by (simp split: if_splits)
qed

section \<open>Strings\<close>

lemma terminated_less:
  fixes xs ys :: "u8 list"
  assumes "0 \<notin> set xs" "0 \<notin> set ys"
  shows "xs @ 0 # x < ys @ 0 # y \<longleftrightarrow> xs < ys \<or> xs = ys \<and> x < y"
  using assms
proof (induction xs arbitrary: ys)
  case Nil
  then show ?case by (cases ys) (auto simp: word_gt_0)
next
  case (Cons a xs)
  then have "0 < a" by (auto simp: word_gt_0)
  with Cons show ?case by (cases ys) auto
qed

lemma terminated_eq:
  assumes "(0 :: u8) \<notin> set xs" "0 \<notin> set ys"
  shows "xs @ 0 # x = ys @ 0 # y \<longleftrightarrow> xs = ys \<and> x = y"
  using assms
proof (induction xs arbitrary: ys)
  case Nil
  then show ?case by (cases ys) auto
next
  case (Cons a xs)
  then show ?case by (cases ys) auto
qed

lemma map_less_iff:
  fixes f :: "'a::linorder \<Rightarrow> 'b::linorder"
  assumes "\<And>a b. f a < f b \<longleftrightarrow> a < b"
  shows "map f xs < map f ys \<longleftrightarrow> xs < ys"
proof (induction xs arbitrary: ys)
  case Nil
  then show ?case by (cases ys) auto
next
  case (Cons a xs)
  have "f a = f b \<longleftrightarrow> a = b" for b using assms [of a b] assms [of b a] by (metis less_irrefl linorder_cases)
  with Cons assms show ?case by (cases ys) auto
qed

lemma map_uint_less: "map uint (xs :: u8 list) < map uint ys \<longleftrightarrow> xs < ys"
  by (rule map_less_iff) (rule word_less_def [symmetric])

lemma map_uint_eq: "map uint (xs :: u8 list) = map uint ys \<longleftrightarrow> xs = ys"
  by (rule inj_map_eq_map) (simp add: inj_on_def word_uint_eq_iff)

section \<open>Columns\<close>

text \<open>The value of a column as a list of integers: a singleton for the numeric types, the normalised bytes for strings.\<close>

definition varlen_bytes :: "mem \<Rightarrow> nat \<Rightarrow> u8 list" where
  "varlen_bytes m ptr = rd_bytes m (varlen_GetInline ptr) (unat (varlen_GetSize m ptr))"

definition col_rank :: "(bool \<Rightarrow> u8 list \<Rightarrow> u8 list res) \<Rightarrow> mem \<Rightarrow> nat \<Rightarrow> type_id \<Rightarrow> int list" where
  "col_rank norm m ptr t =
     (case t of
        BOOLEAN \<Rightarrow> [uint (rd8 m ptr)]
      | UTINYINT \<Rightarrow> [uint (rd8 m ptr)]
      | TINYINT \<Rightarrow> [sint (rd8 m ptr)]
      | USMALLINT \<Rightarrow> [uint (rd16 m ptr)]
      | SMALLINT \<Rightarrow> [sint (rd16 m ptr)]
      | UINTEGER \<Rightarrow> [uint (rd32 m ptr)]
      | INTEGER \<Rightarrow> [sint (rd32 m ptr)]
      | UBIGINT \<Rightarrow> [uint (rd64 m ptr)]
      | BIGINT \<Rightarrow> [sint (rd64 m ptr)]
      | DOUBLE \<Rightarrow> [dbl_rank (rd64 m ptr)]
      | _ \<Rightarrow> (case norm False (varlen_bytes m ptr) of Inr out \<Rightarrow> map uint out | Inl e \<Rightarrow> []))"

text \<open>The normalised string holds no zero byte.\<close>

definition nul_free :: "(bool \<Rightarrow> u8 list \<Rightarrow> u8 list res) \<Rightarrow> mem \<Rightarrow> nat \<Rightarrow> type_id \<Rightarrow> bool" where
  "nul_free norm m ptr t \<longleftrightarrow> (t \<in> {VARCHAR, VARBINARY} \<longrightarrow>
     (\<forall>out. norm False (varlen_bytes m ptr) = Inr out \<longrightarrow> 0 \<notin> set out))"

lemma single_less: "[a :: int] < [b] \<longleftrightarrow> a < b"
  by simp

lemma column_code:
  assumes "SwitchType norm m p False t plain_specs = Inr b" "SwitchType norm m' p' False t plain_specs = Inr b'"
    "nul_free norm m p t" "nul_free norm m' p' t"
  shows "b @ x < b' @ y \<longleftrightarrow> col_rank norm m p t < col_rank norm m' p' t \<or> col_rank norm m p t = col_rank norm m' p' t \<and> x < y"
    "b @ x = b' @ y \<longleftrightarrow> col_rank norm m p t = col_rank norm m' p' t \<and> x = y"
proof -
  note sw = assms(1,2) [unfolded SwitchType_def with_null_marker_def plain_specs_def]
  have str: "(b @ x < b' @ y \<longleftrightarrow> col_rank norm m p t < col_rank norm m' p' t \<or> col_rank norm m p t = col_rank norm m' p' t \<and> x < y) \<and>
    (b @ x = b' @ y \<longleftrightarrow> col_rank norm m p t = col_rank norm m' p' t \<and> x = y)" if st: "t \<in> {VARCHAR, VARBINARY}"
  proof -
    obtain o1 where o1: "norm False (varlen_bytes m p) = Inr o1" "b = o1 @ [0]"
      using sw(1) st by (auto simp: EncodeStringNormalized_def varlen_bytes_def ebind_Inr_iff)
    obtain o2 where o2: "norm False (varlen_bytes m' p') = Inr o2" "b' = o2 @ [0]"
      using sw(2) st by (auto simp: EncodeStringNormalized_def varlen_bytes_def ebind_Inr_iff)
    have z: "0 \<notin> set o1" "0 \<notin> set o2" using assms(3,4) st o1(1) o2(1) by (auto simp: nul_free_def)
    have r: "col_rank norm m p t = map uint o1" "col_rank norm m' p' t = map uint o2"
      using st o1(1) o2(1) by (auto simp: col_rank_def)
    show ?thesis
      unfolding r map_uint_less map_uint_eq using terminated_less [OF z] terminated_eq [OF z] by (simp add: o1(2) o2(2))
  qed
  have "(b @ x < b' @ y \<longleftrightarrow> col_rank norm m p t < col_rank norm m' p' t \<or> col_rank norm m p t = col_rank norm m' p' t \<and> x < y) \<and>
    (b @ x = b' @ y \<longleftrightarrow> col_rank norm m p t = col_rank norm m' p' t \<and> x = y)"
  proof (cases t)
    case VARCHAR then show ?thesis by (intro str) simp
  next
    case VARBINARY then show ?thesis by (intro str) simp
  next
    case BOOLEAN with sw show ?thesis by (auto simp: col_rank_def u8c.append_less u8c.append_eq u8c.enc_eq)
  next
    case UTINYINT with sw show ?thesis by (auto simp: col_rank_def u8c.append_less u8c.append_eq u8c.enc_eq)
  next
    case TINYINT with sw show ?thesis by (auto simp: col_rank_def i8c.append_less i8c.append_eq i8c.enc_eq)
  next
    case USMALLINT with sw show ?thesis by (auto simp: col_rank_def u16c.append_less u16c.append_eq u16c.enc_eq)
  next
    case SMALLINT with sw show ?thesis by (auto simp: col_rank_def i16c.append_less i16c.append_eq i16c.enc_eq)
  next
    case UINTEGER with sw show ?thesis by (auto simp: col_rank_def u32c.append_less u32c.append_eq u32c.enc_eq)
  next
    case INTEGER with sw show ?thesis by (auto simp: col_rank_def i32c.append_less i32c.append_eq i32c.enc_eq)
  next
    case UBIGINT with sw show ?thesis by (auto simp: col_rank_def u64c.append_less u64c.append_eq u64c.enc_eq)
  next
    case BIGINT with sw show ?thesis by (auto simp: col_rank_def i64c.append_less i64c.append_eq i64c.enc_eq)
  next
    case DOUBLE with sw show ?thesis by (auto simp: col_rank_def dblc.append_less dblc.append_eq dblc.enc_eq)
  qed
  then show "b @ x < b' @ y \<longleftrightarrow> col_rank norm m p t < col_rank norm m' p' t \<or> col_rank norm m p t = col_rank norm m' p' t \<and> x < y"
    "b @ x = b' @ y \<longleftrightarrow> col_rank norm m p t = col_rank norm m' p' t \<and> x = y" by blast+
qed

section \<open>Keys\<close>

definition key_ranks :: "(bool \<Rightarrow> u8 list \<Rightarrow> u8 list res) \<Rightarrow> mem \<Rightarrow> TypeSize list \<Rightarrow> int list list" where
  "key_ranks norm chunk types =
     map (\<lambda>t. case chunk_Get chunk (col_id t) of Inr ptr \<Rightarrow> col_rank norm chunk ptr (ts_type t) | Inl e \<Rightarrow> []) types"

definition key_clean :: "(bool \<Rightarrow> u8 list \<Rightarrow> u8 list res) \<Rightarrow> mem \<Rightarrow> TypeSize list \<Rightarrow> bool" where
  "key_clean norm chunk types \<longleftrightarrow>
     (\<forall>t \<in> set types. \<forall>ptr. chunk_Get chunk (col_id t) = Inr ptr \<longrightarrow> nul_free norm chunk ptr (ts_type t))"

lemma BuildKey_cols_code:
  assumes "BuildKey_cols norm c types = Inr b" "BuildKey_cols norm c' types = Inr b'"
    "key_clean norm c types" "key_clean norm c' types"
  shows "(b @ x < b' @ y \<longleftrightarrow> key_ranks norm c types < key_ranks norm c' types \<or>
      key_ranks norm c types = key_ranks norm c' types \<and> x < y) \<and>
    (b @ x = b' @ y \<longleftrightarrow> key_ranks norm c types = key_ranks norm c' types \<and> x = y)"
  using assms
proof (induction types arbitrary: b b')
  case Nil
  then show ?case by (simp add: key_ranks_def)
next
  case (Cons t types)
  obtain p h r where a: "chunk_Get c (col_id t) = Inr p" "SwitchType norm c p False (ts_type t) plain_specs = Inr h"
    "BuildKey_cols norm c types = Inr r" "b = h @ r"
    using Cons.prems(1) by (auto simp: ebind_Inr_iff)
  obtain p' h' r' where a': "chunk_Get c' (col_id t) = Inr p'" "SwitchType norm c' p' False (ts_type t) plain_specs = Inr h'"
    "BuildKey_cols norm c' types = Inr r'" "b' = h' @ r'"
    using Cons.prems(2) by (auto simp: ebind_Inr_iff)
  have nf: "nul_free norm c p (ts_type t)" "nul_free norm c' p' (ts_type t)"
    using Cons.prems(3,4) a(1) a'(1) by (simp_all add: key_clean_def)
  have cl: "key_clean norm c types" "key_clean norm c' types" using Cons.prems(3,4) by (simp_all add: key_clean_def)
  have kr: "key_ranks norm c (t # types) = col_rank norm c p (ts_type t) # key_ranks norm c types"
    "key_ranks norm c' (t # types) = col_rank norm c' p' (ts_type t) # key_ranks norm c' types"
    by (simp_all add: key_ranks_def a(1) a'(1))
  note cc = column_code [OF a(2) a'(2) nf, of "r @ x" "r' @ y"]
  show ?case
    using Cons.IH [OF a(3) a'(3) cl] cc by (auto simp: a(4) a'(4) kr)
qed


definition key_chunk :: "u8 \<Rightarrow> mem" where
  "key_chunk v a =
     (if a < 17 then [1, 0, 0, 0, 24, 0, 0, 0, 1, 0, 0, 0, 16, 0, 0, 0, v] ! a else 0)"

lemma key_chunk_reads:
  "chunk_Get (key_chunk v) 1 = Inr 16" "rd32 (key_chunk v) 16 = ucast v"
proof -
  have n: "chunk_count (key_chunk v) = 1"
    by (simp add: chunk_count_def rd32_def rd_bytes_def key_chunk_def upt_rec)
  have i: "GetColumnIds (key_chunk v) = [1]"
    by (simp add: GetColumnIds_def n COLUMN_IDS_START_def rd32_def rd_bytes_def key_chunk_def upt_rec)
  have o': "GetOffsetsPtr (key_chunk v) = 12"
    by (simp add: GetOffsetsPtr_def n COLUMN_IDS_START_def AlignUp_def)
  have "Access (key_chunk v) 0 = 16"
    by (simp add: Access_def o' rd16_def rd_bytes_def key_chunk_def upt_rec)
  with i show "chunk_Get (key_chunk v) 1 = Inr 16" by (simp add: chunk_Get_def)
  show "rd32 (key_chunk v) 16 = ucast v"
    by (simp add: rd32_def rd_bytes_def key_chunk_def upt_rec unsigned_ucast_eq)
qed

lemma key_chunk_key:
  "BuildKey norm (key_chunk v) tid [TypeSize_new 1 INTEGER] =
     Inr \<lparr>klen = word_of_nat (length (Encode_signed (ucast v :: u32) @ EncodeUnsigned tid)),
          kdata = Some (Encode_signed (ucast v :: u32) @ EncodeUnsigned tid)\<rparr>"
  "key_ranks norm (key_chunk v) [TypeSize_new 1 INTEGER] = [[sint (ucast v :: u32)]]"
  "key_clean norm (key_chunk v) [TypeSize_new 1 INTEGER]"
  by (simp_all add: BuildKey_def TypeSize_new_def SwitchType_def with_null_marker_def plain_specs_def key_chunk_reads Let_def
      key_ranks_def col_rank_def key_clean_def nul_free_def)


text \<open>C32: Each numeric type is encoded in its own order: unsigned and signed integers of every width by value, doubles
by sign and magnitude with both zeros equal.\<close>

theorem numeric_encodings_ordered:
  "(EncodeUnsigned (a :: u8) < EncodeUnsigned b \<longleftrightarrow> a < b) \<and> (EncodeUnsigned (c :: u16) < EncodeUnsigned d \<longleftrightarrow> c < d) \<and>
   (EncodeUnsigned (e :: u32) < EncodeUnsigned f \<longleftrightarrow> e < f) \<and> (EncodeUnsigned (g :: u64) < EncodeUnsigned h \<longleftrightarrow> g < h) \<and>
   (Encode_signed a < Encode_signed b \<longleftrightarrow> sint a < sint b) \<and> (Encode_signed c < Encode_signed d \<longleftrightarrow> sint c < sint d) \<and>
   (Encode_signed e < Encode_signed f \<longleftrightarrow> sint e < sint f) \<and> (Encode_signed g < Encode_signed h \<longleftrightarrow> sint g < sint h) \<and>
   (Encode_double g < Encode_double h \<longleftrightarrow> dbl_rank g < dbl_rank h) \<and> Encode_double 0 = Encode_double 0x8000000000000000"
proof -
  have z: "dbl_rank 0 = dbl_rank 0x8000000000000000"
    by (simp add: dbl_rank_def dbl_is_zero_def)
  show ?thesis
    by (intro conjI u8c.enc_less [folded word_less_def] u16c.enc_less [folded word_less_def] u32c.enc_less [folded word_less_def]
        u64c.enc_less [folded word_less_def] i8c.enc_less i16c.enc_less i32c.enc_less i64c.enc_less dblc.enc_less
        dblc.enc_eq [THEN iffD2] z)
qed

lemma length_EncodeUnsigned: "length (EncodeUnsigned (v :: 'a::len word)) = LENGTH('a) div 8"
  by (simp add: EncodeUnsigned_def)

lemma length_Encode_signed: "length (Encode_signed (v :: 'a::len word)) = LENGTH('a) div 8"
  by (simp add: Encode_signed_def Let_def)

lemma length_Encode_double: "length (Encode_double d) = 8"
  by (simp add: Encode_double_def Let_def)

text \<open>The bound on strings that the size of a key assumes: four bytes for each of the twelve inline characters, less the
  terminator.\<close>

definition short_norm :: "(bool \<Rightarrow> u8 list \<Rightarrow> u8 list res) \<Rightarrow> bool" where
  "short_norm norm \<longleftrightarrow> (\<forall>cs data out. norm cs data = Inr out \<longrightarrow> length out \<le> 51)"

lemma SwitchType_length:
  assumes "SwitchType norm m p False t plain_specs = Inr b" "short_norm norm"
  shows "length b \<le> unat (MaxEncodedSize t plain_specs)"
proof (cases "t \<in> {VARCHAR, VARBINARY}")
  case True
  then obtain out d where "norm False d = Inr out" "b = out @ [0]"
    using assms(1) by (auto simp: SwitchType_def with_null_marker_def plain_specs_def EncodeStringNormalized_def ebind_Inr_iff)
  moreover have "length out \<le> 51" if "norm False d = Inr out" for out d
    using assms(2) that by (simp add: short_norm_def)
  ultimately show ?thesis using True by (auto simp: MaxEncodedSize_def plain_specs_def)
next
  case False
  with assms(1) show ?thesis
    by (cases t) (auto simp: SwitchType_def with_null_marker_def plain_specs_def MaxEncodedSize_def
        length_EncodeUnsigned length_Encode_signed length_Encode_double)
qed

fun max_encoded_total :: "TypeSize list \<Rightarrow> nat" where
  "max_encoded_total [] = 0"
| "max_encoded_total (t # ts) = unat (MaxEncodedSize (ts_type t) plain_specs) + max_encoded_total ts"

lemma MaxEncodedSize_52: "unat (MaxEncodedSize t plain_specs) \<le> 52"
  by (cases t) (simp_all add: MaxEncodedSize_def plain_specs_def)

lemma max_encoded_total_bound: "max_encoded_total ts \<le> 52 * length ts"
proof (induction ts)
  case (Cons t ts)
  then show ?case using MaxEncodedSize_52 [of "ts_type t"] by simp
qed simp

lemma MaxKeyLen_fold:
  assumes "unat n + max_encoded_total ts < 65536"
  shows "unat (foldl (\<lambda>n t. n + MaxEncodedSize (ts_type t) plain_specs) n ts) = unat n + max_encoded_total ts"
  using assms
proof (induction ts arbitrary: n)
  case (Cons t ts)
  have "unat (n + MaxEncodedSize (ts_type t) plain_specs) = unat n + unat (MaxEncodedSize (ts_type t) plain_specs)"
    using Cons.prems by (intro unat_plus_small) simp_all
  with Cons show ?case by simp
qed simp

lemma MaxKeyLen_total:
  assumes "length ts \<le> 1000"
  shows "unat (MaxKeyLen ts) = max_encoded_total ts + 8"
proof -
  have b: "max_encoded_total ts + 8 < 65536" using max_encoded_total_bound [of ts] assms by simp
  then have "unat (foldl (\<lambda>n t. n + MaxEncodedSize (ts_type t) plain_specs) 0 ts) = max_encoded_total ts"
    using MaxKeyLen_fold [of 0 ts] by simp
  with b show ?thesis unfolding MaxKeyLen_def by (subst unat_plus_small) simp_all
qed

lemma BuildKey_cols_length:
  assumes "BuildKey_cols norm c types = Inr b" "short_norm norm"
  shows "length b \<le> max_encoded_total types"
  using assms(1)
proof (induction types arbitrary: b)
  case (Cons t ts)
  then obtain p h r where "SwitchType norm c p False (ts_type t) plain_specs = Inr h" "BuildKey_cols norm c ts = Inr r" "b = h @ r"
    by (auto simp: ebind_Inr_iff)
  with Cons.IH SwitchType_length [OF _ assms(2)] show ?case by fastforce
qed simp



lemma rd_bytes_append: "rd_bytes m a (n + k) = rd_bytes m a n @ rd_bytes m (a + n) k"
  by (rule nth_equalityI) (auto simp: rd_bytes_def nth_append add.assoc)

text \<open>Encoding a string of more than twelve bytes reads past its inline part: the bytes encoded are the first twelve of the
string and then whatever follows the entry in memory.\<close>

theorem long_string_overread:
  assumes "12 < length data" "length data < 2 ^ 32" "norm cs = (\<lambda>b. Inr b)"
  shows "EncodeStringNormalized norm (varlen_bytes (varlen_Set m p data) p) cs =
    Inr (take 12 data @ rd_bytes m (p + 16) (length data - 12) @ [0])"
proof -
  have sz: "unat (varlen_GetSize (varlen_Set m p data) p) = 12 + (length data - 12)"
    using assms(1,2) by (simp add: varlen_GetSize_def varlen_Set_def mem_simps) (simp add: unat_of_nat)
  have "varlen_bytes (varlen_Set m p data) p = take 12 data @ rd_bytes m (p + 16) (length data - 12)"
  proof -
    have "rd_bytes (varlen_Set m p data) (p + 4) 12 = take 12 data"
      using assms(1) by (simp add: varlen_Set_def INLINE_SIZE_CAP_def rd_wr_bytes_same)
    moreover have "rd_bytes (varlen_Set m p data) (p + 16) (length data - 12) = rd_bytes m (p + 16) (length data - 12)"
      using assms(1) by (simp add: varlen_Set_def INLINE_SIZE_CAP_def mem_simps)
    ultimately show ?thesis
      unfolding varlen_bytes_def varlen_GetInline_def sz rd_bytes_append by (simp add: add.assoc)
  qed
  then show ?thesis by (simp add: EncodeStringNormalized_def assms(3))
qed

theorem long_string_overread_witness:
  "EncodeStringNormalized (\<lambda>_ b. Inr b) (varlen_bytes (varlen_Set (\<lambda>_. 7) 0 (replicate 14 1)) 0) False =
    Inr (replicate 12 1 @ [7, 7] @ [0])"
  using long_string_overread [of "replicate 14 1" "\<lambda>_ b. Inr b" False "\<lambda>_. 7" 0]
  by (simp add: rd_bytes_def upt_rec)

end
