(* ===== verification/BTree.thy ===== *)
theory BTree
  imports LeafLayout InterLayout Locks FreeSpace KeyEncoder
begin

text \<open>
  The B-link tree (\<^verbatim>\<open>access/index/btree.hpp\<close>) over the page layouts.

  The state is the tree object together with what its operations reach: the pages of its table as the
  buffer pool serves them (a map from page ids to page memories; a pinned page is named by its id), the
  page counters of \<^verbatim>\<open>FreeSpaceManagerIndex\<close>, and the stack of visited pages of the calling thread. The
  operations are the ones of a thread that runs alone: latches are always free and the optimistic reads
  validate at once, so a \<^verbatim>\<open>continue\<close> after a failed validation, which repeats the iteration on the same
  page, does not occur.

  Every loop is a recursive function into \<^verbatim>\<open>option\<close>: \<^verbatim>\<open>None\<close> is a loop that never ends. \<open>obind\<close> sequences such results.
\<close>

section \<open>State and pages\<close>

record BTreeIndex =
  root_id :: page_id
  bt_tbl :: table_id
  bt_heap_tbl :: table_id
  bt_attrs :: "TypeSize list"
  bt_nodes :: "page_id \<Rightarrow> mem"
  bt_fsm :: FreeSpaceManagerIndex
  bt_tl :: TlState

definition set_node :: "BTreeIndex \<Rightarrow> page_id \<Rightarrow> mem \<Rightarrow> BTreeIndex" where
  "set_node t p d = t\<lparr>bt_nodes := (bt_nodes t)(p := d)\<rparr>"

definition MAX_POOL_PAGES :: u32 where
  "MAX_POOL_PAGES = 80000"

text \<open>Pinning checks the page id; the frame is latched in the mode of the caller.\<close>

definition GetNode :: "page_id \<Rightarrow> page_id res" where
  "GetNode p =
     DB7_ASSERT (p \<noteq> 0) ''invalid pid''
    (DB7_ASSERT (p \<noteq> UNDEFINED_PAGE) ''invalid pid'' (Inr p))"

text \<open>A reserved page is zeroed.\<close>

definition ReserveNode :: "BTreeIndex \<Rightarrow> (BTreeIndex \<times> page_id) res" where
  "ReserveNode t =
     (let (fsm, p) = fsm_index_Get (bt_fsm t) (bt_tbl t)
      in DB7_ASSERT (p < MAX_POOL_PAGES) ''no more pages''
           (Inr (set_node (t\<lparr>bt_fsm := fsm\<rparr>) p (\<lambda>_. 0), p)))"

section \<open>Splitting\<close>

definition CreateNewRoot :: "BTreeIndex \<Rightarrow> u8 \<Rightarrow> Key \<Rightarrow> page_id \<Rightarrow> page_id \<Rightarrow> BTreeIndex res" where
  "CreateNewRoot t level key p new_pid =
     ebind (ReserveNode t) (\<lambda>(t1, r).
       let d = InitHeader (bt_nodes t1 r) 1 (level + 1) r;
           d' = CreateRoot d key p new_pid
       in DB7_ASSERT (unat (GetLevel d') = unat level + 1) ''root level clobbered''
            (Inr ((set_node t1 r d')\<lparr>root_id := r\<rparr>)))"

text \<open>The results are the new page and the separator, which \<^verbatim>\<open>CopyKey\<close> copies out of the page.\<close>

definition SplitLeaf :: "BTreeIndex \<Rightarrow> page_id \<Rightarrow> Key \<Rightarrow> (BTreeIndex \<times> page_id \<times> Key) res" where
  "SplitLeaf t p key =
     ebind (ReserveNode t) (\<lambda>(t1, new_pid).
     ebind (leaf_Split (bt_nodes t1 p) (InitHeader (bt_nodes t1 new_pid) 0 0 new_pid) new_pid key) (\<lambda>(l, r, sentinel).
       Inr (set_node (set_node t1 p l) new_pid r, new_pid, sentinel)))"

definition SplitInter :: "BTreeIndex \<Rightarrow> page_id \<Rightarrow> Key \<Rightarrow> page_id \<Rightarrow> (BTreeIndex \<times> page_id \<times> Key) res" where
  "SplitInter t p key v =
     ebind (ReserveNode t) (\<lambda>(t1, new_pid).
     ebind (inter_Split (bt_nodes t1 p) (InitHeader (bt_nodes t1 new_pid) 0 (GetLevel (bt_nodes t1 p)) new_pid)
              new_pid key v) (\<lambda>(l, r, sentinel).
       Inr (set_node (set_node t1 p l) new_pid r, new_pid, sentinel)))"

section \<open>Moving right\<close>

partial_function (option) GoRightInter :: "(page_id \<Rightarrow> mem) \<Rightarrow> page_id \<Rightarrow> Key \<Rightarrow> page_id res option" where
  "GoRightInter nodes p key =
     obind (Some (inter_HasSplit (nodes p) key)) (\<lambda>split.
       if \<not> split then Some (Inr p)
       else obind (Some (GetNode (GetRLink (nodes p)))) (\<lambda>q. GoRightInter nodes q key))"

partial_function (option) GoRightLeaf :: "(page_id \<Rightarrow> mem) \<Rightarrow> page_id \<Rightarrow> Key \<Rightarrow> page_id res option" where
  "GoRightLeaf nodes p key =
     obind (Some (leaf_HasSplit (nodes p) key)) (\<lambda>split.
       if \<not> split then Some (Inr p)
       else obind (Some (GetNode (GetRLink (nodes p)))) (\<lambda>q. GoRightLeaf nodes q key))"

section \<open>Descending\<close>

text \<open>To the leaf level, stacking the pages of the intermediate levels.\<close>

partial_function (option) drop_loop :: "(page_id \<Rightarrow> mem) \<Rightarrow> TlState \<Rightarrow> page_id \<Rightarrow> Key \<Rightarrow> (TlState \<times> page_id) res option" where
  "drop_loop nodes st p key =
     (let data = nodes p
      in if GetLevel data = 0 then Some (Inr (st, p))
         else obind (Some (inter_HasSplit data key)) (\<lambda>split.
           if split then obind (Some (GetNode (GetRLink data))) (\<lambda>q. drop_loop nodes st q key)
           else obind (Some (tl_Push st p)) (\<lambda>st'.
                obind (Some (GetNode (inter_Get data (unat (GetCount data)) key))) (\<lambda>q. drop_loop nodes st' q key))))"

definition DropToLeaf :: "BTreeIndex \<Rightarrow> Key \<Rightarrow> (BTreeIndex \<times> page_id) res option" where
  "DropToLeaf t key =
     obind (Some (GetNode (root_id t))) (\<lambda>p.
     obind (drop_loop (bt_nodes t) (bt_tl t) p key) (\<lambda>(st, leaf). Some (Inr (t\<lparr>bt_tl := st\<rparr>, leaf))))"

text \<open>To a given level, stacking the page of that level as well. The level is counted, and asserted against the page.\<close>

partial_function (option) drop_to_loop :: "(page_id \<Rightarrow> mem) \<Rightarrow> TlState \<Rightarrow> page_id \<Rightarrow> Key \<Rightarrow> u8 \<Rightarrow> u8 \<Rightarrow> TlState res option" where
  "drop_to_loop nodes st p key level drop_level =
     (let data = nodes p
      in obind (Some (DB7_ASSERT (level = GetLevel data) ''invalid level node'' (Inr ()))) (\<lambda>_.
         if level \<le> drop_level then Some (tl_Push st p)
         else obind (Some (inter_HasSplit data key)) (\<lambda>split.
           if split then obind (Some (GetNode (GetRLink data))) (\<lambda>q. drop_to_loop nodes st q key level drop_level)
           else obind (Some (tl_Push st p)) (\<lambda>st'.
                obind (Some (GetNode (inter_Get data (unat (GetCount data)) key)))
                  (\<lambda>q. drop_to_loop nodes st' q key (level - 1) drop_level)))))"

definition DropToLevel :: "BTreeIndex \<Rightarrow> Key \<Rightarrow> u8 \<Rightarrow> BTreeIndex res option" where
  "DropToLevel t key drop_level =
     obind (Some (GetNode (root_id t))) (\<lambda>p.
     obind (drop_to_loop (bt_nodes t) (bt_tl t) p key (GetLevel (bt_nodes t p)) drop_level) (\<lambda>st.
       Some (Inr (t\<lparr>bt_tl := st\<rparr>))))"

section \<open>Inserting\<close>

partial_function (option) PropagateInsert :: "BTreeIndex \<Rightarrow> Key \<Rightarrow> page_id \<Rightarrow> BTreeIndex res option" where
  "PropagateInsert t key v =
     (if tl_IsEmpty (bt_tl t) then Some (Inr t)
      else
        obind (Some (tl_Pop (bt_tl t))) (\<lambda>(st, popped).
        let t1 = t\<lparr>bt_tl := st\<rparr>
        in obind (Some (GetNode popped)) (\<lambda>q.
           obind (GoRightInter (bt_nodes t1) q key) (\<lambda>p.
           obind (Some (inter_HasSpace (bt_nodes t1 p) key)) (\<lambda>space.
             if space
             then Some (ebind (inter_Insert (bt_nodes t1 p) key v) (\<lambda>d. Inr (set_node t1 p d)))
             else
               obind (Some (SplitInter t1 p key v)) (\<lambda>(t2, new_pid, sentinel).
               let level = GetLevel (bt_nodes t2 p)
               in if tl_IsEmpty (bt_tl t2)
                  then if root_id t2 = p then Some (CreateNewRoot t2 level sentinel p new_pid)
                       else obind (DropToLevel t2 sentinel (level + 1)) (\<lambda>t3. PropagateInsert t3 sentinel new_pid)
                  else PropagateInsert t2 sentinel new_pid))))))"

text \<open>What follows a split leaf: a new root when the leaf was the root, the parent otherwise.\<close>

definition PublishSplit :: "BTreeIndex \<Rightarrow> u8 \<Rightarrow> page_id \<Rightarrow> page_id \<Rightarrow> Key \<Rightarrow> BTreeIndex res option" where
  "PublishSplit t level p new_pid sentinel =
     (if tl_IsEmpty (bt_tl t)
      then if root_id t = p then Some (CreateNewRoot t level sentinel p new_pid)
           else obind (DropToLevel t sentinel (level + 1)) (\<lambda>t'. PropagateInsert t' sentinel new_pid)
      else PropagateInsert t sentinel new_pid)"

text \<open>The page is the leaf to insert into.\<close>

definition insert_into_leaf :: "BTreeIndex \<Rightarrow> page_id \<Rightarrow> Key \<Rightarrow> BTreeIndex res option" where
  "insert_into_leaf t p key =
     obind (Some (leaf_HasSpace (bt_nodes t p) key)) (\<lambda>space.
       if space then Some (ebind (leaf_Insert (bt_nodes t p) key) (\<lambda>d. Inr (set_node t p d)))
       else obind (Some (SplitLeaf t p key)) (\<lambda>(t1, new_pid, sentinel).
              PublishSplit t1 (GetLevel (bt_nodes t1 p)) p new_pid sentinel))"

definition InsertInternal :: "BTreeIndex \<Rightarrow> page_id \<Rightarrow> Key \<Rightarrow> BTreeIndex res option" where
  "InsertInternal t q key =
     obind (GoRightLeaf (bt_nodes t) q key) (\<lambda>p. insert_into_leaf t p key)"

definition btree_clear :: "BTreeIndex \<Rightarrow> BTreeIndex" where
  "btree_clear t = t\<lparr>bt_tl := tl_Clear (bt_tl t)\<rparr>"

definition BTree_InsertKey :: "BTreeIndex \<Rightarrow> Key \<Rightarrow> BTreeIndex res option" where
  "BTree_InsertKey t key = obind (DropToLeaf (btree_clear t) key) (\<lambda>(t1, q). InsertInternal t1 q key)"

definition BTree_Insert ::
    "(bool \<Rightarrow> u8 list \<Rightarrow> u8 list res) \<Rightarrow> BTreeIndex \<Rightarrow> mem \<Rightarrow> u64 \<Rightarrow> BTreeIndex res option" where
  "BTree_Insert norm t chunk v =
     obind (Some (BuildKey norm chunk v (bt_attrs t))) (\<lambda>key. BTree_InsertKey t key)"

section \<open>Unique insertion\<close>

text \<open>The key with its tuple id replaced.\<close>

definition set_tid :: "Key \<Rightarrow> u64 \<Rightarrow> Key" where
  "set_tid key v =
     key\<lparr>kdata := map_option (\<lambda>bs. take (unat (klen key) - 8) bs @ EncodeUnsigned v @ drop (unat (klen key)) bs) (kdata key)\<rparr>"

text \<open>The walk over the leaves that may hold the key; \<open>conflict\<close> is \<^verbatim>\<open>txn->HasUniqueConflict\<close> on the table of the index.
  The result is the page to insert into, or the failure of the check.\<close>

partial_function (option) unique_loop ::
    "(u64 \<Rightarrow> bool) \<Rightarrow> (page_id \<Rightarrow> mem) \<Rightarrow> Key \<Rightarrow> page_id \<Rightarrow> nat option \<Rightarrow> page_id option \<Rightarrow> page_id option ResultObj res option" where
  "unique_loop conflict nodes key p idx insert_page =
     obind (Some (leaf_CheckUnique conflict (nodes p) key idx)) (\<lambda>res.
       case res of
         Fail m \<Rightarrow> Some (Inr (Fail m))
       | Ok cont \<Rightarrow>
           obind (Some (leaf_HasSplit (nodes p) key)) (\<lambda>split.
             let ip = (if insert_page = None \<and> \<not> split then Some p else insert_page)
             in if \<not> cont then Some (Inr (Ok ip))
                else obind (Some (GetNode (GetRLink (nodes p)))) (\<lambda>q. unique_loop conflict nodes key q (Some 0) ip)))"

definition BTree_InsertUniqueKey ::
    "(u64 \<Rightarrow> bool) \<Rightarrow> BTreeIndex \<Rightarrow> Key \<Rightarrow> u64 \<Rightarrow> (BTreeIndex \<times> unit ResultObj) res option" where
  "BTree_InsertUniqueKey conflict t key0 v =
     obind (DropToLeaf (btree_clear t) key0) (\<lambda>(t1, q).
     obind (GoRightLeaf (bt_nodes t1) q key0) (\<lambda>p.
     let key = set_tid key0 v
     in obind (unique_loop conflict (bt_nodes t1) key p None None) (\<lambda>res.
          case res of
            Fail m \<Rightarrow> Some (Inr (t1, Fail m))
          | Ok None \<Rightarrow> Some (Inl NullDeref)
          | Ok (Some ip) \<Rightarrow> obind (insert_into_leaf t1 ip key) (\<lambda>t2. Some (Inr (t2, Ok ()))))))"

definition BTree_InsertUnique ::
    "(bool \<Rightarrow> u8 list \<Rightarrow> u8 list res) \<Rightarrow> (u64 \<Rightarrow> bool) \<Rightarrow> BTreeIndex \<Rightarrow> mem \<Rightarrow> u64 \<Rightarrow> (BTreeIndex \<times> unit ResultObj) res option" where
  "BTree_InsertUnique norm conflict t chunk v =
     obind (Some (BuildKey norm chunk 0 (bt_attrs t))) (\<lambda>key. BTree_InsertUniqueKey conflict t key v)"

section \<open>Looking up and deleting\<close>

partial_function (option) InternalGet :: "(page_id \<Rightarrow> mem) \<Rightarrow> page_id \<Rightarrow> Key \<Rightarrow> u64 list \<Rightarrow> u64 list res option" where
  "InternalGet nodes p key results =
     obind (Some (leaf_HasSplit (nodes p) key)) (\<lambda>split.
       if split then obind (Some (GetNode (GetRLink (nodes p)))) (\<lambda>q. InternalGet nodes q key results)
       else
         obind (Some (leaf_Get (nodes p) (unat (GetCount (nodes p))) key \<lparr>vec = [], proceed = False\<rparr>)) (\<lambda>tmp.
           let results' = results @ vec tmp
           in if proceed tmp
              then let q = GetRLink (nodes p)
                   in if q = UNDEFINED_PAGE then Some (Inr results')
                      else obind (Some (GetNode q)) (\<lambda>q. InternalGet nodes q key results')
              else Some (Inr results')))"

definition BTree_GetKey :: "BTreeIndex \<Rightarrow> Key \<Rightarrow> (BTreeIndex \<times> u64 list) res option" where
  "BTree_GetKey t key =
     obind (DropToLeaf (btree_clear t) key) (\<lambda>(t1, p).
     obind (InternalGet (bt_nodes t1) p key []) (\<lambda>vs. Some (Inr (t1, vs))))"

definition BTree_Get :: "(bool \<Rightarrow> u8 list \<Rightarrow> u8 list res) \<Rightarrow> BTreeIndex \<Rightarrow> mem \<Rightarrow> (BTreeIndex \<times> u64 list) res option" where
  "BTree_Get norm t chunk =
     obind (Some (BuildKey norm chunk 0 (bt_attrs t))) (\<lambda>key. BTree_GetKey t key)"

definition DeleteInternal :: "BTreeIndex \<Rightarrow> page_id \<Rightarrow> Key \<Rightarrow> BTreeIndex res option" where
  "DeleteInternal t q key =
     obind (GoRightLeaf (bt_nodes t) q key) (\<lambda>p.
       Some (ebind (leaf_Delete (bt_nodes t p) key) (\<lambda>d. Inr (set_node t p d))))"

definition BTree_DeleteKey :: "BTreeIndex \<Rightarrow> Key \<Rightarrow> BTreeIndex res option" where
  "BTree_DeleteKey t key = obind (DropToLeaf (btree_clear t) key) (\<lambda>(t1, q). DeleteInternal t1 q key)"

definition BTree_Delete ::
    "(bool \<Rightarrow> u8 list \<Rightarrow> u8 list res) \<Rightarrow> BTreeIndex \<Rightarrow> mem \<Rightarrow> u64 \<Rightarrow> BTreeIndex res option" where
  "BTree_Delete norm t chunk v =
     obind (Some (BuildKey norm chunk v (bt_attrs t))) (\<lambda>key. BTree_DeleteKey t key)"

section \<open>Construction\<close>

text \<open>\<open>opened\<close> is the result of creating or opening the file of the table.\<close>

definition BTreeIndex_new ::
    "bool \<Rightarrow> FreeSpaceManagerIndex \<Rightarrow> (page_id \<Rightarrow> mem) \<Rightarrow> TlState \<Rightarrow> table_id \<Rightarrow> table_id \<Rightarrow> TypeSize list \<Rightarrow> BTreeIndex res" where
  "BTreeIndex_new opened fsm nodes st tbl heap_tbl attr =
     (if \<not> opened then Inl (IOError ''IO exception could not open file'')
      else
        ebind (ReserveNode \<lparr>root_id = 0, bt_tbl = tbl, bt_heap_tbl = heap_tbl, bt_attrs = attr, bt_nodes = nodes,
                            bt_fsm = fsm, bt_tl = st\<rparr>) (\<lambda>(t, p).
          Inr ((set_node t p (InitHeader (bt_nodes t p) 0 0 p))\<lparr>root_id := p\<rparr>)))"

end
