(* ===== verification/BTreeNodes.thy ===== *)
theory BTreeNodes
  imports BTree
begin

text \<open>
  One page of the B-link tree and one row of pages.

  A page covers the keys from its lower bound, which only its parent stores, up to its high fence, and links
  to the page that covers the keys from there on. \<open>node_ok\<close> states this for a page of either layout; a row is
  the list of (lower bound, page id) of a level, and \<open>seg\<close> links its pages. The locale \<open>link_walk\<close> is the
  move to the right that every operation of the tree starts with, whatever it does on the page that covers the key.
\<close>

section \<open>Pages with bounds\<close>

definition key_size_ok :: "u8 list \<Rightarrow> bool" where
  "key_size_ok k \<longleftrightarrow> 9 \<le> length k \<and> length k \<le> 120"

definition below :: "u8 list \<Rightarrow> u8 list option \<Rightarrow> bool" where
  "below k f \<longleftrightarrow> (case f of None \<Rightarrow> True | Some b \<Rightarrow> k < b)"

lemma below_simps [simp]: "below k None" "below k (Some b) \<longleftrightarrow> k < b"
  by (simp_all add: below_def)

lemma below_trans: "k \<le> l \<Longrightarrow> below l f \<Longrightarrow> below k f"
  by (cases f) auto

type_synonym fence_link = "u8 list option \<times> page_id"

definition node_ok :: "slot_fmt \<Rightarrow> mem \<Rightarrow> nat \<Rightarrow> u8 list \<Rightarrow> fence_link \<Rightarrow> bool" where
  "node_ok F d lvl low nx \<longleftrightarrow>
     page_ok F d \<and> keys_sorted (page_ents F d) \<and> unat (GetLevel d) = lvl \<and>
     page_fence F d = fst nx \<and> GetRLink d = snd nx \<and>
     (low = [] \<or> key_size_ok low) \<and> (\<forall>f. fst nx = Some f \<longrightarrow> key_size_ok f \<and> low < f) \<and>
     (\<forall>k \<in> set (page_keys F d). low \<le> k \<and> below k (fst nx) \<and> (k = low \<or> key_size_ok k))"

lemma node_okD:
  assumes "node_ok F d lvl low nx"
  shows "page_ok F d" "keys_sorted (page_ents F d)" "unat (GetLevel d) = lvl" "page_fence F d = fst nx"
    "GetRLink d = snd nx" "low = [] \<or> key_size_ok low" "fst nx = Some f \<Longrightarrow> key_size_ok f"
    "fst nx = Some f \<Longrightarrow> low < f"
    "k \<in> set (page_keys F d) \<Longrightarrow> low \<le> k" "k \<in> set (page_keys F d) \<Longrightarrow> below k (fst nx)"
    "k \<in> set (page_keys F d) \<Longrightarrow> k = low \<or> key_size_ok k"
  using assms unfolding node_ok_def by blast+

text \<open>The key to insert: it is the page's, has a legal size and is not there.\<close>

definition key_fits :: "slot_fmt \<Rightarrow> mem \<Rightarrow> u8 list \<Rightarrow> fence_link \<Rightarrow> Key \<Rightarrow> bool" where
  "key_fits F d low nx key \<longleftrightarrow>
     key_ok key \<and> key_size_ok (key_bytes key) \<and> low \<le> key_bytes key \<and> below (key_bytes key) (fst nx) \<and>
     key_bytes key \<notin> set (page_keys F d)"

lemma key_size_klen: "key_ok key \<Longrightarrow> key_size_ok (key_bytes key) \<Longrightarrow>
    9 \<le> unat (klen key) \<and> unat (klen key) \<le> 120 \<and> klen key \<noteq> 0 \<and> kdata key \<noteq> None"
  using length_key_bytes [of key] by (auto simp: key_size_ok_def key_ok_def)

lemma node_ents_insert:
  assumes n: "node_ok F d lvl low nx" and k: "key_fits F d low nx key"
    and d2: "page_ok F d2" "page_ents F d2 = ent_insert (key_bytes key) v (page_ents F d)"
      "page_fence F d2 = page_fence F d" "GetRLink d2 = GetRLink d" "GetLevel d2 = GetLevel d"
  shows "node_ok F d2 lvl low nx"
proof -
  have "key_bytes key \<notin> fst ` set (page_ents F d)" using k by (simp add: key_fits_def page_keys_ents)
  with node_okD [OF n] have "keys_sorted (page_ents F d2)" unfolding d2(2) by (intro ent_insert_sorted) simp_all
  moreover have "set (page_keys F d2) = insert (key_bytes key) (set (page_keys F d))"
    by (simp add: page_keys_ents d2(2) set_ent_insert)
  ultimately show ?thesis
    using n k d2 unfolding node_ok_def key_fits_def by auto
qed

lemma sorted_append_bound:
  assumes "keys_sorted (xs @ ys)" "ys \<noteq> []"
  shows "keys_sorted xs" "keys_sorted ys" "e \<in> set xs \<Longrightarrow> fst e < fst (hd ys)" "e \<in> set ys \<Longrightarrow> fst (hd ys) \<le> fst e"
proof -
  have s: "sorted_wrt (<) (map fst xs)" "sorted_wrt (<) (map fst ys)" "\<And>x y. x \<in> set xs \<Longrightarrow> y \<in> set ys \<Longrightarrow> fst x < fst y"
    using assms(1) by (auto simp: keys_sorted_def sorted_wrt_append)
  then show "keys_sorted xs" "keys_sorted ys" by (simp_all add: keys_sorted_def)
  show "fst e < fst (hd ys)" if "e \<in> set xs" using s(3) that assms(2) by simp
  show "fst (hd ys) \<le> fst e" if "e \<in> set ys" using s(2) that assms(2) by (cases ys) auto
qed

text \<open>A split turns one covering page into two.\<close>

lemma node_split:
  assumes n: "node_ok F d lvl low nx" and k: "key_fits F d low nx key"
    and post: "split_post F d right q (key_bytes key) v l r sent" and lvl: "GetLevel right = GetLevel d"
  defines "s \<equiv> key_bytes sent"
  shows "node_ok F l lvl low (Some s, q)" "node_ok F r lvl s nx" "key_ok sent" "key_size_ok s" "low < s" "below s (fst nx)"
    "s \<in> set (page_keys F r)" "hd (page_keys F r) = s"
proof -
  note nD = node_okD [OF n]
  from post have p: "page_ok F l" "page_ok F r" "page_ents F l @ page_ents F r = ent_insert (key_bytes key) v (page_ents F d)"
    "page_ents F l \<noteq> []" "page_ents F r \<noteq> []" "key_ok sent" "s = fst (hd (page_ents F r))"
    "page_fence F l = Some s" "page_fence F r = page_fence F d" "GetRLink l = q" "GetRLink r = GetRLink d"
    "GetLevel l = GetLevel d" "GetLevel r = GetLevel d"
    using lvl by (auto simp: split_post_def s_def)
  have "key_bytes key \<notin> fst ` set (page_ents F d)" using k by (simp add: key_fits_def page_keys_ents)
  with nD(2) have "keys_sorted (page_ents F l @ page_ents F r)" unfolding p(3) by (intro ent_insert_sorted)
  note b = sorted_append_bound [OF this p(5), folded p(7)]
  have "set (page_ents F l @ page_ents F r) = insert (key_bytes key, v) (set (page_ents F d))"
    by (simp add: p(3) set_ent_insert)
  then have sub: "set (page_keys F l) \<union> set (page_keys F r) = insert (key_bytes key) (set (page_keys F d))"
    by (simp add: page_keys_ents flip: image_Un)
  have keys: "low \<le> k \<and> below k (fst nx) \<and> (k = low \<or> key_size_ok k)" if "k \<in> set (page_keys F l) \<union> set (page_keys F r)" for k
    using nD(9,10,11) that k unfolding sub key_fits_def by blast
  have "hd (page_ents F r) \<in> set (page_ents F r)" using p(5) by simp
  then show sr: "s \<in> set (page_keys F r)" by (simp add: p(7) page_keys_ents)
  show "hd (page_keys F r) = s" using p(5,7) by (simp add: page_keys_ents hd_map)
  have "hd (page_ents F l) \<in> set (page_ents F l)" using p(4) by simp
  from b(3) [OF this] keys [of "fst (hd (page_ents F l))"] this show ls: "low < s"
    by (auto simp: page_keys_ents)
  with keys [of s] sr show sz: "key_size_ok s" and bs: "below s (fst nx)" by auto
  show "key_ok sent" by (rule p)
  show "node_ok F l lvl low (Some s, q)"
    unfolding node_ok_def using p nD b(1,3) keys sz ls by (auto simp: page_keys_ents)
  have "\<forall>f. fst nx = Some f \<longrightarrow> key_size_ok f \<and> s < f" using nD(7) bs by auto
  moreover have "s \<le> k \<and> below k (fst nx) \<and> (k = s \<or> key_size_ok k)" if "k \<in> set (page_keys F r)" for k
  proof -
    have "s \<le> k" using b(4) that by (auto simp: page_keys_ents)
    with ls keys [of k] that show ?thesis by auto
  qed
  ultimately show "node_ok F r lvl s nx"
    unfolding node_ok_def using p nD(3-5) b(2) sz by simp
qed

section \<open>No space is wrapped\<close>

text \<open>On a tight page the test for space never wraps around, and a page without space has two entries.\<close>

lemma ents_cost_le: "(\<And>e. e \<in> set es \<Longrightarrow> rec_cost F (length (fst e)) \<le> c) \<Longrightarrow> ents_cost F es \<le> c * length es"
  by (induction es) (simp_all add: ents_cost_def add_mono)

lemma tight_heap:
  assumes ok: "page_ok F d" and tight: "page_tight F d"
    and len: "\<And>k. k \<in> set (page_keys F d) \<Longrightarrow> length k \<le> 120" "\<And>f. page_fence F d = Some f \<Longrightarrow> length f \<le> 120"
    and fmt: "hdr_size F \<le> 8" "hdr_align F \<le> 4"
  shows "128 \<le> unat (hdr_heap_offset d)" "unat (GetCount d) \<le> 1 \<Longrightarrow> 7900 \<le> unat (hdr_heap_offset d)"
proof -
  let ?n = "unat (GetCount d)" and ?h = "unat (hdr_heap_offset d)"
  have c: "rec_cost F m \<le> 131" if "m \<le> 120" for m using that fmt by (simp add: rec_cost_def)
  have "ents_cost F (page_ents F d) \<le> 131 * length (page_ents F d)"
    by (rule ents_cost_le) (use len(1) c in \<open>auto simp: page_keys_ents\<close>)
  moreover have "fence_cost F d \<le> 131"
    using len(2) c by (auto simp: fence_cost_def split: option.splits)
  ultimately have t: "8192 \<le> ?h + 131 + 131 * ?n"
    using tight by (simp add: page_tight_def SlottedPage.DB7_PAGE_SIZE_def)
  have "20 + 2 * ?n \<le> ?h" using ok by (simp add: page_ok_def slot_addr_def header_size_def)
  with t show "128 \<le> ?h" by linarith
  show "7900 \<le> ?h" if "?n \<le> 1" using t that by linarith
qed

lemma tight_node:
  assumes n: "node_ok F d lvl low nx" and tight: "page_tight F d" and fmt: "hdr_size F \<le> 8" "hdr_align F \<le> 4"
  shows "128 \<le> unat (hdr_heap_offset d)" "unat (GetCount d) \<le> 1 \<Longrightarrow> 7900 \<le> unat (hdr_heap_offset d)"
proof -
  have l: "length k \<le> 120" if "k \<in> set (page_keys F d)" for k
    using node_okD(6,11) [OF n] that by (fastforce simp: key_size_ok_def)
  have f: "length f \<le> 120" if "page_fence F d = Some f" for f
    using node_okD(4,7) [OF n] that by (auto simp: key_size_ok_def)
  from tight_heap [OF node_okD(1) [OF n] tight l f fmt]
  show "128 \<le> unat (hdr_heap_offset d)" "unat (GetCount d) \<le> 1 \<Longrightarrow> 7900 \<le> unat (hdr_heap_offset d)" by blast+
qed

section \<open>Leaf and intermediate pages\<close>

definition leaf_node :: "mem \<Rightarrow> u8 list \<Rightarrow> fence_link \<Rightarrow> bool" where
  "leaf_node d low nx \<longleftrightarrow> node_ok leaf_fmt d 0 low nx \<and> (\<forall>k \<in> set (page_keys leaf_fmt d). key_size_ok k)"

definition inter_node :: "nat \<Rightarrow> mem \<Rightarrow> u8 list \<Rightarrow> fence_link \<Rightarrow> bool" where
  "inter_node lvl d low nx \<longleftrightarrow>
     node_ok inter_fmt d lvl low nx \<and> page_tight inter_fmt d \<and> inter_ents d \<noteq> [] \<and> fst (hd (inter_ents d)) = low"

lemma leaf_HasSplit_ok:
  assumes "leaf_node d low nx" "key_ok key" "klen key \<noteq> 0"
  shows "leaf_HasSplit d key = Inr (\<not> below (key_bytes key) (fst nx))"
  using assms check_key_ok [OF assms(2,3)] node_okD(4) [of leaf_fmt d 0 low nx]
  by (auto simp: leaf_HasSplit_def leaf_node_def page_fence_def below_def CmpFull_le not_less split: if_splits option.splits)

lemma inter_HasSplit_ok:
  assumes "inter_node lvl d low nx" "key_ok key" "klen key \<noteq> 0"
  shows "inter_HasSplit d key = Inr (\<not> below (key_bytes key) (fst nx))"
proof -
  have "kdata key \<noteq> None" using assms(2) by (auto simp: key_ok_def)
  then show ?thesis
    using assms node_okD(4) [of inter_fmt d lvl low nx]
    by (auto simp: inter_HasSplit_def inter_check_key_def inter_node_def page_fence_def below_def CmpFull_le not_less
        split: if_splits option.splits)
qed

text \<open>Inserting into a leaf that has space, and splitting one that has none.\<close>

lemma leaf_room:
  assumes n: "leaf_node d low nx" "page_tight leaf_fmt d" and k: "key_fits leaf_fmt d low nx key"
  shows "\<exists>b. leaf_HasSpace d key = Inr b \<and>
    (if b then HasSpaceFor leaf_fmt d (klen key) \<and> 2 + unat (klen key) \<le> unat (hdr_heap_offset d) else 2 \<le> unat (GetCount d))"
proof -
  have nk: "node_ok leaf_fmt d 0 low nx" using n(1) by (simp add: leaf_node_def)
  note h = tight_node [OF nk n(2), simplified]
  have len: "9 \<le> unat (klen key)" "unat (klen key) \<le> 120" "klen key \<noteq> 0"
    using key_size_klen [of key] k by (simp_all add: key_fits_def)
  have eq: "leaf_HasSpace d key = Inr (HasSpaceFor leaf_fmt d (klen key))"
    using k len by (simp add: leaf_HasSpace_def check_key_ok key_fits_def)
  have "2 \<le> unat (GetCount d)" if "\<not> HasSpaceFor leaf_fmt d (klen key)"
  proof (rule ccontr)
    assume "\<not> 2 \<le> unat (GetCount d)"
    then have "unat (GetCount d) \<le> Suc 0" by simp
    from h(2) [OF this] this len have "slot_addr (unat (GetCount d) + 1) + rec_cost leaf_fmt (unat (klen key)) \<le> unat (hdr_heap_offset d)"
      by (simp add: slot_addr_def header_size_def rec_cost_def)
    from leaf.HasSpaceFor_room(1) [OF node_okD(1) [OF nk] this] that show False by simp
  qed
  with eq h(1) len show ?thesis by auto
qed

lemma leaf_insert_node:
  assumes n: "leaf_node d low nx" "page_tight leaf_fmt d" and k: "key_fits leaf_fmt d low nx key"
    and sp: "leaf_HasSpace d key = Inr True"
  shows "\<exists>d'. leaf_Insert d key = Inr d' \<and> leaf_node d' low nx \<and> page_tight leaf_fmt d' \<and>
    page_keys leaf_fmt d' = insort (key_bytes key) (page_keys leaf_fmt d)"
proof -
  have nk: "node_ok leaf_fmt d 0 low nx" and sz: "\<forall>k \<in> set (page_keys leaf_fmt d). key_size_ok k"
    using n(1) by (simp_all add: leaf_node_def)
  note nD = node_okD [OF nk]
  have kk: "key_ok key" "klen key \<noteq> 0" "unat (klen key) \<le> 120" "key_size_ok (key_bytes key)"
    "key_bytes key \<notin> fst ` set (page_ents leaf_fmt d)"
    using key_size_klen [of key] k by (simp_all add: key_fits_def page_keys_ents)
  have room: "HasSpaceFor leaf_fmt d (klen key)" "2 + unat (klen key) \<le> unat (hdr_heap_offset d)"
    using leaf_room [OF n k] sp by auto
  obtain d1 off where ap: "AppendHeap leaf_fmt d [] key = (d1, off)" by fastforce
  from leaf.insert_ok [OF nD(1,2) kk(1) _ room(1) _ kk(5) ap] room(2)
  have ins: "leaf.inserted d (key_bytes key) [] (leaf_InsertSlot d1 off)" by simp
  have run: "leaf_Insert d key = Inr (leaf_InsertSlot d1 off)"
    using kk by (simp add: leaf_Insert_def check_key_ok leaf_AppendHeap_def ap DB7_MAX_ROW_SIZE_def)
  from ins have i: "page_ok leaf_fmt (leaf_InsertSlot d1 off)"
    "page_ents leaf_fmt (leaf_InsertSlot d1 off) = ent_insert (key_bytes key) [] (page_ents leaf_fmt d)"
    "page_fence leaf_fmt (leaf_InsertSlot d1 off) = page_fence leaf_fmt d"
    "GetRLink (leaf_InsertSlot d1 off) = GetRLink d" "GetLevel (leaf_InsertSlot d1 off) = GetLevel d"
    "page_tight leaf_fmt (leaf_InsertSlot d1 off)"
    using n(2) by (simp_all add: leaf.inserted_def)
  have ks: "page_keys leaf_fmt (leaf_InsertSlot d1 off) = insort (key_bytes key) (page_keys leaf_fmt d)"
    using keys_ent_insert [of "page_ents leaf_fmt d"] nD(2) by (simp add: page_keys_ents i(2))
  have "leaf_node (leaf_InsertSlot d1 off) low nx"
    unfolding leaf_node_def using node_ents_insert [OF nk k i(1-5)] sz kk(4) by (auto simp: ks set_insort_key)
  with run ks i(6) show ?thesis by blast
qed

text \<open>The halves of a leaf: two linked pages that share its keys and the new one; the separator was there before.\<close>

definition leaf_halves :: "mem \<Rightarrow> u8 list \<Rightarrow> fence_link \<Rightarrow> Key \<Rightarrow> page_id \<Rightarrow> mem \<Rightarrow> mem \<Rightarrow> Key \<Rightarrow> bool" where
  "leaf_halves d low nx key q l r sent \<longleftrightarrow>
     leaf_node l low (Some (key_bytes sent), q) \<and> leaf_node r (key_bytes sent) nx \<and>
     page_tight leaf_fmt l \<and> page_tight leaf_fmt r \<and>
     page_keys leaf_fmt l @ page_keys leaf_fmt r = insort (key_bytes key) (page_keys leaf_fmt d) \<and>
     key_bytes sent \<in> set (page_keys leaf_fmt r) \<and> key_bytes sent \<in> set (page_keys leaf_fmt d) \<and>
     hd (page_keys leaf_fmt d) \<in> set (page_keys leaf_fmt l) \<and> key_ok sent \<and> key_size_ok (key_bytes sent) \<and> low < key_bytes sent \<and> below (key_bytes sent) (fst nx)"

lemma leaf_split_node:
  assumes n: "leaf_node d low nx" "page_tight leaf_fmt d" and k: "key_fits leaf_fmt d low nx key" and cnt: "2 \<le> unat (GetCount d)"
  shows "\<exists>l r sent. leaf_Split d (InitHeader z 0 0 q) q key = Inr (l, r, sent) \<and> leaf_halves d low nx key q l r sent"
proof -
  have nk: "node_ok leaf_fmt d 0 low nx" and sz: "\<forall>k \<in> set (page_keys leaf_fmt d). key_size_ok k"
    using n(1) by (simp_all add: leaf_node_def)
  note nD = node_okD [OF nk]
  have kk: "key_ok key" "klen key \<noteq> 0" "unat (klen key) < DB7_MAX_ROW_SIZE" "key_size_ok (key_bytes key)"
    "key_bytes key \<notin> fst ` set (page_ents leaf_fmt d)"
    using key_size_klen [of key] k by (simp_all add: key_fits_def page_keys_ents DB7_MAX_ROW_SIZE_def)
  have "leaf_key_lengths d"
    using sz nD(4,7) by (auto simp: leaf_key_lengths_def key_size_ok_def DB7_MAX_ROW_SIZE_def)
  from leaf.Split_ok [OF nD(1,2) InitHeader_fresh cnt kk(1,2) _ kk(5) leaf_split_fits [OF nD(1) cnt this kk(3)], of "[]" z 0 q q]
  obtain l r sent where run: "leaf_Split d (InitHeader z 0 0 q) q key = Inr (l, r, sent)"
    and post: "split_post leaf_fmt d (InitHeader z 0 0 q) q (key_bytes key) [] l r sent"
    by (auto simp: leaf_Split_def)
  have "GetLevel (InitHeader z 0 0 q) = GetLevel d"
    using nD(3) by (simp add: InitHeader_fields unat_eq_zero)
  note ns = node_split [OF nk k post this]
  have ks: "page_keys leaf_fmt l @ page_keys leaf_fmt r = insort (key_bytes key) (page_keys leaf_fmt d)"
    using post keys_ent_insert [of "page_ents leaf_fmt d"] nD(2)
    by (simp add: page_keys_ents split_post_def flip: map_append)
  have "set (page_keys leaf_fmt l) \<union> set (page_keys leaf_fmt r) = insert (key_bytes key) (set (page_keys leaf_fmt d))"
    by (simp add: set_insort_key ks flip: set_append)
  with sz kk(4) have "\<forall>k \<in> set (page_keys leaf_fmt l) \<union> set (page_keys leaf_fmt r). key_size_ok k" by simp
  with ns(1,2) have "leaf_node l low (Some (key_bytes sent), q)" "leaf_node r (key_bytes sent) nx"
    unfolding leaf_node_def by auto
  moreover have "page_tight leaf_fmt l" "page_tight leaf_fmt r" using post by (simp_all add: split_post_def)
  moreover have "key_bytes sent \<in> set (page_keys leaf_fmt r)" using post by (simp add: split_post_def page_keys_ents)
  moreover have "key_bytes sent \<in> set (page_keys leaf_fmt d)"
    using post unfolding split_post_def page_keys_ents set_map by blast
  moreover have "page_ents leaf_fmt d \<noteq> []" using cnt by (metis length_page_ents list.size(3) not_numeral_le_zero)
  then have "hd (page_keys leaf_fmt d) \<in> set (page_keys leaf_fmt l)"
    using post unfolding split_post_def page_keys_ents set_map by (auto simp add: hd_map intro: imageI)
  ultimately show ?thesis using run ks ns(3-6) unfolding leaf_halves_def by blast
qed

text \<open>The same for an intermediate page; the entry is a separator with its page.\<close>

lemma inter_room:
  assumes n: "inter_node lvl d low nx" and k: "key_fits inter_fmt d low nx key"
  shows "\<exists>b. inter_HasSpace d key = Inr b \<and>
    (if b then HasSpaceFor inter_fmt d (klen key) \<and> 8 + unat (klen key) \<le> unat (hdr_heap_offset d) else 2 \<le> unat (GetCount d))"
proof -
  have nk: "node_ok inter_fmt d lvl low nx" "page_tight inter_fmt d" using n by (simp_all add: inter_node_def)
  note h = tight_node [OF nk, simplified]
  have len: "9 \<le> unat (klen key)" "unat (klen key) \<le> 120" "klen key \<noteq> 0" "kdata key \<noteq> None"
    using key_size_klen [of key] k by (simp_all add: key_fits_def)
  have eq: "inter_HasSpace d key = Inr (HasSpaceFor inter_fmt d (klen key))"
    using len by (simp add: inter_HasSpace_def inter_check_key_def)
  have "2 \<le> unat (GetCount d)" if "\<not> HasSpaceFor inter_fmt d (klen key)"
  proof (rule ccontr)
    assume "\<not> 2 \<le> unat (GetCount d)"
    then have "unat (GetCount d) \<le> Suc 0" by simp
    from h(2) [OF this] this len have "slot_addr (unat (GetCount d) + 1) + rec_cost inter_fmt (unat (klen key)) \<le> unat (hdr_heap_offset d)"
      by (simp add: slot_addr_def header_size_def rec_cost_def)
    from inter.HasSpaceFor_room(1) [OF node_okD(1) [OF nk(1)] this] that show False by simp
  qed
  with eq h(1) len show ?thesis by auto
qed

lemma inter_hd_insert:
  assumes "inter_ents d \<noteq> []" "fst (hd (inter_ents d)) < k"
  shows "route_insert k v (inter_ents d) \<noteq> []" "hd (route_insert k v (inter_ents d)) = hd (inter_ents d)"
  using assms by (cases "inter_ents d"; simp add: route_insert_def)+

lemma inter_node_low_less:
  assumes "inter_node lvl d low nx" "key_fits inter_fmt d low nx key"
  shows "low < key_bytes key"
proof -
  have "low \<in> set (page_keys inter_fmt d)"
    using assms(1) unfolding inter_node_def inter_ents_fst [symmetric] by (metis image_eqI list.set_map list.set_sel(1))
  with assms(2) have "low \<noteq> key_bytes key" by (auto simp: key_fits_def)
  with assms(2) show ?thesis by (simp add: key_fits_def order_less_le)
qed

lemma inter_insert_node:
  assumes n: "inter_node lvl d low nx" and k: "key_fits inter_fmt d low nx key" and v: "v \<noteq> 0"
    and sp: "inter_HasSpace d key = Inr True"
  shows "\<exists>d'. inter_Insert d key v = Inr d' \<and> inter_node lvl d' low nx \<and>
    inter_ents d' = route_insert (key_bytes key) v (inter_ents d)"
proof -
  have nk: "node_ok inter_fmt d lvl low nx" and n': "page_tight inter_fmt d" "inter_ents d \<noteq> []" "fst (hd (inter_ents d)) = low"
    using n by (simp_all add: inter_node_def)
  note nD = node_okD [OF nk]
  have kk: "key_ok key" "kdata key \<noteq> None" "unat (klen key) \<le> 120"
    "key_bytes key \<notin> fst ` set (page_ents inter_fmt d)"
    using key_size_klen [of key] k by (simp_all add: key_fits_def page_keys_ents)
  have room: "HasSpaceFor inter_fmt d (klen key)" "8 + unat (klen key) \<le> unat (hdr_heap_offset d)"
    using inter_room [OF n k] sp by auto
  obtain d1 off where ap: "AppendHeap inter_fmt d (child_enc v) key = (d1, off)" by fastforce
  from inter.insert_ok [OF nD(1,2) kk(1) _ room(1) _ kk(4) ap] room(2) obtain d2
    where d2: "inter_InsertSlot d1 off = Inr d2" and ins: "inter.inserted d (key_bytes key) (child_enc v) d2" by auto
  have run: "inter_Insert d key v = Inr d2"
    using kk v d2 by (simp add: inter_Insert_def inter_AppendHeap_def ap DB7_MAX_ROW_SIZE_def)
  from ins have i: "page_ok inter_fmt d2" "page_ents inter_fmt d2 = ent_insert (key_bytes key) (child_enc v) (page_ents inter_fmt d)"
    "page_fence inter_fmt d2 = page_fence inter_fmt d" "GetRLink d2 = GetRLink d" "GetLevel d2 = GetLevel d"
    "page_tight inter_fmt d2"
    using n'(1) by (simp_all add: inter.inserted_def)
  have es: "inter_ents d2 = route_insert (key_bytes key) v (inter_ents d)" by (rule inter_ents_route_insert [OF i(2)])
  have "inter_node lvl d2 low nx"
    unfolding inter_node_def using node_ents_insert [OF nk k i(1-5)] i(6) n'(2,3) inter_node_low_less [OF n k]
    by (simp add: es inter_hd_insert)
  with run es show ?thesis by blast
qed

lemma inter_split_node:
  assumes n: "inter_node lvl d low nx" and k: "key_fits inter_fmt d low nx key"
    and sp: "inter_HasSpace d key = Inr False"
  shows "\<exists>l r sent. inter_Split d (InitHeader z 0 (GetLevel d) q) q key v = Inr (l, r, sent) \<and>
    inter_node lvl l low (Some (key_bytes sent), q) \<and> inter_node lvl r (key_bytes sent) nx \<and>
    inter_ents l @ inter_ents r = route_insert (key_bytes key) v (inter_ents d) \<and>
    key_ok sent \<and> key_size_ok (key_bytes sent) \<and> low < key_bytes sent \<and> below (key_bytes sent) (fst nx)"
proof -
  have nk: "node_ok inter_fmt d lvl low nx" and n': "page_tight inter_fmt d" "inter_ents d \<noteq> []" "fst (hd (inter_ents d)) = low"
    using n by (simp_all add: inter_node_def)
  note nD = node_okD [OF nk]
  have kk: "key_ok key" "klen key \<noteq> 0" "unat (klen key) \<le> INTER_MAX_KEY"
    "key_bytes key \<notin> fst ` set (page_ents inter_fmt d)"
    using key_size_klen [of key] k by (simp_all add: key_fits_def page_keys_ents INTER_MAX_KEY_def)
  have cnt: "2 \<le> unat (GetCount d)" using inter_room [OF n k] sp by auto
  have "9 \<le> length x" if "x \<in> set (tl (page_keys inter_fmt d))" for x
  proof -
    have ks: "page_keys inter_fmt d = low # tl (page_keys inter_fmt d)"
      using n'(2,3) by (cases "inter_ents d") (auto simp flip: inter_ents_fst)
    have "sorted_wrt (<) (page_keys inter_fmt d)" using nD(2) by (simp add: keys_sorted_def page_keys_ents)
    with ks that have "low < x" by (metis sorted_wrt.simps(2))
    moreover have "x \<in> set (page_keys inter_fmt d)" using ks that by (metis list.set_intros(2))
    ultimately show ?thesis using nD(11) [of x] by (auto simp: key_size_ok_def)
  qed
  moreover have "length x \<le> INTER_MAX_KEY" if "x \<in> set (page_keys inter_fmt d)" for x
    using nD(11) [OF that] nD(6) by (auto simp: key_size_ok_def INTER_MAX_KEY_def)
  ultimately have "inter_key_lengths d"
    using nD(4,7) by (auto simp: inter_key_lengths_def key_size_ok_def INTER_MAX_KEY_def)
  from inter.Split_ok [OF nD(1,2) InitHeader_fresh cnt kk(1,2) _ kk(4) inter_split_fits [OF nD(1) cnt this kk(3)], of "child_enc v" z "GetLevel d" q q]
  obtain l r sent where run: "inter_Split d (InitHeader z 0 (GetLevel d) q) q key v = Inr (l, r, sent)"
    and post: "split_post inter_fmt d (InitHeader z 0 (GetLevel d) q) q (key_bytes key) (child_enc v) l r sent"
    by (auto simp: inter_Split_def)
  note ns = node_split [OF nk k post InitHeader_fields(1)]
  let ?dec = "\<lambda>e. (fst e, word_of_nat (le_dec (snd e)) :: page_id)"
  have "inter_ents l @ inter_ents r = map ?dec (ent_insert (key_bytes key) (child_enc v) (page_ents inter_fmt d))"
    using post by (simp add: inter_ents_def split_post_def flip: map_append)
  then have es: "inter_ents l @ inter_ents r = route_insert (key_bytes key) v (inter_ents d)"
    by (simp add: inter_ents_def ent_insert_def route_insert_def takeWhile_map dropWhile_map comp_def)
  have ne: "inter_ents l \<noteq> []" "inter_ents r \<noteq> []" using post by (auto simp: split_post_def inter_ents_def)
  have "hd (inter_ents l) = hd (inter_ents l @ inter_ents r)" using ne(1) by simp
  then have "fst (hd (inter_ents l)) = low"
    unfolding es using inter_hd_insert [of d "key_bytes key"] inter_node_low_less [OF n k] n' by simp
  moreover have "fst (hd (inter_ents r)) = key_bytes sent"
    using ns(8) ne(2) by (simp add: inter_ents_fst [symmetric] hd_map)
  moreover have "page_tight inter_fmt l" "page_tight inter_fmt r" using post by (simp_all add: split_post_def)
  ultimately have "inter_node lvl l low (Some (key_bytes sent), q)" "inter_node lvl r (key_bytes sent) nx"
    unfolding inter_node_def using ns(1,2) ne by simp_all
  with run es ns(3-6) show ?thesis by blast
qed

end
