(* ===== verification/BTreeRows.thy ===== *)
theory BTreeRows
  imports BTreeNodes
begin

text \<open>
  Rows of linked pages, the levels of a tree, and the way down.

  \<open>seg P N r nx\<close> says that the pages of the row \<open>r\<close> satisfy \<open>P\<close> between their bounds, each linked to the next
  and the last one to \<open>nx\<close>. \<open>levels\<close> stacks the rows: the entries of the pages of a row, taken together, are the
  row below. The locale \<open>link_walk\<close> is the part that all loops of the tree share, moving right until the page
  covers the key; it is interpreted on each of them.
\<close>

section \<open>Rows\<close>

type_synonym row = "(u8 list \<times> page_id) list"

definition nxt :: "row \<Rightarrow> fence_link \<Rightarrow> fence_link" where
  "nxt r nx = (case r of [] \<Rightarrow> nx | (l, p) # _ \<Rightarrow> (Some l, p))"

lemma nxt_simps [simp]: "nxt [] nx = nx" "nxt ((l, p) # r) nx = (Some l, p)"
  by (simp_all add: nxt_def)

lemma nxt_append [simp]: "nxt (xs @ ys) nx = nxt xs (nxt ys nx)"
  by (cases xs) (auto simp: nxt_def)

definition no_next :: fence_link where
  "no_next = (None, UNDEFINED_PAGE)"

fun seg :: "(mem \<Rightarrow> u8 list \<Rightarrow> fence_link \<Rightarrow> bool) \<Rightarrow> (page_id \<Rightarrow> mem) \<Rightarrow> row \<Rightarrow> fence_link \<Rightarrow> bool" where
  "seg P N [] nx \<longleftrightarrow> True"
| "seg P N ((low, p) # r) nx \<longleftrightarrow> p \<noteq> 0 \<and> p \<noteq> UNDEFINED_PAGE \<and> P (N p) low (nxt r nx) \<and> seg P N r nx"

lemma seg_append: "seg P N (xs @ ys) nx \<longleftrightarrow> seg P N xs (nxt ys nx) \<and> seg P N ys nx"
  by (induction xs) auto

lemma seg_cong: "(\<And>p. p \<in> snd ` set r \<Longrightarrow> N' p = N p) \<Longrightarrow> seg P N' r nx = seg P N r nx"
  by (induction r) auto

lemma seg_page: "seg P N r nx \<Longrightarrow> (l, p) \<in> set r \<Longrightarrow> p \<noteq> 0 \<and> p \<noteq> UNDEFINED_PAGE \<and> (\<exists>nx'. P (N p) l nx')"
proof (induction r)
  case (Cons a r)
  then show ?case by (cases a) (auto simp del: split_paired_Ex)
qed simp

definition row_keys :: "(mem \<Rightarrow> 'a list) \<Rightarrow> (page_id \<Rightarrow> mem) \<Rightarrow> row \<Rightarrow> 'a list" where
  "row_keys K N r = concat (map (\<lambda>(l, p). K (N p)) r)"

lemma row_keys_simps [simp]: "row_keys K N [] = []" "row_keys K N ((l, p) # r) = K (N p) @ row_keys K N r"
    "row_keys K N (xs @ ys) = row_keys K N xs @ row_keys K N ys"
  by (simp_all add: row_keys_def)

lemma row_keys_cong: "(\<And>p. p \<in> snd ` set r \<Longrightarrow> N' p = N p) \<Longrightarrow> row_keys K N' r = row_keys K N r"
  by (induction r) auto

text \<open>The keys of the pages of a row increase from page to page.\<close>

locale page_row =
  fixes P :: "mem \<Rightarrow> u8 list \<Rightarrow> fence_link \<Rightarrow> bool" and keys :: "mem \<Rightarrow> u8 list list"
  assumes bounds: "P d low (Some f, q) \<Longrightarrow> low < f"
    and key_bounds: "P d low nx \<Longrightarrow> k \<in> set (keys d) \<Longrightarrow> low \<le> k \<and> below k (fst nx)"
begin

lemma seg_bounds: "seg P N r (Some b, q) \<Longrightarrow> (l, p) \<in> set r \<Longrightarrow> l < b"
proof (induction r arbitrary: l p)
  case (Cons a r)
  obtain l' p' where a: "a = (l', p')" by (cases a)
  have "l' < b"
  proof (cases r)
    case Nil
    with Cons.prems(1) show ?thesis using bounds [of "N p'" l' b q] by (simp add: a)
  next
    case (Cons c cs)
    with Cons.prems(1) have "l' < fst c" using bounds [of "N p'" l' "fst c" "snd c"] by (cases c) (simp add: a)
    also have "fst c < b" using Cons.IH [of "fst c" "snd c"] Cons.prems \<open>r = c # cs\<close> by (cases c) (auto simp: a)
    finally show ?thesis .
  qed
  with Cons show ?case by (auto simp: a)
qed simp

lemma seg_sorted: "seg P N r nx \<Longrightarrow> sorted_wrt (<) (map fst r)"
proof (induction r arbitrary: nx rule: rev_induct)
  case (snoc a r)
  obtain l p where a: "a = (l, p)" by (cases a)
  have "seg P N r (Some l, p)" using snoc.prems by (simp add: a seg_append)
  with snoc.IH [OF this] seg_bounds [OF this] show ?case
    by (auto simp: a sorted_wrt_append)
qed simp

lemma seg_keys_less: "seg P N r (Some b, q) \<Longrightarrow> k \<in> set (row_keys keys N r) \<Longrightarrow> k < b"
proof (induction r)
  case (Cons a r)
  obtain l p where a: "a = (l, p)" by (cases a)
  have "k < b" if "k \<in> set (keys (N p))"
  proof (cases r)
    case Nil
    with Cons.prems(1) key_bounds [of "N p" l "(Some b, q)" k] that show ?thesis by (simp add: a)
  next
    case (Cons c cs)
    obtain l' p' where c: "c = (l', p')" by (cases c)
    have "k < l'" using Cons.prems(1) key_bounds [of "N p" l "(Some l', p')" k] that by (simp add: a c Cons)
    moreover have "l' < b" using Cons.prems(1) seg_bounds [of N r b q l' p'] by (simp add: a c Cons)
    ultimately show ?thesis by simp
  qed
  with Cons show ?case by (auto simp: a)
qed simp

lemma seg_keys_ge: "seg P N r nx \<Longrightarrow> k \<in> set (row_keys keys N r) \<Longrightarrow> fst (hd r) \<le> k"
proof (induction r)
  case (Cons a r)
  obtain l p where a: "a = (l, p)" by (cases a)
  show ?case
  proof (cases "k \<in> set (keys (N p))")
    case True
    with Cons.prems(1) key_bounds [of "N p" l "nxt r nx" k] show ?thesis by (simp add: a)
  next
    case False
    with Cons.prems(2) have k: "k \<in> set (row_keys keys N r)" by (simp add: a)
    then obtain c cs where r: "r = c # cs" by (cases r) auto
    with Cons k have "fst c \<le> k" by (simp add: a)
    moreover have "l < fst c" using Cons.prems(1) bounds [of "N p" l "fst c" "snd c"] by (cases c) (simp add: a r)
    ultimately show ?thesis by (simp add: a)
  qed
qed simp

text \<open>Around a page that covers a key.\<close>

lemma around:
  assumes "seg P N (xs @ (low, p) # ys) no_next" "low \<le> b" "below b (fst (nxt ys no_next))"
  shows "k \<in> set (row_keys keys N xs) \<Longrightarrow> k < low" "k \<in> set (row_keys keys N ys) \<Longrightarrow> b < k"
    "(l, q) \<in> set xs \<Longrightarrow> l < low" "(l, q) \<in> set ys \<Longrightarrow> b < l"
proof -
  have sx: "seg P N xs (Some low, p)" and sy: "seg P N ys no_next" using assms(1) by (simp_all add: seg_append)
  show "k \<in> set (row_keys keys N xs) \<Longrightarrow> k < low" by (rule seg_keys_less [OF sx])
  show "(l, q) \<in> set xs \<Longrightarrow> l < low" by (rule seg_bounds [OF sx])
  have h: "b < fst (hd ys)" if "ys \<noteq> []" using assms(3) that by (cases ys) auto
  show "b < k" if "k \<in> set (row_keys keys N ys)"
    using seg_keys_ge [OF sy that] h that by (cases ys) auto
  show "b < l" if "(l, q) \<in> set ys"
  proof -
    have "fst (hd ys) \<le> l" using seg_sorted [OF sy] that by (cases ys) (auto simp: less_imp_le)
    with h that show ?thesis by (cases ys) auto
  qed
qed

end

section \<open>Moving right\<close>

locale link_walk = page_row P keys
  for P :: "mem \<Rightarrow> u8 list \<Rightarrow> fence_link \<Rightarrow> bool" and keys :: "mem \<Rightarrow> u8 list list" +
  fixes go fin :: "'c \<Rightarrow> (page_id \<Rightarrow> mem) \<Rightarrow> Key \<Rightarrow> page_id \<Rightarrow> 'b res option"
    and has_split :: "mem \<Rightarrow> Key \<Rightarrow> bool res"
  assumes go_step: "P (N p) low nx \<Longrightarrow> go c N key p = obind (Some (has_split (N p) key)) (\<lambda>s.
      if s then obind (Some (GetNode (GetRLink (N p)))) (go c N key) else fin c N key p)"
    and split_iff: "P d low nx \<Longrightarrow> key_ok key \<Longrightarrow> klen key \<noteq> 0 \<Longrightarrow> has_split d key = Inr (\<not> below (key_bytes key) (fst nx))"
    and link: "P d low nx \<Longrightarrow> GetRLink d = snd nx"
begin

lemma walk:
  assumes "seg P N ((l, q) # r) no_next" "l \<le> key_bytes key" "key_ok key" "klen key \<noteq> 0"
  shows "\<exists>xs low p ys. (l, q) # r = xs @ (low, p) # ys \<and> go c N key q = fin c N key p \<and>
    l \<le> low \<and> low \<le> key_bytes key \<and> below (key_bytes key) (fst (nxt ys no_next))"
  using assms
proof (induction r arbitrary: l q)
  case Nil
  then have "go c N key q = fin c N key q"
    using go_step [of N q l no_next c key] split_iff [of "N q" l no_next key] by (simp add: no_next_def)
  with Nil.prems(2) have "[(l, q)] = [] @ (l, q) # [] \<and> go c N key q = fin c N key q \<and> l \<le> l \<and> l \<le> key_bytes key \<and>
      below (key_bytes key) (fst (nxt [] no_next))" by (simp add: no_next_def)
  then show ?case by blast
next
  case (Cons a r)
  obtain f q' where a: "a = (f, q')" by (cases a)
  note P = Cons.prems(1) [unfolded a, simplified]
  have step: "go c N key q = (if f \<le> key_bytes key then obind (Some (GetNode q')) (go c N key) else fin c N key q)"
    using P go_step [of N q l "(Some f, q')" c key] split_iff [of "N q" l "(Some f, q')" key] Cons.prems(3,4)
      link [of "N q" l "(Some f, q')"] by (simp add: not_less)
  show ?case
  proof (cases "f \<le> key_bytes key")
    case True
    with step P have eq: "go c N key q = go c N key q'" by (simp add: GetNode_def)
    from P have "seg P N ((f, q') # r) no_next" by simp
    from Cons.IH [OF this True Cons.prems(3,4)] obtain xs low p ys
      where w: "(f, q') # r = xs @ (low, p) # ys" "go c N key q' = fin c N key p" "f \<le> low" "low \<le> key_bytes key"
        "below (key_bytes key) (fst (nxt ys no_next))" by blast
    have "l \<le> low" using bounds [of "N q" l f q'] P w(3) by simp
    moreover have "(l, q) # a # r = ((l, q) # xs) @ (low, p) # ys" using w(1) by (simp add: a)
    ultimately show ?thesis using w(2,4,5) eq by metis
  next
    case False
    then have "(l, q) # a # r = [] @ (l, q) # (a # r) \<and> go c N key q = fin c N key q \<and> l \<le> l \<and> l \<le> key_bytes key \<and>
        below (key_bytes key) (fst (nxt (a # r) no_next))"
      using step Cons.prems(2) by (simp add: a)
    then show ?thesis by blast
  qed
qed

text \<open>From any page of a row whose bound is not above the key.\<close>

lemma walk_row:
  assumes "seg P N r no_next" "(l, q) \<in> set r" "l \<le> key_bytes key" "key_ok key" "klen key \<noteq> 0"
  obtains xs low p ys where "r = xs @ (low, p) # ys" "go c N key q = fin c N key p" "l \<le> low" "low \<le> key_bytes key"
    "below (key_bytes key) (fst (nxt ys no_next))"
proof -
  obtain r1 r2 where r: "r = r1 @ (l, q) # r2" using assms(2) by (meson split_list)
  have "seg P N ((l, q) # r2) no_next" using assms(1) by (simp add: r seg_append)
  from walk [OF this assms(3-5), of c] obtain xs low p ys where w: "(l, q) # r2 = xs @ (low, p) # ys"
    "go c N key q = fin c N key p" "l \<le> low" "low \<le> key_bytes key" "below (key_bytes key) (fst (nxt ys no_next))" by blast
  then have "r = (r1 @ xs) @ (low, p) # ys" by (simp add: r)
  from that [OF this w(2-5)] show ?thesis .
qed

end

lemma node_links:
  "leaf_node d low nx \<Longrightarrow> GetRLink d = snd nx" "inter_node lvl d low nx \<Longrightarrow> GetRLink d = snd nx"
  "leaf_node d low (Some f, q) \<Longrightarrow> low < f" "inter_node lvl d low (Some f, q) \<Longrightarrow> low < f"
  "leaf_node d low nx \<Longrightarrow> unat (GetLevel d) = 0" "inter_node lvl d low nx \<Longrightarrow> unat (GetLevel d) = lvl"
  by (simp_all add: leaf_node_def inter_node_def node_ok_def)

lemma node_key_bounds:
  "leaf_node d low nx \<Longrightarrow> k \<in> set (page_keys leaf_fmt d) \<Longrightarrow> low \<le> k \<and> below k (fst nx)"
  "inter_node lvl d low nx \<Longrightarrow> k \<in> set (page_keys inter_fmt d) \<Longrightarrow> low \<le> k \<and> below k (fst nx)"
  by (simp_all add: leaf_node_def inter_node_def node_ok_def)

lemma if_not_swap: "(if \<not> b then x else y) = (if b then y else x)"
  by simp

interpretation leaf_walk: link_walk leaf_node "page_keys leaf_fmt" "\<lambda>_ :: unit. \<lambda>N key p. GoRightLeaf N p key"
    "\<lambda>_ N key p. Some (Inr p)" leaf_HasSplit
  by unfold_locales (rule leaf_HasSplit_ok node_links node_key_bounds GoRightLeaf.simps [unfolded if_not_swap]; assumption)+

interpretation inter_walk: link_walk "inter_node lvl" "page_keys inter_fmt" "\<lambda>_ :: unit. \<lambda>N key p. GoRightInter N p key"
    "\<lambda>_ N key p. Some (Inr p)" inter_HasSplit for lvl
  by unfold_locales (rule inter_HasSplit_ok node_links node_key_bounds GoRightInter.simps [unfolded if_not_swap]; assumption)+

interpretation drop_walk: link_walk "inter_node (Suc lvl)" "page_keys inter_fmt" "\<lambda>st N key p. drop_loop N st p key"
    "\<lambda>st N key p. obind (Some (tl_Push st p)) (\<lambda>st'.
       obind (Some (GetNode (inter_Get (N p) (unat (GetCount (N p))) key))) (\<lambda>q. drop_loop N st' q key))"
    inter_HasSplit for lvl
proof unfold_locales
  fix N :: "page_id \<Rightarrow> mem" and p low nx st key
  assume "inter_node (Suc lvl) (N p) low nx"
  then have "GetLevel (N p) \<noteq> 0" using node_links(6) by fastforce
  then show "drop_loop N st p key = obind (Some (inter_HasSplit (N p) key)) (\<lambda>s.
      if s then obind (Some (GetNode (GetRLink (N p)))) (\<lambda>q. drop_loop N st q key)
      else obind (Some (tl_Push st p)) (\<lambda>st'.
       obind (Some (GetNode (inter_Get (N p) (unat (GetCount (N p))) key))) (\<lambda>q. drop_loop N st' q key)))"
    by (subst drop_loop.simps) (simp add: Let_def)
qed (rule inter_HasSplit_ok node_links node_key_bounds; assumption)+

section \<open>Levels\<close>

abbreviation row_ents :: "(page_id \<Rightarrow> mem) \<Rightarrow> row \<Rightarrow> row" where
  "row_ents \<equiv> row_keys inter_ents"

fun levels :: "(page_id \<Rightarrow> mem) \<Rightarrow> nat \<Rightarrow> row \<Rightarrow> row list \<Rightarrow> bool" where
  "levels N lvl row [] \<longleftrightarrow> length row = 1"
| "levels N lvl row (up # rest) \<longleftrightarrow>
     seg (inter_node (Suc lvl)) N up no_next \<and> row_ents N up = row \<and> levels N (Suc lvl) up rest"

definition pids :: "row list \<Rightarrow> page_id list" where
  "pids rows = concat (map (map snd) rows)"

lemma pids_simps [simp]: "pids [] = []" "pids (r # rs) = map snd r @ pids rs"
  by (simp_all add: pids_def)

lemma levels_cong: "(\<And>p. p \<in> set (pids rest) \<Longrightarrow> N' p = N p) \<Longrightarrow> levels N' lvl row rest = levels N lvl row rest"
proof (induction rest arbitrary: lvl row)
  case (Cons up rest)
  have "seg (inter_node (Suc lvl)) N' up no_next = seg (inter_node (Suc lvl)) N up no_next"
    by (rule seg_cong) (simp add: Cons.prems)
  moreover have "row_ents N' up = row_ents N up" by (rule row_keys_cong) (simp add: Cons.prems)
  moreover have "levels N' (Suc lvl) up rest = levels N (Suc lvl) up rest" by (rule Cons.IH) (simp add: Cons.prems)
  ultimately show ?case by simp
qed simp

text \<open>The search on an intermediate page reaches an entry of the row below, between the page's bound and the key.\<close>

lemma inter_Get_entry:
  assumes n: "inter_node lvl d low nx" and low: "low \<le> key_bytes key"
  obtains l where "(l, inter_Get d (unat (GetCount d)) key) \<in> set (inter_ents d)" "low \<le> l" "l \<le> key_bytes key"
proof -
  have ne: "inter_ents d \<noteq> []" and h: "fst (hd (inter_ents d)) = low" and nk: "node_ok inter_fmt d lvl low nx"
    using n by (simp_all add: inter_node_def)
  let ?F = "filter (\<lambda>e. fst e \<le> key_bytes key) (inter_ents d)"
  have "sorted_wrt (<) (map fst (inter_ents d))" using node_okD(2) [OF nk] by (simp add: inter_keys_sorted)
  moreover have "0 < unat (GetCount d)" using ne by (metis length_greater_0_conv length_inter_ents)
  ultimately have g: "inter_Get d (unat (GetCount d)) key = snd (last ?F)"
    using inter_Get_covering [of d key] low h by (simp add: route_child_def)
  have "hd (inter_ents d) \<in> set ?F" using ne low h by simp
  then have "last ?F \<in> set ?F" by (metis last_in_set list.distinct(1) list.set_cases)
  then have m: "last ?F \<in> set (inter_ents d)" "fst (last ?F) \<le> key_bytes key" by auto
  have "fst (last ?F) \<in> set (page_keys inter_fmt d)" using imageI [OF m(1), of fst] by (simp flip: inter_ents_fst)
  with node_okD(9) [OF nk] have "low \<le> fst (last ?F)" by blast
  with m g that [of "fst (last ?F)"] show ?thesis by (metis prod.collapse)
qed

text \<open>The stack of a descent: one page per level above, with bounds that do not increase on the way up.\<close>

fun path_ok :: "u8 list \<Rightarrow> page_id list \<Rightarrow> row list \<Rightarrow> bool" where
  "path_ok b [] [] \<longleftrightarrow> True"
| "path_ok b (q # qs) (r # rs) \<longleftrightarrow> (\<exists>l. (l, q) \<in> set r \<and> l \<le> b \<and> path_ok l qs rs)"
| "path_ok b _ _ \<longleftrightarrow> False"

lemma path_ok_mono: "path_ok a qs rs \<Longrightarrow> a \<le> b \<Longrightarrow> path_ok b qs rs"
  by (induction a qs rs rule: path_ok.induct) (auto intro: order_trans)

lemma path_ok_length: "path_ok b qs rs \<Longrightarrow> length qs = length rs"
  by (induction b qs rs rule: path_ok.induct) auto

lemma levels_nth:
  "levels N lvl row rest \<Longrightarrow> i < length rest \<Longrightarrow>
    seg (inter_node (Suc (lvl + i))) N (rest ! i) no_next \<and> row_ents N (rest ! i) = (row # rest) ! i"
proof (induction rest arbitrary: lvl row i)
  case (Cons up rest)
  show ?case
  proof (cases i)
    case (Suc j)
    with Cons.IH [of "Suc lvl" up j] Cons.prems show ?thesis by simp
  qed (use Cons.prems in auto)
qed simp

lemma in_row_ents: "(l, p) \<in> set r \<Longrightarrow> e \<in> set (inter_ents (N p)) \<Longrightarrow> e \<in> set (row_ents N r)"
  by (auto simp: row_keys_def)

text \<open>The descent from a page of any level ends on a leaf whose bound is not above the key.\<close>

lemma descend:
  assumes lv: "levels N 0 row rest" and lf: "seg leaf_node N row no_next" and k: "key_ok key" "klen key \<noteq> 0"
  shows "i \<le> length rest \<Longrightarrow> (l, q) \<in> set ((row # rest) ! i) \<Longrightarrow> l \<le> key_bytes key \<Longrightarrow> tl_ok st \<Longrightarrow>
    length (tl_stack st) + i \<le> 16 \<Longrightarrow> path_ok l (tl_stack st) (drop i rest) \<Longrightarrow>
    \<exists>st' l' p. drop_loop N st q key = Some (Inr (st', p)) \<and> tl_ok st' \<and> (l', p) \<in> set row \<and> l' \<le> key_bytes key \<and>
      path_ok l' (tl_stack st') rest"
proof (induction i arbitrary: l q st)
  case 0
  then have "(l, q) \<in> set row" by simp
  with seg_page [OF lf] node_links(5) have "GetLevel (N q) = 0" by (fastforce simp: unat_eq_zero)
  then have "drop_loop N st q key = Some (Inr (st, q))" by (subst drop_loop.simps) (simp add: Let_def)
  with 0 show ?case by auto
next
  case (Suc i)
  then have i: "i < length rest" by simp
  from levels_nth [OF lv this] have sg: "seg (inter_node (Suc i)) N (rest ! i) no_next"
    and re: "row_ents N (rest ! i) = (row # rest) ! i" by simp_all
  from Suc.prems(2) have lq: "(l, q) \<in> set (rest ! i)" by simp
  from drop_walk.walk_row [OF sg lq Suc.prems(3) k] obtain xs low p ys
    where w: "rest ! i = xs @ (low, p) # ys" "l \<le> low" "low \<le> key_bytes key"
    "drop_loop N st q key = obind (Some (tl_Push st p)) (\<lambda>st'.
       obind (Some (GetNode (inter_Get (N p) (unat (GetCount (N p))) key))) (\<lambda>q. drop_loop N st' q key))" by metis
  have lp: "(low, p) \<in> set (rest ! i)" by (simp add: w(1))
  from seg_page [OF sg lp] obtain nx where n: "inter_node (Suc i) (N p) low nx" by blast
  let ?c = "inter_Get (N p) (unat (GetCount (N p))) key"
  obtain l' where c: "(l', ?c) \<in> set (inter_ents (N p))" "low \<le> l'" "l' \<le> key_bytes key"
    using inter_Get_entry [OF n w(3)] by blast
  have cr: "(l', ?c) \<in> set ((row # rest) ! i)" using in_row_ents [where N = N, OF lp c(1)] re by simp
  have cp: "?c \<noteq> 0 \<and> ?c \<noteq> UNDEFINED_PAGE"
  proof (cases i)
    case 0
    with cr seg_page [OF lf] show ?thesis by force
  next
    case (Suc j)
    with i levels_nth [OF lv, of j] cr seg_page show ?thesis by (metis Suc_lessD nth_Cons_Suc)
  qed
  obtain st1 where st1: "tl_Push st p = Inr st1" "tl_ok st1" "tl_stack st1 = p # tl_stack st"
    using tl.push_ok [OF Suc.prems(4), of p] Suc.prems(5) by auto
  have dr: "drop i rest = rest ! i # drop (Suc i) rest" using i by (simp add: Cons_nth_drop_Suc)
  have "path_ok l' (tl_stack st1) (drop i rest)"
    unfolding st1(3) dr using lp c(2) path_ok_mono [OF Suc.prems(6) w(2)] by auto
  with Suc.IH [of l' ?c st1] i cr c(3) st1 Suc.prems(5) obtain st' l2 p2
    where "drop_loop N st1 ?c key = Some (Inr (st', p2)) \<and> tl_ok st' \<and> (l2, p2) \<in> set row \<and> l2 \<le> key_bytes key \<and>
      path_ok l2 (tl_stack st') rest" by fastforce
  moreover have "drop_loop N st q key = drop_loop N st1 ?c key" using w(4) st1(1) cp by (simp add: GetNode_def)
  ultimately show ?case by auto
qed

end
