(* ===== verification/BTreeInsert.thy ===== *)
theory BTreeInsert
  imports BTreeRows
begin

text \<open>
  Insertion into the B-link tree.

  The lemmas go along the code: reserving a page, splitting a page and linking the new one into its row,
  handing the separator to the level above, and growing a root. Between the two, a level is one separator
  behind the row below it; \<open>PropagateInsert_ok\<close> says that the loop closes exactly this gap, for a tree of any
  height, and never reaches a failing assertion or runs on.
\<close>

section \<open>Insertion in the middle of a row\<close>

lemma route_insert_mid:
  assumes "\<And>e. e \<in> set A \<Longrightarrow> fst e < s" "\<And>e. e \<in> set B \<Longrightarrow> s < fst e"
  shows "route_insert s v (A @ E @ B) = A @ route_insert s v E @ B"
proof -
  have "route_insert s v (E @ B) = route_insert s v E @ B"
  proof (cases B)
    case (Cons b bs)
    then have "\<not> fst b < s" using assms(2) [of b] by simp
    then show ?thesis by (induction E) (auto simp: route_insert_def Cons)
  qed simp
  with assms(1) show ?thesis by (simp add: route_insert_def takeWhile_append2 dropWhile_append2)
qed

lemma insort_mid:
  fixes s :: "'a::linorder"
  assumes "\<And>e. e \<in> set A \<Longrightarrow> e < s" "\<And>e. e \<in> set B \<Longrightarrow> s < e"
  shows "insort s (A @ E @ B) = A @ insort s E @ B"
proof -
  have "insort s (E @ B) = insort s E @ B"
  proof (induction E)
    case Nil
    then show ?case using assms(2) by (cases B) (auto simp: less_imp_le)
  qed auto
  with assms(1) show ?thesis by (induction A) (auto simp: not_le [symmetric])
qed

lemma route_insert_fst: "fst ` set (route_insert s v es) = insert s (fst ` set es)"
proof -
  have "set es = set (takeWhile (\<lambda>e. fst e < s) es) \<union> set (dropWhile (\<lambda>e. fst e < s) es)"
    by (metis set_append takeWhile_dropWhile_id)
  then show ?thesis by (auto simp: route_insert_def)
qed

section \<open>Rows with one page changed\<close>

lemma seg_replace:
  assumes "seg P N (xs @ (low, p) # ys) nx" "distinct (map snd (xs @ (low, p) # ys))"
    and "\<And>x. x \<in> snd ` set (xs @ ys) \<Longrightarrow> N' x = N x" "P (N' p) low (nxt ys nx)"
  shows "seg P N' (xs @ (low, p) # ys) nx"
proof -
  have "seg P N' xs nx' = seg P N xs nx'" "seg P N' ys nx' = seg P N ys nx'" for nx'
    using assms(3) by (auto intro!: seg_cong)
  with assms(1,4) show ?thesis by (simp add: seg_append)
qed

lemma seg_split:
  assumes "seg P N (xs @ (low, p) # ys) nx" "\<And>x. x \<in> snd ` set (xs @ ys) \<Longrightarrow> N' x = N x"
    and "P (N' p) low (Some s, q)" "P (N' q) s (nxt ys nx)" "q \<noteq> 0" "q \<noteq> UNDEFINED_PAGE"
  shows "seg P N' (xs @ (low, p) # (s, q) # ys) nx"
proof -
  have "seg P N' xs nx' = seg P N xs nx'" "seg P N' ys nx' = seg P N ys nx'" for nx'
    using assms(2) by (auto intro!: seg_cong)
  with assms(1,3-6) show ?thesis by (simp add: seg_append)
qed

text \<open>The new separator takes its place in the row.\<close>

lemma row_insert:
  assumes "sorted_wrt (<) (map fst (xs @ (low, p) # ys))" "low < s" "below s (fst (nxt ys no_next))"
  shows "route_insert s q (xs @ (low, p) # ys) = xs @ (low, p) # (s, q) # ys"
proof -
  have "fst e < s" if "e \<in> set (xs @ [(low, p)])" for e
    using assms(1,2) that by (auto simp: sorted_wrt_append intro: less_trans)
  moreover have "s < fst e" if "e \<in> set ys" for e
  proof -
    have "s < fst (hd ys)" using assms(3) that by (cases ys) auto
    also have "fst (hd ys) \<le> fst e" using assms(1) that by (cases ys) (auto simp: sorted_wrt_append less_imp_le)
    finally show ?thesis .
  qed
  ultimately show ?thesis
    using route_insert_mid [of "xs @ [(low, p)]" s ys q "[]"] by (simp add: route_insert_def)
qed

section \<open>Reserving a page\<close>

definition next_pid :: "BTreeIndex \<Rightarrow> page_id" where
  "next_pid t = next_of (bt_fsm t) (bt_tbl t)"

text \<open>The tree with the next page taken and the page map \<open>N\<close>.\<close>

definition with_page :: "BTreeIndex \<Rightarrow> (page_id \<Rightarrow> mem) \<Rightarrow> BTreeIndex" where
  "with_page t N = t\<lparr>bt_fsm := (bt_fsm t)(bt_tbl t \<mapsto> next_pid t + 1), bt_nodes := N\<rparr>"

lemma with_page_simps [simp]:
  "bt_nodes (with_page t N) = N" "root_id (with_page t N) = root_id t" "bt_tl (with_page t N) = bt_tl t"
  "bt_tbl (with_page t N) = bt_tbl t" "bt_heap_tbl (with_page t N) = bt_heap_tbl t" "bt_attrs (with_page t N) = bt_attrs t"
  "next_pid (with_page t N) = next_pid t + 1"
  by (simp_all add: with_page_def next_pid_def next_of_def)

lemma set_node_with_page [simp]: "set_node (with_page t N) p d = with_page t (N(p := d))"
  by (simp add: set_node_def with_page_def)

lemma ReserveNode_ok:
  assumes "next_pid t < MAX_POOL_PAGES"
  shows "ReserveNode t = Inr (with_page t ((bt_nodes t)(next_pid t := (\<lambda>_. 0))), next_pid t)"
  using assms
  by (simp add: ReserveNode_def fsm_index_Get_def with_page_def set_node_def next_pid_def next_of_def Let_def)

lemma next_pid_less:
  assumes "next_pid t < MAX_POOL_PAGES"
  shows "next_pid t \<noteq> UNDEFINED_PAGE" "unat (next_pid t + 1) = unat (next_pid t) + 1"
  using assms by (auto simp: MAX_POOL_PAGES_def UNDEFINED_PAGE_def word_less_nat_alt unat_word_ariths)

lemma SplitInter_ok:
  assumes n: "inter_node lvl (bt_nodes t p) low nx" "key_fits inter_fmt (bt_nodes t p) low nx key"
    and sp: "inter_HasSpace (bt_nodes t p) key = Inr False" and q: "next_pid t < MAX_POOL_PAGES" "p \<noteq> next_pid t"
  shows "\<exists>l r sent. SplitInter t p key v = Inr (with_page t ((bt_nodes t)(p := l, next_pid t := r)), next_pid t, sent) \<and>
    inter_node lvl l low (Some (key_bytes sent), next_pid t) \<and> inter_node lvl r (key_bytes sent) nx \<and>
    inter_ents l @ inter_ents r = route_insert (key_bytes key) v (inter_ents (bt_nodes t p)) \<and>
    key_ok sent \<and> key_size_ok (key_bytes sent) \<and> low < key_bytes sent \<and> below (key_bytes sent) (fst nx)"
proof -
  obtain l r sent where s: "inter_Split (bt_nodes t p) (InitHeader (\<lambda>_. 0) 0 (GetLevel (bt_nodes t p)) (next_pid t)) (next_pid t) key v = Inr (l, r, sent)"
    "inter_node lvl l low (Some (key_bytes sent), next_pid t) \<and> inter_node lvl r (key_bytes sent) nx \<and>
    inter_ents l @ inter_ents r = route_insert (key_bytes key) v (inter_ents (bt_nodes t p)) \<and>
    key_ok sent \<and> key_size_ok (key_bytes sent) \<and> low < key_bytes sent \<and> below (key_bytes sent) (fst nx)"
    using inter_split_node [OF n sp] by blast
  have "SplitInter t p key v = Inr (with_page t ((bt_nodes t)(p := l, next_pid t := r)), next_pid t, sent)"
    using q(2) s(1) by (simp add: SplitInter_def ReserveNode_ok [OF q(1)] fun_upd_twist)
  with s(2) show ?thesis by blast
qed

lemma SplitLeaf_ok:
  assumes n: "leaf_node (bt_nodes t p) low nx" "page_tight leaf_fmt (bt_nodes t p)" "key_fits leaf_fmt (bt_nodes t p) low nx key"
    and cnt: "2 \<le> unat (GetCount (bt_nodes t p))" and q: "next_pid t < MAX_POOL_PAGES" "p \<noteq> next_pid t"
  shows "\<exists>l r sent. SplitLeaf t p key = Inr (with_page t ((bt_nodes t)(p := l, next_pid t := r)), next_pid t, sent) \<and>
    leaf_halves (bt_nodes t p) low nx key (next_pid t) l r sent"
proof -
  obtain l r sent where s: "leaf_Split (bt_nodes t p) (InitHeader (\<lambda>_. 0) 0 0 (next_pid t)) (next_pid t) key = Inr (l, r, sent)"
    "leaf_halves (bt_nodes t p) low nx key (next_pid t) l r sent"
    using leaf_split_node [OF n cnt] by blast
  have "SplitLeaf t p key = Inr (with_page t ((bt_nodes t)(p := l, next_pid t := r)), next_pid t, sent)"
    using q(2) s(1) by (simp add: SplitLeaf_def ReserveNode_ok [OF q(1)] fun_upd_twist)
  with s(2) show ?thesis by blast
qed

text \<open>A new root over the old one and its new right neighbour.\<close>

lemma CreateNewRoot_ok:
  assumes k: "key_ok sent" "key_size_ok (key_bytes sent)" and q: "next_pid t < MAX_POOL_PAGES" and lvl: "unat level + 1 < 256"
  shows "\<exists>d. CreateNewRoot t level sent p q = Inr ((with_page t ((bt_nodes t)(next_pid t := d)))\<lparr>root_id := next_pid t\<rparr>) \<and>
    inter_node (unat level + 1) d [] no_next \<and> inter_ents d = [([], p), (key_bytes sent, q)]"
proof -
  let ?d = "CreateRoot (InitHeader (\<lambda>_. 0) 1 (level + 1) (next_pid t)) sent p q"
  have len: "unat (klen sent) < DB7_MAX_ROW_SIZE" "key_bytes sent \<noteq> []"
    using key_size_klen [OF k] k(2) by (auto simp: DB7_MAX_ROW_SIZE_def key_size_ok_def)
  note cr = CreateRoot_ok [OF k(1) len(1), of "\<lambda>_. 0" "level + 1" "next_pid t" p q]
  have lv: "unat (level + 1) = unat level + 1" using lvl by (simp add: unat_word_ariths)
  have es: "inter_ents ?d = [([], p), (key_bytes sent, q)]" by (simp add: inter_ents_def cr(2))
  have ks: "page_keys inter_fmt ?d = [[], key_bytes sent]" by (simp add: page_keys_ents cr(2))
  have "keys_sorted (page_ents inter_fmt ?d)" using len(2) by (simp add: keys_sorted_def cr(2) Nil_less_iff)
  then have "inter_node (unat level + 1) ?d [] no_next"
    using cr lv k(2) by (simp add: inter_node_def node_ok_def es ks no_next_def)
  moreover have "CreateNewRoot t level sent p q = Inr ((with_page t ((bt_nodes t)(next_pid t := ?d)))\<lparr>root_id := next_pid t\<rparr>)"
    using cr(5) lv by (simp add: CreateNewRoot_def ReserveNode_ok [OF q] Let_def)
  ultimately show ?thesis using es by blast
qed

section \<open>Handing a separator up\<close>

text \<open>The stack buffer of the thread has its sixteen entries.\<close>

definition tl_sane :: "BTreeIndex \<Rightarrow> bool" where
  "tl_sane t \<longleftrightarrow> length (state_buf (bt_tl t)) = 16"

lemma tl_sane_ok: "tl_ok (bt_tl t) \<Longrightarrow> tl_sane t"
  by (simp add: tl_sane_def tl_ok_def)

text \<open>What an index is for: its own table, the table it indexes, and the key columns.\<close>

definition same_index :: "BTreeIndex \<Rightarrow> BTreeIndex \<Rightarrow> bool" where
  "same_index t t' \<longleftrightarrow> bt_tbl t' = bt_tbl t \<and> bt_heap_tbl t' = bt_heap_tbl t \<and> bt_attrs t' = bt_attrs t"

lemma same_index_stack [simp]: "same_index (t\<lparr>bt_tl := st\<rparr>) t' = same_index t t'"
  by (simp add: same_index_def)

definition grown :: "BTreeIndex \<Rightarrow> BTreeIndex \<Rightarrow> row list \<Rightarrow> row list \<Rightarrow> bool" where
  "grown t t' rest rest' \<longleftrightarrow>
     same_index t t' \<and> length rest' \<le> length rest + 1 \<and> distinct (pids rest') \<and>
     (\<forall>p \<in> set (pids rest'). p \<in> set (pids rest) \<or> next_pid t \<le> p \<and> p < next_pid t') \<and>
     next_pid t \<le> next_pid t' \<and> unat (next_pid t') \<le> unat (next_pid t) + length rest + 1 \<and>
     (\<forall>p. p < next_pid t \<and> p \<notin> set (pids rest) \<longrightarrow> bt_nodes t' p = bt_nodes t p)"

lemma grown_less:
  assumes "grown t t' rest rest'" "\<forall>x \<in> set (pids rest). x < next_pid t"
  shows "\<forall>x \<in> set (pids rest'). x < next_pid t'" "next_pid t \<noteq> 0 \<Longrightarrow> next_pid t' \<noteq> 0"
proof -
  have le: "next_pid t \<le> next_pid t'" using assms(1) by (simp add: grown_def)
  show "\<forall>x \<in> set (pids rest'). x < next_pid t'"
  proof
    fix x assume "x \<in> set (pids rest')"
    then have "x \<in> set (pids rest) \<or> x < next_pid t'" using assms(1) by (auto simp: grown_def)
    with assms(2) le show "x < next_pid t'" using less_le_trans by blast
  qed
  show "next_pid t \<noteq> 0 \<Longrightarrow> next_pid t' \<noteq> 0" using le by auto
qed

text \<open>What the loop does on the page that covers the separator; after a split it goes on like after a split leaf.\<close>

definition prop_page :: "BTreeIndex \<Rightarrow> page_id \<Rightarrow> Key \<Rightarrow> page_id \<Rightarrow> BTreeIndex res option" where
  "prop_page t p key v = obind (Some (inter_HasSpace (bt_nodes t p) key)) (\<lambda>space.
       if space then Some (ebind (inter_Insert (bt_nodes t p) key v) (\<lambda>d. Inr (set_node t p d)))
       else obind (Some (SplitInter t p key v)) (\<lambda>(t2, new_pid, sentinel).
         PublishSplit t2 (GetLevel (bt_nodes t2 p)) p new_pid sentinel))"

lemma PropagateInsert_step:
  assumes "tl_ok (bt_tl t)" "tl_stack (bt_tl t) = q # qs" "q \<noteq> 0" "q \<noteq> UNDEFINED_PAGE"
    and "GoRightInter (bt_nodes t) q key = Some (Inr p)"
  obtains st where "tl_ok st" "tl_stack st = qs" "PropagateInsert t key v = prop_page (t\<lparr>bt_tl := st\<rparr>) p key v"
proof -
  obtain st where st: "tl_Pop (bt_tl t) = Inr (st, q)" "tl_ok st" "tl_stack st = qs"
    using tl.pop_ok [OF assms(1,2)] by blast
  have "\<not> tl_IsEmpty (bt_tl t)" using tl.empty_iff [OF assms(1)] assms(2) by simp
  with st assms(3-5) have "PropagateInsert t key v = prop_page (t\<lparr>bt_tl := st\<rparr>) p key v"
    unfolding prop_page_def PublishSplit_def
    by (subst PropagateInsert.simps) (simp add: Let_def GetNode_def cong: if_cong)
  from that [OF st(2,3) this] show ?thesis .
qed

text \<open>A covering page in the middle of its row: what the page gets, the whole row gets at its place.\<close>

lemma row_ents_route:
  assumes "seg (inter_node lvl) N (xs @ (low, p) # ys) no_next" "low < s" "below s (fst (nxt ys no_next))"
  shows "row_ents N xs @ route_insert s v (inter_ents (N p)) @ row_ents N ys = route_insert s v (row_ents N (xs @ (low, p) # ys))"
proof -
  have "map fst (row_ents N r) = row_keys (page_keys inter_fmt) N r" for r
    by (induction r) (auto simp flip: inter_ents_fst)
  then have f: "fst ` set (row_ents N r) = set (row_keys (page_keys inter_fmt) N r)" for r by (metis list.set_map)
  note a = inter_walk.around [OF assms(1) less_imp_le [OF assms(2)] assms(3)]
  have "fst e < s" if "e \<in> set (row_ents N xs)" for e
  proof -
    have "fst e < low" using a(1) f that by blast
    with assms(2) show ?thesis by simp
  qed
  moreover have "s < fst e" if "e \<in> set (row_ents N ys)" for e using a(2) f that by blast
  ultimately show ?thesis by (simp add: route_insert_mid)
qed

lemma covered_fits:
  assumes n: "inter_node lvl d low nx" and "low \<le> key_bytes key" "below (key_bytes key) (fst nx)"
    and "key_ok key" "key_size_ok (key_bytes key)" "key_bytes key \<notin> fst ` set (inter_ents d)"
  shows "key_fits inter_fmt d low nx key"
  using assms unfolding key_fits_def by (simp flip: inter_ents_fst)

context page_row
begin

lemma row_changed:
  assumes "seg P N (xs @ (low, p) # ys) no_next" "distinct (map snd (xs @ (low, p) # ys))" "P d low (nxt ys no_next)"
  shows "seg P (N(p := d)) (xs @ (low, p) # ys) no_next"
    "row_keys K (N(p := d)) (xs @ (low, p) # ys) = row_keys K N xs @ K d @ row_keys K N ys"
proof -
  have same: "(N(p := d)) x = N x" if "x \<in> snd ` set (xs @ ys)" for x using that assms(2) by (auto simp: image_iff)
  show "seg P (N(p := d)) (xs @ (low, p) # ys) no_next"
    by (rule seg_replace [OF assms(1,2) same]) (simp_all add: assms(3))
  have "row_keys K (N(p := d)) xs = row_keys K N xs" "row_keys K (N(p := d)) ys = row_keys K N ys"
    by (rule row_keys_cong, rule same, auto)+
  then show "row_keys K (N(p := d)) (xs @ (low, p) # ys) = row_keys K N xs @ K d @ row_keys K N ys" by simp
qed

text \<open>A page split in two: the new one takes its place in the row.\<close>

lemma row_split:
  assumes "seg P N (xs @ (low, p) # ys) no_next" "distinct (map snd (xs @ (low, p) # ys))"
    and "q \<notin> snd ` set (xs @ (low, p) # ys)" "q \<noteq> 0" "q \<noteq> UNDEFINED_PAGE"
    and d: "P l low (Some k, q)" "P r k (nxt ys no_next)" "low < k" "below k (fst (nxt ys no_next))"
  defines "N' \<equiv> N(p := l, q := r)" and "row' \<equiv> route_insert k q (xs @ (low, p) # ys)"
  shows "seg P N' row' no_next" "row_keys K N' row' = row_keys K N xs @ (K l @ K r) @ row_keys K N ys"
    "set row' = insert (k, q) (set (xs @ (low, p) # ys))" "distinct (map snd row')" "k \<notin> fst ` set (xs @ (low, p) # ys)"
proof -
  have same: "N' x = N x" if "x \<in> snd ` set (xs @ ys)" for x using that assms(2,3) by (auto simp: N'_def image_iff)
  have ri: "row' = xs @ (low, p) # (k, q) # ys"
    unfolding row'_def by (rule row_insert [OF seg_sorted [OF assms(1)] d(3,4)])
  have pq: "p \<noteq> q" using assms(3) by auto
  show "seg P N' row' no_next"
    unfolding ri by (rule seg_split [OF assms(1) same]) (use assms(4,5) d pq in \<open>simp_all add: N'_def\<close>)
  have "row_keys K N' xs = row_keys K N xs" "row_keys K N' ys = row_keys K N ys"
    by (rule row_keys_cong, rule same, auto)+
  then show "row_keys K N' row' = row_keys K N xs @ (K l @ K r) @ row_keys K N ys"
    unfolding ri using pq by (simp add: N'_def)
  show "set row' = insert (k, q) (set (xs @ (low, p) # ys))" unfolding ri by auto
  show "distinct (map snd row')" unfolding ri using assms(2,3) by auto
  show "k \<notin> fst ` set (xs @ (low, p) # ys)"
    using around(3,4) [OF assms(1) less_imp_le [OF d(3)] d(4)] d(3) by fastforce
qed

end

text \<open>The bookkeeping of page ids when the row above grew by one page and the levels over it changed.\<close>

lemma grown_above:
  assumes g: "grown t2 t' rest rest'" and t2: "same_index t t2" "next_pid t2 = next_pid t + 1"
    and N2: "\<And>x. x < next_pid t \<Longrightarrow> x \<notin> snd ` set up \<Longrightarrow> bt_nodes t2 x = bt_nodes t x"
    and up': "snd ` set up' = insert (next_pid t) (snd ` set up)" "distinct (map snd up')"
    and old: "distinct (map snd up @ pids rest)" "\<forall>p \<in> set (map snd up @ pids rest). p < next_pid t" "next_pid t < MAX_POOL_PAGES"
  shows "grown t t' (up # rest) (up' # rest')"
proof -
  have u: "unat (next_pid t2) = unat (next_pid t) + 1" using next_pid_less(2) [OF old(3)] t2(2) by simp
  then have lt: "next_pid t < next_pid t2" by (simp add: word_less_nat_alt)
  note gg = g [unfolded grown_def]
  have new: "p \<in> set (pids rest) \<or> next_pid t < p \<and> p < next_pid t'" if "p \<in> set (pids rest')" for p
    using gg lt that by (meson less_le_trans)
  have le: "next_pid t < next_pid t'" using gg lt by (meson less_le_trans)
  have sep: "p \<notin> set (pids rest')" if "p \<in> snd ` set up'" for p
  proof
    assume "p \<in> set (pids rest')"
    with new [of p] that up'(1) old(1,2) show False by (auto dest: less_asym)
  qed
  have "bt_nodes t' x = bt_nodes t x" if "x < next_pid t" "x \<notin> snd ` set up" "x \<notin> set (pids rest)" for x
    using gg N2 [of x] that lt by (metis less_trans)
  moreover have "p \<in> snd ` set up \<union> set (pids rest) \<or> next_pid t \<le> p \<and> p < next_pid t'" if "p \<in> snd ` set up' \<union> set (pids rest')" for p
    using that new [of p] up'(1) le by (auto intro: less_imp_le)
  ultimately show ?thesis
    unfolding grown_def using gg sep up'(2) le t2(1) u by (auto simp: same_index_def intro: less_imp_le)
qed

text \<open>A separator is due: the page \<open>v\<close> was linked into the row, with lower bound \<open>key\<close>, but not the level above.\<close>

definition pending :: "BTreeIndex \<Rightarrow> nat \<Rightarrow> row \<Rightarrow> row list \<Rightarrow> Key \<Rightarrow> page_id \<Rightarrow> bool" where
  "pending t lvl row rest key v \<longleftrightarrow>
     levels (bt_nodes t) lvl row rest \<and> path_ok (key_bytes key) (tl_stack (bt_tl t)) rest \<and> tl_ok (bt_tl t) \<and>
     key_ok key \<and> key_size_ok (key_bytes key) \<and> key_bytes key \<notin> fst ` set row \<and> v \<noteq> 0 \<and>
     last (row # rest) = [([], root_id t)] \<and> distinct (pids rest) \<and> (\<forall>p \<in> set (pids rest). p < next_pid t) \<and>
     unat (next_pid t) + length rest < 80000 \<and> next_pid t \<noteq> 0 \<and> lvl + length rest + 1 < 256"

definition published :: "BTreeIndex \<Rightarrow> BTreeIndex \<Rightarrow> nat \<Rightarrow> row \<Rightarrow> row list \<Rightarrow> row list \<Rightarrow> bool" where
  "published t t' lvl row rest rest' \<longleftrightarrow>
     levels (bt_nodes t') lvl row rest' \<and> last (row # rest') = [([], root_id t')] \<and> grown t t' rest rest' \<and> tl_sane t'"

lemma pendingD:
  assumes "pending t lvl row rest key v"
  shows "levels (bt_nodes t) lvl row rest" "path_ok (key_bytes key) (tl_stack (bt_tl t)) rest" "tl_ok (bt_tl t)"
    "key_ok key" "key_size_ok (key_bytes key)" "key_bytes key \<notin> fst ` set row" "v \<noteq> 0"
    "last (row # rest) = [([], root_id t)]" "distinct (pids rest)" "\<forall>p \<in> set (pids rest). p < next_pid t"
    "unat (next_pid t) + length rest < 80000" "next_pid t \<noteq> 0" "lvl + length rest + 1 < 256"
  using assms unfolding pending_def by blast+

lemma pending_pid: "pending t lvl row rest key v \<Longrightarrow> next_pid t < MAX_POOL_PAGES"
  using pendingD(11) [of t lvl row rest key v] by (simp add: MAX_POOL_PAGES_def word_less_nat_alt)

text \<open>The page of the level above that covers the separator.\<close>

lemma pending_page:
  assumes pn: "pending t lvl row (up # rest) key v"
  obtains xs low p ys st where "up = xs @ (low, p) # ys" "low < key_bytes key" "below (key_bytes key) (fst (nxt ys no_next))"
    "inter_node (Suc lvl) (bt_nodes t p) low (nxt ys no_next)" "key_fits inter_fmt (bt_nodes t p) low (nxt ys no_next) key"
    "tl_ok st" "path_ok low (tl_stack st) rest" "PropagateInsert t key v = prop_page (t\<lparr>bt_tl := st\<rparr>) p key v"
proof -
  let ?N = "bt_nodes t" and ?k = "key_bytes key"
  note pD = pendingD [OF pn]
  have sg: "seg (inter_node (Suc lvl)) ?N up no_next" and re: "row_ents ?N up = row" using pD(1) by simp_all
  from pD(2) obtain l q qs where stk: "tl_stack (bt_tl t) = q # qs" "(l, q) \<in> set up" "l \<le> ?k" "path_ok l qs rest"
    by (cases "tl_stack (bt_tl t)") auto
  have kn: "klen key \<noteq> 0" using key_size_klen [OF pD(4,5)] by simp
  from inter_walk.walk_row [OF sg stk(2,3) pD(4) kn] obtain xs low p ys
    where up: "up = xs @ (low, p) # ys" and go: "GoRightInter ?N q key = Some (Inr p)"
      and lo: "l \<le> low" "low \<le> ?k" "below ?k (fst (nxt ys no_next))" by metis
  have n: "inter_node (Suc lvl) (?N p) low (nxt ys no_next)" using sg by (simp add: up seg_append)
  have q0: "q \<noteq> 0" "q \<noteq> UNDEFINED_PAGE" using seg_page [OF sg stk(2)] by auto
  have "set (inter_ents (?N p)) \<subseteq> set row" using re by (auto simp: up)
  then have fresh: "?k \<notin> fst ` set (inter_ents (?N p))" using pD(6) by blast
  note kf = covered_fits [OF n lo(2,3) pD(4,5) fresh]
  obtain st where st: "tl_ok st" "tl_stack st = qs" and run: "PropagateInsert t key v = prop_page (t\<lparr>bt_tl := st\<rparr>) p key v"
    by (rule PropagateInsert_step [OF pD(3) stk(1) q0 go])
  have "path_ok low (tl_stack st) rest" using path_ok_mono [OF stk(4) lo(1)] st(2) by simp
  from that [OF up inter_node_low_less [OF n kf] lo(3) n kf st(1) this run] show ?thesis .
qed

lemma pending_row:
  assumes pn: "pending t lvl row (up # rest) key v" and up: "up = xs @ (low, p) # ys"
  shows "seg (inter_node (Suc lvl)) (bt_nodes t) (xs @ (low, p) # ys) no_next" "row_ents (bt_nodes t) (xs @ (low, p) # ys) = row"
    "levels (bt_nodes t) (Suc lvl) up rest" "distinct (map snd (xs @ (low, p) # ys))" "p \<in> snd ` set up" "p < next_pid t"
    "p \<notin> set (pids rest)" "next_pid t \<notin> snd ` set (xs @ (low, p) # ys)" "next_pid t \<notin> set (pids rest)"
    "distinct (map snd up @ pids rest)" "\<forall>x \<in> set (map snd up @ pids rest). x < next_pid t"
proof -
  note pD = pendingD [OF pn]
  show "distinct (map snd up @ pids rest)" "\<forall>x \<in> set (map snd up @ pids rest). x < next_pid t" using pD(9,10) by auto
  then show "next_pid t \<notin> snd ` set (xs @ (low, p) # ys)" "next_pid t \<notin> set (pids rest)" by (auto simp: up)
  show "p < next_pid t" "p \<notin> set (pids rest)" using pD(9,10) by (simp_all add: up)
  show "seg (inter_node (Suc lvl)) (bt_nodes t) (xs @ (low, p) # ys) no_next" "row_ents (bt_nodes t) (xs @ (low, p) # ys) = row"
    "levels (bt_nodes t) (Suc lvl) up rest" "distinct (map snd (xs @ (low, p) # ys))" "p \<in> snd ` set up"
    using pD(1,9) by (auto simp: up)
qed

lemma prop_page_space:
  assumes pn: "pending t lvl row (up # rest) key v" and up: "up = xs @ (low, p) # ys" and lo: "low < key_bytes key"
    "below (key_bytes key) (fst (nxt ys no_next))" and n: "inter_node (Suc lvl) (bt_nodes t p) low (nxt ys no_next)"
      "key_fits inter_fmt (bt_nodes t p) low (nxt ys no_next) key"
    and st: "tl_ok st" and sp: "inter_HasSpace (bt_nodes t p) key = Inr True"
  shows "\<exists>t'. prop_page (t\<lparr>bt_tl := st\<rparr>) p key v = Some (Inr t') \<and>
    published t t' lvl (route_insert (key_bytes key) v row) (up # rest) (up # rest)"
proof -
  let ?N = "bt_nodes t"
  note pD = pendingD [OF pn] and pr = pending_row [OF pn up]
  obtain d where d: "inter_Insert (?N p) key v = Inr d" "inter_node (Suc lvl) d low (nxt ys no_next)"
    "inter_ents d = route_insert (key_bytes key) v (inter_ents (?N p))"
    using inter_insert_node [OF n pD(7) sp] by blast
  let ?t' = "set_node (t\<lparr>bt_tl := st\<rparr>) p d"
  note ch = inter_walk.row_changed [OF pr(1,4) d(2), folded up]
  have "row_ents (?N(p := d)) up = route_insert (key_bytes key) v row"
    unfolding ch(2) [of inter_ents] d(3) row_ents_route [OF pr(1) lo] pr(2) ..
  moreover have "levels (?N(p := d)) (Suc lvl) up rest" using pr(3,7) by (subst levels_cong) auto
  ultimately have "levels (bt_nodes ?t') lvl (route_insert (key_bytes key) v row) (up # rest)" using ch(1) by (simp add: set_node_def)
  moreover have "prop_page (t\<lparr>bt_tl := st\<rparr>) p key v = Some (Inr ?t')" using sp d(1) by (simp add: prop_page_def)
  moreover have "grown t ?t' (up # rest) (up # rest)"
    using pr(5,10,11) by (auto simp: grown_def set_node_def next_pid_def same_index_def)
  moreover have "last (up # rest) = [([], root_id ?t')]" using pD(8) by (simp add: set_node_def)
  moreover have "tl_sane ?t'" using st by (simp add: tl_sane_def tl_ok_def set_node_def)
  ultimately show ?thesis unfolding published_def by (metis last_ConsR list.distinct(1))
qed

text \<open>After a split the row above is untouched by the later publications, and the new separator is due there.\<close>

lemma grown_keeps_row:
  assumes g: "grown t2 t' rest rest'" and t2: "next_pid t2 = next_pid t + 1" "next_pid t < MAX_POOL_PAGES"
    and up': "set up' = insert (k, next_pid t) (set up)"
    and old: "distinct (map snd up @ pids rest)" "\<forall>x \<in> set (map snd up @ pids rest). x < next_pid t"
    and x: "x \<in> snd ` set up'"
  shows "bt_nodes t' x = bt_nodes t2 x"
proof -
  have "next_pid t < next_pid t2" using next_pid_less(2) [OF t2(2)] by (simp add: t2(1) word_less_nat_alt)
  moreover have "x \<notin> set (pids rest)" "x \<le> next_pid t" using x old unfolding up' by (auto intro: less_imp_le)
  ultimately have "x < next_pid t2" "x \<notin> set (pids rest)" by simp_all
  with g show ?thesis by (auto simp: grown_def)
qed

lemma split_pending:
  assumes st: "path_ok low (tl_stack (bt_tl t)) rest" "tl_ok (bt_tl t)" and lv: "levels N2 lvl row rest"
    and sent: "key_ok sent" "key_size_ok (key_bytes sent)" "low < key_bytes sent" "key_bytes sent \<notin> fst ` set row"
    and last: "last (row # rest) = [([], root_id t)]"
    and ids: "distinct (pids rest)" "\<forall>x \<in> set (pids rest). x < next_pid t" "next_pid t \<noteq> 0"
    and room: "unat (next_pid t) + length rest + 1 < 80000" "lvl + length rest + 1 < 256"
  shows "pending (with_page t N2) lvl row rest sent (next_pid t)"
proof -
  have "next_pid t < MAX_POOL_PAGES" using room(1) by (simp add: MAX_POOL_PAGES_def word_less_nat_alt)
  from next_pid_less(2) [OF this] have u: "unat (next_pid (with_page t N2)) = unat (next_pid t) + 1" by simp
  then have "next_pid t < next_pid (with_page t N2)" by (simp only: word_less_nat_alt)
  then have "\<forall>x \<in> set (pids rest). x < next_pid (with_page t N2)" using ids(2) by (auto intro: less_trans)
  moreover have "next_pid (with_page t N2) \<noteq> 0" "unat (next_pid (with_page t N2)) + length rest < 80000"
    using u room(1) by auto
  ultimately show ?thesis
    using st(2) lv sent last ids(1,3) room(2) path_ok_mono [OF st(1) less_imp_le [OF sent(3)]]
    unfolding pending_def by simp
qed

text \<open>Without space the page is split, and the new separator is due one level up.\<close>

lemma prop_page_split:
  assumes pn: "pending t lvl row (up # rest) key v" and up: "up = xs @ (low, p) # ys" and lo: "low < key_bytes key"
    "below (key_bytes key) (fst (nxt ys no_next))" and n: "inter_node (Suc lvl) (bt_nodes t p) low (nxt ys no_next)"
      "key_fits inter_fmt (bt_nodes t p) low (nxt ys no_next) key"
    and st: "tl_ok st" "path_ok low (tl_stack st) rest" and sp: "inter_HasSpace (bt_nodes t p) key = Inr False"
  obtains t2 sent where "prop_page (t\<lparr>bt_tl := st\<rparr>) p key v = PublishSplit t2 (word_of_nat (Suc lvl)) p (next_pid t) sent"
    "pending t2 (Suc lvl) up rest sent (next_pid t)" "p \<in> snd ` set up"
    "\<forall>t' rest'. published t2 t' (Suc lvl) (route_insert (key_bytes sent) (next_pid t) up) rest rest' \<longrightarrow>
       published t t' lvl (route_insert (key_bytes key) v row) (up # rest) (route_insert (key_bytes sent) (next_pid t) up # rest')"
proof -
  let ?N = "bt_nodes t" and ?q' = "next_pid t" and ?t1 = "t\<lparr>bt_tl := st\<rparr>"
  note pD = pendingD [OF pn] and pr = pending_row [OF pn up] and qlt = pending_pid [OF pn]
  have t1: "bt_nodes ?t1 = ?N" "next_pid ?t1 = ?q'" by (simp_all add: next_pid_def)
  have pq: "p \<noteq> ?q'" using pr(6) by simp
  obtain l1 r1 sent where spl: "SplitInter ?t1 p key v = Inr (with_page ?t1 (?N(p := l1, ?q' := r1)), ?q', sent)"
    and nd: "inter_node (Suc lvl) l1 low (Some (key_bytes sent), ?q')" "inter_node (Suc lvl) r1 (key_bytes sent) (nxt ys no_next)"
      "inter_ents l1 @ inter_ents r1 = route_insert (key_bytes key) v (inter_ents (?N p))" "low < key_bytes sent"
      "below (key_bytes sent) (fst (nxt ys no_next))"
    and sk: "key_ok sent" "key_size_ok (key_bytes sent)"
    using SplitInter_ok [of "Suc lvl" ?t1 p low "nxt ys no_next" key v, unfolded t1, OF n sp qlt pq] by blast
  let ?N2 = "?N(p := l1, ?q' := r1)" and ?up' = "route_insert (key_bytes sent) ?q' up"
  let ?t2 = "with_page ?t1 ?N2"
  note ch = inter_walk.row_split [OF pr(1,4,8) pD(12) next_pid_less(1) [OF qlt] nd(1,2,4,5), folded up]
  have ents: "row_ents ?N2 ?up' = route_insert (key_bytes key) v row"
    unfolding ch(2) [of inter_ents] nd(3) row_ents_route [OF pr(1) lo] pr(2) ..
  have "levels ?N2 (Suc lvl) up rest" using pr(3,7,9) by (subst levels_cong) auto
  then have pend: "pending ?t2 (Suc lvl) up rest sent ?q'"
    using split_pending [where t = ?t1, unfolded t1] st sk nd(4) ch(5) pD(8-13) by simp
  have "GetLevel (?N2 p) = word_of_nat (Suc lvl)"
    using arg_cong [OF node_links(6) [OF nd(1)], of "word_of_nat :: nat \<Rightarrow> u8"] pq by simp
  then have run: "prop_page ?t1 p key v = PublishSplit ?t2 (word_of_nat (Suc lvl)) p ?q' sent"
    using sp spl by (simp add: prop_page_def)
  have pub: "published t t' lvl (route_insert (key_bytes key) v row) (up # rest) (?up' # rest')"
    if pb: "published ?t2 t' (Suc lvl) ?up' rest rest'" for t' rest'
  proof -
    note pp = pb [unfolded published_def]
    have g: "grown ?t2 t' rest rest'" using pp by blast
    have nl: "next_pid ?t2 = ?q' + 1" by (simp add: t1)
    have same: "bt_nodes t' x = ?N2 x" if "x \<in> snd ` set ?up'" for x
      using grown_keeps_row [OF g nl qlt ch(3) pr(10,11) that] by simp
    have "seg (inter_node (Suc lvl)) (bt_nodes t') ?up' no_next"
      using ch(1) by (subst seg_cong [OF same]) simp_all
    moreover have "row_ents (bt_nodes t') ?up' = route_insert (key_bytes key) v row"
      using ents by (subst row_keys_cong [OF same]) simp_all
    moreover have "grown t t' (up # rest) (?up' # rest')"
      by (rule grown_above [OF g]) (use ch(3,4) pr(5,10,11) qlt nl in \<open>auto simp: next_pid_def same_index_def\<close>)
    ultimately show ?thesis using pp by (simp add: published_def)
  qed
  then show ?thesis by (intro that [OF run pend pr(5)]) blast
qed

lemma PublishSplit_ok:
  assumes "pending t lvl row rest key v" "p \<in> snd ` set row"
  shows "\<exists>t' rest'. PublishSplit t (word_of_nat lvl) p v key = Some (Inr t') \<and>
    published t t' lvl (route_insert (key_bytes key) v row) rest rest'"
  using assms
proof (induction rest arbitrary: t lvl row key v p)
  case Nil
  note pD = pendingD [OF Nil.prems(1)]
  have row: "row = [([], root_id t)]" and pr: "p = root_id t" using pD(1,8) Nil.prems(2) by auto
  have e: "tl_IsEmpty (bt_tl t)" using tl.empty_iff [OF pD(3)] pD(2) by (cases "tl_stack (bt_tl t)") auto
  have lv: "unat (word_of_nat lvl :: u8) = lvl" using pD(13) by (simp add: unat_of_nat)
  obtain d where d: "CreateNewRoot t (word_of_nat lvl) key p v = Inr ((with_page t ((bt_nodes t)(next_pid t := d)))\<lparr>root_id := next_pid t\<rparr>)"
    "inter_node (lvl + 1) d [] no_next" "inter_ents d = [([], p), (key_bytes key, v)]"
    using CreateNewRoot_ok [OF pD(4,5) pending_pid [OF Nil.prems(1)], of "word_of_nat lvl" p v] pD(13) lv by auto
  let ?t' = "(with_page t ((bt_nodes t)(next_pid t := d)))\<lparr>root_id := next_pid t\<rparr>" and ?q = "next_pid t"
  have ri: "route_insert (key_bytes key) v row = [([], p), (key_bytes key, v)]"
    using pD(6) by (auto simp: row pr route_insert_def Nil_less_iff)
  have "levels (bt_nodes ?t') lvl (route_insert (key_bytes key) v row) [[([], ?q)]]"
    using d(2,3) pD(12) next_pid_less(1) [OF pending_pid [OF Nil.prems(1)]] by (simp add: ri)
  moreover have np: "next_pid ?t' = ?q + 1" by (simp add: next_pid_def with_page_def next_of_def)
  moreover have "grown t ?t' [] [[([], ?q)]]"
    using next_pid_less(2) [OF pending_pid [OF Nil.prems(1)]] np by (auto simp: grown_def word_less_nat_alt word_le_nat_alt same_index_def)
  moreover have "tl_sane ?t'" using pD(3) by (simp add: tl_sane_def tl_ok_def)
  ultimately show ?case using d(1) e pr unfolding published_def
    by (intro exI [of _ ?t'] exI [of _ "[[([], ?q)]]"]) (simp add: PublishSplit_def)
next
  case (Cons up rest)
  note pD = pendingD [OF Cons.prems(1)]
  have "\<not> tl_IsEmpty (bt_tl t)" using tl.empty_iff [OF pD(3)] pD(2) by (cases "tl_stack (bt_tl t)") auto
  then have pub: "PublishSplit t (word_of_nat lvl) p v key = PropagateInsert t key v" by (simp add: PublishSplit_def)
  obtain xs low p' ys st where w: "up = xs @ (low, p') # ys" "low < key_bytes key" "below (key_bytes key) (fst (nxt ys no_next))"
    "inter_node (Suc lvl) (bt_nodes t p') low (nxt ys no_next)" "key_fits inter_fmt (bt_nodes t p') low (nxt ys no_next) key"
    and st: "tl_ok st" "path_ok low (tl_stack st) rest" and run: "PropagateInsert t key v = prop_page (t\<lparr>bt_tl := st\<rparr>) p' key v"
    by (rule pending_page [OF Cons.prems(1)])
  show ?case
  proof (cases "inter_HasSpace (bt_nodes t p') key = Inr True")
    case True
    from prop_page_space [OF Cons.prems(1) w st(1) True] show ?thesis unfolding pub run by blast
  next
    case False
    then have no: "inter_HasSpace (bt_nodes t p') key = Inr False" using inter_room [OF w(4,5)] by auto
    obtain t2 sent where s: "prop_page (t\<lparr>bt_tl := st\<rparr>) p' key v = PublishSplit t2 (word_of_nat (Suc lvl)) p' (next_pid t) sent"
      "pending t2 (Suc lvl) up rest sent (next_pid t)" "p' \<in> snd ` set up"
      and up': "\<forall>t' rest'. published t2 t' (Suc lvl) (route_insert (key_bytes sent) (next_pid t) up) rest rest' \<longrightarrow>
       published t t' lvl (route_insert (key_bytes key) v row) (up # rest) (route_insert (key_bytes sent) (next_pid t) up # rest')"
      by (rule prop_page_split [OF Cons.prems(1) w st no])
    from Cons.IH [OF s(2,3)] up' show ?thesis unfolding pub run s(1) by blast
  qed
qed

end
