(* ===== verification/BTreeOps.thy ===== *)
theory BTreeOps
  imports BTreeInsert
begin

text \<open>
  The operations of the B-link tree as operations on the sorted list of its keys.

  \<open>tree_ok\<close> is the invariant: the leaf row, the rows over it, a single root page on top, every page in one place.
  \<open>tree_keys\<close> is the abstraction, the keys of the leaves from left to right. An insertion is \<open>insort\<close>, a
  deletion removes the key, a lookup returns the identifiers of all entries with the searched prefix.
\<close>

section \<open>The invariant\<close>

definition tree_ok :: "BTreeIndex \<Rightarrow> row list \<Rightarrow> bool" where
  "tree_ok t rows \<longleftrightarrow>
     rows \<noteq> [] \<and> seg leaf_node (bt_nodes t) (hd rows) no_next \<and> levels (bt_nodes t) 0 (hd rows) (tl rows) \<and>
     last rows = [([], root_id t)] \<and> distinct (pids rows) \<and> (\<forall>p \<in> set (pids rows). p < next_pid t) \<and> next_pid t \<noteq> 0"

definition tree_keys :: "BTreeIndex \<Rightarrow> row list \<Rightarrow> u8 list list" where
  "tree_keys t rows = row_keys (page_keys leaf_fmt) (bt_nodes t) (hd rows)"

text \<open>No leaf has lost heap space to a deletion.\<close>

definition tree_tight :: "BTreeIndex \<Rightarrow> row list \<Rightarrow> bool" where
  "tree_tight t rows \<longleftrightarrow> (\<forall>p \<in> snd ` set (hd rows). page_tight leaf_fmt (bt_nodes t p))"

text \<open>What an insertion needs besides: pages left in the pool's numbering and stack slots for the descent.\<close>

definition tree_room :: "BTreeIndex \<Rightarrow> row list \<Rightarrow> bool" where
  "tree_room t rows \<longleftrightarrow> unat (next_pid t) + length rows < 80000 \<and> length rows \<le> 17"

lemma tree_okE:
  assumes "tree_ok t rows"
  obtains row rest where "rows = row # rest" "seg leaf_node (bt_nodes t) row no_next" "levels (bt_nodes t) 0 row rest"
    "last (row # rest) = [([], root_id t)]" "distinct (map snd row @ pids rest)" "\<forall>p \<in> set (map snd row @ pids rest). p < next_pid t"
    "next_pid t \<noteq> 0"
  using assms by (cases rows) (auto simp: tree_ok_def)

lemma btree_clear_simps [simp]:
  "bt_nodes (btree_clear t) = bt_nodes t" "root_id (btree_clear t) = root_id t" "bt_tbl (btree_clear t) = bt_tbl t"
  "next_pid (btree_clear t) = next_pid t" "tree_ok (btree_clear t) rows = tree_ok t rows"
  by (simp_all add: btree_clear_def next_pid_def tree_ok_def)

lemma btree_clear_tl: "tl_sane t \<Longrightarrow> tl_ok (bt_tl (btree_clear t)) \<and> tl_stack (bt_tl (btree_clear t)) = []"
  by (simp add: tl_sane_def btree_clear_def tl_Clear_def tl_ok_def tl_stack_def)

text \<open>The descent from the root.\<close>

lemma DropToLeaf_ok:
  assumes lf: "seg leaf_node (bt_nodes t) row no_next" and lv: "levels (bt_nodes t) 0 row rest"
    and la: "last (row # rest) = [([], root_id t)]" and k: "key_ok key" "klen key \<noteq> 0" and st: "tl_sane t" "length rest \<le> 16"
  obtains st l q where "DropToLeaf (btree_clear t) key = Some (Inr (t\<lparr>bt_tl := st\<rparr>, q))" "tl_ok st" "(l, q) \<in> set row"
    "l \<le> key_bytes key" "path_ok l (tl_stack st) rest"
proof -
  let ?c = "btree_clear t"
  have top: "(row # rest) ! length rest = [([], root_id t)]" using la last_conv_nth [of "row # rest"] by simp
  have "root_id t \<noteq> 0 \<and> root_id t \<noteq> UNDEFINED_PAGE"
  proof (cases rest)
    case Nil
    with top seg_page [OF lf] show ?thesis by force
  next
    case (Cons r rs)
    with top levels_nth [OF lv, of "length rs"] seg_page show ?thesis by fastforce
  qed
  moreover have "path_ok [] (tl_stack (bt_tl ?c)) (drop (length rest) rest)" using btree_clear_tl [OF st(1)] by simp
  ultimately obtain st l q where "drop_loop (bt_nodes t) (bt_tl ?c) (root_id t) key = Some (Inr (st, q))"
    and r: "tl_ok st" "(l, q) \<in> set row" "l \<le> key_bytes key" "path_ok l (tl_stack st) rest" and g: "GetNode (root_id t) = Inr (root_id t)"
    using descend [OF lv lf k, of "length rest" "[]" "root_id t" "bt_tl ?c"] btree_clear_tl [OF st(1)] top st(2)
    by (auto simp: GetNode_def)
  then have "DropToLeaf ?c key = Some (Inr (t\<lparr>bt_tl := st\<rparr>, q))" by (simp add: DropToLeaf_def btree_clear_def)
  from that [OF this r] show ?thesis .
qed

section \<open>Insertion into a leaf\<close>

text \<open>The page of the leaf row that covers the key, with the stack of the pages above it.\<close>

definition at_leaf :: "BTreeIndex \<Rightarrow> row \<Rightarrow> row list \<Rightarrow> row \<Rightarrow> u8 list \<Rightarrow> page_id \<Rightarrow> row \<Rightarrow> Key \<Rightarrow> bool" where
  "at_leaf t row rest xs low p ys key \<longleftrightarrow>
     tree_ok t (row # rest) \<and> row = xs @ (low, p) # ys \<and> low \<le> key_bytes key \<and>
     below (key_bytes key) (fst (nxt ys no_next)) \<and> tl_ok (bt_tl t) \<and> path_ok low (tl_stack (bt_tl t)) rest \<and>
     key_ok key \<and> key_size_ok (key_bytes key) \<and> key_bytes key \<notin> set (tree_keys t (row # rest)) \<and>
     tree_tight t (row # rest) \<and> unat (next_pid t) + length (row # rest) < 80000 \<and> length rest \<le> 16"

lemma at_leafD:
  assumes "at_leaf t row rest xs low p ys key"
  shows "seg leaf_node (bt_nodes t) (xs @ (low, p) # ys) no_next" "levels (bt_nodes t) 0 row rest"
    "last (row # rest) = [([], root_id t)]" "distinct (map snd (xs @ (low, p) # ys))" "distinct (map snd row @ pids rest)"
    "\<forall>x \<in> set (map snd row @ pids rest). x < next_pid t" "next_pid t \<noteq> 0" "low \<le> key_bytes key"
    "below (key_bytes key) (fst (nxt ys no_next))" "leaf_node (bt_nodes t p) low (nxt ys no_next)"
    "page_tight leaf_fmt (bt_nodes t p)" "key_fits leaf_fmt (bt_nodes t p) low (nxt ys no_next) key"
    "next_pid t < MAX_POOL_PAGES" "p \<in> snd ` set row" "p < next_pid t" "p \<notin> set (pids rest)"
proof -
  note a = assms [unfolded at_leaf_def]
  from a have "tree_ok t (row # rest)" by blast
  then have t: "seg leaf_node (bt_nodes t) row no_next" "levels (bt_nodes t) 0 row rest"
    "last (row # rest) = [([], root_id t)]" "distinct (map snd row @ pids rest)" "\<forall>x \<in> set (map snd row @ pids rest). x < next_pid t"
    "next_pid t \<noteq> 0" by (simp_all add: tree_ok_def)
  have row: "row = xs @ (low, p) # ys" using a by blast
  show sg: "seg leaf_node (bt_nodes t) (xs @ (low, p) # ys) no_next" using t(1) by (simp add: row)
  show "distinct (map snd (xs @ (low, p) # ys))" using t(4) by (auto simp: row)
  show n: "leaf_node (bt_nodes t p) low (nxt ys no_next)" using sg by (simp add: seg_append)
  show "page_tight leaf_fmt (bt_nodes t p)" using a by (simp add: tree_tight_def row)
  have "key_bytes key \<notin> set (page_keys leaf_fmt (bt_nodes t p))" using a by (simp add: tree_keys_def row)
  with a show "key_fits leaf_fmt (bt_nodes t p) low (nxt ys no_next) key" unfolding key_fits_def by blast
  show "next_pid t < MAX_POOL_PAGES" using a by (simp add: MAX_POOL_PAGES_def word_less_nat_alt)
  show "p \<in> snd ` set row" "p < next_pid t" "p \<notin> set (pids rest)" using t(4,5) by (auto simp: row)
  show "levels (bt_nodes t) 0 row rest" "last (row # rest) = [([], root_id t)]" "distinct (map snd row @ pids rest)"
    "\<forall>x \<in> set (map snd row @ pids rest). x < next_pid t" "next_pid t \<noteq> 0" by (rule t)+
  show "low \<le> key_bytes key" "below (key_bytes key) (fst (nxt ys no_next))" using a by blast+
qed

lemma leaf_row_keys:
  assumes "at_leaf t row rest xs low p ys key"
  shows "row_keys (page_keys leaf_fmt) (bt_nodes t) xs @ insort (key_bytes key) (page_keys leaf_fmt (bt_nodes t p)) @
    row_keys (page_keys leaf_fmt) (bt_nodes t) ys = insort (key_bytes key) (tree_keys t (row # rest))"
proof -
  note aD = at_leafD [OF assms]
  have row: "row = xs @ (low, p) # ys" using assms by (simp add: at_leaf_def)
  note a = leaf_walk.around [OF aD(1,8,9)]
  have "x < key_bytes key" if "x \<in> set (row_keys (page_keys leaf_fmt) (bt_nodes t) xs)" for x
    using a(1) [OF that] aD(8) by simp
  with a(2) show ?thesis by (simp add: tree_keys_def row insort_mid)
qed

text \<open>A tree with one key more. It serves the same index, has at most one level more, and its new lower bounds are keys.\<close>

definition tree_inserted :: "BTreeIndex \<Rightarrow> row list \<Rightarrow> u8 list \<Rightarrow> BTreeIndex \<Rightarrow> row list \<Rightarrow> bool" where
  "tree_inserted t rows k t' rows' \<longleftrightarrow>
     tree_ok t' rows' \<and> tree_tight t' rows' \<and> tl_sane t' \<and> tree_keys t' rows' = insort k (tree_keys t rows) \<and>
     same_index t t' \<and> length rows' \<le> length rows + 1 \<and> fst ` set (hd rows') \<subseteq> fst ` set (hd rows) \<union> set (tree_keys t' rows')"

lemma insert_leaf_space:
  assumes al: "at_leaf t row rest xs low p ys key" and sp: "leaf_HasSpace (bt_nodes t p) key = Inr True"
  shows "\<exists>t'. insert_into_leaf t p key = Some (Inr t') \<and> tree_inserted t (row # rest) (key_bytes key) t' (row # rest) \<and>
    next_pid t' = next_pid t"
proof -
  note aD = at_leafD [OF al]
  have row: "row = xs @ (low, p) # ys" using al by (simp add: at_leaf_def)
  obtain d where d: "leaf_Insert (bt_nodes t p) key = Inr d" "leaf_node d low (nxt ys no_next)" "page_tight leaf_fmt d"
    "page_keys leaf_fmt d = insort (key_bytes key) (page_keys leaf_fmt (bt_nodes t p))"
    using leaf_insert_node [OF aD(10-12) sp] by blast
  let ?t' = "set_node t p d"
  note ch = leaf_walk.row_changed [OF aD(1,4) d(2), folded row]
  have np: "next_pid ?t' = next_pid t" by (simp add: next_pid_def set_node_def)
  have "levels ((bt_nodes t)(p := d)) 0 row rest" using aD(2,16) by (subst levels_cong) auto
  then have "tree_ok ?t' (row # rest)"
    using ch(1) aD(3,5-7) np unfolding tree_ok_def by (simp add: set_node_def)
  moreover have "tree_tight ?t' (row # rest)"
    using al d(3) by (auto simp: tree_tight_def set_node_def at_leaf_def)
  moreover have "tree_keys ?t' (row # rest) = insort (key_bytes key) (tree_keys t (row # rest))"
    using ch(2) [of "page_keys leaf_fmt"] leaf_row_keys [OF al] by (simp add: tree_keys_def set_node_def d(4))
  moreover have "insert_into_leaf t p key = Some (Inr ?t')" using sp d(1) by (simp add: insert_into_leaf_def)
  moreover have "tl_sane ?t'" using al by (simp add: tl_sane_def tl_ok_def set_node_def at_leaf_def)
  moreover have "same_index t ?t'" by (simp add: same_index_def set_node_def)
  ultimately show ?thesis using np unfolding tree_inserted_def by simp
qed

text \<open>The halves of a leaf, published in the levels above, give the tree with the new key.\<close>

lemma split_leaf_published:
  assumes al: "at_leaf t row rest xs low p ys key"
    and nd: "leaf_halves (bt_nodes t p) low (nxt ys no_next) key (next_pid t) l r sent"
  defines "t2 \<equiv> with_page t ((bt_nodes t)(p := l, next_pid t := r))"
    and "row' \<equiv> route_insert (key_bytes sent) (next_pid t) row"
  assumes pb: "published t2 t' 0 row' rest rest'"
  shows "tree_inserted t (row # rest) (key_bytes key) t' (row' # rest')"
proof -
  note aD = at_leafD [OF al] and pp = pb [unfolded published_def] and lh = nd [unfolded leaf_halves_def]
  have row: "row = xs @ (low, p) # ys" using al by (simp add: at_leaf_def)
  have g: "grown t2 t' rest rest'" using pp by blast
  have nodes2: "bt_nodes t2 = (bt_nodes t)(p := l, next_pid t := r)" "next_pid t2 = next_pid t + 1" by (simp_all add: t2_def)
  have pq: "p \<noteq> next_pid t" and q: "next_pid t \<notin> snd ` set (xs @ (low, p) # ys)" using aD(6) by (auto simp: row)
  note ch = leaf_walk.row_split [OF aD(1,4) q aD(7) next_pid_less(1) [OF aD(13)], of l "key_bytes sent" r, folded row nodes2 row'_def]
  have c: "seg leaf_node (bt_nodes t2) row' no_next" "set row' = insert (key_bytes sent, next_pid t) (set row)" "distinct (map snd row')"
    using ch(1,3,4) lh by blast+
  have keys: "row_keys (page_keys leaf_fmt) (bt_nodes t2) row' = insort (key_bytes key) (tree_keys t (row # rest))"
    using ch(2) [of "page_keys leaf_fmt"] lh leaf_row_keys [OF al] by simp
  have gt: "grown t t' (row # rest) (row' # rest')"
    by (rule grown_above [OF g]) (use c(2,3) aD(5,6,13,14) nodes2 in \<open>auto simp: same_index_def t2_def\<close>)
  have same: "bt_nodes t' x = bt_nodes t2 x" if "x \<in> snd ` set row'" for x
    by (rule grown_keeps_row [OF g nodes2(2) aD(13) c(2) aD(5,6) that])
  have kc: "row_keys (page_keys leaf_fmt) (bt_nodes t') row' = row_keys (page_keys leaf_fmt) (bt_nodes t2) row'" by (rule row_keys_cong) (rule same)
  have "seg leaf_node (bt_nodes t') row' no_next" using c(1) by (subst seg_cong [OF same]) simp_all
  moreover have tk: "tree_keys t' (row' # rest') = insort (key_bytes key) (tree_keys t (row # rest))"
    using kc keys by (simp add: tree_keys_def)
  moreover have "\<forall>x \<in> set (pids (row' # rest')). x < next_pid t'" "next_pid t' \<noteq> 0"
    using grown_less [OF gt] aD(6,7) by simp_all
  moreover have "tree_tight t' (row' # rest')"
    using same al lh pq unfolding tree_tight_def list.sel c(2) by (auto simp: at_leaf_def tree_tight_def nodes2(1))
  moreover have "key_bytes sent \<in> set (tree_keys t' (row' # rest'))"
    unfolding tk using lh by (simp add: set_insort_key tree_keys_def row)
  then have "fst ` set row' \<subseteq> fst ` set row \<union> set (tree_keys t' (row' # rest'))" by (auto simp: c(2))
  ultimately show ?thesis
    using pp gt unfolding tree_inserted_def tree_ok_def by (auto simp: grown_def)
qed

lemma insert_leaf_split:
  assumes al: "at_leaf t row rest xs low p ys key" and sp: "leaf_HasSpace (bt_nodes t p) key = Inr False"
  shows "\<exists>t' rows'. insert_into_leaf t p key = Some (Inr t') \<and> tree_inserted t (row # rest) (key_bytes key) t' rows'"
proof -
  let ?N = "bt_nodes t" and ?q' = "next_pid t"
  note aD = at_leafD [OF al] and qlt = at_leafD(13) [OF al]
  have row: "row = xs @ (low, p) # ys" using al by (simp add: at_leaf_def)
  have pq: "p \<noteq> ?q'" using aD(15) by simp
  have cnt: "2 \<le> unat (GetCount (?N p))" using leaf_room [OF aD(10-12)] sp by auto
  obtain l r sent where spl: "SplitLeaf t p key = Inr (with_page t (?N(p := l, ?q' := r)), ?q', sent)"
    and nd: "leaf_halves (?N p) low (nxt ys no_next) key ?q' l r sent"
    using SplitLeaf_ok [OF aD(10-12) cnt qlt pq] by blast
  note lh = nd [unfolded leaf_halves_def]
  let ?N2 = "?N(p := l, ?q' := r)"
  have q': "?q' \<notin> snd ` set (xs @ (low, p) # ys)" "?q' \<notin> set (pids rest)" using aD(6) by (auto simp: row)
  have "key_bytes sent \<notin> fst ` set row"
    using leaf_walk.row_split(5) [OF aD(1,4) q'(1) aD(7) next_pid_less(1) [OF qlt], of l "key_bytes sent" r] lh by (simp add: row)
  moreover have "levels ?N2 0 row rest" using aD(2,16) q'(2) by (subst levels_cong) auto
  ultimately have pend: "pending (with_page t ?N2) 0 row rest sent ?q'"
    using al lh aD(3,5-7) by (intro split_pending [of low]) (auto simp: at_leaf_def)
  obtain t' rest' where t': "PublishSplit (with_page t ?N2) (word_of_nat 0) p ?q' sent = Some (Inr t')"
    "published (with_page t ?N2) t' 0 (route_insert (key_bytes sent) ?q' row) rest rest'"
    using PublishSplit_ok [OF pend aD(14)] by blast
  have "GetLevel (?N2 p) = 0" using node_links(5) [OF lh [THEN conjunct1]] pq by (simp add: unat_eq_zero)
  then have "insert_into_leaf t p key = Some (Inr t')"
    using sp spl t'(1) by (simp add: insert_into_leaf_def)
  with split_leaf_published [OF al nd t'(2)] show ?thesis by blast
qed

lemma insert_into_leaf_ok:
  assumes "at_leaf t row rest xs low p ys key"
  shows "\<exists>t' rows'. insert_into_leaf t p key = Some (Inr t') \<and> tree_inserted t (row # rest) (key_bytes key) t' rows'"
proof -
  note aD = at_leafD [OF assms]
  obtain b where "leaf_HasSpace (bt_nodes t p) key = Inr b" using leaf_room [OF aD(10-12)] by blast
  with insert_leaf_space [OF assms] insert_leaf_split [OF assms] show ?thesis by (cases b) (simp_all, blast+)
qed

text \<open>Descending and walking right to the covering leaf.\<close>

lemma reach_leaf:
  assumes ok: "tree_ok t rows" and room: "length rows \<le> 17" and st: "tl_sane t" and k: "key_ok key" "klen key \<noteq> 0"
  obtains row rest st q l where "rows = row # rest" "DropToLeaf (btree_clear t) key = Some (Inr (t\<lparr>bt_tl := st\<rparr>, q))" "tl_ok st"
    "(l, q) \<in> set row" "l \<le> key_bytes key" "path_ok l (tl_stack st) rest" "seg leaf_node (bt_nodes t) row no_next"
proof -
  from ok obtain row rest where r: "rows = row # rest" "seg leaf_node (bt_nodes t) row no_next" "levels (bt_nodes t) 0 row rest"
    "last (row # rest) = [([], root_id t)]" by (rule tree_okE)
  have "length rest \<le> 16" using room r(1) by simp
  from DropToLeaf_ok [OF r(2-4) k st this] r(1,2) that show ?thesis by metis
qed

lemma reach_insert:
  assumes "tree_ok t rows" "tree_tight t rows" "tree_room t rows" "tl_sane t" "key_ok key" "key_size_ok (key_bytes key)"
    and "key_bytes key \<notin> set (tree_keys t rows)"
  obtains row rest xs low p ys st q where "rows = row # rest" "DropToLeaf (btree_clear t) key = Some (Inr (t\<lparr>bt_tl := st\<rparr>, q))"
    "GoRightLeaf (bt_nodes t) q key = Some (Inr p)" "at_leaf (t\<lparr>bt_tl := st\<rparr>) row rest xs low p ys key"
proof -
  have kn: "klen key \<noteq> 0" using key_size_klen [OF assms(5,6)] by simp
  have len: "length rows \<le> 17" using assms(3) by (simp add: tree_room_def)
  obtain row rest st q l where r: "rows = row # rest" "DropToLeaf (btree_clear t) key = Some (Inr (t\<lparr>bt_tl := st\<rparr>, q))" "tl_ok st"
    "(l, q) \<in> set row" "l \<le> key_bytes key" "path_ok l (tl_stack st) rest" "seg leaf_node (bt_nodes t) row no_next"
    by (rule reach_leaf [OF assms(1) len assms(4,5) kn])
  from leaf_walk.walk_row [OF r(7,4,5) assms(5) kn] obtain xs low p ys where w: "row = xs @ (low, p) # ys"
    "GoRightLeaf (bt_nodes t) q key = Some (Inr p)" "l \<le> low" "low \<le> key_bytes key" "below (key_bytes key) (fst (nxt ys no_next))"
    by metis
  have np: "next_pid (t\<lparr>bt_tl := st\<rparr>) = next_pid t" by (simp add: next_pid_def)
  have "tree_ok (t\<lparr>bt_tl := st\<rparr>) rows" using assms(1) np by (simp add: tree_ok_def)
  moreover have "tree_keys (t\<lparr>bt_tl := st\<rparr>) rows = tree_keys t rows" "tree_tight (t\<lparr>bt_tl := st\<rparr>) rows"
    using assms(2) by (simp_all add: tree_keys_def tree_tight_def)
  ultimately have "at_leaf (t\<lparr>bt_tl := st\<rparr>) row rest xs low p ys key"
    unfolding at_leaf_def using w r(1,3) path_ok_mono [OF r(6) w(3)] assms(3,5-7) np by (simp add: tree_room_def)
  from that [OF r(1,2) w(2) this] show ?thesis .
qed

lemma InsertKey_inserted:
  assumes "tree_ok t rows" "tree_tight t rows" "tree_room t rows" "tl_sane t" "key_ok key" "key_size_ok (key_bytes key)"
    and "key_bytes key \<notin> set (tree_keys t rows)"
  shows "\<exists>t' rows'. BTree_InsertKey t key = Some (Inr t') \<and> tree_inserted t rows (key_bytes key) t' rows'"
proof -
  obtain row rest xs low p ys st q where r: "rows = row # rest" "DropToLeaf (btree_clear t) key = Some (Inr (t\<lparr>bt_tl := st\<rparr>, q))"
    "GoRightLeaf (bt_nodes t) q key = Some (Inr p)" "at_leaf (t\<lparr>bt_tl := st\<rparr>) row rest xs low p ys key"
    by (rule reach_insert [OF assms])
  from insert_into_leaf_ok [OF r(4)] obtain t' rows' where "insert_into_leaf (t\<lparr>bt_tl := st\<rparr>) p key = Some (Inr t')"
    "tree_inserted (t\<lparr>bt_tl := st\<rparr>) rows (key_bytes key) t' rows'" unfolding r(1) by blast
  with r(2,3) show ?thesis
    by (auto simp: BTree_InsertKey_def InsertInternal_def tree_inserted_def tree_keys_def same_index_def)
qed

section \<open>A new tree\<close>

lemma BTreeIndex_new_ok:
  assumes "next_of fsm tbl < MAX_POOL_PAGES" "next_of fsm tbl \<noteq> 0" "length (state_buf st) = 16"
  shows "\<exists>t. BTreeIndex_new True fsm nodes st tbl heap_tbl attrs = Inr t \<and> tree_ok t [[([], root_id t)]] \<and>
    tree_tight t [[([], root_id t)]] \<and> tree_keys t [[([], root_id t)]] = [] \<and> tl_sane t \<and>
    unat (next_pid t) = unat (next_of fsm tbl) + 1 \<and> bt_attrs t = attrs"
proof -
  define t0 where "t0 = \<lparr>root_id = 0, bt_tbl = tbl, bt_heap_tbl = heap_tbl, bt_attrs = attrs, bt_nodes = nodes, bt_fsm = fsm, bt_tl = st\<rparr>"
  have np: "next_pid t0 = next_of fsm tbl" by (simp add: t0_def next_pid_def)
  let ?p = "next_of fsm tbl" and ?d = "InitHeader (\<lambda>_. 0) 0 0 (next_of fsm tbl)"
  let ?t = "(with_page t0 (nodes(?p := ?d)))\<lparr>root_id := ?p\<rparr>"
  have "BTreeIndex_new True fsm nodes st tbl heap_tbl attrs = Inr ?t"
    using assms(1) ReserveNode_ok [of t0] np unfolding BTreeIndex_new_def t0_def [symmetric] by (simp add: t0_def)
  moreover have n: "next_pid ?t = ?p + 1" by (simp add: np next_pid_def with_page_def next_of_def t0_def)
  moreover have u: "unat (?p + 1) = unat ?p + 1" "?p \<noteq> UNDEFINED_PAGE" using next_pid_less [of t0] assms(1) np by auto
  moreover have "leaf_node ?d [] no_next" "page_tight leaf_fmt ?d" "page_keys leaf_fmt ?d = []"
    using leaf_empty [of "\<lambda>_. 0" 0 ?p]
    by (simp_all add: leaf_node_def node_ok_def no_next_def keys_sorted_def page_tight_def leaf_page_ents InitHeader_fields
        page_fence_def inter_empty SlottedPage.DB7_PAGE_SIZE_def)
  moreover have "bt_attrs ?t = attrs" by (simp add: with_page_def t0_def)
  moreover have "?p < ?p + 1" "?p + 1 \<noteq> 0" using u(1) by (auto simp: word_less_nat_alt simp flip: unat_eq_zero)
  ultimately show ?thesis using assms(2,3)
    by (intro exI [of _ ?t]) (simp add: tree_ok_def tree_tight_def tree_keys_def tl_sane_def t0_def)
qed

end
