(* ===== verification/BTreeSearch.thy ===== *)
theory BTreeSearch
  imports BTreeOps
begin

text \<open>
  Lookup, unique insertion and deletion of the B-link tree.

  The entries of a key, which differ in their tuple ids only, are a block of the leaf keys that may run over
  several pages. Lookup and the uniqueness check walk this block; the lemmas need that no key is a proper
  prefix of another, which holds for the encodings of one list of columns.
\<close>

section \<open>The block of a key\<close>

text \<open>The keys of the leaves and the lower bounds of the pages, without their identifiers.\<close>

definition row_prefixes :: "(page_id \<Rightarrow> mem) \<Rightarrow> row \<Rightarrow> u8 list set" where
  "row_prefixes N r = tid_prefix ` (set (row_keys (page_keys leaf_fmt) N r) \<union> (fst ` set r - {[]}))"

lemma leaf_node_keys:
  assumes "leaf_node d low nx"
  shows "sorted_wrt (<) (page_keys leaf_fmt d)" "k \<in> set (page_keys leaf_fmt d) \<Longrightarrow> 8 \<le> length k"
    "page_fence leaf_fmt d = fst nx" "page_fence leaf_fmt d = Some f \<Longrightarrow> 8 \<le> length f"
proof -
  have n: "node_ok leaf_fmt d 0 low nx" and sz: "\<forall>k \<in> set (page_keys leaf_fmt d). key_size_ok k"
    using assms by (simp_all add: leaf_node_def)
  show "sorted_wrt (<) (page_keys leaf_fmt d)" using node_okD(2) [OF n] by (simp add: leaf_keys_sorted)
  show "page_fence leaf_fmt d = fst nx" by (rule node_okD(4) [OF n])
  show "8 \<le> length k" if "k \<in> set (page_keys leaf_fmt d)" using sz that by (force simp: key_size_ok_def)
  show "8 \<le> length f" if "page_fence leaf_fmt d = Some f"
    using node_okD(4) [OF n] node_okD(7) [OF n, of f] that by (simp add: key_size_ok_def)
qed

lemma leaf_row_length:
  assumes "seg leaf_node N r nx" "k \<in> set (row_keys (page_keys leaf_fmt) N r)"
  shows "8 \<le> length k"
proof -
  obtain l p where "(l, p) \<in> set r" "k \<in> set (page_keys leaf_fmt (N p))" using assms(2) by (auto simp: row_keys_def)
  with seg_page [OF assms(1)] leaf_node_keys(2) show ?thesis by blast
qed

lemma prefix_free_sub: "prefix_free S \<Longrightarrow> T \<subseteq> S \<Longrightarrow> prefix_free T"
  unfolding prefix_free_def by blast

lemma node_searchable:
  assumes "leaf_node d low nx" "prefix_free (insert b S)" "length b < DB7_MAX_ROW_SIZE"
    "tid_prefix ` set (page_keys leaf_fmt d) \<subseteq> S"
  shows "searchable d b"
proof -
  have "prefix_free (insert b (tid_prefix ` set (page_keys leaf_fmt d)))"
    by (rule prefix_free_sub [OF assms(2)]) (use assms(4) in blast)
  then show ?thesis unfolding searchable_def using leaf_node_keys [OF assms(1)] assms(3) by blast
qed

text \<open>Around the first possible entry of the searched key.\<close>

lemma start_le:
  assumes "tid_prefix k = b" "8 \<le> length k"
  shows "b @ replicate 8 0 \<le> k"
proof -
  have "replicate 8 0 \<le> drop (length k - 8) k" using assms(2) by (intro replicate_0_least) simp
  then have "b @ replicate 8 0 \<le> tid_prefix k @ drop (length k - 8) k"
    using append_less_mono [of b] assms(1) by (auto simp: le_less)
  then show ?thesis by (simp add: tid_prefix_append assms(2))
qed

lemma tid_prefix_snoc: "length ts = 8 \<Longrightarrow> tid_prefix (b @ ts) = b"
  by (simp add: tid_prefix_def sizeof_ValTyp_def)

lemma past_block:
  assumes pf: "prefix_free (insert b S)" "tid_prefix f \<in> S" "tid_prefix k \<in> S" and len: "8 \<le> length f" "8 \<le> length k" "length ts = 8"
    and f: "b @ ts < f" "tid_prefix f \<noteq> b" and k: "f \<le> k"
  shows "tid_prefix k \<noteq> b"
proof -
  have "b \<le> tid_prefix f"
    using prefix_order [OF pf(1), of "b @ ts" f] pf(2) len f(1) by (simp add: tid_prefix_snoc)
  then have "b < tid_prefix f" using f(2) by simp
  moreover have "tid_prefix f \<le> tid_prefix k"
    using prefix_order [OF pf(1), of f k] pf(2,3) len k by (cases "f = k") auto
  ultimately show ?thesis by auto
qed

text \<open>Past the lower bound of a page the key is covered by this page or lies before it.\<close>

lemma next_fence:
  assumes "seg leaf_node N ((f, q) # r) no_next" "k < f"
  shows "below k (fst (nxt r no_next))"
proof (cases r)
  case (Cons a r')
  then have "f < fst a" using assms(1) leaf_walk.bounds [of "N q" f "fst a" "snd a"] by (cases a) simp
  with assms(2) show ?thesis using Cons by (cases a) simp
qed (simp add: no_next_def)

section \<open>Lookup\<close>

context link_walk
begin

lemma covered: "P (N p) low nx \<Longrightarrow> below (key_bytes key) (fst nx) \<Longrightarrow> key_ok key \<Longrightarrow> klen key \<noteq> 0 \<Longrightarrow> go c N key p = fin c N key p"
  using go_step [of N p low nx c key] split_iff [of "N p" low nx key] by simp

end

text \<open>What a lookup does on the page that covers the key.\<close>

definition get_page :: "u64 list \<Rightarrow> (page_id \<Rightarrow> mem) \<Rightarrow> Key \<Rightarrow> page_id \<Rightarrow> u64 list res option" where
  "get_page res N key p = obind (Some (leaf_Get (N p) (unat (GetCount (N p))) key \<lparr>vec = [], proceed = False\<rparr>)) (\<lambda>tmp.
      let results' = res @ vec tmp
      in if proceed tmp
         then let q = GetRLink (N p)
              in if q = UNDEFINED_PAGE then Some (Inr results')
                 else obind (Some (GetNode q)) (\<lambda>q. InternalGet N q key results')
         else Some (Inr results'))"

interpretation get_walk: link_walk leaf_node "page_keys leaf_fmt" "\<lambda>res N key p. InternalGet N p key res" get_page leaf_HasSplit
  by unfold_locales (rule leaf_HasSplit_ok node_links node_key_bounds InternalGet.simps [folded get_page_def]; assumption)+

text \<open>Past the block: the pages behind a fence of another prefix hold no entry of the block.\<close>

lemma past_block_row:
  assumes "seg leaf_node N ((f, q) # r) no_next" "row_prefixes N ((f, q) # r) \<subseteq> S" "tid_prefix f \<in> S" "8 \<le> length f"
    and "prefix_free (insert b S)" "b @ replicate 8 0 < f" "tid_prefix f \<noteq> b"
    and "k \<in> set (row_keys (page_keys leaf_fmt) N ((f, q) # r))"
  shows "tid_prefix k \<noteq> b"
proof -
  have "f \<le> k" using leaf_walk.seg_keys_ge [OF assms(1,8)] by simp
  moreover have "8 \<le> length k" "tid_prefix k \<in> S"
    using assms(2,8) leaf_row_length [OF assms(1,8)] unfolding row_prefixes_def by blast+
  ultimately show ?thesis
    using assms(6) by (intro past_block [OF assms(5,3) _ assms(4) _ _ _ assms(7), of k "replicate 8 0"]) simp_all
qed

lemma Get_block:
  assumes "seg leaf_node N ((low, q) # r) no_next" "below (key_bytes key) (fst (nxt r no_next))"
    and "key_ok key" "klen key \<noteq> 0" "key_bytes key = b @ replicate 8 0" "length b < DB7_MAX_ROW_SIZE"
    and "prefix_free (insert b S)" "row_prefixes N ((low, q) # r) \<subseteq> S"
  shows "InternalGet N q key res = Some (Inr (res @ map tid_of (filter (\<lambda>k. tid_prefix k = b) (row_keys (page_keys leaf_fmt) N ((low, q) # r)))))"
  using assms(1,2,8)
proof (induction r arbitrary: low q res)
  case Nil
  have n: "leaf_node (N q) low (None, UNDEFINED_PAGE)" using Nil.prems(1) by (simp add: no_next_def)
  have "tid_prefix ` set (page_keys leaf_fmt (N q)) \<subseteq> S" using Nil.prems(3) by (auto simp: row_prefixes_def)
  note sr = node_searchable [OF n assms(7,6) this]
  have "leaf_Get (N q) (unat (GetCount (N q))) key \<lparr>vec = [], proceed = False\<rparr> =
      Inr \<lparr>vec = map tid_of (filter (\<lambda>k. tid_prefix k = b) (page_keys leaf_fmt (N q))), proceed = False\<rparr>"
    using leaf_Get_block [OF sr assms(3-5)] leaf_node_keys(3) [OF n] by simp
  then show ?case
    using leaf_HasSplit_ok [OF n assms(3,4)] by (subst InternalGet.simps) (simp add: Let_def)
next
  case (Cons a r)
  obtain f q' where a: "a = (f, q')" by (cases a)
  let ?ks = "filter (\<lambda>k. tid_prefix k = b) (page_keys leaf_fmt (N q))"
  have n: "leaf_node (N q) low (Some f, q')" and sg: "seg leaf_node N ((f, q') # r) no_next" and q': "q' \<noteq> 0" "q' \<noteq> UNDEFINED_PAGE"
    using Cons.prems(1) by (simp_all add: a)
  have kf: "key_bytes key < f" using Cons.prems(2) by (simp add: a)
  have lf: "8 \<le> length f" using leaf_node_keys(3,4) [OF n] by simp
  have "f \<noteq> []" using lf by auto
  then have fS: "tid_prefix f \<in> S" and sub: "row_prefixes N ((f, q') # r) \<subseteq> S" and sub1: "tid_prefix ` set (page_keys leaf_fmt (N q)) \<subseteq> S"
    using Cons.prems(3) by (auto simp: row_prefixes_def a)
  note sr = node_searchable [OF n assms(7,6) sub1]
  have get: "leaf_Get (N q) (unat (GetCount (N q))) key \<lparr>vec = [], proceed = False\<rparr> = Inr \<lparr>vec = map tid_of ?ks, proceed = (tid_prefix f = b)\<rparr>"
    using leaf_Get_block [OF sr assms(3-5)] leaf_node_keys(3) [OF n] by simp
  have step: "InternalGet N q key res = (if tid_prefix f = b then InternalGet N q' key (res @ map tid_of ?ks) else Some (Inr (res @ map tid_of ?ks)))"
    using leaf_HasSplit_ok [OF n assms(3,4)] kf get q' node_links(1) [OF n]
    by (subst InternalGet.simps) (simp add: Let_def GetNode_def)
  show ?case
  proof (cases "tid_prefix f = b")
    case True
    from Cons.IH [OF sg next_fence [OF sg kf] sub, of "res @ map tid_of ?ks"] True step show ?thesis by (simp add: a)
  next
    case False
    have "filter (\<lambda>k. tid_prefix k = b) (row_keys (page_keys leaf_fmt) N ((f, q') # r)) = []"
      using past_block_row [OF sg sub fS lf assms(7) _ False] kf assms(5) by (simp add: filter_empty_conv)
    with step False show ?thesis by (simp add: a)
  qed
qed

text \<open>The pages left of the covering one hold no entry of the key.\<close>

lemma before_block:
  assumes "seg leaf_node N (xs @ (low, p) # ys) no_next" "low \<le> b @ replicate 8 0" "below (b @ replicate 8 0) (fst (nxt ys no_next))"
    and "k \<in> set (row_keys (page_keys leaf_fmt) N xs)"
  shows "tid_prefix k \<noteq> b"
proof
  assume "tid_prefix k = b"
  moreover have "8 \<le> length k" using leaf_row_length [OF assms(1), of k] assms(4) by simp
  ultimately have "b @ replicate 8 0 \<le> k" by (metis start_le)
  moreover have "k < low" by (rule leaf_walk.around(1) [OF assms])
  ultimately show False using assms(2) by simp
qed

text \<open>Every entry of the searched key, over the whole leaf row.\<close>

lemma Get_all:
  assumes "tree_ok t rows" "length rows \<le> 17" "tl_sane t" "key_ok key" "klen key \<noteq> 0" "key_bytes key = b @ replicate 8 0"
    and "length b < DB7_MAX_ROW_SIZE" "prefix_free (insert b (row_prefixes (bt_nodes t) (hd rows)))"
  shows "\<exists>st. BTree_GetKey t key = Some (Inr (t\<lparr>bt_tl := st\<rparr>, map tid_of (filter (\<lambda>k. tid_prefix k = b) (tree_keys t rows)))) \<and> tl_ok st"
proof -
  let ?K = "row_keys (page_keys leaf_fmt) (bt_nodes t)"
  obtain row rest st q l where r: "rows = row # rest" "DropToLeaf (btree_clear t) key = Some (Inr (t\<lparr>bt_tl := st\<rparr>, q))" "tl_ok st"
    "(l, q) \<in> set row" "l \<le> key_bytes key" "path_ok l (tl_stack st) rest" "seg leaf_node (bt_nodes t) row no_next"
    by (rule reach_leaf [OF assms(1-5)])
  obtain xs low p ys where w: "row = xs @ (low, p) # ys" "low \<le> key_bytes key" "below (key_bytes key) (fst (nxt ys no_next))"
    and go: "InternalGet (bt_nodes t) q key [] = InternalGet (bt_nodes t) p key []"
  proof -
    obtain xs low p ys where w: "row = xs @ (low, p) # ys" "InternalGet (bt_nodes t) q key [] = get_page [] (bt_nodes t) key p" "l \<le> low"
      "low \<le> key_bytes key" "below (key_bytes key) (fst (nxt ys no_next))"
      by (rule get_walk.walk_row [OF r(7,4,5) assms(4,5), of "[]"])
    have "leaf_node (bt_nodes t p) low (nxt ys no_next)" using r(7) by (simp add: w(1) seg_append)
    from get_walk.covered [where N = "bt_nodes t" and c = "[]", OF this w(5) assms(4,5)] w(2) that [OF w(1,4,5)] show ?thesis by simp
  qed
  have sg: "seg leaf_node (bt_nodes t) ((low, p) # ys) no_next" using r(7) by (simp add: w(1) seg_append)
  have "row_prefixes (bt_nodes t) ((low, p) # ys) \<subseteq> row_prefixes (bt_nodes t) (hd rows)" by (auto simp: row_prefixes_def r(1) w(1))
  from Get_block [OF sg w(3) assms(4-8) this] have get: "InternalGet (bt_nodes t) p key [] =
    Some (Inr (map tid_of (filter (\<lambda>k. tid_prefix k = b) (?K ((low, p) # ys)))))" by simp
  have "tid_prefix k \<noteq> b" if "k \<in> set (?K xs)" for k
    using before_block [of "bt_nodes t" xs low p ys b k] r(7) w that assms(6) by simp
  then have "filter (\<lambda>k. tid_prefix k = b) (?K xs) = []" by (auto simp: filter_empty_conv)
  then have "filter (\<lambda>k. tid_prefix k = b) (tree_keys t rows) = filter (\<lambda>k. tid_prefix k = b) (?K ((low, p) # ys))"
    by (simp add: tree_keys_def r(1) w(1))
  with get go r(2,3) show ?thesis by (auto simp: BTree_GetKey_def)
qed

section \<open>Unique insertion\<close>

lemma set_tid_ok:
  assumes "key_ok key" "key_bytes key = b @ ts" "length ts = 8"
  shows "key_ok (set_tid key v)" "key_bytes (set_tid key v) = b @ EncodeUnsigned v" "klen (set_tid key v) = klen key"
proof -
  obtain bs where bs: "kdata key = Some bs" "unat (klen key) \<le> length bs" using assms(1) by (auto simp: key_ok_def)
  have tk: "take (unat (klen key)) bs = b @ ts" using assms(2) bs by (simp add: key_bytes_def)
  have n1: "unat (klen key) = length b + 8" using arg_cong [OF tk, of length] bs(2) assms(3) by simp
  have "take (length b) (take (unat (klen key)) bs) = b" by (simp add: tk)
  then have n: "unat (klen key) = length b + 8" "take (unat (klen key) - 8) bs = b" using n1 by (simp_all add: min_def)
  show "klen (set_tid key v) = klen key" by (simp add: set_tid_def)
  show "key_ok (set_tid key v)" "key_bytes (set_tid key v) = b @ EncodeUnsigned v"
    using bs n length_EncodeUnsigned [of v] by (simp_all add: set_tid_def key_ok_def key_bytes_def)
qed

text \<open>A fence behind the block is behind every entry of the block.\<close>

lemma fence_past:
  assumes "prefix_free (insert b S)" "tid_prefix f \<in> S" "8 \<le> length f" "b @ replicate 8 0 < f" "tid_prefix f \<noteq> b" "length ts = 8"
  shows "b @ ts < f"
proof (rule ccontr)
  assume "\<not> b @ ts < f"
  then have "f \<le> b @ ts" by simp
  then have "tid_prefix f \<le> b"
    using prefix_order [OF assms(1), of f "b @ ts"] assms(2,3,5,6) by (cases "f = b @ ts") (auto simp: tid_prefix_snoc)
  moreover have "b \<le> tid_prefix f"
    using prefix_order [OF assms(1), of "b @ replicate 8 0" f] assms(2-4) by (simp add: tid_prefix_snoc)
  ultimately show False using assms(5) by simp
qed

text \<open>Where the key goes: the page a previous step found, or the one that covers it.\<close>

definition goes_to :: "row \<Rightarrow> u8 list \<Rightarrow> page_id option \<Rightarrow> page_id \<Rightarrow> bool" where
  "goes_to r k ip p \<longleftrightarrow> (case ip of Some p0 \<Rightarrow> p = p0
     | None \<Rightarrow> \<exists>xs low ys. r = xs @ (low, p) # ys \<and> low \<le> k \<and> below k (fst (nxt ys no_next)))"

lemma goes_to_later:
  assumes "goes_to ((f, q') # r) k (if ip = None \<and> \<not> f \<le> k then Some q else ip) p" "ip = None \<longrightarrow> low \<le> k"
  shows "goes_to ((low, q) # (f, q') # r) k ip p"
proof (cases "ip = None")
  case True
  show ?thesis
  proof (cases "f \<le> k")
    case fk: True
    then obtain xs l ys where "(f, q') # r = xs @ (l, p) # ys" "l \<le> k" "below k (fst (nxt ys no_next))"
      using assms(1) True by (auto simp: goes_to_def)
    then have "(low, q) # (f, q') # r = ((low, q) # xs) @ (l, p) # ys \<and> l \<le> k \<and> below k (fst (nxt ys no_next))" by simp
    then show ?thesis unfolding goes_to_def True option.case by blast
  next
    case False
    then have "(low, q) # (f, q') # r = [] @ (low, p) # (f, q') # r \<and> low \<le> k \<and> below k (fst (nxt ((f, q') # r) no_next))"
      using assms True by (simp add: goes_to_def)
    then show ?thesis unfolding goes_to_def True option.case by blast
  qed
next
  case False
  with assms(1) show ?thesis by (auto simp: goes_to_def)
qed

definition block_conflict :: "(u64 \<Rightarrow> bool) \<Rightarrow> u8 list \<Rightarrow> u8 list list \<Rightarrow> bool" where
  "block_conflict conflict b ks \<longleftrightarrow> (\<exists>k \<in> set ks. tid_prefix k = b \<and> conflict (tid_of k))"

text \<open>One page of the uniqueness check.\<close>

lemma CheckUnique_page:
  assumes n: "leaf_node (N q) low nx" and sub: "row_prefixes N ((low, q) # r) \<subseteq> S"
    and idx: "idx = None \<or> idx = Some 0 \<and> (\<forall>k \<in> set (page_keys leaf_fmt (N q)). \<not> tid_prefix k < b)"
    and key: "key_ok key" "klen key \<noteq> 0" "key_bytes key = b @ ts" "length ts = 8"
      "length b < DB7_MAX_ROW_SIZE" "prefix_free (insert b S)"
  shows "leaf_CheckUnique conflict (N q) key idx =
    Inr (if block_conflict conflict b (page_keys leaf_fmt (N q)) then Fail None
         else Ok (case fst nx of None \<Rightarrow> False | Some f \<Rightarrow> tid_prefix f = b))"
proof -
  have "tid_prefix ` set (page_keys leaf_fmt (N q)) \<subseteq> S" using sub by (auto simp: row_prefixes_def)
  from leaf_CheckUnique_block [OF node_searchable [OF n key(6,5) this] key(1-4) idx] leaf_node_keys(3) [OF n]
  show ?thesis by (auto simp: block_conflict_def split: option.splits)
qed

lemma unique_last:
  assumes n: "leaf_node (N q) low (None, UNDEFINED_PAGE)" and sub: "row_prefixes N [(low, q)] \<subseteq> S"
    and ip: "ip = None \<longrightarrow> low \<le> key_bytes key"
    and idx: "idx = None \<or> idx = Some 0 \<and> (\<forall>k \<in> set (page_keys leaf_fmt (N q)). \<not> tid_prefix k < b)"
    and key: "key_ok key" "klen key \<noteq> 0" "key_bytes key = b @ ts" "length ts = 8"
      "length b < DB7_MAX_ROW_SIZE" "prefix_free (insert b S)"
  shows "\<exists>res. unique_loop conflict N key q idx ip = Some (Inr res) \<and>
    (if block_conflict conflict b (page_keys leaf_fmt (N q)) then res = Fail None
     else \<exists>p. res = Ok (Some p) \<and> goes_to [(low, q)] (key_bytes key) ip p)"
proof -
  let ?p = "case ip of None \<Rightarrow> q | Some p \<Rightarrow> p"
  have "goes_to [(low, q)] (key_bytes key) ip ?p"
    using ip by (cases ip) (auto simp: goes_to_def no_next_def Cons_eq_append_conv)
  moreover have "unique_loop conflict N key q idx ip =
      Some (Inr (if block_conflict conflict b (page_keys leaf_fmt (N q)) then Fail None else Ok (Some ?p)))"
    using CheckUnique_page [OF n sub idx key] leaf_HasSplit_ok [OF n key(1,2)]
    by (subst unique_loop.simps) (auto simp: Let_def split: option.splits)
  ultimately show ?thesis by auto
qed

lemma unique_step:
  assumes n: "leaf_node (N q) low (Some f, q')" and q': "q' \<noteq> 0" "q' \<noteq> UNDEFINED_PAGE" and sub: "row_prefixes N ((low, q) # r) \<subseteq> S"
    and idx: "idx = None \<or> idx = Some 0 \<and> (\<forall>k \<in> set (page_keys leaf_fmt (N q)). \<not> tid_prefix k < b)"
    and key: "key_ok key" "klen key \<noteq> 0" "key_bytes key = b @ ts" "length ts = 8"
      "length b < DB7_MAX_ROW_SIZE" "prefix_free (insert b S)"
  shows "unique_loop conflict N key q idx ip = (if block_conflict conflict b (page_keys leaf_fmt (N q)) then Some (Inr (Fail None))
      else if tid_prefix f = b then unique_loop conflict N key q' (Some 0) (if ip = None \<and> \<not> f \<le> key_bytes key then Some q else ip)
      else Some (Inr (Ok (if ip = None \<and> \<not> f \<le> key_bytes key then Some q else ip))))"
  using CheckUnique_page [OF n sub idx key] leaf_HasSplit_ok [OF n key(1,2)] q' node_links(1) [OF n]
  by (subst unique_loop.simps) (simp add: Let_def GetNode_def not_less)

lemma unique_block:
  assumes "seg leaf_node N ((low, q) # r) no_next" "below (b @ replicate 8 0) (fst (nxt r no_next))" "ip = None \<longrightarrow> low \<le> key_bytes key"
    and "idx = None \<or> idx = Some 0 \<and> (\<forall>k \<in> set (page_keys leaf_fmt (N q)). \<not> tid_prefix k < b)"
    and "row_prefixes N ((low, q) # r) \<subseteq> S" "key_ok key" "klen key \<noteq> 0" "key_bytes key = b @ ts" "length ts = 8"
      "length b < DB7_MAX_ROW_SIZE" "prefix_free (insert b S)"
  shows "\<exists>res. unique_loop conflict N key q idx ip = Some (Inr res) \<and>
    (if block_conflict conflict b (row_keys (page_keys leaf_fmt) N ((low, q) # r)) then res = Fail None
     else \<exists>p. res = Ok (Some p) \<and> goes_to ((low, q) # r) (key_bytes key) ip p)"
  using assms(1-5)
proof (induction r arbitrary: low q idx ip)
  case Nil
  have "leaf_node (N q) low (None, UNDEFINED_PAGE)" using Nil.prems(1) by (simp add: no_next_def)
  from unique_last [OF this Nil.prems(5,3,4) assms(6-11)] show ?case by simp
next
  case (Cons a r)
  obtain f q' where a: "a = (f, q')" by (cases a)
  have n: "leaf_node (N q) low (Some f, q')" and sg: "seg leaf_node N ((f, q') # r) no_next" and q': "q' \<noteq> 0" "q' \<noteq> UNDEFINED_PAGE"
    using Cons.prems(1) by (simp_all add: a)
  have kf: "b @ replicate 8 0 < f" using Cons.prems(2) by (simp add: a)
  have lf: "8 \<le> length f" using leaf_node_keys(3,4) [OF n] by simp
  then have "f \<noteq> []" by auto
  then have fS: "tid_prefix f \<in> S" and sub: "row_prefixes N ((f, q') # r) \<subseteq> S"
    using Cons.prems(5) by (auto simp: row_prefixes_def a)
  let ?ip = "if ip = None \<and> \<not> f \<le> key_bytes key then Some q else ip"
  let ?C = "block_conflict conflict b (page_keys leaf_fmt (N q))"
  note step = unique_step [OF n q' Cons.prems(5,4) assms(6-11), of conflict ip]
  have split_conf: "block_conflict conflict b (row_keys (page_keys leaf_fmt) N ((low, q) # a # r)) \<longleftrightarrow>
      ?C \<or> block_conflict conflict b (row_keys (page_keys leaf_fmt) N ((f, q') # r))"
    by (auto simp: block_conflict_def a)
  consider "?C" | "\<not> ?C" "tid_prefix f = b" | "\<not> ?C" "tid_prefix f \<noteq> b" by blast
  then show ?case
  proof cases
    case 1
    with step split_conf show ?thesis by simp
  next
    case 2
    have "f \<le> k \<and> 8 \<le> length k \<and> tid_prefix k \<in> S" if "k \<in> set (page_keys leaf_fmt (N q'))" for k
      using leaf_walk.seg_keys_ge [OF sg, of k] leaf_row_length [OF sg, of k] sub that by (auto simp: row_prefixes_def)
    then have "\<not> tid_prefix k < b" if "k \<in> set (page_keys leaf_fmt (N q'))" for k
      using prefix_order [OF assms(11), of f k] that fS lf 2(2) le_neq_trans [of f k] by (cases "f = k") auto
    then have "Some 0 = None \<or> Some 0 = Some (0 :: nat) \<and> (\<forall>k \<in> set (page_keys leaf_fmt (N q')). \<not> tid_prefix k < b)"
      and "?ip = None \<longrightarrow> f \<le> key_bytes key" by (auto split: if_splits)
    from Cons.IH [OF sg next_fence [OF sg kf] this(2,1) sub] obtain res where res: "unique_loop conflict N key q' (Some 0) ?ip = Some (Inr res)"
      "if block_conflict conflict b (row_keys (page_keys leaf_fmt) N ((f, q') # r)) then res = Fail None
       else \<exists>p. res = Ok (Some p) \<and> goes_to ((f, q') # r) (key_bytes key) ?ip p"
      by (elim exE conjE)
    have "goes_to ((low, q) # a # r) (key_bytes key) ip p" if "goes_to ((f, q') # r) (key_bytes key) ?ip p" for p
      unfolding a by (rule goes_to_later [OF that]) (rule Cons.prems(3))
    with res step split_conf 2 show ?thesis by (auto split: if_splits)
  next
    case 3
    have lt: "key_bytes key < f" using fence_past [OF assms(11) fS lf kf 3(2) assms(9)] assms(8) by simp
    have "\<not> block_conflict conflict b (row_keys (page_keys leaf_fmt) N ((f, q') # r))"
      using past_block_row [OF sg sub fS lf assms(11) kf 3(2)] by (auto simp: block_conflict_def)
    moreover have "\<exists>p. ?ip = Some p \<and> goes_to ((low, q) # a # r) (key_bytes key) ip p"
      using lt Cons.prems(3) by (cases ip) (auto simp: goes_to_def a intro!: exI [of _ "[] :: row"])
    ultimately show ?thesis using step split_conf 3 by auto
  qed
qed

text \<open>Insertion at the page the check chose: the path of the descent still fits it.\<close>

lemma insert_at_chosen:
  assumes tr: "tree_ok t rows" "tree_tight t rows" "tree_room t rows" and rows: "rows = row # rest" "row = xs @ (low, p) # ys"
    and sg: "seg leaf_node (bt_nodes t) ((low, p) # ys) no_next" and st: "tl_ok st" "path_ok l (tl_stack st) rest" "l \<le> low"
    and low: "low \<le> key_bytes k" and k: "key_ok k" "key_size_ok (key_bytes k)" "key_bytes k \<notin> set (tree_keys t rows)"
    and gt: "goes_to ((low, p) # ys) (key_bytes k) None p'"
  shows "\<exists>t' rows'. insert_into_leaf (t\<lparr>bt_tl := st\<rparr>) p' k = Some (Inr t') \<and> tree_inserted t rows (key_bytes k) t' rows'"
proof -
  obtain xs' low' ys' where g: "(low, p) # ys = xs' @ (low', p') # ys'" "low' \<le> key_bytes k"
    "below (key_bytes k) (fst (nxt ys' no_next))" using gt unfolding goes_to_def option.case by blast
  have "low \<le> low'" using leaf_walk.seg_sorted [OF sg] unfolding g(1) using g(1) by (cases xs') (auto simp: less_imp_le)
  then have path: "path_ok low' (tl_stack st) rest" using path_ok_mono [OF st(2)] st(3) by simp
  let ?t = "t\<lparr>bt_tl := st\<rparr>"
  have same: "next_pid ?t = next_pid t" "tree_keys ?t rows = tree_keys t rows" "tree_tight ?t rows = tree_tight t rows" "tree_ok ?t rows"
    using tr(1) by (simp_all add: next_pid_def tree_keys_def tree_tight_def tree_ok_def)
  have "at_leaf ?t row rest (xs @ xs') low' p' ys' k"
    unfolding at_leaf_def using same tr(2,3) g rows st(1) path k by (simp add: tree_room_def)
  from insert_into_leaf_ok [OF this] same(2) show ?thesis by (auto simp: tree_inserted_def rows(1))
qed

lemma InsertUniqueKey_ok:
  assumes tr: "tree_ok t rows" "tree_tight t rows" "tree_room t rows" "tl_sane t"
    and k: "key_ok key" "key_size_ok (key_bytes key)" "key_bytes key = b @ replicate 8 0"
    and new: "b @ EncodeUnsigned v \<notin> set (tree_keys t rows)"
    and pf: "prefix_free (insert b (row_prefixes (bt_nodes t) (hd rows)))"
  shows "if block_conflict conflict b (tree_keys t rows)
    then \<exists>st. BTree_InsertUniqueKey conflict t key v = Some (Inr (t\<lparr>bt_tl := st\<rparr>, Fail None))
    else \<exists>t' rows'. BTree_InsertUniqueKey conflict t key v = Some (Inr (t', Ok ())) \<and>
      tree_inserted t rows (b @ EncodeUnsigned v) t' rows'"
proof -
  let ?k' = "set_tid key v" and ?K = "row_keys (page_keys leaf_fmt) (bt_nodes t)"
  note k' = set_tid_ok [OF k(1,3) length_replicate, of v]
  have kn: "klen key \<noteq> 0" "length b < DB7_MAX_ROW_SIZE" using key_size_klen [OF k(1,2)] k(2,3)
    by (auto simp: key_size_ok_def DB7_MAX_ROW_SIZE_def)
  have le: "key_bytes key \<le> key_bytes ?k'" "length (EncodeUnsigned v) = 8"
    using replicate_0_least [of "EncodeUnsigned v" 8] append_less_mono [of b] length_EncodeUnsigned [of v]
    by (auto simp: k'(2) k(3) le_less)
  have len: "length rows \<le> 17" using tr(3) by (simp add: tree_room_def)
  obtain row rest st q l where r: "rows = row # rest" "DropToLeaf (btree_clear t) key = Some (Inr (t\<lparr>bt_tl := st\<rparr>, q))" "tl_ok st"
    "(l, q) \<in> set row" "l \<le> key_bytes key" "path_ok l (tl_stack st) rest" "seg leaf_node (bt_nodes t) row no_next"
    by (rule reach_leaf [OF tr(1) len tr(4) k(1) kn(1)])
  obtain xs low p ys where w: "row = xs @ (low, p) # ys" "GoRightLeaf (bt_nodes t) q key = Some (Inr p)" "l \<le> low"
    "low \<le> key_bytes key" "below (key_bytes key) (fst (nxt ys no_next))"
    by (rule leaf_walk.walk_row [OF r(7,4,5) k(1) kn(1)])
  have sg: "seg leaf_node (bt_nodes t) ((low, p) # ys) no_next" using r(7) by (simp add: w(1) seg_append)
  have sub: "row_prefixes (bt_nodes t) ((low, p) # ys) \<subseteq> row_prefixes (bt_nodes t) (hd rows)" by (auto simp: row_prefixes_def r(1) w(1))
  have lk: "low \<le> key_bytes ?k'" using w(4) le(1) by simp
  obtain res where res: "unique_loop conflict (bt_nodes t) ?k' p None None = Some (Inr res)"
    "if block_conflict conflict b (?K ((low, p) # ys)) then res = Fail None
     else \<exists>p'. res = Ok (Some p') \<and> goes_to ((low, p) # ys) (key_bytes ?k') None p'"
    using unique_block [where idx = None and ip = None and conflict = conflict, OF sg _ _ _ sub k'(1) _ k'(2) le(2) kn(2) pf]
      w(5) lk k(3) k'(3) kn(1) by auto
  have bc: "block_conflict conflict b (tree_keys t rows) \<longleftrightarrow> block_conflict conflict b (?K ((low, p) # ys))"
    using before_block [of "bt_nodes t" xs low p ys b] r(7) w k(3)
    by (auto simp: tree_keys_def r(1) block_conflict_def)
  have run: "BTree_InsertUniqueKey conflict t key v = (case res of Fail m \<Rightarrow> Some (Inr (t\<lparr>bt_tl := st\<rparr>, Fail m))
      | Ok None \<Rightarrow> Some (Inl NullDeref)
      | Ok (Some ip) \<Rightarrow> obind (insert_into_leaf (t\<lparr>bt_tl := st\<rparr>) ip ?k') (\<lambda>t2. Some (Inr (t2, Ok ()))))"
    using r(2) w(2) res(1) by (simp add: BTree_InsertUniqueKey_def Let_def)
  have sz: "key_size_ok (key_bytes ?k')" using k(2,3) le(2) by (simp add: k'(2) key_size_ok_def)
  note ins = insert_at_chosen [OF tr(1-3) r(1) w(1) sg r(3,6) w(3) lk k'(1) sz, unfolded k'(2), OF new]
  show ?thesis
  proof (cases "block_conflict conflict b (tree_keys t rows)")
    case True
    then show ?thesis using res(2) bc run by auto
  next
    case False
    then obtain p' where p': "res = Ok (Some p')" "goes_to ((low, p) # ys) (key_bytes ?k') None p'" using res(2) bc by auto
    from ins [OF p'(2) [unfolded k'(2)]] run p'(1) False show ?thesis by auto
  qed
qed

section \<open>Deletion\<close>

lemma DeleteKey_ok:
  assumes tr: "tree_ok t rows" "length rows \<le> 17" "tl_sane t" and k: "key_ok key" "key_size_ok (key_bytes key)"
    and mem: "key_bytes key \<in> set (tree_keys t rows)"
  shows "\<exists>t'. BTree_DeleteKey t key = Some (Inr t') \<and> tree_ok t' rows \<and> tl_sane t' \<and>
    tree_keys t' rows = filter (\<lambda>k. k \<noteq> key_bytes key) (tree_keys t rows) \<and> same_index t t'"
proof -
  let ?k = "key_bytes key" and ?K = "row_keys (page_keys leaf_fmt) (bt_nodes t)"
  have kn: "klen key \<noteq> 0" using key_size_klen [OF k] by simp
  obtain row rest st q l where r: "rows = row # rest" "DropToLeaf (btree_clear t) key = Some (Inr (t\<lparr>bt_tl := st\<rparr>, q))" "tl_ok st"
    "(l, q) \<in> set row" "l \<le> ?k" "path_ok l (tl_stack st) rest" "seg leaf_node (bt_nodes t) row no_next"
    by (rule reach_leaf [OF tr k(1) kn])
  obtain xs low p ys where w: "row = xs @ (low, p) # ys" "GoRightLeaf (bt_nodes t) q key = Some (Inr p)" "l \<le> low"
    "low \<le> ?k" "below ?k (fst (nxt ys no_next))"
    by (rule leaf_walk.walk_row [OF r(7,4,5) k(1) kn])
  have n: "leaf_node (bt_nodes t p) low (nxt ys no_next)" using r(7) by (simp add: w(1) seg_append)
  note ar = leaf_walk.around [OF r(7) [unfolded w(1)] w(4,5)]
  have out: "?k \<notin> set (?K xs)" "?k \<notin> set (?K ys)" using ar(1) [of ?k] ar(2) [of ?k] w(4) by auto
  then have mp: "?k \<in> set (page_keys leaf_fmt (bt_nodes t p))" using mem by (simp add: tree_keys_def r(1) w(1))
  have nk: "node_ok leaf_fmt (bt_nodes t p) 0 low (nxt ys no_next)" using n by (simp add: leaf_node_def)
  obtain d where d: "leaf_Delete (bt_nodes t p) key = Inr d"
    "leaf_updated (bt_nodes t p) (filter (\<lambda>k. k \<noteq> ?k) (page_keys leaf_fmt (bt_nodes t p))) d"
    using leaf_Delete_updated [OF node_okD(1) [OF nk] leaf_node_keys(1) [OF n] k(1) kn mp] by blast
  have dn: "leaf_node d low (nxt ys no_next)"
    using n d(2) by (auto simp: leaf_node_def node_ok_def leaf_updated_def leaf_keys_sorted sorted_wrt_filter)
  have distinct: "distinct (map snd row @ pids rest)" and lv: "levels (bt_nodes t) 0 row rest"
    using tr(1) by (simp_all add: tree_ok_def r(1))
  then have "distinct (map snd (xs @ (low, p) # ys))" by (auto simp: w(1))
  note ch = leaf_walk.row_changed [OF r(7) [unfolded w(1)] this dn, folded w(1)]
  let ?t' = "set_node (t\<lparr>bt_tl := st\<rparr>) p d"
  have "levels ((bt_nodes t)(p := d)) 0 row rest" using lv distinct by (subst levels_cong) (auto simp: w(1))
  then have "tree_ok ?t' rows" using ch(1) tr(1) by (simp add: tree_ok_def set_node_def next_pid_def r(1))
  moreover have "tree_keys ?t' rows = filter (\<lambda>k. k \<noteq> ?k) (tree_keys t rows)"
  proof -
    have "filter (\<lambda>k. k \<noteq> ?k) (?K xs) = ?K xs" "filter (\<lambda>k. k \<noteq> ?k) (?K ys) = ?K ys" using out by (auto simp: filter_id_conv)
    then show ?thesis using ch(2) [of "page_keys leaf_fmt"] d(2)
      by (simp add: tree_keys_def set_node_def r(1) w(1) leaf_updated_def)
  qed
  moreover have "BTree_DeleteKey t key = Some (Inr ?t')"
    using r(2) w(2) d(1) by (simp add: BTree_DeleteKey_def DeleteInternal_def)
  moreover have "tl_sane ?t'" using r(3) by (simp add: tl_sane_def tl_ok_def set_node_def)
  moreover have "same_index t ?t'" by (simp add: same_index_def set_node_def)
  ultimately show ?thesis by blast
qed

end
