(* ===== verification/BTreeClaims.thy ===== *)
theory BTreeClaims
  imports BTreeSearch
begin

text \<open>
  What the B-link tree promises: its operations are the ones of the sorted list of its keys. The witnesses run on a
  tree that was created empty and received one key.
\<close>

section \<open>A small tree\<close>

definition demo_tree :: BTreeIndex where
  "demo_tree = (case BTreeIndex_new True Map.empty (\<lambda>_ _. 0) tl_init 7 8 [] of Inr t \<Rightarrow> t)"

definition demo_tree1 :: BTreeIndex where
  "demo_tree1 = (case BTree_InsertKey demo_tree (demo_key 7 1) of Some (Inr t) \<Rightarrow> t | _ \<Rightarrow> demo_tree)"

definition demo_rows :: "row list" where
  "demo_rows = [[([], root_id demo_tree)]]"

lemma demo_tree:
  "tree_ok demo_tree demo_rows" "tree_tight demo_tree demo_rows" "tree_keys demo_tree demo_rows = []" "tl_sane demo_tree"
  "tree_room demo_tree demo_rows"
proof -
  obtain t where t: "BTreeIndex_new True Map.empty (\<lambda>_ _. 0) tl_init 7 8 [] = Inr t" "tree_ok t [[([], root_id t)]]"
    "tree_tight t [[([], root_id t)]]" "tree_keys t [[([], root_id t)]] = []" "tl_sane t" "unat (next_pid t) = 2"
    using BTreeIndex_new_ok [of Map.empty 7 tl_init "\<lambda>_ _. 0" 8 "[]"]
    by (auto simp: next_of_def MAX_POOL_PAGES_def tl_init_def)
  then have "demo_tree = t" by (simp add: demo_tree_def)
  with t show "tree_ok demo_tree demo_rows" "tree_tight demo_tree demo_rows" "tree_keys demo_tree demo_rows = []" "tl_sane demo_tree"
    "tree_room demo_tree demo_rows" by (simp_all add: demo_rows_def tree_room_def)
qed

lemma demo_rows_simps: "length demo_rows = 1" "hd demo_rows = [([], root_id demo_tree)]" "demo_rows \<noteq> []"
  by (simp_all add: demo_rows_def)

lemma demo_size: "key_size_ok (key_bytes (demo_key b t))"
  by (simp add: key_size_ok_def)

text \<open>The first key goes into the root, which stays the only page.\<close>

lemma first_insert:
  assumes t: "tree_ok t [[([], r)]]" "tree_tight t [[([], r)]]" "tree_room t [[([], r)]]" "tl_sane t" "tree_keys t [[([], r)]] = []"
    and k: "key_ok key" "key_size_ok (key_bytes key)"
  shows "\<exists>t'. BTree_InsertKey t key = Some (Inr t') \<and> tree_inserted t [[([], r)]] (key_bytes key) t' [[([], r)]] \<and>
    next_pid t' = next_pid t"
proof -
  have new: "key_bytes key \<notin> set (tree_keys t [[([], r)]])" by (simp add: t(5))
  obtain row rest xs low p ys st q where rt: "[[([], r)]] = row # rest"
    "DropToLeaf (btree_clear t) key = Some (Inr (t\<lparr>bt_tl := st\<rparr>, q))" "GoRightLeaf (bt_nodes t) q key = Some (Inr p)"
    "at_leaf (t\<lparr>bt_tl := st\<rparr>) row rest xs low p ys key"
    by (rule reach_insert [OF t(1-4) k new])
  note aD = at_leafD [OF rt(4)]
  obtain b where b: "leaf_HasSpace (bt_nodes (t\<lparr>bt_tl := st\<rparr>) p) key = Inr b"
    "if b then True else 2 \<le> unat (GetCount (bt_nodes (t\<lparr>bt_tl := st\<rparr>) p))"
    using leaf_room [OF aD(10-12)] by (auto split: if_splits)
  have "p = r" using aD(14) rt(1) by auto
  then have "page_keys leaf_fmt (bt_nodes t p) = []" using t(5) by (simp add: tree_keys_def)
  then have "unat (GetCount (bt_nodes t p)) = 0" by (metis length_page_keys list.size(3))
  with b have "leaf_HasSpace (bt_nodes (t\<lparr>bt_tl := st\<rparr>) p) key = Inr True" by (cases b) simp_all
  from insert_leaf_space [OF rt(4) this] obtain t' where t': "insert_into_leaf (t\<lparr>bt_tl := st\<rparr>) p key = Some (Inr t')"
    "tree_inserted (t\<lparr>bt_tl := st\<rparr>) (row # rest) (key_bytes key) t' (row # rest)" "next_pid t' = next_pid (t\<lparr>bt_tl := st\<rparr>)"
    by blast
  have "BTree_InsertKey t key = Some (Inr t')" using rt(2,3) t'(1) by (simp add: BTree_InsertKey_def InsertInternal_def)
  then show ?thesis using t'(2,3) rt(1) by (simp add: tree_inserted_def tree_keys_def next_pid_def)
qed

lemma demo_insert:
  assumes "key_ok key" "key_size_ok (key_bytes key)"
  shows "\<exists>t'. BTree_InsertKey demo_tree key = Some (Inr t') \<and> tree_inserted demo_tree demo_rows (key_bytes key) t' demo_rows \<and>
    next_pid t' = next_pid demo_tree"
  using first_insert [OF demo_tree(1,2,5,4,3) [unfolded demo_rows_def] assms] by (simp add: demo_rows_def)

lemma demo_tree1:
  "tree_ok demo_tree1 demo_rows" "tree_keys demo_tree1 demo_rows = [key_bytes (demo_key 7 1)]" "tl_sane demo_tree1"
  "tree_tight demo_tree1 demo_rows" "tree_room demo_tree1 demo_rows"
proof -
  obtain t' where t': "BTree_InsertKey demo_tree (demo_key 7 1) = Some (Inr t')"
    "tree_inserted demo_tree demo_rows (key_bytes (demo_key 7 1)) t' demo_rows" "next_pid t' = next_pid demo_tree"
    using demo_insert [OF _ demo_size, of 7 1] by auto
  then have "demo_tree1 = t'" by (simp add: demo_tree1_def)
  with t'(2,3) demo_tree(3,5) show "tree_ok demo_tree1 demo_rows" "tree_keys demo_tree1 demo_rows = [key_bytes (demo_key 7 1)]"
    "tl_sane demo_tree1" "tree_tight demo_tree1 demo_rows" "tree_room demo_tree1 demo_rows"
    by (simp_all add: tree_inserted_def tree_room_def)
qed

lemma demo_prefixes: "prefix_free (insert [b] (row_prefixes (bt_nodes demo_tree1) (hd demo_rows)))"
  using demo_tree1(2)
  by (simp add: row_prefixes_def tree_keys_def prefix_free_def demo_rows_def tid_prefix_def sizeof_ValTyp_def)

lemma demo_enc: "EncodeUnsigned (5 :: u64) = [0, 0, 0, 0, 0, 0, 0, 5]"
  using EncodeUnsigned_be(1) [of "Suc (Suc (Suc (Suc (Suc (Suc (Suc (Suc 0)))))))" "5 :: u64"] by (simp add: be_enc_def)

lemma EncodeUnsigned_0: "EncodeUnsigned (0 :: u64) = replicate 8 0"
  using EncodeUnsigned_be(1) [of "Suc (Suc (Suc (Suc (Suc (Suc (Suc (Suc 0)))))))" "0 :: u64"] by (simp add: be_enc_def replicate_8)

section \<open>The properties\<close>



text \<open>C2: A lookup in a well-formed tree terminates and returns, in order, exactly the tuple identifiers of all
  entries with the searched key, on however many leaves they lie; only the stack of the thread changes. No key may be
  a proper prefix of another.\<close>

theorem BTree_get_complete:
  assumes "tree_ok t rows" "length rows \<le> 17" "tl_sane t" "key_ok key" "klen key \<noteq> 0" "key_bytes key = b @ replicate 8 0"
    and "length b < DB7_MAX_ROW_SIZE" "prefix_free (insert b (row_prefixes (bt_nodes t) (hd rows)))"
  shows "\<exists>st. BTree_GetKey t key = Some (Inr (t\<lparr>bt_tl := st\<rparr>, map tid_of (filter (\<lambda>k. tid_prefix k = b) (tree_keys t rows))))"
  using Get_all [OF assms] by blast

theorem BTree_get_complete_witness:
  "\<exists>st. BTree_GetKey demo_tree1 (demo_key 7 0) = Some (Inr (demo_tree1\<lparr>bt_tl := st\<rparr>, [1]))"
  using BTree_get_complete [OF demo_tree1(1) _ demo_tree1(3), of "demo_key 7 0" "[7]"] demo_prefixes [of 7]
  by (simp add: demo_tree1(2) demo_rows_simps DB7_MAX_ROW_SIZE_def tid_prefix_def tid_of_def sizeof_ValTyp_def be_dec_def replicate_8)



text \<open>C4: Deleting a key that the tree holds removes it and nothing else, wherever it lies, and keeps the tree
  well formed; the pages and their links stay.\<close>

theorem BTree_delete_refines:
  assumes "tree_ok t rows" "length rows \<le> 17" "tl_sane t" "key_ok key" "key_size_ok (key_bytes key)"
    and "key_bytes key \<in> set (tree_keys t rows)"
  shows "\<exists>t'. BTree_DeleteKey t key = Some (Inr t') \<and> tree_ok t' rows \<and> tl_sane t' \<and>
    tree_keys t' rows = filter (\<lambda>k. k \<noteq> key_bytes key) (tree_keys t rows)"
  using DeleteKey_ok [OF assms] by blast

theorem BTree_delete_refines_witness:
  "\<exists>t'. BTree_DeleteKey demo_tree1 (demo_key 7 1) = Some (Inr t') \<and> tree_ok t' demo_rows \<and> tree_keys t' demo_rows = []"
  using BTree_delete_refines [OF demo_tree1(1) _ demo_tree1(3) _ demo_size, of 7 1] by (auto simp: demo_tree1(2) demo_rows_simps)

end
