(* ===== verification/IndexContract.thy ===== *)
theory IndexContract
  imports BTreeClaims
begin

text \<open>
  What an index promises its clients: it is a finite set of entries, each a key and a tuple id; a lookup returns the tuple ids
  under a key in increasing order. The locale \<open>tuple_index\<close> states the contract over any set of keys of which none is a proper
  prefix of another; the B-link tree fulfils it, and so an entry written for a row is found by exactly the rows whose key
  columns have the same values.
\<close>

section \<open>The contract\<close>

locale tuple_index =
  fixes codes :: "'k set"
    and holds :: "'t \<Rightarrow> ('k \<times> 'v::linorder) set \<Rightarrow> bool"
    and room :: "'t \<Rightarrow> ('k \<times> 'v) set \<Rightarrow> bool"
    and ins :: "'t \<Rightarrow> 'k \<Rightarrow> 'v \<Rightarrow> 't res option"
    and del :: "'t \<Rightarrow> 'k \<Rightarrow> 'v \<Rightarrow> 't res option"
    and get :: "'t \<Rightarrow> 'k \<Rightarrow> ('t \<times> 'v list) res option"
  assumes finite_entries: "holds t E \<Longrightarrow> finite E"
    and room_holds: "room t E \<Longrightarrow> holds t E"
    and ins_law: "room t E \<Longrightarrow> b \<in> codes \<Longrightarrow> (b, v) \<notin> E \<Longrightarrow> \<exists>t'. ins t b v = Some (Inr t') \<and> holds t' (insert (b, v) E)"
    and del_law: "holds t E \<Longrightarrow> b \<in> codes \<Longrightarrow> (b, v) \<in> E \<Longrightarrow> \<exists>t'. del t b v = Some (Inr t') \<and> holds t' (E - {(b, v)})"
    and get_law: "holds t E \<Longrightarrow> b \<in> codes \<Longrightarrow>
      \<exists>t'. get t b = Some (Inr (t', sorted_list_of_set {v. (b, v) \<in> E})) \<and> holds t' E"
begin

lemma finite_values: "holds t E \<Longrightarrow> finite {v. (b, v) \<in> E}"
  using finite_imageI [OF finite_entries, of t E snd] by (rule finite_subset [rotated]) force+

text \<open>A deleted entry is gone, and nothing else changes.\<close>

lemma get_after_del:
  assumes "holds t E" "b \<in> codes" "(b, v) \<in> E" "c \<in> codes"
  shows "\<exists>t0 vs t1 t2. get t c = Some (Inr (t0, vs)) \<and> del t b v = Some (Inr t1) \<and>
    get t1 c = Some (Inr (t2, if c = b then remove1 v vs else vs))"
proof -
  obtain t0 where "get t c = Some (Inr (t0, sorted_list_of_set {w. (c, w) \<in> E}))" using get_law [OF assms(1,4)] by blast
  moreover obtain t1 where t1: "del t b v = Some (Inr t1)" "holds t1 (E - {(b, v)})" using del_law [OF assms(1-3)] by blast
  moreover obtain t2 where "get t1 c = Some (Inr (t2, sorted_list_of_set {w. (c, w) \<in> E - {(b, v)}}))"
    using get_law [OF t1(2) assms(4)] by blast
  moreover have "{w. (c, w) \<in> E - {(b, v)}} = (if c = b then {w. (c, w) \<in> E} - {v} else {w. (c, w) \<in> E})" by auto
  moreover have "sorted_list_of_set ({w. (c, w) \<in> E} - {v}) = remove1 v (sorted_list_of_set {w. (c, w) \<in> E})"
    by (rule sorted_list_of_set_remove [OF finite_values [OF assms(1)]])
  ultimately show ?thesis by (cases "c = b") auto
qed

text \<open>Deleting what was inserted brings back the entries there were.\<close>

lemma ins_get_del:
  assumes "room t E" "b \<in> codes" "(b, v) \<notin> E" "c \<in> codes"
  defines "vs \<equiv> sorted_list_of_set {w. (c, w) \<in> E}"
  shows "\<exists>t1 t2 t3 t4. ins t b v = Some (Inr t1) \<and> holds t1 (insert (b, v) E) \<and>
    get t1 c = Some (Inr (t2, if c = b then insort v vs else vs)) \<and> holds t2 (insert (b, v) E) \<and>
    del t2 b v = Some (Inr t3) \<and> holds t3 E \<and> get t3 c = Some (Inr (t4, vs)) \<and> holds t4 E"
proof -
  obtain t1 where t1: "ins t b v = Some (Inr t1)" "holds t1 (insert (b, v) E)" using ins_law [OF assms(1-3)] by blast
  obtain t2 where t2: "get t1 c = Some (Inr (t2, sorted_list_of_set {w. (c, w) \<in> insert (b, v) E}))" "holds t2 (insert (b, v) E)"
    using get_law [OF t1(2) assms(4)] by blast
  obtain t3 where t3: "del t2 b v = Some (Inr t3)" "holds t3 E" using del_law [OF t2(2) assms(2), of v] assms(3) by auto
  obtain t4 where t4: "get t3 c = Some (Inr (t4, vs))" "holds t4 E" using get_law [OF t3(2) assms(4)] by (auto simp: vs_def)
  have "{w. (c, w) \<in> insert (b, v) E} = (if c = b then insert v {w. (c, w) \<in> E} else {w. (c, w) \<in> E})" by auto
  then have "get t1 c = Some (Inr (t2, if c = b then insort v vs else vs))"
    using t2(1) finite_values [OF room_holds [OF assms(1)], of c] assms(3) by (auto simp: vs_def)
  with t1 t2(2) t3 t4 show ?thesis by blast
qed

end

section \<open>Entries of a tree\<close>

lemma row_keys_sorted: "seg leaf_node N r nx \<Longrightarrow> sorted_wrt (<) (row_keys (page_keys leaf_fmt) N r)"
proof (induction r)
  case (Cons a r)
  obtain l p where a: "a = (l, p)" by (cases a)
  have "x < y" if "x \<in> set (page_keys leaf_fmt (N p))" "y \<in> set (row_keys (page_keys leaf_fmt) N r)" for x y
  proof -
    from that(2) obtain c cs where r: "r = c # cs" by (cases r) auto
    have "x < fst c" using Cons.prems leaf_walk.key_bounds [of "N p" l "(Some (fst c), snd c)" x] that(1) by (cases c) (auto simp: a r)
    also have "fst c \<le> y" using leaf_walk.seg_keys_ge [of N r nx y] Cons.prems that(2) by (simp add: a r)
    finally show ?thesis .
  qed
  moreover have "sorted_wrt (<) (page_keys leaf_fmt (N p))" using Cons.prems leaf_node_keys(1) [of "N p" l "nxt r nx"] by (simp add: a)
  ultimately show ?case using Cons by (auto simp: a sorted_wrt_append)
qed simp

definition entry_of :: "u8 list \<Rightarrow> u8 list \<times> u64" where
  "entry_of k = (tid_prefix k, tid_of k)"

lemma entry_key: "8 \<le> length k \<Longrightarrow> k = tid_prefix k @ EncodeUnsigned (tid_of k)"
proof -
  assume len: "8 \<le> length k"
  let ?d = "drop (length k - 8) k"
  have d: "length ?d = 8" using len by simp
  have "be_dec ?d < 256 ^ 8" using be_enc_dec [of ?d] be_dec_enc [of 8 "be_dec ?d"] d mod_less_divisor [of "256 ^ 8" "be_dec ?d"] by simp
  then have "unat (tid_of k) = be_dec ?d" by (simp add: tid_of_def sizeof_ValTyp_def unat_of_nat_small)
  then have "EncodeUnsigned (tid_of k) = ?d"
    using EncodeUnsigned_be(1) [of 8 "tid_of k"] be_enc_dec [of ?d] d by simp
  then show ?thesis by (simp add: tid_prefix_def sizeof_ValTyp_def)
qed

lemma entry_of_snoc [simp]: "entry_of (b @ EncodeUnsigned v) = (b, v)"
proof -
  have "be_dec (EncodeUnsigned v) = unat v" using EncodeUnsigned_be [of 8 v] by (simp add: be_dec_enc)
  then show ?thesis by (simp add: entry_of_def tid_prefix_snoc tid_of_def sizeof_ValTyp_def length_EncodeUnsigned)
qed

lemma entry_of_inj: "inj_on entry_of {k. 8 \<le> length k}"
  by (rule inj_onI) (metis entry_key entry_of_def mem_Collect_eq prod.inject)

text \<open>The values in the block of a key increase, and so the lookup returns them as a sorted list.\<close>

lemma block_values:
  assumes "sorted_wrt (<) ks" "\<forall>k \<in> set ks. 8 \<le> length k"
  shows "map tid_of (filter (\<lambda>k. tid_prefix k = b) ks) = sorted_list_of_set {v. (b, v) \<in> entry_of ` set ks}"
proof -
  let ?f = "filter (\<lambda>k. tid_prefix k = b) ks"
  have less: "tid_of x < tid_of y" if "x \<in> set ?f" "y \<in> set ?f" "x < y" for x y
  proof -
    have "x = b @ EncodeUnsigned (tid_of x)" "y = b @ EncodeUnsigned (tid_of y)" using that assms(2) entry_key [of x] entry_key [of y] by simp_all
    with that(3) have "EncodeUnsigned (tid_of x) < EncodeUnsigned (tid_of y)" by (metis append_less_mono)
    then show ?thesis using u64c.enc_less [of "tid_of x" "tid_of y"] by (simp add: word_less_def)
  qed
  have "sorted_wrt (\<lambda>x y. tid_of x < tid_of y) ?f"
    by (rule sorted_wrt_mono_rel [OF _ sorted_wrt_filter [OF assms(1)]]) (rule less)
  then have "sorted_wrt (<) (map tid_of ?f)" by (simp only: sorted_wrt_map)
  moreover have "set (map tid_of ?f) = {v. (b, v) \<in> entry_of ` set ks}" by (auto simp: entry_of_def)
  ultimately show ?thesis
    by (metis sorted_list_of_set.idem_if_sorted_distinct strict_sorted_iff)
qed

section \<open>The tree fulfils the contract\<close>

text \<open>The keys of an index come from a set \<open>S\<close> of byte strings of which none is a proper prefix of another; the bytes that
  the tree works with are those of the key followed by the tuple id.\<close>

definition code_set :: "u8 list set \<Rightarrow> u8 list set" where
  "code_set S = {b \<in> S. prefix_free S \<and> b \<noteq> [] \<and> length b \<le> 112}"

definition tree_at :: "u8 list set \<Rightarrow> TypeSize list \<Rightarrow> BTreeIndex \<Rightarrow> (u8 list \<times> u64) set \<Rightarrow> row list \<Rightarrow> bool" where
  "tree_at S as t E rows \<longleftrightarrow>
     tree_ok t rows \<and> length rows \<le> 17 \<and> tl_sane t \<and> bt_attrs t = as \<and>
     row_prefixes (bt_nodes t) (hd rows) \<subseteq> code_set S \<and> entry_of ` set (tree_keys t rows) = E"

definition tree_holds :: "u8 list set \<Rightarrow> TypeSize list \<Rightarrow> BTreeIndex \<Rightarrow> (u8 list \<times> u64) set \<Rightarrow> bool" where
  "tree_holds S as t E \<longleftrightarrow> (\<exists>rows. tree_at S as t E rows)"

definition tree_roomy :: "u8 list set \<Rightarrow> TypeSize list \<Rightarrow> BTreeIndex \<Rightarrow> (u8 list \<times> u64) set \<Rightarrow> bool" where
  "tree_roomy S as t E \<longleftrightarrow>
     (\<exists>rows. tree_at S as t E rows \<and> tree_tight t rows \<and> tree_room t rows \<and> length rows \<le> 16)"

definition tree_ins :: "BTreeIndex \<Rightarrow> u8 list \<Rightarrow> u64 \<Rightarrow> BTreeIndex res option" where
  "tree_ins t b v = BTree_InsertKey t (mk_key (b @ EncodeUnsigned v))"

definition tree_del :: "BTreeIndex \<Rightarrow> u8 list \<Rightarrow> u64 \<Rightarrow> BTreeIndex res option" where
  "tree_del t b v = BTree_DeleteKey t (mk_key (b @ EncodeUnsigned v))"

definition tree_get :: "BTreeIndex \<Rightarrow> u8 list \<Rightarrow> (BTreeIndex \<times> u64 list) res option" where
  "tree_get t b = BTree_GetKey t (mk_key (b @ EncodeUnsigned (0 :: u64)))"

lemma code_key:
  assumes "b \<in> code_set S"
  shows "key_ok (mk_key (b @ EncodeUnsigned (v :: u64)))" "key_size_ok (key_bytes (mk_key (b @ EncodeUnsigned v)))"
    "key_bytes (mk_key (b @ EncodeUnsigned v)) = b @ EncodeUnsigned v" "klen (mk_key (b @ EncodeUnsigned v)) \<noteq> 0"
proof -
  have len: "length (b @ EncodeUnsigned v) < 65536" using assms by (simp add: code_set_def length_EncodeUnsigned)
  then show k: "key_bytes (mk_key (b @ EncodeUnsigned v)) = b @ EncodeUnsigned v" "key_ok (mk_key (b @ EncodeUnsigned v))"
    by (simp_all add: key_ok_mk_key)
  from assms show s: "key_size_ok (key_bytes (mk_key (b @ EncodeUnsigned v)))"
    by (simp add: k code_set_def key_size_ok_def length_EncodeUnsigned Suc_le_eq)
  from key_size_klen [OF k(2) s] show "klen (mk_key (b @ EncodeUnsigned v)) \<noteq> 0" by blast
qed

lemma tree_keys_lists:
  assumes "tree_ok t rows"
  shows "sorted_wrt (<) (tree_keys t rows)" "\<forall>k \<in> set (tree_keys t rows). 8 \<le> length k"
  using assms row_keys_sorted [of "bt_nodes t" "hd rows" no_next] leaf_row_length [of "bt_nodes t" "hd rows" no_next]
  by (auto simp: tree_ok_def tree_keys_def)

lemma entry_in_keys:
  assumes "tree_at S as t E rows"
  shows "(b, v) \<in> E \<longleftrightarrow> b @ EncodeUnsigned v \<in> set (tree_keys t rows)"
proof -
  have "tree_ok t rows" "entry_of ` set (tree_keys t rows) = E" using assms by (simp_all add: tree_at_def)
  then have "entry_of (b @ EncodeUnsigned v) \<in> E \<longleftrightarrow> b @ EncodeUnsigned v \<in> set (tree_keys t rows)"
    using tree_keys_lists(2) inj_on_image_mem_iff [OF entry_of_inj, of "b @ EncodeUnsigned v" "set (tree_keys t rows)"]
    by (auto simp: length_EncodeUnsigned)
  then show ?thesis by simp
qed

lemma tree_ins_law:
  assumes at: "tree_at S as t E rows" and room: "tree_tight t rows" "tree_room t rows" "length rows \<le> 16"
    and b: "b \<in> code_set S" and new: "(b, v) \<notin> E"
  shows "\<exists>t'. tree_ins t b v = Some (Inr t') \<and> tree_holds S as t' (insert (b, v) E)"
proof -
  note a = at [unfolded tree_at_def] and k = code_key [OF b, of v]
  obtain t' rows' where i: "tree_ins t b v = Some (Inr t')" "tree_inserted t rows (b @ EncodeUnsigned v) t' rows'"
    using InsertKey_inserted [of t rows "mk_key (b @ EncodeUnsigned v)"] a room k(1-3) new entry_in_keys [OF at]
    unfolding tree_ins_def by auto
  note ins = i(2) [unfolded tree_inserted_def]
  have keys: "set (tree_keys t' rows') = insert (b @ EncodeUnsigned v) (set (tree_keys t rows))"
    using ins by (simp add: set_insort_key)
  have old: "tid_prefix k \<in> code_set S" if "k \<in> set (tree_keys t rows) \<union> (fst ` set (hd rows) - {[]})" for k
    using that a by (auto simp: row_prefixes_def tree_keys_def)
  have "tid_prefix k \<in> code_set S" if "k \<in> set (tree_keys t' rows') \<union> (fst ` set (hd rows') - {[]})" for k
  proof -
    have "k \<in> insert (b @ EncodeUnsigned v) (set (tree_keys t rows) \<union> (fst ` set (hd rows) - {[]}))"
      using that ins keys by blast
    then show ?thesis using old b by (auto simp: tid_prefix_snoc length_EncodeUnsigned)
  qed
  then have "row_prefixes (bt_nodes t') (hd rows') \<subseteq> code_set S" by (auto simp: row_prefixes_def tree_keys_def)
  then have "tree_at S as t' (insert (b, v) E) rows'"
    using ins a room(3) keys by (simp add: tree_at_def same_index_def)
  with i(1) show ?thesis unfolding tree_holds_def by blast
qed

lemma tree_del_law:
  assumes at: "tree_at S as t E rows" and b: "b \<in> code_set S" and mem: "(b, v) \<in> E"
  shows "\<exists>t'. tree_del t b v = Some (Inr t') \<and> tree_holds S as t' (E - {(b, v)})"
proof -
  note a = at [unfolded tree_at_def] and k = code_key [OF b, of v]
  let ?k = "b @ EncodeUnsigned v"
  obtain t' where d: "tree_del t b v = Some (Inr t')" "tree_ok t' rows" "tl_sane t'"
    "tree_keys t' rows = filter (\<lambda>k. k \<noteq> ?k) (tree_keys t rows)" "same_index t t'"
    using DeleteKey_ok [of t rows "mk_key ?k"] a k(1-3) mem entry_in_keys [OF at] unfolding tree_del_def by auto
  have "entry_of ` (set (tree_keys t rows) - {?k}) = E - {(b, v)}"
    using inj_on_image_set_diff [OF entry_of_inj, of "set (tree_keys t rows)" "{?k}"] tree_keys_lists(2) a
    by (auto simp: length_EncodeUnsigned)
  moreover have "set (tree_keys t' rows) = set (tree_keys t rows) - {?k}" using d(4) by auto
  moreover have "row_prefixes (bt_nodes t') (hd rows) \<subseteq> row_prefixes (bt_nodes t) (hd rows)"
    using d(4) by (auto simp: row_prefixes_def tree_keys_def)
  ultimately have "tree_at S as t' (E - {(b, v)}) rows" using a d by (auto simp: tree_at_def same_index_def)
  with d(1) show ?thesis unfolding tree_holds_def by blast
qed

lemma tree_get_law:
  assumes at: "tree_at S as t E rows" and b: "b \<in> code_set S"
  shows "\<exists>t'. tree_get t b = Some (Inr (t', sorted_list_of_set {v. (b, v) \<in> E})) \<and> tree_holds S as t' E"
proof -
  note a = at [unfolded tree_at_def] and k = code_key [OF b, of 0]
  have "prefix_free (insert b (row_prefixes (bt_nodes t) (hd rows)))"
    by (rule prefix_free_sub [of S]) (use a b in \<open>auto simp: code_set_def\<close>)
  then obtain st where st: "tl_ok st"
    "tree_get t b = Some (Inr (t\<lparr>bt_tl := st\<rparr>, map tid_of (filter (\<lambda>k. tid_prefix k = b) (tree_keys t rows))))"
    using Get_all [of t rows "mk_key (b @ EncodeUnsigned (0 :: u64))" b] a k b
    unfolding tree_get_def by (auto simp: EncodeUnsigned_0 code_set_def DB7_MAX_ROW_SIZE_def)
  have "tree_at S as (t\<lparr>bt_tl := st\<rparr>) E rows"
    using a st(1) by (simp add: tree_at_def tree_ok_def next_pid_def tl_sane_def tl_ok_def tree_keys_def)
  moreover have "map tid_of (filter (\<lambda>k. tid_prefix k = b) (tree_keys t rows)) = sorted_list_of_set {v. (b, v) \<in> E}"
    using block_values [of "tree_keys t rows" b] tree_keys_lists [of t rows] a by auto
  ultimately show ?thesis using st(2) unfolding tree_holds_def by auto
qed

interpretation tree_index: tuple_index "code_set S" "tree_holds S as" "tree_roomy S as" tree_ins tree_del tree_get for S as
proof
  show "tree_holds S as t E \<Longrightarrow> finite E" for t E by (auto simp: tree_holds_def tree_at_def)
  show "tree_roomy S as t E \<Longrightarrow> tree_holds S as t E" for t E by (auto simp: tree_roomy_def tree_holds_def)
  show "tree_roomy S as t E \<Longrightarrow> b \<in> code_set S \<Longrightarrow> (b, v) \<notin> E \<Longrightarrow>
      \<exists>t'. tree_ins t b v = Some (Inr t') \<and> tree_holds S as t' (insert (b, v) E)" for t E b v
    unfolding tree_roomy_def using tree_ins_law by blast
  show "tree_holds S as t E \<Longrightarrow> b \<in> code_set S \<Longrightarrow> (b, v) \<in> E \<Longrightarrow>
      \<exists>t'. tree_del t b v = Some (Inr t') \<and> tree_holds S as t' (E - {(b, v)})" for t E b v
    using tree_del_law unfolding tree_holds_def by blast
  show "tree_holds S as t E \<Longrightarrow> b \<in> code_set S \<Longrightarrow>
      \<exists>t'. tree_get t b = Some (Inr (t', sorted_list_of_set {v. (b, v) \<in> E})) \<and> tree_holds S as t' E" for t E b
    using tree_get_law unfolding tree_holds_def by blast
qed

section \<open>Rows\<close>

text \<open>The keys that the encoder makes of the key columns of a row.\<close>

definition column_codes :: "(bool \<Rightarrow> u8 list \<Rightarrow> u8 list res) \<Rightarrow> TypeSize list \<Rightarrow> u8 list set" where
  "column_codes norm types = {b. \<exists>c. BuildKey_cols norm c types = Inr b \<and> key_clean norm c types}"

lemma column_codes_prefix_free: "prefix_free (column_codes norm types)"
  unfolding prefix_free_def
proof (intro ballI impI)
  fix b b' assume b: "b \<in> column_codes norm types" "b' \<in> column_codes norm types" and "prefix b b'"
  then obtain c c' where "BuildKey_cols norm c types = Inr b" "BuildKey_cols norm c' types = Inr b'"
    "key_clean norm c types" "key_clean norm c' types" by (auto simp: column_codes_def)
  note code = BuildKey_cols_code [OF this]
  from \<open>prefix b b'\<close> obtain x where "b' = b @ x" by (auto simp: prefix_def)
  with code [of x "[]"] show "b = b'" by simp
qed

lemma column_in_code_set:
  assumes "BuildKey_cols norm c types = Inr b" "key_clean norm c types" "b \<noteq> []" "length b \<le> 112"
  shows "b \<in> code_set (column_codes norm types)"
  using assms column_codes_prefix_free by (auto simp: code_set_def column_codes_def)

lemma row_operations:
  assumes "BuildKey_cols norm c (bt_attrs t) = Inr b"
  shows "BTree_Insert norm t c v = tree_ins t b v" "BTree_Delete norm t c v = tree_del t b v" "BTree_Get norm t c = tree_get t b"
  using assms
  by (simp_all add: BTree_Insert_def BTree_Delete_def BTree_Get_def BuildKey_def Let_def mk_key_def tree_ins_def tree_del_def tree_get_def)

lemma holds_attrs: "tree_holds S as t E \<Longrightarrow> bt_attrs t = as"
  by (auto simp: tree_holds_def tree_at_def)


definition int_tree :: BTreeIndex where
  "int_tree = demo_tree\<lparr>bt_attrs := [TypeSize_new 1 INTEGER]\<rparr>"

lemma int_tree: "tree_roomy S [TypeSize_new 1 INTEGER] int_tree {}"
  using demo_tree unfolding tree_roomy_def tree_at_def
  by (intro exI [of _ demo_rows])
    (simp add: int_tree_def demo_rows_simps tree_ok_def tree_tight_def tree_room_def tree_keys_def tl_sane_def next_pid_def row_prefixes_def)


end
