(* ===== verification/BTreeRace.thy ===== *)
theory BTreeRace
  imports BTreeClaims
begin

text \<open>
  The B-link tree under interleaved operations. The code holds one page latch at a time, so an operation is a sequence of
  critical sections on single pages: a visit of the descent, the insertion into a leaf or its split, the insertion of a
  separator one level up. \<open>page_step\<close> are the sections that change pages, with the code's own page functions; \<open>rows\<close> is a ghost
  that records which page lies where on which level. Between a split and the insertion of its separator a level knows fewer
  pages than there are below it: \<open>link_tree\<close> is what holds at every moment.
\<close>

section \<open>The tree between the sections\<close>

definition level_node :: "nat \<Rightarrow> mem \<Rightarrow> u8 list \<Rightarrow> fence_link \<Rightarrow> bool" where
  "level_node i = (if i = 0 then leaf_node else inter_node i)"

definition link_tree :: "BTreeIndex \<Rightarrow> row list \<Rightarrow> bool" where
  "link_tree t rows \<longleftrightarrow> rows \<noteq> [] \<and>
     (\<forall>i < length rows. seg (level_node i) (bt_nodes t) (rows ! i) no_next) \<and>
     (\<forall>i. Suc i < length rows \<longrightarrow> set (row_ents (bt_nodes t) (rows ! Suc i)) \<subseteq> set (rows ! i)) \<and>
     ([], root_id t) \<in> set (last rows) \<and> distinct (pids rows) \<and> (\<forall>p \<in> set (pids rows). p < next_pid t) \<and> next_pid t \<noteq> 0"

text \<open>Pages stay where they are once they are linked.\<close>

definition rows_kept :: "row list \<Rightarrow> row list \<Rightarrow> bool" where
  "rows_kept rows rows' \<longleftrightarrow> length rows \<le> length rows' \<and> (\<forall>i < length rows. set (rows ! i) \<subseteq> set (rows' ! i))"

lemma tree_ok_link:
  assumes "tree_ok t rows"
  shows "link_tree t rows"
proof -
  obtain row rest where r: "rows = row # rest" "seg leaf_node (bt_nodes t) row no_next" "levels (bt_nodes t) 0 row rest"
    "last (row # rest) = [([], root_id t)]" "distinct (pids rows)" "\<forall>p \<in> set (pids rows). p < next_pid t" "next_pid t \<noteq> 0"
    using assms by (cases rows) (auto simp: tree_ok_def)
  have "seg (level_node i) (bt_nodes t) (rows ! i) no_next" if "i < length rows" for i
    using levels_nth [OF r(3), of "i - 1"] r(1,2) that by (cases i) (simp_all add: level_node_def)
  moreover have "set (row_ents (bt_nodes t) (rows ! Suc i)) \<subseteq> set (rows ! i)" if "Suc i < length rows" for i
    using levels_nth [OF r(3), of i] r(1) that by simp
  ultimately show ?thesis using r unfolding link_tree_def by simp
qed

lemma pids_nth: "i < length rows \<Longrightarrow> pids rows = pids (take i rows) @ map snd (rows ! i) @ pids (drop (Suc i) rows)"
  unfolding pids_def by (subst id_take_nth_drop [of i rows]) simp_all

lemma pids_update: "i < length rows \<Longrightarrow> pids (rows[i := r]) = pids (take i rows) @ map snd r @ pids (drop (Suc i) rows)"
  by (simp add: pids_def upd_conv_take_nth_drop)

lemma in_pids: "j < length rows \<Longrightarrow> x \<in> snd ` set (rows ! j) \<Longrightarrow> x \<in> set (pids rows)"
  unfolding pids_def using nth_mem [of j rows] by auto

lemma in_pids_take: "j < i \<Longrightarrow> i \<le> length rows \<Longrightarrow> x \<in> snd ` set (rows ! j) \<Longrightarrow> x \<in> set (pids (take i rows))"
  using in_pids [of j "take i rows" x] by simp

lemma in_pids_drop: "i < j \<Longrightarrow> j < length rows \<Longrightarrow> x \<in> snd ` set (rows ! j) \<Longrightarrow> x \<in> set (pids (drop (Suc i) rows))"
  using in_pids [of "j - Suc i" "drop (Suc i) rows" x] by simp

lemma pids_other_row:
  assumes "distinct (pids rows)" "i < length rows" "j < length rows" "j \<noteq> i" "x \<in> snd ` set (rows ! j)"
  shows "x \<notin> snd ` set (rows ! i)"
proof -
  have "x \<in> set (pids (take i rows)) \<or> x \<in> set (pids (drop (Suc i) rows))"
    using assms(2-5) in_pids_take [of j i rows x] in_pids_drop [of i j rows x] by (cases "j < i") simp_all
  moreover have "distinct (pids (take i rows) @ map snd (rows ! i) @ pids (drop (Suc i) rows))"
    using assms(1) pids_nth [OF assms(2)] by simp
  ultimately show ?thesis by (auto simp only: distinct_append set_append set_map)
qed

text \<open>One row grows, by the next page at most, or has a page rewritten.\<close>

lemma link_tree_row:
  assumes lt: "link_tree t rows" and i: "i < length rows"
    and N': "\<And>x. x < next_pid t \<Longrightarrow> x \<notin> snd ` set (rows ! i) \<Longrightarrow> bt_nodes t' x = bt_nodes t x"
    and r': "seg (level_node i) (bt_nodes t') r no_next" "set (rows ! i) \<subseteq> set r" "distinct (map snd r)"
      "snd ` set r \<subseteq> insert (next_pid t) (snd ` set (rows ! i))" "\<forall>p \<in> snd ` set r. p < next_pid t'"
    and ents: "\<And>j. i = Suc j \<Longrightarrow> set (row_ents (bt_nodes t') r) \<subseteq> set (rows ! j)"
    and t': "root_id t' = root_id t" "next_pid t \<le> next_pid t'"
  shows "link_tree t' (rows[i := r])" "rows_kept rows (rows[i := r])"
proof -
  note l = lt [unfolded link_tree_def]
  have same: "bt_nodes t' x = bt_nodes t x" if "j < length rows" "j \<noteq> i" "x \<in> snd ` set (rows ! j)" for j x
  proof (rule N')
    show "x \<notin> snd ` set (rows ! i)" using pids_other_row [OF _ i that] l by blast
    show "x < next_pid t" using in_pids [OF that(1,3)] l by blast
  qed
  show kept: "rows_kept rows (rows[i := r])" using r'(2) i by (auto simp: rows_kept_def nth_list_update)
  have "seg (level_node j) (bt_nodes t') (rows[i := r] ! j) no_next" if "j < length rows" for j
  proof (cases "j = i")
    case False
    with l that show ?thesis by (auto simp: seg_cong [OF same [OF that]])
  qed (use r'(1) i in simp)
  moreover have "set (row_ents (bt_nodes t') (rows[i := r] ! Suc j)) \<subseteq> set (rows[i := r] ! j)" if "Suc j < length rows" for j
  proof (cases "Suc j = i")
    case True
    with ents [of j] that show ?thesis by auto
  next
    case False
    have "set (row_ents (bt_nodes t') (rows ! Suc j)) \<subseteq> set (rows ! j)"
      using l that row_keys_cong [where K = inter_ents, OF same [OF that False]] by auto
    then show ?thesis using False r'(2) that by (cases "j = i") auto
  qed
  moreover have "([], root_id t') \<in> set (last (rows[i := r]))"
    using l t'(1) r'(2) i last_conv_nth [of rows] last_conv_nth [of "rows[i := r]"] by (auto simp: nth_list_update)
  moreover have "x \<notin> set (pids (take i rows)) \<union> set (pids (drop (Suc i) rows))" if "x \<in> snd ` set r" for x
  proof -
    have "x = next_pid t \<or> x \<in> snd ` set (rows ! i)" using that r'(4) by blast
    then show ?thesis using l unfolding pids_nth [OF i] by auto
  qed
  then have "distinct (pids (rows[i := r]))"
    using l r'(3) unfolding pids_update [OF i] pids_nth [OF i] by auto
  moreover have "p < next_pid t'" if "p \<in> set (pids (rows[i := r]))" for p
    using that r'(5) l t'(2) unfolding pids_update [OF i] pids_nth [OF i] by (auto intro: less_le_trans)
  moreover have "next_pid t' \<noteq> 0" using l t'(2) by auto
  ultimately show "link_tree t' (rows[i := r])" using l unfolding link_tree_def by simp
qed

section \<open>Critical sections\<close>

text \<open>Where \<^verbatim>\<open>GoRightLeaf\<close> and \<^verbatim>\<open>GoRightInter\<close> stop: the latched page covers the key.\<close>

definition at_page :: "BTreeIndex \<Rightarrow> row list \<Rightarrow> nat \<Rightarrow> page_id \<Rightarrow> Key \<Rightarrow> bool" where
  "at_page t rows i p key \<longleftrightarrow>
     i < length rows \<and> (\<exists>low. (low, p) \<in> set (rows ! i) \<and> low \<le> key_bytes key) \<and> key_ok key \<and> key_size_ok (key_bytes key) \<and>
     (if i = 0 then leaf_HasSplit else inter_HasSplit) (bt_nodes t p) key = Inr False"

datatype page_event = Added "u8 list" | Removed "u8 list" | Linked

fun event_keys :: "page_event \<Rightarrow> u8 list list \<Rightarrow> u8 list list" where
  "event_keys (Added k) ks = insort k ks"
| "event_keys (Removed k) ks = filter (\<lambda>x. x \<noteq> k) ks"
| "event_keys Linked ks = ks"

inductive page_step :: "BTreeIndex \<Rightarrow> row list \<Rightarrow> page_event \<Rightarrow> BTreeIndex \<Rightarrow> row list \<Rightarrow> bool" where
  leaf_put: "at_page t rows 0 p key \<Longrightarrow> key_bytes key \<notin> set (tree_keys t rows) \<Longrightarrow> page_tight leaf_fmt (bt_nodes t p) \<Longrightarrow>
    leaf_HasSpace (bt_nodes t p) key = Inr True \<Longrightarrow> leaf_Insert (bt_nodes t p) key = Inr d \<Longrightarrow>
    page_step t rows (Added (key_bytes key)) (set_node t p d) rows"
| leaf_split: "at_page t rows 0 p key \<Longrightarrow> key_bytes key \<notin> set (tree_keys t rows) \<Longrightarrow> page_tight leaf_fmt (bt_nodes t p) \<Longrightarrow>
    leaf_HasSpace (bt_nodes t p) key = Inr False \<Longrightarrow> next_pid t < MAX_POOL_PAGES \<Longrightarrow>
    SplitLeaf t p key = Inr (t', q, sent) \<Longrightarrow>
    page_step t rows (Added (key_bytes key)) t' (rows[0 := route_insert (key_bytes sent) q (rows ! 0)])"
| leaf_remove: "at_page t rows 0 p key \<Longrightarrow> key_bytes key \<in> set (tree_keys t rows) \<Longrightarrow>
    leaf_Delete (bt_nodes t p) key = Inr d \<Longrightarrow>
    page_step t rows (Removed (key_bytes key)) (set_node t p d) rows"
| sep_put: "at_page t rows (Suc i) p sep \<Longrightarrow> (key_bytes sep, v) \<in> set (rows ! i) \<Longrightarrow>
    key_bytes sep \<notin> fst ` set (inter_ents (bt_nodes t p)) \<Longrightarrow>
    inter_HasSpace (bt_nodes t p) sep = Inr True \<Longrightarrow> inter_Insert (bt_nodes t p) sep v = Inr d \<Longrightarrow>
    page_step t rows Linked (set_node t p d) rows"
| sep_split: "at_page t rows (Suc i) p sep \<Longrightarrow> (key_bytes sep, v) \<in> set (rows ! i) \<Longrightarrow>
    key_bytes sep \<notin> fst ` set (inter_ents (bt_nodes t p)) \<Longrightarrow>
    inter_HasSpace (bt_nodes t p) sep = Inr False \<Longrightarrow> next_pid t < MAX_POOL_PAGES \<Longrightarrow>
    SplitInter t p sep v = Inr (t', q, sent) \<Longrightarrow>
    page_step t rows Linked t' (rows[Suc i := route_insert (key_bytes sent) q (rows ! Suc i)])"
| new_root: "(key_bytes sep, q) \<in> set (last rows) \<Longrightarrow> key_ok sep \<Longrightarrow> key_size_ok (key_bytes sep) \<Longrightarrow> length rows < 256 \<Longrightarrow>
    next_pid t < MAX_POOL_PAGES \<Longrightarrow> CreateNewRoot t (word_of_nat (length rows - 1)) sep (root_id t) q = Inr t' \<Longrightarrow>
    page_step t rows Linked t' (rows @ [[([], root_id t')]])"

lemma at_page_row:
  assumes lt: "link_tree t rows" and at: "at_page t rows i p key"
  obtains xs low ys where "rows ! i = xs @ (low, p) # ys" "seg (level_node i) (bt_nodes t) (xs @ (low, p) # ys) no_next"
    "level_node i (bt_nodes t p) low (nxt ys no_next)" "low \<le> key_bytes key" "below (key_bytes key) (fst (nxt ys no_next))"
    "distinct (map snd (xs @ (low, p) # ys))" "p < next_pid t"
proof -
  note a = at [unfolded at_page_def] and l = lt [unfolded link_tree_def]
  obtain low xs ys where r: "rows ! i = xs @ (low, p) # ys" "low \<le> key_bytes key" using a by (metis split_list)
  have sg: "seg (level_node i) (bt_nodes t) (xs @ (low, p) # ys) no_next" using a l r(1) by metis
  then have n: "level_node i (bt_nodes t p) low (nxt ys no_next)" by (simp add: seg_append)
  have "klen key \<noteq> 0" using a key_size_klen by blast
  then have "below (key_bytes key) (fst (nxt ys no_next))"
    using a n leaf_HasSplit_ok [of "bt_nodes t p" low "nxt ys no_next" key] inter_HasSplit_ok [of i "bt_nodes t p" low "nxt ys no_next" key]
    by (auto simp: level_node_def split: if_splits)
  moreover have "p < next_pid t" using l in_pids [of i rows p] a r(1) by auto
  moreover have "distinct (map snd (rows ! i))" using l a pids_nth [of i rows] by auto
  ultimately show thesis using that [OF r(1) sg n r(2)] r(1) by simp
qed

lemma at_leaf_fits:
  assumes "leaf_node d low nx" "at_page t rows 0 p key" "low \<le> key_bytes key" "below (key_bytes key) (fst nx)"
    and "key_bytes key \<notin> set (page_keys leaf_fmt d)"
  shows "key_fits leaf_fmt d low nx key"
  using assms by (simp add: key_fits_def at_page_def)

lemma leaf_row_insort:
  assumes sg: "seg leaf_node N (xs @ (low, p) # ys) no_next" and k: "low \<le> k" "below k (fst (nxt ys no_next))"
  shows "row_keys (page_keys leaf_fmt) N xs @ insort k (page_keys leaf_fmt (N p)) @ row_keys (page_keys leaf_fmt) N ys =
    insort k (row_keys (page_keys leaf_fmt) N (xs @ (low, p) # ys))"
proof -
  have "x < k" if "x \<in> set (row_keys (page_keys leaf_fmt) N xs)" for x
    using leaf_walk.around(1) [OF sg k that] k(1) by simp
  with leaf_walk.around(2) [OF sg k] show ?thesis by (simp add: insort_mid)
qed

section \<open>Every section keeps the tree\<close>

lemma level_sorted: "seg (level_node i) N r nx \<Longrightarrow> sorted_wrt (<) (map fst r)"
  using leaf_walk.seg_sorted inter_walk.seg_sorted by (cases i) (auto simp: level_node_def)

lemma row_keys_update: "set (row_keys K (N(p := d)) r) \<subseteq> set (row_keys K N r) \<union> set (K d)"
  by (induction r) (auto split: if_splits)

lemma page_rewritten:
  assumes lt: "link_tree t rows" and i: "i < length rows" and row: "rows ! i = xs @ (low, p) # ys"
    and d: "level_node i d low (nxt ys no_next)" and ents: "\<And>j. i = Suc j \<Longrightarrow> set (inter_ents d) \<subseteq> set (rows ! j)"
  shows "link_tree (set_node t p d) rows"
proof -
  note l = lt [unfolded link_tree_def]
  have sg: "seg (level_node i) (bt_nodes t) (xs @ (low, p) # ys) no_next" using l i row by metis
  have dist: "distinct (map snd (xs @ (low, p) # ys))" using l pids_nth [OF i] row by auto
  have below: "\<forall>x \<in> snd ` set (rows ! i). x < next_pid t" using l pids_nth [OF i] by auto
  have "seg (level_node i) ((bt_nodes t)(p := d)) (xs @ (low, p) # ys) no_next"
    by (rule seg_replace [OF sg dist]) (use d dist in \<open>auto simp: image_iff\<close>)
  moreover have "set (row_ents ((bt_nodes t)(p := d)) (rows ! i)) \<subseteq> set (rows ! j)" if "i = Suc j" for j
  proof -
    have "set (row_ents (bt_nodes t) (rows ! i)) \<subseteq> set (rows ! j)" using l i that by blast
    with ents [OF that] row_keys_update [of inter_ents "bt_nodes t" p d "rows ! i"] show ?thesis by blast
  qed
  ultimately have "link_tree (set_node t p d) (rows[i := rows ! i])"
    using dist below i by (intro link_tree_row(1) [OF lt]) (auto simp: set_node_def next_pid_def row)
  then show ?thesis by simp
qed

lemma page_divided:
  assumes lt: "link_tree t rows" and i: "i < length rows" and row: "rows ! i = xs @ (low, p) # ys" and q: "next_pid t < MAX_POOL_PAGES"
    and d: "level_node i l low (Some k, next_pid t)" "level_node i r k (nxt ys no_next)" "low < k" "below k (fst (nxt ys no_next))"
    and ents: "\<And>j. i = Suc j \<Longrightarrow> set (inter_ents l) \<union> set (inter_ents r) \<subseteq> set (rows ! j)"
  defines "rows' \<equiv> rows[i := route_insert k (next_pid t) (rows ! i)]" and "t' \<equiv> with_page t ((bt_nodes t)(p := l, next_pid t := r))"
  shows "link_tree t' rows'" "rows_kept rows rows'" "rows' ! i = xs @ (low, p) # (k, next_pid t) # ys"
proof -
  let ?q = "next_pid t" and ?N' = "(bt_nodes t)(p := l, next_pid t := r)"
  note lk = lt [unfolded link_tree_def]
  have sg: "seg (level_node i) (bt_nodes t) (xs @ (low, p) # ys) no_next" using lk i row by metis
  have dist: "distinct (map snd (xs @ (low, p) # ys))" using lk pids_nth [OF i] row by auto
  have less: "\<forall>x \<in> snd ` set (rows ! i). x < ?q" using lk pids_nth [OF i] by auto
  then have "?q \<notin> snd ` set (rows ! i)" by (meson less_irrefl)
  then have pq: "p \<noteq> ?q" "?q \<notin> snd ` set (xs @ ys)" by (auto simp: row)
  have ri: "route_insert k ?q (rows ! i) = xs @ (low, p) # (k, ?q) # ys"
    unfolding row by (rule row_insert [OF level_sorted [OF sg] d(3,4)])
  then show r': "rows' ! i = xs @ (low, p) # (k, ?q) # ys" using i by (simp add: rows'_def)
  have np: "unat (next_pid t') = unat ?q + 1" using next_pid_less(2) [OF q] by (simp add: t'_def)
  then have lt': "?q < next_pid t'" by (simp only: word_less_nat_alt)
  have same: "?N' x = bt_nodes t x" if "x \<in> snd ` set (xs @ ys)" for x
  proof -
    have "p \<notin> snd ` set (xs @ ys)" using dist by auto
    with that pq(2) have "x \<noteq> p" "x \<noteq> ?q" by blast+
    then show ?thesis by simp
  qed
  have s': "seg (level_node i) ?N' (xs @ (low, p) # (k, ?q) # ys) no_next"
    by (rule seg_split [OF sg same]) (use d pq lk next_pid_less(1) [OF q] in auto)
  have e': "set (row_ents ?N' (xs @ (low, p) # (k, ?q) # ys)) \<subseteq> set (rows ! j)" if "i = Suc j" for j
  proof -
    have "set (row_ents (bt_nodes t) (rows ! i)) \<subseteq> set (rows ! j)" using lk i that by blast
    moreover have "set (row_ents ?N' (xs @ (low, p) # (k, ?q) # ys)) \<subseteq> set (row_ents ?N' (rows ! i)) \<union> set (inter_ents r)"
      by (auto simp: row)
    ultimately show ?thesis
      using ents [OF that] row_keys_update [of inter_ents "bt_nodes t" p l "rows ! i"]
        row_keys_update [of inter_ents "(bt_nodes t)(p := l)" ?q r "rows ! i"] by blast
  qed
  have "distinct (map snd (xs @ (low, p) # (k, ?q) # ys))" using dist pq by auto
  moreover have "\<forall>x \<in> snd ` set (xs @ (low, p) # (k, ?q) # ys). x < next_pid t'" using less lt' by (auto simp: row intro: less_trans)
  moreover have "bt_nodes t' x = bt_nodes t x" if "x < ?q" "x \<notin> snd ` set (rows ! i)" for x using that by (auto simp: t'_def row)
  moreover have "set (rows ! i) \<subseteq> set (xs @ (low, p) # (k, ?q) # ys)"
    "snd ` set (xs @ (low, p) # (k, ?q) # ys) \<subseteq> insert ?q (snd ` set (rows ! i))" by (auto simp: row)
  moreover have "bt_nodes t' = ?N'" "root_id t' = root_id t" "?q \<le> next_pid t'" using lt' by (simp_all add: t'_def)
  ultimately show "link_tree t' rows'" "rows_kept rows rows'"
    unfolding rows'_def ri using link_tree_row [of t rows i t' "xs @ (low, p) # (k, ?q) # ys"] lt i s' e' by metis+
qed

lemma level_node_simps [simp]: "level_node 0 = leaf_node" "level_node (Suc i) = inter_node (Suc i)"
  by (simp_all add: level_node_def)

text \<open>The leaf a section works on, in its row.\<close>

definition leaf_at :: "BTreeIndex \<Rightarrow> row list \<Rightarrow> page_id \<Rightarrow> Key \<Rightarrow> row \<Rightarrow> u8 list \<Rightarrow> row \<Rightarrow> bool" where
  "leaf_at t rows p key xs low ys \<longleftrightarrow>
     rows ! 0 = xs @ (low, p) # ys \<and> seg leaf_node (bt_nodes t) (xs @ (low, p) # ys) no_next \<and>
     leaf_node (bt_nodes t p) low (nxt ys no_next) \<and> low \<le> key_bytes key \<and> below (key_bytes key) (fst (nxt ys no_next)) \<and>
     distinct (map snd (xs @ (low, p) # ys)) \<and> p < next_pid t \<and>
     tree_keys t rows = row_keys (page_keys leaf_fmt) (bt_nodes t) (xs @ (low, p) # ys) \<and>
     hd rows = xs @ (low, p) # ys \<and> 0 < length rows"

lemma leaf_atD:
  assumes "leaf_at t rows p key xs low ys"
  shows "rows ! 0 = xs @ (low, p) # ys" "seg leaf_node (bt_nodes t) (xs @ (low, p) # ys) no_next"
    "leaf_node (bt_nodes t p) low (nxt ys no_next)" "low \<le> key_bytes key" "below (key_bytes key) (fst (nxt ys no_next))"
    "distinct (map snd (xs @ (low, p) # ys))" "p < next_pid t"
    "tree_keys t rows = row_keys (page_keys leaf_fmt) (bt_nodes t) (xs @ (low, p) # ys)" "hd rows = xs @ (low, p) # ys" "0 < length rows"
  using assms unfolding leaf_at_def by blast+

lemma leaf_row:
  assumes lt: "link_tree t rows" and at: "at_page t rows 0 p key"
  obtains xs low ys where "leaf_at t rows p key xs low ys"
proof -
  have ne: "rows \<noteq> []" using lt by (simp add: link_tree_def)
  obtain xs low ys where r: "rows ! 0 = xs @ (low, p) # ys" "seg (level_node 0) (bt_nodes t) (xs @ (low, p) # ys) no_next"
    "level_node 0 (bt_nodes t p) low (nxt ys no_next)" "low \<le> key_bytes key" "below (key_bytes key) (fst (nxt ys no_next))"
    "distinct (map snd (xs @ (low, p) # ys))" "p < next_pid t"
    by (rule at_page_row [OF lt at])
  have "hd rows = xs @ (low, p) # ys" using r(1) ne by (simp add: hd_conv_nth)
  with r ne have "leaf_at t rows p key xs low ys" unfolding level_node_simps leaf_at_def by (simp add: tree_keys_def)
  then show thesis by (rule that)
qed

lemma leaf_put_ok:
  assumes lt: "link_tree t rows" and at: "at_page t rows 0 p key" and new: "key_bytes key \<notin> set (tree_keys t rows)"
    and sp: "page_tight leaf_fmt (bt_nodes t p)" "leaf_HasSpace (bt_nodes t p) key = Inr True" and d: "leaf_Insert (bt_nodes t p) key = Inr d"
  shows "link_tree (set_node t p d) rows" "tree_keys (set_node t p d) rows = insort (key_bytes key) (tree_keys t rows)"
proof -
  obtain xs low ys where "leaf_at t rows p key xs low ys" by (rule leaf_row [OF lt at])
  note r = leaf_atD [OF this]
  have "key_bytes key \<notin> set (page_keys leaf_fmt (bt_nodes t p))" using new r(8) by simp
  from leaf_insert_node [OF r(3) sp(1) at_leaf_fits [OF r(3) at r(4,5) this] sp(2)] d
  have n: "leaf_node d low (nxt ys no_next)" "page_keys leaf_fmt d = insort (key_bytes key) (page_keys leaf_fmt (bt_nodes t p))" by auto
  show "link_tree (set_node t p d) rows" by (rule page_rewritten [OF lt r(10,1)]) (simp_all add: n(1))
  show "tree_keys (set_node t p d) rows = insort (key_bytes key) (tree_keys t rows)"
    unfolding r(8) leaf_row_insort [OF r(2,4,5), symmetric] n(2) [symmetric]
    using leaf_walk.row_changed(2) [OF r(2,6) n(1), of "page_keys leaf_fmt"] by (simp add: tree_keys_def set_node_def r(9))
qed

lemma leaf_remove_ok:
  assumes lt: "link_tree t rows" and at: "at_page t rows 0 p key" and mem: "key_bytes key \<in> set (tree_keys t rows)"
    and d: "leaf_Delete (bt_nodes t p) key = Inr d"
  shows "link_tree (set_node t p d) rows" "tree_keys (set_node t p d) rows = filter (\<lambda>x. x \<noteq> key_bytes key) (tree_keys t rows)"
proof -
  let ?k = "key_bytes key" and ?K = "row_keys (page_keys leaf_fmt) (bt_nodes t)"
  obtain xs low ys where "leaf_at t rows p key xs low ys" by (rule leaf_row [OF lt at])
  note r = leaf_atD [OF this]
  have out: "?k \<notin> set (?K xs)" "?k \<notin> set (?K ys)"
    using leaf_walk.around(1,2) [OF r(2,4,5), of ?k] r(4) by auto
  then have mp: "?k \<in> set (page_keys leaf_fmt (bt_nodes t p))" using mem r(8) by simp
  have nk: "node_ok leaf_fmt (bt_nodes t p) 0 low (nxt ys no_next)" and k: "key_ok key" "klen key \<noteq> 0"
    using r(3) at key_size_klen by (auto simp: leaf_node_def at_page_def)
  have u: "leaf_updated (bt_nodes t p) (filter (\<lambda>k. k \<noteq> ?k) (page_keys leaf_fmt (bt_nodes t p))) d"
    using leaf_Delete_updated [OF node_okD(1) [OF nk] leaf_node_keys(1) [OF r(3)] k mp] d by auto
  have n: "leaf_node d low (nxt ys no_next)"
    using r(3) u by (auto simp: leaf_node_def node_ok_def leaf_updated_def leaf_keys_sorted sorted_wrt_filter)
  show "link_tree (set_node t p d) rows" by (rule page_rewritten [OF lt r(10,1)]) (simp_all add: n)
  have "filter (\<lambda>k. k \<noteq> ?k) (?K xs) = ?K xs" "filter (\<lambda>k. k \<noteq> ?k) (?K ys) = ?K ys" using out by (auto simp: filter_id_conv)
  then show "tree_keys (set_node t p d) rows = filter (\<lambda>x. x \<noteq> ?k) (tree_keys t rows)"
    using leaf_walk.row_changed(2) [OF r(2,6) n, of "page_keys leaf_fmt"] u
    by (simp add: tree_keys_def set_node_def r(9) leaf_updated_def)
qed

lemma leaf_split_ok:
  assumes lt: "link_tree t rows" and at: "at_page t rows 0 p key" and new: "key_bytes key \<notin> set (tree_keys t rows)"
    and sp: "page_tight leaf_fmt (bt_nodes t p)" "2 \<le> unat (GetCount (bt_nodes t p))" and q: "next_pid t < MAX_POOL_PAGES"
    and t': "SplitLeaf t p key = Inr (t', q, sent)"
  defines "rows' \<equiv> rows[0 := route_insert (key_bytes sent) q (rows ! 0)]"
  shows "link_tree t' rows'" "rows_kept rows rows'" "tree_keys t' rows' = insort (key_bytes key) (tree_keys t rows)"
proof -
  obtain xs low ys where "leaf_at t rows p key xs low ys" by (rule leaf_row [OF lt at])
  note r = leaf_atD [OF this]
  have new': "key_bytes key \<notin> set (page_keys leaf_fmt (bt_nodes t p))" and pq: "p \<noteq> next_pid t" using new r(7,8) by auto
  obtain l rr where s: "t' = with_page t ((bt_nodes t)(p := l, next_pid t := rr))" "q = next_pid t"
    "leaf_halves (bt_nodes t p) low (nxt ys no_next) key (next_pid t) l rr sent"
    using SplitLeaf_ok [OF r(3) sp(1) at_leaf_fits [OF r(3) at r(4,5) new'] sp(2) q pq] t' by auto
  note h = s(3) [unfolded leaf_halves_def]
  note pd = page_divided [OF lt r(10,1) q, of l "key_bytes sent" rr, folded s(1), folded s(2), folded rows'_def]
  show "link_tree t' rows'" "rows_kept rows rows'" using pd(1,2) h by (simp_all add: s(2))
  have nq: "next_pid t \<notin> snd ` set (xs @ (low, p) # ys)" "next_pid t \<noteq> 0"
    using lt pids_nth [of 0 rows] r(1,10) by (auto simp: link_tree_def)
  have "route_insert (key_bytes sent) (next_pid t) (xs @ (low, p) # ys) = hd rows'"
    using r(1,10) by (cases rows) (auto simp: rows'_def s(2))
  then show "tree_keys t' rows' = insort (key_bytes key) (tree_keys t rows)"
    unfolding r(8) leaf_row_insort [OF r(2,4,5), symmetric]
    using leaf_walk.row_split(2) [OF r(2,6) nq next_pid_less(1) [OF q], of l "key_bytes sent" rr "page_keys leaf_fmt"] h
    by (simp add: tree_keys_def s(1))
qed

lemma set_route_insert: "set (route_insert s v es) = insert (s, v) (set es)"
proof -
  have "set es = set (takeWhile (\<lambda>e. fst e < s) es) \<union> set (dropWhile (\<lambda>e. fst e < s) es)"
    by (metis set_append takeWhile_dropWhile_id)
  then show ?thesis by (auto simp: route_insert_def)
qed

text \<open>The page of a level above that a separator goes to.\<close>

lemma sep_row:
  assumes lt: "link_tree t rows" and at: "at_page t rows (Suc i) p sep" and mem: "(key_bytes sep, v) \<in> set (rows ! i)"
    and new: "key_bytes sep \<notin> fst ` set (inter_ents (bt_nodes t p))"
  obtains xs low ys where "Suc i < length rows" "rows ! Suc i = xs @ (low, p) # ys" "inter_node (Suc i) (bt_nodes t p) low (nxt ys no_next)"
    "key_fits inter_fmt (bt_nodes t p) low (nxt ys no_next) sep" "v \<noteq> 0" "p \<noteq> next_pid t"
    "insert (key_bytes sep, v) (set (inter_ents (bt_nodes t p))) \<subseteq> set (rows ! i)"
proof -
  obtain xs low ys where r: "rows ! Suc i = xs @ (low, p) # ys" "level_node (Suc i) (bt_nodes t p) low (nxt ys no_next)"
    "low \<le> key_bytes sep" "below (key_bytes sep) (fst (nxt ys no_next))" "p < next_pid t"
    by (rule at_page_row [OF lt at])
  note a = at [unfolded at_page_def] and l = lt [unfolded link_tree_def]
  have n: "inter_node (Suc i) (bt_nodes t p) low (nxt ys no_next)" using r(2) by simp
  have i: "i < length rows" "Suc i < length rows" using a by auto
  have v: "v \<noteq> 0" using seg_page [of "level_node i" "bt_nodes t" "rows ! i" no_next "key_bytes sep" v] l i(1) mem by blast
  have "set (inter_ents (bt_nodes t p)) \<subseteq> set (row_ents (bt_nodes t) (rows ! Suc i))" by (auto simp: r(1))
  with l i(2) mem have s: "insert (key_bytes sep, v) (set (inter_ents (bt_nodes t p))) \<subseteq> set (rows ! i)" by blast
  have f: "key_fits inter_fmt (bt_nodes t p) low (nxt ys no_next) sep" using a by (intro covered_fits [OF n r(3,4) _ _ new]) auto
  have "p \<noteq> next_pid t" using r(5) by simp
  from that [OF i(2) r(1) n f v this s] show thesis .
qed

lemma tree_keys_leaf_row:
  assumes "\<And>x. x \<in> snd ` set (hd rows) \<Longrightarrow> bt_nodes t' x = bt_nodes t x" "hd rows' = hd rows"
  shows "tree_keys t' rows' = tree_keys t rows"
  unfolding tree_keys_def assms(2) by (rule row_keys_cong) (rule assms(1))

lemma not_in_leaf_row:
  assumes "link_tree t rows" "Suc i < length rows" "p \<in> snd ` set (rows ! Suc i)"
  shows "p \<notin> snd ` set (hd rows)" "next_pid t \<notin> snd ` set (hd rows)"
proof -
  note l = assms(1) [unfolded link_tree_def]
  have h: "hd rows = rows ! 0" "0 < length rows" using l by (simp_all add: hd_conv_nth)
  show "p \<notin> snd ` set (hd rows)" unfolding h(1) using l h(2) assms(2,3) by (intro pids_other_row [of rows 0 "Suc i"]) auto
  show "next_pid t \<notin> snd ` set (hd rows)" unfolding h(1) using l in_pids [OF h(2), of "next_pid t"] by blast
qed

lemma sep_put_ok:
  assumes lt: "link_tree t rows" and at: "at_page t rows (Suc i) p sep" and mem: "(key_bytes sep, v) \<in> set (rows ! i)"
    and new: "key_bytes sep \<notin> fst ` set (inter_ents (bt_nodes t p))"
    and sp: "inter_HasSpace (bt_nodes t p) sep = Inr True" and d: "inter_Insert (bt_nodes t p) sep v = Inr d"
  shows "link_tree (set_node t p d) rows" "tree_keys (set_node t p d) rows = tree_keys t rows"
proof -
  obtain xs low ys where r: "Suc i < length rows" "rows ! Suc i = xs @ (low, p) # ys" "inter_node (Suc i) (bt_nodes t p) low (nxt ys no_next)"
    "key_fits inter_fmt (bt_nodes t p) low (nxt ys no_next) sep" "v \<noteq> 0" "p \<noteq> next_pid t"
    "insert (key_bytes sep, v) (set (inter_ents (bt_nodes t p))) \<subseteq> set (rows ! i)" by (rule sep_row [OF lt at mem new])
  have n: "inter_node (Suc i) d low (nxt ys no_next)" "inter_ents d = route_insert (key_bytes sep) v (inter_ents (bt_nodes t p))"
    using inter_insert_node [OF r(3-5) sp] d by auto
  show "link_tree (set_node t p d) rows"
    by (rule page_rewritten [OF lt r(1,2)]) (use r(7) n in \<open>simp_all add: set_route_insert\<close>)
  show "tree_keys (set_node t p d) rows = tree_keys t rows"
    using not_in_leaf_row(1) [OF lt r(1), of p] by (intro tree_keys_leaf_row) (auto simp: set_node_def r(2))
qed

lemma sep_split_ok:
  assumes lt: "link_tree t rows" and at: "at_page t rows (Suc i) p sep" and mem: "(key_bytes sep, v) \<in> set (rows ! i)"
    and new: "key_bytes sep \<notin> fst ` set (inter_ents (bt_nodes t p))"
    and sp: "inter_HasSpace (bt_nodes t p) sep = Inr False" and q: "next_pid t < MAX_POOL_PAGES"
    and t': "SplitInter t p sep v = Inr (t', q, sent)"
  defines "rows' \<equiv> rows[Suc i := route_insert (key_bytes sent) q (rows ! Suc i)]"
  shows "link_tree t' rows'" "rows_kept rows rows'" "tree_keys t' rows' = tree_keys t rows"
proof -
  obtain xs low ys where r: "Suc i < length rows" "rows ! Suc i = xs @ (low, p) # ys" "inter_node (Suc i) (bt_nodes t p) low (nxt ys no_next)"
    "key_fits inter_fmt (bt_nodes t p) low (nxt ys no_next) sep" "v \<noteq> 0" "p \<noteq> next_pid t"
    "insert (key_bytes sep, v) (set (inter_ents (bt_nodes t p))) \<subseteq> set (rows ! i)" by (rule sep_row [OF lt at mem new])
  obtain l rr where s: "t' = with_page t ((bt_nodes t)(p := l, next_pid t := rr))" "q = next_pid t"
    "inter_node (Suc i) l low (Some (key_bytes sent), next_pid t)" "inter_node (Suc i) rr (key_bytes sent) (nxt ys no_next)"
    "inter_ents l @ inter_ents rr = route_insert (key_bytes sep) v (inter_ents (bt_nodes t p))" "low < key_bytes sent"
    "below (key_bytes sent) (fst (nxt ys no_next))"
    using SplitInter_ok [OF r(3,4) sp q r(6), of v] t' by auto
  have ents: "set (inter_ents l) \<union> set (inter_ents rr) \<subseteq> set (rows ! i)"
    using r(7) arg_cong [OF s(5), of set] by (simp add: set_route_insert)
  note pd = page_divided [OF lt r(1,2) q, of l "key_bytes sent" rr, folded s(1), folded s(2), folded rows'_def]
  show "link_tree t' rows'" "rows_kept rows rows'" using pd(1,2) s(2-4,6,7) ents by simp_all
  have "bt_nodes t' x = bt_nodes t x" if "x \<in> snd ` set (hd rows)" for x
  proof -
    have "p \<in> snd ` set (rows ! Suc i)" by (simp add: r(2))
    then have "x \<noteq> p" "x \<noteq> next_pid t" using not_in_leaf_row [OF lt r(1)] that by blast+
    then show ?thesis by (simp add: s(1))
  qed
  moreover have "hd rows' = hd rows" using r(1) by (cases rows) (simp_all add: rows'_def)
  ultimately show "tree_keys t' rows' = tree_keys t rows" by (rule tree_keys_leaf_row)
qed

lemma new_root_ok:
  assumes lt: "link_tree t rows" and mem: "(key_bytes sep, q) \<in> set (last rows)" and k: "key_ok sep" "key_size_ok (key_bytes sep)"
    and len: "length rows < 256" and np: "next_pid t < MAX_POOL_PAGES"
    and t': "CreateNewRoot t (word_of_nat (length rows - 1)) sep (root_id t) q = Inr t'"
  shows "link_tree t' (rows @ [[([], root_id t')]])" "tree_keys t' (rows @ [[([], root_id t')]]) = tree_keys t rows"
proof -
  let ?q = "next_pid t" and ?n = "length rows"
  note l = lt [unfolded link_tree_def]
  have n: "0 < ?n" using l by simp
  have lv: "unat (word_of_nat (?n - 1) :: u8) = ?n - 1" using len by (simp add: unat_of_nat)
  have "?n - 1 + 1 < 256" using n len by linarith
  note root = CreateNewRoot_ok [OF k np, of "word_of_nat (?n - 1)" "root_id t" q, unfolded lv, OF this]
  obtain d where d: "t' = (with_page t ((bt_nodes t)(?q := d)))\<lparr>root_id := ?q\<rparr>" "inter_node ?n d [] no_next"
    "inter_ents d = [([], root_id t), (key_bytes sep, q)]"
    using root t' n by auto
  have np': "next_pid t' = ?q + 1" by (simp add: d(1) next_pid_def with_page_def next_of_def)
  then have "unat (next_pid t') = unat ?q + 1" using next_pid_less(2) [OF np] by simp
  then have less: "?q < next_pid t'" by (simp only: word_less_nat_alt)
  have same: "bt_nodes t' x = bt_nodes t x" if "i < ?n" "x \<in> snd ` set (rows ! i)" for i x
    using in_pids [OF that] l by (auto simp: d(1))
  let ?rows = "rows @ [[([], root_id t')]]"
  have "seg (level_node i) (bt_nodes t') (?rows ! i) no_next" if "i < length ?rows" for i
  proof (cases "i < ?n")
    case True
    with l show ?thesis by (auto simp: nth_append seg_cong [OF same [OF True]])
  next
    case False
    then show ?thesis using that n d l next_pid_less(1) [OF np] by (simp add: level_node_def nth_append less_Suc_eq)
  qed
  moreover have "set (row_ents (bt_nodes t') (?rows ! Suc i)) \<subseteq> set (?rows ! i)" if "Suc i < length ?rows" for i
  proof (cases "Suc i < ?n")
    case True
    with l show ?thesis by (auto simp: nth_append row_keys_cong [where K = inter_ents, OF same [OF True]])
  next
    case False
    then have i: "?n = Suc i" using that by simp
    then have "last rows = rows ! i" using last_conv_nth [of rows] l by simp
    then show ?thesis using i l mem d(1,3) by (auto simp: nth_append)
  qed
  moreover have "pids ?rows = pids rows @ [?q]" by (simp add: pids_def d(1))
  then have "distinct (pids ?rows)" "\<forall>p \<in> set (pids ?rows). p < next_pid t'"
    using l less by (auto intro: less_trans)
  moreover have "next_pid t' \<noteq> 0" using less by auto
  ultimately show "link_tree t' ?rows" unfolding link_tree_def by simp
  show "tree_keys t' ?rows = tree_keys t rows"
    using l n same [of 0] by (intro tree_keys_leaf_row) (auto simp: hd_conv_nth nth_append)
qed

text \<open>What all sections have in common.\<close>

lemma rows_kept_refl [simp]: "rows_kept rows rows"
  by (simp add: rows_kept_def)

lemma rows_kept_trans: "rows_kept a b \<Longrightarrow> rows_kept b c \<Longrightarrow> rows_kept a c"
  unfolding rows_kept_def by (meson le_trans less_le_trans subset_trans)

lemma page_step_ok:
  assumes "page_step t rows e t' rows'" "link_tree t rows"
  shows "link_tree t' rows' \<and> rows_kept rows rows' \<and> tree_keys t' rows' = event_keys e (tree_keys t rows)"
  using assms
proof cases
  case (leaf_split p key q sent)
  obtain xs low ys where "leaf_at t rows p key xs low ys" by (rule leaf_row [OF assms(2) leaf_split(3)])
  note r = leaf_atD [OF this]
  have "key_bytes key \<notin> set (page_keys leaf_fmt (bt_nodes t p))" using leaf_split(4) r(8) by simp
  with leaf_room [OF r(3) leaf_split(5) at_leaf_fits [OF r(3) leaf_split(3) r(4,5)]] leaf_split(6)
  have "2 \<le> unat (GetCount (bt_nodes t p))" by auto
  from leaf_split_ok [OF assms(2) leaf_split(3-5) this leaf_split(7,8)] show ?thesis using leaf_split by simp
next
  case (leaf_put p key d)
  then show ?thesis using leaf_put_ok [OF assms(2)] by simp
next
  case (leaf_remove p key d)
  then show ?thesis using leaf_remove_ok [OF assms(2)] by simp
next
  case (sep_put i p sep v d)
  then show ?thesis using sep_put_ok [OF assms(2)] by simp
next
  case (sep_split i p sep v q sent)
  then show ?thesis using sep_split_ok [OF assms(2)] by simp
next
  case (new_root sep q)
  then show ?thesis using new_root_ok [OF assms(2)] by (simp add: rows_kept_def nth_append)
qed

section \<open>Moving right in a moving tree\<close>

text \<open>From any page that lies left of the key on a level, moving right ends on the page that covers it: this is where the
  sections start, whatever has happened since the page was put on the stack.\<close>

lemma GoRight_at_page:
  assumes lt: "link_tree t rows" and i: "i < length rows" and l: "(l, q) \<in> set (rows ! i)" "l \<le> key_bytes key"
    and k: "key_ok key" "key_size_ok (key_bytes key)"
  shows "\<exists>p. (if i = 0 then GoRightLeaf else GoRightInter) (bt_nodes t) q key = Some (Inr p) \<and> at_page t rows i p key"
proof -
  have kn: "klen key \<noteq> 0" using key_size_klen [OF k] by simp
  have sg: "seg (level_node i) (bt_nodes t) (rows ! i) no_next" using lt i by (simp add: link_tree_def)
  show ?thesis
  proof (cases i)
    case 0
    then have "seg leaf_node (bt_nodes t) (rows ! i) no_next" using sg by simp
    from leaf_walk.walk_row [OF this l k(1) kn] obtain xs low p ys where w: "rows ! i = xs @ (low, p) # ys"
      "GoRightLeaf (bt_nodes t) q key = Some (Inr p)" "low \<le> key_bytes key" "below (key_bytes key) (fst (nxt ys no_next))" by metis
    have "leaf_node (bt_nodes t p) low (nxt ys no_next)" using sg 0 w(1) by (simp add: seg_append)
    from leaf_HasSplit_ok [OF this k(1) kn] w 0 i k show ?thesis by (auto simp: at_page_def)
  next
    case (Suc j)
    then have "seg (inter_node i) (bt_nodes t) (rows ! i) no_next" using sg by simp
    from inter_walk.walk_row [OF this l k(1) kn] obtain xs low p ys where w: "rows ! i = xs @ (low, p) # ys"
      "GoRightInter (bt_nodes t) q key = Some (Inr p)" "low \<le> key_bytes key" "below (key_bytes key) (fst (nxt ys no_next))" by metis
    have "inter_node i (bt_nodes t p) low (nxt ys no_next)" using sg Suc w(1) by (simp add: seg_append)
    from inter_HasSplit_ok [OF this k(1) kn] w Suc i k show ?thesis by (auto simp: at_page_def)
  qed
qed

section \<open>A search among other operations\<close>

text \<open>One iteration of the descent, and on a leaf of the move to the right that follows it, on the bytes that a validated read has
  seen: the search is where it wants to be, or goes to another page.\<close>

datatype visit = Here | Go page_id

definition visit_page :: "mem \<Rightarrow> Key \<Rightarrow> visit res" where
  "visit_page d key =
     (if GetLevel d = 0
      then ebind (leaf_HasSplit d key) (\<lambda>split. Inr (if split then Go (GetRLink d) else Here))
      else ebind (inter_HasSplit d key) (\<lambda>split. Inr (Go (if split then GetRLink d else inter_Get d (unat (GetCount d)) key))))"

text \<open>The loops of the code are made of these iterations.\<close>

lemma GoRightLeaf_visit:
  "GetLevel (N p) = 0 \<Longrightarrow> GoRightLeaf N p key = obind (Some (visit_page (N p) key)) (\<lambda>v. case v of
     Here \<Rightarrow> Some (Inr p) | Go q \<Rightarrow> obind (Some (GetNode q)) (\<lambda>q. GoRightLeaf N q key))"
  by (subst GoRightLeaf.simps) (cases "leaf_HasSplit (N p) key"; simp add: visit_page_def)

lemma drop_loop_visit:
  assumes "GetLevel (N p) \<noteq> 0" "visit_page (N p) key = Inr (Go q)"
  shows "drop_loop N st p key = obind (Some (if inter_HasSplit (N p) key = Inr True then Inr st else tl_Push st p)) (\<lambda>st'.
    obind (Some (GetNode q)) (\<lambda>q. drop_loop N st' q key))"
  using assms by (subst drop_loop.simps) (cases "inter_HasSplit (N p) key"; auto simp: visit_page_def Let_def)

text \<open>The search and, between any two of its visits, the sections of others.\<close>

inductive race_step :: "Key \<Rightarrow> BTreeIndex \<times> row list \<times> page_id \<Rightarrow> BTreeIndex \<times> row list \<times> page_id \<Rightarrow> bool" for key where
  other: "page_step t rows e t' rows' \<Longrightarrow> race_step key (t, rows, p) (t', rows', p)"
| visit: "visit_page (bt_nodes t p) key = Inr (Go q) \<Longrightarrow> race_step key (t, rows, p) (t, rows, q)"

inductive_cases race_stepE: "race_step key s s'"

text \<open>The page of the search lies left of the key on its level, or covers it.\<close>

definition on_path :: "row list \<Rightarrow> Key \<Rightarrow> page_id \<Rightarrow> bool" where
  "on_path rows key p \<longleftrightarrow> (\<exists>i < length rows. \<exists>l. (l, p) \<in> set (rows ! i) \<and> l \<le> key_bytes key)"

lemma on_path_kept: "on_path rows key p \<Longrightarrow> rows_kept rows rows' \<Longrightarrow> on_path rows' key p"
  unfolding on_path_def rows_kept_def by (meson less_le_trans subsetD)

definition visit_good :: "BTreeIndex \<Rightarrow> row list \<Rightarrow> Key \<Rightarrow> page_id \<Rightarrow> visit \<Rightarrow> bool" where
  "visit_good t rows key p v \<longleftrightarrow> (case v of
     Go q \<Rightarrow> GetNode q = Inr q \<and> on_path rows key q
   | Here \<Rightarrow> GetLevel (bt_nodes t p) = 0 \<and>
       (key_bytes key \<in> set (tree_keys t rows) \<longleftrightarrow> key_bytes key \<in> set (page_keys leaf_fmt (bt_nodes t p))))"

text \<open>Going right along the link.\<close>

lemma next_in_row:
  assumes "seg P N (xs @ (low, p) # ys) no_next" "\<not> below k (fst (nxt ys no_next))"
  shows "\<exists>l. (l, snd (nxt ys no_next)) \<in> set ys \<and> l \<le> k \<and> GetNode (snd (nxt ys no_next)) = Inr (snd (nxt ys no_next))"
  using assms by (cases ys) (auto simp: no_next_def seg_append GetNode_def not_less)

lemma visit_leaf_ok:
  assumes lt: "link_tree t rows" and k: "key_ok key" "klen key \<noteq> 0" and r: "rows ! 0 = xs @ (low, p) # ys" "low \<le> key_bytes key"
  shows "\<exists>v. visit_page (bt_nodes t p) key = Inr v \<and> visit_good t rows key p v"
proof -
  have l: "0 < length rows" "rows \<noteq> []" "seg leaf_node (bt_nodes t) (xs @ (low, p) # ys) no_next"
    using lt r(1) by (auto simp: link_tree_def level_node_def)
  then have n: "leaf_node (bt_nodes t p) low (nxt ys no_next)" by (simp add: seg_append)
  then have lv: "GetLevel (bt_nodes t p) = 0" using node_links(5) by (simp add: unat_eq_zero)
  note hs = leaf_HasSplit_ok [OF n k]
  show ?thesis
  proof (cases "below (key_bytes key) (fst (nxt ys no_next))")
    case True
    have "visit_page (bt_nodes t p) key = Inr Here" using lv hs True by (simp add: visit_page_def)
    moreover have "tree_keys t rows = row_keys (page_keys leaf_fmt) (bt_nodes t) (xs @ (low, p) # ys)"
      using r(1) l(2) by (simp add: tree_keys_def hd_conv_nth)
    moreover have "key_bytes key \<notin> set (row_keys (page_keys leaf_fmt) (bt_nodes t) xs)"
      "key_bytes key \<notin> set (row_keys (page_keys leaf_fmt) (bt_nodes t) ys)"
      using leaf_walk.around(1,2) [OF l(3) r(2) True, of "key_bytes key"] r(2) by auto
    ultimately show ?thesis using lv by (simp add: visit_good_def)
  next
    case False
    have "visit_page (bt_nodes t p) key = Inr (Go (snd (nxt ys no_next)))"
      using lv hs False node_links(1) [OF n] by (simp add: visit_page_def)
    moreover obtain f where f: "(f, snd (nxt ys no_next)) \<in> set ys" "f \<le> key_bytes key"
      "GetNode (snd (nxt ys no_next)) = Inr (snd (nxt ys no_next))" using next_in_row [OF l(3) False] by blast
    moreover have "on_path rows key (snd (nxt ys no_next))" unfolding on_path_def using l(1) f r(1) by (intro exI [of _ 0]) auto
    ultimately show ?thesis by (simp add: visit_good_def)
  qed
qed

lemma visit_inter_ok:
  assumes lt: "link_tree t rows" and k: "key_ok key" "klen key \<noteq> 0" and i: "Suc i < length rows"
    and r: "rows ! Suc i = xs @ (low, p) # ys" "low \<le> key_bytes key"
  shows "\<exists>v. visit_page (bt_nodes t p) key = Inr v \<and> visit_good t rows key p v"
proof -
  have sg: "seg (inter_node (Suc i)) (bt_nodes t) (xs @ (low, p) # ys) no_next"
    using lt i r(1) unfolding link_tree_def by (metis level_node_simps(2))
  then have n: "inter_node (Suc i) (bt_nodes t p) low (nxt ys no_next)" by (simp add: seg_append)
  then have lv: "GetLevel (bt_nodes t p) \<noteq> 0" using node_links(6) by fastforce
  note hs = inter_HasSplit_ok [OF n k]
  show ?thesis
  proof (cases "below (key_bytes key) (fst (nxt ys no_next))")
    case True
    let ?c = "inter_Get (bt_nodes t p) (unat (GetCount (bt_nodes t p))) key"
    obtain l where c: "(l, ?c) \<in> set (inter_ents (bt_nodes t p))" "l \<le> key_bytes key" using inter_Get_entry [OF n r(2)] by blast
    have "set (row_ents (bt_nodes t) (rows ! Suc i)) \<subseteq> set (rows ! i)" using lt i by (simp add: link_tree_def)
    with c(1) have m: "(l, ?c) \<in> set (rows ! i)" by (auto simp: r(1))
    have "seg (level_node i) (bt_nodes t) (rows ! i) no_next" using lt i by (simp add: link_tree_def)
    from seg_page [OF this m] have "GetNode ?c = Inr ?c" by (simp add: GetNode_def)
    moreover have "on_path rows key ?c" unfolding on_path_def using i m c(2) by (intro exI [of _ i]) auto
    moreover have "visit_page (bt_nodes t p) key = Inr (Go ?c)" using lv hs True by (simp add: visit_page_def)
    ultimately show ?thesis by (simp add: visit_good_def)
  next
    case False
    have "visit_page (bt_nodes t p) key = Inr (Go (snd (nxt ys no_next)))"
      using lv hs False node_links(2) [OF n] by (simp add: visit_page_def)
    moreover obtain f where f: "(f, snd (nxt ys no_next)) \<in> set ys" "f \<le> key_bytes key"
      "GetNode (snd (nxt ys no_next)) = Inr (snd (nxt ys no_next))" using next_in_row [OF sg False] by blast
    moreover have "on_path rows key (snd (nxt ys no_next))" unfolding on_path_def using i f r(1) by (intro exI [of _ "Suc i"]) auto
    ultimately show ?thesis by (simp add: visit_good_def)
  qed
qed

lemma visit_ok:
  assumes "link_tree t rows" "on_path rows key p" "key_ok key" "klen key \<noteq> 0"
  shows "\<exists>v. visit_page (bt_nodes t p) key = Inr v \<and> visit_good t rows key p v"
proof -
  obtain i l xs ys where i: "i < length rows" "rows ! i = xs @ (l, p) # ys" "l \<le> key_bytes key"
    using assms(2) unfolding on_path_def by (metis split_list)
  then show ?thesis using visit_leaf_ok [OF assms(1,3,4)] visit_inter_ok [OF assms(1,3,4)] by (cases i) simp_all
qed

lemma race_step_ok:
  assumes "race_step key s s'" "link_tree (fst s) (fst (snd s))" "on_path (fst (snd s)) key (snd (snd s))" "key_ok key" "klen key \<noteq> 0"
  shows "link_tree (fst s') (fst (snd s')) \<and> on_path (fst (snd s')) key (snd (snd s'))"
  using assms
proof cases
  case (other t rows e t' rows' p)
  then show ?thesis using page_step_ok [of t rows e t' rows'] assms(2,3) by (auto intro: on_path_kept)
next
  case (visit t p q rows)
  then show ?thesis using visit_ok [of t rows key p] assms(2-5) by (auto simp: visit_good_def)
qed

lemma race_ok:
  assumes "(race_step key)\<^sup>*\<^sup>* s s'" "link_tree (fst s) (fst (snd s))" "on_path (fst (snd s)) key (snd (snd s))" "key_ok key" "klen key \<noteq> 0"
  shows "link_tree (fst s') (fst (snd s')) \<and> on_path (fst (snd s')) key (snd (snd s'))"
  using assms(1) by induction (use assms race_step_ok in blast)+

section \<open>Two races\<close>

text \<open>What a lookup does on a page when the page changes between its validated read and the reading of its link:
  \<^verbatim>\<open>InternalGet\<close> reads the link after \<^verbatim>\<open>Unlock\<close>. \<open>N\<close> are the pages at the read, \<open>N'\<close> from then on.\<close>

definition get_relinked :: "(page_id \<Rightarrow> mem) \<Rightarrow> (page_id \<Rightarrow> mem) \<Rightarrow> page_id \<Rightarrow> Key \<Rightarrow> u64 list \<Rightarrow> u64 list res option" where
  "get_relinked N N' p key results =
     obind (Some (leaf_Get (N p) (unat (GetCount (N p))) key \<lparr>vec = [], proceed = False\<rparr>)) (\<lambda>tmp.
       let results' = results @ vec tmp
       in if proceed tmp
          then let q = GetRLink (N' p)
               in if q = UNDEFINED_PAGE then Some (Inr results')
                  else obind (Some (GetNode q)) (\<lambda>q. InternalGet N' q key results')
          else Some (Inr results'))"

lemma get_relinked_same: "get_relinked N N p key results = get_page results N key p"
  by (simp add: get_relinked_def get_page_def)

text \<open>A page in the middle of the block of a key: all its entries belong to the key, and so does the next page's first.\<close>

definition in_block :: "u8 list \<Rightarrow> mem \<Rightarrow> bool" where
  "in_block b d \<longleftrightarrow> (\<forall>k \<in> set (page_keys leaf_fmt d). tid_prefix k = b) \<and>
     (\<exists>f. page_fence leaf_fmt d = Some f \<and> tid_prefix f = b)"

lemma leaf_halves_keys:
  assumes "leaf_halves d low nx key q l r sent"
  shows "set (page_keys leaf_fmt l) \<union> set (page_keys leaf_fmt r) = insert (key_bytes key) (set (page_keys leaf_fmt d))"
proof -
  have "page_keys leaf_fmt l @ page_keys leaf_fmt r = insort (key_bytes key) (page_keys leaf_fmt d)"
    using assms by (simp add: leaf_halves_def)
  then show ?thesis by (metis set_append set_insort_key)
qed

lemma split_page_repeats:
  assumes lt: "link_tree t rows" and at: "at_page t rows 0 p new" and fresh: "key_bytes new \<notin> set (tree_keys t rows)"
    and sp: "page_tight leaf_fmt (bt_nodes t p)" "2 \<le> unat (GetCount (bt_nodes t p))" and q: "next_pid t < MAX_POOL_PAGES"
    and t': "SplitLeaf t p new = Inr (t', q, sent)" and blk: "in_block b (bt_nodes t p)"
    and key: "key_ok key" "klen key \<noteq> 0" "key_bytes key = b @ replicate 8 0" "length b < DB7_MAX_ROW_SIZE"
    and pf: "prefix_free (insert b (insert (tid_prefix (key_bytes new)) (row_prefixes (bt_nodes t) (hd rows))))"
  shows "\<exists>vs ws us. get_relinked (bt_nodes t) (bt_nodes t') p key results = Some (Inr (results @ vs @ ws @ us)) \<and>
    tid_of (key_bytes sent) \<in> set vs \<and> tid_of (key_bytes sent) \<in> set ws"
proof -
  let ?N = "bt_nodes t" and ?F = "\<lambda>ks. map tid_of (filter (\<lambda>k. tid_prefix k = b) ks)"
  obtain xs low ys where "leaf_at t rows p new xs low ys" by (rule leaf_row [OF lt at])
  note r = leaf_atD [OF this]
  have new: "key_bytes new \<notin> set (page_keys leaf_fmt (?N p))" and pq: "p \<noteq> next_pid t" using fresh r(7,8) by auto
  obtain l rr where s: "t' = with_page t (?N(p := l, next_pid t := rr))" "q = next_pid t"
    "leaf_halves (?N p) low (nxt ys no_next) new (next_pid t) l rr sent"
    using SplitLeaf_ok [OF r(3) sp(1) at_leaf_fits [OF r(3) at r(4,5) new] sp(2) q pq] t' by auto
  note h = s(3) [unfolded leaf_halves_def]
  note pd = page_divided [OF lt r(10,1) q, of l "key_bytes sent" rr, folded s(1), folded s(2)]
  let ?rows' = "rows[0 := route_insert (key_bytes sent) q (rows ! 0)]" and ?N' = "bt_nodes t'"
  have lt': "link_tree t' ?rows'" and row': "?rows' ! 0 = xs @ (low, p) # (key_bytes sent, q) # ys" using pd(1,3) h s(2) by simp_all
  have sg: "seg leaf_node ?N' ((key_bytes sent, q) # ys) no_next"
    using lt' row' r(10) unfolding link_tree_def by (metis length_list_update level_node_simps(1) seg.simps(2) seg_append)
  have l: "?N' p = l" "?N' q = rr" "GetRLink l = q" using pq node_links(1) h by (auto simp: s(1,2))
  have q0: "q \<noteq> 0" "q \<noteq> UNDEFINED_PAGE" using sg by auto
  have sb: "tid_prefix (key_bytes sent) = b" using h blk by (simp add: in_block_def)
  have fence: "page_fence leaf_fmt (?N p) = fst (nxt ys no_next)" by (rule leaf_node_keys(3) [OF r(3)])
  have len: "8 \<le> length (key_bytes sent)" using leaf_node_keys(2) h by blast
  have cov: "below (key_bytes key) (fst (nxt ys no_next))"
    using start_le [OF sb len] h unfolding key(3) by (metis below_trans)
  have sub: "row_prefixes ?N' ((key_bytes sent, q) # ys) \<subseteq> insert b (insert (tid_prefix (key_bytes new)) (row_prefixes ?N (hd rows)))"
  proof -
    have same: "?N' x = ?N x" if "x \<in> snd ` set ys" for x
    proof -
      have "x \<in> snd ` set (rows ! 0)" "x \<noteq> p" using that r(1,6) by auto
      moreover from this have "x < next_pid t" using lt in_pids [OF r(10), of x] unfolding link_tree_def by blast
      ultimately show ?thesis by (auto simp: s(1))
    qed
    have "set (page_keys leaf_fmt rr) \<subseteq> insert (key_bytes new) (set (page_keys leaf_fmt (?N p)))"
      using leaf_halves_keys [OF s(3)] by blast
    then show ?thesis using sb row_keys_cong [of ys ?N' ?N "page_keys leaf_fmt", OF same]
      by (auto simp: row_prefixes_def r(9) l)
  qed
  have srch: "searchable (?N p) b"
    by (rule node_searchable [OF r(3) pf key(4)]) (auto simp: row_prefixes_def r(9))
  have "leaf_Get (?N p) (unat (GetCount (?N p))) key \<lparr>vec = [], proceed = False\<rparr> = Inr \<lparr>vec = ?F (page_keys leaf_fmt (?N p)), proceed = True\<rparr>"
    using leaf_Get_block [OF srch key(1-3)] blk by (simp add: in_block_def)
  then have "get_relinked ?N ?N' p key results = InternalGet ?N' q key (results @ ?F (page_keys leaf_fmt (?N p)))"
    using q0 by (simp add: get_relinked_def l GetNode_def)
  also have "\<dots> = Some (Inr ((results @ ?F (page_keys leaf_fmt (?N p))) @ ?F (row_keys (page_keys leaf_fmt) ?N' ((key_bytes sent, q) # ys))))"
    using pf sub by (intro Get_block [OF sg cov key]) auto
  finally have "get_relinked ?N ?N' p key results = Some (Inr (results @ ?F (page_keys leaf_fmt (?N p)) @ ?F (page_keys leaf_fmt rr) @
      ?F (row_keys (page_keys leaf_fmt) ?N' ys)))" by (simp add: l)
  moreover have "tid_of (key_bytes sent) \<in> set (?F (page_keys leaf_fmt (?N p)))" "tid_of (key_bytes sent) \<in> set (?F (page_keys leaf_fmt rr))"
    using h sb by auto
  ultimately show ?thesis by blast
qed

text \<open>A thread whose descent ended on the root has an empty stack. When its page is not the root any more, \<^verbatim>\<open>DropToLevel\<close> is to
  find the level above; but as long as no new root stands there, it stops at the root, one level too low.\<close>

lemma DropToLevel_low_root:
  assumes "GetNode (root_id t) = Inr (root_id t)" "GetLevel (bt_nodes t (root_id t)) \<le> lvl" "tl_Push (bt_tl t) (root_id t) = Inr st"
  shows "DropToLevel t key lvl = Some (Inr (t\<lparr>bt_tl := st\<rparr>))"
  using assms by (simp add: DropToLevel_def drop_to_loop.simps Let_def)

lemma SplitLeaf_other_pages:
  assumes "SplitLeaf t p key = Inr (t', q, sent)"
  shows "root_id t' = root_id t" "bt_tl t' = bt_tl t" "x \<noteq> p \<Longrightarrow> x \<noteq> next_pid t \<Longrightarrow> bt_nodes t' x = bt_nodes t x"
proof -
  have "next_pid t < MAX_POOL_PAGES"
    using assms by (rule contrapos_pp) (simp add: SplitLeaf_def ReserveNode_def fsm_index_Get_def next_pid_def next_of_def Let_def)
  then obtain l r where "t' = with_page t ((bt_nodes t)(next_pid t := (\<lambda>_. 0), p := l, next_pid t := r))"
    using assms by (auto simp: SplitLeaf_def ReserveNode_ok ebind_Inr_iff)
  then show "root_id t' = root_id t" "bt_tl t' = bt_tl t" "x \<noteq> p \<Longrightarrow> x \<noteq> next_pid t \<Longrightarrow> bt_nodes t' x = bt_nodes t x" by simp_all
qed

lemma covering_leaf_unique:
  assumes lt: "link_tree t rows" and at: "at_page t rows 0 p key" "at_page t rows 0 p' key"
  shows "p = p'"
proof (rule ccontr)
  obtain xs low ys xs' low' ys' where "leaf_at t rows p key xs low ys" "leaf_at t rows p' key xs' low' ys'"
    using leaf_row [OF lt at(1)] leaf_row [OF lt at(2)] by metis
  note a = leaf_atD [OF this(1)] and b = leaf_atD [OF this(2)]
  have "(low', p') \<in> set (xs @ (low, p) # ys)" "(low, p) \<in> set (xs' @ (low', p') # ys')"
    using a(1) b(1) by (metis in_set_conv_decomp)+
  moreover assume "p \<noteq> p'"
  ultimately have "(low', p') \<in> set xs \<or> (low', p') \<in> set ys" "(low, p) \<in> set xs' \<or> (low, p) \<in> set ys'" by auto
  then show False
    using leaf_walk.around(3,4) [OF a(2,4,5), of low' p'] leaf_walk.around(3,4) [OF b(2,4,5), of low p] a(4) b(4) by auto
qed

text \<open>The tree between the split of a root that is a leaf and the creation of the new root: a second thread that inserts into
  another leaf of this row, and has to split it.\<close>

lemma second_split:
  assumes lt: "link_tree t [row]" and tl: "tl_sane t" and at: "at_page t [row] 0 p key" and pr: "p \<noteq> root_id t"
    and spl: "SplitLeaf (btree_clear t) p key = Inr (t2, q, sent)"
  shows "DropToLeaf (btree_clear t) key = Some (Inr (btree_clear t, root_id t)) \<and>
    GoRightLeaf (bt_nodes t) (root_id t) key = Some (Inr p) \<and>
    (\<exists>st. PublishSplit t2 0 p q sent = PropagateInsert (t2\<lparr>bt_tl := st\<rparr>) sent q \<and>
      tl_stack st = [root_id t] \<and> GetLevel (bt_nodes t2 (root_id t)) = 0)"
proof -
  have root: "([], root_id t) \<in> set row" and sg: "seg leaf_node (bt_nodes t) row no_next" and less: "root_id t < next_pid t"
    using lt in_pids [of 0 "[row]" "root_id t"] by (auto simp: link_tree_def level_node_def)
  obtain nx where n: "leaf_node (bt_nodes t (root_id t)) [] nx" and g: "GetNode (root_id t) = Inr (root_id t)"
    using seg_page [OF sg root] by (auto simp: GetNode_def)
  then have lv: "GetLevel (bt_nodes t (root_id t)) = 0" using node_links(5) by (simp add: unat_eq_zero)
  have k: "key_ok key" "klen key \<noteq> 0" using at key_size_klen by (auto simp: at_page_def)
  have drop: "DropToLeaf (btree_clear t) key = Some (Inr (btree_clear t, root_id t))"
    using g lv by (simp add: DropToLeaf_def drop_loop.simps Let_def)
  obtain p' where p': "GoRightLeaf (bt_nodes t) (root_id t) key = Some (Inr p')" "at_page t [row] 0 p' key"
    using GoRight_at_page [OF lt, of 0 "[]" "root_id t" key] root at by (auto simp: at_page_def)
  with covering_leaf_unique [OF lt at p'(2)] have go: "GoRightLeaf (bt_nodes t) (root_id t) key = Some (Inr p)" by simp
  note so = SplitLeaf_other_pages [OF spl]
  have "GetLevel (bt_nodes t2 (root_id t)) = 0" using so(3) [of "root_id t"] pr less lv by simp
  moreover obtain st where st: "tl_Push (bt_tl t2) (root_id t) = Inr st" "tl_stack st = [root_id t]" "tl_ok st"
    using tl.push_ok [of "bt_tl t2" "root_id t"] btree_clear_tl [OF tl] so(2) by auto
  ultimately have "DropToLevel t2 sent (0 + 1) = Some (Inr (t2\<lparr>bt_tl := st\<rparr>))"
    using so(1) g by (intro DropToLevel_low_root) simp_all
  moreover have "tl_IsEmpty (bt_tl t2)" using tl.empty_iff [of "bt_tl t2"] btree_clear_tl [OF tl] so(2) by simp
  ultimately have "PublishSplit t2 0 p q sent = PropagateInsert (t2\<lparr>bt_tl := st\<rparr>) sent q"
    using so(1) pr by (simp add: PublishSplit_def)
  with drop go st \<open>GetLevel (bt_nodes t2 (root_id t)) = 0\<close> show ?thesis by auto
qed

section \<open>Small trees\<close>

text \<open>A root that is a leaf, with the next key put into it.\<close>

lemma put_one:
  assumes lt: "link_tree t [[([], r)]]" and tight: "page_tight leaf_fmt (bt_nodes t r)" and few: "length (tree_keys t [[([], r)]]) \<le> 1"
    and k: "key_ok key" "key_size_ok (key_bytes key)" and new: "key_bytes key \<notin> set (tree_keys t [[([], r)]])"
  shows "\<exists>d. page_step t [[([], r)]] (Added (key_bytes key)) (set_node t r d) [[([], r)]] \<and> page_tight leaf_fmt d"
proof -
  let ?rows = "[[([], r)]]"
  have n: "leaf_node (bt_nodes t r) [] no_next" using lt by (simp add: link_tree_def)
  have kn: "klen key \<noteq> 0" using key_size_klen [OF k] by simp
  have at: "at_page t ?rows 0 r key" using leaf_HasSplit_ok [OF n k(1) kn] k by (simp add: at_page_def no_next_def)
  have ks: "tree_keys t ?rows = page_keys leaf_fmt (bt_nodes t r)" by (simp add: tree_keys_def)
  have f: "key_fits leaf_fmt (bt_nodes t r) [] no_next key" using at_leaf_fits [OF n at] new by (simp add: ks no_next_def)
  have "unat (GetCount (bt_nodes t r)) \<le> 1" using few by (simp add: ks)
  with leaf_room [OF n tight f] have sp: "leaf_HasSpace (bt_nodes t r) key = Inr True" by (auto split: if_splits)
  from leaf_insert_node [OF n tight f this] obtain d where "leaf_Insert (bt_nodes t r) key = Inr d" "page_tight leaf_fmt d" by blast
  with leaf_put [OF at new tight sp] show ?thesis by blast
qed

definition demo_state :: "BTreeIndex \<Rightarrow> u8 list list \<Rightarrow> bool" where
  "demo_state t ks \<longleftrightarrow> link_tree t demo_rows \<and> page_tight leaf_fmt (bt_nodes t (root_id demo_tree)) \<and> tree_keys t demo_rows = ks \<and>
     root_id t = root_id demo_tree \<and> tl_sane t \<and> next_pid t = next_pid demo_tree"

lemma demo_state_init: "demo_state demo_tree []"
  using demo_tree by (simp add: demo_state_def tree_ok_link tree_tight_def demo_rows_def)

lemma demo_state_put:
  assumes "demo_state t ks" "length ks \<le> 1" "key_bytes (demo_key 7 a) \<notin> set ks"
  shows "\<exists>t'. page_step t demo_rows (Added (key_bytes (demo_key 7 a))) t' demo_rows \<and> demo_state t' (insort (key_bytes (demo_key 7 a)) ks)"
proof -
  note d = assms(1) [unfolded demo_state_def]
  from put_one [of t "root_id demo_tree" "demo_key 7 a", folded demo_rows_def] d assms(2,3) obtain p where
    p: "page_step t demo_rows (Added (key_bytes (demo_key 7 a))) (set_node t (root_id demo_tree) p) demo_rows" "page_tight leaf_fmt p"
    using demo_size [of 7 a] by auto
  with page_step_ok [OF p(1)] d have "demo_state (set_node t (root_id demo_tree) p) (insort (key_bytes (demo_key 7 a)) ks)"
    by (simp add: demo_state_def set_node_def tl_sane_def next_pid_def)
  with p(1) show ?thesis by blast
qed

lemma demo_next_pid: "unat (next_pid demo_tree) < 79999"
  using demo_tree(5) by (simp add: tree_room_def demo_rows_def)

lemma demo_pair:
  assumes "a < b"
  shows "\<exists>t. demo_state t [key_bytes (demo_key 7 a), key_bytes (demo_key 7 b)]"
proof -
  obtain t where "demo_state t [key_bytes (demo_key 7 a)]" using demo_state_put [OF demo_state_init, of a] by auto
  moreover have "b \<noteq> a" "\<not> b < a" using assms by auto
  ultimately show ?thesis using demo_state_put [of t "[key_bytes (demo_key 7 a)]" b] by auto
qed

lemma filter_parts: "(\<And>x. x \<in> set xs \<Longrightarrow> P x) \<Longrightarrow> (\<And>x. x \<in> set ys \<Longrightarrow> \<not> P x) \<Longrightarrow> filter P (xs @ ys) = xs \<and> filter (\<lambda>x. \<not> P x) (xs @ ys) = ys"
  by (simp add: filter_id_conv filter_empty_conv)

text \<open>With two keys it can be split, and the second key is the separator.\<close>

lemma demo_split:
  assumes st: "demo_state t [x, y]" and new: "key_bytes (demo_key 7 c) \<notin> {x, y}"
  shows "\<exists>t' sent. SplitLeaf t (root_id demo_tree) (demo_key 7 c) = Inr (t', next_pid demo_tree, sent) \<and>
    link_tree t' [[([], root_id demo_tree), (y, next_pid demo_tree)]] \<and>
    page_keys leaf_fmt (bt_nodes t' (root_id demo_tree)) = filter (\<lambda>k. k < y) (insort (key_bytes (demo_key 7 c)) [x, y]) \<and>
    page_keys leaf_fmt (bt_nodes t' (next_pid demo_tree)) = filter (\<lambda>k. \<not> k < y) (insort (key_bytes (demo_key 7 c)) [x, y]) \<and>
    page_fence leaf_fmt (bt_nodes t' (root_id demo_tree)) = Some y \<and>
    page_tight leaf_fmt (bt_nodes t' (root_id demo_tree)) \<and> page_tight leaf_fmt (bt_nodes t' (next_pid demo_tree)) \<and>
    root_id t' = root_id demo_tree \<and> tl_sane t' \<and> unat (next_pid t') = unat (next_pid demo_tree) + 1"
proof -
  let ?r = "root_id demo_tree" and ?q = "next_pid demo_tree" and ?k = "demo_key 7 c"
  note d = st [unfolded demo_state_def]
  have n: "leaf_node (bt_nodes t ?r) [] no_next" and less: "?r < ?q"
    using d by (auto simp: link_tree_def demo_rows_def pids_def)
  have ks: "page_keys leaf_fmt (bt_nodes t ?r) = [x, y]" using d by (simp add: tree_keys_def demo_rows_def)
  have f: "key_fits leaf_fmt (bt_nodes t ?r) [] no_next ?k" using new demo_size [of 7 c] by (simp add: key_fits_def ks no_next_def)
  have cnt: "2 \<le> unat (GetCount (bt_nodes t ?r))" using arg_cong [OF ks, of length] by simp
  have q: "next_pid t < MAX_POOL_PAGES" using d demo_next_pid by (simp add: MAX_POOL_PAGES_def word_less_nat_alt)
  have pq: "?r \<noteq> next_pid t" using d less by simp
  obtain l r sent where s: "SplitLeaf t ?r ?k = Inr (with_page t ((bt_nodes t)(?r := l, ?q := r)), ?q, sent)"
    "leaf_halves (bt_nodes t ?r) [] no_next ?k ?q l r sent"
    using SplitLeaf_ok [OF n _ f cnt q pq] d by auto
  note h = s(2) [unfolded leaf_halves_def]
  have lo: "k < key_bytes sent" if "k \<in> set (page_keys leaf_fmt l)" for k
    using node_key_bounds(1) [of l "[]" "(Some (key_bytes sent), ?q)" k] h that by simp
  have hi: "\<not> k < key_bytes sent" if "k \<in> set (page_keys leaf_fmt r)" for k
    using node_key_bounds(1) [of r "key_bytes sent" no_next k] h that by (simp add: not_less)
  have y: "key_bytes sent = y" using h lo [of x] by (auto simp: ks)
  have keys: "page_keys leaf_fmt l = filter (\<lambda>k. k < y) (insort (key_bytes ?k) [x, y])"
    "page_keys leaf_fmt r = filter (\<lambda>k. \<not> k < y) (insort (key_bytes ?k) [x, y])"
    using filter_parts [of "page_keys leaf_fmt l" "\<lambda>k. k < y" "page_keys leaf_fmt r"] lo hi h unfolding y ks by simp_all
  have at: "at_page t demo_rows 0 ?r ?k"
    using leaf_HasSplit_ok [OF n, of ?k] demo_size [of 7 c] by (simp add: at_page_def demo_rows_def no_next_def)
  from leaf_split_ok(1) [OF _ at _ _ cnt q s(1)] d new ks
  have "link_tree (with_page t ((bt_nodes t)(?r := l, ?q := r))) [[([], ?r), (y, ?q)]]"
    using h by (simp add: y demo_rows_def route_insert_def)
  moreover have "unat (next_pid t + 1) = unat ?q + 1" using next_pid_less(2) [OF q] d by simp
  ultimately show ?thesis using s(1) keys h d less leaf_node_keys(3) [of l] 
    by (intro exI [of _ "with_page t ((bt_nodes t)(?r := l, ?q := r))"] exI [of _ sent]) (auto simp: y tl_sane_def)
qed

text \<open>A root of two keys is split, and then one of its halves again.\<close>

lemma demo_key_order: "key_bytes (demo_key 7 a) < key_bytes (demo_key 7 b) \<longleftrightarrow> a < b"
  by simp

definition demo_row :: "u8 \<Rightarrow> row" where
  "demo_row y = [([], root_id demo_tree), (key_bytes (demo_key 7 y), next_pid demo_tree)]"

definition demo_halves :: "BTreeIndex \<Rightarrow> u8 \<Rightarrow> u8 list \<Rightarrow> u8 list \<Rightarrow> bool" where
  "demo_halves t y as bs \<longleftrightarrow> link_tree t [demo_row y] \<and> root_id t = root_id demo_tree \<and> tl_sane t \<and> next_pid t < MAX_POOL_PAGES \<and>
     page_keys leaf_fmt (bt_nodes t (root_id demo_tree)) = map (\<lambda>a. key_bytes (demo_key 7 a)) as \<and>
     page_keys leaf_fmt (bt_nodes t (next_pid demo_tree)) = map (\<lambda>a. key_bytes (demo_key 7 a)) bs \<and>
     page_tight leaf_fmt (bt_nodes t (root_id demo_tree)) \<and> page_tight leaf_fmt (bt_nodes t (next_pid demo_tree))"

lemma demo_halves_exist: "\<exists>t. demo_halves t 4 [2, 3] [4]" "\<exists>t. demo_halves t 3 [2] [3, 4]"
proof -
  have small: "n < MAX_POOL_PAGES" if "unat n = unat (next_pid demo_tree) + 1" for n :: page_id
    using that demo_next_pid by (simp add: MAX_POOL_PAGES_def word_less_nat_alt)
  obtain t where "demo_state t [key_bytes (demo_key 7 3), key_bytes (demo_key 7 4)]" using demo_pair [of 3 4] by auto
  from demo_split [OF this, of 2] small show "\<exists>t. demo_halves t 4 [2, 3] [4]"
    by (auto simp: demo_halves_def demo_row_def)
  obtain t where "demo_state t [key_bytes (demo_key 7 2), key_bytes (demo_key 7 3)]" using demo_pair [of 2 3] by auto
  from demo_split [OF this, of 4] small show "\<exists>t. demo_halves t 3 [2] [3, 4]"
    by (auto simp: demo_halves_def demo_row_def)
qed

lemma demo_halves_nodes:
  assumes "demo_halves t y as bs"
  shows "leaf_node (bt_nodes t (root_id demo_tree)) [] (Some (key_bytes (demo_key 7 y)), next_pid demo_tree)"
    "leaf_node (bt_nodes t (next_pid demo_tree)) (key_bytes (demo_key 7 y)) no_next"
    "tree_keys t [demo_row y] = map (\<lambda>a. key_bytes (demo_key 7 a)) (as @ bs)"
  using assms by (simp_all add: demo_halves_def link_tree_def demo_row_def tree_keys_def)

lemma btree_clear_link [simp]:
  "link_tree (btree_clear t) rows = link_tree t rows" "at_page (btree_clear t) rows i p key = at_page t rows i p key"
  "tree_keys (btree_clear t) rows = tree_keys t rows"
  by (simp_all add: link_tree_def at_page_def tree_keys_def)

lemma at_leafI:
  assumes "leaf_node (bt_nodes t p) low nx" "(low, p) \<in> set row" "low \<le> key_bytes key" "below (key_bytes key) (fst nx)"
    and "key_ok key" "key_size_ok (key_bytes key)"
  shows "at_page t [row] 0 p key"
  using leaf_HasSplit_ok [OF assms(1,5)] key_size_klen [OF assms(5,6)] assms(2-6) by (auto simp: at_page_def)

lemma demo_halves_counts:
  assumes "demo_halves t y as bs"
  shows "unat (GetCount (bt_nodes t (root_id demo_tree))) = length as" "unat (GetCount (bt_nodes t (next_pid demo_tree))) = length bs"
  using assms length_page_keys [of leaf_fmt "bt_nodes t (root_id demo_tree)"] length_page_keys [of leaf_fmt "bt_nodes t (next_pid demo_tree)"]
  unfolding demo_halves_def by (metis length_map)+

text \<open>A page of such a tree with two keys can be split by any new key that it covers.\<close>

lemma demo_second_split:
  assumes d: "demo_halves t y as bs" and p: "p \<in> {root_id demo_tree, next_pid demo_tree}" and at: "at_page t [demo_row y] 0 p key"
    and new: "key_bytes key \<notin> set (tree_keys t [demo_row y])" and cnt: "2 \<le> unat (GetCount (bt_nodes t p))"
  shows "\<exists>t' sent. SplitLeaf t p key = Inr (t', next_pid t, sent)"
proof -
  have lt: "link_tree t [demo_row y]" and np: "next_pid t < MAX_POOL_PAGES" and ti: "page_tight leaf_fmt (bt_nodes t p)"
    using d p by (auto simp: demo_halves_def)
  obtain xs low ys where "leaf_at t [demo_row y] p key xs low ys" by (rule leaf_row [OF lt at])
  note r = leaf_atD [OF this]
  have "key_bytes key \<notin> set (page_keys leaf_fmt (bt_nodes t p))" "p \<noteq> next_pid t" using new r(7,8) by auto
  with SplitLeaf_ok [OF r(3) ti at_leaf_fits [OF r(3) at r(4,5)] cnt np] show ?thesis by blast
qed

section \<open>The properties\<close>





text \<open>C8: When a leaf is split between a lookup's read of the leaf and its reading of the link, the lookup returns tuple ids
  twice: those of the entries that moved to the new page it has already, and it finds them there again. \<^verbatim>\<open>InternalGet\<close> reads the
  link after the validation, so it gets the new page.\<close>

theorem lookup_repeats_entries:
  assumes "link_tree t rows" "at_page t rows 0 p new" "key_bytes new \<notin> set (tree_keys t rows)"
    and "page_tight leaf_fmt (bt_nodes t p)" "2 \<le> unat (GetCount (bt_nodes t p))" "next_pid t < MAX_POOL_PAGES"
    and "SplitLeaf t p new = Inr (t', q, sent)" "in_block b (bt_nodes t p)"
    and "key_ok key" "klen key \<noteq> 0" "key_bytes key = b @ replicate 8 0" "length b < DB7_MAX_ROW_SIZE"
    and "prefix_free (insert b (insert (tid_prefix (key_bytes new)) (row_prefixes (bt_nodes t) (hd rows))))"
  shows "\<exists>vs. get_relinked (bt_nodes t) (bt_nodes t') p key results = Some (Inr (results @ vs)) \<and> \<not> distinct vs"
proof -
  obtain vs ws us where "get_relinked (bt_nodes t) (bt_nodes t') p key results = Some (Inr (results @ vs @ ws @ us))"
    "tid_of (key_bytes sent) \<in> set vs" "tid_of (key_bytes sent) \<in> set ws"
    using split_page_repeats [OF assms] by blast
  then show ?thesis by (intro exI [of _ "vs @ ws @ us"]) auto
qed

theorem lookup_repeats_entries_witness:
  "\<exists>(t :: BTreeIndex) (t' :: BTreeIndex) vs. get_relinked (bt_nodes t) (bt_nodes t') (root_id demo_tree) (demo_key 7 0) [] = Some (Inr vs) \<and> \<not> distinct vs"
proof -
  obtain t where d: "demo_halves t 4 [2, 3] [4]" using demo_halves_exist(1) by blast
  note dd = d [unfolded demo_halves_def] and n = demo_halves_nodes [OF d]
  have cnt: "2 \<le> unat (GetCount (bt_nodes t (root_id demo_tree)))" using demo_halves_counts [OF d] by simp
  have at: "at_page t [demo_row 4] 0 (root_id demo_tree) (demo_key 7 1)"
    by (rule at_leafI [OF n(1) _ _ _ _ demo_size]) (simp_all add: demo_row_def)
  have new: "key_bytes (demo_key 7 1) \<notin> set (tree_keys t [demo_row 4])" by (simp add: n(3))
  obtain t' sent where s: "SplitLeaf t (root_id demo_tree) (demo_key 7 1) = Inr (t', next_pid t, sent)"
    using demo_second_split [OF d _ at new cnt] by blast
  have p7: "tid_prefix [7, 0, 0, 0, 0, 0, 0, 0, x] = [7]" for x :: u8 by (simp add: tid_prefix_def sizeof_ValTyp_def)
  have blk: "in_block [7] (bt_nodes t (root_id demo_tree))"
    using dd leaf_node_keys(3) [OF n(1)] by (simp add: in_block_def p7)
  have "row_prefixes (bt_nodes t) (demo_row 4) = {[7]}"
    using dd by (simp add: row_prefixes_def demo_row_def p7)
  then have pf: "prefix_free (insert [7] (insert (tid_prefix (key_bytes (demo_key 7 1))) (row_prefixes (bt_nodes t) (hd [demo_row 4]))))"
    by (simp add: p7 prefix_free_def)
  obtain vs where "get_relinked (bt_nodes t) (bt_nodes t') (root_id demo_tree) (demo_key 7 0) [] = Some (Inr vs)" "\<not> distinct vs"
    using lookup_repeats_entries [OF _ at new _ cnt _ s blk, of "demo_key 7 0" "[]"] pf dd
    by (auto simp: DB7_MAX_ROW_SIZE_def replicate_8)
  then show ?thesis by (intro exI [of _ t] exI [of _ t'] exI [of _ vs]) simp
qed



end
