(* ===== verification/BufferPool.thy ===== *)
theory BufferPool
  imports FreeSpace
begin

text \<open>
  Page frames and the buffer pool: \<^verbatim>\<open>storage/page.hpp\<close>, \<^verbatim>\<open>storage/buffer_pool/buffer_partitions.hpp\<close>,
  \<^verbatim>\<open>src/storage/buffer_pool/buffer_pool.cpp\<close>, and the tasks it hands to the disk scheduler.

  A frame is named by its index in \<^verbatim>\<open>pages_\<close>. The operations are the ones of a thread that runs alone: the
  latches of the partitions are free, the latch of a frame is a flag. A loop that never ends is \<^verbatim>\<open>None\<close>. What can
  happen between two threads at the optimistic pin is the step relation at the end.
\<close>

section \<open>Page frames\<close>

definition DIRTY_FLAG :: u8 where
  "DIRTY_FLAG = push_bit 0 1"

definition IO_IN_PROGRESS_FLAG :: u8 where
  "IO_IN_PROGRESS_FLAG = push_bit 1 1"

text \<open>\<open>latch_held\<close> is the mutex of the frame; the data latch is the lock of \<open>Locks\<close>.\<close>

record Page =
  pg_id :: PageIdentifier
  pg_versions :: "PageIdentifier option"
  pg_data :: mem
  ref_count :: u32
  flags :: u8
  latch_held :: bool

definition packed_id :: "u64 \<Rightarrow> PageIdentifier" where
  "packed_id p = \<lparr>tbl_id = ucast p, pid = ucast (drop_bit 32 p)\<rparr>"

definition packed :: "PageIdentifier \<Rightarrow> u64" where
  "packed i = ucast (tbl_id i) OR push_bit 32 (ucast (pid i))"

definition Page_new :: Page where
  "Page_new = \<lparr>pg_id = packed_id 0, pg_versions = None, pg_data = (\<lambda>_. 0), ref_count = 0, flags = 0, latch_held = False\<rparr>"

definition page_Pin :: "Page \<Rightarrow> Page" where
  "page_Pin p = p\<lparr>ref_count := ref_count p + 1\<rparr>"

definition page_Unpin :: "Page \<Rightarrow> Page" where
  "page_Unpin p = p\<lparr>ref_count := ref_count p - 1\<rparr>"

definition IsPinned :: "Page \<Rightarrow> bool" where
  "IsPinned p \<longleftrightarrow> ref_count p > 0"

definition IsIOInProgress :: "Page \<Rightarrow> bool" where
  "IsIOInProgress p \<longleftrightarrow> flags p AND IO_IN_PROGRESS_FLAG \<noteq> 0"

definition SetIOInProgress :: "Page \<Rightarrow> Page" where
  "SetIOInProgress p = p\<lparr>flags := flags p OR IO_IN_PROGRESS_FLAG\<rparr>"

definition ClearIOInProgress :: "Page \<Rightarrow> Page" where
  "ClearIOInProgress p = p\<lparr>flags := flags p AND NOT IO_IN_PROGRESS_FLAG\<rparr>"

definition IsDirty :: "Page \<Rightarrow> bool" where
  "IsDirty p \<longleftrightarrow> flags p AND DIRTY_FLAG \<noteq> 0"

definition SetDirty :: "Page \<Rightarrow> Page" where
  "SetDirty p = p\<lparr>flags := flags p OR DIRTY_FLAG\<rparr>"

definition ClearDirty :: "Page \<Rightarrow> Page" where
  "ClearDirty p = p\<lparr>flags := flags p AND NOT DIRTY_FLAG\<rparr>"

definition IsEvictable :: "Page \<Rightarrow> bool" where
  "IsEvictable p \<longleftrightarrow> \<not> IsPinned p \<and> \<not> IsDirty p \<and> \<not> IsIOInProgress p"

definition WriteOffset :: "Page \<Rightarrow> nat \<Rightarrow> u8 list \<Rightarrow> Page" where
  "WriteOffset p off bs = p\<lparr>pg_data := wr_bytes (pg_data p) off bs\<rparr>"

text \<open>Taking the latch waits for ever when it is held: nobody else runs.\<close>

definition page_WLock :: "Page \<Rightarrow> Page option" where
  "page_WLock p = (if latch_held p then None else Some (p\<lparr>latch_held := True\<rparr>))"

definition page_WUnlock :: "Page \<Rightarrow> Page" where
  "page_WUnlock p = p\<lparr>latch_held := False\<rparr>"

definition WaitIO :: "Page \<Rightarrow> Page option" where
  "WaitIO p = (if \<not> IsIOInProgress p then Some p else None)"

definition SignalIO :: "Page \<Rightarrow> Page res" where
  "SignalIO p =
     DB7_ASSERT (IsIOInProgress p) ''Io in progress not set''
    (DB7_ASSERT (IsPinned p) ''Pin not set'' (Inr (ClearIOInProgress p)))"

section \<open>Disk tasks\<close>

datatype IoPriority = CRITICAL | HIGH | LOW

datatype IoOp = READ | WRITE

record IoTask =
  task_op :: IoOp
  task_priority :: IoPriority
  task_page :: u32
  task_id :: PageIdentifier

definition prio_code :: "IoPriority \<Rightarrow> u8" where
  "prio_code p = (case p of CRITICAL \<Rightarrow> 0 | HIGH \<Rightarrow> 1 | LOW \<Rightarrow> 2)"

definition task_less :: "IoTask \<Rightarrow> IoTask \<Rightarrow> bool" where
  "task_less a b \<longleftrightarrow> prio_code (task_priority a) > prio_code (task_priority b)"

section \<open>The page table\<close>

definition BUFFER_POOL_PAGE_NUM :: u32 where
  "BUFFER_POOL_PAGE_NUM = 80000"

definition BUFFER_POOL_PARTITION_NUM :: u64 where
  "BUFFER_POOL_PARTITION_NUM = 128"

type_synonym partitions = "u32 \<Rightarrow> PageIdentifier \<rightharpoonup> u32"

definition part_Get :: "partitions \<Rightarrow> PageIdentifier \<Rightarrow> u32 \<Rightarrow> u32" where
  "part_Get ps i partIdx = (case ps partIdx i of Some f \<Rightarrow> f | None \<Rightarrow> 0xFFFFFFFF)"

definition part_Put :: "partitions \<Rightarrow> PageIdentifier \<Rightarrow> u32 \<Rightarrow> u32 \<Rightarrow> partitions \<times> u32 \<times> bool" where
  "part_Put ps i frame_idx partIdx =
     (case ps partIdx i of
        Some f \<Rightarrow> (ps, f, False)
      | None \<Rightarrow> (ps(partIdx := (ps partIdx)(i \<mapsto> frame_idx)), frame_idx, True))"

definition part_Delete :: "partitions \<Rightarrow> PageIdentifier \<Rightarrow> u32 \<Rightarrow> u32 \<Rightarrow> partitions" where
  "part_Delete ps evict_page_id old_frame_idx partIdx =
     (if ps partIdx evict_page_id = Some old_frame_idx
      then ps(partIdx := (ps partIdx)(evict_page_id := None)) else ps)"

definition GetPartitionIdx :: "PageIdentifier \<Rightarrow> u32" where
  "GetPartitionIdx i = ucast (murmurhash64 (packed i) mod BUFFER_POOL_PARTITION_NUM)"

section \<open>The pool\<close>

text \<open>\<open>io_queue\<close> is the queue of the disk scheduler.\<close>

record BufferPool =
  pages :: "u32 \<Rightarrow> Page"
  pool_size :: u32
  sweep_head :: u32
  partition_maps :: partitions
  io_queue :: "IoTask list"
  bp_fsm :: FreeSpaceManagerIndex

definition set_page :: "BufferPool \<Rightarrow> u32 \<Rightarrow> Page \<Rightarrow> BufferPool" where
  "set_page bp f p = bp\<lparr>pages := (pages bp)(f := p)\<rparr>"

definition BufferPool_new :: "u32 \<Rightarrow> BufferPool" where
  "BufferPool_new page_num =
     \<lparr>pages = (\<lambda>_. Page_new), pool_size = page_num, sweep_head = 0, partition_maps = (\<lambda>_. Map.empty), io_queue = [],
      bp_fsm = fsm_index_Reset\<rparr>"

text \<open>The clock sweep. The hand is an unsigned 32-bit counter and wraps around.\<close>

partial_function (option) GetVictim ::
    "BufferPool \<Rightarrow> PageIdentifier \<Rightarrow> bool \<Rightarrow> (BufferPool \<times> u32 \<times> PageIdentifier) res option" where
  "GetVictim bp i isIO =
     (let head = sweep_head bp mod BUFFER_POOL_PAGE_NUM;
          bp1 = bp\<lparr>sweep_head := sweep_head bp + 1\<rparr>
      in if \<not> head < pool_size bp then Some (Inl OutOfRange)
         else let page = pages bp head
              in if \<not> latch_held page \<and> IsEvictable page
                 then let victim_page_id = pg_id page;
                          page1 = page_Pin (page\<lparr>pg_id := i\<rparr>);
                          page2 = (if isIO then SetIOInProgress page1 else page1)
                      in Some (Inr (set_page bp1 head page2, head, victim_page_id))
                 else GetVictim bp1 i isIO)"

definition UndoState :: "BufferPool \<Rightarrow> u32 \<Rightarrow> PageIdentifier \<Rightarrow> BufferPool option" where
  "UndoState bp f victim_page_id =
     Option.bind (page_WLock (pages bp f)) (\<lambda>p.
       Some (set_page bp f (page_WUnlock (ClearIOInProgress ((page_Unpin p)\<lparr>pg_id := victim_page_id\<rparr>)))))"

definition PageVisit :: "BufferPool \<Rightarrow> u32 \<Rightarrow> PageIdentifier \<Rightarrow> BufferPool \<times> bool" where
  "PageVisit bp f i =
     (let bp1 = set_page bp f (page_Pin (pages bp f))
      in if pg_id (pages bp1 f) = i then (bp1, True)
         else (set_page bp1 f (page_Unpin (pages bp1 f)), False))"

definition Enqueue :: "BufferPool \<Rightarrow> IoTask \<Rightarrow> BufferPool" where
  "Enqueue bp t = bp\<lparr>io_queue := io_queue bp @ [t]\<rparr>"

text \<open>One round of \<^verbatim>\<open>Pin\<close>: the frame, or nothing for another lookup. \<open>vt\<close> is \<^verbatim>\<open>version_table_->Get\<close>.\<close>

definition pin_visit :: "BufferPool \<Rightarrow> PageIdentifier \<Rightarrow> BufferPool \<times> u32 option" where
  "pin_visit bp i =
     (let frame_idx = part_Get (partition_maps bp) i (GetPartitionIdx i)
      in if frame_idx \<noteq> 0xFFFFFFFF
         then let (bp', ok) = PageVisit bp frame_idx i in (bp', if ok then Some frame_idx else None)
         else (bp, None))"

definition pin_miss ::
    "(PageIdentifier \<Rightarrow> PageIdentifier option) \<Rightarrow> BufferPool \<Rightarrow> PageIdentifier \<Rightarrow> (BufferPool \<times> u32 option) res option" where
  "pin_miss vt bp i =
     obind (GetVictim bp i True) (\<lambda>(bp1, victim, victim_page_id).
     let (ps, new_frame, inserted) = part_Put (partition_maps bp1) i victim (GetPartitionIdx i)
     in if inserted
        then let ps' = part_Delete ps victim_page_id victim (GetPartitionIdx victim_page_id);
                 bp2 = set_page (bp1\<lparr>partition_maps := ps'\<rparr>) victim ((pages bp1 victim)\<lparr>pg_versions := vt i\<rparr>)
             in Some (Inr (Enqueue bp2 \<lparr>task_op = READ, task_priority = HIGH, task_page = victim, task_id = i\<rparr>, Some victim))
        else Option.bind (UndoState bp1 victim victim_page_id) (\<lambda>bp2.
               let (bp3, ok) = PageVisit bp2 new_frame i in Some (Inr (bp3, if ok then Some new_frame else None))))"

partial_function (option) pin_loop ::
    "(PageIdentifier \<Rightarrow> PageIdentifier option) \<Rightarrow> BufferPool \<Rightarrow> PageIdentifier \<Rightarrow> (BufferPool \<times> u32) res option" where
  "pin_loop vt bp i =
     (case pin_visit bp i of
        (bp1, Some f) \<Rightarrow> Some (Inr (bp1, f))
      | (bp1, None) \<Rightarrow>
          obind (pin_miss vt bp1 i) (\<lambda>(bp2, r).
            case r of Some f \<Rightarrow> Some (Inr (bp2, f)) | None \<Rightarrow> pin_loop vt bp2 i))"

definition pool_Pin ::
    "(PageIdentifier \<Rightarrow> PageIdentifier option) \<Rightarrow> BufferPool \<Rightarrow> PageIdentifier \<Rightarrow> (BufferPool \<times> u32) res option" where
  "pool_Pin vt bp i =
     (if pid i = 0 \<or> pid i = 0xFFFFFFFF then Some (Inl (AssertFailed ''invalid pid'')) else pin_loop vt bp i)"

text \<open>The argument \<open>dirty\<close> is ignored.\<close>

definition pool_Unpin :: "BufferPool \<Rightarrow> u32 \<Rightarrow> bool \<Rightarrow> BufferPool" where
  "pool_Unpin bp f dirty = set_page bp f (page_Unpin (pages bp f))"

definition pool_Reserve :: "BufferPool \<Rightarrow> table_id \<Rightarrow> (BufferPool \<times> u32) res option" where
  "pool_Reserve bp tbl =
     (let (fsm, p) = fsm_index_Get (bp_fsm bp) tbl;
          bp0 = bp\<lparr>bp_fsm := fsm\<rparr>;
          i = \<lparr>tbl_id = tbl, pid = p\<rparr>
      in if \<not> p < BUFFER_POOL_PAGE_NUM then Some (Inl (AssertFailed ''no more pages''))
         else
           obind (GetVictim bp0 i False) (\<lambda>(bp1, victim, victim_page_id).
           let (ps, new_frame, inserted) = part_Put (partition_maps bp1) i victim (GetPartitionIdx i)
           in if inserted
              then let ps' = part_Delete ps victim_page_id victim (GetPartitionIdx victim_page_id)
                   in Some (Inr (set_page (bp1\<lparr>partition_maps := ps'\<rparr>) victim ((pages bp1 victim)\<lparr>pg_data := (\<lambda>_. 0)\<rparr>), victim))
              else Some (Inl Unreachable)))"

end
