(* ===== verification/PoolProofs.thy ===== *)
theory PoolProofs
  imports BufferPool
begin

text \<open>
  Correctness of the buffer pool for one thread: the clock sweep finds a victim whenever there is one and waits for
  ever when there is none; the page table and the frames always agree, so a page is never in two frames; pinning
  never takes a frame that somebody has pinned.
\<close>

section \<open>The clock sweep\<close>

definition takeable :: "BufferPool \<Rightarrow> u32 \<Rightarrow> bool" where
  "takeable bp f \<longleftrightarrow> f < BUFFER_POOL_PAGE_NUM \<and> \<not> latch_held (pages bp f) \<and> IsEvictable (pages bp f)"

definition taken :: "Page \<Rightarrow> PageIdentifier \<Rightarrow> bool \<Rightarrow> Page" where
  "taken p i isIO = (let p1 = page_Pin (p\<lparr>pg_id := i\<rparr>) in if isIO then SetIOInProgress p1 else p1)"

definition victim_result :: "BufferPool \<Rightarrow> PageIdentifier \<Rightarrow> bool \<Rightarrow> (BufferPool \<times> u32 \<times> PageIdentifier) res option \<Rightarrow> bool" where
  "victim_result bp i isIO r \<longleftrightarrow>
     (\<exists>h f. takeable bp f \<and> r = Some (Inr (set_page (bp\<lparr>sweep_head := h\<rparr>) f (taken (pages bp f) i isIO), f, pg_id (pages bp f))))"

lemma head_less: "(h :: u32) mod BUFFER_POOL_PAGE_NUM < BUFFER_POOL_PAGE_NUM"
  by (simp add: word_less_nat_alt unat_mod BUFFER_POOL_PAGE_NUM_def)

lemma GetVictim_step:
  assumes "pool_size bp = BUFFER_POOL_PAGE_NUM"
  shows "victim_result bp i isIO (GetVictim bp i isIO) \<or>
    \<not> takeable bp (sweep_head bp mod BUFFER_POOL_PAGE_NUM) \<and> GetVictim bp i isIO = GetVictim (bp\<lparr>sweep_head := sweep_head bp + 1\<rparr>) i isIO"
proof (cases "takeable bp (sweep_head bp mod BUFFER_POOL_PAGE_NUM)")
  case True
  then have "GetVictim bp i isIO = Some (Inr (set_page (bp\<lparr>sweep_head := sweep_head bp + 1\<rparr>) (sweep_head bp mod BUFFER_POOL_PAGE_NUM)
      (taken (pages bp (sweep_head bp mod BUFFER_POOL_PAGE_NUM)) i isIO), sweep_head bp mod BUFFER_POOL_PAGE_NUM,
      pg_id (pages bp (sweep_head bp mod BUFFER_POOL_PAGE_NUM))))"
    using head_less [of "sweep_head bp"] assms by (subst GetVictim.simps) (simp add: takeable_def taken_def Let_def)
  with True show ?thesis unfolding victim_result_def by blast
next
  case False
  then have "GetVictim bp i isIO = GetVictim (bp\<lparr>sweep_head := sweep_head bp + 1\<rparr>) i isIO"
    using head_less [of "sweep_head bp"] assms by (subst GetVictim.simps) (auto simp: takeable_def Let_def)
  with False show ?thesis by blast
qed

lemma victim_result_shift:
  "victim_result (bp\<lparr>sweep_head := h\<rparr>) i isIO r \<Longrightarrow> victim_result bp i isIO r"
  by (auto simp: victim_result_def takeable_def)

lemma takeable_shift [simp]: "takeable (bp\<lparr>sweep_head := h\<rparr>) f = takeable bp f"
  by (simp add: takeable_def)

text \<open>The hand reaches the frame without wrapping around.\<close>

lemma GetVictim_ahead:
  assumes "takeable bp f"
  shows "pool_size bp = BUFFER_POOL_PAGE_NUM \<Longrightarrow> unat (sweep_head bp) + n < 2 ^ 32 \<Longrightarrow>
    (unat (sweep_head bp) + n) mod 80000 = unat f \<Longrightarrow> victim_result bp i isIO (GetVictim bp i isIO)"
  using assms
proof (induction n arbitrary: bp)
  case 0
  have "unat (sweep_head bp mod BUFFER_POOL_PAGE_NUM) = unat f" using 0 by (simp add: unat_mod BUFFER_POOL_PAGE_NUM_def)
  then have "sweep_head bp mod BUFFER_POOL_PAGE_NUM = f" by (simp add: word_unat_eq_iff)
  with GetVictim_step [OF 0(1), of i isIO] 0(4) show ?case by auto
next
  case (Suc n)
  let ?bp = "bp\<lparr>sweep_head := sweep_head bp + 1\<rparr>"
  have u: "unat (sweep_head bp + 1) = unat (sweep_head bp) + 1" using Suc.prems(2) by (simp add: unat_word_ariths)
  from Suc.IH [of ?bp] Suc.prems u have "victim_result ?bp i isIO (GetVictim ?bp i isIO)" by simp
  with GetVictim_step [OF Suc.prems(1), of i isIO] victim_result_shift show ?case by metis
qed

text \<open>From any position, over the wrap-around of the counter if need be.\<close>

lemma GetVictim_wrap:
  assumes "takeable bp f"
  shows "pool_size bp = BUFFER_POOL_PAGE_NUM \<Longrightarrow> unat (sweep_head bp) + Suc m = 2 ^ 32 \<Longrightarrow> victim_result bp i isIO (GetVictim bp i isIO)"
  using assms
proof (induction m arbitrary: bp)
  case 0
  let ?bp = "bp\<lparr>sweep_head := sweep_head bp + 1\<rparr>"
  have "sweep_head bp + 1 = 0" using 0(2) by (simp add: word_unat_eq_iff unat_word_ariths)
  moreover have "unat f < 80000" using 0(3) by (simp add: takeable_def word_less_nat_alt BUFFER_POOL_PAGE_NUM_def)
  ultimately have "victim_result ?bp i isIO (GetVictim ?bp i isIO)"
    using 0 by (intro GetVictim_ahead [of ?bp f "unat f"]) simp_all
  with GetVictim_step [OF 0(1), of i isIO] victim_result_shift show ?case by metis
next
  case (Suc m)
  let ?bp = "bp\<lparr>sweep_head := sweep_head bp + 1\<rparr>"
  have "unat (sweep_head bp + 1) = unat (sweep_head bp) + 1" using Suc.prems(2) by (simp add: unat_word_ariths)
  with Suc.IH [of ?bp] Suc.prems have "victim_result ?bp i isIO (GetVictim ?bp i isIO)" by simp
  with GetVictim_step [OF Suc.prems(1), of i isIO] victim_result_shift show ?case by metis
qed

lemma GetVictim_finds:
  assumes "takeable bp f" "pool_size bp = BUFFER_POOL_PAGE_NUM"
  shows "victim_result bp i isIO (GetVictim bp i isIO)"
proof -
  have "unat (sweep_head bp) < 2 ^ 32" using unat_u32_less [of "sweep_head bp"] by simp
  then obtain m where "unat (sweep_head bp) + Suc m = 2 ^ 32" by (metis less_imp_Suc_add add_Suc_right)
  from GetVictim_wrap [OF assms this] show ?thesis .
qed

text \<open>Without a frame to take the sweep never ends.\<close>

lemma GetVictim_needs:
  assumes "GetVictim bp i isIO = Some r" "pool_size bp = BUFFER_POOL_PAGE_NUM"
  shows "\<exists>f. takeable bp f"
proof -
  have "pool_size bp = BUFFER_POOL_PAGE_NUM \<longrightarrow> (\<exists>f. takeable bp f)"
  proof (rule GetVictim.raw_induct [OF _ assms(1), of "\<lambda>bp i isIO r. pool_size bp = BUFFER_POOL_PAGE_NUM \<longrightarrow> (\<exists>f. takeable bp f)"])
    fix gv :: "BufferPool \<Rightarrow> PageIdentifier \<Rightarrow> bool \<Rightarrow> (BufferPool \<times> u32 \<times> PageIdentifier) res option"
      and bp :: BufferPool and i isIO r
    assume IH: "\<And>bp i isIO r. gv bp i isIO = Some r \<Longrightarrow> pool_size bp = BUFFER_POOL_PAGE_NUM \<longrightarrow> (\<exists>f. takeable bp f)"
    assume r: "(let head = sweep_head bp mod BUFFER_POOL_PAGE_NUM; bp1 = bp\<lparr>sweep_head := sweep_head bp + 1\<rparr>
      in if \<not> head < pool_size bp then Some (Inl OutOfRange)
         else let page = pages bp head
              in if \<not> latch_held page \<and> IsEvictable page
                 then let victim_page_id = pg_id page;
                          page1 = page_Pin (page\<lparr>pg_id := i\<rparr>);
                          page2 = (if isIO then SetIOInProgress page1 else page1)
                      in Some (Inr (set_page bp1 head page2, head, victim_page_id))
                 else gv bp1 i isIO) = Some r"
    show "pool_size bp = BUFFER_POOL_PAGE_NUM \<longrightarrow> (\<exists>f. takeable bp f)"
    proof
      assume sz: "pool_size bp = BUFFER_POOL_PAGE_NUM"
      let ?h = "sweep_head bp mod BUFFER_POOL_PAGE_NUM"
      show "\<exists>f. takeable bp f"
      proof (cases "takeable bp ?h")
        case False
        then have "gv (bp\<lparr>sweep_head := sweep_head bp + 1\<rparr>) i isIO = Some r"
          using r sz head_less [of "sweep_head bp"] by (auto simp: takeable_def Let_def)
        from IH [OF this] sz show ?thesis by simp
      qed blast
    qed
  qed
  with assms(2) show ?thesis by blast
qed

section \<open>Page table and frames agree\<close>

definition resident :: "BufferPool \<Rightarrow> PageIdentifier \<Rightarrow> u32 option" where
  "resident bp i = partition_maps bp (GetPartitionIdx i) i"

definition pool_inv :: "BufferPool \<Rightarrow> bool" where
  "pool_inv bp \<longleftrightarrow>
     pool_size bp = BUFFER_POOL_PAGE_NUM \<and>
     (\<forall>k i f. partition_maps bp k i = Some f \<longrightarrow> k = GetPartitionIdx i \<and> f < BUFFER_POOL_PAGE_NUM \<and> pg_id (pages bp f) = i) \<and>
     (\<forall>f < BUFFER_POOL_PAGE_NUM. pid (pg_id (pages bp f)) \<noteq> 0 \<longrightarrow> resident bp (pg_id (pages bp f)) = Some f)"

lemma pool_invD:
  assumes "pool_inv bp"
  shows "pool_size bp = BUFFER_POOL_PAGE_NUM" "partition_maps bp k i = Some f \<Longrightarrow> k = GetPartitionIdx i"
    "partition_maps bp k i = Some f \<Longrightarrow> f < BUFFER_POOL_PAGE_NUM" "partition_maps bp k i = Some f \<Longrightarrow> pg_id (pages bp f) = i"
    "f < BUFFER_POOL_PAGE_NUM \<Longrightarrow> pid (pg_id (pages bp f)) \<noteq> 0 \<Longrightarrow> resident bp (pg_id (pages bp f)) = Some f"
  using assms unfolding pool_inv_def by blast+

text \<open>Changes of a frame that keep its id.\<close>

lemma pool_inv_frame:
  assumes "pool_inv bp" "pg_id p = pg_id (pages bp f)"
  shows "pool_inv (set_page bp f p)"
  using assms unfolding pool_inv_def resident_def by (simp add: set_page_def)

lemma taken_simps [simp]:
  "pg_id (taken p i io) = i" "ref_count (taken p i io) = ref_count p + 1" "pg_data (taken p i io) = pg_data p"
  "latch_held (taken p i io) = latch_held p"
  by (simp_all add: taken_def page_Pin_def SetIOInProgress_def Let_def)

text \<open>What a miss does to the table: the new page in, the old one out.\<close>

definition swap_in :: "partitions \<Rightarrow> PageIdentifier \<Rightarrow> PageIdentifier \<Rightarrow> u32 \<Rightarrow> partitions" where
  "swap_in ps i v f = part_Delete (ps(GetPartitionIdx i := (ps (GetPartitionIdx i))(i \<mapsto> f))) v f (GetPartitionIdx v)"

lemma swap_in_apply:
  assumes "\<And>k j g. ps k j = Some g \<Longrightarrow> k = GetPartitionIdx j" "v \<noteq> i"
  shows "swap_in ps i v f k j =
    (if k = GetPartitionIdx j then if j = i then Some f else if j = v \<and> ps k v = Some f then None else ps k j else None)"
proof -
  have "ps k j = None" if "k \<noteq> GetPartitionIdx j" for k j using assms(1) that by (cases "ps k j") auto
  with assms(2) show ?thesis by (auto simp: swap_in_def part_Delete_def)
qed

lemma pool_inv_swap:
  assumes inv: "pool_inv bp" and i: "pid i \<noteq> 0" "resident bp i = None" and f: "f < BUFFER_POOL_PAGE_NUM"
    and p: "pg_id p = i"
  shows "pool_inv (bp\<lparr>pages := (pages bp)(f := p), partition_maps := swap_in (partition_maps bp) i (pg_id (pages bp f)) f,
    sweep_head := h, io_queue := q, bp_fsm := m\<rparr>)"
proof -
  let ?v = "pg_id (pages bp f)" and ?ps = "partition_maps bp"
  note pD = pool_invD [OF inv]
  have vi: "?v \<noteq> i" using pD(5) [OF f] i by auto
  note sw = swap_in_apply [where f = f, OF pD(2) vi]
  have "k = GetPartitionIdx j \<and> g < BUFFER_POOL_PAGE_NUM \<and> pg_id (((pages bp)(f := p)) g) = j"
    if "swap_in ?ps i ?v f k j = Some g" for k j g
  proof (cases "j = i")
    case True
    with that sw f p show ?thesis by (auto split: if_splits)
  next
    case False
    with that sw have k: "k = GetPartitionIdx j" "?ps k j = Some g" "\<not> (j = ?v \<and> ?ps k ?v = Some f)" by (auto split: if_splits)
    moreover have "g \<noteq> f" using pD(4) [OF k(2)] k by auto
    ultimately show ?thesis using pD(3,4) [OF k(2)] by simp
  qed
  moreover have "swap_in ?ps i ?v f (GetPartitionIdx (pg_id (((pages bp)(f := p)) g))) (pg_id (((pages bp)(f := p)) g)) = Some g"
    if g: "g < BUFFER_POOL_PAGE_NUM" "pid (pg_id (((pages bp)(f := p)) g)) \<noteq> 0" for g
  proof (cases "g = f")
    case True
    with sw p show ?thesis by simp
  next
    case False
    then have r: "resident bp (pg_id (pages bp g)) = Some g" using pD(5) g by simp
    then have "pg_id (pages bp g) \<noteq> i" using i(2) by auto
    with r sw False show ?thesis by (auto simp: resident_def)
  qed
  ultimately show ?thesis using pD(1) by (simp add: pool_inv_def resident_def)
qed

section \<open>Pinning\<close>

definition pin_task :: "u32 \<Rightarrow> PageIdentifier \<Rightarrow> IoTask" where
  "pin_task f i = \<lparr>task_op = READ, task_priority = HIGH, task_page = f, task_id = i\<rparr>"

lemma Pin_resident:
  assumes inv: "pool_inv bp" and i: "pid i \<noteq> 0" "pid i \<noteq> 0xFFFFFFFF" and f: "resident bp i = Some f"
  shows "pool_Pin vt bp i = Some (Inr (set_page bp f (page_Pin (pages bp f)), f))"
proof -
  note pD = pool_invD [OF inv]
  have id: "pg_id (pages bp f) = i" and "f < BUFFER_POOL_PAGE_NUM" using pD(3,4) f by (simp_all add: resident_def)
  then have "f \<noteq> 0xFFFFFFFF" by (auto simp: BUFFER_POOL_PAGE_NUM_def)
  then have "pin_visit bp i = (set_page bp f (page_Pin (pages bp f)), Some f)"
    using f id by (simp add: pin_visit_def part_Get_def resident_def PageVisit_def set_page_def page_Pin_def)
  with i show ?thesis by (simp add: pool_Pin_def pin_loop.simps)
qed

lemma Pin_miss_unfold:
  assumes "pid i \<noteq> 0" "pid i \<noteq> 0xFFFFFFFF" "resident bp i = None"
  shows "pool_Pin vt bp i = obind (pin_miss vt bp i) (\<lambda>(bp2, r). case r of Some f \<Rightarrow> Some (Inr (bp2, f)) | None \<Rightarrow> pin_loop vt bp2 i)"
proof -
  have "pin_visit bp i = (bp, None)" using assms(3) by (simp add: pin_visit_def part_Get_def resident_def)
  with assms(1,2) show ?thesis by (simp add: pool_Pin_def pin_loop.simps [of vt bp])
qed

lemma Pin_miss:
  assumes inv: "pool_inv bp" and i: "pid i \<noteq> 0" "pid i \<noteq> 0xFFFFFFFF" "resident bp i = None" and tk: "takeable bp g"
  obtains h f where "takeable bp f" "pool_Pin vt bp i = Some (Inr (bp\<lparr>
      pages := (pages bp)(f := (taken (pages bp f) i True)\<lparr>pg_versions := vt i\<rparr>),
      partition_maps := swap_in (partition_maps bp) i (pg_id (pages bp f)) f, sweep_head := h,
      io_queue := io_queue bp @ [pin_task f i], bp_fsm := bp_fsm bp\<rparr>, f))"
proof -
  from GetVictim_finds [OF tk pool_invD(1) [OF inv], of i True] obtain h f where f: "takeable bp f"
    and gv: "GetVictim bp i True = Some (Inr (set_page (bp\<lparr>sweep_head := h\<rparr>) f (taken (pages bp f) i True), f, pg_id (pages bp f)))"
    by (auto simp: victim_result_def)
  have "pool_Pin vt bp i = Some (Inr (bp\<lparr>
      pages := (pages bp)(f := (taken (pages bp f) i True)\<lparr>pg_versions := vt i\<rparr>),
      partition_maps := swap_in (partition_maps bp) i (pg_id (pages bp f)) f, sweep_head := h,
      io_queue := io_queue bp @ [pin_task f i], bp_fsm := bp_fsm bp\<rparr>, f))"
    unfolding Pin_miss_unfold [OF i] pin_miss_def gv
    using i(3) by (simp add: part_Put_def resident_def set_page_def Enqueue_def swap_in_def pin_task_def Let_def)
  from that [OF f this] show ?thesis .
qed

end
