(* ===== verification/PoolClaims.thy ===== *)
theory PoolClaims
  imports PoolProofs
begin

text \<open>
  What the buffer pool promises to one thread, what it loses, and what can happen between two threads. The runs of a
  pool are the relation \<open>pool_step\<close>; the interleavings of an optimistic pin with a clock sweep over the same frame are
  the relation \<open>race_step\<close>, one rule per access to the frame.
\<close>

section \<open>Reserving a page\<close>

lemma Reserve_cases:
  assumes inv: "pool_inv bp" and nz: "next_of (bp_fsm bp) tbl \<noteq> 0" and r: "pool_Reserve bp tbl = Some (Inr (bp', f))"
  defines "i \<equiv> \<lparr>tbl_id = tbl, pid = next_of (bp_fsm bp) tbl\<rparr>"
  shows "\<exists>h. takeable bp f \<and> resident bp i = None \<and> pid i < BUFFER_POOL_PAGE_NUM \<and> bp' = bp\<lparr>
      pages := (pages bp)(f := (taken (pages bp f) i False)\<lparr>pg_data := (\<lambda>_. 0)\<rparr>),
      partition_maps := swap_in (partition_maps bp) i (pg_id (pages bp f)) f, sweep_head := h,
      io_queue := io_queue bp, bp_fsm := (bp_fsm bp)(tbl \<mapsto> next_of (bp_fsm bp) tbl + 1)\<rparr>"
proof -
  let ?fsm = "(bp_fsm bp)(tbl \<mapsto> next_of (bp_fsm bp) tbl + 1)"
  have g: "fsm_index_Get (bp_fsm bp) tbl = (?fsm, next_of (bp_fsm bp) tbl)"
    by (simp add: fsm_index_Get_def next_of_def Let_def)
  note R = r [unfolded pool_Reserve_def g Let_def prod.case, folded i_def]
  have lt: "pid i < BUFFER_POOL_PAGE_NUM" using R by (auto simp: i_def split: if_splits)
  then obtain x where gv: "GetVictim (bp\<lparr>bp_fsm := ?fsm\<rparr>) i False = Some x" using R by (auto simp: i_def obind_def bind_eq_Some_conv)
  obtain g' where "takeable (bp\<lparr>bp_fsm := ?fsm\<rparr>) g'" using GetVictim_needs [OF gv] pool_invD(1) [OF inv] by auto
  from GetVictim_finds [OF this, of i False] pool_invD(1) [OF inv] obtain h f' where f': "takeable bp f'"
    and gv': "GetVictim (bp\<lparr>bp_fsm := ?fsm\<rparr>) i False =
      Some (Inr (set_page (bp\<lparr>bp_fsm := ?fsm, sweep_head := h\<rparr>) f' (taken (pages bp f') i False), f', pg_id (pages bp f')))"
    by (auto simp: victim_result_def takeable_def)
  have no: "resident bp i = None"
    using R lt by (auto simp: gv' i_def [symmetric] part_Put_def resident_def set_page_def split: option.splits if_splits)
  then have "f = f' \<and> bp' = bp\<lparr>pages := (pages bp)(f' := (taken (pages bp f') i False)\<lparr>pg_data := (\<lambda>_. 0)\<rparr>),
      partition_maps := swap_in (partition_maps bp) i (pg_id (pages bp f')) f', sweep_head := h,
      io_queue := io_queue bp, bp_fsm := ?fsm\<rparr>"
    using R lt by (auto simp: gv' i_def [symmetric] part_Put_def resident_def set_page_def swap_in_def split: if_splits)
  with f' no lt show ?thesis by auto
qed

section \<open>Runs of a pool\<close>

inductive pool_step :: "BufferPool \<Rightarrow> BufferPool \<Rightarrow> bool" where
  step_pin: "pool_Pin vt bp i = Some (Inr (bp', f)) \<Longrightarrow> pool_step bp bp'"
| step_unpin: "pool_step bp (pool_Unpin bp f dirty)"
| step_reserve: "pool_Reserve bp tbl = Some (Inr (bp', f)) \<Longrightarrow> pool_step bp bp'"
| step_write: "pool_step bp (set_page bp f (WriteOffset (pages bp f) off bs))"
| step_dequeue: "io_queue bp = t # q \<Longrightarrow> pool_step bp (bp\<lparr>io_queue := q\<rparr>)"
| step_signal: "SignalIO (pages bp f) = Inr p \<Longrightarrow> pool_step bp (set_page bp f p)"

inductive_cases pool_stepE: "pool_step bp bp'"

definition pool_good :: "BufferPool \<Rightarrow> bool" where
  "pool_good bp \<longleftrightarrow> pool_inv bp \<and> (\<forall>tbl. next_of (bp_fsm bp) tbl \<noteq> 0) \<and>
     (\<forall>t \<in> set (io_queue bp). task_op t = READ) \<and> (\<forall>f. \<not> IsDirty (pages bp f))"

lemma flag_bits: "(a OR 2) AND 1 = a AND (1 :: u8)" "(a AND - 3) AND 1 = a AND (1 :: u8)"
  by (rule bit_eqI; auto simp: bit_simps bit_1_iff; fail)+

lemma dirty_simps [simp]:
  "IsDirty (taken p i io) = IsDirty p" "IsDirty (p\<lparr>pg_versions := v\<rparr>) = IsDirty p" "IsDirty (p\<lparr>pg_data := d\<rparr>) = IsDirty p"
  "IsDirty (page_Unpin p) = IsDirty p" "IsDirty (page_Pin p) = IsDirty p" "IsDirty (WriteOffset p off bs) = IsDirty p"
  "IsDirty (ClearIOInProgress p) = IsDirty p"
  by (simp_all add: IsDirty_def DIRTY_FLAG_def IO_IN_PROGRESS_FLAG_def taken_def page_Pin_def page_Unpin_def WriteOffset_def
      SetIOInProgress_def ClearIOInProgress_def Let_def flag_bits)

lemma taken_io: "IsIOInProgress ((taken p i True)\<lparr>pg_versions := v\<rparr>)"
  by (simp add: IsIOInProgress_def taken_def page_Pin_def SetIOInProgress_def IO_IN_PROGRESS_FLAG_def Let_def
      bit.conj_disj_distrib2)

lemma signal_page: "SignalIO q = Inr p \<Longrightarrow> pg_id p = pg_id q \<and> IsDirty p = IsDirty q"
  by (auto simp: SignalIO_def DB7_ASSERT_def split: if_splits) (simp_all add: ClearIOInProgress_def)

lemma pin_step_cases:
  assumes inv: "pool_inv bp" and r: "pool_Pin vt bp i = Some (Inr (bp', f))"
  shows "resident bp i = Some f \<and> bp' = set_page bp f (page_Pin (pages bp f)) \<or>
    pid i \<noteq> 0 \<and> resident bp i = None \<and> takeable bp f \<and> (\<exists>h. bp' = bp\<lparr>
      pages := (pages bp)(f := (taken (pages bp f) i True)\<lparr>pg_versions := vt i\<rparr>),
      partition_maps := swap_in (partition_maps bp) i (pg_id (pages bp f)) f, sweep_head := h,
      io_queue := io_queue bp @ [pin_task f i], bp_fsm := bp_fsm bp\<rparr>)"
proof -
  have i: "pid i \<noteq> 0" "pid i \<noteq> 0xFFFFFFFF" using r by (auto simp: pool_Pin_def split: if_splits)
  show ?thesis
  proof (cases "resident bp i")
    case (Some g)
    with r Pin_resident [OF inv i, of g vt] show ?thesis by auto
  next
    case None
    from r Pin_miss_unfold [OF i None, of vt] obtain x where "GetVictim bp i True = Some x"
      by (auto simp: pin_miss_def obind_def bind_eq_Some_conv)
    from GetVictim_needs [OF this pool_invD(1) [OF inv]] obtain g where "takeable bp g" ..
    from Pin_miss [OF inv i None this, of vt] r None i show ?thesis by auto
  qed
qed

lemma pool_good_swap:
  assumes "pool_good bp" "pid i \<noteq> 0" "resident bp i = None" "f < BUFFER_POOL_PAGE_NUM" "pg_id p = i" "\<not> IsDirty p"
    and "\<forall>tbl. next_of m tbl \<noteq> 0" "\<forall>t \<in> set q. task_op t = READ"
  shows "pool_good (bp\<lparr>pages := (pages bp)(f := p), partition_maps := swap_in (partition_maps bp) i (pg_id (pages bp f)) f,
    sweep_head := h, io_queue := q, bp_fsm := m\<rparr>)"
  using assms by (auto simp: pool_good_def intro: pool_inv_swap)

lemma pool_good_frame:
  "pool_good bp \<Longrightarrow> pg_id p = pg_id (pages bp f) \<Longrightarrow> IsDirty p = IsDirty (pages bp f) \<Longrightarrow> pool_good (set_page bp f p)"
  using pool_inv_frame [of bp p f] by (simp add: pool_good_def set_page_def)

lemma pool_step_good:
  assumes "pool_step bp bp'" "pool_good bp"
  shows "pool_good bp'"
  using assms
proof cases
  case (step_pin vt i f)
  have inv: "pool_inv bp" using assms(2) by (simp add: pool_good_def)
  from pin_step_cases [OF inv step_pin] show ?thesis
  proof (elim disjE conjE exE)
    assume "bp' = set_page bp f (page_Pin (pages bp f))"
    with assms(2) show ?thesis by (simp add: pool_good_frame page_Pin_def [of "pages bp f"] IsDirty_def)
  next
    fix h
    assume "pid i \<noteq> 0" "resident bp i = None" "takeable bp f" and bp': "bp' = bp\<lparr>
      pages := (pages bp)(f := (taken (pages bp f) i True)\<lparr>pg_versions := vt i\<rparr>),
      partition_maps := swap_in (partition_maps bp) i (pg_id (pages bp f)) f, sweep_head := h,
      io_queue := io_queue bp @ [pin_task f i], bp_fsm := bp_fsm bp\<rparr>"
    with assms(2) show ?thesis unfolding bp' by (intro pool_good_swap) (auto simp: pool_good_def takeable_def pin_task_def)
  qed
next
  case (step_unpin f dirty)
  with assms(2) show ?thesis by (simp add: pool_Unpin_def pool_good_frame page_Unpin_def [of "pages bp f"] IsDirty_def)
next
  case (step_reserve tbl f)
  have inv: "pool_inv bp" and nz: "\<forall>t. next_of (bp_fsm bp) t \<noteq> 0" using assms(2) by (auto simp: pool_good_def)
  from Reserve_cases [OF inv nz [rule_format] step_reserve] obtain h where h: "takeable bp f"
    "resident bp \<lparr>tbl_id = tbl, pid = next_of (bp_fsm bp) tbl\<rparr> = None" "next_of (bp_fsm bp) tbl < BUFFER_POOL_PAGE_NUM"
    and bp': "bp' = bp\<lparr>pages := (pages bp)(f := (taken (pages bp f) \<lparr>tbl_id = tbl, pid = next_of (bp_fsm bp) tbl\<rparr> False)\<lparr>pg_data := (\<lambda>_. 0)\<rparr>),
      partition_maps := swap_in (partition_maps bp) \<lparr>tbl_id = tbl, pid = next_of (bp_fsm bp) tbl\<rparr> (pg_id (pages bp f)) f, sweep_head := h,
      io_queue := io_queue bp, bp_fsm := (bp_fsm bp)(tbl \<mapsto> next_of (bp_fsm bp) tbl + 1)\<rparr>" by auto
  have "unat (next_of (bp_fsm bp) tbl) < 80000" using h(3) by (simp add: word_less_nat_alt BUFFER_POOL_PAGE_NUM_def)
  then have "unat (next_of (bp_fsm bp) tbl + 1) = unat (next_of (bp_fsm bp) tbl) + 1" by (simp add: unat_word_ariths)
  then have "next_of (bp_fsm bp) tbl + 1 \<noteq> 0" by (auto simp flip: unat_eq_zero)
  then have "\<forall>t. next_of ((bp_fsm bp)(tbl \<mapsto> next_of (bp_fsm bp) tbl + 1)) t \<noteq> 0" using nz by (auto simp: next_of_def)
  with assms(2) h nz show ?thesis unfolding bp' by (intro pool_good_swap) (auto simp: pool_good_def takeable_def)
next
  case (step_write f off bs)
  with assms(2) show ?thesis by (simp add: pool_good_frame WriteOffset_def [of "pages bp f"] IsDirty_def)
next
  case (step_dequeue t q)
  with assms(2) show ?thesis by (auto simp: pool_good_def pool_inv_def resident_def)
next
  case (step_signal f p)
  with assms(2) signal_page [OF step_signal(2)] show ?thesis by (simp add: pool_good_frame)
qed

lemma BufferPool_new_good: "pool_good (BufferPool_new BUFFER_POOL_PAGE_NUM)"
  by (simp add: pool_good_def pool_inv_def BufferPool_new_def resident_def Page_new_def packed_id_def IsDirty_def
      fsm_index_Reset_def next_of_def)

lemma pool_run_good: "pool_step\<^sup>*\<^sup>* (BufferPool_new BUFFER_POOL_PAGE_NUM) bp \<Longrightarrow> pool_good bp"
  by (induction rule: rtranclp_induct) (auto intro: BufferPool_new_good pool_step_good)

lemma Pin_miss_queue:
  assumes "pool_inv bp" "pid i \<noteq> 0" "pid i \<noteq> 0xFFFFFFFF" "resident bp i = None" "takeable bp g"
  shows "\<exists>bp' f. pool_Pin vt bp i = Some (Inr (bp', f)) \<and> io_queue bp' = io_queue bp @ [pin_task f i]"
  by (rule Pin_miss [OF assms, of vt]) simp

section \<open>The pool on its first page\<close>

definition demo_pid :: PageIdentifier where
  "demo_pid = \<lparr>tbl_id = 1, pid = 1\<rparr>"

definition demo_pid2 :: PageIdentifier where
  "demo_pid2 = \<lparr>tbl_id = 1, pid = 2\<rparr>"

abbreviation demo_pool :: BufferPool where
  "demo_pool \<equiv> BufferPool_new BUFFER_POOL_PAGE_NUM"

lemma demo_takeable: "f < BUFFER_POOL_PAGE_NUM \<Longrightarrow> takeable demo_pool f"
  by (simp add: takeable_def BufferPool_new_def Page_new_def IsEvictable_def IsPinned_def IsDirty_def IsIOInProgress_def)

lemma demo_inv: "pool_inv demo_pool"
  using BufferPool_new_good by (simp add: pool_good_def)

lemma demo_not_resident: "resident demo_pool i = None"
  by (simp add: resident_def BufferPool_new_def)

lemma demo_ids: "pid demo_pid \<noteq> 0" "pid demo_pid \<noteq> 0xFFFFFFFF" "pid demo_pid2 \<noteq> 0" "pid demo_pid2 \<noteq> 0xFFFFFFFF"
    "demo_pid \<noteq> demo_pid2"
  by (simp_all add: demo_pid_def demo_pid2_def)

text \<open>C22: In a pool whose page table and frames agree, pinning a page that is resident, or for which some frame can be
  taken, returns a frame that holds that page with one more pin. No other frame changes, the table and the frames
  still agree, and of the other pages only the evicted one leaves the pool. A resident page costs no disk access; a
  miss takes an unpinned frame, marks it as being read and queues exactly one read task for it.\<close>

theorem pool_pin_spec:
  assumes "pool_inv bp" "pid i \<noteq> 0" "pid i \<noteq> 0xFFFFFFFF" "resident bp i \<noteq> None \<or> (\<exists>f. takeable bp f)"
  shows "\<exists>bp' f. pool_Pin vt bp i = Some (Inr (bp', f)) \<and> pool_inv bp' \<and> resident bp' i = Some f \<and>
    pg_id (pages bp' f) = i \<and> ref_count (pages bp' f) = ref_count (pages bp f) + 1 \<and>
    (\<forall>g. g \<noteq> f \<longrightarrow> pages bp' g = pages bp g) \<and>
    (\<forall>j. j \<noteq> i \<and> j \<noteq> pg_id (pages bp f) \<longrightarrow> resident bp' j = resident bp j) \<and>
    (case resident bp i of
       Some g \<Rightarrow> f = g \<and> io_queue bp' = io_queue bp
     | None \<Rightarrow> IsEvictable (pages bp f) \<and> IsIOInProgress (pages bp' f) \<and> io_queue bp' = io_queue bp @ [pin_task f i])"
proof (cases "resident bp i")
  case (Some g)
  then have id: "pg_id (pages bp g) = i" using pool_invD(4) [OF assms(1)] by (simp add: resident_def)
  have "pool_inv (set_page bp g (page_Pin (pages bp g)))"
    using pool_inv_frame [OF assms(1), of "page_Pin (pages bp g)" g] by (simp add: page_Pin_def)
  with Some id show ?thesis
    unfolding Pin_resident [OF assms(1-3) Some, of vt] by (auto simp: set_page_def page_Pin_def resident_def)
next
  case None
  with assms(4) obtain g where "takeable bp g" by auto
  from Pin_miss [OF assms(1-3) None this, of vt] obtain h f where tk: "takeable bp f" and r: "pool_Pin vt bp i = Some (Inr (bp\<lparr>
      pages := (pages bp)(f := (taken (pages bp f) i True)\<lparr>pg_versions := vt i\<rparr>),
      partition_maps := swap_in (partition_maps bp) i (pg_id (pages bp f)) f, sweep_head := h,
      io_queue := io_queue bp @ [pin_task f i], bp_fsm := bp_fsm bp\<rparr>, f))" .
  have ne: "pg_id (pages bp f) \<noteq> i" using pool_invD(5) [OF assms(1), of f] None assms(2) tk by (auto simp: takeable_def)
  note sw = swap_in_apply [where f = f, OF pool_invD(2) [OF assms(1)] ne]
  have inv: "pool_inv (bp\<lparr>
      pages := (pages bp)(f := (taken (pages bp f) i True)\<lparr>pg_versions := vt i\<rparr>),
      partition_maps := swap_in (partition_maps bp) i (pg_id (pages bp f)) f, sweep_head := h,
      io_queue := io_queue bp @ [pin_task f i], bp_fsm := bp_fsm bp\<rparr>)"
    using tk by (intro pool_inv_swap assms None) (simp_all add: takeable_def)
  show ?thesis unfolding r using None tk inv taken_io [where p = "pages bp f" and i = i and v = "vt i"]
    by (intro exI conjI) (auto simp: sw resident_def takeable_def)
qed

theorem pool_pin_spec_witness:
  "\<exists>bp' f. pool_Pin Map.empty demo_pool demo_pid = Some (Inr (bp', f)) \<and> pool_inv bp' \<and> resident bp' demo_pid = Some f \<and>
     pg_id (pages bp' f) = demo_pid \<and> ref_count (pages bp' f) = 1 \<and> io_queue bp' = [pin_task f demo_pid]"
  using pool_pin_spec [of demo_pool demo_pid Map.empty] demo_inv demo_takeable [of 0] demo_not_resident [of demo_pid] demo_ids
  by (auto simp: BufferPool_new_def Page_new_def BUFFER_POOL_PAGE_NUM_def)

text \<open>C23: Pinning a page returns exactly when the page is resident or some frame can be taken. The clock sweep gets to
  that frame from every position of its hand, over the wrap-around of the 32-bit counter too; when every frame is
  pinned, dirty, being read or latched it goes round for ever, and so does the pin.\<close>

theorem pool_pin_returns_iff:
  assumes "pool_inv bp" "pid i \<noteq> 0" "pid i \<noteq> 0xFFFFFFFF"
  shows "(\<exists>r. pool_Pin vt bp i = Some r) \<longleftrightarrow> resident bp i \<noteq> None \<or> (\<exists>f. takeable bp f)"
proof (cases "resident bp i")
  case (Some g)
  with Pin_resident [OF assms Some, of vt] show ?thesis by simp
next
  case None
  have "\<exists>f. takeable bp f" if "pool_Pin vt bp i = Some r" for r
  proof -
    from that [unfolded Pin_miss_unfold [OF assms(2,3) None]] obtain x where "GetVictim bp i True = Some x"
      by (auto simp: pin_miss_def obind_def bind_eq_Some_conv)
    from GetVictim_needs [OF this pool_invD(1) [OF assms(1)]] show ?thesis .
  qed
  moreover have "\<exists>r. pool_Pin vt bp i = Some r" if "takeable bp g" for g
    using Pin_miss [OF assms None that, of vt] by metis
  ultimately show ?thesis using None by auto
qed

theorem pool_pin_returns_iff_witness:
  "(\<exists>r. pool_Pin Map.empty demo_pool demo_pid = Some r) \<and>
   (let full = demo_pool\<lparr>pages := (\<lambda>_. page_Pin Page_new)\<rparr> in pool_Pin Map.empty full demo_pid = None)"
proof -
  let ?full = "demo_pool\<lparr>pages := (\<lambda>_. page_Pin Page_new)\<rparr>"
  have "pool_inv ?full" using demo_inv by (simp add: pool_inv_def BufferPool_new_def page_Pin_def resident_def)
  moreover have "\<not> takeable ?full f" "resident ?full demo_pid = None" for f
    by (simp_all add: takeable_def IsEvictable_def IsPinned_def page_Pin_def Page_new_def resident_def BufferPool_new_def)
  ultimately have "pool_Pin Map.empty ?full demo_pid = None"
    using pool_pin_returns_iff [of ?full demo_pid Map.empty] demo_ids by fastforce
  moreover have "\<exists>r. pool_Pin Map.empty demo_pool demo_pid = Some r"
    using pool_pin_returns_iff [OF demo_inv demo_ids(1,2)] demo_takeable [of 0] by (auto simp: BUFFER_POOL_PAGE_NUM_def)
  ultimately show ?thesis by (simp add: Let_def)
qed

text \<open>C24: In every run of a new pool of pins, unpins, reserved pages, writes through frames, tasks taken by the scheduler
  and finished reads, the page table and the frames agree, so no page is ever in two frames; no frame is ever marked
  dirty; and every disk task is a read. Nothing the pool does writes a page to disk.\<close>

theorem pool_never_writes:
  assumes "pool_step\<^sup>*\<^sup>* (BufferPool_new BUFFER_POOL_PAGE_NUM) bp"
  shows "pool_inv bp \<and> (\<forall>t \<in> set (io_queue bp). task_op t = READ) \<and> (\<forall>f. \<not> IsDirty (pages bp f))"
  using pool_run_good [OF assms] by (simp add: pool_good_def)

theorem pool_never_writes_witness:
  "\<exists>bp t. pool_step\<^sup>*\<^sup>* demo_pool bp \<and> io_queue bp = [t] \<and> task_id t = demo_pid \<and> task_op t = READ \<and> pool_inv bp \<and>
     \<not> IsDirty (pages bp 0)"
proof -
  have "takeable demo_pool 0" by (rule demo_takeable) (simp add: BUFFER_POOL_PAGE_NUM_def)
  from Pin_miss_queue [OF demo_inv demo_ids(1,2) demo_not_resident this, of Map.empty] obtain bp f where
    "pool_Pin Map.empty demo_pool demo_pid = Some (Inr (bp, f))" and q: "io_queue bp = io_queue demo_pool @ [pin_task f demo_pid]"
    by blast
  then have r: "pool_step\<^sup>*\<^sup>* demo_pool bp" by (blast intro: step_pin)
  from q have "io_queue bp = [pin_task f demo_pid]" by (simp add: BufferPool_new_def)
  with r pool_never_writes [OF r] show ?thesis
    by (intro exI [of _ bp] exI [of _ "pin_task f demo_pid"]) (simp add: pin_task_def)
qed

text \<open>A page that was changed and unpinned as dirty is thrown away. \<^verbatim>\<open>Unpin\<close> ignores its argument \<^verbatim>\<open>dirty\<close>, so the
  frame can be taken at once: when the hand of the clock stands there, the next miss gives the frame to another page,
  the changed page leaves the pool, and the only disk task queued is the read of the new page.\<close>

theorem unpin_dirty_lost:
  assumes "pool_inv bp" "resident bp i = Some f" "ref_count (pages bp f) = 1" "flags (pages bp f) = 0"
    "\<not> latch_held (pages bp f)" "sweep_head bp mod BUFFER_POOL_PAGE_NUM = f"
    "pid j \<noteq> 0" "pid j \<noteq> 0xFFFFFFFF" "resident bp j = None"
  shows "\<exists>bp'. pool_Pin vt (pool_Unpin (set_page bp f (WriteOffset (pages bp f) off bs)) f True) j = Some (Inr (bp', f)) \<and>
    pg_id (pages bp' f) = j \<and> resident bp' i = None \<and> io_queue bp' = io_queue bp @ [pin_task f j]"
proof -
  let ?p = "page_Unpin (WriteOffset (pages bp f) off bs)"
  let ?bp = "set_page bp f ?p"
  have un: "pool_Unpin (set_page bp f (WriteOffset (pages bp f) off bs)) f True = ?bp"
    by (simp add: pool_Unpin_def set_page_def)
  have inv: "pool_inv ?bp" using pool_inv_frame [OF assms(1), of ?p f] by (simp add: page_Unpin_def WriteOffset_def)
  have j: "resident ?bp j = None" using assms(9) by (simp add: resident_def set_page_def)
  have id: "pg_id (pages bp f) = i" "f < BUFFER_POOL_PAGE_NUM" and ij: "i \<noteq> j"
    using pool_invD(3,4) [OF assms(1)] assms(2,9) by (auto simp: resident_def)
  then have ne: "pg_id (pages bp f) \<noteq> j" by simp
  have "takeable ?bp f" using id assms(3-5)
    by (simp add: takeable_def set_page_def IsEvictable_def IsPinned_def IsDirty_def IsIOInProgress_def page_Unpin_def WriteOffset_def)
  then have "GetVictim ?bp j True = Some (Inr (set_page (?bp\<lparr>sweep_head := sweep_head bp + 1\<rparr>) f (taken ?p j True), f, pg_id ?p))"
    using assms(6) pool_invD(1) [OF assms(1)]
    by (subst GetVictim.simps) (simp add: takeable_def taken_def Let_def set_page_def page_Unpin_def WriteOffset_def)
  then have "pool_Pin vt ?bp j = Some (Inr (bp\<lparr>pages := (pages bp)(f := (taken ?p j True)\<lparr>pg_versions := vt j\<rparr>),
      partition_maps := swap_in (partition_maps bp) j (pg_id ?p) f, sweep_head := sweep_head bp + 1,
      io_queue := io_queue bp @ [pin_task f j]\<rparr>, f))"
    unfolding Pin_miss_unfold [OF assms(7,8) j] pin_miss_def using j by (simp add: part_Put_def resident_def set_page_def Enqueue_def
        swap_in_def pin_task_def Let_def)
  moreover have "pg_id ?p = i" using id by (simp add: page_Unpin_def WriteOffset_def)
  moreover note swap_in_apply [where f = f, OF pool_invD(2) [OF assms(1)] ij]
  ultimately show ?thesis unfolding un using assms(2) ij by (simp add: resident_def)
qed

text \<open>The pool with one reserved page in frame 0, the hand of the clock back on that frame.\<close>

definition demo_loaded :: BufferPool where
  "demo_loaded = demo_pool\<lparr>pages := (pages demo_pool)(0 := taken (pages demo_pool 0) demo_pid False),
     partition_maps := swap_in (partition_maps demo_pool) demo_pid (pg_id (pages demo_pool 0)) 0,
     sweep_head := BUFFER_POOL_PAGE_NUM, io_queue := [], bp_fsm := bp_fsm demo_pool\<rparr>"

lemma demo_loaded_ok:
  "pool_inv demo_loaded" "resident demo_loaded demo_pid = Some 0" "resident demo_loaded demo_pid2 = None"
  "ref_count (pages demo_loaded 0) = 1" "flags (pages demo_loaded 0) = 0" "\<not> latch_held (pages demo_loaded 0)"
  "sweep_head demo_loaded mod BUFFER_POOL_PAGE_NUM = 0" "io_queue demo_loaded = []"
proof -
  show "pool_inv demo_loaded" unfolding demo_loaded_def
    by (rule pool_inv_swap [OF demo_inv demo_ids(1) demo_not_resident]) (simp_all add: BUFFER_POOL_PAGE_NUM_def)
  have ne: "pg_id (pages demo_pool 0) \<noteq> demo_pid"
    by (simp add: BufferPool_new_def Page_new_def packed_id_def demo_pid_def)
  note sw = swap_in_apply [where f = 0, OF pool_invD(2) [OF demo_inv] ne]
  show "resident demo_loaded demo_pid = Some 0" "resident demo_loaded demo_pid2 = None"
    using demo_ids(5) demo_not_resident [of demo_pid2] by (simp_all add: demo_loaded_def resident_def sw)
  show "ref_count (pages demo_loaded 0) = 1" "flags (pages demo_loaded 0) = 0" "\<not> latch_held (pages demo_loaded 0)"
    "sweep_head demo_loaded mod BUFFER_POOL_PAGE_NUM = 0" "io_queue demo_loaded = []"
    by (simp_all add: demo_loaded_def taken_def page_Pin_def Let_def BufferPool_new_def Page_new_def BUFFER_POOL_PAGE_NUM_def)
qed

theorem unpin_dirty_lost_witness:
  "\<exists>bp'. pool_Pin Map.empty (pool_Unpin (set_page demo_loaded 0 (WriteOffset (pages demo_loaded 0) 16 [1, 2, 3])) 0 True) demo_pid2 =
       Some (Inr (bp', 0)) \<and>
     pg_id (pages bp' 0) = demo_pid2 \<and> resident bp' demo_pid = None \<and> io_queue bp' = [pin_task 0 demo_pid2]"
  using unpin_dirty_lost [OF demo_loaded_ok(1,2,4-7) demo_ids(3,4) demo_loaded_ok(3), of Map.empty 16 "[1, 2, 3]"]
  by (simp add: demo_loaded_ok(8))

section \<open>An optimistic pin against the sweep\<close>

text \<open>
  Two threads at one frame: one in \<^verbatim>\<open>PageVisit\<close> for the page \<open>i\<close>, the other in the body of the loop of
  \<^verbatim>\<open>GetVictim\<close> for the page \<open>j\<close>. Each rule is one access to the atomic fields of the frame or to its latch; a constructor
  of \<open>visit_pc\<close> and \<open>sweep_pc\<close> is a place in the code between two of them.
\<close>

datatype visit_pc = V_Start | V_Pinned | V_Mismatch | V_Returned bool

datatype sweep_pc = S_Start | S_Latched | S_NotPinned | S_NotDirty | S_Evictable | S_Saved PageIdentifier
  | S_Named PageIdentifier | S_Pinned PageIdentifier | S_Flagged PageIdentifier | S_Failed | S_Skipped | S_Victim PageIdentifier

inductive race_step :: "PageIdentifier \<Rightarrow> PageIdentifier \<Rightarrow> Page \<times> visit_pc \<times> sweep_pc \<Rightarrow> Page \<times> visit_pc \<times> sweep_pc \<Rightarrow> bool"
  for i j where
  "race_step i j (p, V_Start, s) (page_Pin p, V_Pinned, s)"
| "pg_id p = i \<Longrightarrow> race_step i j (p, V_Pinned, s) (p, V_Returned True, s)"
| "pg_id p \<noteq> i \<Longrightarrow> race_step i j (p, V_Pinned, s) (p, V_Mismatch, s)"
| "race_step i j (p, V_Mismatch, s) (page_Unpin p, V_Returned False, s)"
| "page_WLock p = Some p' \<Longrightarrow> race_step i j (p, v, S_Start) (p', v, S_Latched)"
| "page_WLock p = None \<Longrightarrow> race_step i j (p, v, S_Start) (p, v, S_Skipped)"
| "race_step i j (p, v, S_Latched) (p, v, if IsPinned p then S_Failed else S_NotPinned)"
| "race_step i j (p, v, S_NotPinned) (p, v, if IsDirty p then S_Failed else S_NotDirty)"
| "race_step i j (p, v, S_NotDirty) (p, v, if IsIOInProgress p then S_Failed else S_Evictable)"
| "race_step i j (p, v, S_Failed) (page_WUnlock p, v, S_Skipped)"
| "race_step i j (p, v, S_Evictable) (p, v, S_Saved (pg_id p))"
| "race_step i j (p, v, S_Saved k) (p\<lparr>pg_id := j\<rparr>, v, S_Named k)"
| "race_step i j (p, v, S_Named k) (page_Pin p, v, S_Pinned k)"
| "race_step i j (p, v, S_Pinned k) (SetIOInProgress p, v, S_Flagged k)"
| "race_step i j (p, v, S_Flagged k) (page_WUnlock p, v, S_Victim k)"

lemmas race_intros = race_step.intros [THEN converse_rtranclp_into_rtranclp [of "race_step i j" for i j]]

inductive_cases race_stepE: "race_step i j (p, v, s) st"

definition visit_pins :: "visit_pc \<Rightarrow> u32" where
  "visit_pins v = (if v = V_Pinned \<or> v = V_Mismatch \<or> v = V_Returned True then 1 else 0)"

definition pinned_st :: "PageIdentifier \<Rightarrow> u32 \<Rightarrow> Page \<times> visit_pc \<times> sweep_pc \<Rightarrow> bool" where
  "pinned_st k n st = (case st of (p, v, s) \<Rightarrow>
     pg_id p = k \<and> ref_count p = n + visit_pins v \<and> s \<in> {S_Start, S_Latched, S_Failed, S_Skipped})"

lemma pinned_st_step:
  assumes "race_step i j st st'" "pinned_st k n st" "n \<noteq> 0" "n + 1 \<noteq> 0"
  shows "pinned_st k n st'"
  using assms
  by (cases rule: race_step.cases)
    (auto simp: pinned_st_def visit_pins_def page_Pin_def page_Unpin_def page_WLock_def page_WUnlock_def IsPinned_def
      word_neq_0_conv split: if_splits)

text \<open>C25: A frame that somebody has pinned keeps its page, whatever a visit and a sweep of the same frame do in
  between: in every interleaving the sweep gives the frame up, the id stays, and the pin count is the old one plus the
  pin of the visit.\<close>

theorem pinned_page_stays:
  assumes "(race_step i j)\<^sup>*\<^sup>* (p, V_Start, S_Start) (p', v, s)" "ref_count p \<noteq> 0" "ref_count p + 1 \<noteq> 0"
  shows "pg_id p' = pg_id p \<and> ref_count p' = ref_count p + visit_pins v \<and> (\<forall>k. s \<noteq> S_Victim k)"
proof -
  from assms(1) have "pinned_st (pg_id p) (ref_count p) (p', v, s)"
    using assms(2,3) by (induction rule: rtranclp_induct)
      (auto simp: pinned_st_def [of "pg_id p" "ref_count p" "(p, V_Start, S_Start)"] visit_pins_def intro: pinned_st_step)
  then show ?thesis by (auto simp: pinned_st_def)
qed

theorem pinned_page_stays_witness:
  "\<exists>p' v. (race_step demo_pid demo_pid2)\<^sup>*\<^sup>* ((page_Pin Page_new)\<lparr>pg_id := demo_pid\<rparr>, V_Start, S_Start) (p', V_Returned True, S_Start) \<and>
     pg_id p' = demo_pid \<and> ref_count p' = 2"
proof -
  let ?p = "(page_Pin Page_new)\<lparr>pg_id := demo_pid\<rparr>"
  have r: "(race_step demo_pid demo_pid2)\<^sup>*\<^sup>* (?p, V_Start, S_Start) (page_Pin ?p, V_Returned True, S_Start)"
    by (intro race_intros rtranclp.rtrancl_refl) (simp add: page_Pin_def)
  from pinned_page_stays [OF r] show ?thesis using r by (auto simp: page_Pin_def Page_new_def visit_pins_def)
qed

text \<open>C26: The optimistic pin does not keep the page. When a thread visits an unpinned resident page \<open>i\<close> while another
  sweeps its frame for a page \<open>j\<close>, the visit can pin the frame after the sweep has read the pin count and read the id
  before the sweep writes it: \<^verbatim>\<open>PageVisit\<close> returns true, yet the frame now holds \<open>j\<close>, is being read from
  disk, and both threads have it pinned.\<close>

theorem optimistic_pin_race:
  assumes "i \<noteq> j" "pg_id p = i" "ref_count p = 0" "flags p = 0" "\<not> latch_held p"
  shows "\<exists>p'. (race_step i j)\<^sup>*\<^sup>* (p, V_Start, S_Start) (p', V_Returned True, S_Victim i) \<and>
    pg_id p' = j \<and> pg_id p' \<noteq> i \<and> IsIOInProgress p' \<and> ref_count p' = 2"
proof -
  let ?l = "p\<lparr>latch_held := True\<rparr>" and ?pin = "(p\<lparr>latch_held := True\<rparr>)\<lparr>ref_count := 1\<rparr>"
  have latch: "page_WLock p = Some ?l" using assms(5) by (simp add: page_WLock_def)
  have free: "\<not> IsPinned ?l" "\<not> IsDirty ?l" "\<not> IsIOInProgress ?l" and pin: "page_Pin ?l = ?pin"
    using assms(3,4) by (simp_all add: IsPinned_def IsDirty_def IsIOInProgress_def page_Pin_def)
  have "race_step i j (p, V_Start, S_Start) (?l, V_Start, S_Latched)" using latch by (rule race_step.intros)
  moreover have "race_step i j (?l, V_Start, S_Latched) (?l, V_Start, S_NotPinned)"
    using race_step.intros(7) [of i j ?l V_Start] free by simp
  moreover have "race_step i j (?l, V_Start, S_NotPinned) (?l, V_Start, S_NotDirty)"
    using race_step.intros(8) [of i j ?l V_Start] free by simp
  moreover have "race_step i j (?l, V_Start, S_NotDirty) (?l, V_Start, S_Evictable)"
    using race_step.intros(9) [of i j ?l V_Start] free by simp
  moreover have "race_step i j (?l, V_Start, S_Evictable) (?pin, V_Pinned, S_Evictable)"
    using race_step.intros(1) [of i j ?l S_Evictable] pin by simp
  moreover have "race_step i j (?pin, V_Pinned, S_Evictable) (?pin, V_Returned True, S_Evictable)"
    using assms(2) by (simp add: race_step.intros(2))
  moreover have "race_step i j (?pin, V_Returned True, S_Evictable) (?pin, V_Returned True, S_Saved i)"
    using race_step.intros(11) [of i j ?pin] assms(2) by simp
  ultimately have "(race_step i j)\<^sup>*\<^sup>* (p, V_Start, S_Start) (?pin, V_Returned True, S_Saved i)"
    by (meson converse_rtranclp_into_rtranclp rtranclp.rtrancl_refl)
  also have "(race_step i j)\<^sup>*\<^sup>* (?pin, V_Returned True, S_Saved i)
      (page_WUnlock (SetIOInProgress (page_Pin (?pin\<lparr>pg_id := j\<rparr>))), V_Returned True, S_Victim i)"
    by (intro race_intros rtranclp.rtrancl_refl)
  finally show ?thesis using assms(1)
    by - (rule exI, rule conjI, assumption, simp add: page_WUnlock_def SetIOInProgress_def page_Pin_def IsIOInProgress_def
        IO_IN_PROGRESS_FLAG_def bit.conj_disj_distrib2)
qed

theorem optimistic_pin_race_witness:
  "\<exists>p'. (race_step demo_pid demo_pid2)\<^sup>*\<^sup>* (Page_new\<lparr>pg_id := demo_pid\<rparr>, V_Start, S_Start) (p', V_Returned True, S_Victim demo_pid) \<and>
     pg_id p' = demo_pid2 \<and> ref_count p' = 2"
  using optimistic_pin_race [OF demo_ids(5), of "Page_new\<lparr>pg_id := demo_pid\<rparr>"] by (auto simp: Page_new_def)

end
