(* ===== verification/DiskManager.thy ===== *)
theory DiskManager
  imports BufferPool
begin

text \<open>
  The disk manager: \<^verbatim>\<open>storage/disk_manager/fd_cache.hpp\<close>, \<^verbatim>\<open>src/storage/disk_manager/disk_manager.cpp\<close> (synchronous) and
  \<^verbatim>\<open>disk_manager_async.cpp\<close> (on io_uring).

  The operating system is the record \<open>os\<close> of the calls the code makes, over a state \<open>'w\<close> of its own; io_uring is the
  record \<open>uring\<close> over a state \<open>'r\<close>. Both are arguments of the operations. A call that returns a code returns it here.
\<close>

section \<open>The descriptor cache\<close>

definition MAX_OPEN_FILES :: u32 where
  "MAX_OPEN_FILES = 128"

record FdCacheEntry =
  fd :: int
  page_count :: u32

type_synonym FdCache = "u32 \<Rightarrow> FdCacheEntry"

definition FdCacheEntry_new :: FdCacheEntry where
  "FdCacheEntry_new = \<lparr>fd = - 1, page_count = 0\<rparr>"

definition cache_Get :: "FdCache \<Rightarrow> u32 \<Rightarrow> FdCacheEntry res" where
  "cache_Get c idx = DB7_ASSERT (idx < MAX_OPEN_FILES) ''Out of range idx'' (Inr (c idx))"

definition cache_Set :: "FdCache \<Rightarrow> u32 \<Rightarrow> FdCacheEntry \<Rightarrow> FdCache res" where
  "cache_Set c idx entry = DB7_ASSERT (idx < MAX_OPEN_FILES) ''Out of range idx'' (Inr (c(idx := entry)))"

definition cache_Invalidate :: "FdCache \<Rightarrow> u32 \<Rightarrow> (FdCache \<times> FdCacheEntry) res" where
  "cache_Invalidate c idx =
     DB7_ASSERT (idx < MAX_OPEN_FILES) ''Out of range idx'' (Inr (c(idx := \<lparr>fd = - 1, page_count = 0\<rparr>), c idx))"

section \<open>The operating system\<close>

datatype open_mode = OpenExisting | CreateNew

text \<open>Flags of \<open>os_open\<close>: \<^verbatim>\<open>O_RDWR | O_DIRECT\<close>, or with \<^verbatim>\<open>O_CREAT | O_EXCL\<close>. A directory entry is its name and whether it
  is a regular file. Reads return the bytes they got.\<close>

record 'w os =
  os_open :: "'w \<Rightarrow> string \<Rightarrow> open_mode \<Rightarrow> 'w \<times> int"
  os_close :: "'w \<Rightarrow> int \<Rightarrow> 'w"
  os_unlink :: "'w \<Rightarrow> string \<Rightarrow> 'w"
  os_access :: "'w \<Rightarrow> string \<Rightarrow> bool"
  os_mkdir :: "'w \<Rightarrow> string \<Rightarrow> 'w"
  os_rmdir :: "'w \<Rightarrow> string \<Rightarrow> 'w \<times> int"
  os_readdir :: "'w \<Rightarrow> string \<Rightarrow> (string \<times> bool) list option"
  os_fsize :: "'w \<Rightarrow> int \<Rightarrow> u64"
  os_ftruncate :: "'w \<Rightarrow> int \<Rightarrow> u64 \<Rightarrow> 'w \<times> int"
  os_fallocate :: "'w \<Rightarrow> int \<Rightarrow> u64 \<Rightarrow> u64 \<Rightarrow> 'w \<times> int"
  os_pread :: "'w \<Rightarrow> int \<Rightarrow> nat \<Rightarrow> u64 \<Rightarrow> u8 list"
  os_pwrite :: "'w \<Rightarrow> int \<Rightarrow> u8 list \<Rightarrow> u64 \<Rightarrow> 'w \<times> int"

section \<open>File names\<close>

fun dec_digits :: "nat \<Rightarrow> string" where
  "dec_digits n = (if n < 10 then [char_of (48 + n)] else dec_digits (n div 10) @ [char_of (48 + n mod 10)])"

declare dec_digits.simps [simp del]

definition digit :: "char \<Rightarrow> bool" where
  "digit c \<longleftrightarrow> 48 \<le> (of_char c :: nat) \<and> (of_char c :: nat) \<le> 57"

definition dec_value :: "string \<Rightarrow> nat" where
  "dec_value s = foldl (\<lambda>n c. 10 * n + (of_char c - 48)) 0 s"

definition file_name :: "table_id \<Rightarrow> string" where
  "file_name tid = ''table_'' @ dec_digits (unat tid) @ ''.db''"

definition MAX_PATH_LEN :: nat where
  "MAX_PATH_LEN = 256"

definition MAX_PATH_LEN_2 :: nat where
  "MAX_PATH_LEN_2 = 128"

definition BuildPath :: "string \<Rightarrow> table_id \<Rightarrow> string res" where
  "BuildPath base_dir tid =
     (let path = base_dir @ ''/'' @ file_name tid
      in DB7_ASSERT (length path < MAX_PATH_LEN) ''Path buffer too small'' (Inr path))"

text \<open>\<^verbatim>\<open>sscanf(name, "table_%u", ..)\<close>: white space and a sign are accepted before the digits, what follows them is not read.\<close>

definition scan_unsigned :: "string \<Rightarrow> u32 option" where
  "scan_unsigned s =
     (let s1 = dropWhile (\<lambda>c. (of_char c :: nat) = 32 \<or> 9 \<le> (of_char c :: nat) \<and> (of_char c :: nat) \<le> 13) s;
          neg = (s1 \<noteq> [] \<and> hd s1 = CHR ''-'');
          s2 = (if s1 \<noteq> [] \<and> (hd s1 = CHR ''-'' \<or> hd s1 = CHR ''+'') then tl s1 else s1);
          ds = takeWhile digit s2;
          n = dec_value ds
      in if ds = [] then None
         else Some (if 2 ^ 64 \<le> n then - 1 else if neg then - word_of_nat n else word_of_nat n))"

definition scan_table :: "string \<Rightarrow> u32 option" where
  "scan_table name = (if take 6 name = ''table_'' then scan_unsigned (drop 6 name) else None)"

section \<open>The synchronous manager\<close>

record 'w DiskManager =
  base_dir :: string
  cache :: FdCache
  world :: 'w

definition PAGE_BYTES :: u64 where
  "PAGE_BYTES = 8192"

definition INIT_FREE_PAGES :: u32 where
  "INIT_FREE_PAGES = 3"

fun load_entries :: "'w os \<Rightarrow> (string \<times> bool) list \<Rightarrow> ('w, 'a) DiskManager_scheme \<Rightarrow> ('w, 'a) DiskManager_scheme res" where
  "load_entries os [] dm = Inr dm"
| "load_entries os ((d_name, regular) # es) dm =
     (if \<not> regular then load_entries os es dm
      else case scan_table d_name of
        None \<Rightarrow> load_entries os es dm
      | Some tid \<Rightarrow>
          ebind (BuildPath (base_dir dm) tid) (\<lambda>path.
          let (w, h) = os_open os (world dm) path OpenExisting
          in if h < 0 then load_entries os es (dm\<lparr>world := w\<rparr>)
             else ebind (cache_Set (cache dm) tid \<lparr>fd = h, page_count = ucast (os_fsize os w h div PAGE_BYTES)\<rparr>) (\<lambda>c.
                  load_entries os es (dm\<lparr>world := w, cache := c\<rparr>))))"

definition LoadExistingTables :: "'w os \<Rightarrow> ('w, 'a) DiskManager_scheme \<Rightarrow> ('w, 'a) DiskManager_scheme res" where
  "LoadExistingTables os dm =
     (case os_readdir os (world dm) (base_dir dm) of None \<Rightarrow> Inr dm | Some es \<Rightarrow> load_entries os es dm)"

text \<open>\<^verbatim>\<open>strncpy\<close> leaves a directory of 127 bytes or more without its terminator: \<open>rest\<close> is what the memory holds from
  the last byte of the buffer up to the next zero.\<close>

definition copy_base_dir :: "string \<Rightarrow> string \<Rightarrow> string" where
  "copy_base_dir dir rest = (if length dir < MAX_PATH_LEN_2 - 1 then dir else take (MAX_PATH_LEN_2 - 1) dir @ rest)"

definition DiskManager_new :: "'w os \<Rightarrow> 'w \<Rightarrow> string \<Rightarrow> string \<Rightarrow> 'w DiskManager res" where
  "DiskManager_new os w dir rest =
     (let base = copy_base_dir dir rest
      in LoadExistingTables os \<lparr>base_dir = base, cache = (\<lambda>_. FdCacheEntry_new), world = os_mkdir os w dir\<rparr>)"

definition close_all :: "'w os \<Rightarrow> FdCache \<Rightarrow> 'w \<Rightarrow> 'w" where
  "close_all os c w =
     foldl (\<lambda>w i. if fd (c (word_of_nat i)) \<ge> 0 then os_close os w (fd (c (word_of_nat i))) else w) w [0..<unat MAX_OPEN_FILES]"

definition TruncateFile :: "'w os \<Rightarrow> 'w DiskManager \<Rightarrow> table_id \<Rightarrow> u32 \<Rightarrow> 'w DiskManager res" where
  "TruncateFile os dm tid pages_num =
     ebind (cache_Get (cache dm) tid) (\<lambda>hdr.
     DB7_ASSERT (fd hdr \<ge> 0) ''File not found''
    (let (w, n) = os_ftruncate os (world dm) (fd hdr) (ucast (pages_num * ucast PAGE_BYTES :: u32))
     in DB7_ASSERT (n = 0) ''Truncate failed''
        (ebind (cache_Set (cache dm) tid (hdr\<lparr>page_count := pages_num\<rparr>)) (\<lambda>c. Inr (dm\<lparr>world := w, cache := c\<rparr>)))))"

definition dm_CreateTable :: "'w os \<Rightarrow> 'w DiskManager \<Rightarrow> table_id \<Rightarrow> 'w DiskManager res" where
  "dm_CreateTable os dm tid =
     ebind (cache_Get (cache dm) tid) (\<lambda>e.
     DB7_ASSERT (fd e = - 1) ''File already exists''
    (ebind (BuildPath (base_dir dm) tid) (\<lambda>path.
     let (w, h) = os_open os (world dm) path CreateNew
     in DB7_ASSERT (\<not> h < 0) ''File not found''
       (ebind (cache_Set (cache dm) tid \<lparr>fd = h, page_count = INIT_FREE_PAGES\<rparr>) (\<lambda>c.
        TruncateFile os (dm\<lparr>world := w, cache := c\<rparr>) tid INIT_FREE_PAGES)))))"

definition dm_DropTable :: "'w os \<Rightarrow> 'w DiskManager \<Rightarrow> table_id \<Rightarrow> 'w DiskManager res" where
  "dm_DropTable os dm tid =
     ebind (cache_Invalidate (cache dm) tid) (\<lambda>(c, hdr).
     DB7_ASSERT (fd hdr \<ge> 0) ''Invalid file''
    (ebind (BuildPath (base_dir dm) tid) (\<lambda>path.
     Inr (dm\<lparr>cache := c, world := os_unlink os (os_close os (world dm) (fd hdr)) path\<rparr>))))"

definition dm_ExistsTable :: "'w os \<Rightarrow> 'w DiskManager \<Rightarrow> table_id \<Rightarrow> bool res" where
  "dm_ExistsTable os dm tid = ebind (BuildPath (base_dir dm) tid) (\<lambda>path. Inr (os_access os (world dm) path))"

definition DIRECT_ALIGN :: nat where
  "DIRECT_ALIGN = 4096"

definition ReadPage :: "'w os \<Rightarrow> 'w DiskManager \<Rightarrow> table_id \<Rightarrow> page_id \<Rightarrow> nat \<Rightarrow> u8 list res" where
  "ReadPage os dm tid p dest =
     DB7_ASSERT (dest mod DIRECT_ALIGN = 0) ''Dest not aligned to 4096''
    (ebind (cache_Get (cache dm) tid) (\<lambda>hdr.
     DB7_ASSERT (fd hdr \<ge> 0) ''File not found''
    (DB7_ASSERT (p < page_count hdr) ''File outside of bounds''
    (let bs = os_pread os (world dm) (fd hdr) (unat PAGE_BYTES) (ucast p * PAGE_BYTES)
     in DB7_ASSERT (length bs = unat PAGE_BYTES) ''Short read'' (Inr bs)))))"

definition WritePage :: "'w os \<Rightarrow> 'w DiskManager \<Rightarrow> table_id \<Rightarrow> page_id \<Rightarrow> nat \<Rightarrow> u8 list \<Rightarrow> 'w DiskManager res" where
  "WritePage os dm tid p src bs =
     DB7_ASSERT (src mod DIRECT_ALIGN = 0) ''Dest not aligned to 4096''
    (ebind (cache_Get (cache dm) tid) (\<lambda>hdr.
     DB7_ASSERT (fd hdr \<ge> 0) ''File not found''
    (let (w, n) = os_pwrite os (world dm) (fd hdr) bs (ucast p * PAGE_BYTES)
     in DB7_ASSERT (n = int (unat PAGE_BYTES)) ''Short read'' (Inr (dm\<lparr>world := w\<rparr>)))))"

definition PageCount :: "'w DiskManager \<Rightarrow> table_id \<Rightarrow> u32 res" where
  "PageCount dm tid = ebind (cache_Get (cache dm) tid) (\<lambda>hdr. Inr (page_count hdr))"

end
