(* ===== verification/DiskScheduler.thy ===== *)
theory DiskScheduler
  imports DiskManager
begin

text \<open>
  The asynchronous disk manager, \<^verbatim>\<open>disk_manager_async.cpp\<close>, and the scheduler that feeds it, \<^verbatim>\<open>disk_scheduler.hpp\<close>.

  io_uring is the record \<open>uring\<close> over a state \<open>'r\<close>. Taking a submission entry, filling it and attaching the user data are one
  operation, \<open>ur_prep\<close>, which fails when the ring has no free entry. The user data of every request is the page frame, so
  it is a frame index here.
\<close>

section \<open>The ring\<close>

record sqe =
  sq_op :: IoOp
  sq_fd :: int
  sq_buf :: nat
  sq_len :: u32
  sq_off :: u64
  sq_data :: u32

record 'r uring =
  ur_init :: "u32 \<Rightarrow> 'r \<times> int"
  ur_prep :: "'r \<Rightarrow> sqe \<Rightarrow> 'r option"
  ur_submit :: "'r \<Rightarrow> 'r \<times> int"
  ur_peek :: "'r \<Rightarrow> 'r \<times> (u32 \<times> int) option"
  ur_seen :: "'r \<Rightarrow> 'r"
  ur_exit :: "'r \<Rightarrow> 'r"

section \<open>The asynchronous manager\<close>

record ('w, 'r) DiskManagerAsync = "'w DiskManager" +
  ring :: 'r

definition async_LoadExistingTables :: "'w os \<Rightarrow> ('w, 'r) DiskManagerAsync \<Rightarrow> ('w, 'r) DiskManagerAsync res" where
  "async_LoadExistingTables os dm = LoadExistingTables os dm"

definition DiskManagerAsync_new ::
    "'w os \<Rightarrow> 'r uring \<Rightarrow> 'w \<Rightarrow> string \<Rightarrow> string \<Rightarrow> u32 \<Rightarrow> ('w, 'r) DiskManagerAsync res" where
  "DiskManagerAsync_new os ur w dir rest queue_depth =
     (let (r, ret) = ur_init ur queue_depth
      in if ret < 0 then Inl (RuntimeError ''io_uring_queue_init failed'')
         else let base = copy_base_dir dir rest
              in async_LoadExistingTables os
                   \<lparr>base_dir = base, cache = (\<lambda>_. FdCacheEntry_new), world = os_mkdir os w dir, ring = r\<rparr>)"

definition DeleteDir :: "'w os \<Rightarrow> 'w \<Rightarrow> string \<Rightarrow> 'w \<times> bool" where
  "DeleteDir os w directory = (let (w', res) = os_rmdir os w directory in (w', res = 0))"

definition DiskManagerAsync_delete :: "'w os \<Rightarrow> 'r uring \<Rightarrow> ('w, 'r) DiskManagerAsync \<Rightarrow> ('w, 'r) DiskManagerAsync" where
  "DiskManagerAsync_delete os ur dm =
     dm\<lparr>ring := ur_exit ur (ring dm), world := fst (DeleteDir os (close_all os (cache dm) (world dm)) (base_dir dm))\<rparr>"

definition SubmitRead ::
    "'r uring \<Rightarrow> ('w, 'r) DiskManagerAsync \<Rightarrow> table_id \<Rightarrow> nat \<Rightarrow> u32 \<Rightarrow> u64 \<Rightarrow> u32 \<Rightarrow> (('w, 'r) DiskManagerAsync \<times> bool) res" where
  "SubmitRead ur dm tid buf len offset user_data =
     DB7_ASSERT (buf mod 4096 = 0) ''unaligned buffer''
    (DB7_ASSERT (len mod 4096 = 0) ''unaligned length''
    (DB7_ASSERT (offset mod 4096 = 0) ''unaligned offset''
    (ebind (cache_Get (cache dm) tid) (\<lambda>hdr.
     DB7_ASSERT (fd hdr \<ge> 0) ''No valid file descriptor''
    (Inr (case ur_prep ur (ring dm)
        \<lparr>sq_op = READ, sq_fd = fd hdr, sq_buf = buf, sq_len = len, sq_off = offset, sq_data = user_data\<rparr> of
            None \<Rightarrow> (dm, False) | Some r \<Rightarrow> (dm\<lparr>ring := r\<rparr>, True)))))))"

definition SubmitWrite ::
    "'r uring \<Rightarrow> ('w, 'r) DiskManagerAsync \<Rightarrow> table_id \<Rightarrow> nat \<Rightarrow> u32 \<Rightarrow> u64 \<Rightarrow> u32 \<Rightarrow> (('w, 'r) DiskManagerAsync \<times> bool) res" where
  "SubmitWrite ur dm tid buf len offset user_data =
     DB7_ASSERT (buf mod 4096 = 0) ''unaligned buffer''
    (DB7_ASSERT (len mod 4096 = 0) ''unaligned length''
    (DB7_ASSERT (offset mod 4096 = 0) ''unaligned offset''
    (ebind (cache_Get (cache dm) tid) (\<lambda>hdr.
     DB7_ASSERT (fd hdr \<ge> 0) ''No valid file descriptor''
    (Inr (case ur_prep ur (ring dm)
        \<lparr>sq_op = WRITE, sq_fd = fd hdr, sq_buf = buf, sq_len = len, sq_off = offset, sq_data = user_data\<rparr> of
            None \<Rightarrow> (dm, False) | Some r \<Rightarrow> (dm\<lparr>ring := r\<rparr>, True)))))))"

definition Submit :: "'r uring \<Rightarrow> ('w, 'r) DiskManagerAsync \<Rightarrow> ('w, 'r) DiskManagerAsync" where
  "Submit ur dm = dm\<lparr>ring := fst (ur_submit ur (ring dm))\<rparr>"

text \<open>The callback works on a state \<open>'s\<close>. \<open>left\<close> is what is left of \<open>max_completions\<close>; the loop body runs before the test.\<close>

fun reap_loop :: "'r uring \<Rightarrow> ('s \<Rightarrow> u32 \<Rightarrow> int \<Rightarrow> 's res) \<Rightarrow> nat \<Rightarrow> 'r \<Rightarrow> 's \<Rightarrow> ('r \<times> 's \<times> nat) res" where
  "reap_loop ur cb left r s =
     (case ur_peek ur r of
        (r1, None) \<Rightarrow> Inr (r1, s, 0)
      | (r1, Some (data, result)) \<Rightarrow>
          ebind (cb s data result) (\<lambda>s1.
          let r2 = ur_seen ur r1
          in if left \<le> 1 then Inr (r2, s1, 1)
             else ebind (reap_loop ur cb (left - 1) r2 s1) (\<lambda>(r3, s3, n). Inr (r3, s3, n + 1))))"

declare reap_loop.simps [simp del]

definition ReapCompletions ::
    "'r uring \<Rightarrow> ('s \<Rightarrow> u32 \<Rightarrow> int \<Rightarrow> 's res) \<Rightarrow> ('w, 'r) DiskManagerAsync \<Rightarrow> 's \<Rightarrow> u32 \<Rightarrow>
     (('w, 'r) DiskManagerAsync \<times> 's \<times> nat) res" where
  "ReapCompletions ur cb dm s max_completions =
     ebind (reap_loop ur cb (unat max_completions) (ring dm) s) (\<lambda>(r, s', n). Inr (dm\<lparr>ring := r\<rparr>, s', n))"

definition async_CreateTable :: "'w os \<Rightarrow> ('w, 'r) DiskManagerAsync \<Rightarrow> table_id \<Rightarrow> u32 \<Rightarrow> ('w, 'r) DiskManagerAsync res" where
  "async_CreateTable os dm tid initial_pages =
     ebind (cache_Get (cache dm) tid) (\<lambda>e.
     if fd e \<noteq> - 1 then Inl (IOError ''File already exists'')
     else ebind (BuildPath (base_dir dm) tid) (\<lambda>path.
     let (w, h) = os_open os (world dm) path CreateNew
     in if h < 0 then Inl (IOError ''File not found'')
        else ebind (cache_Set (cache dm) tid \<lparr>fd = h, page_count = initial_pages\<rparr>) (\<lambda>c.
             let (w', ret) = os_fallocate os w h 0 (ucast initial_pages * PAGE_BYTES)
             in DB7_ASSERT (ret = 0) ''fallocate failed'' (Inr (dm\<lparr>world := w', cache := c\<rparr>)))))"

definition OpenFile :: "'w os \<Rightarrow> ('w, 'r) DiskManagerAsync \<Rightarrow> table_id \<Rightarrow> ('w, 'r) DiskManagerAsync res" where
  "OpenFile os dm tid =
     ebind (BuildPath (base_dir dm) tid) (\<lambda>path.
     let (w, h) = os_open os (world dm) path OpenExisting
     in if h < 0 then Inl (IOError ''File not found'')
        else ebind (cache_Set (cache dm) tid \<lparr>fd = h, page_count = ucast (os_fsize os w h div PAGE_BYTES)\<rparr>) (\<lambda>c.
             Inr (dm\<lparr>world := w, cache := c\<rparr>)))"

definition CreateOpenFile :: "'w os \<Rightarrow> ('w, 'r) DiskManagerAsync \<Rightarrow> table_id \<Rightarrow> u32 \<Rightarrow> ('w, 'r) DiskManagerAsync res" where
  "CreateOpenFile os dm tid initial_pages =
     ebind (BuildPath (base_dir dm) tid) (\<lambda>path.
     if os_access os (world dm) path then OpenFile os dm tid else async_CreateTable os dm tid initial_pages)"

definition async_DropTable :: "'w os \<Rightarrow> ('w, 'r) DiskManagerAsync \<Rightarrow> table_id \<Rightarrow> ('w, 'r) DiskManagerAsync res" where
  "async_DropTable os dm tid =
     ebind (cache_Invalidate (cache dm) tid) (\<lambda>(c, hdr).
     DB7_ASSERT (fd hdr \<ge> 0) ''Invalid file''
    (ebind (BuildPath (base_dir dm) tid) (\<lambda>path.
     Inr (dm\<lparr>cache := c, world := os_unlink os (os_close os (world dm) (fd hdr)) path\<rparr>))))"

definition async_ExistsTable :: "'w os \<Rightarrow> ('w, 'r) DiskManagerAsync \<Rightarrow> table_id \<Rightarrow> bool res" where
  "async_ExistsTable os dm tid = ebind (BuildPath (base_dir dm) tid) (\<lambda>path. Inr (os_access os (world dm) path))"

text \<open>The offset of the extension is a 32-bit product, its length a 64-bit one.\<close>

definition ExtendFile :: "'w os \<Rightarrow> ('w, 'r) DiskManagerAsync \<Rightarrow> table_id \<Rightarrow> u64 \<Rightarrow> ('w, 'r) DiskManagerAsync res" where
  "ExtendFile os dm tid pages_num =
     ebind (cache_Get (cache dm) tid) (\<lambda>hdr.
     DB7_ASSERT (fd hdr \<ge> 0) ''File not found''
    (let (w, ret) = os_fallocate os (world dm) (fd hdr) (ucast (page_count hdr * ucast PAGE_BYTES :: u32)) (pages_num * PAGE_BYTES)
     in DB7_ASSERT (ret = 0) ''fallocate failed''
        (ebind (cache_Set (cache dm) tid (hdr\<lparr>page_count := ucast (ucast (page_count hdr) + pages_num)\<rparr>)) (\<lambda>c.
         Inr (dm\<lparr>world := w, cache := c\<rparr>)))))"

definition async_PageCount :: "('w, 'r) DiskManagerAsync \<Rightarrow> table_id \<Rightarrow> u32 res" where
  "async_PageCount dm tid = ebind (cache_Get (cache dm) tid) (\<lambda>hdr. Inr (page_count hdr))"

section \<open>The scheduler\<close>

definition IOURING_QUEUE_SIZE :: u32 where
  "IOURING_QUEUE_SIZE = 512"

text \<open>\<open>frames\<close> are the page frames of the pool; the buffer of frame \<open>f\<close> is at \<open>data_base + 8192 * f\<close>.\<close>

record ('w, 'r) DiskScheduler =
  io :: "('w, 'r) DiskManagerAsync"
  inflight :: u32
  max_inflight :: u32
  running :: bool
  queue :: "IoTask list"
  frames :: "u32 \<Rightarrow> Page"

definition DiskScheduler_new :: "('w, 'r) DiskManagerAsync \<Rightarrow> (u32 \<Rightarrow> Page) \<Rightarrow> ('w, 'r) DiskScheduler" where
  "DiskScheduler_new dm ps =
     \<lparr>io = dm, inflight = 0, max_inflight = IOURING_QUEUE_SIZE, running = False, queue = [], frames = ps\<rparr>"

definition completion_cb :: "(u32 \<Rightarrow> Page) \<Rightarrow> u32 \<Rightarrow> int \<Rightarrow> (u32 \<Rightarrow> Page) res" where
  "completion_cb ps f result =
     DB7_ASSERT (result = int (unat PAGE_BYTES)) ''Short read'' (ebind (SignalIO (ps f)) (\<lambda>p. Inr (ps(f := p))))"

definition io_offset :: "page_id \<Rightarrow> u64" where
  "io_offset p = ucast ((p - 1) * ucast PAGE_BYTES :: u32)"

definition frame_addr :: "nat \<Rightarrow> u32 \<Rightarrow> nat" where
  "frame_addr data_base f = data_base + unat (f * ucast PAGE_BYTES :: u32)"

definition submit_task ::
    "'r uring \<Rightarrow> nat \<Rightarrow> ('w, 'r) DiskManagerAsync \<Rightarrow> IoTask \<Rightarrow> (('w, 'r) DiskManagerAsync \<times> bool) res" where
  "submit_task ur data_base dm t =
     (if task_op t = READ
      then SubmitRead ur dm (tbl_id (task_id t)) (frame_addr data_base (task_page t)) (ucast PAGE_BYTES)
             (io_offset (pid (task_id t))) (task_page t)
      else SubmitWrite ur dm (tbl_id (task_id t)) (frame_addr data_base (task_page t)) (ucast PAGE_BYTES)
             (io_offset (pid (task_id t))) (task_page t))"

text \<open>The loop over the tasks, and whether any was submitted.\<close>

fun submit_loop ::
    "'r uring \<Rightarrow> nat \<Rightarrow> IoTask list \<Rightarrow> bool \<Rightarrow> ('w, 'r) DiskScheduler \<Rightarrow> (('w, 'r) DiskScheduler \<times> bool) res" where
  "submit_loop ur data_base [] submitted_any ds = Inr (ds, submitted_any)"
| "submit_loop ur data_base (t # ts) submitted_any ds =
     ebind (submit_task ur data_base (io ds) t) (\<lambda>(dm, ok).
     if ok then submit_loop ur data_base ts True (ds\<lparr>io := dm, inflight := inflight ds + 1\<rparr>)
     else Inr (ds\<lparr>io := dm, queue := queue ds @ t # ts\<rparr>, submitted_any))"

text \<open>\<open>deq\<close> is \<^verbatim>\<open>try_dequeue_bulk\<close> of the vendored queue: at most so many tasks, and what stays.\<close>

definition SubmitPending ::
    "(nat \<Rightarrow> IoTask list \<Rightarrow> IoTask list \<times> IoTask list) \<Rightarrow> 'r uring \<Rightarrow> nat \<Rightarrow> ('w, 'r) DiskScheduler \<Rightarrow> ('w, 'r) DiskScheduler res" where
  "SubmitPending deq ur data_base ds =
     (let slots = min IOURING_QUEUE_SIZE (max_inflight ds - inflight ds)
      in if slots = 0 then Inr ds
         else let (tasks, rest) = deq (unat slots) (queue ds)
              in ebind (submit_loop ur data_base tasks False (ds\<lparr>queue := rest\<rparr>)) (\<lambda>(ds', submitted_any).
                 Inr (if submitted_any then ds'\<lparr>io := Submit ur (io ds')\<rparr> else ds')))"

definition DrainCompletions :: "'r uring \<Rightarrow> ('w, 'r) DiskScheduler \<Rightarrow> ('w, 'r) DiskScheduler res" where
  "DrainCompletions ur ds =
     (if inflight ds > 0
      then ebind (ReapCompletions ur completion_cb (io ds) (frames ds) (max_inflight ds)) (\<lambda>(dm, ps, n).
           Inr (ds\<lparr>io := dm, frames := ps, inflight := inflight ds - word_of_nat n\<rparr>))
      else Inr ds)"

text \<open>One round of the worker, and what it does once it has been stopped.\<close>

definition run_round ::
    "(nat \<Rightarrow> IoTask list \<Rightarrow> IoTask list \<times> IoTask list) \<Rightarrow> 'r uring \<Rightarrow> nat \<Rightarrow> ('w, 'r) DiskScheduler \<Rightarrow> ('w, 'r) DiskScheduler res" where
  "run_round deq ur data_base ds = ebind (DrainCompletions ur ds) (SubmitPending deq ur data_base)"

partial_function (option) run_drain :: "'r uring \<Rightarrow> ('w, 'r) DiskScheduler \<Rightarrow> ('w, 'r) DiskScheduler res option" where
  "run_drain ur ds = (if inflight ds > 0 then obind (Some (DrainCompletions ur ds)) (run_drain ur) else Some (Inr ds))"

definition sched_Enqueue :: "('w, 'r) DiskScheduler \<Rightarrow> IoTask \<Rightarrow> ('w, 'r) DiskScheduler" where
  "sched_Enqueue ds t = ds\<lparr>queue := queue ds @ [t]\<rparr>"

definition sched_Start :: "('w, 'r) DiskScheduler \<Rightarrow> ('w, 'r) DiskScheduler" where
  "sched_Start ds = ds\<lparr>running := True\<rparr>"

definition sched_Stop :: "('w, 'r) DiskScheduler \<Rightarrow> ('w, 'r) DiskScheduler" where
  "sched_Stop ds = ds\<lparr>running := False\<rparr>"

end
