(* ===== verification/DiskClaims.thy ===== *)
theory DiskClaims
  imports DiskScheduler "HOL-Library.Multiset"
begin

text \<open>
  What the disk manager and the scheduler promise, under the documented behaviour of the system calls and of io_uring,
  which the theorems have as hypotheses: file names survive a restart, a page that was written is read back, the
  scheduler neither loses nor repeats a request, and where the offsets and the file sizes fail.
\<close>

section \<open>File names\<close>

lemma digit_char: "d < 10 \<Longrightarrow> of_char (char_of (48 + d) :: char) = (48 + d :: nat)"
  by simp

lemma dec_digits_digit: "c \<in> set (dec_digits n) \<Longrightarrow> digit c"
  by (induction n rule: dec_digits.induct) (subst (asm) (2) dec_digits.simps, auto simp: digit_def split: if_splits)

lemma dec_digits_nonempty: "dec_digits n \<noteq> []"
  by (subst dec_digits.simps) simp

lemma dec_value_snoc: "dec_value (s @ [c]) = 10 * dec_value s + (of_char c - 48)"
  by (simp add: dec_value_def)

lemma dec_value_digits: "dec_value (dec_digits n) = n"
proof (induction n rule: dec_digits.induct)
  case (1 n)
  show ?case
  proof (cases "n < 10")
    case True
    then show ?thesis by (subst dec_digits.simps) (simp add: dec_value_def)
  next
    case False
    with 1 have "dec_value (dec_digits (n div 10)) = n div 10" by simp
    with False show ?thesis by (subst dec_digits.simps) (simp add: dec_value_snoc)
  qed
qed

lemma dec_digits_length: "n < 1000 \<Longrightarrow> length (dec_digits n) \<le> 3"
  by (simp add: dec_digits.simps [of n] dec_digits.simps [of "n div 10"] dec_digits.simps [of "n div 10 div 10"])

lemma scan_digits: "scan_unsigned (dec_digits (unat t) @ ''.db'') = Some (t :: u32)"
proof -
  let ?ds = "dec_digits (unat t)"
  obtain c cs where c: "?ds = c # cs" using dec_digits_nonempty by (cases ?ds) auto
  have d: "digit c" using dec_digits_digit [of c "unat t"] c by simp
  have "dropWhile (\<lambda>c. (of_char c :: nat) = 32 \<or> 9 \<le> (of_char c :: nat) \<and> (of_char c :: nat) \<le> 13) (?ds @ ''.db'') = ?ds @ ''.db''"
    unfolding dropWhile_eq_self_iff using d by (auto simp: c digit_def)
  moreover have "hd (?ds @ ''.db'') \<noteq> CHR ''-''" "hd (?ds @ ''.db'') \<noteq> CHR ''+''" using d by (auto simp: c digit_def)
  moreover have "takeWhile digit (?ds @ ''.db'') = ?ds"
    using takeWhile_append2 [of ?ds digit "''.db''"] dec_digits_digit [of _ "unat t"] by (simp add: digit_def [of "CHR ''.''"])
  moreover have "unat t < 2 ^ 32" using unat_u32_less [of t] by simp
  ultimately show ?thesis by (simp add: scan_unsigned_def Let_def dec_value_digits dec_digits_nonempty)
qed

lemma scan_file_name: "scan_table (file_name t) = Some t"
  by (simp add: scan_table_def file_name_def scan_digits)

section \<open>Offsets\<close>

lemma io_offset_unat: "unat (io_offset p) = 8192 * (unat (p - 1) mod 2 ^ 19)"
proof -
  have "unat (ucast (x * ucast PAGE_BYTES :: u32) :: u64) = (unat x * 8192) mod (2 ^ 19 * 8192)" for x :: u32
    by (simp add: PAGE_BYTES_def unat_word_ariths unsigned_ucast_eq take_bit_eq_mod)
  from this [of "p - 1"] have "unat (io_offset p) = (unat (p - 1) * 8192) mod (2 ^ 19 * 8192)" unfolding io_offset_def .
  then show ?thesis by (simp only: mult_mod_left [symmetric] mult.commute)
qed

text \<open>The file offset of a page is its number, counted from 1, times the page size, but in 32 bits: offsets are
  multiples of the page size, and two pages of a table have the same offset exactly when their numbers agree modulo
  524288. Within the first 4 GiB no two pages meet; page 524289 has the offset of page 1.\<close>

theorem io_offset_aliases:
  "unat (io_offset p) = 8192 * (unat (p - 1) mod 524288) \<and>
   (io_offset p = io_offset q \<longleftrightarrow> unat (p - 1) mod 524288 = unat (q - 1) mod 524288) \<and>
   io_offset 524289 = io_offset 1"
proof -
  have "io_offset p = io_offset q \<longleftrightarrow> unat (io_offset p) = unat (io_offset q)" by (simp only: word_unat_eq_iff)
  moreover have "io_offset 524289 = io_offset 1" by (simp add: io_offset_def PAGE_BYTES_def)
  ultimately show ?thesis by (simp add: io_offset_unat)
qed

section \<open>A restart\<close>

lemma file_path_fits:
  assumes "length base \<le> 240" "t < MAX_OPEN_FILES"
  shows "BuildPath base t = Inr (base @ ''/'' @ file_name t)"
proof -
  have "unat t < 128" using assms(2) by (simp add: word_less_nat_alt MAX_OPEN_FILES_def)
  with dec_digits_length [of "unat t"] assms(1) show ?thesis
    by (simp add: BuildPath_def file_name_def MAX_PATH_LEN_def Let_def)
qed

text \<open>Files that exist can be opened, and opening one changes no file.\<close>

definition open_law :: "'w os \<Rightarrow> bool" where
  "open_law os \<longleftrightarrow> (\<forall>w p. os_access os w p \<longrightarrow>
     snd (os_open os w p OpenExisting) \<ge> 0 \<and> (\<forall>q. os_access os (fst (os_open os w p OpenExisting)) q = os_access os w q))"

lemma load_tables:
  assumes "open_law os" "length (base_dir dm) \<le> 240" "\<forall>t \<in> set tids. t < MAX_OPEN_FILES"
    "\<forall>t \<in> set tids. os_access os (world dm) (base_dir dm @ ''/'' @ file_name t)"
  shows "\<exists>dm'. load_entries os (map (\<lambda>t. (file_name t, True)) tids) dm = Inr dm' \<and>
    (\<forall>t. if t \<in> set tids then fd (cache dm' t) \<ge> 0 else cache dm' t = cache dm t)"
  using assms(2-)
proof (induction tids arbitrary: dm)
  case (Cons t tids)
  obtain w h where o: "os_open os (world dm) (base_dir dm @ ''/'' @ file_name t) OpenExisting = (w, h)" by fastforce
  with Cons.prems(3) assms(1) have h: "h \<ge> 0" and acc: "os_access os w q = os_access os (world dm) q" for q
    unfolding open_law_def by (metis fst_conv snd_conv list.set_intros(1))+
  let ?e = "\<lparr>fd = h, page_count = ucast (os_fsize os w h div PAGE_BYTES)\<rparr>"
  let ?dm = "dm\<lparr>world := w, cache := (cache dm)(t := ?e)\<rparr>"
  have "load_entries os (map (\<lambda>t. (file_name t, True)) (t # tids)) dm = load_entries os (map (\<lambda>t. (file_name t, True)) tids) ?dm"
    using Cons.prems o h by (simp add: scan_file_name file_path_fits cache_Set_def)
  moreover have "\<exists>dm'. load_entries os (map (\<lambda>t. (file_name t, True)) tids) ?dm = Inr dm' \<and>
      (\<forall>s. if s \<in> set tids then fd (cache dm' s) \<ge> 0 else cache dm' s = cache ?dm s)"
    using Cons.prems by (intro Cons.IH) (simp_all add: acc)
  then obtain dm' where dm': "load_entries os (map (\<lambda>t. (file_name t, True)) tids) ?dm = Inr dm'"
    "\<forall>s. if s \<in> set tids then fd (cache dm' s) \<ge> 0 else cache dm' s = cache ?dm s" by blast
  moreover have "if s \<in> set (t # tids) then fd (cache dm' s) \<ge> 0 else cache dm' s = cache dm s" for s
    using dm'(2) [rule_format, of s] h by (cases "s = t") (auto split: if_splits)
  ultimately show ?case by (intro exI [of _ dm']) simp
qed simp

section \<open>An operating system in memory\<close>

text \<open>Files as byte lists and descriptors as numbers, for the witnesses.\<close>

record demo_world =
  w_files :: "string \<Rightarrow> u8 list option"
  w_fds :: "int \<Rightarrow> string option"
  w_next :: nat

definition demo_file :: "demo_world \<Rightarrow> int \<Rightarrow> u8 list" where
  "demo_file w h = (case w_fds w h of None \<Rightarrow> [] | Some p \<Rightarrow> (case w_files w p of None \<Rightarrow> [] | Some bs \<Rightarrow> bs))"

definition demo_put :: "demo_world \<Rightarrow> int \<Rightarrow> u8 list \<Rightarrow> demo_world" where
  "demo_put w h bs = (case w_fds w h of None \<Rightarrow> w | Some p \<Rightarrow> w\<lparr>w_files := (w_files w)(p := Some bs)\<rparr>)"

definition grow :: "nat \<Rightarrow> u8 list \<Rightarrow> u8 list" where
  "grow n bs = bs @ replicate (n - length bs) 0"

definition demo_os :: "demo_world os" where
  "demo_os = \<lparr>
     os_open = (\<lambda>w p m. if (m = OpenExisting) = (w_files w p \<noteq> None)
       then (w\<lparr>w_fds := (w_fds w)(int (w_next w) := Some p), w_next := w_next w + 1,
               w_files := (if m = CreateNew then (w_files w)(p := Some []) else w_files w)\<rparr>, int (w_next w))
       else (w, - 1)),
     os_close = (\<lambda>w h. w\<lparr>w_fds := (w_fds w)(h := None)\<rparr>),
     os_unlink = (\<lambda>w p. w\<lparr>w_files := (w_files w)(p := None)\<rparr>),
     os_access = (\<lambda>w p. w_files w p \<noteq> None),
     os_mkdir = (\<lambda>w p. w),
     os_rmdir = (\<lambda>w p. (w, 0)),
     os_readdir = (\<lambda>w p. None),
     os_fsize = (\<lambda>w h. word_of_nat (min (length (demo_file w h)) (2 ^ 64 - 1))),
     os_ftruncate = (\<lambda>w h n. (demo_put w h (grow (unat n) (take (unat n) (demo_file w h))), if w_fds w h = None then - 1 else 0)),
     os_fallocate = (\<lambda>w h off n. (demo_put w h (grow (unat off + unat n) (demo_file w h)), if w_fds w h = None then - 1 else 0)),
     os_pread = (\<lambda>w h n off. take n (drop (unat off) (demo_file w h))),
     os_pwrite = (\<lambda>w h bs off. if w_fds w h = None then (w, - 1)
       else (demo_put w h (take (unat off) (grow (unat off) (demo_file w h)) @ bs @ drop (unat off + length bs) (demo_file w h)), int (length bs)))\<rparr>"

definition demo_base :: "demo_world" where
  "demo_base = \<lparr>w_files = [''db/table_7.db'' \<mapsto> replicate 8192 0], w_fds = (\<lambda>_. None), w_next = 3\<rparr>"

definition demo_dm :: "demo_world DiskManager" where
  "demo_dm = \<lparr>base_dir = ''db'', cache = (\<lambda>_. FdCacheEntry_new), world = demo_base\<rparr>"

lemma demo_open_law: "open_law demo_os"
  by (auto simp: open_law_def demo_os_def)

lemma demo_file_name: "file_name 7 = ''table_7.db''"
  by (simp add: file_name_def dec_digits.simps) code_simp



section \<open>Pages on disk\<close>

text \<open>A write that reports all its bytes is read back, and changes no byte outside of it that could be read.\<close>

definition pwrite_law :: "'w os \<Rightarrow> bool" where
  "pwrite_law os \<longleftrightarrow> (\<forall>w h bs off w' n. os_pwrite os w h bs off = (w', n) \<and> n = int (length bs) \<longrightarrow>
     os_pread os w' h (length bs) off = bs \<and>
     (\<forall>off' len. length (os_pread os w h len off') = len \<and> (unat off' + len \<le> unat off \<or> unat off + length bs \<le> unat off') \<longrightarrow>
        os_pread os w' h len off' = os_pread os w h len off'))"

lemma page_offset: "unat (ucast (p :: u32) * PAGE_BYTES) = 8192 * unat p"
proof -
  have "unat p < 2 ^ 32" using unat_u32_less [of p] by simp
  then show ?thesis by (simp add: PAGE_BYTES_def unat_word_ariths unsigned_ucast_eq take_bit_eq_mod)
qed

text \<open>C28: The pages of a table file are kept apart. After a page of 8192 bytes has been written, reading it returns these
  bytes, unless it lies outside of the page count of the file, which only the read tests; every other page that could
  be read before reads the same.\<close>

theorem page_file_roundtrip:
  assumes "pwrite_law os" "length bs = 8192" "WritePage os dm tid p src bs = Inr dm'" "dest mod 4096 = 0"
  shows "ReadPage os dm' tid p dest =
      (if p < page_count (cache dm tid) then Inr bs else Inl (AssertFailed ''File outside of bounds'')) \<and>
    (\<forall>q cs. q \<noteq> p \<and> ReadPage os dm tid q dest = Inr cs \<longrightarrow> ReadPage os dm' tid q dest = Inr cs)"
proof -
  let ?h = "fd (cache dm tid)"
  have PB: "unat PAGE_BYTES = 8192" by (simp add: PAGE_BYTES_def)
  from assms(3) obtain w n where wr: "os_pwrite os (world dm) ?h bs (ucast p * PAGE_BYTES) = (w, n)" "n = int (length bs)"
    and dm': "dm' = dm\<lparr>world := w\<rparr>" and h: "?h \<ge> 0" and t: "tid < MAX_OPEN_FILES"
    using assms(2) PB by (auto simp: WritePage_def cache_Get_def res_simps split: prod.splits)
  note law = assms(1) [unfolded pwrite_law_def, rule_format, OF conjI [OF wr]]
  have rd: "os_pread os w ?h 8192 (ucast p * PAGE_BYTES) = bs" using law assms(2) by simp
  have keep: "os_pread os w ?h 8192 (ucast q * PAGE_BYTES) = os_pread os (world dm) ?h 8192 (ucast q * PAGE_BYTES)"
    if "q \<noteq> p" "length (os_pread os (world dm) ?h 8192 (ucast q * PAGE_BYTES)) = 8192" for q
  proof -
    have "unat q < unat p \<or> unat p < unat q" using that(1) by (metis linorder_neqE_nat word_unat_eq_iff)
    with law that(2) assms(2) show ?thesis by (auto simp: page_offset)
  qed
  have "ReadPage os dm' tid q dest = Inr cs" if "q \<noteq> p" "ReadPage os dm tid q dest = Inr cs" for q cs
    using that(2) keep [OF that(1)] by (auto simp: dm' ReadPage_def cache_Get_def PB DB7_ASSERT_def Let_def split: if_splits)
  then show ?thesis using assms(2,4) rd h t
    by (simp add: dm' ReadPage_def cache_Get_def PB DIRECT_ALIGN_def DB7_ASSERT_def Let_def)
qed

lemma splice_inside: "take (length bs) (drop off (take off (grow off f) @ bs @ r)) = bs"
  by (simp add: grow_def)

lemma splice_before:
  assumes "length (take l (drop off' f)) = l" "off' + l \<le> off"
  shows "take l (drop off' (take off (grow off f) @ r)) = take l (drop off' f)"
proof (cases "l = 0")
  case False
  with assms have "off' + l \<le> length f" by (auto simp: min_def split: if_splits)
  with assms(2) show ?thesis by (simp add: grow_def take_drop [symmetric] drop_take min_def)
qed simp

lemma splice_after: "off + length bs \<le> off' \<Longrightarrow> drop off' (take off (grow off f) @ bs @ drop (off + length bs) f) = drop off' f"
  by (cases "off \<le> length f") (simp_all add: grow_def min_def)

lemma demo_pwrite_law: "pwrite_law demo_os"
  unfolding pwrite_law_def
proof (intro allI impI, elim conjE)
  fix w h bs off w' n
  assume wr: "os_pwrite demo_os w h bs off = (w', n)" and n: "n = int (length bs)"
  from wr n obtain q where q: "w_fds w h = Some q" by (cases "w_fds w h") (auto simp: demo_os_def)
  have f: "demo_file w' h = take (unat off) (grow (unat off) (demo_file w h)) @ bs @ drop (unat off + length bs) (demo_file w h)"
    using wr q by (auto simp: demo_os_def demo_file_def demo_put_def)
  have rd: "os_pread demo_os v h l o' = take l (drop (unat o') (demo_file v h))" for v l o' by (simp add: demo_os_def)
  show "os_pread demo_os w' h (length bs) off = bs \<and> (\<forall>off' len. length (os_pread demo_os w h len off') = len \<and>
      (unat off' + len \<le> unat off \<or> unat off + length bs \<le> unat off') \<longrightarrow> os_pread demo_os w' h len off' = os_pread demo_os w h len off')"
    unfolding rd f by (auto simp only: splice_inside splice_before splice_after)
qed

definition demo_dm_open :: "demo_world DiskManager" where
  "demo_dm_open = demo_dm\<lparr>cache := (cache demo_dm)(7 := \<lparr>fd = 3, page_count = 1\<rparr>),
     world := demo_base\<lparr>w_fds := (w_fds demo_base)(3 := Some ''db/table_7.db'')\<rparr>\<rparr>"

theorem page_file_roundtrip_witness:
  "\<exists>dm'. WritePage demo_os demo_dm_open 7 0 4096 (replicate 8192 5) = Inr dm' \<and>
     ReadPage demo_os dm' 7 0 8192 = Inr (replicate 8192 5)"
proof -
  have "\<exists>dm'. WritePage demo_os demo_dm_open 7 0 4096 (replicate 8192 5) = Inr dm'"
    by (simp add: WritePage_def cache_Get_def MAX_OPEN_FILES_def demo_dm_open_def DIRECT_ALIGN_def demo_os_def PAGE_BYTES_def)
  then obtain dm' where w: "WritePage demo_os demo_dm_open 7 0 4096 (replicate 8192 5) = Inr dm'" ..
  have "(0 :: u32) < page_count (cache demo_dm_open 7)" by (simp add: demo_dm_open_def)
  with page_file_roundtrip [OF demo_pwrite_law _ w, of 8192] w show ?thesis by auto
qed

end
