(* ===== verification/SchedClaims.thy ===== *)
theory SchedClaims
  imports DiskClaims
begin

text \<open>
  The disk scheduler against io_uring. \<open>pend\<close> is what a ring owes: the requests it has accepted and whose completion has
  not been consumed. Under the documented laws of the ring and of the bulk dequeue, a round of the worker hands every
  task on exactly once, keeps count of what is in flight, and wakes exactly the frames whose requests have completed.
\<close>

section \<open>The laws\<close>

definition ring_laws :: "'r uring \<Rightarrow> ('r \<Rightarrow> sqe multiset) \<Rightarrow> bool" where
  "ring_laws ur pend \<longleftrightarrow>
     (\<forall>r s r'. ur_prep ur r s = Some r' \<longrightarrow> pend r' = add_mset s (pend r)) \<and>
     (\<forall>r. pend (fst (ur_submit ur r)) = pend r) \<and>
     (\<forall>r r'. ur_peek ur r = (r', None) \<longrightarrow> pend r' = pend r) \<and>
     (\<forall>r r' f n. ur_peek ur r = (r', Some (f, n)) \<longrightarrow> (\<exists>s. sq_data s = f \<and> pend r = add_mset s (pend (ur_seen ur r'))))"

text \<open>Every request is completed in full.\<close>

definition full_io :: "'r uring \<Rightarrow> bool" where
  "full_io ur \<longleftrightarrow> (\<forall>r r' f n. ur_peek ur r = (r', Some (f, n)) \<longrightarrow> n = 8192)"

definition deq_law :: "(nat \<Rightarrow> IoTask list \<Rightarrow> IoTask list \<times> IoTask list) \<Rightarrow> bool" where
  "deq_law deq \<longleftrightarrow> (\<forall>n q ts rest. deq n q = (ts, rest) \<longrightarrow> length ts \<le> n \<and> mset q = mset ts + mset rest)"

section \<open>What a scheduler owes\<close>

text \<open>The request that a task stands for.\<close>

definition request :: "FdCache \<Rightarrow> nat \<Rightarrow> IoTask \<Rightarrow> sqe" where
  "request c data_base t = \<lparr>sq_op = task_op t, sq_fd = fd (c (tbl_id (task_id t))), sq_buf = frame_addr data_base (task_page t),
     sq_len = 8192, sq_off = io_offset (pid (task_id t)), sq_data = task_page t\<rparr>"

definition owed :: "('r \<Rightarrow> sqe multiset) \<Rightarrow> nat \<Rightarrow> ('w, 'r) DiskScheduler \<Rightarrow> sqe multiset" where
  "owed pend data_base ds = image_mset (request (cache (io ds)) data_base) (mset (queue ds)) + pend (ring (io ds))"

text \<open>The frames of the requests are pinned, marked as being read, and pairwise different.\<close>

definition waiting :: "(u32 \<Rightarrow> Page) \<Rightarrow> sqe multiset \<Rightarrow> bool" where
  "waiting ps M \<longleftrightarrow> (\<forall>s. s \<in># M \<longrightarrow> IsIOInProgress (ps (sq_data s)) \<and> IsPinned (ps (sq_data s))) \<and>
     (\<forall>s N. M = add_mset s N \<longrightarrow> (\<forall>t. t \<in># N \<longrightarrow> sq_data t \<noteq> sq_data s))"

definition open_task :: "FdCache \<Rightarrow> IoTask \<Rightarrow> bool" where
  "open_task c t \<longleftrightarrow> tbl_id (task_id t) < MAX_OPEN_FILES \<and> fd (c (tbl_id (task_id t))) \<ge> 0"

definition sched_ok :: "('r \<Rightarrow> sqe multiset) \<Rightarrow> nat \<Rightarrow> ('w, 'r) DiskScheduler \<Rightarrow> bool" where
  "sched_ok pend data_base ds \<longleftrightarrow>
     unat (inflight ds) = size (pend (ring (io ds))) \<and> inflight ds \<le> max_inflight ds \<and> max_inflight ds \<le> IOURING_QUEUE_SIZE \<and>
     (\<forall>t \<in> set (queue ds). open_task (cache (io ds)) t) \<and> waiting (frames ds) (owed pend data_base ds)"

definition woken :: "(u32 \<Rightarrow> Page) \<Rightarrow> sqe multiset \<Rightarrow> u32 \<Rightarrow> Page" where
  "woken ps fin = (\<lambda>f. if \<exists>s. s \<in># fin \<and> sq_data s = f then ClearIOInProgress (ps f) else ps f)"

section \<open>Reaping completions\<close>

lemma Clear_idem [simp]: "ClearIOInProgress (ClearIOInProgress p) = ClearIOInProgress p"
  by (simp add: ClearIOInProgress_def and.assoc)

lemma waiting_sub:
  assumes "waiting ps (A + B)"
  shows "waiting ps B"
  using assms unfolding waiting_def by (metis add_mset_add_single union_iff union_mset_add_mset_right)

lemma waiting_wake:
  assumes "waiting ps (add_mset s M)"
  shows "waiting (ps(sq_data s := p)) M"
proof -
  have "waiting ps M" using waiting_sub [of ps "{#s#}" M] assms by simp
  moreover have "t \<in># M \<Longrightarrow> sq_data t \<noteq> sq_data s" for t using assms unfolding waiting_def by blast
  ultimately show ?thesis unfolding waiting_def by simp
qed

lemma reap_loop_ok:
  assumes ur: "ring_laws ur pend" "full_io ur" and w: "waiting ps (A + pend r)"
  shows "\<exists>r' n fin. reap_loop ur completion_cb left r ps = Inr (r', woken ps fin, n) \<and> pend r = fin + pend r' \<and> n = size fin \<and>
    waiting (woken ps fin) (A + pend r')"
  using w
proof (induction left arbitrary: r ps rule: less_induct)
  case (less left)
  obtain r1 c where pk: "ur_peek ur r = (r1, c)" by fastforce
  show ?case
  proof (cases c)
    case None
    with pk ur(1) have "pend r1 = pend r" by (auto simp: ring_laws_def)
    with None pk less.prems show ?thesis
      by (subst reap_loop.simps) (auto simp: woken_def intro!: exI [of _ "{#}"])
  next
    case (Some fn)
    then obtain f n where c: "c = Some (f, n)" by (cases fn) auto
    with pk ur obtain s where n: "n = 8192" and s: "sq_data s = f" "pend r = add_mset s (pend (ur_seen ur r1))"
      unfolding ring_laws_def full_io_def by meson
    let ?p = "ClearIOInProgress (ps f)" and ?r2 = "ur_seen ur r1"
    have "IsIOInProgress (ps f)" "IsPinned (ps f)" using less.prems s by (auto simp: waiting_def)
    then have cb: "completion_cb ps f n = Inr (ps(f := ?p))" by (simp add: completion_cb_def n PAGE_BYTES_def SignalIO_def)
    have w2: "waiting (ps(f := ?p)) (A + pend ?r2)" using waiting_wake [of ps s "A + pend ?r2" ?p] less.prems s by simp
    show ?thesis
    proof (cases "left \<le> 1")
      case True
      have "woken ps {#s#} = ps(f := ?p)" by (auto simp: woken_def s)
      with True cb w2 s pk c show ?thesis by (subst reap_loop.simps) (auto intro!: exI [of _ "{#s#}"])
    next
      case False
      then have "left - 1 < left" by simp
      from less.IH [OF this w2] obtain r' m fin where
        ih: "reap_loop ur completion_cb (left - 1) ?r2 (ps(f := ?p)) = Inr (r', woken (ps(f := ?p)) fin, m)"
        "pend ?r2 = fin + pend r'" "m = size fin" "waiting (woken (ps(f := ?p)) fin) (A + pend r')" by blast
      have "woken (ps(f := ?p)) fin = woken ps (add_mset s fin)" by (intro ext) (auto simp: woken_def s)
      with False cb ih s pk c show ?thesis by (subst reap_loop.simps) (auto intro!: exI [of _ "add_mset s fin"])
    qed
  qed
qed

section \<open>Submitting tasks\<close>

lemma submit_task_ok:
  assumes "open_task (cache dm) t" "4096 dvd data_base"
  shows "submit_task ur data_base dm t = Inr (case ur_prep ur (ring dm) (request (cache dm) data_base t) of
      None \<Rightarrow> (dm, False) | Some r \<Rightarrow> (dm\<lparr>ring := r\<rparr>, True))"
proof -
  have "4096 dvd frame_addr data_base f" for f
  proof -
    have "unat (f * ucast PAGE_BYTES :: u32) = unat f * 8192 mod (2 ^ 19 * 8192)" by (simp add: PAGE_BYTES_def unat_word_ariths)
    then have "unat (f * ucast PAGE_BYTES :: u32) = (unat f mod 2 ^ 19) * 8192" by (simp only: mult_mod_left)
    then show ?thesis using assms(2) by (simp add: frame_addr_def)
  qed
  moreover have "io_offset p mod 4096 = 0" for p
  proof -
    have "unat (io_offset p mod 4096) = (8192 * (unat (p - 1) mod 2 ^ 19)) mod 4096" by (simp only: unat_mod io_offset_unat) simp
    also have "\<dots> = 0" by (simp add: mod_eq_0_iff_dvd dvd_mult2)
    finally show ?thesis by (simp add: word_unat_eq_iff)
  qed
  moreover have "(if task_op t = READ then READ else WRITE) = task_op t" by (cases "task_op t") auto
  ultimately show ?thesis using assms(1)
    by (auto simp: submit_task_def SubmitRead_def SubmitWrite_def request_def open_task_def cache_Get_def PAGE_BYTES_def
        split: if_splits)
qed

lemma submit_loop_ok:
  assumes ur: "ring_laws ur pend" "4096 dvd data_base"
  shows "\<forall>t \<in> set ts. open_task (cache (io ds)) t \<Longrightarrow> unat (inflight ds) = size (pend (ring (io ds))) \<Longrightarrow>
    unat (inflight ds) + length ts \<le> unat (max_inflight ds) \<Longrightarrow>
    \<exists>ds' any'. submit_loop ur data_base ts any ds = Inr (ds', any') \<and> cache (io ds') = cache (io ds) \<and> frames ds' = frames ds \<and>
      max_inflight ds' = max_inflight ds \<and> unat (inflight ds') = size (pend (ring (io ds'))) \<and>
      inflight ds' \<le> max_inflight ds \<and> set (queue ds') \<subseteq> set (queue ds) \<union> set ts \<and>
      owed pend data_base ds' = owed pend data_base ds + image_mset (request (cache (io ds)) data_base) (mset ts)"
proof (induction ts arbitrary: ds any)
  case Nil
  then show ?case by (simp add: word_le_nat_alt)
next
  case (Cons t ts)
  note st = submit_task_ok [of "io ds" t, OF _ ur(2)]
  show ?case
  proof (cases "ur_prep ur (ring (io ds)) (request (cache (io ds)) data_base t)")
    case None
    with Cons.prems st show ?thesis by (simp add: owed_def word_le_nat_alt)
  next
    case (Some r)
    let ?ds = "ds\<lparr>io := (io ds)\<lparr>ring := r\<rparr>, inflight := inflight ds + 1\<rparr>"
    have r: "pend r = add_mset (request (cache (io ds)) data_base t) (pend (ring (io ds)))" using ur(1) Some by (auto simp: ring_laws_def)
    have u: "unat (inflight ds + 1) = unat (inflight ds) + 1"
      using Cons.prems(3) unat_u32_less [of "max_inflight ds"] by (simp add: unat_word_ariths)
    have "owed pend data_base ?ds = owed pend data_base ds + {#request (cache (io ds)) data_base t#}" by (simp add: owed_def r)
    moreover have "submit_loop ur data_base (t # ts) any ds = submit_loop ur data_base ts True ?ds" using Cons.prems(1) st Some by simp
    ultimately show ?thesis using Cons.IH [of ?ds True] Cons.prems u r by fastforce
  qed
qed

lemma SubmitPending_ok:
  assumes "ring_laws ur pend" "4096 dvd data_base" "deq_law deq" and ok: "sched_ok pend data_base ds"
  shows "\<exists>ds'. SubmitPending deq ur data_base ds = Inr ds' \<and> sched_ok pend data_base ds' \<and>
    owed pend data_base ds' = owed pend data_base ds \<and> frames ds' = frames ds"
proof -
  define slots where "slots = min IOURING_QUEUE_SIZE (max_inflight ds - inflight ds)"
  obtain ts rest where d: "deq (unat slots) (queue ds) = (ts, rest)" by fastforce
  with assms(3) have len: "length ts \<le> unat slots" and ms: "mset (queue ds) = mset ts + mset rest"
    unfolding deq_law_def by blast+
  have okD: "unat (inflight ds) = size (pend (ring (io ds)))" "inflight ds \<le> max_inflight ds" "max_inflight ds \<le> IOURING_QUEUE_SIZE"
    "\<forall>t \<in> set (queue ds). open_task (cache (io ds)) t" "waiting (frames ds) (owed pend data_base ds)"
    using ok by (simp_all add: sched_ok_def)
  have "slots \<le> max_inflight ds - inflight ds" by (simp add: slots_def)
  then have "unat slots \<le> unat (max_inflight ds) - unat (inflight ds)" using okD(2) by (simp add: word_le_nat_alt unat_sub)
  with len okD(2) have room: "unat (inflight ds) + length ts \<le> unat (max_inflight ds)" by (simp add: word_le_nat_alt)
  have sets: "set ts \<subseteq> set (queue ds)" "set rest \<subseteq> set (queue ds)" using ms by (metis mset_subset_eq_add_left mset_subset_eq_add_right set_mset_mono set_mset_mset)+
  have "\<exists>ds' any'. submit_loop ur data_base ts False (ds\<lparr>queue := rest\<rparr>) = Inr (ds', any') \<and> cache (io ds') = cache (io ds) \<and>
      frames ds' = frames ds \<and> max_inflight ds' = max_inflight ds \<and> unat (inflight ds') = size (pend (ring (io ds'))) \<and>
      inflight ds' \<le> max_inflight ds \<and> set (queue ds') \<subseteq> set rest \<union> set ts \<and>
      owed pend data_base ds' = owed pend data_base (ds\<lparr>queue := rest\<rparr>) + image_mset (request (cache (io ds)) data_base) (mset ts)"
    using submit_loop_ok [OF assms(1,2), of ts "ds\<lparr>queue := rest\<rparr>" False] okD sets(1) room by auto
  then obtain ds' any' where l: "submit_loop ur data_base ts False (ds\<lparr>queue := rest\<rparr>) = Inr (ds', any')"
    and k: "cache (io ds') = cache (io ds)" "frames ds' = frames ds" "max_inflight ds' = max_inflight ds"
      "unat (inflight ds') = size (pend (ring (io ds')))" "inflight ds' \<le> max_inflight ds" "set (queue ds') \<subseteq> set rest \<union> set ts"
      "owed pend data_base ds' = owed pend data_base (ds\<lparr>queue := rest\<rparr>) + image_mset (request (cache (io ds)) data_base) (mset ts)"
    by blast
  have ow: "owed pend data_base ds' = owed pend data_base ds" using k(7) by (simp add: owed_def ms)
  have ok': "sched_ok pend data_base ds'" using k okD sets by (auto simp: sched_ok_def ow)
  have sub: "pend (ring (Submit ur (io ds'))) = pend (ring (io ds'))" "cache (Submit ur (io ds')) = cache (io ds')"
    using assms(1) by (simp_all add: Submit_def ring_laws_def)
  then have "owed pend data_base (ds'\<lparr>io := Submit ur (io ds')\<rparr>) = owed pend data_base ds'" by (simp add: owed_def)
  moreover from this have "sched_ok pend data_base (ds'\<lparr>io := Submit ur (io ds')\<rparr>)" using ok' sub by (simp add: sched_ok_def)
  ultimately show ?thesis using l ow ok' ok k(2)
    by (cases "slots = 0"; cases any') (simp_all add: SubmitPending_def slots_def [symmetric] d)
qed

lemma DrainCompletions_ok:
  assumes "ring_laws ur pend" "full_io ur" and ok: "sched_ok pend data_base ds"
  shows "\<exists>ds' fin. DrainCompletions ur ds = Inr ds' \<and> sched_ok pend data_base ds' \<and>
    owed pend data_base ds = owed pend data_base ds' + fin \<and> frames ds' = woken (frames ds) fin \<and> queue ds' = queue ds"
proof (cases "inflight ds = 0")
  case True
  with ok show ?thesis by (auto simp: DrainCompletions_def woken_def intro!: exI [of _ "{#}"])
next
  case False
  let ?A = "image_mset (request (cache (io ds)) data_base) (mset (queue ds))"
  from ok have "waiting (frames ds) (?A + pend (ring (io ds)))" by (simp add: sched_ok_def owed_def)
  from reap_loop_ok [OF assms(1,2) this, of "unat (max_inflight ds)"] obtain r fin where
    r: "reap_loop ur completion_cb (unat (max_inflight ds)) (ring (io ds)) (frames ds) = Inr (r, woken (frames ds) fin, size fin)"
    "pend (ring (io ds)) = fin + pend r" "waiting (woken (frames ds) fin) (?A + pend r)" by blast
  let ?ds = "ds\<lparr>io := (io ds)\<lparr>ring := r\<rparr>, frames := woken (frames ds) fin, inflight := inflight ds - word_of_nat (size fin)\<rparr>"
  have d: "DrainCompletions ur ds = Inr ?ds" using False r(1) by (simp add: DrainCompletions_def ReapCompletions_def word_gt_0)
  have i: "unat (inflight ds) = size fin + size (pend r)" using ok r(2) by (simp add: sched_ok_def)
  then have "unat (word_of_nat (size fin) :: u32) = size fin" using unat_u32_less [of "inflight ds"]
    by (simp add: unsigned_of_nat take_bit_nat_eq_self)
  then have "unat (inflight ds - word_of_nat (size fin)) = size (pend r)" using i by (simp add: unat_sub word_le_nat_alt)
  moreover from this have "inflight ds - word_of_nat (size fin) \<le> max_inflight ds" using i ok by (simp add: sched_ok_def word_le_nat_alt)
  ultimately have "sched_ok pend data_base ?ds" using ok r(3) by (simp add: sched_ok_def owed_def)
  with d r(2) show ?thesis by (auto simp: owed_def intro!: exI [of _ fin])
qed

section \<open>A round of the worker\<close>


text \<open>A ring in memory that completes its requests in order.\<close>

definition demo_ring :: "sqe list uring" where
  "demo_ring = \<lparr>ur_init = (\<lambda>n. ([], 0)), ur_prep = (\<lambda>r s. if length r < 512 then Some (r @ [s]) else None),
     ur_submit = (\<lambda>r. (r, int (length r))),
     ur_peek = (\<lambda>r. (r, case r of [] \<Rightarrow> None | s # _ \<Rightarrow> Some (sq_data s, 8192))), ur_seen = tl, ur_exit = (\<lambda>r. r)\<rparr>"

lemma demo_ring_laws: "ring_laws demo_ring mset" "full_io demo_ring"
  by (auto simp: ring_laws_def full_io_def demo_ring_def split: if_splits list.splits)

definition demo_deq :: "nat \<Rightarrow> IoTask list \<Rightarrow> IoTask list \<times> IoTask list" where
  "demo_deq n q = (take n q, drop n q)"

lemma demo_deq_law: "deq_law demo_deq"
  by (auto simp: deq_law_def demo_deq_def simp flip: mset_append)

definition demo_sched :: "(demo_world, sqe list) DiskScheduler" where
  "demo_sched = (DiskScheduler_new
     \<lparr>base_dir = ''db'', cache = cache demo_dm_open, world = world demo_dm_open,
      ring = [\<lparr>sq_op = READ, sq_fd = 3, sq_buf = 0, sq_len = 8192, sq_off = 0, sq_data = 0\<rparr>]\<rparr>
     (\<lambda>_. SetIOInProgress (page_Pin Page_new)))\<lparr>inflight := 1, queue := [\<lparr>task_op = READ, task_priority = HIGH, task_page = 1, task_id = \<lparr>tbl_id = 7, pid = 2\<rparr>\<rparr>]\<rparr>"

lemma demo_sched_ok: "sched_ok mset 0 demo_sched"
proof -
  have "IsIOInProgress (SetIOInProgress (page_Pin Page_new))" "IsPinned (SetIOInProgress (page_Pin Page_new))"
    by (simp_all add: IsIOInProgress_def SetIOInProgress_def page_Pin_def Page_new_def IO_IN_PROGRESS_FLAG_def IsPinned_def)
  then show ?thesis
    by (auto simp: sched_ok_def owed_def waiting_def demo_sched_def DiskScheduler_new_def open_task_def MAX_OPEN_FILES_def
        demo_dm_open_def IOURING_QUEUE_SIZE_def request_def add_eq_conv_ex)
qed


section \<open>Files of one page\<close>

text \<open>A file that has just been created is empty, space allocated from the start of an empty file is its size, and a read
  returns no byte beyond the end of the file.\<close>

definition new_file_law :: "'w os \<Rightarrow> bool" where
  "new_file_law os \<longleftrightarrow>
     (\<forall>w p w' h. os_open os w p CreateNew = (w', h) \<and> h \<ge> 0 \<longrightarrow> os_fsize os w' h = 0) \<and>
     (\<forall>w h n w' r. os_fallocate os w h 0 n = (w', r) \<and> r = 0 \<and> os_fsize os w h = 0 \<longrightarrow> os_fsize os w' h = n) \<and>
     (\<forall>w h n off. os_fsize os w h < 2 ^ 63 \<longrightarrow> length (os_pread os w h n off) \<le> unat (os_fsize os w h) - unat off)"

text \<open>C30: A table file holds one page. Tables and indexes create their file with \<^verbatim>\<open>CreateOpenFile(.., 1)\<close> and nothing ever
  extends it: afterwards a read at the offset of any page from 2 to 524288 returns no byte, and a completion with
  fewer bytes than a page aborts the worker with \<^verbatim>\<open>Short read\<close>.\<close>

theorem second_page_short_read:
  assumes "new_file_law os" "CreateOpenFile os dm tid 1 = Inr dm'"
    "\<not> os_access os (world dm) (base_dir dm @ ''/'' @ file_name tid)" "2 \<le> p" "p \<le> 524288"
  shows "page_count (cache dm' tid) = 1 \<and> os_pread os (world dm') (fd (cache dm' tid)) 8192 (io_offset p) = [] \<and>
    completion_cb ps f (int (length (os_pread os (world dm') (fd (cache dm' tid)) 8192 (io_offset p)))) = Inl (AssertFailed ''Short read'')"
proof -
  from assms(2,3) have "async_CreateTable os dm tid 1 = Inr dm'"
    by (auto simp: CreateOpenFile_def BuildPath_def res_simps Let_def)
  moreover obtain path where bp: "BuildPath (base_dir dm) tid = Inr path" using assms(2) by (auto simp: CreateOpenFile_def res_simps)
  moreover obtain w h where o: "os_open os (world dm) path CreateNew = (w, h)" by fastforce
  moreover obtain w' r where a: "os_fallocate os w h 0 PAGE_BYTES = (w', r)" by fastforce
  ultimately have h: "h \<ge> 0" and r: "r = 0" and
    dm': "dm' = dm\<lparr>world := w', cache := (cache dm)(tid := \<lparr>fd = h, page_count = 1\<rparr>)\<rparr>"
    by (auto simp: async_CreateTable_def cache_Set_def res_simps Let_def split: if_splits)
  have "os_fsize os w h = 0" using assms(1) o h unfolding new_file_law_def by blast
  then have sz: "os_fsize os w' h = PAGE_BYTES" using assms(1) a r unfolding new_file_law_def by blast
  then have "os_fsize os w' h < 2 ^ 63" by (simp add: PAGE_BYTES_def)
  then have "length (os_pread os w' h 8192 (io_offset p)) \<le> unat (os_fsize os w' h) - unat (io_offset p)"
    using assms(1) unfolding new_file_law_def by blast
  moreover have "unat (io_offset p) \<ge> 8192"
  proof -
    have "unat p \<ge> 2" "unat p \<le> 524288" using assms(4,5) by (simp_all add: word_le_nat_alt)
    moreover from this have "unat (p - 1) = unat p - 1" by (subst unat_sub) (auto simp: word_le_nat_alt)
    ultimately show ?thesis by (simp add: io_offset_unat)
  qed
  ultimately show ?thesis using sz by (simp add: dm' completion_cb_def PAGE_BYTES_def)
qed

lemma demo_fsize:
  "unat (os_fsize demo_os w h) = min (length (demo_file w h)) (2 ^ 64 - 1)"
proof -
  have "min (length (demo_file w h)) (2 ^ 64 - 1) < 2 ^ 64" by simp
  then show ?thesis by (simp add: demo_os_def unsigned_of_nat take_bit_nat_eq_self)
qed

lemma demo_new_file_law: "new_file_law demo_os"
proof -
  have "os_fsize demo_os w' h = 0" if "os_open demo_os w p CreateNew = (w', h)" "h \<ge> 0" for w p w' h
    using that by (auto simp: demo_os_def demo_file_def split: if_splits)
  moreover have "os_fsize demo_os w' h = n"
    if al: "os_fallocate demo_os w h 0 n = (w', r)" "r = 0" "os_fsize demo_os w h = 0" for w h n w' r
  proof -
    have e: "demo_file w h = []" using al(3) demo_fsize [of w h] by (auto simp: min_def split: if_splits)
    obtain q where "w_fds w h = Some q" using al(1,2) by (cases "w_fds w h") (auto simp: demo_os_def)
    then have "demo_file w' h = grow (unat n) []" using al(1) e by (auto simp: demo_os_def demo_file_def demo_put_def)
    moreover have "unat n < 2 ^ 64" using unsigned_less [of n] by simp
    ultimately have "unat (os_fsize demo_os w' h) = unat n" unfolding demo_fsize by (simp add: grow_def min_def)
    then show ?thesis by (simp add: word_unat_eq_iff)
  qed
  moreover have "length (os_pread demo_os w h n off) \<le> unat (os_fsize demo_os w h) - unat off" if "os_fsize demo_os w h < 2 ^ 63" for w h n off
  proof -
    have "unat (os_fsize demo_os w h) < 2 ^ 63" using that by (simp add: word_less_nat_alt)
    then have "unat (os_fsize demo_os w h) = length (demo_file w h)" unfolding demo_fsize by (simp add: min_def split: if_splits)
    then show ?thesis by (simp add: demo_os_def)
  qed
  ultimately show ?thesis unfolding new_file_law_def by blast
qed

definition demo_async :: "(demo_world, sqe list) DiskManagerAsync" where
  "demo_async = \<lparr>base_dir = ''db'', cache = cache demo_dm, world = demo_base, ring = []\<rparr>"

lemma demo_create: "\<exists>dm'. CreateOpenFile demo_os demo_async 8 1 = Inr dm'"
proof -
  have "BuildPath ''db'' 8 = Inr (''db/'' @ file_name 8)" using file_path_fits [of "''db''" 8] by (simp add: MAX_OPEN_FILES_def)
  moreover have "w_files demo_base (''db/'' @ file_name 8) = None"
    by (simp add: demo_base_def file_name_def dec_digits.simps) code_simp
  ultimately show ?thesis
    by (simp add: CreateOpenFile_def async_CreateTable_def demo_async_def demo_dm_def cache_Get_def cache_Set_def MAX_OPEN_FILES_def
        FdCacheEntry_new_def demo_os_def Let_def)
qed

theorem second_page_short_read_witness:
  "\<exists>dm'. CreateOpenFile demo_os demo_async 8 1 = Inr dm' \<and> page_count (cache dm' 8) = 1 \<and>
     os_pread demo_os (world dm') (fd (cache dm' 8)) 8192 (io_offset 2) = [] \<and>
     completion_cb (\<lambda>_. Page_new) 0 0 = Inl (AssertFailed ''Short read'')"
proof -
  obtain dm' where c: "CreateOpenFile demo_os demo_async 8 1 = Inr dm'" using demo_create ..
  have "\<not> os_access demo_os (world demo_async) (base_dir demo_async @ ''/'' @ file_name 8)"
    by (simp add: demo_os_def demo_async_def demo_base_def file_name_def dec_digits.simps) code_simp
  from second_page_short_read [OF demo_new_file_law c this, of 2 "\<lambda>_. Page_new" 0] c show ?thesis by auto
qed

end
