(* ===== verification/MvccProofs.thy ===== *)
theory MvccProofs
  imports Mvcc
begin

text \<open>
  What the table operations do to version chains: reads return the snapshot of the reader's start
  time, updates put the before-image on the chain so that other snapshots do not change, and commit
  publishes the new row to later readers only.
\<close>

section \<open>Version arrays of a page\<close>

definition mv_ok :: "Table \<Rightarrow> Mvcc \<Rightarrow> TablePage \<Rightarrow> PageIdentifier \<Rightarrow> bool" where
  "mv_ok t mv page i \<longleftrightarrow>
     (page_versions page = None \<or> page_versions page = Some i \<and> version_table mv i \<noteq> None) \<and>
     (\<forall>vs. version_table mv i = Some vs \<longrightarrow> length vs = unat (max_row_count (tbl_layout t)))"

definition row_head :: "Mvcc \<Rightarrow> PageIdentifier \<Rightarrow> u32 \<Rightarrow> undo_ptr option" where
  "row_head mv i idx = (case version_table mv i of None \<Rightarrow> None | Some vs \<Rightarrow> vs ! unat idx)"

lemma GetCreateVersions_ok:
  assumes "\<forall>vs. version_table mv i = Some vs \<longrightarrow> length vs = unat n"
  shows "\<exists>mv'. GetCreateVersions mv i n = (mv', i) \<and> undo mv' = undo mv \<and>
    (\<exists>vs. version_table mv' i = Some vs \<and> length vs = unat n) \<and>
    (\<forall>idx < n. row_head mv' i idx = row_head mv i idx) \<and> (\<forall>j. j \<noteq> i \<longrightarrow> version_table mv' j = version_table mv j)"
  using assms
  by (auto simp: GetCreateVersions_def GetUnsafe_def row_head_def word_less_nat_alt split: option.splits)

lemma page_GetVersions_ok:
  assumes "mv_ok t mv page i"
  shows "\<exists>mv' page'. page_GetVersions mv page i (max_row_count (tbl_layout t)) = (mv', page', i) \<and>
    undo mv' = undo mv \<and> page_data page' = page_data page \<and> mv_ok t mv' page' i \<and> version_table mv' i \<noteq> None \<and>
    (\<forall>idx < max_row_count (tbl_layout t). row_head mv' i idx = row_head mv i idx) \<and>
    (\<forall>j. j \<noteq> i \<longrightarrow> version_table mv' j = version_table mv j)"
proof (cases "page_versions page")
  case None
  obtain mv' where m: "GetCreateVersions mv i (max_row_count (tbl_layout t)) = (mv', i)" "undo mv' = undo mv"
    "\<exists>vs. version_table mv' i = Some vs \<and> length vs = unat (max_row_count (tbl_layout t))"
    "\<forall>idx < max_row_count (tbl_layout t). row_head mv' i idx = row_head mv i idx"
    "\<forall>j. j \<noteq> i \<longrightarrow> version_table mv' j = version_table mv j"
    using GetCreateVersions_ok [of mv i "max_row_count (tbl_layout t)"] assms by (auto simp: mv_ok_def)
  with None show ?thesis by (auto simp: page_GetVersions_def mv_ok_def)
next
  case (Some arr)
  with assms show ?thesis by (auto simp: page_GetVersions_def mv_ok_def)
qed

lemma version_load_head:
  assumes "mv_ok t mv page i" "version_table mv i \<noteq> None" "idx < max_row_count (tbl_layout t)"
  shows "version_load mv i idx = Inr (row_head mv i idx)"
  using assms by (auto simp: version_load_def row_head_def mv_ok_def word_less_nat_alt)

lemma version_store_ok:
  assumes "mv_ok t mv page i" "version_table mv i \<noteq> None" "idx < max_row_count (tbl_layout t)"
  shows "mv_ok t (version_store mv i idx p) page i" "version_table (version_store mv i idx p) i \<noteq> None"
    "row_head (version_store mv i idx p) i idx = p" "undo (version_store mv i idx p) = undo mv"
    "idx' \<noteq> idx \<Longrightarrow> row_head (version_store mv i idx p) i idx' = row_head mv i idx'"
    "j \<noteq> i \<Longrightarrow> version_table (version_store mv i idx p) j = version_table mv j"
  using assms by (auto simp: mv_ok_def version_store_def row_head_def word_less_nat_alt word_unat_eq_iff)

lemma mv_set_record_simps [simp]:
  "undo (mv_set_record mv p r) = set_record (undo mv) p r"
  "version_table (mv_set_record mv p r) = version_table mv"
  "row_head (mv_set_record mv p r) = row_head mv"
  by (simp_all add: mv_set_record_def row_head_def fun_eq_iff)

lemma mv_ok_set_record [simp]: "mv_ok t (mv_set_record mv p r) page i = mv_ok t mv page i"
  by (simp add: mv_ok_def)

lemma mv_ok_cong:
  "mv_ok t mv page i \<Longrightarrow> version_table mv' = version_table mv \<Longrightarrow> page_versions page' = page_versions page \<Longrightarrow>
    mv_ok t mv' page' i"
  by (simp add: mv_ok_def)

lemma chain_mono:
  "chain h p rs \<Longrightarrow> (\<And>q r. h q = Some r \<Longrightarrow> h' q = Some r) \<Longrightarrow> chain h' p rs"
  by (induction rs arbitrary: p) auto

section \<open>Reading\<close>

definition head_deleted :: "mem \<Rightarrow> u32 \<Rightarrow> UndoRecord list \<Rightarrow> bool" where
  "head_deleted data idx rs = (case rs of [] \<Rightarrow> pax_IsDeleted data idx | r # _ \<Rightarrow> undo_IsDeleted r)"

definition read_ctx :: "Table \<Rightarrow> Mvcc \<Rightarrow> PageIdentifier \<Rightarrow> TablePage \<Rightarrow> u32 \<Rightarrow> UndoRecord list \<Rightarrow> mem \<Rightarrow> bool" where
  "read_ctx t mv i page idx rs c \<longleftrightarrow>
     row_ctx (tbl_schema t) (tbl_layout t) idx \<and> tbl_id i = tbl_oid t \<and> mv_ok t mv page i \<and>
     chain (undo_heap (undo mv)) (row_head mv i idx) rs \<and> (\<forall>r \<in> set rs. delta_ok (tbl_schema t) r) \<and>
     chunk_ok (schema_sz (tbl_schema t)) c \<and> set (GetColumnIds c) \<subseteq> dom (mapping (tbl_schema t))"

lemma chain_head_None: "chain h None rs \<longleftrightarrow> rs = []"
  by (cases rs) auto

lemma SelectIntoChunk_cases:
  assumes "read_ctx t mv i page idx rs c" "length rs < fuel"
  shows "\<exists>status mv' page' c'. SelectIntoChunk fuel t txn mv idx i page c = Some (Inr (status, mv', page', c')) \<and>
    undo mv' = undo mv \<and> page_data page' = page_data page \<and> mv_ok t mv' page' i \<and>
    (if rs \<noteq> [] \<and> rec_timestamp (hd rs) = finish_time txn
     then chunk_row (schema_sz (tbl_schema t)) c' =
            pax_row (tbl_schema t) (tbl_layout t) (page_data page) idx |` set (GetColumnIds c) \<and>
          status = status_of (undo_IsDeleted (hd rs))
     else case snapshot (tbl_schema t) (start_time txn) rs (pax_row (tbl_schema t) (tbl_layout t) (page_data page) idx) of
            None \<Rightarrow> status = NotVisible
          | Some row \<Rightarrow> chunk_row (schema_sz (tbl_schema t)) c' = row |` set (GetColumnIds c) \<and>
              status = status_of (head_deleted (page_data page) idx rs))"
proof -
  let ?s = "tbl_schema t" and ?l = "tbl_layout t"
  note ctx = assms(1) [unfolded read_ctx_def]
  then have idx: "idx < max_row_count ?l" and sok: "schema_ok ?s ?l" by (auto simp: row_ctx_def)
  obtain c1 where c1: "ReadSingleIntoChunk ?s ?l c (page_data page) idx = Inr c1" "chunk_ok (schema_sz ?s) c1"
    "GetColumnIds c1 = GetColumnIds c"
    "chunk_row (schema_sz ?s) c1 = pax_row ?s ?l (page_data page) idx |` set (GetColumnIds c)"
    using ReadSingleIntoChunk_ok [of ?s ?l idx c "page_data page"] ctx by blast
  obtain mv' page' where gv: "page_GetVersions mv page i (max_row_count ?l) = (mv', page', i)" "undo mv' = undo mv"
    "page_data page' = page_data page" "mv_ok t mv' page' i" "version_table mv' i \<noteq> None"
    "row_head mv' i idx = row_head mv i idx"
    using page_GetVersions_ok [of t mv page i] ctx idx by blast
  have load: "version_load mv' i idx = Inr (row_head mv i idx)"
    using version_load_head [OF gv(4,5) idx] gv(6) by simp
  have i: "\<lparr>tbl_id = tbl_oid t, pid = pid i\<rparr> = i" using ctx by (cases i) auto
  show ?thesis
  proof (cases rs)
    case Nil
    with ctx have "row_head mv i idx = None" by simp
    with Nil idx c1 gv load show ?thesis by (simp add: SelectIntoChunk_def Let_def i head_deleted_def)
  next
    case (Cons r rs')
    with ctx obtain p where p: "row_head mv i idx = Some p" "deref mv' p = Inr r" by (auto simp: deref_def gv(2))
    show ?thesis
    proof (cases "rec_timestamp r = finish_time txn")
      case True
      with Cons idx c1 gv load p show ?thesis by (simp add: SelectIntoChunk_def Let_def i)
    next
      case False
      have "chain (undo_heap (undo mv')) (Some p) rs" "\<forall>r \<in> set rs. delta_ok ?s r"
        using ctx p(1) gv(2) by simp_all
      from select_walk_snapshot [OF sok c1(2,4) _ this assms(2), of txn] c1(3)
      obtain c2 where c2: "select_walk fuel ?s mv' txn (Some p) c1 =
          Some (Inr (snapshot ?s (start_time txn) rs (pax_row ?s ?l (page_data page) idx) \<noteq> None, c2))"
        "\<forall>row'. snapshot ?s (start_time txn) rs (pax_row ?s ?l (page_data page) idx) = Some row' \<longrightarrow>
           chunk_row (schema_sz ?s) c2 = row' |` set (GetColumnIds c)" by auto
      show ?thesis
        using Cons False idx c1 gv load p c2
        by (cases "snapshot ?s (start_time txn) rs (pax_row ?s ?l (page_data page) idx)")
          (auto simp: SelectIntoChunk_def Let_def i head_deleted_def)
    qed
  qed
qed

section \<open>New undo records\<close>

lemma store_ok_set_record:
  assumes "store_ok st b" "undo_heap st p = Some r0" "rec_size r = rec_size r0"
  shows "store_ok (set_record st p r) b"
proof -
  have "filled (set_record st p r) seg 0 ns" if "filled st seg 0 ns" for seg ns
    using assms(2,3) by (intro filled_cong [OF that]) auto
  moreover have "fst p < pool_next (arena_pool st)"
    using assms(1,2) by (cases p) (auto simp: store_ok_def not_less [symmetric])
  ultimately show ?thesis
    using assms(1) by (auto simp: store_ok_def undo_buf_ok_def) (metis)+
qed

definition arena_free :: "UndoStore \<Rightarrow> bool" where
  "arena_free st \<longleftrightarrow> pool_queue (arena_pool st) = [] \<and> curr_size (arena_pool st) < size_limit (arena_pool st)"

text \<open>A record of \<open>sz\<close> bytes at an address that held none.\<close>

lemma new_undo_ok:
  assumes "store_ok st (undo_buffer txn)" "arena_free st" "8 dvd unat sz" "unat sz \<le> 4096" "0 < unat sz"
    "\<And>p st1. rec_size (mk p st1) = unat sz"
  shows "\<exists>st1 b1 p. new_undo st txn sz mk = Inr (set_record st1 p (mk p st1), txn\<lparr>undo_buffer := b1\<rparr>, p) \<and>
    undo_heap st p = None \<and> undo_heap st1 = undo_heap st \<and> store_ok (set_record st1 p (mk p st1)) b1 \<and>
    fst p \<in> set (buffers b1) \<and> set (buffers (undo_buffer txn)) \<subseteq> set (buffers b1) \<and>
    (buffers (undo_buffer txn) = [] \<longrightarrow> buffers b1 = [fst p] \<and> (\<forall>o'. undo_heap st (fst p, o') = None))"
proof -
  from NewEntry_ok [OF assms(1) _ _ assms(3-5)] assms(2)
  obtain st' b' seg off where n: "NewEntry st (undo_buffer txn) sz = Inr (st', b', seg, off)"
    "undo_heap st' = undo_heap st" "undo_heap st (seg, off) = None"
    "\<forall>r. rec_size r = unat sz \<longrightarrow> store_ok (set_record st' (seg, off) r) b'"
    by (auto simp: arena_free_def)
  have b: "seg \<in> set (buffers b') \<and> set (buffers (undo_buffer txn)) \<subseteq> set (buffers b')"
    using n(1) by (auto simp: NewEntry_def take_segment_def Let_def ebind_Inr_iff DB7_ASSERT_Inr_iff split: if_splits)
  have e: "buffers (undo_buffer txn) = [] \<Longrightarrow> buffers b' = [seg] \<and> (\<forall>o'. undo_heap st (seg, o') = None)"
    using n(1) assms(1,2)
    by (auto simp: NewEntry_def take_segment_def Let_def ebind_Inr_iff DB7_ASSERT_Inr_iff arena_free_def pool_Get_def store_ok_def
        split: if_splits)
  show ?thesis
    using n b e assms(6) by (intro exI [of _ st'] exI [of _ b'] exI [of _ "(seg, off)"]) (simp add: new_undo_def)
qed

text \<open>The chunks that an undo record can hold.\<close>

definition update_chunk_ok :: "Schema \<Rightarrow> mem \<Rightarrow> bool" where
  "update_chunk_ok s c \<longleftrightarrow> chunk_ok (schema_sz s) c \<and> distinct (GetColumnIds c) \<and>
     set (GetColumnIds c) \<subseteq> dom (mapping s) \<and> 8 dvd unat (chunk_GetSize c) \<and> unat (chunk_GetSize c) \<le> 4056"

lemma header_copy:
  assumes "chunk_ok sz c"
  shows "chunk_ok sz (wr_bytes old 0 (GetHeaderPtr c))" "GetColumnIds (wr_bytes old 0 (GetHeaderPtr c)) = GetColumnIds c"
    "chunk_GetSize (wr_bytes old 0 (GetHeaderPtr c)) = chunk_GetSize c"
proof -
  have hdr: "wr_bytes old 0 (GetHeaderPtr c) a = c a" if "a < GetDataPtr c" for a
    using that by (simp add: wr_bytes_apply GetHeaderPtr_def)
  show "chunk_ok sz (wr_bytes old 0 (GetHeaderPtr c))" by (rule chunk_ok_cong [OF assms hdr])
  show "GetColumnIds (wr_bytes old 0 (GetHeaderPtr c)) = GetColumnIds c"
    "chunk_GetSize (wr_bytes old 0 (GetHeaderPtr c)) = chunk_GetSize c"
    by (rule chunk_header_cong [OF hdr], assumption)+
qed

lemma UndoRecordForUpdate_ok:
  assumes "store_ok st (undo_buffer txn)" "arena_free st" "update_chunk_ok s c"
  shows "\<exists>st1 txn1 p r d. UndoRecordForUpdate st txn tbl pg i c = Inr (st1, txn1, p) \<and>
    start_time txn1 = start_time txn \<and> finish_time txn1 = finish_time txn \<and> rollback txn1 = rollback txn \<and>
    undo_heap st p = None \<and> undo_heap st1 = (undo_heap st)(p := Some r) \<and> store_ok st1 (undo_buffer txn1) \<and>
    fst p \<in> set (buffers (undo_buffer txn1)) \<and>
    (buffers (undo_buffer txn) = [] \<longrightarrow> buffers (undo_buffer txn1) = [fst p] \<and> (\<forall>o'. undo_heap st (fst p, o') = None)) \<and>
    rec_type r = UPDATE \<and> rec_timestamp r = finish_time txn \<and> delta_of r = Some d \<and>
    chunk_ok (schema_sz s) d \<and> GetColumnIds d = GetColumnIds c \<and> chunk_GetSize d = chunk_GetSize c"
proof -
  note c = assms(3) [unfolded update_chunk_ok_def]
  define sz where "sz = UNDO_RECORD_SIZE + chunk_GetSize c"
  have sz: "unat sz = 40 + unat (chunk_GetSize c)"
    using c by (simp add: sz_def UNDO_RECORD_SIZE_def unat_word_ariths)
  define mk where "mk = (\<lambda>(seg, off) (st1 :: UndoStore). InitializeUpdate (finish_time txn) tbl pg i (GetHeaderPtr c)
          (\<lambda>a. arena_data (arenas st1 seg) (off + 40 + a)))"
  have mk: "\<exists>old. mk p st1 = InitializeUpdate (finish_time txn) tbl pg i (GetHeaderPtr c) old" for p st1
    by (cases p) (auto simp: mk_def)
  have rs: "rec_size (mk p st1) = unat sz" for p st1
    using mk [of p st1] header_copy(3) [of "schema_sz s" c] c
    by (auto simp: InitializeUpdate_def rec_size_def sz simp del: of_nat_unat)
  have "8 dvd unat sz" "unat sz \<le> 4096" "0 < unat sz" using c by (simp_all add: sz del: of_nat_unat)
  from new_undo_ok [where mk = mk, OF assms(1,2) this rs]
  obtain st1 b1 p where n: "new_undo st txn sz mk = Inr (set_record st1 p (mk p st1), txn\<lparr>undo_buffer := b1\<rparr>, p)"
    "undo_heap st p = None" "undo_heap st1 = undo_heap st" "store_ok (set_record st1 p (mk p st1)) b1"
    "fst p \<in> set (buffers b1)"
    "buffers (undo_buffer txn) = [] \<longrightarrow> buffers b1 = [fst p] \<and> (\<forall>o'. undo_heap st (fst p, o') = None)" by blast
  obtain old where r: "mk p st1 = InitializeUpdate (finish_time txn) tbl pg i (GetHeaderPtr c) old" using mk by blast
  have "UndoRecordForUpdate st txn tbl pg i c = Inr (set_record st1 p (mk p st1), txn\<lparr>undo_buffer := b1\<rparr>, p)"
    using n(1) by (simp add: UndoRecordForUpdate_def mk_def sz_def)
  then show ?thesis
    using n header_copy [of "schema_sz s" c] c
    by (intro exI [of _ "set_record st1 p (mk p st1)"] exI [of _ "txn\<lparr>undo_buffer := b1\<rparr>"] exI [of _ p] exI [of _ "mk p st1"]
        exI [of _ "wr_bytes old 0 (GetHeaderPtr c)"]) (simp add: r InitializeUpdate_def)
qed

section \<open>Updating\<close>

definition conflicting :: "TransactionContext \<Rightarrow> UndoRecord list \<Rightarrow> bool" where
  "conflicting txn rs =
     (case rs of [] \<Rightarrow> False | r # _ \<Rightarrow> TxnUtil_HasConflict (rec_timestamp r) (finish_time txn) (start_time txn))"

lemma conflicting_cong:
  "start_time txn1 = start_time txn \<Longrightarrow> finish_time txn1 = finish_time txn \<Longrightarrow> conflicting txn1 rs = conflicting txn rs"
  by (cases rs) (simp_all add: conflicting_def)

lemma HasConflict_head:
  assumes "chain (undo_heap (undo mv)) p rs"
  shows "HasConflict mv txn p = Inr (conflicting txn rs)"
  using assms by (cases rs) (auto simp: HasConflict_def conflicting_def deref_def)

lemma map_add_undo:
  "dom g \<subseteq> dom f \<Longrightarrow> (f ++ g) ++ f |` dom g = f"
  by (rule ext) (auto simp: map_add_def restrict_map_def split: option.splits)

definition updated :: "Table \<Rightarrow> u32 \<Rightarrow> mem \<Rightarrow> mem \<Rightarrow> mem \<Rightarrow> bool" where
  "updated t idx c data data' \<longleftrightarrow>
     pax_row (tbl_schema t) (tbl_layout t) data' idx =
       pax_row (tbl_schema t) (tbl_layout t) data idx ++ chunk_row (schema_sz (tbl_schema t)) c \<and>
     same_except (tbl_schema t) (tbl_layout t) idx data data'"

text \<open>One iteration of the loop of \<^verbatim>\<open>UpdateUndo\<close>.\<close>

lemma update_iteration:
  assumes ctx: "row_ctx (tbl_schema t) (tbl_layout t) idx" and c: "update_chunk_ok (tbl_schema t) c"
    and mv: "mv_ok t mv page i" "version_table mv i \<noteq> None"
    and r: "undo_heap (undo mv) rp = Some r" "delta_of r = Some d" "chunk_ok (schema_sz (tbl_schema t)) d"
      "GetColumnIds d = GetColumnIds c" "rec_type r = UPDATE"
    and ch: "chain (undo_heap (undo mv)) (row_head mv i idx) rs"
    and go: "rs \<noteq> [] \<longrightarrow> \<not> conflicting txn rs \<and> \<not> pax_IsDeleted data idx"
  shows "\<exists>d' data' r'. updated t idx c data data' \<and>
    chunk_row (schema_sz (tbl_schema t)) d' = pax_row (tbl_schema t) (tbl_layout t) data idx |` set (GetColumnIds c) \<and>
    r' = r\<lparr>delta_of := Some d', rec_next := row_head mv i idx\<rparr> \<and> delta_ok (tbl_schema t) r' \<and> rec_size r' = rec_size r \<and>
    update_loop others t txn i idx c rp mv data =
      (let mv1 = mv_set_record mv rp r'
       in case others of
            [] \<Rightarrow> Inr (True, version_store mv1 i idx (Some rp), data')
          | h # rest \<Rightarrow>
              let mv2 = version_store mv1 i idx h
              in if h = row_head mv i idx then Inr (True, version_store mv2 i idx (Some rp), data')
                 else update_loop rest t txn i idx c rp mv2 data')"
proof -
  note cc = c [unfolded update_chunk_ok_def]
  from ctx have idx: "idx < max_row_count (tbl_layout t)" by (simp add: row_ctx_def)
  obtain d' data' where u: "UpdateSingle (tbl_schema t) (tbl_layout t) c d data idx = Inr (d', data')"
    "same_except (tbl_schema t) (tbl_layout t) idx data data'" "chunk_ok (schema_sz (tbl_schema t)) d'"
    "GetColumnIds d' = GetColumnIds c" "chunk_GetSize d' = chunk_GetSize d"
    "chunk_row (schema_sz (tbl_schema t)) d' = pax_row (tbl_schema t) (tbl_layout t) data idx |` set (GetColumnIds c)"
    "pax_row (tbl_schema t) (tbl_layout t) data' idx =
       pax_row (tbl_schema t) (tbl_layout t) data idx ++ chunk_row (schema_sz (tbl_schema t)) c"
    using UpdateSingle_ok [of "tbl_schema t" "tbl_layout t" idx c d data] ctx cc r(3,4) by blast
  have head: "rs \<noteq> [] \<longleftrightarrow> row_head mv i idx \<noteq> None" using ch by (cases rs) auto
  have load: "version_load mv i idx = Inr (row_head mv i idx)" by (rule version_load_head [OF mv idx])
  define r' where "r' = r\<lparr>delta_of := Some d', rec_next := row_head mv i idx\<rparr>"
  have dok: "delta_ok (tbl_schema t) r'" "rec_size r' = rec_size r"
    using cc u(3-5) r(2) by (simp_all add: r'_def delta_ok_def rec_size_def)
  show ?thesis
    using go head u(1) r(1,2) dok u(2,6,7)
    by (intro exI [of _ d'] exI [of _ data'] exI [of _ r'])
      (auto simp: update_loop.simps [of others] load HasConflict_head [OF ch] deref_def r'_def Let_def updated_def
        split: list.splits)
qed

definition update_ctx ::
    "Table \<Rightarrow> TransactionContext \<Rightarrow> Mvcc \<Rightarrow> TupleId \<Rightarrow> TablePage \<Rightarrow> UndoRecord list \<Rightarrow> mem \<Rightarrow> bool" where
  "update_ctx t txn mv tup page rs c \<longleftrightarrow>
     row_ctx (tbl_schema t) (tbl_layout t) (GetIndex tup) \<and> update_chunk_ok (tbl_schema t) c \<and>
     store_ok (undo mv) (undo_buffer txn) \<and> arena_free (undo mv) \<and>
     mv_ok t mv page \<lparr>tbl_id = tbl_oid t, pid = GetPageId tup\<rparr> \<and>
     chain (undo_heap (undo mv)) (row_head mv \<lparr>tbl_id = tbl_oid t, pid = GetPageId tup\<rparr> (GetIndex tup)) rs"

text \<open>What the operations do before they enter their loops.\<close>

lemma update_prepare:
  assumes "update_ctx t txn mv tup page rs c" "i = \<lparr>tbl_id = tbl_oid t, pid = GetPageId tup\<rparr>"
  shows "\<exists>txn1 rp r d mv2 page2. start_time txn1 = start_time txn \<and> finish_time txn1 = finish_time txn \<and>
    rollback txn1 = rollback txn \<and> undo_heap (undo mv) rp = None \<and>
    undo_heap (undo mv2) = (undo_heap (undo mv))(rp := Some r) \<and> store_ok (undo mv2) (undo_buffer txn1) \<and>
    fst rp \<in> set (buffers (undo_buffer txn1)) \<and>
    (buffers (undo_buffer txn) = [] \<longrightarrow> buffers (undo_buffer txn1) = [fst rp] \<and> (\<forall>o'. undo_heap (undo mv) (fst rp, o') = None)) \<and>
    rec_type r = UPDATE \<and> rec_timestamp r = finish_time txn \<and> delta_of r = Some d \<and>
    chunk_ok (schema_sz (tbl_schema t)) d \<and> GetColumnIds d = GetColumnIds c \<and>
    page_data page2 = page_data page \<and> mv_ok t mv2 page2 i \<and> version_table mv2 i \<noteq> None \<and>
    row_head mv2 i (GetIndex tup) = row_head mv i (GetIndex tup) \<and>
    chain (undo_heap (undo mv2)) (row_head mv2 i (GetIndex tup)) rs \<and>
    UpdateUndo others t txn mv tup page c =
      ebind (update_loop others t txn1 i (GetIndex tup) c rp mv2 (page_data page)) (\<lambda>(valid, mv3, data').
        Inr (valid, txn1, mv3, page2\<lparr>page_data := data'\<rparr>))"
proof -
  note ctx = assms(1) [unfolded update_ctx_def, folded assms(2)]
  then have idx: "GetIndex tup < max_row_count (tbl_layout t)" by (auto simp: row_ctx_def)
  have pre: "store_ok (undo mv) (undo_buffer txn)" "arena_free (undo mv)" "update_chunk_ok (tbl_schema t) c"
    using ctx by blast+
  obtain st1 txn1 rp r d where u: "UndoRecordForUpdate (undo mv) txn (tbl_oid t) (GetPageId tup) (GetIndex tup) c = Inr (st1, txn1, rp)"
    "start_time txn1 = start_time txn" "finish_time txn1 = finish_time txn" "rollback txn1 = rollback txn"
    "undo_heap (undo mv) rp = None" "undo_heap st1 = (undo_heap (undo mv))(rp := Some r)" "store_ok st1 (undo_buffer txn1)"
    "fst rp \<in> set (buffers (undo_buffer txn1))"
    "buffers (undo_buffer txn) = [] \<longrightarrow> buffers (undo_buffer txn1) = [fst rp] \<and> (\<forall>o'. undo_heap (undo mv) (fst rp, o') = None)"
    "rec_type r = UPDATE" "rec_timestamp r = finish_time txn" "delta_of r = Some d"
    "chunk_ok (schema_sz (tbl_schema t)) d" "GetColumnIds d = GetColumnIds c"
    using UndoRecordForUpdate_ok [OF pre, of "tbl_oid t" "GetPageId tup" "GetIndex tup"]
    by (elim exE conjE) (rule that; assumption)
  have mv1: "mv_ok t (mv\<lparr>undo := st1\<rparr>) page i" using ctx by (simp add: mv_ok_def)
  obtain mv2 page2 where g0: "page_GetVersions (mv\<lparr>undo := st1\<rparr>) page i (max_row_count (tbl_layout t)) = (mv2, page2, i) \<and>
    undo mv2 = undo (mv\<lparr>undo := st1\<rparr>) \<and> page_data page2 = page_data page \<and> mv_ok t mv2 page2 i \<and> version_table mv2 i \<noteq> None \<and>
    (\<forall>idx < max_row_count (tbl_layout t). row_head mv2 i idx = row_head (mv\<lparr>undo := st1\<rparr>) i idx)"
    using page_GetVersions_ok [OF mv1] by (elim exE conjE) metis
  then have g: "page_GetVersions (mv\<lparr>undo := st1\<rparr>) page i (max_row_count (tbl_layout t)) = (mv2, page2, i)"
    "undo mv2 = st1" "page_data page2 = page_data page" "mv_ok t mv2 page2 i" "version_table mv2 i \<noteq> None"
    "row_head mv2 i (GetIndex tup) = row_head (mv\<lparr>undo := st1\<rparr>) i (GetIndex tup)"
    using idx by simp_all
  have h: "row_head mv2 i (GetIndex tup) = row_head mv i (GetIndex tup)" using g(6) by (simp add: row_head_def)
  have ch: "chain (undo_heap (undo mv2)) (row_head mv2 i (GetIndex tup)) rs"
  proof -
    have "undo_heap (undo mv2) q = Some x" if "undo_heap (undo mv) q = Some x" for q x
      using that u(5) by (auto simp: g(2) u(6))
    moreover have "chain (undo_heap (undo mv)) (row_head mv i (GetIndex tup)) rs" using ctx by blast
    ultimately show ?thesis unfolding h by (rule_tac chain_mono)
  qed
  have up: "UpdateUndo others t txn mv tup page c =
      ebind (update_loop others t txn1 i (GetIndex tup) c rp mv2 (page_data page)) (\<lambda>(valid, mv3, data').
        Inr (valid, txn1, mv3, page2\<lparr>page_data := data'\<rparr>))"
    using u(1) g(1,3) assms(2) by (simp add: UpdateUndo_def Let_def)
  show ?thesis
    using u g(2-5) h ch up
    by (intro exI [of _ txn1] exI [of _ rp] exI [of _ r] exI [of _ d] exI [of _ mv2] exI [of _ page2]) simp
qed

text \<open>The before-image undoes the update.\<close>

lemma undo_updated:
  assumes up: "updated t idx c data data'" and c: "update_chunk_ok (tbl_schema t) c"
    and d: "chunk_row (schema_sz (tbl_schema t)) d' = pax_row (tbl_schema t) (tbl_layout t) data idx |` set (GetColumnIds c)"
    and r: "rec_type r = UPDATE" "delta_of r = Some d'"
  shows "undo_row (tbl_schema t) r (pax_row (tbl_schema t) (tbl_layout t) data' idx) =
    pax_row (tbl_schema t) (tbl_layout t) data idx"
proof -
  have "dom (chunk_row (schema_sz (tbl_schema t)) c) \<subseteq> dom (pax_row (tbl_schema t) (tbl_layout t) data idx)"
    using c by (simp add: dom_chunk_row dom_pax_row update_chunk_ok_def)
  from map_add_undo [OF this] show ?thesis
    using up d r by (simp add: undo_row_def updated_def dom_chunk_row)
qed

lemma UpdateUndo_ok:
  assumes ctx: "update_ctx t txn mv tup page rs c" and i: "i = \<lparr>tbl_id = tbl_oid t, pid = GetPageId tup\<rparr>"
    and go: "rs \<noteq> [] \<longrightarrow> \<not> conflicting txn rs \<and> \<not> pax_IsDeleted (page_data page) (GetIndex tup)"
  shows "\<exists>txn' mv' page' rp r. UpdateUndo [] t txn mv tup page c = Inr (True, txn', mv', page') \<and>
    updated t (GetIndex tup) c (page_data page) (page_data page') \<and>
    start_time txn' = start_time txn \<and> finish_time txn' = finish_time txn \<and> rollback txn' = rollback txn \<and>
    undo_heap (undo mv) rp = None \<and> undo_heap (undo mv') = (undo_heap (undo mv))(rp := Some r) \<and>
    fst rp \<in> set (buffers (undo_buffer txn')) \<and>
    (buffers (undo_buffer txn) = [] \<longrightarrow> buffers (undo_buffer txn') = [fst rp] \<and> (\<forall>o'. undo_heap (undo mv) (fst rp, o') = None)) \<and>
    store_ok (undo mv') (undo_buffer txn') \<and> mv_ok t mv' page' i \<and> row_head mv' i (GetIndex tup) = Some rp \<and>
    chain (undo_heap (undo mv')) (Some rp) (r # rs) \<and> delta_ok (tbl_schema t) r \<and>
    rec_type r = UPDATE \<and> rec_timestamp r = finish_time txn \<and> rec_next r = row_head mv i (GetIndex tup) \<and>
    undo_row (tbl_schema t) r (pax_row (tbl_schema t) (tbl_layout t) (page_data page') (GetIndex tup)) =
      pax_row (tbl_schema t) (tbl_layout t) (page_data page) (GetIndex tup)"
proof -
  let ?idx = "GetIndex tup"
  obtain txn1 rp r d mv2 page2 where p: "start_time txn1 = start_time txn" "finish_time txn1 = finish_time txn"
    "rollback txn1 = rollback txn" "undo_heap (undo mv) rp = None"
    "undo_heap (undo mv2) = (undo_heap (undo mv))(rp := Some r)" "store_ok (undo mv2) (undo_buffer txn1)"
    "fst rp \<in> set (buffers (undo_buffer txn1))"
    "buffers (undo_buffer txn) = [] \<longrightarrow> buffers (undo_buffer txn1) = [fst rp] \<and> (\<forall>o'. undo_heap (undo mv) (fst rp, o') = None)"
    "rec_type r = UPDATE" "rec_timestamp r = finish_time txn" "delta_of r = Some d"
    "chunk_ok (schema_sz (tbl_schema t)) d" "GetColumnIds d = GetColumnIds c"
    "page_data page2 = page_data page" "mv_ok t mv2 page2 i" "version_table mv2 i \<noteq> None"
    "row_head mv2 i ?idx = row_head mv i ?idx" "chain (undo_heap (undo mv2)) (row_head mv2 i ?idx) rs"
    "UpdateUndo [] t txn mv tup page c =
      ebind (update_loop [] t txn1 i ?idx c rp mv2 (page_data page)) (\<lambda>(valid, mv3, data').
        Inr (valid, txn1, mv3, page2\<lparr>page_data := data'\<rparr>))"
    using update_prepare [OF ctx i, of "[]"] by blast
  have rc: "row_ctx (tbl_schema t) (tbl_layout t) ?idx" "update_chunk_ok (tbl_schema t) c"
    using ctx by (simp_all add: update_ctx_def)
  then have idx: "?idx < max_row_count (tbl_layout t)" by (simp add: row_ctx_def)
  have hr: "undo_heap (undo mv2) rp = Some r" by (simp add: p(5))
  have go1: "rs \<noteq> [] \<longrightarrow> \<not> conflicting txn1 rs \<and> \<not> pax_IsDeleted (page_data page) ?idx"
    using go p(1,2) by (simp add: conflicting_def split: list.splits)
  obtain d' data' r' where it: "updated t ?idx c (page_data page) data'"
    "chunk_row (schema_sz (tbl_schema t)) d' = pax_row (tbl_schema t) (tbl_layout t) (page_data page) ?idx |` set (GetColumnIds c)"
    "r' = r\<lparr>delta_of := Some d', rec_next := row_head mv2 i ?idx\<rparr>" "delta_ok (tbl_schema t) r'" "rec_size r' = rec_size r"
    "update_loop [] t txn1 i ?idx c rp mv2 (page_data page) =
       Inr (True, version_store (mv_set_record mv2 rp r') i ?idx (Some rp), data')"
    using update_iteration [OF rc p(15,16) hr p(11,12,13,9,18) go1, of "[]"] by (auto simp: Let_def)
  define mv' where "mv' = version_store (mv_set_record mv2 rp r') i ?idx (Some rp)"
  have vs: "mv_ok t mv' page2 i" "row_head mv' i ?idx = Some rp" "undo mv' = set_record (undo mv2) rp r'"
    using version_store_ok [where t = t and mv = "mv_set_record mv2 rp r'" and page = page2 and i = i and idx = ?idx and p = "Some rp"] p(15,16) idx by (simp_all add: mv'_def)
  have heap: "undo_heap (undo mv') = (undo_heap (undo mv))(rp := Some r')" by (simp add: vs(3) p(5))
  have "chain (undo_heap (undo mv)) (row_head mv i ?idx) rs" using ctx by (simp add: update_ctx_def i)
  then have "chain (undo_heap (undo mv')) (row_head mv i ?idx) rs"
    by (rule chain_mono) (use p(4) in \<open>auto simp: heap\<close>)
  then have ch: "chain (undo_heap (undo mv')) (Some rp) (r' # rs)" by (simp add: heap it(3) p(17))
  have st: "store_ok (undo mv') (undo_buffer txn1)"
    unfolding vs(3) by (rule store_ok_set_record [OF p(6) hr it(5)])
  have ur: "undo_row (tbl_schema t) r' (pax_row (tbl_schema t) (tbl_layout t) data' ?idx) =
      pax_row (tbl_schema t) (tbl_layout t) (page_data page) ?idx"
    using undo_updated [OF it(1) rc(2) it(2), of r'] p(9) it(3) by simp
  have "mv_ok t mv' (page2\<lparr>page_data := data'\<rparr>) i" by (rule mv_ok_cong [OF vs(1)]) simp_all
  then show ?thesis
    using p(1-4,7-10,17,19) it(1,3,4,6) vs(2) heap ch st ur
    by (intro exI [of _ txn1] exI [of _ mv'] exI [of _ "page2\<lparr>page_data := data'\<rparr>"] exI [of _ rp] exI [of _ r'])
      (simp add: mv'_def)
qed

end
