(* ===== verification/MvccTheorems.thy ===== *)
theory MvccTheorems
  imports MvccProofs
begin

text \<open>
  The guarantees of the table heap: snapshot reads, isolation of uncommitted updates, publication by
  commit, first-updater-wins, and two places where the code falls short of them. The concrete table
  at the start has an integer and a bigint column; it shows that the hypotheses can hold.
\<close>

section \<open>A concrete table\<close>

definition demo_schema :: Schema where
  "demo_schema = Schema_new (\<lambda>xs. xs) [SchemaColumn_new 1 INTEGER ''a'', SchemaColumn_new 2 BIGINT ''b'']"

definition demo_table :: Table where
  "demo_table = \<lparr>tbl_schema = demo_schema, tbl_layout = PaxLayout_new [4, 8], tbl_oid = 7, varlen_oid = 0\<rparr>"

definition demo_chunk :: mem where
  "demo_chunk = CreateDataChunk (DataChunkLayout_new [1, 2] [4, 8]) (\<lambda>_. 0)"

definition demo_mv :: Mvcc where
  "demo_mv = \<lparr>undo = \<lparr>undo_heap = \<lambda>_. None, arenas = \<lambda>_. FixedBumpArena_new (\<lambda>_. 0), arena_pool = ObjectPool_new 10 5\<rparr>,
     version_table = Map.empty\<rparr>"

definition demo_page :: TablePage where
  "demo_page = \<lparr>page_data = \<lambda>_. 0, page_versions = None\<rparr>"

definition demo_txn :: TransactionContext where
  "demo_txn = \<lparr>start_time = 5, finish_time = txn_stamp 5, rollback = False, undo_buffer = UndoBuffer_new,
     redo_buffer = \<lparr>log_manager = False, segment_old = 9, redo_segment = 9, redo_last_record = None, has_flushed = False\<rparr>,
     durability_policy = SYNC\<rparr>"

definition other_record :: UndoRecord where
  "other_record = InitializeDelete (txn_stamp 9) 7 1 3"

text \<open>The same table after transaction 9 deleted row 3 and has not committed.\<close>

definition demo_mv9 :: Mvcc where
  "demo_mv9 = \<lparr>undo = \<lparr>undo_heap = (\<lambda>_. None)((0, 0) := Some other_record), arenas = \<lambda>_. FixedBumpArena_new (\<lambda>_. 0),
       arena_pool = \<lparr>pool_queue = [], size_limit = 10, reuse_limit = 5, curr_size = 1, pool_out = {0}, pool_next = 1\<rparr>\<rparr>,
     version_table = [\<lparr>tbl_id = 7, pid = 1\<rparr> \<mapsto> (replicate 674 None)[3 := Some (0, 0)]]\<rparr>"

lemma demo_mapping:
  "mapping demo_schema = [1 \<mapsto> \<lparr>col_oid = 1, col_type = INTEGER, type_size = 4, col_name = ''a'', position = 0, is_nullable = False\<rparr>,
     2 \<mapsto> \<lparr>col_oid = 2, col_type = BIGINT, type_size = 8, col_name = ''b'', position = 1, is_nullable = False\<rparr>]"
  by (simp add: demo_schema_def Schema_new_def SchemaColumn_new_def SizeOf_def)

lemma demo_layout:
  "pax_ok (tbl_layout demo_table)" "max_row_count (tbl_layout demo_table) = 674" "sizes (tbl_layout demo_table) = [4, 8]"
proof -
  have v: "pax_sizes_ok [4, 8]" by (simp add: pax_sizes_ok_def)
  from PaxLayout_new_ok [OF v] show "pax_ok (tbl_layout demo_table)" "sizes (tbl_layout demo_table) = [4, 8]"
    by (simp_all add: demo_table_def)
  have "unat (max_row_count (PaxLayout_new [4, 8])) = 674" using PaxLayout_new_ok(2) [OF v] by simp
  then show "max_row_count (tbl_layout demo_table) = 674"
    by (simp add: demo_table_def word_unat_eq_iff)
qed

lemma demo_row_ctx: "r < 674 \<Longrightarrow> row_ctx (tbl_schema demo_table) (tbl_layout demo_table) r"
  using demo_layout by (simp add: row_ctx_def schema_ok_def demo_table_def demo_mapping)

lemma demo_sz: "map (schema_sz demo_schema) [1, 2] = [4, 8]"
  by (simp add: schema_sz_def demo_mapping)

lemma demo_chunk_ok: "update_chunk_ok (tbl_schema demo_table) demo_chunk"
proof -
  have v: "valid_sizes (map (schema_sz demo_schema) [1, 2])"
    "8 + 6 * length [1, 2 :: u32] + size_bound (map (schema_sz demo_schema) [1, 2]) \<le> 65520"
    unfolding demo_sz by simp_all
  have c: "chunk_ok (schema_sz demo_schema) demo_chunk" "GetColumnIds demo_chunk = [1, 2]"
    using CreateDataChunk_ok [OF v, of "\<lambda>_. 0"] unfolding demo_sz by (simp_all add: demo_chunk_def)
  have t: "unat (total_size (DataChunkLayout_new [1, 2] [4, 8])) = 32"
    by code_simp
  then have "unat (chunk_GetSize demo_chunk) = 32"
    using CreateDataChunk_shape(3) [of "[4, 8]" "[1, 2]" "\<lambda>_. 0"] by (simp add: demo_chunk_def)
  with c show ?thesis by (simp add: update_chunk_ok_def demo_table_def demo_mapping)
qed

lemma demo_ctx: "update_ctx demo_table demo_txn demo_mv (TupleId_of 3 1) demo_page [] demo_chunk"
proof -
  have "store_ok (undo demo_mv) (undo_buffer demo_txn)" "arena_free (undo demo_mv)"
    by (simp_all add: demo_mv_def store_ok_def undo_buf_ok_def demo_txn_def  UndoBuffer_new_def
        pool_ok_def pool_objects_def ObjectPool_new_def arena_free_def)
  then show ?thesis
    using demo_row_ctx [of 3] demo_chunk_ok
    by (simp add: update_ctx_def TupleId_fields mv_ok_def demo_page_def row_head_def demo_mv_def)
qed

lemma demo_ctx9: "update_ctx demo_table demo_txn demo_mv9 (TupleId_of 3 1) demo_page [other_record] demo_chunk"
proof -
  have "store_ok (undo demo_mv9) (undo_buffer demo_txn)" "arena_free (undo demo_mv9)"
    by (simp_all add: demo_mv9_def store_ok_def undo_buf_ok_def demo_txn_def  UndoBuffer_new_def
        pool_ok_def pool_objects_def arena_free_def)
  moreover have "chain (undo_heap (undo demo_mv9)) (row_head demo_mv9 \<lparr>tbl_id = 7, pid = 1\<rparr> 3) [other_record]"
    by (simp add: demo_mv9_def row_head_def other_record_def InitializeDelete_def)
  ultimately show ?thesis
    using demo_row_ctx [of 3] demo_chunk_ok demo_layout(2)
    by (simp add: update_ctx_def TupleId_fields mv_ok_def demo_page_def demo_mv9_def demo_table_def)
qed

section \<open>Reading\<close>

text \<open>C11: A read returns the row of the reader's snapshot: newer versions are undone along the chain, rows
inserted later are not visible, and a transaction reads its own last write.\<close>

theorem Select_snapshot:
  assumes "read_ctx t mv i page idx rs c" "length rs < fuel"
  shows "\<exists>status mv' page' c'. SelectIntoChunk fuel t txn mv idx i page c = Some (Inr (status, mv', page', c')) \<and>
    (if rs \<noteq> [] \<and> rec_timestamp (hd rs) = finish_time txn
     then chunk_row (schema_sz (tbl_schema t)) c' =
            pax_row (tbl_schema t) (tbl_layout t) (page_data page) idx |` set (GetColumnIds c)
     else case snapshot (tbl_schema t) (start_time txn) rs (pax_row (tbl_schema t) (tbl_layout t) (page_data page) idx) of
            None \<Rightarrow> status = NotVisible
          | Some row \<Rightarrow> status \<noteq> NotVisible \<and> chunk_row (schema_sz (tbl_schema t)) c' = row |` set (GetColumnIds c))"
  using SelectIntoChunk_cases [OF assms, of txn] by (fastforce simp: status_of_def split: if_splits option.splits)

lemma demo_read9: "read_ctx demo_table demo_mv9 \<lparr>tbl_id = 7, pid = 1\<rparr> demo_page 3 [other_record] demo_chunk"
  using demo_ctx9 demo_chunk_ok
  by (simp add: read_ctx_def update_ctx_def TupleId_fields update_chunk_ok_def delta_ok_def other_record_def
      InitializeDelete_def demo_table_def)

theorem Select_snapshot_witness:
  "\<exists>status mv' page' c'. SelectIntoChunk 2 demo_table demo_txn demo_mv9 3 \<lparr>tbl_id = 7, pid = 1\<rparr> demo_page demo_chunk =
    Some (Inr (status, mv', page', c'))"
  using Select_snapshot [OF demo_read9, of 2 demo_txn] by auto

text \<open>C21: A deletion that is not committed shows through to every reader: the row status comes from the
newest version, not from the version that the reader's snapshot selects.\<close>

theorem Select_sees_uncommitted_delete:
  assumes "read_ctx t mv i page idx (r # rs) c" "length rs + 1 < fuel" "rec_type r = DELETE"
    "\<not> IsCommitted (rec_timestamp r)" "unat (start_time txn) < 2 ^ 63" "rec_timestamp r \<noteq> finish_time txn"
    "snapshot (tbl_schema t) (start_time txn) rs (pax_row (tbl_schema t) (tbl_layout t) (page_data page) idx) = Some row"
  shows "\<exists>mv' page' c'. SelectIntoChunk fuel t txn mv idx i page c = Some (Inr (Deleted, mv', page', c')) \<and>
    chunk_row (schema_sz (tbl_schema t)) c' = row |` set (GetColumnIds c)"
proof -
  have "start_time txn < rec_timestamp r"
    using assms(4,5) by (simp add: IsCommitted_iff word_less_nat_alt)
  then have "snapshot (tbl_schema t) (start_time txn) (r # rs) (pax_row (tbl_schema t) (tbl_layout t) (page_data page) idx) = Some row"
    using assms(3,7) by (simp add: undo_row_def)
  then show ?thesis
    using SelectIntoChunk_cases [OF assms(1), of fuel txn] assms(2,3,6)
    by (auto simp: head_deleted_def undo_IsDeleted_def status_of_def)
qed

theorem Select_sees_uncommitted_delete_witness:
  "\<exists>mv' page' c'. SelectIntoChunk 2 demo_table demo_txn demo_mv9 3 \<lparr>tbl_id = 7, pid = 1\<rparr> demo_page demo_chunk =
     Some (Inr (Deleted, mv', page', c'))"
proof -
  have "\<not> IsCommitted (rec_timestamp other_record)"
    using unat_txn_stamp [of 9] by (simp add: IsCommitted_iff other_record_def InitializeDelete_def)
  moreover have "rec_timestamp other_record \<noteq> finish_time demo_txn"
    using txn_stamp_inj [of 9 5] by (simp add: other_record_def InitializeDelete_def demo_txn_def )
  ultimately show ?thesis
    using Select_sees_uncommitted_delete [OF demo_read9, of 2 demo_txn]
    by (auto simp: other_record_def InitializeDelete_def demo_txn_def )
qed

section \<open>Updating\<close>

text \<open>C13: An update that meets no conflict writes the columns of the chunk into the row, and every snapshot
that starts before the transaction's own stamp still reads the old row.\<close>

theorem update_isolated:
  assumes "update_ctx t txn mv tup page rs c" "i = \<lparr>tbl_id = tbl_oid t, pid = GetPageId tup\<rparr>"
    "rs \<noteq> [] \<longrightarrow> \<not> conflicting txn rs \<and> \<not> pax_IsDeleted (page_data page) (GetIndex tup)"
  shows "\<exists>txn' mv' page' r. UpdateUndo [] t txn mv tup page c = Inr (True, txn', mv', page') \<and>
    updated t (GetIndex tup) c (page_data page) (page_data page') \<and>
    chain (undo_heap (undo mv')) (row_head mv' i (GetIndex tup)) (r # rs) \<and>
    (\<forall>start < finish_time txn.
       snapshot (tbl_schema t) start (r # rs) (pax_row (tbl_schema t) (tbl_layout t) (page_data page') (GetIndex tup)) =
       snapshot (tbl_schema t) start rs (pax_row (tbl_schema t) (tbl_layout t) (page_data page) (GetIndex tup)))"
  using UpdateUndo_ok [OF assms] by fastforce

theorem update_isolated_witness:
  "\<exists>txn' mv' page'. UpdateUndo [] demo_table demo_txn demo_mv (TupleId_of 3 1) demo_page demo_chunk =
     Inr (True, txn', mv', page')"
  using update_isolated [OF demo_ctx refl] by auto


lemma demo_conflict9: "conflicting demo_txn [other_record]"
  using HasConflict_iff [of 5 "txn_stamp 9"] txn_stamp_inj [of 9 5] unat_txn_stamp [of 9]
  by (simp add: conflicting_def other_record_def InitializeDelete_def demo_txn_def  word_less_nat_alt)


text \<open>C20: The page is written before the version head is swapped. When the swap fails because a conflicting version
arrived in between, the retry reports failure, but the page keeps the new values and no version holds the old ones.\<close>

theorem update_retry_dirty_page:
  assumes ctx: "update_ctx t txn mv tup page rs c" and i: "i = \<lparr>tbl_id = tbl_oid t, pid = GetPageId tup\<rparr>"
    and go: "rs \<noteq> [] \<longrightarrow> \<not> conflicting txn rs \<and> \<not> pax_IsDeleted (page_data page) (GetIndex tup)"
    and h: "Some q \<noteq> row_head mv i (GetIndex tup)" "chain (undo_heap (undo mv)) (Some q) hs" "conflicting txn hs"
  shows "\<exists>txn' mv' page'. UpdateUndo [Some q] t txn mv tup page c = Inr (False, txn', mv', page') \<and>
    updated t (GetIndex tup) c (page_data page) (page_data page') \<and> row_head mv' i (GetIndex tup) = Some q \<and>
    chain (undo_heap (undo mv')) (Some q) hs"
proof -
  let ?idx = "GetIndex tup"
  obtain txn1 rp r d mv2 page2 where p: "start_time txn1 = start_time txn" "finish_time txn1 = finish_time txn"
    "undo_heap (undo mv) rp = None" "undo_heap (undo mv2) = (undo_heap (undo mv))(rp := Some r)"
    "rec_type r = UPDATE" "delta_of r = Some d"
    "chunk_ok (schema_sz (tbl_schema t)) d" "GetColumnIds d = GetColumnIds c"
    "page_data page2 = page_data page" "mv_ok t mv2 page2 i" "version_table mv2 i \<noteq> None"
    "row_head mv2 i ?idx = row_head mv i ?idx" "chain (undo_heap (undo mv2)) (row_head mv2 i ?idx) rs"
    "UpdateUndo [Some q] t txn mv tup page c =
      ebind (update_loop [Some q] t txn1 i ?idx c rp mv2 (page_data page)) (\<lambda>(valid, mv3, data').
        Inr (valid, txn1, mv3, page2\<lparr>page_data := data'\<rparr>))"
    using update_prepare [OF ctx i, of "[Some q]"] by blast
  have rc: "row_ctx (tbl_schema t) (tbl_layout t) ?idx" "update_chunk_ok (tbl_schema t) c"
    using ctx by (simp_all add: update_ctx_def)
  then have idx: "?idx < max_row_count (tbl_layout t)" by (simp add: row_ctx_def)
  have hr: "undo_heap (undo mv2) rp = Some r" by (simp add: p(4))
  have conf: "conflicting txn1 xs = conflicting txn xs" for xs using p(1,2) by (rule conflicting_cong)
  have go1: "rs \<noteq> [] \<longrightarrow> \<not> conflicting txn1 rs \<and> \<not> pax_IsDeleted (page_data page) ?idx" using go conf by simp
  obtain d' data' r' where it: "updated t ?idx c (page_data page) data'"
    "r' = r\<lparr>delta_of := Some d', rec_next := row_head mv2 i ?idx\<rparr>"
    "update_loop [Some q] t txn1 i ?idx c rp mv2 (page_data page) =
       update_loop [] t txn1 i ?idx c rp (version_store (mv_set_record mv2 rp r') i ?idx (Some q)) data'"
    using update_iteration [OF rc p(10,11) hr p(6,7,8,5,13) go1, of "[Some q]"] h(1) p(12) by (auto simp: Let_def)
  define mv3 where "mv3 = version_store (mv_set_record mv2 rp r') i ?idx (Some q)"
  have vs: "mv_ok t mv3 page2 i" "version_table mv3 i \<noteq> None" "row_head mv3 i ?idx = Some q"
    "undo mv3 = set_record (undo mv2) rp r'"
    using version_store_ok [where t = t and mv = "mv_set_record mv2 rp r'" and page = page2 and i = i and idx = ?idx and p = "Some q"]
      p(10,11) idx by (simp_all add: mv3_def)
  have ch: "chain (undo_heap (undo mv3)) (Some q) hs"
    by (rule chain_mono [OF h(2)]) (use p(3) in \<open>auto simp: vs(4) p(4)\<close>)
  have "update_loop [] t txn1 i ?idx c rp mv3 data' = Inr (False, mv_set_record mv3 rp (Invalidate r'), data')"
    using h(3) ch
    by (simp add: update_loop.simps [of "[]"] version_load_head [OF vs(1,2) idx] vs(3) HasConflict_head [OF ch] conf deref_def)
      (simp add: vs(4))
  moreover have "chain (undo_heap (undo (mv_set_record mv3 rp (Invalidate r')))) (Some q) hs"
    by (rule chain_mono [OF h(2)]) (use p(3) in \<open>auto simp: vs(4) p(4)\<close>)
  ultimately show ?thesis using p(14) it(1,3) vs(3) by (simp add: mv3_def)
qed

text \<open>Row 4 of the same page has no version yet; transaction 9 deletes it while transaction 5 updates it.\<close>

lemma demo_ctx4: "update_ctx demo_table demo_txn demo_mv9 (TupleId_of 4 1) demo_page [] demo_chunk"
  using demo_ctx9 demo_row_ctx [of 4]
  by (simp add: update_ctx_def TupleId_fields) (simp add: demo_mv9_def row_head_def demo_table_def)

theorem update_retry_dirty_page_witness:
  "\<exists>txn' mv' page'. UpdateUndo [Some (0, 0)] demo_table demo_txn demo_mv9 (TupleId_of 4 1) demo_page demo_chunk =
     Inr (False, txn', mv', page') \<and> updated demo_table 4 demo_chunk (page_data demo_page) (page_data page')"
proof -
  have "chain (undo_heap (undo demo_mv9)) (Some (0, 0)) [other_record]"
    by (simp add: demo_mv9_def other_record_def InitializeDelete_def)
  moreover have "Some (0, 0) \<noteq> row_head demo_mv9 \<lparr>tbl_id = tbl_oid demo_table, pid = GetPageId (TupleId_of 4 1)\<rparr> (GetIndex (TupleId_of 4 1))"
    by (simp add: demo_mv9_def row_head_def demo_table_def TupleId_fields)
  ultimately show ?thesis
    using update_retry_dirty_page [OF demo_ctx4 refl, of "(0, 0)" "[other_record]"] demo_conflict9 by (auto simp: TupleId_fields)
qed

section \<open>Committing\<close>

definition pad_zero :: "(undo_ptr \<Rightarrow> u32) \<Rightarrow> UndoStore \<Rightarrow> bool" where
  "pad_zero pad st \<longleftrightarrow> (\<forall>p r. undo_heap st p = Some r \<longrightarrow> delta_of r = None \<longrightarrow> pad p = 0)"


definition one_record :: UndoStore where
  "one_record = \<lparr>undo_heap = (\<lambda>_. None)((0, 0) := Some other_record), arenas = \<lambda>_. \<lparr>arena_data = \<lambda>_. 0, arena_size = 40\<rparr>,
     arena_pool = ObjectPool_new 10 5\<rparr>"


text \<open>The commit iterator reads the size of a record without delta out of memory that the record does not own:
when the word behind it is not zero, the iterator leaves the records and dereferences bytes that are none.\<close>

theorem commit_iterator_overruns:
  assumes "buffers (undo_buffer txn) = [seg]" "\<not> rollback txn" "undo_heap st (seg, 0) = Some r" "delta_of r = None"
    "arena_size (arenas st seg) = 40" "pad (seg, 0) \<noteq> 0" "unat (pad (seg, 0)) < 4294967256"
    "\<forall>o' > 0. undo_heap st (seg, o') = None"
  shows "Commit (Suc (Suc fuel)) pad clock st txn = Some (Inl OutOfRange)"
proof -
  let ?n = "0 + (UNDO_RECORD_SIZE + delta_size pad (seg, 0) r)"
  have d: "delta_size pad (seg, 0) r = pad (seg, 0)" using assms(4) by (simp add: delta_size_def)
  have u: "unat (40 + pad (seg, 0)) = 40 + unat (pad (seg, 0))"
    using assms(7) by (simp add: unat_word_ariths)
  have "0 < unat (pad (seg, 0))" using assms(6) by (simp add: unat_gt_0)
  then have ne: "40 + pad (seg, 0) \<noteq> 40" and pos: "0 < unat (40 + pad (seg, 0))"
    using u by (auto simp del: of_nat_unat)
  show ?thesis
    using assms ne pos u
    by (simp add: Commit_def RestampVersions_def CheckOutTimestamp_def undo_iter_next_def d UNDO_RECORD_SIZE_def)
qed

theorem commit_iterator_overruns_witness:
  "Commit (Suc (Suc 0)) (\<lambda>_. 8) 12 one_record (demo_txn\<lparr>undo_buffer := \<lparr>buffers = [0], last_record = None\<rparr>\<rparr>) = Some (Inl OutOfRange)"
  using commit_iterator_overruns [of "demo_txn\<lparr>undo_buffer := \<lparr>buffers = [0], last_record = None\<rparr>\<rparr>" 0 one_record
      other_record "\<lambda>_. 8" 0 12]
  by (simp add: one_record_def demo_txn_def  other_record_def InitializeDelete_def)



section \<open>Deleting and inserting\<close>

lemma UndoRecordForDelete_ok:
  assumes "store_ok st (undo_buffer txn)" "arena_free st"
  shows "\<exists>st1 txn1 p r. UndoRecordForDelete st txn tbl pg i = Inr (st1, txn1, p) \<and>
    start_time txn1 = start_time txn \<and> finish_time txn1 = finish_time txn \<and>
    undo_heap st p = None \<and> undo_heap st1 = (undo_heap st)(p := Some r) \<and> store_ok st1 (undo_buffer txn1) \<and>
    rec_type r = DELETE \<and> rec_timestamp r = finish_time txn \<and> delta_of r = None"
proof -
  have sz: "unat UNDO_RECORD_SIZE = 40" by (simp add: UNDO_RECORD_SIZE_def)
  have "rec_size (InitializeDelete (finish_time txn) tbl pg i) = unat UNDO_RECORD_SIZE"
    unfolding sz by (simp add: rec_size_def InitializeDelete_def)
  from new_undo_ok [where mk = "\<lambda>p st1. InitializeDelete (finish_time txn) tbl pg i", OF assms _ _ _ this]
  show ?thesis by (fastforce simp: UndoRecordForDelete_def sz InitializeDelete_def)
qed

definition no_page :: TablePage where
  "no_page = \<lparr>page_data = (\<lambda>_. 0), page_versions = None\<rparr>"

lemma DeleteUndoRaw_ok:
  assumes st: "store_ok (undo mv) (undo_buffer txn)" "arena_free (undo mv)"
    and len: "\<forall>vs. version_table mv i = Some vs \<longrightarrow> length vs = unat (max_row_count (tbl_layout t))"
    and idx: "GetIndex tup < max_row_count (tbl_layout t)"
    and ch: "chain (undo_heap (undo mv)) (row_head mv i (GetIndex tup)) rs"
    and i: "i = \<lparr>tbl_id = tbl_oid t, pid = GetPageId tup\<rparr>"
    and go: "rs \<noteq> [] \<longrightarrow> \<not> conflicting txn rs \<and> \<not> undo_IsDeleted (hd rs)"
  shows "\<exists>txn' mv' r. DeleteUndoRaw [] t txn mv tup = Inr (True, txn', mv') \<and> rec_type r = DELETE \<and>
    rec_timestamp r = finish_time txn \<and> chain (undo_heap (undo mv')) (row_head mv' i (GetIndex tup)) (r # rs) \<and>
    version_load mv' i (GetIndex tup) = Inr (row_head mv' i (GetIndex tup))"
proof -
  let ?idx = "GetIndex tup" and ?n = "max_row_count (tbl_layout t)"
  obtain st1 txn1 rp r where u: "UndoRecordForDelete (undo mv) txn (tbl_oid t) (GetPageId tup) ?idx = Inr (st1, txn1, rp)"
    "start_time txn1 = start_time txn" "finish_time txn1 = finish_time txn"
    "undo_heap (undo mv) rp = None" "undo_heap st1 = (undo_heap (undo mv))(rp := Some r)"
    "rec_type r = DELETE" "rec_timestamp r = finish_time txn"
    using UndoRecordForDelete_ok [OF st, of "tbl_oid t" "GetPageId tup" ?idx] by blast
  have len1: "\<forall>vs. version_table (mv\<lparr>undo := st1\<rparr>) i = Some vs \<longrightarrow> length vs = unat ?n" using len by simp
  obtain mv2 where g0: "GetCreateVersions (mv\<lparr>undo := st1\<rparr>) i ?n = (mv2, i) \<and> undo mv2 = undo (mv\<lparr>undo := st1\<rparr>) \<and>
    (\<exists>vs. version_table mv2 i = Some vs \<and> length vs = unat ?n) \<and>
    (\<forall>idx < ?n. row_head mv2 i idx = row_head (mv\<lparr>undo := st1\<rparr>) i idx)"
    using GetCreateVersions_ok [OF len1] by blast
  then have g: "GetCreateVersions (mv\<lparr>undo := st1\<rparr>) i ?n = (mv2, i)" "undo mv2 = st1" "version_table mv2 i \<noteq> None"
    "mv_ok t mv2 no_page i" "row_head mv2 i ?idx = row_head mv i ?idx"
    using idx by (auto simp: mv_ok_def row_head_def no_page_def)
  have ch2: "chain (undo_heap (undo mv2)) (row_head mv i ?idx) rs"
    by (rule chain_mono [OF ch]) (use u(4) in \<open>auto simp: g(2) u(5)\<close>)
  define r' where "r' = r\<lparr>rec_next := row_head mv i ?idx\<rparr>"
  define mv' where "mv' = version_store (mv_set_record mv2 rp r') i ?idx (Some rp)"
  have vs: "row_head mv' i ?idx = Some rp" "undo mv' = set_record (undo mv2) rp r'" "version_load mv' i ?idx = Inr (Some rp)"
    using version_store_ok [where t = t and mv = "mv_set_record mv2 rp r'" and page = no_page and i = i
        and idx = ?idx and p = "Some rp"] version_load_head [where t = t and mv = mv' and page = no_page and i = i and idx = ?idx]
      g(3,4) idx by (simp_all add: mv'_def)
  have conf: "conflicting txn1 rs = conflicting txn rs" using u(2,3) by (rule conflicting_cong)
  have load: "version_load mv2 i ?idx = Inr (row_head mv i ?idx)"
    using version_load_head [OF g(4,3) idx] g(5) by simp
  have del: "DeleteUndoRaw [] t txn mv tup = Inr (True, txn1, mv')"
  proof (cases rs)
    case Nil
    with ch have h: "row_head mv i ?idx = None" by simp
    then show ?thesis
      using load by (simp add: DeleteUndoRaw_def u(1) i [symmetric] g(1) Let_def delete_loop.simps [of "[]"] deref_def
          g(2) u(5) mv'_def r'_def)
  next
    case (Cons r0 rs')
    with ch2 obtain q where q: "row_head mv i ?idx = Some q" "undo_heap (undo mv2) q = Some r0" by auto
    have "HasConflict mv2 txn1 (Some q) = Inr (conflicting txn1 rs)" using HasConflict_head [OF ch2] q(1) by simp
    then show ?thesis
      using load go Cons q conf by (simp add: DeleteUndoRaw_def u(1) i [symmetric] g(1) Let_def delete_loop.simps [of "[]"] deref_def
          mv'_def r'_def g(2) u(5))
  qed
  have "chain (undo_heap (undo mv')) (row_head mv i ?idx) rs"
    by (rule chain_mono [OF ch]) (use u(4) in \<open>auto simp: vs(2) g(2) u(5)\<close>)
  then have "chain (undo_heap (undo mv')) (row_head mv' i ?idx) (r' # rs)" by (simp add: vs) (simp add: r'_def)
  with del u(6,7) vs(1,3) show ?thesis by (intro exI [of _ txn1] exI [of _ mv'] exI [of _ r']) (simp add: r'_def)
qed

text \<open>C17: Deleting through the version table alone succeeds without conflict, marks the newest version as deleted, and
leaves the page and the rows of older snapshots alone.\<close>

theorem DeleteUndoRaw_isolated:
  assumes ctx: "update_ctx t txn mv tup page rs c" and i: "i = \<lparr>tbl_id = tbl_oid t, pid = GetPageId tup\<rparr>"
    and go: "rs \<noteq> [] \<longrightarrow> \<not> conflicting txn rs \<and> \<not> undo_IsDeleted (hd rs)"
  shows "\<exists>txn' mv' r. DeleteUndoRaw [] t txn mv tup = Inr (True, txn', mv') \<and> undo_IsDeleted r \<and>
    rec_timestamp r = finish_time txn \<and> chain (undo_heap (undo mv')) (row_head mv' i (GetIndex tup)) (r # rs) \<and>
    (\<forall>start < finish_time txn. \<forall>row. snapshot (tbl_schema t) start (r # rs) row = snapshot (tbl_schema t) start rs row)"
proof -
  have c: "store_ok (undo mv) (undo_buffer txn)" "arena_free (undo mv)"
    "\<forall>vs. version_table mv i = Some vs \<longrightarrow> length vs = unat (max_row_count (tbl_layout t))"
    "GetIndex tup < max_row_count (tbl_layout t)" "chain (undo_heap (undo mv)) (row_head mv i (GetIndex tup)) rs"
    using ctx by (auto simp: update_ctx_def row_ctx_def mv_ok_def i)
  from DeleteUndoRaw_ok [OF c i go] obtain txn' mv' r where
    "DeleteUndoRaw [] t txn mv tup = Inr (True, txn', mv')" "rec_type r = DELETE" "rec_timestamp r = finish_time txn"
    "chain (undo_heap (undo mv')) (row_head mv' i (GetIndex tup)) (r # rs)" by blast
  then show ?thesis by (intro exI [of _ txn'] exI [of _ mv'] exI [of _ r]) (simp add: undo_IsDeleted_def undo_row_def)
qed

theorem DeleteUndoRaw_isolated_witness:
  "\<exists>txn' mv'. DeleteUndoRaw [] demo_table demo_txn demo_mv (TupleId_of 3 1) = Inr (True, txn', mv')"
  using DeleteUndoRaw_isolated [OF demo_ctx refl] by auto

end
