(* ===== verification/TxnProtocol.thy ===== *)
theory TxnProtocol
  imports Undo
begin

text \<open>
  How transactions begin and commit next to each other: \<^verbatim>\<open>transaction/transaction_manager.cpp\<close> with the counter latch of
  \<^verbatim>\<open>shared/locks/adaptive_spin_lock.hpp\<close> and the clock of \<^verbatim>\<open>timestamp_manager.hpp\<close>.

  The system is stepped by events, one for each access to shared state: taking a timestamp, one look at the latch, writing
  a version, entering the latch, stamping one version, leaving the latch. A run is a list of events, so every
  interleaving of the threads is a run. Versions are named by numbers; \<open>stamp_of\<close> holds their timestamps.
\<close>

section \<open>The latch\<close>

record AdaptiveSpinLock =
  spin_counter :: u64

definition spin_Lock :: "AdaptiveSpinLock \<Rightarrow> AdaptiveSpinLock" where
  "spin_Lock l = l\<lparr>spin_counter := spin_counter l + 1\<rparr>"

definition spin_Unlock :: "AdaptiveSpinLock \<Rightarrow> AdaptiveSpinLock" where
  "spin_Unlock l = l\<lparr>spin_counter := spin_counter l - 1\<rparr>"

text \<open>One turn of the loop of \<^verbatim>\<open>Try\<close>: may it leave?\<close>

definition spin_Try :: "AdaptiveSpinLock \<Rightarrow> bool" where
  "spin_Try l \<longleftrightarrow> \<not> spin_counter l > 0"

section \<open>Begin and commit\<close>

datatype phase = Idle | Waiting timestamp_t | Running timestamp_t | Locked timestamp_t | Restamping timestamp_t timestamp_t

record TransactionManager =
  time :: timestamp_t
  commit_latch :: AdaptiveSpinLock
  phase_of :: "u32 \<Rightarrow> phase"
  records_of :: "u32 \<Rightarrow> nat list"
  stamp_of :: "nat \<Rightarrow> timestamp_t option"

datatype event = E_Begin u32 | E_Try u32 | E_Write u32 nat | E_Lock u32 | E_CheckOut u32 | E_Restamp u32 | E_Unlock u32

definition set_phase :: "TransactionManager \<Rightarrow> u32 \<Rightarrow> phase \<Rightarrow> TransactionManager" where
  "set_phase m i p = m\<lparr>phase_of := (phase_of m)(i := p)\<rparr>"

text \<open>\<open>None\<close> is an event that the code of the thread does not reach now. A write makes a new version; it is \<open>TxnUtil_HasConflict\<close>
  that keeps transactions from the versions of each other.\<close>

fun tm_step :: "event \<Rightarrow> TransactionManager \<Rightarrow> TransactionManager option" where
  "tm_step (E_Begin i) m =
     (case phase_of m i of
        Idle \<Rightarrow> let (s, time') = CheckOutTimestamp (time m) in Some (set_phase (m\<lparr>time := time'\<rparr>) i (Waiting s))
      | _ \<Rightarrow> None)"
| "tm_step (E_Try i) m =
     (case phase_of m i of
        Waiting s \<Rightarrow> Some (if spin_Try (commit_latch m) then set_phase m i (Running s) else m)
      | _ \<Rightarrow> None)"
| "tm_step (E_Write i v) m =
     (case (phase_of m i, stamp_of m v) of
        (Running s, None) \<Rightarrow>
          Some (m\<lparr>stamp_of := (stamp_of m)(v \<mapsto> txn_stamp s), records_of := (records_of m)(i := records_of m i @ [v])\<rparr>)
      | _ \<Rightarrow> None)"
| "tm_step (E_Lock i) m =
     (case phase_of m i of
        Running s \<Rightarrow> Some (set_phase (m\<lparr>commit_latch := spin_Lock (commit_latch m)\<rparr>) i (Locked s))
      | _ \<Rightarrow> None)"
| "tm_step (E_CheckOut i) m =
     (case phase_of m i of
        Locked s \<Rightarrow> let (t, time') = CheckOutTimestamp (time m) in Some (set_phase (m\<lparr>time := time'\<rparr>) i (Restamping s t))
      | _ \<Rightarrow> None)"
| "tm_step (E_Restamp i) m =
     (case (phase_of m i, records_of m i) of
        (Restamping s t, v # vs) \<Rightarrow> Some (m\<lparr>stamp_of := (stamp_of m)(v \<mapsto> t), records_of := (records_of m)(i := vs)\<rparr>)
      | _ \<Rightarrow> None)"
| "tm_step (E_Unlock i) m =
     (case (phase_of m i, records_of m i) of
        (Restamping s t, []) \<Rightarrow> Some (set_phase (m\<lparr>commit_latch := spin_Unlock (commit_latch m)\<rparr>) i Idle)
      | _ \<Rightarrow> None)"

fun tm_run :: "event list \<Rightarrow> TransactionManager \<Rightarrow> TransactionManager option" where
  "tm_run [] m = Some m"
| "tm_run (e # es) m = (case tm_step e m of None \<Rightarrow> None | Some m' \<Rightarrow> tm_run es m')"

definition tm_init :: TransactionManager where
  "tm_init = \<lparr>time = 0, commit_latch = \<lparr>spin_counter = 0\<rparr>, phase_of = (\<lambda>_. Idle), records_of = (\<lambda>_. []), stamp_of = Map.empty\<rparr>"

text \<open>The test of the version walk of a reader: a version is in the snapshot unless it is newer than its start.\<close>

definition in_snapshot :: "TransactionManager \<Rightarrow> timestamp_t \<Rightarrow> nat \<Rightarrow> bool" where
  "in_snapshot m s v = (case stamp_of m v of None \<Rightarrow> False | Some t \<Rightarrow> \<not> IsNewerThan t s)"

lemma tm_run_append: "tm_run (es @ es') m = (case tm_run es m of None \<Rightarrow> None | Some m' \<Rightarrow> tm_run es' m')"
  by (induction es arbitrary: m) (simp_all split: option.split)

section \<open>The latch counts the committing threads\<close>

fun holds :: "phase \<Rightarrow> bool" where
  "holds (Locked _) = True"
| "holds (Restamping _ _) = True"
| "holds _ = False"

definition holders :: "TransactionManager \<Rightarrow> u32 set" where
  "holders m = {i. holds (phase_of m i)}"

definition latch_ok :: "TransactionManager \<Rightarrow> bool" where
  "latch_ok m \<longleftrightarrow> unat (spin_counter (commit_latch m)) = card (holders m)"

lemma card_threads: "card (A :: u32 set) \<le> 2 ^ 32"
  using card_mono [of "UNIV :: u32 set" A] by (simp add: card_word)

lemma holders_set_phase:
  "holders (set_phase m i p) = (if holds p then insert i (holders m) else holders m - {i})"
  by (auto simp: holders_def set_phase_def)

lemma holders_other [simp]:
  "holders (m\<lparr>time := t\<rparr>) = holders m" "holders (m\<lparr>commit_latch := l\<rparr>) = holders m"
  "holders (m\<lparr>stamp_of := f, records_of := g\<rparr>) = holders m"
  by (simp_all add: holders_def)

lemma holder_iff: "i \<in> holders m \<longleftrightarrow> holds (phase_of m i)"
  by (simp add: holders_def)

lemma set_phase_latch [simp]:
  "commit_latch (set_phase m i p) = commit_latch m" "time (set_phase m i p) = time m"
  "stamp_of (set_phase m i p) = stamp_of m" "records_of (set_phase m i p) = records_of m"
  "phase_of (set_phase m i p) = (phase_of m)(i := p)"
  by (simp_all add: set_phase_def)

lemma latch_enter:
  assumes "latch_ok m" "i \<notin> holders m"
  shows "unat (spin_counter (commit_latch m) + 1) = card (insert i (holders m))"
proof -
  have "card (insert i (holders m)) = card (holders m) + 1" using assms(2) by simp
  moreover have "card (insert i (holders m)) \<le> 2 ^ 32" by (rule card_threads)
  ultimately show ?thesis using assms(1) by (simp add: latch_ok_def unat_word_ariths)
qed

lemma latch_leave:
  assumes "latch_ok m" "i \<in> holders m"
  shows "unat (spin_counter (commit_latch m) - 1) = card (holders m - {i})"
proof -
  have "card (holders m) > 0" using assms(2) by (auto simp: card_gt_0_iff)
  moreover have "1 \<le> spin_counter (commit_latch m)"
    using assms(1) calculation by (simp add: latch_ok_def word_le_nat_alt)
  ultimately show ?thesis using assms by (simp add: latch_ok_def unat_sub)
qed

lemma tm_step_latch:
  assumes st: "tm_step e m = Some m'" and ok: "latch_ok m"
  shows "latch_ok m'"
proof (cases "(\<exists>i. e = E_Lock i) \<or> (\<exists>i. e = E_Unlock i)")
  case False
  then have "commit_latch m' = commit_latch m \<and> holders m' = holders m" using st
    by (cases e) (auto simp: holders_set_phase holder_iff CheckOutTimestamp_def split: phase.splits option.splits list.splits if_splits)
  then show ?thesis using ok by (simp add: latch_ok_def)
next
  case True
  then show ?thesis
  proof (elim disjE exE)
    fix i assume e: "e = E_Lock i"
    with st obtain s where "phase_of m i = Running s"
      and m': "m' = set_phase (m\<lparr>commit_latch := spin_Lock (commit_latch m)\<rparr>) i (Locked s)"
      by (auto split: phase.splits)
    then have "i \<notin> holders m" by (simp add: holder_iff)
    from latch_enter [OF ok this] show ?thesis unfolding latch_ok_def m' by (simp add: holders_set_phase spin_Lock_def)
  next
    fix i assume e: "e = E_Unlock i"
    with st obtain s t where "phase_of m i = Restamping s t"
      and m': "m' = set_phase (m\<lparr>commit_latch := spin_Unlock (commit_latch m)\<rparr>) i Idle"
      by (auto split: phase.splits list.splits)
    then have "i \<in> holders m" by (simp add: holder_iff)
    from latch_leave [OF ok this] show ?thesis unfolding latch_ok_def m' by (simp add: holders_set_phase spin_Unlock_def)
  qed
qed

lemma spin_Try_free: "latch_ok m \<Longrightarrow> spin_Try (commit_latch m) \<longleftrightarrow> holders m = {}"
  by (simp add: latch_ok_def spin_Try_def word_less_nat_alt card_eq_0_iff)

section \<open>Snapshots\<close>

text \<open>A start is settled when every commit with an earlier stamp has been stamped through: the stamps still being
  written are later ones.\<close>

definition settled :: "TransactionManager \<Rightarrow> timestamp_t \<Rightarrow> bool" where
  "settled m s \<longleftrightarrow> unat s < unat (time m) \<and> (\<forall>j s' t. phase_of m j = Restamping s' t \<longrightarrow> unat s < unat t)"

fun runs_from :: "phase \<Rightarrow> timestamp_t option" where
  "runs_from (Running s) = Some s"
| "runs_from (Locked s) = Some s"
| "runs_from (Restamping s _) = Some s"
| "runs_from _ = None"

definition phases_ok :: "TransactionManager \<Rightarrow> bool" where
  "phases_ok m \<longleftrightarrow> (\<forall>i s. phase_of m i = Waiting s \<longrightarrow> unat s < unat (time m)) \<and>
     (\<forall>i s. runs_from (phase_of m i) = Some s \<longrightarrow> settled m s)"

definition unfinished_stamp :: "TransactionManager \<Rightarrow> nat \<Rightarrow> bool" where
  "unfinished_stamp m v \<longleftrightarrow> (\<exists>s. stamp_of m v = Some (txn_stamp s) \<and> unat s < 2 ^ 63)"

definition records_ok :: "TransactionManager \<Rightarrow> bool" where
  "records_ok m \<longleftrightarrow> (\<forall>i. distinct (records_of m i)) \<and> (\<forall>i j v. v \<in> set (records_of m i) \<longrightarrow> v \<in> set (records_of m j) \<longrightarrow> i = j) \<and>
     (\<forall>i v. v \<in> set (records_of m i) \<longrightarrow> unfinished_stamp m v)"

definition tm_ok :: "TransactionManager \<Rightarrow> bool" where
  "tm_ok m \<longleftrightarrow> latch_ok m \<and> phases_ok m \<and> records_ok m"

lemma tick: "unat (x :: u64) + 1 < 2 ^ 63 \<Longrightarrow> unat (x + 1) = unat x + 1"
  by (simp add: unat_word_ariths)

lemma settled_step:
  assumes "settled m s" "tm_step e m = Some m'" "unat (time m) + 1 < 2 ^ 63"
  shows "settled m' s"
  using assms(1,2) tick [OF assms(3)]
  by (cases e) (auto simp: settled_def CheckOutTimestamp_def split: phase.splits option.splits list.splits if_splits)

lemma phases_step:
  assumes "latch_ok m" "phases_ok m" "tm_step e m = Some m'" "unat (time m) + 1 < 2 ^ 63"
  shows "phases_ok m'"
proof -
  have old: "settled m' s" if "settled m s" for s using settled_step [OF that assms(3,4)] .
  have fresh: "settled m s" if "holders m = {}" "unat s < unat (time m)" for s
    using that by (metis empty_iff holder_iff holds.simps(2) settled_def)
  have running: "phase_of m i = Running s \<Longrightarrow> settled m s" "phase_of m i = Locked s \<Longrightarrow> settled m s" for i s
    using assms(2) by (metis phases_ok_def runs_from.simps(1), metis phases_ok_def runs_from.simps(2))
  have "unat s < unat (time m')" if "phase_of m' i = Waiting s" for i s
    using that assms(2,3) tick [OF assms(4)]
    by (cases e) (auto simp: phases_ok_def CheckOutTimestamp_def less_Suc_eq split: phase.splits option.splits list.splits if_splits)
  moreover have "settled m s" if "runs_from (phase_of m' i) = Some s" for i s
    using that assms(2,3) spin_Try_free [OF assms(1)] fresh running
    by (cases e) (auto simp: phases_ok_def CheckOutTimestamp_def split: phase.splits option.splits list.splits if_splits)
  ultimately show ?thesis using old by (simp add: phases_ok_def)
qed

lemma records_unfinished: "records_ok m \<Longrightarrow> v \<in> set (records_of m i) \<Longrightarrow> unfinished_stamp m v"
  by (simp add: records_ok_def)

lemma running_start: "phases_ok m \<Longrightarrow> phase_of m i = Running s \<Longrightarrow> unat (time m) < 2 ^ 63 \<Longrightarrow> unat s < 2 ^ 63"
  by (metis less_trans phases_ok_def runs_from.simps(1) settled_def)

lemma records_step:
  assumes "records_ok m" "phases_ok m" "tm_step e m = Some m'" "unat (time m) < 2 ^ 63"
  shows "records_ok m'"
proof -
  have new: "v \<notin> set (records_of m i)" if "stamp_of m v = None" for i v
    using that assms(1) by (metis option.distinct(1) records_ok_def unfinished_stamp_def)
  show ?thesis
  proof (cases e)
    case (E_Write i v)
    with assms(3) obtain s where s: "phase_of m i = Running s" "stamp_of m v = None"
      "m' = m\<lparr>stamp_of := (stamp_of m)(v \<mapsto> txn_stamp s), records_of := (records_of m)(i := records_of m i @ [v])\<rparr>"
      by (auto split: phase.splits option.splits)
    then have "unat s < 2 ^ 63" using running_start assms(2,4) by blast
    then show ?thesis using s assms(1) new by (auto simp: records_ok_def unfinished_stamp_def)
  next
    case (E_Restamp i)
    with assms(3) obtain s t v vs where s: "phase_of m i = Restamping s t" "records_of m i = v # vs"
      "m' = m\<lparr>stamp_of := (stamp_of m)(v \<mapsto> t), records_of := (records_of m)(i := vs)\<rparr>"
      by (auto split: phase.splits list.splits)
    have dist: "distinct (v # vs)" using s(2) assms(1) by (metis records_ok_def)
    have own: "j = i" if "v \<in> set (records_of m j)" for j
      using that s(2) assms(1) by (metis records_ok_def list.set_intros(1))
    have sub: "w \<in> set (records_of m j) \<and> w \<noteq> v" if "w \<in> set (records_of m' j)" for j w
      using that s dist own by (auto split: if_splits)
    have "unfinished_stamp m' w" if "w \<in> set (records_of m' j)" for j w
      using records_unfinished [OF assms(1), of w j] sub [OF that] s(3) by (simp add: unfinished_stamp_def)
    moreover have "distinct (records_of m' j)" for j using dist s(3) assms(1) by (simp add: records_ok_def)
    moreover have "j = k" if "w \<in> set (records_of m' j)" "w \<in> set (records_of m' k)" for j k w
      using sub [OF that(1)] sub [OF that(2)] assms(1) by (metis records_ok_def)
    ultimately show ?thesis unfolding records_ok_def by blast
  qed (use assms in \<open>auto simp: records_ok_def unfinished_stamp_def CheckOutTimestamp_def
        split: phase.splits list.splits if_splits\<close>)
qed

lemma snapshot_step:
  assumes "records_ok m" "phases_ok m" "settled m s" "tm_step e m = Some m'" "unat (time m) < 2 ^ 63"
  shows "in_snapshot m' s v = in_snapshot m s v"
proof (cases "stamp_of m' v = stamp_of m v")
  case False
  have young: "IsNewerThan (txn_stamp s') s" if "unat s' < 2 ^ 63" for s'
    using that assms(3,5) by (simp add: IsNewerThan_def word_less_nat_alt unat_txn_stamp settled_def)
  from False show ?thesis
  proof (cases e)
    case (E_Write i w)
    with assms(4) False obtain s' where s': "phase_of m i = Running s'" "stamp_of m v = None" "stamp_of m' v = Some (txn_stamp s')"
      by (auto split: phase.splits option.splits if_splits)
    then have "unat s' < 2 ^ 63" using running_start assms(2,5) by blast
    then show ?thesis using s' young by (simp add: in_snapshot_def)
  next
    case (E_Restamp i)
    with assms(4) False obtain s' t vs where s': "phase_of m i = Restamping s' t" "records_of m i = v # vs" "stamp_of m' v = Some t"
      by (auto split: phase.splits list.splits if_splits)
    then have "unfinished_stamp m v" using records_unfinished [OF assms(1), of v i] by simp
    then show ?thesis using s' young assms(3) by (auto simp: in_snapshot_def unfinished_stamp_def settled_def IsNewerThan_def word_less_nat_alt)
  qed (use assms(4) in \<open>auto simp: CheckOutTimestamp_def split: phase.splits list.splits if_splits\<close>)
qed (simp add: in_snapshot_def)

section \<open>Runs\<close>

lemma tm_init_ok: "tm_ok tm_init"
  by (simp add: tm_ok_def latch_ok_def phases_ok_def records_ok_def tm_init_def holders_def)

lemma tm_step_time: "tm_step e m = Some m' \<Longrightarrow> unat (time m') \<le> unat (time m) + 1"
  using unat_plus_if' [of "time m" 1]
  by (cases e) (auto simp: CheckOutTimestamp_def split: phase.splits option.splits list.splits if_splits)

lemma tm_step_ok: "tm_step e m = Some m' \<Longrightarrow> tm_ok m \<Longrightarrow> unat (time m) + 1 < 2 ^ 63 \<Longrightarrow> tm_ok m'"
  using tm_step_latch [of e m m'] phases_step [of m e m'] records_step [of m e m'] by (simp add: tm_ok_def)

lemma tm_run_ok:
  "tm_run es m = Some m' \<Longrightarrow> tm_ok m \<Longrightarrow> unat (time m) + length es < 2 ^ 63 \<Longrightarrow>
     tm_ok m' \<and> unat (time m') \<le> unat (time m) + length es"
proof (induction es arbitrary: m)
  case (Cons e es)
  then obtain m1 where m1: "tm_step e m = Some m1" "tm_run es m1 = Some m'" by (auto split: option.splits)
  from tm_step_ok [OF m1(1)] tm_step_time [OF m1(1)] Cons.IH [OF m1(2)] Cons.prems(2,3) show ?case by simp
qed simp

lemma tm_run_snapshot:
  "tm_run es m = Some m' \<Longrightarrow> tm_ok m \<Longrightarrow> settled m s \<Longrightarrow> unat (time m) + length es < 2 ^ 63 \<Longrightarrow>
     settled m' s \<and> in_snapshot m' s v = in_snapshot m s v"
proof (induction es arbitrary: m)
  case (Cons e es)
  then obtain m1 where m1: "tm_step e m = Some m1" "tm_run es m1 = Some m'" by (auto split: option.splits)
  have "in_snapshot m1 s v = in_snapshot m s v"
    using snapshot_step [OF _ _ Cons.prems(3) m1(1)] Cons.prems(2,4) by (simp add: tm_ok_def)
  with tm_step_ok [OF m1(1)] tm_step_time [OF m1(1)] settled_step [OF Cons.prems(3) m1(1)] Cons.IH [OF m1(2)] Cons.prems(2,4)
  show ?case by simp
qed simp

lemma tm_run_latch: "tm_run es m = Some m' \<Longrightarrow> latch_ok m \<Longrightarrow> latch_ok m'"
  by (induction es arbitrary: m) (auto split: option.splits dest: tm_step_latch)

text \<open>C18: A transaction keeps the snapshot it began with. Once a transaction with start \<open>s\<close> has passed the latch, the set
  of versions that its reads take for old enough never changes again, whatever transactions begin, write and commit
  in any interleaving; and no commit that is still stamping its versions has a stamp before \<open>s\<close>. (Fewer than
  \<open>2 ^ 63\<close> events, so that stamps stay apart from the stamps of unfinished transactions.)\<close>

theorem snapshot_stable:
  assumes "tm_run es tm_init = Some m" "tm_run es' m = Some m'" "length es + length es' < 2 ^ 63" "phase_of m i = Running s"
  shows "in_snapshot m' s v = in_snapshot m s v \<and> (\<forall>j s' t. phase_of m' j = Restamping s' t \<longrightarrow> unat s < unat t)"
proof -
  from tm_run_ok [OF assms(1) tm_init_ok] assms(3) have ok: "tm_ok m" "unat (time m) \<le> length es"
    by (simp_all add: tm_init_def)
  then have "settled m s" using assms(4) by (metis phases_ok_def runs_from.simps(1) tm_ok_def)
  from tm_run_snapshot [OF assms(2) ok(1) this] ok(2) assms(3) show ?thesis by (simp add: settled_def)
qed

theorem snapshot_stable_witness:
  "\<exists>m m'. tm_run [E_Begin 0, E_Try 0, E_Write 0 7, E_Begin 1, E_Try 1] tm_init = Some m \<and>
     tm_run [E_Lock 0, E_CheckOut 0, E_Restamp 0, E_Unlock 0] m = Some m' \<and>
     stamp_of m' 7 = Some 2 \<and> in_snapshot m' 1 7 = in_snapshot m 1 7"
proof -
  obtain m where m: "tm_run [E_Begin 0, E_Try 0, E_Write 0 7, E_Begin 1, E_Try 1] tm_init = Some m" "phase_of m 1 = Running 1"
      "phase_of m 0 = Running 0" "records_of m 0 = [7]" "time m = 2" "spin_counter (commit_latch m) = 0"
    by (simp add: tm_init_def CheckOutTimestamp_def spin_Try_def)
  obtain m' where m': "tm_run [E_Lock 0, E_CheckOut 0, E_Restamp 0, E_Unlock 0] m = Some m'" "stamp_of m' 7 = Some 2"
    using m(2-6) by (simp add: CheckOutTimestamp_def)
  from snapshot_stable [OF m(1) m'(1) _ m(2), of 7] have "in_snapshot m' 1 7 = in_snapshot m 1 7" by simp
  with m(1) m' show ?thesis by blast
qed

section \<open>Waiting ends\<close>

text \<open>The events of a commit that has entered the latch.\<close>

fun commit_event :: "event \<Rightarrow> bool" where
  "commit_event (E_CheckOut _) = True"
| "commit_event (E_Restamp _) = True"
| "commit_event (E_Unlock _) = True"
| "commit_event _ = False"

lemma restamping_leaves:
  "phase_of m j = Restamping s t \<Longrightarrow>
     \<exists>es m'. tm_run es m = Some m' \<and> list_all commit_event es \<and> phase_of m' = (phase_of m)(j := Idle)"
proof (induction "records_of m j" arbitrary: m)
  case Nil
  then have "tm_run [E_Unlock j] m = Some (set_phase (m\<lparr>commit_latch := spin_Unlock (commit_latch m)\<rparr>) j Idle)"
    by (simp split: list.split)
  then show ?case by (intro exI [of _ "[E_Unlock j]"] exI conjI) (assumption, simp_all)
next
  case (Cons v vs)
  let ?m = "m\<lparr>stamp_of := (stamp_of m)(v \<mapsto> t), records_of := (records_of m)(j := vs)\<rparr>"
  obtain es m' where "tm_run es ?m = Some m'" "list_all commit_event es" "phase_of m' = (phase_of ?m)(j := Idle)"
    using Cons.hyps(1) [of ?m] Cons.prems by auto
  moreover have "tm_step (E_Restamp j) m = Some ?m" using Cons.hyps(2) [symmetric] Cons.prems by simp
  ultimately have "tm_run (E_Restamp j # es) m = Some m'" "list_all commit_event (E_Restamp j # es)"
      "phase_of m' = (phase_of m)(j := Idle)" by simp_all
  then show ?case by blast
qed

lemma holder_leaves:
  assumes "j \<in> holders m"
  shows "\<exists>es m'. tm_run es m = Some m' \<and> list_all commit_event es \<and> phase_of m' = (phase_of m)(j := Idle)"
proof (cases "phase_of m j")
  case (Locked s)
  let ?m = "set_phase (m\<lparr>time := time m + 1\<rparr>) j (Restamping s (time m))"
  obtain es m' where "tm_run es ?m = Some m'" "list_all commit_event es" "phase_of m' = (phase_of ?m)(j := Idle)"
    using restamping_leaves [of ?m j s "time m"] by auto
  then have "tm_run (E_CheckOut j # es) m = Some m'" "list_all commit_event (E_CheckOut j # es)" "phase_of m' = (phase_of m)(j := Idle)"
    using Locked by (simp_all add: CheckOutTimestamp_def)
  then show ?thesis by blast
qed (use assms restamping_leaves in \<open>auto simp: holder_iff\<close>)

lemma latch_drains:
  "\<exists>es m'. tm_run es m = Some m' \<and> list_all commit_event es \<and> holders m' = {} \<and> (\<forall>i. i \<notin> holders m \<longrightarrow> phase_of m' i = phase_of m i)"
proof (induction "card (holders m)" arbitrary: m)
  case 0
  then have "holders m = {}" by simp
  then show ?case by (intro exI [of _ "[]"] exI [of _ m]) simp
next
  case (Suc n)
  then obtain j where j: "j \<in> holders m" by (metis card.empty ex_in_conv nat.distinct(1))
  from holder_leaves [OF j] obtain es1 m1 where
    1: "tm_run es1 m = Some m1" "list_all commit_event es1" "phase_of m1 = (phase_of m)(j := Idle)" by blast
  then have h: "holders m1 = holders m - {j}" by (auto simp: holders_def)
  then have "n = card (holders m1)" using Suc.hyps(2) j by simp
  from Suc.hyps(1) [OF this] obtain es2 m2 where
    2: "tm_run es2 m1 = Some m2" "list_all commit_event es2" "holders m2 = {}" "\<forall>i. i \<notin> holders m1 \<longrightarrow> phase_of m2 i = phase_of m1 i"
    by blast
  have "tm_run (es1 @ es2) m = Some m2" using 1(1) 2(1) by (simp add: tm_run_append)
  moreover have "list_all commit_event (es1 @ es2)" using 1(2) 2(2) by simp
  moreover have "\<forall>i. i \<notin> holders m \<longrightarrow> phase_of m2 i = phase_of m i" using 1(3) 2(4) h j by auto
  ultimately show ?case using 2(3) by blast
qed



end
