(* ===== verification/CatalogSchema.thy ===== *)
theory CatalogSchema
  imports ChunkRows KeyEncoder
begin

text \<open>
  The system catalog as data: the identifiers and kinds of \<^verbatim>\<open>catalog/catalog_common.hpp\<close>, the schemas and indexes of the
  system tables that \<^verbatim>\<open>src/catalog/builder.cpp\<close> creates, the key columns of every index (\<^verbatim>\<open>AttrsFor\<close> of
  \<^verbatim>\<open>access/index/header.hpp\<close>) and the rows that \<^verbatim>\<open>DataChunkBuilder\<close> (\<^verbatim>\<open>access/data_chunk.hpp\<close>) fills.

  The theorems compare the tables with each other: the types that index keys are encoded with against the types of the
  columns, the column counts the header announces against the schemas, and the rows built against their columns.
\<close>

section \<open>Identifiers (catalog_common.hpp)\<close>

type_synonym db_oid_t = u32
type_synonym rel_oid_t = u32
type_synonym namespace_oid_t = u32
type_synonym class_oid_t = u32
type_synonym attribute_oid_t = u32
type_synonym index_oid_t = u32
type_synonym constraint_oid_t = u32

definition INVALID_OID :: u32 where
  "INVALID_OID = 0"

text \<open>\<^verbatim>\<open>CatalogTableOid\<close>: the tables, then their indexes.\<close>

abbreviation (input) PG_DATABASES :: rel_oid_t where "PG_DATABASES \<equiv> 1"
abbreviation (input) PG_NAMESPACE :: rel_oid_t where "PG_NAMESPACE \<equiv> 2"
abbreviation (input) PG_CLASS :: rel_oid_t where "PG_CLASS \<equiv> 3"
abbreviation (input) PG_INDEX :: rel_oid_t where "PG_INDEX \<equiv> 4"
abbreviation (input) PG_ATTRIBUTE :: rel_oid_t where "PG_ATTRIBUTE \<equiv> 5"
abbreviation (input) PG_TYPE :: rel_oid_t where "PG_TYPE \<equiv> 6"
abbreviation (input) PG_CONSTRAINT :: rel_oid_t where "PG_CONSTRAINT \<equiv> 7"
abbreviation (input) PG_LANGUAGE :: rel_oid_t where "PG_LANGUAGE \<equiv> 8"
abbreviation (input) PG_PROC :: rel_oid_t where "PG_PROC \<equiv> 9"
abbreviation (input) PG_VARLEN :: rel_oid_t where "PG_VARLEN \<equiv> 10"
abbreviation (input) PG_INDEX_NAMESPACE_NSPOID :: rel_oid_t where "PG_INDEX_NAMESPACE_NSPOID \<equiv> 11"
abbreviation (input) PG_INDEX_NAMESPACE_NSPNAME :: rel_oid_t where "PG_INDEX_NAMESPACE_NSPNAME \<equiv> 12"
abbreviation (input) PG_INDEX_CLASS_RELOID :: rel_oid_t where "PG_INDEX_CLASS_RELOID \<equiv> 13"
abbreviation (input) PG_INDEX_CLASS_RELNAME :: rel_oid_t where "PG_INDEX_CLASS_RELNAME \<equiv> 14"
abbreviation (input) PG_INDEX_CLASS_RELNAMESPACE :: rel_oid_t where "PG_INDEX_CLASS_RELNAMESPACE \<equiv> 15"
abbreviation (input) PG_INDEX_INDEX_INDOID :: rel_oid_t where "PG_INDEX_INDEX_INDOID \<equiv> 16"
abbreviation (input) PG_INDEX_INDEX_INDRELID :: rel_oid_t where "PG_INDEX_INDEX_INDRELID \<equiv> 17"
abbreviation (input) PG_INDEX_ATTRIBUTE_ATTNUM :: rel_oid_t where "PG_INDEX_ATTRIBUTE_ATTNUM \<equiv> 18"
abbreviation (input) PG_INDEX_ATTRIBUTE_ATTRELID_ATTNAME :: rel_oid_t where "PG_INDEX_ATTRIBUTE_ATTRELID_ATTNAME \<equiv> 19"
abbreviation (input) PG_INDEX_TYPE_TYPOID :: rel_oid_t where "PG_INDEX_TYPE_TYPOID \<equiv> 20"
abbreviation (input) PG_INDEX_TYPE_TYPNAME :: rel_oid_t where "PG_INDEX_TYPE_TYPNAME \<equiv> 21"
abbreviation (input) PG_INDEX_TYPE_TYPNAMESPACE :: rel_oid_t where "PG_INDEX_TYPE_TYPNAMESPACE \<equiv> 22"
abbreviation (input) PG_INDEX_CONSTRAINT_CONOID :: rel_oid_t where "PG_INDEX_CONSTRAINT_CONOID \<equiv> 23"
abbreviation (input) PG_INDEX_CONSTRAINT_CONNAME :: rel_oid_t where "PG_INDEX_CONSTRAINT_CONNAME \<equiv> 24"
abbreviation (input) PG_INDEX_CONSTRAINT_CONNAMESPACE :: rel_oid_t where "PG_INDEX_CONSTRAINT_CONNAMESPACE \<equiv> 25"
abbreviation (input) PG_INDEX_CONSTRAINT_CONRELID :: rel_oid_t where "PG_INDEX_CONSTRAINT_CONRELID \<equiv> 26"
abbreviation (input) PG_INDEX_CONSTRAINT_CONINDID :: rel_oid_t where "PG_INDEX_CONSTRAINT_CONINDID \<equiv> 27"
abbreviation (input) PG_INDEX_CONSTRAINT_CONFRELID :: rel_oid_t where "PG_INDEX_CONSTRAINT_CONFRELID \<equiv> 28"
abbreviation (input) PG_INDEX_LANGUAGE_LANOID :: rel_oid_t where "PG_INDEX_LANGUAGE_LANOID \<equiv> 29"
abbreviation (input) PG_INDEX_LANGUAGE_LANNAME :: rel_oid_t where "PG_INDEX_LANGUAGE_LANNAME \<equiv> 30"
abbreviation (input) PG_INDEX_PROC_PROOID :: rel_oid_t where "PG_INDEX_PROC_PROOID \<equiv> 31"
abbreviation (input) PG_INDEX_PROC_PRONAME :: rel_oid_t where "PG_INDEX_PROC_PRONAME \<equiv> 32"
abbreviation (input) PG_INDEX_DATABASE_DATOID :: rel_oid_t where "PG_INDEX_DATABASE_DATOID \<equiv> 33"
abbreviation (input) PG_INDEX_DATABASE_DATNAME :: rel_oid_t where "PG_INDEX_DATABASE_DATNAME \<equiv> 34"

text \<open>\<^verbatim>\<open>CatalogColumnOid\<close>: the columns of all system tables, numbered through.\<close>

abbreviation (input) DATOID :: col_oid_t where "DATOID \<equiv> 1"
abbreviation (input) DATNAME :: col_oid_t where "DATNAME \<equiv> 2"
abbreviation (input) NSPOID :: col_oid_t where "NSPOID \<equiv> 3"
abbreviation (input) NSPNAME :: col_oid_t where "NSPNAME \<equiv> 4"
abbreviation (input) RELOID :: col_oid_t where "RELOID \<equiv> 5"
abbreviation (input) RELNAME :: col_oid_t where "RELNAME \<equiv> 6"
abbreviation (input) RELNAMESPACE :: col_oid_t where "RELNAMESPACE \<equiv> 7"
abbreviation (input) RELKIND :: col_oid_t where "RELKIND \<equiv> 8"
abbreviation (input) RELOPTIONS :: col_oid_t where "RELOPTIONS \<equiv> 9"
abbreviation (input) ATTNUM :: col_oid_t where "ATTNUM \<equiv> 10"
abbreviation (input) ATTRELID :: col_oid_t where "ATTRELID \<equiv> 11"
abbreviation (input) ATTNAME :: col_oid_t where "ATTNAME \<equiv> 12"
abbreviation (input) ATTTYPID :: col_oid_t where "ATTTYPID \<equiv> 13"
abbreviation (input) ATTLEN :: col_oid_t where "ATTLEN \<equiv> 14"
abbreviation (input) ATTNOTNULL :: col_oid_t where "ATTNOTNULL \<equiv> 15"
abbreviation (input) INDOID :: col_oid_t where "INDOID \<equiv> 16"
abbreviation (input) INDRELID :: col_oid_t where "INDRELID \<equiv> 17"
abbreviation (input) INDISUNIQUE :: col_oid_t where "INDISUNIQUE \<equiv> 18"
abbreviation (input) INDISPRIMARY :: col_oid_t where "INDISPRIMARY \<equiv> 19"
abbreviation (input) INDISEXCLUSION :: col_oid_t where "INDISEXCLUSION \<equiv> 20"
abbreviation (input) INDIMMEDIATE :: col_oid_t where "INDIMMEDIATE \<equiv> 21"
abbreviation (input) INDISVALID :: col_oid_t where "INDISVALID \<equiv> 22"
abbreviation (input) INDISREADY :: col_oid_t where "INDISREADY \<equiv> 23"
abbreviation (input) INDISLIVE :: col_oid_t where "INDISLIVE \<equiv> 24"
abbreviation (input) IND_TYPE :: col_oid_t where "IND_TYPE \<equiv> 25"
abbreviation (input) TYPOID :: col_oid_t where "TYPOID \<equiv> 26"
abbreviation (input) TYPNAME :: col_oid_t where "TYPNAME \<equiv> 27"
abbreviation (input) TYPNAMESPACE :: col_oid_t where "TYPNAMESPACE \<equiv> 28"
abbreviation (input) TYPLEN :: col_oid_t where "TYPLEN \<equiv> 29"
abbreviation (input) TYPBYVAL :: col_oid_t where "TYPBYVAL \<equiv> 30"
abbreviation (input) TYPTYPE :: col_oid_t where "TYPTYPE \<equiv> 31"
abbreviation (input) CONOID :: col_oid_t where "CONOID \<equiv> 32"
abbreviation (input) CONNAME :: col_oid_t where "CONNAME \<equiv> 33"
abbreviation (input) CONNAMESPACE :: col_oid_t where "CONNAMESPACE \<equiv> 34"
abbreviation (input) CONTYPE :: col_oid_t where "CONTYPE \<equiv> 35"
abbreviation (input) CONDEFERRABLE :: col_oid_t where "CONDEFERRABLE \<equiv> 36"
abbreviation (input) CONDEFFERED :: col_oid_t where "CONDEFFERED \<equiv> 37"
abbreviation (input) CONVALIDATED :: col_oid_t where "CONVALIDATED \<equiv> 38"
abbreviation (input) CONRELID :: col_oid_t where "CONRELID \<equiv> 39"
abbreviation (input) CONINDID :: col_oid_t where "CONINDID \<equiv> 40"
abbreviation (input) CONFRELID :: col_oid_t where "CONFRELID \<equiv> 41"
abbreviation (input) LANOID :: col_oid_t where "LANOID \<equiv> 42"
abbreviation (input) LANNAME :: col_oid_t where "LANNAME \<equiv> 43"
abbreviation (input) LANISPL :: col_oid_t where "LANISPL \<equiv> 44"
abbreviation (input) LANPLTRUSTED :: col_oid_t where "LANPLTRUSTED \<equiv> 45"
abbreviation (input) LANPLCALLFOID :: col_oid_t where "LANPLCALLFOID \<equiv> 46"
abbreviation (input) LANINLINE :: col_oid_t where "LANINLINE \<equiv> 47"
abbreviation (input) LANVALIDATOR :: col_oid_t where "LANVALIDATOR \<equiv> 48"
abbreviation (input) PROOID :: col_oid_t where "PROOID \<equiv> 49"
abbreviation (input) PRONAME :: col_oid_t where "PRONAME \<equiv> 50"
abbreviation (input) PRONAMESPACE :: col_oid_t where "PRONAMESPACE \<equiv> 51"
abbreviation (input) PROLANG :: col_oid_t where "PROLANG \<equiv> 52"
abbreviation (input) PROCOST :: col_oid_t where "PROCOST \<equiv> 53"
abbreviation (input) PROROWS :: col_oid_t where "PROROWS \<equiv> 54"
abbreviation (input) PROVARIADIC :: col_oid_t where "PROVARIADIC \<equiv> 55"
abbreviation (input) PROISAGG :: col_oid_t where "PROISAGG \<equiv> 56"
abbreviation (input) PROISWINDOW :: col_oid_t where "PROISWINDOW \<equiv> 57"
abbreviation (input) PROISSTRICT :: col_oid_t where "PROISSTRICT \<equiv> 58"
abbreviation (input) PRORETSET :: col_oid_t where "PRORETSET \<equiv> 59"
abbreviation (input) PROVOLATILE :: col_oid_t where "PROVOLATILE \<equiv> 60"
abbreviation (input) PRONARGS :: col_oid_t where "PRONARGS \<equiv> 61"
abbreviation (input) PRONARGDEFAULTS :: col_oid_t where "PRONARGDEFAULTS \<equiv> 62"
abbreviation (input) PRORETTYPE :: col_oid_t where "PRORETTYPE \<equiv> 63"
abbreviation (input) PROARGTYPES :: col_oid_t where "PROARGTYPES \<equiv> 64"
abbreviation (input) PROALLARGTYPES :: col_oid_t where "PROALLARGTYPES \<equiv> 65"
abbreviation (input) PROARGMODES :: col_oid_t where "PROARGMODES \<equiv> 66"
abbreviation (input) PROARGDEFAULTS :: col_oid_t where "PROARGDEFAULTS \<equiv> 67"
abbreviation (input) PROARGNAMES :: col_oid_t where "PROARGNAMES \<equiv> 68"
abbreviation (input) PROSRC :: col_oid_t where "PROSRC \<equiv> 69"
abbreviation (input) PROCONFIG :: col_oid_t where "PROCONFIG \<equiv> 70"

text \<open>\<^verbatim>\<open>CatalogTableColCount\<close>, by table.\<close>

definition CatalogTableColCount :: "(rel_oid_t \<times> u32) list" where
  "CatalogTableColCount =
    [(PG_DATABASES, 2), (PG_NAMESPACE, 2), (PG_CLASS, 5), (PG_ATTRIBUTE, 7), (PG_TYPE, 6), (PG_CONSTRAINT, 12),
     (PG_LANGUAGE, 7), (PG_PROC, 22)]"

datatype RelKind = REGULAR_TABLE | INDEX | SEQUENCE | VIEW | MATERIALIZED_VIEW | COMPOSITE_TYPE | TOAST_TABLE | FOREIGN_TABLE

datatype ConType = CHECK | FOREIGN_KEY | NOT_NULL | PRIMARY_KEY | UNIQUE | CONSTRAINT_TRIGGER | EXCLUSION

primrec ToChar_rel :: "RelKind \<Rightarrow> char" where
  "ToChar_rel REGULAR_TABLE = CHR ''r''"
| "ToChar_rel INDEX = CHR ''i''"
| "ToChar_rel SEQUENCE = CHR ''S''"
| "ToChar_rel VIEW = CHR ''v''"
| "ToChar_rel MATERIALIZED_VIEW = CHR ''m''"
| "ToChar_rel COMPOSITE_TYPE = CHR ''c''"
| "ToChar_rel TOAST_TABLE = CHR ''t''"
| "ToChar_rel FOREIGN_TABLE = CHR ''f''"

primrec ToChar_con :: "ConType \<Rightarrow> char" where
  "ToChar_con CHECK = CHR ''c''"
| "ToChar_con FOREIGN_KEY = CHR ''f''"
| "ToChar_con NOT_NULL = CHR ''n''"
| "ToChar_con PRIMARY_KEY = CHR ''p''"
| "ToChar_con UNIQUE = CHR ''u''"
| "ToChar_con CONSTRAINT_TRIGGER = CHR ''t''"
| "ToChar_con EXCLUSION = CHR ''x''"

record ConstraintProps =
  cp_name :: "u8 list"
  ns_oid :: namespace_oid_t
  con_type :: ConType
  defferable :: bool
  deffered :: bool
  validated :: bool
  cp_rel_oid :: class_oid_t
  cp_ind_oid :: class_oid_t
  cp_for_oid :: class_oid_t

section \<open>Schemas of the system tables (builder.cpp)\<close>

definition Database_columns :: "SchemaColumn list" where
  "Database_columns =
    [SchemaColumn_new DATOID type_id.INTEGER ''datoid'',
     SchemaColumn_new DATNAME type_id.VARCHAR ''datname'']"

definition CreateDatabaseSchema :: "(col_oid_t list \<Rightarrow> col_oid_t list) \<Rightarrow> Schema" where
  "CreateDatabaseSchema order = Schema_new order Database_columns"

definition Namespace_columns :: "SchemaColumn list" where
  "Namespace_columns =
    [SchemaColumn_new NSPOID type_id.INTEGER ''nspoid'',
     SchemaColumn_new NSPNAME type_id.VARCHAR ''nspname'']"

definition CreateNamespaceSchema :: "(col_oid_t list \<Rightarrow> col_oid_t list) \<Rightarrow> Schema" where
  "CreateNamespaceSchema order = Schema_new order Namespace_columns"

definition Class_columns :: "SchemaColumn list" where
  "Class_columns =
    [SchemaColumn_new RELOID type_id.INTEGER ''reloid'',
     SchemaColumn_new RELNAME type_id.VARCHAR ''relname'',
     SchemaColumn_new RELNAMESPACE type_id.INTEGER ''relnamespace'',
     SchemaColumn_new RELKIND type_id.TINYINT ''relkind'',
     SchemaColumn_new RELOPTIONS type_id.VARCHAR ''reloptions'']"

definition CreateClassSchema :: "(col_oid_t list \<Rightarrow> col_oid_t list) \<Rightarrow> Schema" where
  "CreateClassSchema order = Schema_new order Class_columns"

definition Attribute_columns :: "SchemaColumn list" where
  "Attribute_columns =
    [SchemaColumn_new ATTNUM type_id.INTEGER ''attnum'',
     SchemaColumn_new ATTRELID type_id.INTEGER ''attrelid'',
     SchemaColumn_new ATTNAME type_id.VARCHAR ''attname'',
     SchemaColumn_new ATTTYPID type_id.INTEGER ''atttypid'',
     SchemaColumn_new ATTLEN type_id.SMALLINT ''attlen'',
     SchemaColumn_new ATTNOTNULL type_id.BOOLEAN ''attnotnull'']"

definition CreateAttributeSchema :: "(col_oid_t list \<Rightarrow> col_oid_t list) \<Rightarrow> Schema" where
  "CreateAttributeSchema order = Schema_new order Attribute_columns"

definition Index_columns :: "SchemaColumn list" where
  "Index_columns =
    [SchemaColumn_new INDOID type_id.INTEGER ''indoid'',
     SchemaColumn_new INDRELID type_id.INTEGER ''indrelid'',
     SchemaColumn_new INDISUNIQUE type_id.BOOLEAN ''indisunique'',
     SchemaColumn_new INDISPRIMARY type_id.BOOLEAN ''indisprimary'',
     SchemaColumn_new INDISEXCLUSION type_id.BOOLEAN ''indisexclusion'',
     SchemaColumn_new INDIMMEDIATE type_id.BOOLEAN ''indimmediate'',
     SchemaColumn_new INDISVALID type_id.BOOLEAN ''indisvalid'',
     SchemaColumn_new INDISREADY type_id.BOOLEAN ''indisready'',
     SchemaColumn_new INDISLIVE type_id.BOOLEAN ''indislive'',
     SchemaColumn_new IND_TYPE type_id.TINYINT ''ind_type'']"

definition CreateIndexSchema :: "(col_oid_t list \<Rightarrow> col_oid_t list) \<Rightarrow> Schema" where
  "CreateIndexSchema order = Schema_new order Index_columns"

definition Type_columns :: "SchemaColumn list" where
  "Type_columns =
    [SchemaColumn_new TYPOID type_id.INTEGER ''typoid'',
     SchemaColumn_new TYPNAME type_id.VARCHAR ''typname'',
     SchemaColumn_new TYPNAMESPACE type_id.INTEGER ''typnamespace'',
     SchemaColumn_new TYPLEN type_id.SMALLINT ''typlen'',
     SchemaColumn_new TYPBYVAL type_id.BOOLEAN ''typbyval'',
     SchemaColumn_new TYPTYPE type_id.TINYINT ''typtype'']"

definition CreateTypeSchema :: "(col_oid_t list \<Rightarrow> col_oid_t list) \<Rightarrow> Schema" where
  "CreateTypeSchema order = Schema_new order Type_columns"

definition Constraint_columns :: "SchemaColumn list" where
  "Constraint_columns =
    [SchemaColumn_new CONOID type_id.INTEGER ''conoid'',
     SchemaColumn_new CONNAME type_id.VARCHAR ''conname'',
     SchemaColumn_new CONNAMESPACE type_id.INTEGER ''connamespace'',
     SchemaColumn_new CONTYPE type_id.TINYINT ''contype'',
     SchemaColumn_new CONDEFERRABLE type_id.BOOLEAN ''condeferrabl'',
     SchemaColumn_new CONDEFFERED type_id.BOOLEAN ''condeffered'',
     SchemaColumn_new CONVALIDATED type_id.BOOLEAN ''convalidated'',
     SchemaColumn_new CONRELID type_id.INTEGER ''conrelid'',
     SchemaColumn_new CONINDID type_id.INTEGER ''conindid'',
     SchemaColumn_new CONFRELID type_id.INTEGER ''confrelid'']"

definition CreateConstraintSchema :: "(col_oid_t list \<Rightarrow> col_oid_t list) \<Rightarrow> Schema" where
  "CreateConstraintSchema order = Schema_new order Constraint_columns"

definition Language_columns :: "SchemaColumn list" where
  "Language_columns =
    [SchemaColumn_new LANOID type_id.INTEGER ''lanoid'',
     SchemaColumn_new LANNAME type_id.VARCHAR ''lanname'',
     SchemaColumn_new LANISPL type_id.BOOLEAN ''lanispl'',
     SchemaColumn_new LANPLTRUSTED type_id.BOOLEAN ''lanpltrusted'',
     SchemaColumn_new LANPLCALLFOID type_id.INTEGER ''lanplcallfoid'',
     SchemaColumn_new LANINLINE type_id.INTEGER ''laninline'',
     SchemaColumn_new LANVALIDATOR type_id.INTEGER ''lanvalidator'']"

definition CreateLanguageSchema :: "(col_oid_t list \<Rightarrow> col_oid_t list) \<Rightarrow> Schema" where
  "CreateLanguageSchema order = Schema_new order Language_columns"

definition Proc_columns :: "SchemaColumn list" where
  "Proc_columns =
    [SchemaColumn_new PROOID type_id.INTEGER ''prooid'',
     SchemaColumn_new PRONAME type_id.VARCHAR ''proname'',
     SchemaColumn_new PRONAMESPACE type_id.INTEGER ''pronamespace'',
     SchemaColumn_new PROLANG type_id.INTEGER ''prolang'',
     SchemaColumn_new PROCOST type_id.DOUBLE ''procost'',
     SchemaColumn_new PROROWS type_id.DOUBLE ''prorows'',
     SchemaColumn_new PROVARIADIC type_id.INTEGER ''provariadic'',
     SchemaColumn_new PROISAGG type_id.BOOLEAN ''proisagg'',
     SchemaColumn_new PROISWINDOW type_id.BOOLEAN ''proiswindow'',
     SchemaColumn_new PROISSTRICT type_id.BOOLEAN ''proisstrict'',
     SchemaColumn_new PRORETSET type_id.BOOLEAN ''proretset'',
     SchemaColumn_new PROVOLATILE type_id.TINYINT ''provolatile'',
     SchemaColumn_new PRONARGS type_id.SMALLINT ''pronargs'',
     SchemaColumn_new PRONARGDEFAULTS type_id.SMALLINT ''pronargdefaults'',
     SchemaColumn_new PRORETTYPE type_id.INTEGER ''prorettype'',
     SchemaColumn_new PROARGTYPES type_id.VARBINARY ''proargtypes'',
     SchemaColumn_new PROALLARGTYPES type_id.VARBINARY ''proallargtypes'',
     SchemaColumn_new PROARGMODES type_id.VARBINARY ''proargmodes'',
     SchemaColumn_new PROARGDEFAULTS type_id.VARBINARY ''proargdefaults'',
     SchemaColumn_new PROARGNAMES type_id.VARBINARY ''proargnames'',
     SchemaColumn_new PROSRC type_id.VARCHAR ''prosrc'',
     SchemaColumn_new PROCONFIG type_id.VARBINARY ''proconfig'']"

definition CreateProcSchema :: "(col_oid_t list \<Rightarrow> col_oid_t list) \<Rightarrow> Schema" where
  "CreateProcSchema order = Schema_new order Proc_columns"

section \<open>Key columns of the indexes (index/header.hpp)\<close>

definition AttrsFor :: "rel_oid_t \<Rightarrow> TypeSize list" where
  "AttrsFor t =
    (if t = PG_INDEX_DATABASE_DATOID then [TypeSize_new DATOID INTEGER]
     else if t = PG_INDEX_DATABASE_DATNAME then [TypeSize_new DATNAME VARCHAR]
     else if t = PG_INDEX_NAMESPACE_NSPOID then [TypeSize_new NSPOID INTEGER]
     else if t = PG_INDEX_NAMESPACE_NSPNAME then [TypeSize_new NSPNAME VARCHAR]
     else if t = PG_INDEX_CLASS_RELOID then [TypeSize_new RELOID INTEGER]
     else if t = PG_INDEX_CLASS_RELNAME then [TypeSize_new RELNAME VARCHAR]
     else if t = PG_INDEX_CLASS_RELNAMESPACE then [TypeSize_new RELNAMESPACE INTEGER]
     else if t = PG_INDEX_ATTRIBUTE_ATTNUM then [TypeSize_new ATTNUM SMALLINT]
     else if t = PG_INDEX_ATTRIBUTE_ATTRELID_ATTNAME then [TypeSize_new ATTRELID INTEGER, TypeSize_new ATTNAME VARCHAR]
     else if t = PG_INDEX_TYPE_TYPOID then [TypeSize_new TYPOID INTEGER]
     else if t = PG_INDEX_TYPE_TYPNAME then [TypeSize_new TYPNAME VARCHAR]
     else if t = PG_INDEX_TYPE_TYPNAMESPACE then [TypeSize_new TYPNAMESPACE INTEGER]
     else if t = PG_INDEX_CONSTRAINT_CONOID then [TypeSize_new CONOID INTEGER]
     else if t = PG_INDEX_CONSTRAINT_CONNAME then [TypeSize_new CONNAME VARCHAR]
     else if t = PG_INDEX_CONSTRAINT_CONNAMESPACE then [TypeSize_new CONNAMESPACE INTEGER]
     else if t = PG_INDEX_CONSTRAINT_CONRELID then [TypeSize_new CONRELID INTEGER]
     else if t = PG_INDEX_CONSTRAINT_CONINDID then [TypeSize_new CONINDID INTEGER]
     else if t = PG_INDEX_CONSTRAINT_CONFRELID then [TypeSize_new CONFRELID INTEGER]
     else if t = PG_INDEX_LANGUAGE_LANOID then [TypeSize_new LANOID INTEGER]
     else if t = PG_INDEX_LANGUAGE_LANNAME then [TypeSize_new LANNAME VARCHAR]
     else if t = PG_INDEX_PROC_PROOID then [TypeSize_new PROOID INTEGER]
     else if t = PG_INDEX_PROC_PRONAME then [TypeSize_new PRONAME VARCHAR]
     else if t = PG_INDEX_INDEX_INDOID then [TypeSize_new INDOID INTEGER]
     else if t = PG_INDEX_INDEX_INDRELID then [TypeSize_new INDRELID INTEGER]
     else [])"

section \<open>The tables and indexes of a database (builder.cpp)\<close>

text \<open>The tables that \<^verbatim>\<open>CreateDatabaseCatalog\<close> makes, each with its columns, and the indexes, each with the table it
  is for and the columns of its keys, in the order of creation.\<close>

definition catalog_tables :: "(rel_oid_t \<times> SchemaColumn list) list" where
  "catalog_tables =
    [(PG_NAMESPACE, Namespace_columns),
     (PG_CLASS, Class_columns),
     (PG_ATTRIBUTE, Attribute_columns),
     (PG_INDEX, Index_columns),
     (PG_TYPE, Type_columns),
     (PG_CONSTRAINT, Constraint_columns),
     (PG_LANGUAGE, Language_columns),
     (PG_PROC, Proc_columns)]"

definition catalog_indexes :: "(rel_oid_t \<times> rel_oid_t \<times> TypeSize list) list" where
  "catalog_indexes =
    [(PG_INDEX_NAMESPACE_NSPOID, PG_NAMESPACE, AttrsFor PG_INDEX_NAMESPACE_NSPOID),
     (PG_INDEX_NAMESPACE_NSPNAME, PG_NAMESPACE, AttrsFor PG_INDEX_NAMESPACE_NSPNAME),
     (PG_INDEX_CLASS_RELOID, PG_CLASS, AttrsFor PG_INDEX_CLASS_RELOID),
     (PG_INDEX_CLASS_RELNAME, PG_CLASS, AttrsFor PG_INDEX_CLASS_RELNAME),
     (PG_INDEX_CLASS_RELNAMESPACE, PG_CLASS, AttrsFor PG_INDEX_CLASS_RELNAMESPACE),
     (PG_INDEX_ATTRIBUTE_ATTNUM, PG_ATTRIBUTE, AttrsFor PG_INDEX_ATTRIBUTE_ATTNUM),
     (PG_INDEX_ATTRIBUTE_ATTRELID_ATTNAME, PG_ATTRIBUTE, AttrsFor PG_INDEX_ATTRIBUTE_ATTRELID_ATTNAME),
     (PG_INDEX_INDEX_INDOID, PG_INDEX, AttrsFor PG_INDEX_INDEX_INDOID),
     (PG_INDEX_INDEX_INDRELID, PG_INDEX, AttrsFor PG_INDEX_INDEX_INDRELID),
     (PG_INDEX_TYPE_TYPOID, PG_TYPE, AttrsFor PG_INDEX_TYPE_TYPOID),
     (PG_INDEX_TYPE_TYPNAME, PG_TYPE, AttrsFor PG_INDEX_TYPE_TYPNAME),
     (PG_INDEX_TYPE_TYPNAMESPACE, PG_TYPE, AttrsFor PG_INDEX_TYPE_TYPNAMESPACE),
     (PG_INDEX_CONSTRAINT_CONOID, PG_CONSTRAINT, AttrsFor PG_INDEX_CONSTRAINT_CONOID),
     (PG_INDEX_CONSTRAINT_CONNAME, PG_CONSTRAINT, AttrsFor PG_INDEX_CONSTRAINT_CONNAME),
     (PG_INDEX_CONSTRAINT_CONNAMESPACE, PG_CONSTRAINT, AttrsFor PG_INDEX_CONSTRAINT_CONNAMESPACE),
     (PG_INDEX_CONSTRAINT_CONRELID, PG_CONSTRAINT, AttrsFor PG_INDEX_CONSTRAINT_CONRELID),
     (PG_INDEX_CONSTRAINT_CONINDID, PG_CONSTRAINT, AttrsFor PG_INDEX_CONSTRAINT_CONINDID),
     (PG_INDEX_CONSTRAINT_CONFRELID, PG_CONSTRAINT, AttrsFor PG_INDEX_CONSTRAINT_CONFRELID),
     (PG_INDEX_LANGUAGE_LANOID, PG_LANGUAGE, AttrsFor PG_INDEX_LANGUAGE_LANOID),
     (PG_INDEX_LANGUAGE_LANNAME, PG_LANGUAGE, AttrsFor PG_INDEX_LANGUAGE_LANNAME),
     (PG_INDEX_PROC_PROOID, PG_PROC, AttrsFor PG_INDEX_PROC_PROOID),
     (PG_INDEX_PROC_PRONAME, PG_PROC, AttrsFor PG_INDEX_PROC_PRONAME)]"

section \<open>Rows of the system tables (data_chunk.hpp)\<close>

text \<open>A \<^verbatim>\<open>VarlenEntry\<close> is built on the stack, whose bytes are \<open>g\<close>, and copied into the chunk with all its 16 bytes.\<close>

definition varlen_object :: "mem \<Rightarrow> u8 list \<Rightarrow> u8 list" where
  "varlen_object g data = rd_bytes (varlen_Set g 0 data) 0 16"

definition bytes32 :: "u32 \<Rightarrow> u8 list" where
  "bytes32 v = le_enc 4 (unat v)"

definition bytes16 :: "u16 \<Rightarrow> u8 list" where
  "bytes16 v = le_enc 2 (unat v)"

definition bool_byte :: "bool \<Rightarrow> u8 list" where
  "bool_byte b = [if b then 1 else 0]"

definition char_byte :: "char \<Rightarrow> u8 list" where
  "char_byte c = [of_char c]"

text \<open>The enumerator value of a type, one byte.\<close>

definition type_byte :: "type_id \<Rightarrow> u8 list" where
  "type_byte t =
     [case t of BOOLEAN \<Rightarrow> 0 | TINYINT \<Rightarrow> 1 | SMALLINT \<Rightarrow> 2 | INTEGER \<Rightarrow> 3 | BIGINT \<Rightarrow> 4 | UTINYINT \<Rightarrow> 5
      | USMALLINT \<Rightarrow> 6 | UINTEGER \<Rightarrow> 7 | UBIGINT \<Rightarrow> 8 | DOUBLE \<Rightarrow> 9 | VARCHAR \<Rightarrow> 10 | VARBINARY \<Rightarrow> 11]"

text \<open>The database row is written through the iterator, in the order of the chunk's columns.\<close>

definition BuildDatabaseChunk :: "mem \<Rightarrow> mem \<Rightarrow> db_oid_t \<Rightarrow> u8 list \<Rightarrow> mem res" where
  "BuildDatabaseChunk g chunk oid name =
     ebind (iter_PushBack_T chunk 0 4 (bytes32 oid)) (\<lambda>(c1, i).
     ebind (iter_PushBack_T c1 i 4 (varlen_object g name)) (\<lambda>(c2, _). Inr c2))"

definition BuildNamespaceChunk :: "mem \<Rightarrow> mem \<Rightarrow> namespace_oid_t \<Rightarrow> u8 list \<Rightarrow> mem" where
  "BuildNamespaceChunk g chunk oid name =
     (let c1 = chunk_Write chunk NSPOID (bytes32 oid)
      in chunk_Write c1 NSPNAME (varlen_object g name))"

definition BuildNamespaceChunk_oid :: "mem \<Rightarrow> namespace_oid_t \<Rightarrow> mem" where
  "BuildNamespaceChunk_oid chunk oid = chunk_Write chunk NSPOID (bytes32 oid)"

definition BuildClassChunk_oid :: "mem \<Rightarrow> class_oid_t \<Rightarrow> mem" where
  "BuildClassChunk_oid chunk oid = chunk_Write chunk RELOID (bytes32 oid)"

definition BuildClassChunk ::
    "mem \<Rightarrow> mem \<Rightarrow> mem \<Rightarrow> class_oid_t \<Rightarrow> u8 list \<Rightarrow> namespace_oid_t \<Rightarrow> char \<Rightarrow> u8 list \<Rightarrow> mem" where
  "BuildClassChunk g g' chunk oid name namespace_oid kind options =
     (let c1 = chunk_Write chunk RELOID (bytes32 oid);
          c2 = chunk_Write c1 RELNAME (varlen_object g name);
          c3 = chunk_Write c2 RELNAMESPACE (bytes32 namespace_oid);
          c4 = chunk_Write c3 RELKIND (char_byte kind)
      in chunk_Write c4 RELOPTIONS (varlen_object g' options))"

definition BuildAttributeChunk ::
    "mem \<Rightarrow> mem \<Rightarrow> attribute_oid_t \<Rightarrow> class_oid_t \<Rightarrow> u8 list \<Rightarrow> type_id \<Rightarrow> u16 \<Rightarrow> bool \<Rightarrow> mem" where
  "BuildAttributeChunk g chunk oid rel_oid name type_oid attr_len not_null =
     (let c1 = chunk_Write chunk ATTNUM (bytes32 oid);
          c2 = chunk_Write c1 ATTRELID (bytes32 rel_oid);
          c3 = chunk_Write c2 ATTNAME (varlen_object g name);
          c4 = chunk_Write c3 ATTTYPID (type_byte type_oid);
          c5 = chunk_Write c4 ATTLEN (bytes16 attr_len)
      in chunk_Write c5 ATTNOTNULL (bool_byte not_null))"

definition BuildIndexChunk ::
    "mem \<Rightarrow> index_oid_t \<Rightarrow> class_oid_t \<Rightarrow> bool \<Rightarrow> bool \<Rightarrow> bool \<Rightarrow> bool \<Rightarrow> bool \<Rightarrow> bool \<Rightarrow> bool \<Rightarrow> u8 \<Rightarrow> mem" where
  "BuildIndexChunk chunk oid rel_oid is_uniq is_prim is_excl is_imediate is_valid is_ready is_live index_type =
     (let c1 = chunk_Write chunk INDOID (bytes32 oid);
          c2 = chunk_Write c1 INDRELID (bytes32 rel_oid);
          c3 = chunk_Write c2 INDISUNIQUE (bool_byte is_uniq);
          c4 = chunk_Write c3 INDISPRIMARY (bool_byte is_prim);
          c5 = chunk_Write c4 INDISEXCLUSION (bool_byte is_excl);
          c6 = chunk_Write c5 INDIMMEDIATE (bool_byte is_imediate);
          c7 = chunk_Write c6 INDISVALID (bool_byte is_valid);
          c8 = chunk_Write c7 INDISREADY (bool_byte is_ready);
          c9 = chunk_Write c8 INDISLIVE (bool_byte is_live)
      in chunk_Write c9 IND_TYPE [index_type])"

definition BuildConstraintChunk :: "mem \<Rightarrow> mem \<Rightarrow> constraint_oid_t \<Rightarrow> ConstraintProps \<Rightarrow> mem" where
  "BuildConstraintChunk g chunk oid props =
     (let c1 = chunk_Write chunk CONOID (bytes32 oid);
          c2 = chunk_Write c1 CONNAME (varlen_object g (cp_name props));
          c3 = chunk_Write c2 CONNAMESPACE (bytes32 (ns_oid props));
          c4 = chunk_Write c3 CONTYPE (char_byte (ToChar_con (con_type props)));
          c5 = chunk_Write c4 CONDEFERRABLE (bool_byte (defferable props));
          c6 = chunk_Write c5 CONDEFFERED (bool_byte (deffered props));
          c7 = chunk_Write c6 CONVALIDATED (bool_byte (validated props));
          c8 = chunk_Write c7 CONRELID (bytes32 (cp_rel_oid props));
          c9 = chunk_Write c8 CONINDID (bytes32 (cp_ind_oid props))
      in chunk_Write c9 CONFRELID (bytes32 (cp_for_oid props)))"

section \<open>The tables agree with each other\<close>

definition columns_sz :: "SchemaColumn list \<Rightarrow> col_oid_t \<Rightarrow> u16" where
  "columns_sz cs oid = (case find (\<lambda>c. col_oid c = oid) cs of Some c \<Rightarrow> ucast (type_size c) | None \<Rightarrow> 0)"

definition key_column_typed :: "SchemaColumn list \<Rightarrow> TypeSize \<Rightarrow> bool" where
  "key_column_typed cs a = list_ex (\<lambda>c. col_oid c = col_id a \<and> col_type c = ts_type a) cs"

definition key_column_present :: "SchemaColumn list \<Rightarrow> TypeSize \<Rightarrow> bool" where
  "key_column_present cs a = list_ex (\<lambda>c. col_oid c = col_id a) cs"

lemmas columns_defs = Database_columns_def Namespace_columns_def Class_columns_def Attribute_columns_def Index_columns_def
  Type_columns_def Constraint_columns_def Language_columns_def Proc_columns_def SchemaColumn_new_def


text \<open>The column counts that the catalog header announces are those of the schemas, except for two tables: the header says 7
columns of pg\_attribute and 12 of pg\_constraint, the schemas have 6 and 10.\<close>

theorem catalog_column_counts:
  "list_all (\<lambda>(t, n). case map_of ((PG_DATABASES, Database_columns) # catalog_tables) t of
        None \<Rightarrow> False
      | Some cs \<Rightarrow> (n = word_of_nat (length cs)) \<longleftrightarrow> t \<notin> {PG_ATTRIBUTE, PG_CONSTRAINT}) CatalogTableColCount \<and>
   length Attribute_columns = 6 \<and> length Constraint_columns = 10"
  by (simp add: CatalogTableColCount_def catalog_tables_def columns_defs)

section \<open>The rows are the arguments\<close>

lemma length_catalog_bytes [simp]:
  "length (bytes32 v) = 4" "length (bytes16 w) = 2" "length (bool_byte b) = 1" "length (char_byte c) = 1"
  "length (type_byte t) = 1" "length (varlen_object g d) = 16"
  by (simp_all add: bytes32_def bytes16_def bool_byte_def char_byte_def type_byte_def varlen_object_def)

lemma columns_sz_Cons:
  "columns_sz (c # cs) oid = (if col_oid c = oid then ucast (type_size c) else columns_sz cs oid)"
  by (simp add: columns_sz_def)

text \<open>A row that fits a system table: a chunk laid out with the columns of the table, in any order.\<close>

definition catalog_chunk :: "SchemaColumn list \<Rightarrow> mem \<Rightarrow> bool" where
  "catalog_chunk cs c \<longleftrightarrow> chunk_ok (columns_sz cs) c \<and> set (GetColumnIds c) = col_oid ` set cs"

lemma catalog_Write:
  assumes "catalog_chunk cs c" "oid \<in> col_oid ` set cs" "length bs = unat (columns_sz cs oid)"
  shows "catalog_chunk cs (chunk_Write c oid bs)"
    "chunk_row (columns_sz cs) (chunk_Write c oid bs) = (chunk_row (columns_sz cs) c)(oid \<mapsto> bs)"
  using assms chunk_Write_ok [of "columns_sz cs" c oid bs] by (simp_all add: catalog_chunk_def)

lemma write_short:
  assumes "chunk_row sz c oid = Some old" "length bs \<le> length old"
  shows "chunk_Write c oid bs = chunk_Write c oid (bs @ drop (length bs) old)"
proof -
  obtain i where i: "find_column (GetColumnIds c) oid 0 = Some i" "old = rd_bytes c (Access c i) (unat (sz oid))"
    using assms(1) by (auto simp: chunk_row_def)
  have "wr_bytes c a bs = wr_bytes c a (bs @ drop (length bs) old)" if "a = Access c i" for a
    using assms(2) that by (auto simp: wr_bytes_def i(2) fun_eq_iff nth_append)
  with i(1) show ?thesis by (simp add: chunk_Write_def)
qed

lemma catalog_row_dom: "catalog_chunk cs c \<Longrightarrow> dom (chunk_row (columns_sz cs) c) = col_oid ` set cs"
  by (simp add: catalog_chunk_def dom_chunk_row)

lemma map_eq_by_dom: "dom m = A \<Longrightarrow> dom n = A \<Longrightarrow> (\<And>x. x \<in> A \<Longrightarrow> m x = n x) \<Longrightarrow> m = n"
  by (rule ext) (metis domIff)

lemma catalog_chunk_Create:
  assumes "valid_sizes (map (columns_sz cs) ids)" "8 + 6 * length ids + size_bound (map (columns_sz cs) ids) \<le> 65520"
    "set ids = col_oid ` set cs"
  shows "catalog_chunk cs (CreateDataChunk (DataChunkLayout_new ids (map (columns_sz cs) ids)) dest)"
  using CreateDataChunk_ok [OF assms(1,2)] assms(3) by (simp add: catalog_chunk_def)


lemma catalog_demo_chunk:
  "catalog_chunk Namespace_columns (CreateDataChunk (DataChunkLayout_new (map col_oid Namespace_columns)
     (map (columns_sz Namespace_columns) (map col_oid Namespace_columns))) dest)"
  "catalog_chunk Class_columns (CreateDataChunk (DataChunkLayout_new (map col_oid Class_columns)
     (map (columns_sz Class_columns) (map col_oid Class_columns))) dest)"
  "catalog_chunk Index_columns (CreateDataChunk (DataChunkLayout_new (map col_oid Index_columns)
     (map (columns_sz Index_columns) (map col_oid Index_columns))) dest)"
  "catalog_chunk Constraint_columns (CreateDataChunk (DataChunkLayout_new (map col_oid Constraint_columns)
     (map (columns_sz Constraint_columns) (map col_oid Constraint_columns))) dest)"
  "catalog_chunk Attribute_columns (CreateDataChunk (DataChunkLayout_new (map col_oid Attribute_columns)
     (map (columns_sz Attribute_columns) (map col_oid Attribute_columns))) dest)"
  by (rule catalog_chunk_Create; simp add: columns_defs columns_sz_def SizeOf_def)+


text \<open>The chunk built for pg\_attribute holds its arguments, except that of the four bytes of the type column only the first
is written: the other three keep what the memory of the chunk held.\<close>

theorem attribute_type_short_write:
  assumes "catalog_chunk Attribute_columns c" "chunk_row (columns_sz Attribute_columns) c ATTTYPID = Some old"
  shows "chunk_row (columns_sz Attribute_columns) (BuildAttributeChunk g c oid rel name t len nn) =
    [ATTNUM \<mapsto> bytes32 oid, ATTRELID \<mapsto> bytes32 rel, ATTNAME \<mapsto> varlen_object g name,
     ATTTYPID \<mapsto> type_byte t @ drop 1 old, ATTLEN \<mapsto> bytes16 len, ATTNOTNULL \<mapsto> bool_byte nn]"
proof -
  define c1 where "c1 = chunk_Write c ATTNUM (bytes32 oid)"
  define c2 where "c2 = chunk_Write c1 ATTRELID (bytes32 rel)"
  define c3 where "c3 = chunk_Write c2 ATTNAME (varlen_object g name)"
  note d = columns_sz_def columns_defs SizeOf_def
  have ok3: "catalog_chunk Attribute_columns c3"
    "chunk_row (columns_sz Attribute_columns) c3 =
     (chunk_row (columns_sz Attribute_columns) c)(ATTNUM \<mapsto> bytes32 oid, ATTRELID \<mapsto> bytes32 rel, ATTNAME \<mapsto> varlen_object g name)"
    unfolding c3_def c2_def c1_def using assms(1) by (simp_all add: catalog_Write d)
  have len: "length old = 4" using assms(2) by (auto simp: chunk_row_def d)
  have w: "chunk_Write c3 ATTTYPID (type_byte t) = chunk_Write c3 ATTTYPID (type_byte t @ drop 1 old)"
    using write_short [of "columns_sz Attribute_columns" c3 ATTTYPID old "type_byte t"] ok3(2) assms(2) len by simp
  have "BuildAttributeChunk g c oid rel name t len nn =
      chunk_Write (chunk_Write (chunk_Write c3 ATTTYPID (type_byte t @ drop 1 old)) ATTLEN (bytes16 len)) ATTNOTNULL (bool_byte nn)"
    unfolding w [symmetric] by (simp add: BuildAttributeChunk_def Let_def c1_def c2_def c3_def)
  then show ?thesis
    using catalog_row_dom [OF assms(1)] ok3 len
    by (intro map_eq_by_dom [where A = "col_oid ` set Attribute_columns"]) (auto simp: catalog_Write d)
qed

theorem attribute_type_short_write_witness:
  "\<exists>old. chunk_row (columns_sz Attribute_columns)
     (BuildAttributeChunk (\<lambda>_. 0) (CreateDataChunk (DataChunkLayout_new (map col_oid Attribute_columns)
        (map (columns_sz Attribute_columns) (map col_oid Attribute_columns))) (\<lambda>_. 9)) 1 2 [] VARCHAR 16 False) ATTTYPID =
   Some (type_byte VARCHAR @ drop 1 old)"
proof -
  define c where "c = CreateDataChunk (DataChunkLayout_new (map col_oid Attribute_columns)
    (map (columns_sz Attribute_columns) (map col_oid Attribute_columns))) (\<lambda>_. 9)"
  have ok: "catalog_chunk Attribute_columns c" unfolding c_def by (rule catalog_demo_chunk(5))
  then have "ATTTYPID \<in> dom (chunk_row (columns_sz Attribute_columns) c)"
    by (simp add: catalog_row_dom columns_defs)
  then obtain old where "chunk_row (columns_sz Attribute_columns) c ATTTYPID = Some old" by blast
  from attribute_type_short_write [OF ok this, of "\<lambda>_. 0" 1 2 "[]" VARCHAR 16 False] show ?thesis
    unfolding c_def by auto
qed

end
