(* ===== verification/CatalogOps.thy ===== *)
theory CatalogOps
  imports CatalogSchema BTree
begin

text \<open>
  The operations of the catalog: \<^verbatim>\<open>src/catalog/database_catalog.cpp\<close>, \<^verbatim>\<open>src/catalog/catalog.cpp\<close>, the end of
  \<^verbatim>\<open>src/catalog/builder.cpp\<close> and the constructor of \<^verbatim>\<open>access/table.hpp\<close>.

  An operation works on a \<open>Session\<close>: the calling transaction, the version store, the heap pages with their free-space
  manager, and the system tables and indexes, by their oids. Its result is a value, mostly a \<open>ResultObj\<close>, with the
  session after it; \<^verbatim>\<open>None\<close> is a loop in an index that never ends. A failed insertion undoes nothing.
\<close>

section \<open>Sessions\<close>

record Session =
  txn :: TransactionContext
  mvcc :: Mvcc
  heap_fsm :: FreeSpaceManagerVarlen
  heap_pages :: TablePages
  sys_tables :: "rel_oid_t \<rightharpoonup> Table"
  sys_indexes :: "rel_oid_t \<rightharpoonup> BTreeIndex"

text \<open>What the operations take from outside: the normalisation of strings, the stack bytes under a \<^verbatim>\<open>VarlenEntry\<close> and the
  fresh memory of a chunk.\<close>

record cat_env =
  norm_string :: "bool \<Rightarrow> u8 list \<Rightarrow> u8 list res"
  stack_bytes :: mem
  chunk_bytes :: mem

definition get_table :: "('a Session_scheme) \<Rightarrow> rel_oid_t \<Rightarrow> Table res" where
  "get_table s oid = (case sys_tables s oid of None \<Rightarrow> Inl NullDeref | Some t \<Rightarrow> Inr t)"

definition get_index :: "('a Session_scheme) \<Rightarrow> rel_oid_t \<Rightarrow> BTreeIndex res" where
  "get_index s oid = (case sys_indexes s oid of None \<Rightarrow> Inl NullDeref | Some t \<Rightarrow> Inr t)"

definition new_chunk :: "cat_env \<Rightarrow> ('a Session_scheme) \<Rightarrow> rel_oid_t \<Rightarrow> mem res" where
  "new_chunk env s tbl =
     ebind (get_table s tbl) (\<lambda>t. Inr (CreateDataChunk (DataChunkLayout_of_schema (tbl_schema t)) (chunk_bytes env)))"

definition row_Insert :: "rel_oid_t \<Rightarrow> mem \<Rightarrow> ('a Session_scheme) \<Rightarrow> (TupleId \<times> ('a Session_scheme)) res option" where
  "row_Insert tbl chunk s =
     Some (ebind (get_table s tbl) (\<lambda>t.
           ebind (Table_Insert t (txn s) (mvcc s) (heap_fsm s) (heap_pages s) chunk) (\<lambda>(tup, tx, mv, fsm, ps).
           Inr (tup, s\<lparr>txn := tx, mvcc := mv, heap_fsm := fsm, heap_pages := ps\<rparr>))))"

text \<open>\<^verbatim>\<open>HasUniqueConflict\<close> as a test of the index. A tuple whose version cannot be looked up counts as a conflict.\<close>

definition unique_conflict :: "('a Session_scheme) \<Rightarrow> table_id \<Rightarrow> u64 \<Rightarrow> bool" where
  "unique_conflict s heap_tbl v =
     (case HasUniqueConflict (mvcc s) (txn s) \<lparr>tbl_id = heap_tbl, pid = GetPageId \<lparr>tid_value = v\<rparr>\<rparr> (GetIndex \<lparr>tid_value = v\<rparr>) of
        Inr c \<Rightarrow> c | Inl _ \<Rightarrow> True)"

definition key_InsertUnique ::
    "cat_env \<Rightarrow> rel_oid_t \<Rightarrow> mem \<Rightarrow> TupleId \<Rightarrow> ('a Session_scheme) \<Rightarrow> (unit ResultObj \<times> ('a Session_scheme)) res option" where
  "key_InsertUnique env idx chunk tup s =
     obind (Some (get_index s idx)) (\<lambda>t.
     obind (BTree_InsertUnique (norm_string env) (unique_conflict s (bt_heap_tbl t)) t chunk (tid_value tup)) (\<lambda>(t', r).
       Some (Inr (r, s\<lparr>sys_indexes := (sys_indexes s)(idx \<mapsto> t')\<rparr>))))"

definition key_Insert ::
    "cat_env \<Rightarrow> rel_oid_t \<Rightarrow> mem \<Rightarrow> TupleId \<Rightarrow> ('a Session_scheme) \<Rightarrow> (unit ResultObj \<times> ('a Session_scheme)) res option" where
  "key_Insert env idx chunk tup s =
     obind (Some (get_index s idx)) (\<lambda>t.
     obind (BTree_Insert (norm_string env) t chunk (tid_value tup)) (\<lambda>t'.
       Some (Inr (Ok (), s\<lparr>sys_indexes := (sys_indexes s)(idx \<mapsto> t')\<rparr>))))"

definition key_Get ::
    "cat_env \<Rightarrow> rel_oid_t \<Rightarrow> mem \<Rightarrow> ('a Session_scheme) \<Rightarrow> (TupleId list \<times> ('a Session_scheme)) res option" where
  "key_Get env idx chunk s =
     obind (Some (get_index s idx)) (\<lambda>t.
     obind (BTree_Get (norm_string env) t chunk) (\<lambda>(t', vs).
       Some (Inr (map (\<lambda>v. \<lparr>tid_value = v\<rparr>) vs, s\<lparr>sys_indexes := (sys_indexes s)(idx \<mapsto> t')\<rparr>))))"

text \<open>Going on only after a success: with a message of one's own, or with the one that came back.\<close>

definition or_fail ::
    "('u ResultObj \<times> 's) res option \<Rightarrow> string \<Rightarrow> ('s \<Rightarrow> ('v ResultObj \<times> 's) res option) \<Rightarrow> ('v ResultObj \<times> 's) res option" where
  "or_fail m msg k = obind m (\<lambda>(r, s). case r of Ok _ \<Rightarrow> k s | Fail _ \<Rightarrow> Some (Inr (Fail (Some msg), s)))"

definition or_return ::
    "('u ResultObj \<times> 's) res option \<Rightarrow> ('u \<Rightarrow> 's \<Rightarrow> ('v ResultObj \<times> 's) res option) \<Rightarrow> ('v ResultObj \<times> 's) res option" where
  "or_return m k = obind m (\<lambda>(r, s). case r of Ok v \<Rightarrow> k v s | Fail msg \<Rightarrow> Some (Inr (Fail msg, s)))"

section \<open>The tables and indexes of a database\<close>

record DatabaseCatalog = Session +
  db_id :: db_oid_t
  next_namespace_oid :: namespace_oid_t
  next_class_oid :: class_oid_t
  next_attribute_oid :: attribute_oid_t
  next_constraint_oid :: constraint_oid_t
  write_lock :: timestamp_t

text \<open>\<open>opened\<close> tells which table files can be created or opened.\<close>

definition Table_new :: "(rel_oid_t \<Rightarrow> bool) \<Rightarrow> Schema \<Rightarrow> rel_oid_t \<Rightarrow> rel_oid_t \<Rightarrow> Table res" where
  "Table_new opened schema oid varlen =
     ebind (CreateLayoutFromSchema schema) (\<lambda>l.
     if \<not> opened oid then Inl (IOError ''Could not create/open file'')
     else if varlen \<noteq> 0 \<and> \<not> opened varlen then Inl (IOError ''Could not create/open file'')
     else Inr \<lparr>tbl_schema = schema, tbl_layout = l, tbl_oid = oid, varlen_oid = varlen\<rparr>)"

fun make_tables ::
    "(rel_oid_t \<Rightarrow> bool) \<Rightarrow> (col_oid_t list \<Rightarrow> col_oid_t list) \<Rightarrow> (rel_oid_t \<times> SchemaColumn list) list \<Rightarrow>
     (rel_oid_t \<rightharpoonup> Table) \<Rightarrow> (rel_oid_t \<rightharpoonup> Table) res" where
  "make_tables opened order [] ts = Inr ts"
| "make_tables opened order ((oid, cols) # rest) ts =
     ebind (Table_new opened (Schema_new order cols) oid PG_VARLEN) (\<lambda>t. make_tables opened order rest (ts(oid \<mapsto> t)))"

fun make_indexes ::
    "(rel_oid_t \<Rightarrow> bool) \<Rightarrow> (rel_oid_t \<Rightarrow> page_id \<Rightarrow> mem) \<Rightarrow> TlState \<Rightarrow> (rel_oid_t \<times> rel_oid_t \<times> TypeSize list) list \<Rightarrow>
     FreeSpaceManagerIndex \<Rightarrow> (rel_oid_t \<rightharpoonup> BTreeIndex) \<Rightarrow> (rel_oid_t \<rightharpoonup> BTreeIndex) res" where
  "make_indexes opened mems st [] fsm ts = Inr ts"
| "make_indexes opened mems st ((oid, heap, attrs) # rest) fsm ts =
     ebind (BTreeIndex_new (opened oid) fsm (mems oid) st oid heap attrs) (\<lambda>t.
       make_indexes opened mems st rest (bt_fsm t) (ts(oid \<mapsto> t)))"

text \<open>The session part of a new catalog comes from the caller: only the tables and indexes are made.\<close>

definition CreateDatabaseCatalog ::
    "(rel_oid_t \<Rightarrow> bool) \<Rightarrow> (col_oid_t list \<Rightarrow> col_oid_t list) \<Rightarrow> (rel_oid_t \<Rightarrow> page_id \<Rightarrow> mem) \<Rightarrow> TlState \<Rightarrow>
     FreeSpaceManagerIndex \<Rightarrow> ('a Session_scheme) \<Rightarrow> db_oid_t \<Rightarrow> DatabaseCatalog res" where
  "CreateDatabaseCatalog opened order mems st fsm s oid =
     ebind (make_tables opened order catalog_tables Map.empty) (\<lambda>ts.
     ebind (make_indexes opened mems st catalog_indexes fsm Map.empty) (\<lambda>ix.
     Inr \<lparr>txn = txn s, mvcc = mvcc s, heap_fsm = heap_fsm s, heap_pages = heap_pages s, sys_tables = ts, sys_indexes = ix,
          db_id = oid, next_namespace_oid = 1, next_class_oid = 1, next_attribute_oid = 1, next_constraint_oid = 1,
          write_lock = 0\<rparr>))"

section \<open>The catalog lock\<close>

text \<open>\<open>seen\<close> is what another thread has stored in the lock between the load and the compare-and-swap, if anything.\<close>

definition TryLock :: "timestamp_t option \<Rightarrow> DatabaseCatalog \<Rightarrow> bool \<times> DatabaseCatalog" where
  "TryLock seen dc =
     (let current_val = write_lock dc;
          t = txn dc
      in if current_val = finish_time t then (True, dc)
         else if TxnUtil_HasConflict current_val (finish_time t) (start_time t) then (False, dc\<lparr>txn := Abort t\<rparr>)
         else case seen of
           Some v \<Rightarrow> if v = current_val then (True, dc\<lparr>write_lock := finish_time t\<rparr>)
                     else (False, dc\<lparr>txn := Abort t, write_lock := v\<rparr>)
         | None \<Rightarrow> (True, dc\<lparr>write_lock := finish_time t\<rparr>))"

section \<open>Namespaces\<close>

text \<open>A deletion and its result: a key that is not there, or has no version to delete, counts as deleted.\<close>

definition delete_entry :: "cat_env \<Rightarrow> rel_oid_t \<Rightarrow> rel_oid_t \<Rightarrow> mem \<Rightarrow> ('a Session_scheme) \<Rightarrow> (bool \<times> ('a Session_scheme)) res option" where
  "delete_entry env idx tbl chunk s =
     obind (key_Get env idx chunk s) (\<lambda>(tids, s1).
     obind (Some (get_table s1 tbl)) (\<lambda>t.
     obind (Some (GetTidForModify (mvcc s1) (txn s1) (tbl_oid t) tids)) (\<lambda>r.
       case r of
         Fail _ \<Rightarrow> Some (Inr (False, s1))
       | Ok tup_id \<Rightarrow>
           if tup_id = INVALID_TID then Some (Inr (True, s1))
           else obind (Some (DeleteUndoRaw [] t (txn s1) (mvcc s1) tup_id)) (\<lambda>(ok, tx, mv).
                  Some (Inr (ok, s1\<lparr>txn := tx, mvcc := mv\<rparr>))))))"

definition exists_entry ::
    "cat_env \<Rightarrow> rel_oid_t \<Rightarrow> rel_oid_t \<Rightarrow> mem \<Rightarrow> ('a Session_scheme) \<Rightarrow> (unit ResultObj \<times> ('a Session_scheme)) res option" where
  "exists_entry env idx tbl chunk s =
     obind (key_Get env idx chunk s) (\<lambda>(tids, s1).
     obind (Some (get_table s1 tbl)) (\<lambda>t.
     obind (Some (GetTidExists (mvcc s1) (tbl_oid t) tids)) (\<lambda>ex.
       Some (Inr (if ex then Ok () else Fail (Some ''Namespace does not exist''), s1)))))"

definition CreateNamespaceEntry ::
    "cat_env \<Rightarrow> u8 list \<Rightarrow> namespace_oid_t \<Rightarrow> DatabaseCatalog \<Rightarrow> (namespace_oid_t ResultObj \<times> DatabaseCatalog) res option" where
  "CreateNamespaceEntry env name oid dc =
     obind (Some (new_chunk env dc PG_NAMESPACE)) (\<lambda>c0.
     let chunk = BuildNamespaceChunk (stack_bytes env) c0 oid name
     in obind (row_Insert PG_NAMESPACE chunk dc) (\<lambda>(tup, dc1).
        or_fail (key_InsertUnique env PG_INDEX_NAMESPACE_NSPNAME chunk tup dc1) ''Failed to insert to nspname index'' (\<lambda>dc2.
        or_fail (key_InsertUnique env PG_INDEX_NAMESPACE_NSPOID chunk tup dc2) ''Failed to insert to nspoid index'' (\<lambda>dc3.
          Some (Inr (Ok oid, dc3))))))"

definition CreateNamespace ::
    "cat_env \<Rightarrow> timestamp_t option \<Rightarrow> u8 list \<Rightarrow> DatabaseCatalog \<Rightarrow> (namespace_oid_t ResultObj \<times> DatabaseCatalog) res option" where
  "CreateNamespace env seen name dc =
     (case TryLock seen dc of
        (False, dc1) \<Rightarrow> Some (Inr (Fail (Some ''Couldnt aquire a lock''), dc1))
      | (True, dc1) \<Rightarrow>
          CreateNamespaceEntry env name (next_namespace_oid dc1) (dc1\<lparr>next_namespace_oid := next_namespace_oid dc1 + 1\<rparr>))"

definition DeleteNamespaceEntry :: "cat_env \<Rightarrow> namespace_oid_t \<Rightarrow> DatabaseCatalog \<Rightarrow> (bool \<times> DatabaseCatalog) res option" where
  "DeleteNamespaceEntry env oid dc =
     obind (Some (new_chunk env dc PG_NAMESPACE)) (\<lambda>c0.
       delete_entry env PG_INDEX_NAMESPACE_NSPOID PG_NAMESPACE (BuildNamespaceChunk (stack_bytes env) c0 oid []) dc)"

definition DeleteNamespace ::
    "cat_env \<Rightarrow> timestamp_t option \<Rightarrow> namespace_oid_t \<Rightarrow> DatabaseCatalog \<Rightarrow> (bool \<times> DatabaseCatalog) res option" where
  "DeleteNamespace env seen oid dc =
     (case TryLock seen dc of
        (False, dc1) \<Rightarrow> Some (Inr (False, dc1))
      | (True, dc1) \<Rightarrow> DeleteNamespaceEntry env oid dc1)"

definition ExistsNamespace :: "cat_env \<Rightarrow> namespace_oid_t \<Rightarrow> DatabaseCatalog \<Rightarrow> (unit ResultObj \<times> DatabaseCatalog) res option" where
  "ExistsNamespace env oid dc =
     obind (Some (new_chunk env dc PG_NAMESPACE)) (\<lambda>c0.
       exists_entry env PG_INDEX_NAMESPACE_NSPOID PG_NAMESPACE (BuildNamespaceChunk_oid c0 oid) dc)"

definition UpdateNamespaceName ::
    "cat_env \<Rightarrow> namespace_oid_t \<Rightarrow> u8 list \<Rightarrow> DatabaseCatalog \<Rightarrow> (bool \<times> DatabaseCatalog) res option" where
  "UpdateNamespaceName env oid name dc =
     obind (DeleteNamespaceEntry env oid dc) (\<lambda>(ok, dc1).
       if \<not> ok then Some (Inr (False, dc1))
       else obind (CreateNamespaceEntry env name oid dc1) (\<lambda>(r, dc2).
              Some (Inr (case r of Ok _ \<Rightarrow> True | Fail _ \<Rightarrow> False, dc2))))"

section \<open>Tables\<close>

definition name_bytes :: "string \<Rightarrow> u8 list" where
  "name_bytes s = map of_char s"

definition CreateColumnEntry ::
    "cat_env \<Rightarrow> class_oid_t \<Rightarrow> SchemaColumn \<Rightarrow> DatabaseCatalog \<Rightarrow> (attribute_oid_t ResultObj \<times> DatabaseCatalog) res option" where
  "CreateColumnEntry env rel_oid column dc =
     obind (Some (new_chunk env dc PG_ATTRIBUTE)) (\<lambda>c0.
     let oid = next_attribute_oid dc;
         dc0 = dc\<lparr>next_attribute_oid := oid + 1\<rparr>;
         chunk = BuildAttributeChunk (stack_bytes env) c0 oid rel_oid (name_bytes (col_name column)) (col_type column)
                   (ucast (type_size column)) (is_nullable column)
     in obind (row_Insert PG_ATTRIBUTE chunk dc0) (\<lambda>(tup, dc1).
        or_fail (key_InsertUnique env PG_INDEX_ATTRIBUTE_ATTRELID_ATTNAME chunk tup dc1) ''Failed to insert to attrelid_attname index'' (\<lambda>dc2.
        or_fail (key_InsertUnique env PG_INDEX_ATTRIBUTE_ATTNUM chunk tup dc2) ''Failed to insert to attnum index'' (\<lambda>dc3.
          Some (Inr (Ok oid, dc3))))))"

definition CreateTableEntry ::
    "cat_env \<Rightarrow> u8 list \<Rightarrow> class_oid_t \<Rightarrow> namespace_oid_t \<Rightarrow> RelKind \<Rightarrow> DatabaseCatalog \<Rightarrow>
     (class_oid_t ResultObj \<times> DatabaseCatalog) res option" where
  "CreateTableEntry env name oid namespace_oid kind dc =
     obind (Some (new_chunk env dc PG_CLASS)) (\<lambda>c0.
     let chunk = BuildClassChunk (stack_bytes env) (stack_bytes env) c0 oid name namespace_oid (ToChar_rel kind) name
     in obind (row_Insert PG_CLASS chunk dc) (\<lambda>(tup, dc1).
        or_fail (key_InsertUnique env PG_INDEX_CLASS_RELNAME chunk tup dc1) ''Failed to insert to relname index'' (\<lambda>dc2.
        or_fail (key_Insert env PG_INDEX_CLASS_RELNAMESPACE chunk tup dc2) ''Failed to insert to relnamespace index'' (\<lambda>dc3.
        or_fail (key_InsertUnique env PG_INDEX_CLASS_RELOID chunk tup dc3) ''Failed to insert to reloid index'' (\<lambda>dc4.
          Some (Inr (Ok oid, dc4)))))))"

fun create_columns ::
    "cat_env \<Rightarrow> class_oid_t \<Rightarrow> SchemaColumn list \<Rightarrow> DatabaseCatalog \<Rightarrow> (attribute_oid_t ResultObj \<times> DatabaseCatalog) res option" where
  "create_columns env rel_oid [] dc = Some (Inr (Ok rel_oid, dc))"
| "create_columns env rel_oid (c # cs) dc =
     or_return (CreateColumnEntry env rel_oid c dc) (\<lambda>_ dc1. create_columns env rel_oid cs dc1)"

definition create_class ::
    "cat_env \<Rightarrow> timestamp_t option \<Rightarrow> u8 list \<Rightarrow> namespace_oid_t \<Rightarrow> RelKind \<Rightarrow> SchemaColumn list \<Rightarrow> DatabaseCatalog \<Rightarrow>
     (class_oid_t ResultObj \<times> DatabaseCatalog) res option" where
  "create_class env seen name namespace_oid kind columns dc =
     (case TryLock seen dc of
        (False, dc1) \<Rightarrow> Some (Inr (Ok INVALID_OID, dc1))
      | (True, dc1) \<Rightarrow>
          or_return (ExistsNamespace env namespace_oid dc1) (\<lambda>_ dc2.
          let oid = next_class_oid dc2
          in or_return (CreateTableEntry env name oid namespace_oid kind (dc2\<lparr>next_class_oid := oid + 1\<rparr>)) (\<lambda>rel_oid dc3.
             or_return (create_columns env rel_oid columns dc3) (\<lambda>_ dc4. Some (Inr (Ok oid, dc4))))))"

definition db_CreateTable ::
    "cat_env \<Rightarrow> timestamp_t option \<Rightarrow> u8 list \<Rightarrow> namespace_oid_t \<Rightarrow> Schema \<Rightarrow> DatabaseCatalog \<Rightarrow>
     (class_oid_t ResultObj \<times> DatabaseCatalog) res option" where
  "db_CreateTable env seen name namespace_oid schema dc =
     create_class env seen name namespace_oid REGULAR_TABLE (schema_columns schema) dc"

definition CreateIndexClass ::
    "cat_env \<Rightarrow> timestamp_t option \<Rightarrow> u8 list \<Rightarrow> namespace_oid_t \<Rightarrow> SchemaColumn list \<Rightarrow> DatabaseCatalog \<Rightarrow>
     (class_oid_t ResultObj \<times> DatabaseCatalog) res option" where
  "CreateIndexClass env seen name namespace_oid columns dc = create_class env seen name namespace_oid INDEX columns dc"

definition DeleteTableEntry :: "cat_env \<Rightarrow> class_oid_t \<Rightarrow> DatabaseCatalog \<Rightarrow> (bool \<times> DatabaseCatalog) res option" where
  "DeleteTableEntry env oid dc =
     obind (Some (new_chunk env dc PG_CLASS)) (\<lambda>c0.
       delete_entry env PG_INDEX_CLASS_RELOID PG_CLASS (BuildClassChunk_oid c0 oid) dc)"

definition db_ExistsTable :: "cat_env \<Rightarrow> class_oid_t \<Rightarrow> DatabaseCatalog \<Rightarrow> (unit ResultObj \<times> DatabaseCatalog) res option" where
  "db_ExistsTable env oid dc =
     obind (Some (new_chunk env dc PG_CLASS)) (\<lambda>c0.
       exists_entry env PG_INDEX_CLASS_RELOID PG_CLASS (BuildClassChunk_oid c0 oid) dc)"

definition UpdateTableName ::
    "cat_env \<Rightarrow> class_oid_t \<Rightarrow> u8 list \<Rightarrow> namespace_oid_t \<Rightarrow> DatabaseCatalog \<Rightarrow> (bool \<times> DatabaseCatalog) res option" where
  "UpdateTableName env oid name namespace_oid dc =
     obind (DeleteTableEntry env oid dc) (\<lambda>(ok, dc1).
       if \<not> ok then Some (Inr (False, dc1))
       else obind (CreateTableEntry env name oid namespace_oid REGULAR_TABLE dc1) (\<lambda>(r, dc2).
              Some (Inr (case r of Ok _ \<Rightarrow> True | Fail _ \<Rightarrow> False, dc2))))"

section \<open>Indexes\<close>

definition CreateIndexEntry ::
    "cat_env \<Rightarrow> class_oid_t \<Rightarrow> class_oid_t \<Rightarrow> IndexSchema \<Rightarrow> DatabaseCatalog \<Rightarrow> (class_oid_t ResultObj \<times> DatabaseCatalog) res option" where
  "CreateIndexEntry env class_oid rel_oid schema dc =
     obind (Some (new_chunk env dc PG_INDEX)) (\<lambda>c0.
     let chunk = BuildIndexChunk c0 class_oid rel_oid (is_unique schema) (is_primary schema) (is_exclusion schema)
                   (is_immediate schema) True True True 0
     in obind (row_Insert PG_INDEX chunk dc) (\<lambda>(tup, dc1).
        or_fail (key_InsertUnique env PG_INDEX_INDEX_INDOID chunk tup dc1) ''Failed to insert to indoid index'' (\<lambda>dc2.
        or_fail (key_Insert env PG_INDEX_INDEX_INDRELID chunk tup dc2) ''Failed to insert to indrelid index'' (\<lambda>dc3.
          Some (Inr (Ok class_oid, dc3))))))"

definition db_CreateIndex ::
    "cat_env \<Rightarrow> timestamp_t option \<Rightarrow> u8 list \<Rightarrow> class_oid_t \<Rightarrow> namespace_oid_t \<Rightarrow> IndexSchema \<Rightarrow> DatabaseCatalog \<Rightarrow>
     (class_oid_t ResultObj \<times> DatabaseCatalog) res option" where
  "db_CreateIndex env seen name rel_oid namespace_oid schema dc =
     (case TryLock seen dc of
        (False, dc1) \<Rightarrow> Some (Inr (Ok INVALID_OID, dc1))
      | (True, dc1) \<Rightarrow>
          or_return (db_ExistsTable env rel_oid dc1) (\<lambda>_ dc2.
          or_return (CreateIndexClass env None name namespace_oid (schema_columns (Schema.truncate schema)) dc2) (\<lambda>class_oid dc3.
          or_return (CreateIndexEntry env class_oid rel_oid schema dc3) (\<lambda>_ dc4. Some (Inr (Ok class_oid, dc4))))))"

section \<open>Constraints\<close>

definition CreateConstraintEntry ::
    "cat_env \<Rightarrow> constraint_oid_t \<Rightarrow> ConstraintProps \<Rightarrow> DatabaseCatalog \<Rightarrow> (class_oid_t ResultObj \<times> DatabaseCatalog) res option" where
  "CreateConstraintEntry env oid props dc =
     obind (Some (new_chunk env dc PG_CONSTRAINT)) (\<lambda>c0.
     let chunk = BuildConstraintChunk (stack_bytes env) c0 oid props
     in obind (row_Insert PG_CONSTRAINT chunk dc) (\<lambda>(tup, dc1).
        or_fail (key_InsertUnique env PG_INDEX_CONSTRAINT_CONOID chunk tup dc1) ''Failed to insert to conoid index'' (\<lambda>dc2.
        or_fail (key_InsertUnique env PG_INDEX_CONSTRAINT_CONNAME chunk tup dc2) ''Failed to insert to conname index'' (\<lambda>dc3.
        or_return (ExistsNamespace env (ns_oid props) dc3) (\<lambda>_ dc4.
        or_fail (key_Insert env PG_INDEX_CONSTRAINT_CONNAMESPACE chunk tup dc4) ''Failed to insert to connamespace index'' (\<lambda>dc5.
        or_return (db_ExistsTable env (cp_rel_oid props) dc5) (\<lambda>_ dc6.
        or_fail (key_Insert env PG_INDEX_CONSTRAINT_CONRELID chunk tup dc6) ''Failed to insert to conrelid index'' (\<lambda>dc7.
        or_return (db_ExistsTable env (cp_ind_oid props) dc7) (\<lambda>_ dc8.
        or_fail (key_Insert env PG_INDEX_CONSTRAINT_CONINDID chunk tup dc8) ''Failed to insert to conindid index'' (\<lambda>dc9.
        or_return (db_ExistsTable env (cp_for_oid props) dc9) (\<lambda>_ dc10.
        or_fail (key_Insert env PG_INDEX_CONSTRAINT_CONFRELID chunk tup dc10) ''Failed to insert to res_for index'' (\<lambda>dc11.
          Some (Inr (Ok oid, dc11))))))))))))))"

definition CreateConstraint ::
    "cat_env \<Rightarrow> timestamp_t option \<Rightarrow> ConstraintProps \<Rightarrow> DatabaseCatalog \<Rightarrow> (class_oid_t ResultObj \<times> DatabaseCatalog) res option" where
  "CreateConstraint env seen props dc =
     (case TryLock seen dc of
        (False, dc1) \<Rightarrow> Some (Inr (Ok INVALID_OID, dc1))
      | (True, dc1) \<Rightarrow>
          CreateConstraintEntry env (next_constraint_oid dc1) props (dc1\<lparr>next_constraint_oid := next_constraint_oid dc1 + 1\<rparr>))"

section \<open>Databases\<close>

text \<open>The databases are kept with the session they were made in; \<open>GetDatabaseCatalog\<close> hands one out in the present session.
  A mapping can hold a null pointer: looking up a missing database with \<^verbatim>\<open>operator[]\<close> inserts one.\<close>

record Catalog = Session +
  databases_map :: "db_oid_t \<rightharpoonup> DatabaseCatalog option"
  next_db_oid :: db_oid_t

definition Catalog_new ::
    "(rel_oid_t \<Rightarrow> bool) \<Rightarrow> (col_oid_t list \<Rightarrow> col_oid_t list) \<Rightarrow> (rel_oid_t \<Rightarrow> page_id \<Rightarrow> mem) \<Rightarrow> TlState \<Rightarrow>
     FreeSpaceManagerIndex \<Rightarrow> ('a Session_scheme) \<Rightarrow> Catalog res" where
  "Catalog_new opened order mems st fsm s =
     ebind (Table_new opened (CreateDatabaseSchema order) PG_DATABASES PG_VARLEN) (\<lambda>t.
     ebind (make_indexes opened mems st
         [(PG_INDEX_DATABASE_DATOID, PG_DATABASES, AttrsFor PG_INDEX_DATABASE_DATOID),
          (PG_INDEX_DATABASE_DATNAME, PG_DATABASES, AttrsFor PG_INDEX_DATABASE_DATNAME)] fsm Map.empty) (\<lambda>ix.
     Inr \<lparr>txn = txn s, mvcc = mvcc s, heap_fsm = heap_fsm s, heap_pages = heap_pages s,
          sys_tables = [PG_DATABASES \<mapsto> t], sys_indexes = ix, databases_map = Map.empty, next_db_oid = 1\<rparr>))"

definition database_layout :: DataChunkLayout where
  "database_layout = DataChunkLayout_new [DATOID, DATNAME] [ucast (SizeOf INTEGER), ucast (SizeOf VARCHAR)]"

definition RemoveMapping :: "db_oid_t \<Rightarrow> Catalog \<Rightarrow> bool \<times> Catalog" where
  "RemoveMapping oid c =
     (case databases_map c oid of
        None \<Rightarrow> (False, c)
      | Some _ \<Rightarrow> (True, c\<lparr>databases_map := (databases_map c)(oid := None)\<rparr>))"

definition CreateDatabaseEntry :: "cat_env \<Rightarrow> u8 list \<Rightarrow> db_oid_t \<Rightarrow> Catalog \<Rightarrow> (bool \<times> Catalog) res option" where
  "CreateDatabaseEntry env name oid c =
     obind (Some (BuildDatabaseChunk (stack_bytes env) (CreateDataChunk database_layout (chunk_bytes env)) oid name)) (\<lambda>chunk.
     obind (row_Insert PG_DATABASES chunk c) (\<lambda>(tup, c1).
     obind (key_InsertUnique env PG_INDEX_DATABASE_DATNAME chunk tup c1) (\<lambda>(res_name, c2).
       case res_name of
         Fail _ \<Rightarrow> Some (Inr (False, c2))
       | Ok _ \<Rightarrow>
           obind (key_InsertUnique env PG_INDEX_DATABASE_DATOID chunk tup c2) (\<lambda>(res_oid, c3).
             Some (Inr (case res_oid of Fail _ \<Rightarrow> False | Ok _ \<Rightarrow> True, c3))))))"

text \<open>\<open>builder\<close> is \<open>CreateDatabaseCatalog\<close> with the state of the disk and of the index pages. \<^verbatim>\<open>throw;\<close> outside of a handler
  ends the program.\<close>

definition CreateDatabase ::
    "cat_env \<Rightarrow> (Catalog \<Rightarrow> db_oid_t \<Rightarrow> DatabaseCatalog res) \<Rightarrow> u8 list \<Rightarrow> Catalog \<Rightarrow> (db_oid_t ResultObj \<times> Catalog) res option" where
  "CreateDatabase env builder name c =
     (let oid = next_db_oid c;
          c0 = c\<lparr>next_db_oid := oid + 1\<rparr>
      in obind (Some (builder c0 oid)) (\<lambda>dbc.
         obind (CreateDatabaseEntry env name (db_id dbc) (c0\<lparr>databases_map := (databases_map c0)(oid \<mapsto> Some dbc)\<rparr>)) (\<lambda>(ok, c1).
           if ok then Some (Inr (Ok oid, c1)) else Some (Inl (RuntimeError ''terminate'')))))"

definition DeleteDatabaseEntry :: "cat_env \<Rightarrow> db_oid_t \<Rightarrow> Catalog \<Rightarrow> (bool \<times> Catalog) res option" where
  "DeleteDatabaseEntry env oid c =
     obind (Some (BuildDatabaseChunk (stack_bytes env) (CreateDataChunk database_layout (chunk_bytes env)) oid [])) (\<lambda>chunk.
       delete_entry env PG_INDEX_DATABASE_DATOID PG_DATABASES chunk c)"

definition DeleteDatabase :: "cat_env \<Rightarrow> db_oid_t \<Rightarrow> Catalog \<Rightarrow> (bool \<times> Catalog) res option" where
  "DeleteDatabase env oid c =
     obind (DeleteDatabaseEntry env oid c) (\<lambda>(ok, c1).
       if \<not> ok then Some (Inl (AssertFailed ''Failed to delete entry''))
       else case RemoveMapping oid c1 of
         (False, c2) \<Rightarrow> Some (Inl (AssertFailed ''Mapping not found''))
       | (True, c2) \<Rightarrow> Some (Inr (True, c2)))"

definition UpdateDatabaseName :: "cat_env \<Rightarrow> db_oid_t \<Rightarrow> u8 list \<Rightarrow> Catalog \<Rightarrow> (bool \<times> Catalog) res option" where
  "UpdateDatabaseName env oid name c =
     obind (DeleteDatabaseEntry env oid c) (\<lambda>(ok, c1).
       if \<not> ok then Some (Inr (False, c1)) else CreateDatabaseEntry env name oid c1)"

definition GetDatabaseCatalog :: "Catalog \<Rightarrow> db_oid_t \<Rightarrow> DatabaseCatalog option \<times> Catalog" where
  "GetDatabaseCatalog c oid =
     (case databases_map c oid of
        None \<Rightarrow> (None, c\<lparr>databases_map := (databases_map c)(oid \<mapsto> None)\<rparr>)
      | Some p \<Rightarrow>
          (map_option (\<lambda>dc. dc\<lparr>txn := txn c, mvcc := mvcc c, heap_fsm := heap_fsm c, heap_pages := heap_pages c\<rparr>) p, c))"

end
