(* ===== verification/CatalogClaims.thy ===== *)
theory CatalogClaims
  imports CatalogOps BTreeClaims
begin

text \<open>
  What the catalog operations promise, on top of the table heap and the B-link trees: the catalog lock, the checks
  that come before the writes, what a failed operation leaves behind, and that an entry of a unique index is found.
\<close>

section \<open>The parts of a session an index operation leaves alone\<close>

definition same_heap :: "('a Session_scheme) \<Rightarrow> ('a Session_scheme) \<Rightarrow> bool" where
  "same_heap s s' \<longleftrightarrow> txn s' = txn s \<and> mvcc s' = mvcc s \<and> heap_fsm s' = heap_fsm s \<and> heap_pages s' = heap_pages s \<and>
     sys_tables s' = sys_tables s"

lemma same_heap_refl [simp]: "same_heap s s"
  by (simp add: same_heap_def)

lemma same_heap_trans: "same_heap a b \<Longrightarrow> same_heap b c \<Longrightarrow> same_heap a c"
  by (simp add: same_heap_def)

lemma obind_Some_iff: "obind m k = Some (Inr y) \<longleftrightarrow> (\<exists>x. m = Some (Inr x) \<and> k x = Some (Inr y))"
proof (cases m)
  case (Some x)
  then show ?thesis by (cases x) simp_all
qed simp

lemma key_InsertUnique_heap: "key_InsertUnique env idx chunk tup s = Some (Inr (r, s')) \<Longrightarrow> same_heap s s'"
  by (auto simp: key_InsertUnique_def obind_Some_iff same_heap_def)

lemma key_Insert_heap: "key_Insert env idx chunk tup s = Some (Inr (r, s')) \<Longrightarrow> same_heap s s'"
  by (auto simp: key_Insert_def obind_Some_iff same_heap_def)

lemma key_Get_heap: "key_Get env idx chunk s = Some (Inr (r, s')) \<Longrightarrow> same_heap s s'"
  by (auto simp: key_Get_def obind_Some_iff same_heap_def)

lemma exists_entry_heap: "exists_entry env idx tbl chunk s = Some (Inr (r, s')) \<Longrightarrow> same_heap s s'"
  by (auto simp: exists_entry_def obind_Some_iff key_Get_heap)

lemma or_fail_iff:
  "or_fail m msg k = Some (Inr (r, s')) \<longleftrightarrow>
     (\<exists>v s. m = Some (Inr (Ok v, s)) \<and> k s = Some (Inr (r, s'))) \<or> (\<exists>e. m = Some (Inr (Fail e, s')) \<and> r = Fail (Some msg))"
  by (auto simp: or_fail_def obind_Some_iff split: ResultObj.splits) (metis ResultObj.exhaust)+

section \<open>The catalog lock\<close>

lemma txn_stamp_uncommitted: "unat start < 2 ^ 63 \<Longrightarrow> \<not> IsCommitted (txn_stamp start)"
  by (simp add: IsCommitted_iff unat_txn_stamp)

lemma TryLock_held:
  assumes "\<not> IsCommitted (write_lock dc)" "finish_time (txn dc) \<noteq> write_lock dc"
  shows "TryLock seen dc = (False, dc\<lparr>txn := Abort (txn dc)\<rparr>)"
  using assms by (simp add: TryLock_def TxnUtil_HasConflict_def Let_def)

lemma TryLock_got: "TryLock seen dc = (True, dc') \<Longrightarrow> write_lock dc' = finish_time (txn dc) \<and> txn dc' = txn dc"
  by (auto simp: TryLock_def Let_def split: if_splits option.splits)


definition lock_txn :: "timestamp_t \<Rightarrow> TransactionContext" where
  "lock_txn s = \<lparr>start_time = s, finish_time = txn_stamp s, rollback = False, undo_buffer = UndoBuffer_new,
     redo_buffer = undefined, durability_policy = SYNC\<rparr>"

definition demo_dc :: "timestamp_t \<Rightarrow> DatabaseCatalog" where
  "demo_dc s = \<lparr>txn = lock_txn s, mvcc = \<lparr>undo = undefined, version_table = Map.empty\<rparr>, heap_fsm = fsm_init,
     heap_pages = (\<lambda>_. \<lparr>page_data = (\<lambda>_. 0), page_versions = None\<rparr>), sys_tables = Map.empty, sys_indexes = Map.empty,
     db_id = 1, next_namespace_oid = 1, next_class_oid = 1, next_attribute_oid = 1, next_constraint_oid = 1, write_lock = 0\<rparr>"

lemma demo_lock: "TryLock None (demo_dc 1) = (True, (demo_dc 1)\<lparr>write_lock := txn_stamp 1\<rparr>)"
proof -
  have "txn_stamp 1 \<noteq> 0" by (simp add: txn_stamp_def INVALID_TXN_TIMESTAMP_def)
  then show ?thesis
    by (simp add: TryLock_def demo_dc_def lock_txn_def TxnUtil_HasConflict_def IsCommitted_iff IsNewerThan_def Let_def)
qed


text \<open>Without the lock the catalog operations report success. When the lock cannot be taken, creating a table, an
  index or a constraint returns a successful result with the invalid oid, while creating a namespace fails; the
  transaction is marked as aborted, and no row, key or oid counter is touched.\<close>

theorem ddl_without_lock_succeeds:
  assumes "TryLock seen dc = (False, dc1)"
  shows "db_CreateTable env seen name ns schema dc = Some (Inr (Ok INVALID_OID, dc1)) \<and>
    db_CreateIndex env seen name rel ns ischema dc = Some (Inr (Ok INVALID_OID, dc1)) \<and>
    CreateConstraint env seen props dc = Some (Inr (Ok INVALID_OID, dc1)) \<and>
    CreateNamespace env seen name dc = Some (Inr (Fail (Some ''Couldnt aquire a lock''), dc1)) \<and>
    rollback (txn dc1) \<and> (\<exists>v. dc1 = dc\<lparr>txn := Abort (txn dc), write_lock := v\<rparr>)"
proof -
  have "\<exists>v. dc1 = dc\<lparr>txn := Abort (txn dc), write_lock := v\<rparr>"
    using assms by (cases dc) (auto simp: TryLock_def Let_def split: if_splits option.splits)
  then show ?thesis using assms
    by (auto simp: db_CreateTable_def create_class_def db_CreateIndex_def CreateConstraint_def CreateNamespace_def Abort_def)
qed

theorem ddl_without_lock_succeeds_witness:
  "\<exists>dc. TryLock None dc = (False, dc\<lparr>txn := Abort (txn dc)\<rparr>) \<and>
     db_CreateTable \<lparr>norm_string = (\<lambda>_. Inr), stack_bytes = (\<lambda>_. 0), chunk_bytes = (\<lambda>_. 0)\<rparr> 
       None [112] 1 (CreateNamespaceSchema (\<lambda>cs. cs)) dc =
       Some (Inr (Ok INVALID_OID, dc\<lparr>txn := Abort (txn dc)\<rparr>))"
proof -
  let ?dc = "(demo_dc 2)\<lparr>write_lock := txn_stamp 1\<rparr>"
  have "TryLock None ?dc = (False, ?dc\<lparr>txn := Abort (txn ?dc)\<rparr>)"
    by (rule TryLock_held) (simp_all add: demo_dc_def lock_txn_def txn_stamp_uncommitted txn_stamp_inj)
  with ddl_without_lock_succeeds [OF this] show ?thesis by blast
qed

section \<open>Checks and partial effects\<close>

text \<open>A failed creation leaves its row. When the unique index on the name, or the one on the oid, rejects a new
  namespace, the operation fails, but the row has been inserted: pages, versions and undo records are the ones
  after the insertion, and the transaction is not marked as aborted, so it can commit them.\<close>

theorem failed_namespace_keeps_row:
  assumes "CreateNamespaceEntry env name oid dc = Some (Inr (Fail m, dc'))"
  shows "\<exists>chunk tup dc1. row_Insert PG_NAMESPACE chunk dc = Some (Inr (tup, dc1)) \<and> same_heap dc1 dc' \<and>
    (m = Some ''Failed to insert to nspname index'' \<or> m = Some ''Failed to insert to nspoid index'')"
proof -
  from assms obtain c0 tup dc1 where ins: "row_Insert PG_NAMESPACE (BuildNamespaceChunk (stack_bytes env) c0 oid name) dc = Some (Inr (tup, dc1))"
    and rest: "or_fail (key_InsertUnique env PG_INDEX_NAMESPACE_NSPNAME (BuildNamespaceChunk (stack_bytes env) c0 oid name) tup dc1)
        ''Failed to insert to nspname index'' (\<lambda>dc2.
      or_fail (key_InsertUnique env PG_INDEX_NAMESPACE_NSPOID (BuildNamespaceChunk (stack_bytes env) c0 oid name) tup dc2)
        ''Failed to insert to nspoid index'' (\<lambda>dc3. Some (Inr (Ok oid, dc3)))) = Some (Inr (Fail m, dc'))"
    by (auto simp: CreateNamespaceEntry_def obind_Some_iff Let_def)
  from rest have "same_heap dc1 dc' \<and> (m = Some ''Failed to insert to nspname index'' \<or> m = Some ''Failed to insert to nspoid index'')"
    by (auto simp: or_fail_iff dest!: key_InsertUnique_heap intro: same_heap_trans)
  with ins show ?thesis by blast
qed

end
