(* ===== verification/CatalogLookup.thy ===== *)
theory CatalogLookup
  imports CatalogClaims MvccTheorems
begin

text \<open>
  Finding and deleting entries of the catalog, through all the layers below it: a row of arguments is laid out as a chunk, the
  key encoder makes a key of it, the B-link tree looks the key up, and the version store tells which of the tuples found are
  live. The entry lemmas hold for any system table with an index on keys of one length; the properties state them for the
  namespaces.
\<close>

section \<open>Live tuples\<close>

text \<open>A tuple is live when its newest version is not a deletion; a tuple without version record is one from before.\<close>

definition newest_version :: "Mvcc \<Rightarrow> table_id \<Rightarrow> TupleId \<Rightarrow> UndoRecord option res" where
  "newest_version mv tbl t =
     ebind (GetDelta mv \<lparr>tbl_id = tbl, pid = GetPageId t\<rparr> (GetIndex t)) (\<lambda>u.
       case u of None \<Rightarrow> Inr None | Some p \<Rightarrow> ebind (deref mv p) (\<lambda>r. Inr (Some r)))"

definition live_tuple :: "Mvcc \<Rightarrow> table_id \<Rightarrow> TupleId \<Rightarrow> bool" where
  "live_tuple mv tbl t = (case newest_version mv tbl t of Inr None \<Rightarrow> True | Inr (Some r) \<Rightarrow> \<not> undo_IsDeleted r | Inl _ \<Rightarrow> False)"

lemma GetTidExists_live:
  "list_all (\<lambda>t. \<not> isl (newest_version mv tbl t)) ts \<Longrightarrow> GetTidExists mv tbl ts = Inr (list_ex (live_tuple mv tbl) ts)"
proof (induction ts)
  case (Cons t ts)
  show ?case
  proof (cases "GetDelta mv \<lparr>tbl_id = tbl, pid = GetPageId t\<rparr> (GetIndex t)")
    case (Inl e)
    with Cons.prems show ?thesis by (simp add: newest_version_def)
  next
    case (Inr u)
    with Cons show ?thesis
      by (cases u) (auto simp: newest_version_def live_tuple_def deref_def split: option.splits)
  qed
qed simp

section \<open>Keys of oids\<close>

lemma oid_key:
  assumes "chunk_row sz c oid = Some (bytes32 v)" "sz oid = 4"
  shows "BuildKey_cols norm c [TypeSize_new oid INTEGER] = Inr (Encode_signed v)"
proof -
  have "oid \<in> dom (chunk_row sz c)" using assms(1) by auto
  then have "oid \<in> set (GetColumnIds c)" by (simp add: dom_chunk_row)
  from chunk_Get_row [OF this, of sz] assms obtain a where a: "chunk_Get c oid = Inr a" "rd_bytes c a 4 = bytes32 v"
    by auto
  then have "rd32 c a = v" using unat_u32_less [of v] by (simp add: rd32_def bytes32_def le_dec_enc)
  with a(1) show ?thesis by (simp add: TypeSize_new_def SwitchType_def with_null_marker_def plain_specs_def)
qed

lemma tid_of_snoc: "tid_of (b @ EncodeUnsigned v) = v"
proof -
  have "be_dec (EncodeUnsigned v) = unat v" using EncodeUnsigned_be [of 8 v] by (simp add: be_dec_enc)
  then show ?thesis by (simp add: tid_of_def sizeof_ValTyp_def length_EncodeUnsigned)
qed

section \<open>Looking an entry up\<close>

text \<open>An index on keys of one length: a well-formed tree in which every key and every separator has \<open>n\<close> bytes before its
  tuple id, so that none is a proper prefix of another.\<close>

definition index_ok :: "nat \<Rightarrow> BTreeIndex \<Rightarrow> row list \<Rightarrow> bool" where
  "index_ok n t rows \<longleftrightarrow> tree_ok t rows \<and> length rows \<le> 17 \<and> tl_sane t \<and> n \<noteq> 0 \<and> n \<le> 112 \<and>
     (\<forall>b \<in> row_prefixes (bt_nodes t) (hd rows). length b = n)"

lemma prefix_free_length: "(\<And>b. b \<in> S \<Longrightarrow> length b = n) \<Longrightarrow> prefix_free S"
  unfolding prefix_free_def by (metis prefix_length_prefix prefix_order.antisym prefix_order.refl le_refl)

definition tids_of :: "BTreeIndex \<Rightarrow> row list \<Rightarrow> u8 list \<Rightarrow> TupleId list" where
  "tids_of t rows b = map (\<lambda>k. \<lparr>tid_value = tid_of k\<rparr>) (filter (\<lambda>k. tid_prefix k = b) (tree_keys t rows))"

text \<open>A lookup changes nothing but the stack of the index, which no later lookup depends on.\<close>

definition same_but_stack :: "('a Session_scheme) \<Rightarrow> rel_oid_t \<Rightarrow> BTreeIndex \<Rightarrow> TlState \<Rightarrow> ('a Session_scheme)" where
  "same_but_stack s idx t st = s\<lparr>sys_indexes := (sys_indexes s)(idx \<mapsto> t\<lparr>bt_tl := st\<rparr>)\<rparr>"

lemma same_but_stack_heap [simp]: "same_heap s (same_but_stack s idx t st)"
  by (simp add: same_heap_def same_but_stack_def)

lemma same_but_stack_simps [simp]:
  "mvcc (same_but_stack s idx t st) = mvcc s" "txn (same_but_stack s idx t st) = txn s"
  "sys_tables (same_but_stack s idx t st) = sys_tables s"
  "sys_indexes (same_but_stack s idx t st) idx = Some (t\<lparr>bt_tl := st\<rparr>)"
  by (simp_all add: same_but_stack_def)

lemma stack_index [simp]: "tids_of (t\<lparr>bt_tl := st\<rparr>) rows = tids_of t rows"
  by (simp add: tids_of_def tree_keys_def fun_eq_iff)

lemma stack_index_ok: "index_ok n t rows \<Longrightarrow> tl_ok st \<Longrightarrow> index_ok n (t\<lparr>bt_tl := st\<rparr>) rows"
  by (simp add: index_ok_def tree_ok_def next_pid_def tl_sane_ok)

lemma key_Get_spec:
  assumes "sys_indexes s idx = Some t" "BuildKey_cols (norm_string env) chunk (bt_attrs t) = Inr b" "index_ok (length b) t rows"
  shows "\<exists>st. key_Get env idx chunk s = Some (Inr (tids_of t rows b, same_but_stack s idx t st)) \<and>
    index_ok (length b) (t\<lparr>bt_tl := st\<rparr>) rows"
proof -
  let ?k = "mk_key (b @ EncodeUnsigned (0 :: u64))"
  note ix = assms(3) [unfolded index_ok_def]
  have len: "length (b @ EncodeUnsigned (0 :: u64)) < 65536" using ix by (simp add: length_EncodeUnsigned)
  have "prefix_free (insert b (row_prefixes (bt_nodes t) (hd rows)))" using ix by (intro prefix_free_length [of _ "length b"]) auto
  moreover have "key_size_ok (key_bytes ?k)" using ix len by (simp add: key_size_ok_def length_EncodeUnsigned Suc_le_eq)
  then have "klen ?k \<noteq> 0" using key_size_klen [OF key_ok_mk_key [OF len]] by (auto simp: key_size_ok_def)
  moreover have "length b < DB7_MAX_ROW_SIZE" using ix by (simp add: DB7_MAX_ROW_SIZE_def)
  ultimately obtain st where st: "tl_ok st"
    "BTree_GetKey t ?k = Some (Inr (t\<lparr>bt_tl := st\<rparr>, map tid_of (filter (\<lambda>k. tid_prefix k = b) (tree_keys t rows))))"
    using Get_all [of t rows ?k b] ix key_ok_mk_key [OF len] len by (auto simp: EncodeUnsigned_0)
  have "BuildKey (norm_string env) chunk 0 (bt_attrs t) = Inr ?k" using assms(2) by (simp add: BuildKey_def mk_key_def Let_def)
  then show ?thesis using assms(1) st stack_index_ok [OF assms(3) st(1)]
    by (intro exI [of _ st]) (simp add: key_Get_def get_index_def BTree_Get_def tids_of_def same_but_stack_def comp_def)
qed

lemma exists_entry_spec:
  assumes "sys_indexes s idx = Some t" "BuildKey_cols (norm_string env) chunk (bt_attrs t) = Inr b" "index_ok (length b) t rows"
    and "sys_tables s tbl = Some tb" "list_all (\<lambda>tid. \<not> isl (newest_version (mvcc s) (tbl_oid tb) tid)) (tids_of t rows b)"
  shows "\<exists>st. exists_entry env idx tbl chunk s =
      Some (Inr (if list_ex (live_tuple (mvcc s) (tbl_oid tb)) (tids_of t rows b) then Ok () else Fail (Some ''Namespace does not exist''),
        same_but_stack s idx t st))"
proof -
  from key_Get_spec [OF assms(1-3)] obtain st where "key_Get env idx chunk s = Some (Inr (tids_of t rows b, same_but_stack s idx t st))"
    by blast
  then show ?thesis using GetTidExists_live [OF assms(5)] assms(4)
    by (intro exI [of _ st]) (simp add: exists_entry_def get_table_def)
qed

section \<open>Deleting an entry\<close>

text \<open>The version chain of a tuple: \<open>rs\<close> are its records, newest first.\<close>

definition tuple_versions :: "Table \<Rightarrow> Mvcc \<Rightarrow> TupleId \<Rightarrow> UndoRecord list \<Rightarrow> bool" where
  "tuple_versions t mv tup rs \<longleftrightarrow>
     (let i = \<lparr>tbl_id = tbl_oid t, pid = GetPageId tup\<rparr>
      in (\<forall>vs. version_table mv i = Some vs \<longrightarrow> length vs = unat (max_row_count (tbl_layout t))) \<and>
         GetIndex tup < max_row_count (tbl_layout t) \<and> chain (undo_heap (undo mv)) (row_head mv i (GetIndex tup)) rs)"

lemma newest_version_chain:
  assumes "tuple_versions t mv tup rs"
  shows "newest_version mv (tbl_oid t) tup = Inr (case rs of [] \<Rightarrow> None | r # _ \<Rightarrow> Some r)"
proof -
  let ?i = "\<lparr>tbl_id = tbl_oid t, pid = GetPageId tup\<rparr>"
  have "GetDelta mv ?i (GetIndex tup) = Inr (row_head mv ?i (GetIndex tup))"
    using assms by (auto simp: tuple_versions_def Let_def GetDelta_def GetUnsafe_def version_load_def row_head_def
        word_less_nat_alt split: option.splits)
  then show ?thesis using assms by (cases rs) (auto simp: newest_version_def tuple_versions_def Let_def deref_def)
qed

lemma newest_version_load:
  assumes "version_load mv \<lparr>tbl_id = tbl, pid = GetPageId tup\<rparr> (GetIndex tup) =
      Inr (row_head mv \<lparr>tbl_id = tbl, pid = GetPageId tup\<rparr> (GetIndex tup))"
    "chain (undo_heap (undo mv)) (row_head mv \<lparr>tbl_id = tbl, pid = GetPageId tup\<rparr> (GetIndex tup)) (r # rs)"
  shows "newest_version mv tbl tup = Inr (Some r)"
proof -
  have "version_table mv \<lparr>tbl_id = tbl, pid = GetPageId tup\<rparr> \<noteq> None" using assms(1) by (auto simp: version_load_def split: option.splits)
  then have "GetDelta mv \<lparr>tbl_id = tbl, pid = GetPageId tup\<rparr> (GetIndex tup) =
      Inr (row_head mv \<lparr>tbl_id = tbl, pid = GetPageId tup\<rparr> (GetIndex tup))"
    using assms(1) by (auto simp: GetDelta_def GetUnsafe_def)
  then show ?thesis using assms(2) by (auto simp: newest_version_def deref_def)
qed

lemma GetTidForModify_newest:
  assumes "newest_version mv tbl tup = Inr u" "u = None \<or> \<not> undo_IsDeleted (the u)"
    "u \<noteq> None \<longrightarrow> \<not> TxnUtil_HasConflict (rec_timestamp (the u)) (finish_time tx) (start_time tx)"
  shows "GetTidForModify mv tx tbl [tup] = Inr (Ok tup)"
  using assms by (cases "GetDelta mv \<lparr>tbl_id = tbl, pid = GetPageId tup\<rparr> (GetIndex tup)")
    (auto simp: newest_version_def deref_def split: option.splits)

lemma delete_entry_spec:
  assumes "sys_indexes s idx = Some t" "BuildKey_cols (norm_string env) chunk (bt_attrs t) = Inr b" "index_ok (length b) t rows"
    and "sys_tables s tbl = Some tb" "tids_of t rows b = [tup]" "tup \<noteq> INVALID_TID"
    and "store_ok (undo (mvcc s)) (undo_buffer (txn s))" "arena_free (undo (mvcc s))" "tuple_versions tb (mvcc s) tup rs"
    and "rs \<noteq> [] \<longrightarrow> \<not> conflicting (txn s) rs \<and> \<not> undo_IsDeleted (hd rs)"
  shows "\<exists>st tx mv r. delete_entry env idx tbl chunk s =
      Some (Inr (True, (same_but_stack s idx t st)\<lparr>txn := tx, mvcc := mv\<rparr>)) \<and>
    index_ok (length b) (t\<lparr>bt_tl := st\<rparr>) rows \<and> newest_version mv (tbl_oid tb) tup = Inr (Some r) \<and> undo_IsDeleted r"
proof -
  let ?i = "\<lparr>tbl_id = tbl_oid tb, pid = GetPageId tup\<rparr>"
  from key_Get_spec [OF assms(1-3)] obtain st where st: "key_Get env idx chunk s = Some (Inr (tids_of t rows b, same_but_stack s idx t st))"
    "index_ok (length b) (t\<lparr>bt_tl := st\<rparr>) rows" by blast
  have "GetTidForModify (mvcc s) (txn s) (tbl_oid tb) [tup] = Inr (Ok tup)"
    using GetTidForModify_newest [OF newest_version_chain [OF assms(9)]] assms(10)
    by (cases rs) (auto simp: conflicting_def)
  moreover have c: "\<forall>vs. version_table (mvcc s) ?i = Some vs \<longrightarrow> length vs = unat (max_row_count (tbl_layout tb))"
    "GetIndex tup < max_row_count (tbl_layout tb)" "chain (undo_heap (undo (mvcc s))) (row_head (mvcc s) ?i (GetIndex tup)) rs"
    using assms(9) by (simp_all add: tuple_versions_def Let_def)
  obtain tx mv r where del: "DeleteUndoRaw [] tb (txn s) (mvcc s) tup = Inr (True, tx, mv)" "rec_type r = DELETE"
    "chain (undo_heap (undo mv)) (row_head mv ?i (GetIndex tup)) (r # rs)"
    "version_load mv ?i (GetIndex tup) = Inr (row_head mv ?i (GetIndex tup))"
    using DeleteUndoRaw_ok [OF assms(7,8) c refl assms(10)] by blast
  have "newest_version mv (tbl_oid tb) tup = Inr (Some r)" by (rule newest_version_load [OF del(4,3)])
  moreover have "undo_IsDeleted r" using del(2) by (simp add: undo_IsDeleted_def)
  ultimately show ?thesis using st del(1) assms(4-6)
    by (intro exI [of _ st] exI [of _ tx] exI [of _ mv] exI [of _ r]) (simp add: delete_entry_def get_table_def del: GetTidForModify.simps)
qed

section \<open>Namespaces\<close>

text \<open>A catalog whose index on namespace oids is well formed and whose rows are laid out as the table of namespaces.\<close>

definition namespaces_ok :: "cat_env \<Rightarrow> DatabaseCatalog \<Rightarrow> BTreeIndex \<Rightarrow> row list \<Rightarrow> Table \<Rightarrow> bool" where
  "namespaces_ok env dc t rows tb \<longleftrightarrow>
     sys_indexes dc PG_INDEX_NAMESPACE_NSPOID = Some t \<and> bt_attrs t = AttrsFor PG_INDEX_NAMESPACE_NSPOID \<and> index_ok 4 t rows \<and>
     sys_tables dc PG_NAMESPACE = Some tb \<and> (\<exists>c0. new_chunk env dc PG_NAMESPACE = Inr c0 \<and> catalog_chunk Namespace_columns c0)"

text \<open>The tuples that the index has under a namespace oid.\<close>

definition namespace_tuples :: "BTreeIndex \<Rightarrow> row list \<Rightarrow> namespace_oid_t \<Rightarrow> TupleId list" where
  "namespace_tuples t rows oid = tids_of t rows (Encode_signed oid)"

lemma namespace_keys:
  assumes "catalog_chunk Namespace_columns c0"
  shows "BuildKey_cols norm (BuildNamespaceChunk_oid c0 oid) (AttrsFor PG_INDEX_NAMESPACE_NSPOID) = Inr (Encode_signed oid)"
    "BuildKey_cols norm (BuildNamespaceChunk g c0 oid name) (AttrsFor PG_INDEX_NAMESPACE_NSPOID) = Inr (Encode_signed oid)"
proof -
  note d = columns_sz_Cons columns_sz_def columns_defs SizeOf_def
  have a: "AttrsFor PG_INDEX_NAMESPACE_NSPOID = [TypeSize_new NSPOID INTEGER]"
    by (simp add: AttrsFor_def)
  show "BuildKey_cols norm (BuildNamespaceChunk_oid c0 oid) (AttrsFor PG_INDEX_NAMESPACE_NSPOID) = Inr (Encode_signed oid)"
    unfolding a by (rule oid_key [where sz = "columns_sz Namespace_columns"])
      (use assms in \<open>simp_all add: BuildNamespaceChunk_oid_def catalog_Write d\<close>)
  show "BuildKey_cols norm (BuildNamespaceChunk g c0 oid name) (AttrsFor PG_INDEX_NAMESPACE_NSPOID) = Inr (Encode_signed oid)"
    unfolding a by (rule oid_key [where sz = "columns_sz Namespace_columns"])
      (use assms in \<open>simp_all add: BuildNamespaceChunk_def Let_def catalog_Write d\<close>)
qed

lemma ExistsNamespace_spec:
  assumes "namespaces_ok env dc t rows tb"
    "list_all (\<lambda>tid. \<not> isl (newest_version (mvcc dc) (tbl_oid tb) tid)) (namespace_tuples t rows oid)"
  shows "\<exists>st. ExistsNamespace env oid dc = Some (Inr (
      if list_ex (live_tuple (mvcc dc) (tbl_oid tb)) (namespace_tuples t rows oid) then Ok ()
      else Fail (Some ''Namespace does not exist''), same_but_stack dc PG_INDEX_NAMESPACE_NSPOID t st))"
proof -
  from assms(1) obtain c0 where ok: "sys_indexes dc PG_INDEX_NAMESPACE_NSPOID = Some t" "bt_attrs t = AttrsFor PG_INDEX_NAMESPACE_NSPOID"
    "index_ok 4 t rows" "sys_tables dc PG_NAMESPACE = Some tb" "new_chunk env dc PG_NAMESPACE = Inr c0" "catalog_chunk Namespace_columns c0"
    by (auto simp: namespaces_ok_def)
  have "index_ok (length (Encode_signed oid)) t rows" using ok(3) by (simp add: length_Encode_signed)
  from exists_entry_spec [OF ok(1) _ this ok(4), of env "BuildNamespaceChunk_oid c0 oid"] namespace_keys(1) [OF ok(6)] assms(2) ok(2)
  show ?thesis unfolding namespace_tuples_def by (simp add: ExistsNamespace_def ok(5))
qed

section \<open>A concrete catalog\<close>

text \<open>One namespace with oid 5, its row at index 3 of page 1, its key in an index of one page.\<close>

definition ns_table :: Table where
  "ns_table = \<lparr>tbl_schema = CreateNamespaceSchema (\<lambda>cs. cs), tbl_layout = PaxLayout_new [4, 16], tbl_oid = PG_NAMESPACE,
     varlen_oid = PG_VARLEN\<rparr>"

definition ns_key :: "u8 list" where
  "ns_key = Encode_signed (5 :: u32) @ EncodeUnsigned (tid_value (TupleId_of 3 1))"

definition ns_tree :: BTreeIndex where
  "ns_tree = (case BTree_InsertKey demo_tree (mk_key ns_key) of
     Some (Inr t) \<Rightarrow> t\<lparr>bt_attrs := AttrsFor PG_INDEX_NAMESPACE_NSPOID\<rparr> | _ \<Rightarrow> demo_tree)"

definition ns_env :: cat_env where
  "ns_env = \<lparr>norm_string = (\<lambda>_. Inr), stack_bytes = (\<lambda>_. 0), chunk_bytes = (\<lambda>_. 0)\<rparr>"

definition ns_dc :: DatabaseCatalog where
  "ns_dc = (demo_dc 5)\<lparr>txn := demo_txn, mvcc := demo_mv, sys_tables := [PG_NAMESPACE \<mapsto> ns_table],
     sys_indexes := [PG_INDEX_NAMESPACE_NSPOID \<mapsto> ns_tree]\<rparr>"

lemma ns_table_layout: "pax_ok (tbl_layout ns_table)" "3 < max_row_count (tbl_layout ns_table)"
proof -
  have v: "pax_sizes_ok [4, 16]" by (simp add: pax_sizes_ok_def)
  from PaxLayout_new_ok [OF v] show "pax_ok (tbl_layout ns_table)" by (simp add: ns_table_def)
  have "unat (max_row_count (PaxLayout_new [4, 16])) > 3" using PaxLayout_new_ok(2) [OF v] by simp
  then show "3 < max_row_count (tbl_layout ns_table)" by (simp add: ns_table_def word_less_nat_alt)
qed

lemma ns_tree:
  "tree_ok ns_tree demo_rows" "tl_sane ns_tree" "tree_keys ns_tree demo_rows = [ns_key]"
  "bt_attrs ns_tree = AttrsFor PG_INDEX_NAMESPACE_NSPOID"
proof -
  have len: "length ns_key = 12" by (simp add: ns_key_def length_EncodeUnsigned length_Encode_signed)
  obtain t' where t': "BTree_InsertKey demo_tree (mk_key ns_key) = Some (Inr t')" "tree_inserted demo_tree demo_rows ns_key t' demo_rows"
    using demo_insert [of "mk_key ns_key"] len by (auto simp: key_ok_mk_key key_size_ok_def)
  then have t: "ns_tree = t'\<lparr>bt_attrs := AttrsFor PG_INDEX_NAMESPACE_NSPOID\<rparr>" by (simp add: ns_tree_def)
  from t'(2) demo_tree(3) show "tree_ok ns_tree demo_rows" "tl_sane ns_tree" "tree_keys ns_tree demo_rows = [ns_key]"
    "bt_attrs ns_tree = AttrsFor PG_INDEX_NAMESPACE_NSPOID"
    unfolding t by (simp_all add: tree_inserted_def tree_ok_def tl_sane_def tree_keys_def next_pid_def)
qed

lemma ns_key_parts: "tid_prefix ns_key = Encode_signed (5 :: u32)" "tid_of ns_key = tid_value (TupleId_of 3 1)"
proof -
  show "tid_prefix ns_key = Encode_signed (5 :: u32)" by (simp add: ns_key_def tid_prefix_snoc length_EncodeUnsigned)
  show "tid_of ns_key = tid_value (TupleId_of 3 1)" by (simp add: ns_key_def tid_of_snoc)
qed

lemma ns_tuples: "namespace_tuples ns_tree demo_rows 5 = [TupleId_of 3 1]"
  by (simp add: namespace_tuples_def tids_of_def ns_tree(3) ns_key_parts)

lemma ns_ok: "namespaces_ok ns_env ns_dc ns_tree demo_rows ns_table"
proof -
  have "row_prefixes (bt_nodes ns_tree) (hd demo_rows) = {Encode_signed (5 :: u32)}"
    using ns_tree(3) ns_key_parts(1) by (simp add: row_prefixes_def tree_keys_def demo_rows_simps)
  then have "index_ok 4 ns_tree demo_rows" using ns_tree by (simp add: index_ok_def demo_rows_simps length_Encode_signed)
  moreover have "DataChunkLayout_of_schema (tbl_schema ns_table) =
      DataChunkLayout_new (map col_oid Namespace_columns) (map (columns_sz Namespace_columns) (map col_oid Namespace_columns))"
    by (simp add: DataChunkLayout_of_schema_def BuildColumnIds_def BuildAttrSizes_def schema_columns_def ns_table_def
        CreateNamespaceSchema_def Schema_new_def columns_defs columns_sz_def SizeOf_def)
  then have "\<exists>c0. new_chunk ns_env ns_dc PG_NAMESPACE = Inr c0 \<and> catalog_chunk Namespace_columns c0"
    using catalog_demo_chunk(1) by (simp add: new_chunk_def get_table_def ns_dc_def)
  ultimately show ?thesis using ns_tree(4) by (simp add: namespaces_ok_def ns_dc_def)
qed

lemma ns_versions: "tuple_versions ns_table (mvcc ns_dc) (TupleId_of 3 1) []"
  using ns_table_layout(2) by (simp add: tuple_versions_def Let_def ns_dc_def demo_mv_def row_head_def TupleId_fields)

section \<open>The properties\<close>

text \<open>C36: A namespace exists exactly when the index on namespace oids holds, under the oid, a tuple whose newest version is
  not a deletion. The check finds it in any well-formed tree, and changes nothing but the search stack.\<close>

theorem namespace_exists_iff:
  assumes "namespaces_ok env dc t rows tb"
    "list_all (\<lambda>tid. \<not> isl (newest_version (mvcc dc) (tbl_oid tb) tid)) (namespace_tuples t rows oid)"
  shows "\<exists>st. ExistsNamespace env oid dc = Some (Inr (
      if list_ex (live_tuple (mvcc dc) (tbl_oid tb)) (namespace_tuples t rows oid) then Ok ()
      else Fail (Some ''Namespace does not exist''), same_but_stack dc PG_INDEX_NAMESPACE_NSPOID t st))"
  by (rule ExistsNamespace_spec [OF assms])

theorem namespace_exists_iff_witness:
  "\<exists>dc'. ExistsNamespace ns_env 5 ns_dc = Some (Inr (Ok (), dc'))"
  using namespace_exists_iff [OF ns_ok, of 5] newest_version_chain [OF ns_versions]
  by (auto simp: ns_tuples live_tuple_def)

text \<open>C37: A deleted namespace is gone for the transaction that deleted it. When the index holds one tuple under the oid and
  this tuple is not deleted and not in conflict with the transaction, the deletion succeeds, and the check for the
  namespace fails afterwards.\<close>

theorem deleted_namespace_gone:
  assumes "namespaces_ok env dc t rows tb" "namespace_tuples t rows oid = [tup]" "tup \<noteq> INVALID_TID"
    and "store_ok (undo (mvcc dc)) (undo_buffer (txn dc))" "arena_free (undo (mvcc dc))" "tuple_versions tb (mvcc dc) tup rs"
    and "rs \<noteq> [] \<longrightarrow> \<not> conflicting (txn dc) rs \<and> \<not> undo_IsDeleted (hd rs)"
  shows "\<exists>dc1 dc2. DeleteNamespaceEntry env oid dc = Some (Inr (True, dc1)) \<and>
    ExistsNamespace env oid dc1 = Some (Inr (Fail (Some ''Namespace does not exist''), dc2))"
proof -
  let ?b = "Encode_signed oid :: u8 list"
  from assms(1) obtain c0 where ok: "sys_indexes dc PG_INDEX_NAMESPACE_NSPOID = Some t" "bt_attrs t = AttrsFor PG_INDEX_NAMESPACE_NSPOID"
    "index_ok 4 t rows" "sys_tables dc PG_NAMESPACE = Some tb" "new_chunk env dc PG_NAMESPACE = Inr c0" "catalog_chunk Namespace_columns c0"
    by (auto simp: namespaces_ok_def)
  have ix: "index_ok (length ?b) t rows" using ok(3) by (simp add: length_Encode_signed)
  have key: "BuildKey_cols (norm_string env) (BuildNamespaceChunk (stack_bytes env) c0 oid []) (bt_attrs t) = Inr ?b"
    using namespace_keys(2) [OF ok(6)] ok(2) by simp
  obtain st tx mv r where del: "delete_entry env PG_INDEX_NAMESPACE_NSPOID PG_NAMESPACE (BuildNamespaceChunk (stack_bytes env) c0 oid []) dc =
      Some (Inr (True, (same_but_stack dc PG_INDEX_NAMESPACE_NSPOID t st)\<lparr>txn := tx, mvcc := mv\<rparr>))"
    "index_ok (length ?b) (t\<lparr>bt_tl := st\<rparr>) rows" "newest_version mv (tbl_oid tb) tup = Inr (Some r)" "undo_IsDeleted r"
    using delete_entry_spec [OF ok(1) key ix ok(4) assms(2) [unfolded namespace_tuples_def] assms(3-7)] by blast
  let ?dc1 = "(same_but_stack dc PG_INDEX_NAMESPACE_NSPOID t st)\<lparr>txn := tx, mvcc := mv\<rparr>"
  have "DeleteNamespaceEntry env oid dc = Some (Inr (True, ?dc1))" using del(1) by (simp add: DeleteNamespaceEntry_def ok(5))
  moreover have "new_chunk env ?dc1 PG_NAMESPACE = Inr c0" using ok(5) by (simp add: new_chunk_def get_table_def)
  moreover have "\<exists>st'. exists_entry env PG_INDEX_NAMESPACE_NSPOID PG_NAMESPACE (BuildNamespaceChunk_oid c0 oid) ?dc1 =
      Some (Inr (Fail (Some ''Namespace does not exist''), same_but_stack ?dc1 PG_INDEX_NAMESPACE_NSPOID (t\<lparr>bt_tl := st\<rparr>) st'))"
    using exists_entry_spec [where s = ?dc1 and idx = PG_INDEX_NAMESPACE_NSPOID and t = "t\<lparr>bt_tl := st\<rparr>" and b = ?b and rows = rows
        and tbl = PG_NAMESPACE and tb = tb and env = env and chunk = "BuildNamespaceChunk_oid c0 oid"]
      namespace_keys(1) [OF ok(6)] del(2-4) ok(2,4) assms(2) by (simp add: namespace_tuples_def live_tuple_def)
  ultimately show ?thesis by (auto simp: ExistsNamespace_def)
qed

theorem deleted_namespace_gone_witness:
  "\<exists>dc1 dc2. DeleteNamespaceEntry ns_env 5 ns_dc = Some (Inr (True, dc1)) \<and>
    ExistsNamespace ns_env 5 dc1 = Some (Inr (Fail (Some ''Namespace does not exist''), dc2))"
proof -
  have "TupleId_of 3 1 \<noteq> INVALID_TID" by (simp add: TupleId_of_def INVALID_TID_def)
  moreover have "store_ok (undo (mvcc ns_dc)) (undo_buffer (txn ns_dc))" "arena_free (undo (mvcc ns_dc))"
    using demo_ctx by (simp_all add: update_ctx_def ns_dc_def)
  ultimately show ?thesis using deleted_namespace_gone [OF ns_ok ns_tuples _ _ _ ns_versions] by simp
qed

end
