(* ===== verification/MvccInsert.thy ===== *)
theory MvccInsert
  imports MvccTheorems
begin

text \<open>
  Inserting a row into a table: the row lands behind the rows of the page, and its version is an insertion by the
  transaction, so that nobody else sees it before the commit.
\<close>

lemma UndoRecordForInsert_ok:
  assumes "store_ok st (undo_buffer txn)" "arena_free st"
  shows "\<exists>st1 txn1 p r. UndoRecordForInsert st txn tbl pg i = Inr (st1, txn1, p) \<and>
    start_time txn1 = start_time txn \<and> finish_time txn1 = finish_time txn \<and>
    undo_heap st p = None \<and> undo_heap st1 = (undo_heap st)(p := Some r) \<and> store_ok st1 (undo_buffer txn1) \<and>
    rec_type r = INSERT \<and> rec_timestamp r = finish_time txn \<and> rec_next r = None"
proof -
  have sz: "unat UNDO_RECORD_SIZE = 40" by (simp add: UNDO_RECORD_SIZE_def)
  have "rec_size (InitializeInsert (finish_time txn) tbl pg i) = unat UNDO_RECORD_SIZE"
    unfolding sz by (simp add: rec_size_def InitializeInsert_def)
  from new_undo_ok [where mk = "\<lambda>p st1. InitializeInsert (finish_time txn) tbl pg i", OF assms _ _ _ this]
  show ?thesis by (fastforce simp: UndoRecordForInsert_def sz InitializeInsert_def)
qed

text \<open>What the table, the chunk and the page have to be for an insertion.\<close>

definition insert_ctx :: "Table \<Rightarrow> TransactionContext \<Rightarrow> Mvcc \<Rightarrow> TablePage \<Rightarrow> PageIdentifier \<Rightarrow> mem \<Rightarrow> bool" where
  "insert_ctx t txn mv page i c \<longleftrightarrow>
     pax_ok (tbl_layout t) \<and> schema_ok (tbl_schema t) (tbl_layout t) \<and>
     chunk_ok (schema_sz (tbl_schema t)) c \<and> distinct (GetColumnIds c) \<and> set (GetColumnIds c) \<subseteq> dom (mapping (tbl_schema t)) \<and>
     pax_count (page_data page) + 1 < max_row_count (tbl_layout t) \<and> pax_count (page_data page) < pax_count (page_data page) + 1 \<and>
     store_ok (undo mv) (undo_buffer txn) \<and> arena_free (undo mv) \<and> mv_ok t mv page i"

definition inserted_row ::
    "Table \<Rightarrow> TransactionContext \<Rightarrow> Mvcc \<Rightarrow> Mvcc \<Rightarrow> TablePage \<Rightarrow> TablePage \<Rightarrow> PageIdentifier \<Rightarrow> u32 \<Rightarrow> mem \<Rightarrow> UndoRecord \<Rightarrow> bool" where
  "inserted_row t txn mv mv' page page' i n c r \<longleftrightarrow>
     (let l = tbl_layout t; s = tbl_schema t; m = page_data page; m' = page_data page'
      in rec_type r = INSERT \<and> rec_timestamp r = finish_time txn \<and>
         chain (undo_heap (undo mv')) (row_head mv' i n) [r] \<and> version_load mv' i n = Inr (row_head mv' i n) \<and>
         mv_ok t mv' page' i \<and> pax_count m' = n + 1 \<and>
         pax_row s l m' n = pax_row s l m n ++ chunk_row (schema_sz s) c \<and>
         (\<forall>k < max_row_count l. k \<noteq> n \<longrightarrow> row_head mv' i k = row_head mv i k \<and> pax_row s l m' k = pax_row s l m k))"

lemma Table_Insert_ok:
  assumes g: "fsm_Get fsm (chunk_GetSize c) = (fsm', p)" and i: "i = \<lparr>tbl_id = tbl_oid t, pid = p\<rparr>"
    and ctx: "insert_ctx t txn mv (pages i) i c" and n: "n = pax_count (page_data (pages i))"
  shows "\<exists>txn' mv' page' r. Table_Insert t txn mv fsm pages c = Inr (TupleId_of n p, txn', mv', fsm', pages(i := page')) \<and>
    start_time txn' = start_time txn \<and> finish_time txn' = finish_time txn \<and> store_ok (undo mv') (undo_buffer txn') \<and>
    inserted_row t txn mv mv' (pages i) page' i n c r"
proof -
  note x = ctx [unfolded insert_ctx_def]
  let ?l = "tbl_layout t" and ?s = "tbl_schema t" and ?m = "page_data (pages i)"
  have idx: "n < max_row_count ?l" using x n by auto
  obtain m' where m': "InsertBulk ?s ?l c ?m 1 = Inr (n, m')" "pax_count m' = n + 1"
    "pax_row ?s ?l m' n = pax_row ?s ?l ?m n ++ chunk_row (schema_sz ?s) c"
    "\<forall>k < max_row_count ?l. k \<noteq> n \<longrightarrow> pax_row ?s ?l m' k = pax_row ?s ?l ?m k"
    using InsertBulk_ok [of ?l ?s c ?m] x n by auto
  obtain st1 txn1 rp r where u: "UndoRecordForInsert (undo mv) txn (tbl_oid t) p n = Inr (st1, txn1, rp)"
    "start_time txn1 = start_time txn" "finish_time txn1 = finish_time txn" "undo_heap st1 = (undo_heap (undo mv))(rp := Some r)"
    "store_ok st1 (undo_buffer txn1)" "rec_type r = INSERT" "rec_timestamp r = finish_time txn" "rec_next r = None"
    using UndoRecordForInsert_ok [of "undo mv" txn "tbl_oid t" p n] x by blast
  let ?pg = "(pages i)\<lparr>page_data := m'\<rparr>"
  have "mv_ok t (mv\<lparr>undo := st1\<rparr>) ?pg i" using x by (simp add: mv_ok_def)
  from page_GetVersions_ok [OF this] obtain mv2 page2 where v: "page_GetVersions (mv\<lparr>undo := st1\<rparr>) ?pg i (max_row_count ?l) = (mv2, page2, i)"
    "undo mv2 = st1" "mv_ok t mv2 page2 i" "version_table mv2 i \<noteq> None" "page_data page2 = m'"
    "\<forall>k < max_row_count ?l. row_head mv2 i k = row_head (mv\<lparr>undo := st1\<rparr>) i k" by auto
  note vs = version_store_ok [where p = "Some rp", OF v(3,4) idx]
  let ?mv = "version_store mv2 i n (Some rp)"
  have "Table_Insert t txn mv fsm pages c = Inr (TupleId_of n p, txn1, ?mv, fsm', pages(i := page2))"
    using m'(1) u(1) v(1) version_load_head [OF v(3,4) idx]
    by (simp add: Table_Insert_def g i [symmetric] InsertUndo_def TupleId_fields)
  moreover have "version_load ?mv i n = Inr (row_head ?mv i n)" by (rule version_load_head [OF vs(1,2) idx])
  moreover have "row_head ?mv i k = row_head mv i k" if "k < max_row_count ?l" "k \<noteq> n" for k
    using vs(5) [OF that(2)] v(6) that by (simp add: row_head_def)
  ultimately show ?thesis using u m' v(2,5) vs
    by (intro exI [of _ txn1] exI [of _ ?mv] exI [of _ page2] exI [of _ r]) (simp add: inserted_row_def Let_def)
qed

text \<open>C12: An inserted row is nobody else's before the commit. Inserting a chunk into a page with room succeeds: the row goes
  behind the rows of the page and holds the values of the chunk, no other row or version changes, and to every start
  before the stamp of the unfinished transaction the row does not exist.\<close>

theorem insert_isolated:
  assumes "fsm_Get fsm (chunk_GetSize c) = (fsm', p)" "i = \<lparr>tbl_id = tbl_oid t, pid = p\<rparr>"
    and "insert_ctx t txn mv (pages i) i c" "n = pax_count (page_data (pages i))"
  shows "\<exists>txn' mv' page' r. Table_Insert t txn mv fsm pages c = Inr (TupleId_of n p, txn', mv', fsm', pages(i := page')) \<and>
    inserted_row t txn mv mv' (pages i) page' i n c r \<and>
    (\<forall>start < finish_time txn. \<forall>row. snapshot (tbl_schema t) start [r] row = None)"
proof -
  from Table_Insert_ok [where pages = pages, OF assms] obtain txn' mv' page' r where
    "Table_Insert t txn mv fsm pages c = Inr (TupleId_of n p, txn', mv', fsm', pages(i := page'))"
    "inserted_row t txn mv mv' (pages i) page' i n c r" by blast
  then show ?thesis by (intro exI [of _ txn'] exI [of _ mv'] exI [of _ page'] exI [of _ r]) (simp add: inserted_row_def Let_def)
qed

theorem insert_isolated_witness:
  "\<exists>txn' mv' fsm' pages'. Table_Insert demo_table demo_txn demo_mv fsm_init (\<lambda>_. demo_page) demo_chunk =
     Inr (TupleId_of 0 1, txn', mv', fsm', pages')"
proof -
  let ?i = "\<lparr>tbl_id = tbl_oid demo_table, pid = 1\<rparr>"
  have "total_size (DataChunkLayout_new [1, 2] [4, 8]) = 32" by code_simp
  then have size: "chunk_GetSize demo_chunk = 32"
    using CreateDataChunk_shape(3) [of "[4, 8]" "[1, 2]" "\<lambda>_. 0"] by (simp add: demo_chunk_def)
  have z: "pax_count (page_data demo_page) = 0" by (simp add: demo_page_def pax_count_def rd32_def rd_bytes_def upt_rec)
  have "insert_ctx demo_table demo_txn demo_mv demo_page ?i demo_chunk"
    using demo_ctx demo_chunk_ok demo_row_ctx [of 0] demo_layout(2)
    by (simp add: insert_ctx_def update_ctx_def row_ctx_def update_chunk_ok_def TupleId_fields z)
  then have ctx: "insert_ctx demo_table demo_txn demo_mv ((\<lambda>_. demo_page) ?i) ?i demo_chunk" by simp
  have g: "fsm_Get fsm_init (chunk_GetSize demo_chunk) = (\<lparr>next_page_id = 1, free_space = 8156\<rparr>, 1)"
    by (simp add: size fsm_Get_def fsm_init_def DB7_PAGE_SIZE_def HEADER_SIZE_def)
  from insert_isolated [where pages = "\<lambda>_. demo_page", OF g refl ctx refl] show ?thesis unfolding z by blast
qed

end
