(* ===== verification/CatalogCreate.thy ===== *)
theory CatalogCreate
  imports CatalogLookup MvccInsert
begin

text \<open>
  Creating an entry of the catalog: a row in the system table and a key in each of its indexes. An index is ready for a key
  when it is a well-formed tree with room in which no entry has this key; a unique insertion then succeeds without asking
  for conflicts. An entry created is found by the check for it.
\<close>

section \<open>A new key in a unique index\<close>

definition key_ready :: "BTreeIndex \<Rightarrow> row list \<Rightarrow> u8 list \<Rightarrow> bool" where
  "key_ready t rows b \<longleftrightarrow>
     tree_ok t rows \<and> tree_tight t rows \<and> tree_room t rows \<and> tl_sane t \<and> b \<noteq> [] \<and> length b \<le> 112 \<and>
     prefix_free (insert b (row_prefixes (bt_nodes t) (hd rows))) \<and> (\<forall>k \<in> set (tree_keys t rows). tid_prefix k \<noteq> b)"

lemma tid_prefix_enc: "tid_prefix (b @ EncodeUnsigned (v :: u64)) = b"
  by (simp add: tid_prefix_snoc length_EncodeUnsigned)

lemma key_InsertUnique_ready:
  assumes "sys_indexes s idx = Some t" "BuildKey_cols (norm_string env) chunk (bt_attrs t) = Inr b" "key_ready t rows b"
  shows "\<exists>t' rows'. key_InsertUnique env idx chunk tup s = Some (Inr (Ok (), s\<lparr>sys_indexes := (sys_indexes s)(idx \<mapsto> t')\<rparr>)) \<and>
    tree_inserted t rows (b @ EncodeUnsigned (tid_value tup)) t' rows'"
proof -
  let ?k = "mk_key (b @ EncodeUnsigned (0 :: u64))" and ?v = "tid_value tup"
  note rd = assms(3) [unfolded key_ready_def]
  have len: "length (b @ EncodeUnsigned (0 :: u64)) < 65536" using rd by (simp add: length_EncodeUnsigned)
  have k: "key_ok ?k" "key_size_ok (key_bytes ?k)" "key_bytes ?k = b @ replicate 8 0"
    using rd len by (simp_all add: key_ok_mk_key key_size_ok_def length_EncodeUnsigned Suc_le_eq EncodeUnsigned_0)
  have new: "b @ EncodeUnsigned ?v \<notin> set (tree_keys t rows)" using rd tid_prefix_enc by blast
  have "\<not> block_conflict c b (tree_keys t rows)" for c using rd by (auto simp: block_conflict_def)
  then obtain t' rows' where "BTree_InsertUniqueKey (unique_conflict s (bt_heap_tbl t)) t ?k ?v = Some (Inr (t', Ok ()))"
    "tree_inserted t rows (b @ EncodeUnsigned ?v) t' rows'"
    using InsertUniqueKey_ok [where t = t and rows = rows and key = ?k and b = b and v = ?v and conflict = "unique_conflict s (bt_heap_tbl t)"]
      rd k new by auto
  moreover have "BuildKey (norm_string env) chunk 0 (bt_attrs t) = Inr ?k" using assms(2) by (simp add: BuildKey_def mk_key_def Let_def)
  ultimately show ?thesis using assms(1) by (auto simp: key_InsertUnique_def get_index_def BTree_InsertUnique_def)
qed

lemma filter_insort_new: "\<forall>k \<in> set ks. \<not> P k \<Longrightarrow> P x \<Longrightarrow> filter P (insort x ks) = [x]"
  by (induction ks) auto

lemma tids_of_inserted:
  assumes "tree_inserted t rows (b @ EncodeUnsigned (tid_value tup)) t' rows'" "\<forall>k \<in> set (tree_keys t rows). tid_prefix k \<noteq> b"
  shows "tids_of t' rows' b = [tup]"
  using assms filter_insort_new [of "tree_keys t rows" "\<lambda>k. tid_prefix k = b" "b @ EncodeUnsigned (tid_value tup)"]
  by (simp add: tids_of_def tree_inserted_def tid_prefix_enc tid_of_snoc)

lemma index_ok_inserted:
  assumes "tree_inserted t rows (b @ EncodeUnsigned (v :: u64)) t' rows'" "index_ok (length b) t rows" "length rows \<le> 16"
  shows "index_ok (length b) t' rows'"
proof -
  note ins = assms(1) [unfolded tree_inserted_def] and ix = assms(2) [unfolded index_ok_def]
  have old: "length (tid_prefix k) = length b" if "k \<in> set (tree_keys t rows) \<union> (fst ` set (hd rows) - {[]})" for k
    using that ix by (auto simp: row_prefixes_def tree_keys_def)
  have keys: "set (tree_keys t' rows') = insert (b @ EncodeUnsigned v) (set (tree_keys t rows))"
    using ins by (simp add: set_insort_key)
  have "length (tid_prefix k) = length b" if "k \<in> set (tree_keys t' rows') \<union> (fst ` set (hd rows') - {[]})" for k
  proof -
    have "k \<in> insert (b @ EncodeUnsigned v) (set (tree_keys t rows) \<union> (fst ` set (hd rows) - {[]}))"
      using that ins keys by blast
    then show ?thesis using old by (auto simp: tid_prefix_enc)
  qed
  then have "\<forall>x \<in> row_prefixes (bt_nodes t') (hd rows'). length x = length b" by (auto simp: row_prefixes_def tree_keys_def)
  then show ?thesis using ins ix assms(3) by (simp add: index_ok_def)
qed

section \<open>A new row in a system table\<close>

definition row_ready :: "('a Session_scheme) \<Rightarrow> rel_oid_t \<Rightarrow> mem \<Rightarrow> bool" where
  "row_ready s tbl c =
     (case sys_tables s tbl of
        None \<Rightarrow> False
      | Some tb \<Rightarrow> let i = \<lparr>tbl_id = tbl_oid tb, pid = snd (fsm_Get (heap_fsm s) (chunk_GetSize c))\<rparr>
                   in insert_ctx tb (txn s) (mvcc s) (heap_pages s i) i c)"

lemma row_Insert_ready:
  assumes "sys_tables s tbl = Some tb" "row_ready s tbl c"
  shows "\<exists>tup s' r. row_Insert tbl c s = Some (Inr (tup, s')) \<and> sys_tables s' = sys_tables s \<and> sys_indexes s' = sys_indexes s \<and>
    newest_version (mvcc s') (tbl_oid tb) tup = Inr (Some r) \<and> rec_type r = INSERT \<and> rec_timestamp r = finish_time (txn s)"
proof -
  obtain fsm' p where g: "fsm_Get (heap_fsm s) (chunk_GetSize c) = (fsm', p)" by (cases "fsm_Get (heap_fsm s) (chunk_GetSize c)")
  let ?i = "\<lparr>tbl_id = tbl_oid tb, pid = p\<rparr>"
  let ?n = "pax_count (page_data (heap_pages s ?i))"
  have "insert_ctx tb (txn s) (mvcc s) (heap_pages s ?i) ?i c" using assms g by (simp add: row_ready_def Let_def)
  from Table_Insert_ok [where pages = "heap_pages s", OF g refl this refl] obtain txn' mv' page' r where
    ins: "Table_Insert tb (txn s) (mvcc s) (heap_fsm s) (heap_pages s) c = Inr (TupleId_of ?n p, txn', mv', fsm', (heap_pages s)(?i := page'))"
    and row: "inserted_row tb (txn s) (mvcc s) mv' (heap_pages s ?i) page' ?i ?n c r" by blast
  have "newest_version mv' (tbl_oid tb) (TupleId_of ?n p) = Inr (Some r)"
    using row by (intro newest_version_load [where rs = "[]"]) (simp_all add: inserted_row_def Let_def TupleId_fields)
  moreover have "rec_type r = INSERT" "rec_timestamp r = finish_time (txn s)" using row by (simp_all add: inserted_row_def Let_def)
  ultimately show ?thesis using ins assms(1) by (simp add: row_Insert_def get_table_def)
qed

lemma rd_bytes_part: "rd_bytes m a n = rd_bytes m' b n \<Longrightarrow> k + j \<le> n \<Longrightarrow> rd_bytes m (a + k) j = rd_bytes m' (b + k) j"
  by (rule nth_equalityI) (auto simp: rd_bytes_def list_eq_iff_nth_eq add.assoc)

text \<open>The key of a short string: its normal form and a terminator.\<close>

lemma name_key:
  assumes "chunk_row sz c oid = Some (varlen_object g name)" "sz oid = 16" "length name \<le> 12"
  shows "BuildKey_cols norm c [TypeSize_new oid VARCHAR] = ebind (norm False name) (\<lambda>b. Inr (b @ [0]))"
proof -
  let ?m = "varlen_Set g 0 name"
  have "oid \<in> dom (chunk_row sz c)" using assms(1) by auto
  then have "oid \<in> set (GetColumnIds c)" by (simp add: dom_chunk_row)
  from chunk_Get_row [OF this, of sz] assms obtain a where a: "chunk_Get c oid = Inr a" "rd_bytes c a 16 = rd_bytes ?m 0 16"
    by (auto simp: varlen_object_def)
  note part = rd_bytes_part [OF a(2)]
  have sz: "varlen_GetSize c a = varlen_GetSize ?m 0" using part [of 0 4] by (simp add: varlen_GetSize_def rd32_def)
  have n: "unat (varlen_GetSize ?m 0) = length name"
    using arg_cong [OF varlen_roundtrip(2) [OF assms(3), of g 0], of length] by simp
  have "rd_bytes c (a + 4) (length name) = rd_bytes ?m 4 (length name)" using part [of 4 "length name"] assms(3) by simp
  then have "rd_bytes c (varlen_GetInline a) (unat (varlen_GetSize c a)) = name"
    using varlen_roundtrip(2) [OF assms(3), of g 0] by (simp add: varlen_GetInline_def sz n)
  with a(1) show ?thesis
    by (cases "norm False name") (simp_all add: TypeSize_new_def SwitchType_def with_null_marker_def plain_specs_def EncodeStringNormalized_def)
qed

section \<open>Creating a namespace\<close>

text \<open>The catalog is ready for a namespace: its table has room for the row, both indexes are ready, and neither the name nor
  the oid is there.\<close>

definition namespace_ready :: "cat_env \<Rightarrow> u8 list \<Rightarrow> namespace_oid_t \<Rightarrow> DatabaseCatalog \<Rightarrow> BTreeIndex \<Rightarrow> row list \<Rightarrow> Table \<Rightarrow> bool" where
  "namespace_ready env name oid dc t rows tb \<longleftrightarrow>
     namespaces_ok env dc t rows tb \<and> length rows \<le> 16 \<and> key_ready t rows (Encode_signed oid) \<and>
     (\<forall>c0. new_chunk env dc PG_NAMESPACE = Inr c0 \<longrightarrow>
        (let c = BuildNamespaceChunk (stack_bytes env) c0 oid name
         in row_ready dc PG_NAMESPACE c \<and>
            (\<exists>tn rowsn b. sys_indexes dc PG_INDEX_NAMESPACE_NSPNAME = Some tn \<and>
               BuildKey_cols (norm_string env) c (bt_attrs tn) = Inr b \<and> key_ready tn rowsn b)))"


section \<open>A catalog ready for a namespace\<close>

text \<open>The table of namespaces is empty, and so are both indexes.\<close>

definition empty_index :: "rel_oid_t \<Rightarrow> BTreeIndex" where
  "empty_index idx = demo_tree\<lparr>bt_attrs := AttrsFor idx\<rparr>"

definition ns_free_dc :: DatabaseCatalog where
  "ns_free_dc = ns_dc\<lparr>sys_indexes := [PG_INDEX_NAMESPACE_NSPOID \<mapsto> empty_index PG_INDEX_NAMESPACE_NSPOID,
     PG_INDEX_NAMESPACE_NSPNAME \<mapsto> empty_index PG_INDEX_NAMESPACE_NSPNAME]\<rparr>"

lemma empty_index:
  "tree_ok (empty_index idx) demo_rows" "tree_tight (empty_index idx) demo_rows" "tree_room (empty_index idx) demo_rows"
  "tl_sane (empty_index idx)" "tree_keys (empty_index idx) demo_rows = []" "bt_attrs (empty_index idx) = AttrsFor idx"
  "row_prefixes (bt_nodes (empty_index idx)) (hd demo_rows) = {}"
proof -
  have k: "tree_keys (empty_index idx) demo_rows = []" using demo_tree(3) by (simp add: empty_index_def tree_keys_def)
  then show "tree_ok (empty_index idx) demo_rows" "tree_tight (empty_index idx) demo_rows" "tree_room (empty_index idx) demo_rows"
    "tl_sane (empty_index idx)" "tree_keys (empty_index idx) demo_rows = []" "bt_attrs (empty_index idx) = AttrsFor idx"
    using demo_tree by (simp_all add: empty_index_def tree_ok_def tree_tight_def tree_room_def tl_sane_def next_pid_def)
  show "row_prefixes (bt_nodes (empty_index idx)) (hd demo_rows) = {}"
    using k by (simp add: row_prefixes_def tree_keys_def demo_rows_simps)
qed

lemma empty_index_ready: "b \<noteq> [] \<Longrightarrow> length b \<le> 112 \<Longrightarrow> key_ready (empty_index idx) demo_rows b"
  using prefix_free_length [of "{b}" "length b"] by (simp add: key_ready_def empty_index)

lemma ns_mapping:
  "mapping (tbl_schema ns_table) =
     [NSPOID \<mapsto> \<lparr>col_oid = NSPOID, col_type = INTEGER, type_size = 4, col_name = ''nspoid'', position = 0, is_nullable = False\<rparr>,
      NSPNAME \<mapsto> \<lparr>col_oid = NSPNAME, col_type = VARCHAR, type_size = 16, col_name = ''nspname'', position = 1, is_nullable = False\<rparr>]"
  by (simp add: ns_table_def CreateNamespaceSchema_def Schema_new_def Namespace_columns_def SchemaColumn_new_def SizeOf_def)

lemma ns_schema:
  "schema_ok (tbl_schema ns_table) (tbl_layout ns_table)" "schema_sz (tbl_schema ns_table) = columns_sz Namespace_columns"
proof -
  have "pax_sizes_ok [4, 16]" by (simp add: pax_sizes_ok_def)
  then have "sizes (tbl_layout ns_table) = [4, 16]" using PaxLayout_new_ok by (simp add: ns_table_def)
  then show "schema_ok (tbl_schema ns_table) (tbl_layout ns_table)" by (auto simp: schema_ok_def ns_mapping)
  show "schema_sz (tbl_schema ns_table) = columns_sz Namespace_columns"
    by (auto simp: fun_eq_iff schema_sz_def ns_mapping columns_sz_def columns_defs SizeOf_def)
qed

lemma namespace_chunk:
  assumes "catalog_chunk Namespace_columns c0"
  shows "catalog_chunk Namespace_columns (BuildNamespaceChunk g c0 oid name)"
    "GetColumnIds (BuildNamespaceChunk g c0 oid name) = GetColumnIds c0"
    "chunk_row (columns_sz Namespace_columns) (BuildNamespaceChunk g c0 oid name) NSPNAME = Some (varlen_object g name)"
proof -
  let ?sz = "columns_sz Namespace_columns"
  have sz: "?sz NSPOID = 4" "?sz NSPNAME = 16" "NSPOID \<in> col_oid ` set Namespace_columns" "NSPNAME \<in> col_oid ` set Namespace_columns"
    by (simp_all add: columns_sz_def columns_defs SizeOf_def)
  let ?c1 = "chunk_Write c0 NSPOID (bytes32 oid)"
  have c1: "catalog_chunk Namespace_columns ?c1" by (rule catalog_Write(1) [OF assms]) (simp_all add: sz)
  show "catalog_chunk Namespace_columns (BuildNamespaceChunk g c0 oid name)"
    "chunk_row ?sz (BuildNamespaceChunk g c0 oid name) NSPNAME = Some (varlen_object g name)"
    using catalog_Write [OF c1 sz(4), of "varlen_object g name"] by (simp_all add: BuildNamespaceChunk_def sz)
  have "GetColumnIds ?c1 = GetColumnIds c0"
    by (rule chunk_Write_ok(2) [where sz = ?sz]) (use assms sz in \<open>simp_all add: catalog_chunk_def\<close>)
  moreover have "GetColumnIds (chunk_Write ?c1 NSPNAME (varlen_object g name)) = GetColumnIds ?c1"
    by (rule chunk_Write_ok(2) [where sz = ?sz]) (use c1 sz in \<open>simp_all add: catalog_chunk_def\<close>)
  ultimately show "GetColumnIds (BuildNamespaceChunk g c0 oid name) = GetColumnIds c0" by (simp add: BuildNamespaceChunk_def)
qed

lemma ns_free_chunk:
  "\<exists>c0. new_chunk ns_env ns_free_dc PG_NAMESPACE = Inr c0 \<and> catalog_chunk Namespace_columns c0"
  using ns_ok by (auto simp: namespaces_ok_def new_chunk_def get_table_def ns_free_dc_def)

lemma ns_row_ready:
  assumes "new_chunk ns_env ns_free_dc PG_NAMESPACE = Inr c0"
  shows "row_ready ns_free_dc PG_NAMESPACE (BuildNamespaceChunk g c0 oid name)"
proof -
  let ?l = "DataChunkLayout_new [NSPOID, NSPNAME] (map (columns_sz Namespace_columns) [NSPOID, NSPNAME])"
  have "DataChunkLayout_of_schema (tbl_schema ns_table) = ?l"
    by (simp add: DataChunkLayout_of_schema_def BuildColumnIds_def BuildAttrSizes_def schema_columns_def ns_table_def
        CreateNamespaceSchema_def Schema_new_def columns_defs columns_sz_def SizeOf_def)
  then have c0: "c0 = CreateDataChunk ?l (\<lambda>_. 0)"
    using assms by (simp add: new_chunk_def get_table_def ns_free_dc_def ns_dc_def ns_env_def)
  have "catalog_chunk Namespace_columns c0" "GetColumnIds c0 = [NSPOID, NSPNAME]" unfolding c0
    by (intro catalog_chunk_Create CreateDataChunk_ok(2); simp add: columns_defs columns_sz_def SizeOf_def)+
  then have c: "chunk_ok (columns_sz Namespace_columns) (BuildNamespaceChunk g c0 oid name)"
    "GetColumnIds (BuildNamespaceChunk g c0 oid name) = [NSPOID, NSPNAME]"
    using namespace_chunk(1,2) [of c0 g oid name] by (auto simp: catalog_chunk_def)
  have z: "pax_count (\<lambda>_. 0) = 0" by (simp add: pax_count_def rd32_def rd_bytes_def upt_rec)
  have "1 < max_row_count (tbl_layout ns_table)"
    by (rule less_trans [OF _ ns_table_layout(2)]) simp
  then have "insert_ctx ns_table demo_txn demo_mv \<lparr>page_data = \<lambda>_. 0, page_versions = None\<rparr> i (BuildNamespaceChunk g c0 oid name)" for i
    using demo_ctx c ns_table_layout(1) ns_schema
    by (simp add: insert_ctx_def update_ctx_def z ns_mapping mv_ok_def demo_mv_def)
  then show ?thesis by (simp add: row_ready_def Let_def ns_free_dc_def ns_dc_def demo_dc_def)
qed

lemma ns_ready: "namespace_ready ns_env [110, 115] 5 ns_free_dc (empty_index PG_INDEX_NAMESPACE_NSPOID) demo_rows ns_table"
proof -
  have "namespaces_ok ns_env ns_free_dc (empty_index PG_INDEX_NAMESPACE_NSPOID) demo_rows ns_table"
    using ns_free_chunk empty_index(7) [of PG_INDEX_NAMESPACE_NSPOID]
    by (simp add: namespaces_ok_def index_ok_def empty_index(1-6) demo_rows_simps ns_free_dc_def ns_dc_def)
  moreover have "key_ready (empty_index PG_INDEX_NAMESPACE_NSPOID) demo_rows (Encode_signed (5 :: u32))"
    by (rule empty_index_ready) (simp_all add: length_Encode_signed flip: length_0_conv)
  moreover have "row_ready ns_free_dc PG_NAMESPACE (BuildNamespaceChunk (stack_bytes ns_env) c0 5 [110, 115]) \<and>
      (\<exists>tn rowsn b. sys_indexes ns_free_dc PG_INDEX_NAMESPACE_NSPNAME = Some tn \<and>
         BuildKey_cols (norm_string ns_env) (BuildNamespaceChunk (stack_bytes ns_env) c0 5 [110, 115]) (bt_attrs tn) = Inr b \<and>
         key_ready tn rowsn b)"
    if c0: "new_chunk ns_env ns_free_dc PG_NAMESPACE = Inr c0" for c0
  proof -
    let ?c = "BuildNamespaceChunk (stack_bytes ns_env) c0 5 [110, 115]"
    have "catalog_chunk Namespace_columns c0" using c0 ns_free_chunk by auto
    from name_key [OF namespace_chunk(3) [OF this]]
    have "BuildKey_cols (norm_string ns_env) ?c (bt_attrs (empty_index PG_INDEX_NAMESPACE_NSPNAME)) = Inr [110, 115, 0]"
      by (simp add: empty_index AttrsFor_def ns_env_def columns_sz_def columns_defs SizeOf_def)
    then have "\<exists>tn rowsn b. sys_indexes ns_free_dc PG_INDEX_NAMESPACE_NSPNAME = Some tn \<and>
         BuildKey_cols (norm_string ns_env) ?c (bt_attrs tn) = Inr b \<and> key_ready tn rowsn b"
      by (intro exI [of _ "empty_index PG_INDEX_NAMESPACE_NSPNAME"] exI [of _ demo_rows] exI [of _ "[110, 115, 0]"])
        (simp add: ns_free_dc_def empty_index_ready)
    with ns_row_ready [OF c0] show ?thesis by blast
  qed
  ultimately show ?thesis by (simp add: namespace_ready_def Let_def demo_rows_simps)
qed


end
