(* ===== verification/Redo.thy ===== *)
theory Redo
  imports Undo KeyEncoder
begin

text \<open>
  The records of the write-ahead log (\<^verbatim>\<open>storage/wal/log_record.hpp\<close>, \<^verbatim>\<open>storage/redo_buffer.hpp\<close>) and how a transaction stages
  one (\<^verbatim>\<open>TransactionContext::StageWrite\<close>). A record is read and written where it lies, in the bytes of the segment: the log
  header of 16 bytes, the redo header of 16 bytes, then the chunk with the new values.
\<close>

section \<open>Log records\<close>

datatype LogRecordType = REDO | LOG_DELETE | LOG_COMMIT | LOG_ABORT

definition LogRecordType_byte :: "LogRecordType \<Rightarrow> u8" where
  "LogRecordType_byte t = (case t of REDO \<Rightarrow> 0 | LOG_DELETE \<Rightarrow> 1 | LOG_COMMIT \<Rightarrow> 2 | LOG_ABORT \<Rightarrow> 3)"

text \<open>The type at 0, the size at 4, the start of the transaction at 8; three bytes of padding keep what they held.\<close>

definition log_RecordType :: "mem \<Rightarrow> nat \<Rightarrow> u8" where
  "log_RecordType d p = d p"

definition log_Size :: "mem \<Rightarrow> nat \<Rightarrow> u32" where
  "log_Size d p = rd32 d (p + 4)"

definition log_TxnBegin :: "mem \<Rightarrow> nat \<Rightarrow> timestamp_t" where
  "log_TxnBegin d p = rd64 d (p + 8)"

definition LOG_RECORD_SIZE :: nat where
  "LOG_RECORD_SIZE = 16"

definition log_GetDelta :: "nat \<Rightarrow> nat" where
  "log_GetDelta p = p + LOG_RECORD_SIZE"

definition InitializeHeader :: "mem \<Rightarrow> nat \<Rightarrow> LogRecordType \<Rightarrow> u32 \<Rightarrow> timestamp_t \<Rightarrow> mem" where
  "InitializeHeader d head t sz txn_begin =
     wr_bytes (wr32 (wr_bytes d head [LogRecordType_byte t]) (head + 4) sz) (head + 8) (le_enc 8 (unat txn_begin))"

section \<open>Redo records\<close>

definition REDO_RECORD_SIZE :: nat where
  "REDO_RECORD_SIZE = 16"

definition redo_GetHeadersSize :: u32 where
  "redo_GetHeadersSize = word_of_nat (REDO_RECORD_SIZE + LOG_RECORD_SIZE)"

definition redo_GetDelta :: "nat \<Rightarrow> nat" where
  "redo_GetDelta p = p + REDO_RECORD_SIZE"

definition redo_GetTableId :: "mem \<Rightarrow> nat \<Rightarrow> table_id" where
  "redo_GetTableId d p = rd32 d p"

definition redo_GetPageId :: "mem \<Rightarrow> nat \<Rightarrow> page_id" where
  "redo_GetPageId d p = rd32 d (p + 4)"

definition redo_GetRowIndex :: "mem \<Rightarrow> nat \<Rightarrow> u32" where
  "redo_GetRowIndex d p = rd32 d (p + 8)"

text \<open>\<^verbatim>\<open>CreateDataChunk\<close> copies the header of the layout to the place of the chunk.\<close>

definition RedoRecord_Initialize ::
    "mem \<Rightarrow> nat \<Rightarrow> timestamp_t \<Rightarrow> DataChunkLayout \<Rightarrow> table_id \<Rightarrow> page_id \<Rightarrow> u32 \<Rightarrow> mem \<times> nat" where
  "RedoRecord_Initialize d head txn_begin l t_id p_id idx =
     (let d1 = InitializeHeader d head REDO (total_size l) txn_begin;
          body = log_GetDelta head;
          d2 = wr32 (wr32 (wr32 d1 body t_id) (body + 4) p_id) (body + 8) idx
      in (wr_bytes d2 (redo_GetDelta body) (header_underlying l), head))"

text \<open>The result is the segment and the offset of the redo record in it.\<close>

definition StageWrite ::
    "UndoStore \<Rightarrow> TransactionContext \<Rightarrow> table_id \<Rightarrow> page_id \<Rightarrow> u32 \<Rightarrow> DataChunkLayout \<Rightarrow>
     (UndoStore \<times> TransactionContext \<times> nat \<times> nat) res" where
  "StageWrite st txn t_id p_id idx l =
     ebind (redo_NewEntry st (redo_buffer txn) redo_GetHeadersSize (durability_policy txn)) (\<lambda>(st1, b1, seg, off).
       let a = arenas st1 seg;
           (d, log_record) = RedoRecord_Initialize (arena_data a) off (start_time txn) l t_id p_id idx
       in Inr (st1\<lparr>arenas := (arenas st1)(seg := a\<lparr>arena_data := d\<rparr>)\<rparr>, txn\<lparr>redo_buffer := b1\<rparr>, seg, log_GetDelta log_record))"

section \<open>A staged record\<close>

lemmas redo_layout = log_GetDelta_def LOG_RECORD_SIZE_def redo_GetDelta_def REDO_RECORD_SIZE_def

lemma rd64_wr: "rd64 (wr_bytes m a (le_enc 8 (unat v))) a = v"
  using unat_u64_less [of v] by (simp add: rd64_def rd_wr_bytes_same le_dec_enc)

lemma rd64_wr_disj: "b + 8 \<le> a \<or> a + length bs \<le> b \<Longrightarrow> rd64 (wr_bytes m a bs) b = rd64 m b"
  by (simp add: rd64_def rd_wr_bytes_disj)

lemma rd64_wr32_disj: "b + 8 \<le> a \<or> a + 4 \<le> b \<Longrightarrow> rd64 (wr32 m a v) b = rd64 m b"
  by (simp add: wr32_def rd64_wr_disj)

lemma wr_byte_same: "wr_bytes m a [b] a = b"
  by (simp add: wr_bytes_def)

text \<open>What the record at an offset of a segment says.\<close>

definition redo_at :: "mem \<Rightarrow> nat \<Rightarrow> timestamp_t \<Rightarrow> DataChunkLayout \<Rightarrow> table_id \<Rightarrow> page_id \<Rightarrow> u32 \<Rightarrow> bool" where
  "redo_at d head txn_begin l t_id p_id idx \<longleftrightarrow>
     log_RecordType d head = LogRecordType_byte REDO \<and> log_Size d head = total_size l \<and> log_TxnBegin d head = txn_begin \<and>
     redo_GetTableId d (log_GetDelta head) = t_id \<and> redo_GetPageId d (log_GetDelta head) = p_id \<and>
     redo_GetRowIndex d (log_GetDelta head) = idx \<and>
     rd_bytes d (redo_GetDelta (log_GetDelta head)) (length (header_underlying l)) = header_underlying l"

lemma RedoRecord_Initialize_ok:
  "redo_at (fst (RedoRecord_Initialize d head txn_begin l t_id p_id idx)) head txn_begin l t_id p_id idx"
  by (simp add: redo_at_def RedoRecord_Initialize_def InitializeHeader_def redo_layout log_RecordType_def log_Size_def
      log_TxnBegin_def redo_GetTableId_def redo_GetPageId_def redo_GetRowIndex_def mem_simps rd64_wr_disj rd64_wr32_disj rd64_wr wr_byte_same)

lemma Initialize_outside:
  assumes "i < head \<or> head + 32 + length (header_underlying l) \<le> i"
  shows "fst (RedoRecord_Initialize d head txn_begin l t_id p_id idx) i = d i"
  using assms by (auto simp: RedoRecord_Initialize_def InitializeHeader_def redo_layout mem_simps)

definition redo_arena :: "UndoStore \<Rightarrow> TransactionContext \<Rightarrow> FixedBumpArena" where
  "redo_arena st txn = arenas st (redo_segment (redo_buffer txn))"

text \<open>The buffer of a transaction that has not moved from its first segment, the only one there is as long as nothing is
  flushed.\<close>

definition redo_ok :: "UndoStore \<Rightarrow> TransactionContext \<Rightarrow> bool" where
  "redo_ok st txn \<longleftrightarrow> \<not> log_manager (redo_buffer txn) \<and> segment_old (redo_buffer txn) = redo_segment (redo_buffer txn) \<and>
     arena_ok (redo_arena st txn)"

lemma StageWrite_ok:
  assumes "redo_ok st txn" "unat (arena_size (redo_arena st txn)) + 32 \<le> 4096"
  shows "\<exists>st' txn'. StageWrite st txn t_id p_id idx l =
      Inr (st', txn', redo_segment (redo_buffer txn), unat (arena_size (redo_arena st txn)) + 16) \<and>
    redo_ok st' txn' \<and> redo_segment (redo_buffer txn') = redo_segment (redo_buffer txn) \<and> start_time txn' = start_time txn \<and>
    unat (arena_size (redo_arena st' txn')) = unat (arena_size (redo_arena st txn)) + 32 \<and>
    arena_data (redo_arena st' txn') = fst (RedoRecord_Initialize (arena_data (redo_arena st txn))
      (unat (arena_size (redo_arena st txn))) (start_time txn) l t_id p_id idx)"
proof -
  let ?b = "redo_buffer txn" and ?a = "redo_arena st txn"
  have sz: "unat redo_GetHeadersSize = 32" by (simp add: redo_GetHeadersSize_def redo_layout)
  have sp: "HasAvailableSpace ?a redo_GetHeadersSize" using assms(2) by (simp add: HasAvailableSpace_iff sz)
  obtain a' where a': "arena_Allocate ?a redo_GetHeadersSize = Inr (a', unat (arena_size ?a))" "arena_ok a'"
    "unat (arena_size a') = unat (arena_size ?a) + 32" "arena_data a' = arena_data ?a"
    using arena_Allocate_ok [OF _ sp] assms(1) by (auto simp: redo_ok_def sz)
  show ?thesis using assms(1) sp a'
    by (simp add: StageWrite_def redo_NewEntry_def redo_arena_def redo_ok_def RedoRecord_Initialize_def Let_def redo_layout arena_ok_def)
qed

text \<open>The segment has room for 128 records; the next one fails, for the buffer falls back to the segment it is in.\<close>

lemma StageWrite_full:
  assumes "redo_ok st txn" "4096 < unat (arena_size (redo_arena st txn)) + 32"
  shows "StageWrite st txn t_id p_id idx l = Inl (AssertFailed ''Data larger than page'')"
proof -
  have sz: "unat redo_GetHeadersSize = 32" by (simp add: redo_GetHeadersSize_def redo_layout)
  have "\<not> HasAvailableSpace (redo_arena st txn) redo_GetHeadersSize" using assms(2) by (simp add: HasAvailableSpace_iff sz)
  then show ?thesis using assms(1)
    by (simp add: StageWrite_def redo_NewEntry_def redo_arena_def redo_ok_def Let_def DB7_ASSERT_def)
qed

text \<open>A staged write reserves the two headers only: its chunk lies behind the reservation, and the next record is written
  over it. After two writes the second is there, and in place of the column count of the first chunk, whatever its layout,
  stands the type of the second record.\<close>

lemma staged_chunk_overwritten:
  assumes "redo_ok st txn" "unat (arena_size (redo_arena st txn)) + 64 \<le> 4096"
  shows "\<exists>st1 txn1 st2 txn2 seg off.
    StageWrite st txn t p i l = Inr (st1, txn1, seg, off + 16) \<and>
    redo_at (arena_data (redo_arena st1 txn1)) off (start_time txn) l t p i \<and>
    StageWrite st1 txn1 t' p' i' l' = Inr (st2, txn2, seg, off + 48) \<and>
    redo_at (arena_data (redo_arena st2 txn2)) (off + 32) (start_time txn) l' t' p' i' \<and>
    arena_data (redo_arena st2 txn2) (redo_GetDelta (log_GetDelta off)) = LogRecordType_byte REDO"
proof -
  let ?off = "unat (arena_size (redo_arena st txn))"
  obtain st1 txn1 where s1: "StageWrite st txn t p i l = Inr (st1, txn1, redo_segment (redo_buffer txn), ?off + 16)"
    "redo_ok st1 txn1" "redo_segment (redo_buffer txn1) = redo_segment (redo_buffer txn)" "start_time txn1 = start_time txn"
    "unat (arena_size (redo_arena st1 txn1)) = ?off + 32"
    "arena_data (redo_arena st1 txn1) = fst (RedoRecord_Initialize (arena_data (redo_arena st txn)) ?off (start_time txn) l t p i)"
    using StageWrite_ok [OF assms(1), of t p i l] assms(2) by auto
  obtain st2 txn2 where s2: "StageWrite st1 txn1 t' p' i' l' = Inr (st2, txn2, redo_segment (redo_buffer txn), ?off + 48)"
    "arena_data (redo_arena st2 txn2) =
      fst (RedoRecord_Initialize (arena_data (redo_arena st1 txn1)) (?off + 32) (start_time txn) l' t' p' i')"
    using StageWrite_ok [OF s1(2), of t' p' i' l'] assms(2) s1(3-5) by (auto simp: add.commute)
  have r: "redo_at (arena_data (redo_arena st1 txn1)) ?off (start_time txn) l t p i"
    "redo_at (arena_data (redo_arena st2 txn2)) (?off + 32) (start_time txn) l' t' p' i'"
    using RedoRecord_Initialize_ok by (simp_all add: s1(6) s2(2))
  from r(2) have "arena_data (redo_arena st2 txn2) (redo_GetDelta (log_GetDelta ?off)) = LogRecordType_byte REDO"
    by (simp add: redo_at_def log_RecordType_def redo_layout add.assoc)
  with s1(1) s2(1) r show ?thesis by blast
qed

end
