(* ===== verification/Display.thy ===== *)
theory Display
  imports CatalogOps DiskClaims DiskScheduler
begin

text \<open>
  What the engine prints: rows (\<^verbatim>\<open>DataChunk::Print\<close>, \<^verbatim>\<open>Table::Select\<close>), heap pages (\<^verbatim>\<open>Table::PrintPage\<close>,
  \<^verbatim>\<open>PaxLayout::PrintDebug\<close>) and the system tables (\<^verbatim>\<open>Display\<close>, \<^verbatim>\<open>Select\<close> of the catalogs). The output of an operation is a
  string, a part of its result; \<^verbatim>\<open>std::cout\<close> in its initial state prints integers in decimal. How it prints a double is an
  argument.
\<close>

section \<open>Numbers and padding\<close>

definition show_unsigned :: "u64 \<Rightarrow> string" where
  "show_unsigned v = dec_digits (unat v)"

definition show_signed :: "u64 \<Rightarrow> string" where
  "show_signed v = (if sint v < 0 then ''-'' @ dec_digits (nat (- sint v)) else dec_digits (nat (sint v)))"

definition bytes_text :: "u8 list \<Rightarrow> string" where
  "bytes_text bs = map (\<lambda>b. char_of (unat b)) bs"

definition pad_left :: "nat \<Rightarrow> string \<Rightarrow> string" where
  "pad_left n s = replicate (n - length s) CHR '' '' @ s"

definition newline :: string where
  "newline = [CHR 0x0A]"

section \<open>Rows\<close>

text \<open>The two branches of \<^verbatim>\<open>t == type_id::INTEGER ? (i64)... : (u64)...\<close> have the common type \<^verbatim>\<open>u64\<close>, and this is what
  is printed: the sign extension of a signed value as an unsigned number. The same holds for the widths 1 and 2.\<close>

definition show_column :: "(u64 \<Rightarrow> string) \<Rightarrow> mem \<Rightarrow> nat \<Rightarrow> type_id \<Rightarrow> string" where
  "show_column show_double m ptr t =
     (if t = VARCHAR \<or> t = VARBINARY then
        if varlen_IsInline m ptr then bytes_text (rd_bytes m (varlen_GetInline ptr) (unat (varlen_GetSize m ptr)))
        else ''vlen(pid='' @ show_unsigned (ucast (ref_pid (varlen_GetRef m ptr))) @ '',off='' @
             show_unsigned (ucast (ref_offset (varlen_GetRef m ptr))) @ '')''
      else let n = SizeOf t
           in if n = 1 then show_unsigned (if t = TINYINT then scast (rd8 m ptr) else ucast (rd8 m ptr))
              else if n = 2 then show_unsigned (if t = SMALLINT then scast (rd16 m ptr) else ucast (rd16 m ptr))
              else if n = 4 then show_unsigned (if t = INTEGER then scast (rd32 m ptr) else ucast (rd32 m ptr))
              else if n = 8 then
                (if t = DOUBLE then show_double (rd64 m ptr)
                 else if t = BIGINT then show_signed (rd64 m ptr) else show_unsigned (rd64 m ptr))
              else '''')"

fun print_columns :: "(u64 \<Rightarrow> string) \<Rightarrow> Schema \<Rightarrow> mem \<Rightarrow> col_oid_t list \<Rightarrow> nat \<Rightarrow> string res" where
  "print_columns show_double schema c [] idx = Inr ''''"
| "print_columns show_double schema c (i # ids) idx =
     ebind (GetColumn schema i) (\<lambda>col.
     ebind (print_columns show_double schema c ids (idx + 1)) (\<lambda>rest.
       Inr (col_name col @ '' | '' @ show_column show_double c (Access c idx) (col_type col) @ '' | '' @ rest)))"

definition chunk_Print :: "(u64 \<Rightarrow> string) \<Rightarrow> Schema \<Rightarrow> mem \<Rightarrow> string res" where
  "chunk_Print show_double schema c = print_columns show_double schema c (GetColumnIds c) 0"

definition status_text :: "RowStatus \<Rightarrow> string" where
  "status_text st = (case st of Visible \<Rightarrow> '''' | Deleted \<Rightarrow> '' [DELETED]'' | NotVisible \<Rightarrow> '' [NOT VISIBLE]'')"

text \<open>\<^verbatim>\<open>Table::Select\<close> prints the chunk whatever the status of the row.\<close>

definition Select_print ::
    "(u64 \<Rightarrow> string) \<Rightarrow> nat \<Rightarrow> Table \<Rightarrow> TransactionContext \<Rightarrow> Mvcc \<Rightarrow> TablePages \<Rightarrow> u32 \<Rightarrow> page_id \<Rightarrow> mem \<Rightarrow>
     (string \<times> Mvcc \<times> TablePages \<times> mem) res option" where
  "Select_print show_double fuel t tx mv ps idx p chunk =
     obind (Table_Select fuel t tx mv ps idx p chunk) (\<lambda>(st, mv', ps', chunk').
     obind (Some (chunk_Print show_double (tbl_schema t) chunk')) (\<lambda>text.
       Some (Inr (text @ status_text st @ newline, mv', ps', chunk'))))"

text \<open>The pages of a table are those of its file.\<close>

definition table_PageCount :: "('w, 'r) DiskManagerAsync \<Rightarrow> Table \<Rightarrow> u32 res" where
  "table_PageCount dm t = async_PageCount dm (tbl_oid t)"

section \<open>System tables\<close>

text \<open>\<^verbatim>\<open>Display\<close> prints the first rows of the first page, one chunk for all of them; \<open>fuel\<close> bounds the version chains.\<close>

fun display_rows ::
    "(u64 \<Rightarrow> string) \<Rightarrow> nat \<Rightarrow> Table \<Rightarrow> u32 list \<Rightarrow> ('a Session_scheme) \<Rightarrow> mem \<Rightarrow> (string \<times> ('a Session_scheme)) res option" where
  "display_rows show_double fuel t [] s chunk = Some (Inr ('''', s))"
| "display_rows show_double fuel t (i # is) s chunk =
     obind (Select_print show_double fuel t (txn s) (mvcc s) (heap_pages s) i 1 chunk) (\<lambda>(line, mv, ps, chunk').
     obind (display_rows show_double fuel t is (s\<lparr>mvcc := mv, heap_pages := ps\<rparr>) chunk') (\<lambda>(rest, s').
       Some (Inr (line @ rest, s'))))"

definition Display ::
    "(u64 \<Rightarrow> string) \<Rightarrow> nat \<Rightarrow> cat_env \<Rightarrow> rel_oid_t \<Rightarrow> nat \<Rightarrow> ('a Session_scheme) \<Rightarrow> (string \<times> ('a Session_scheme)) res option" where
  "Display show_double fuel env tbl n s =
     obind (Some (get_table s tbl)) (\<lambda>t.
     obind (Some (new_chunk env s tbl)) (\<lambda>chunk.
     obind (display_rows show_double fuel t (map word_of_nat [0..<n]) s chunk) (\<lambda>(text, s').
       Some (Inr (text @ newline, s')))))"

definition db_Select ::
    "(u64 \<Rightarrow> string) \<Rightarrow> nat \<Rightarrow> cat_env \<Rightarrow> int \<Rightarrow> DatabaseCatalog \<Rightarrow> (string \<times> DatabaseCatalog) res option" where
  "db_Select show_double fuel env type dc =
     (let show = (\<lambda>title tbl n. obind (Display show_double fuel env tbl n dc) (\<lambda>(text, dc').
                    Some (Inr (title @ newline @ text, dc'))))
      in if type = 0 then show ''Namespace: '' PG_NAMESPACE 4
         else if type = 1 then show ''Classes: '' PG_CLASS 4
         else if type = 2 then show ''Attributes: '' PG_ATTRIBUTE 20
         else if type = 3 then show ''Indexes: '' PG_INDEX 4
         else if type = 4 then show ''Constraint: '' PG_CONSTRAINT 4
         else Some (Inr ('''', dc)))"

definition catalog_Select ::
    "(u64 \<Rightarrow> string) \<Rightarrow> nat \<Rightarrow> cat_env \<Rightarrow> Catalog \<Rightarrow> (string \<times> Catalog) res option" where
  "catalog_Select show_double fuel env c =
     obind (Some (get_table c PG_DATABASES)) (\<lambda>t.
     obind (display_rows show_double fuel t [0, 1, 2, 3] c (CreateDataChunk database_layout (chunk_bytes env))) (\<lambda>(text, c').
       Some (Inr (''Select: '' @ newline @ text @ newline, c'))))"

section \<open>Heap pages\<close>

definition show_int :: "int \<Rightarrow> string" where
  "show_int v = (if v < 0 then ''-'' @ dec_digits (nat (- v)) else dec_digits (nat v))"

text \<open>A cell of \<^verbatim>\<open>PrintPage\<close>: integers by the width of the column, all signed. For a string that is not inline its page is pinned,
  and never unpinned; the second component has the pages pinned so.\<close>

definition page_cell ::
    "(PageIdentifier \<Rightarrow> mem) \<Rightarrow> table_id \<Rightarrow> u32 \<Rightarrow> mem \<Rightarrow> nat \<Rightarrow> string \<times> PageIdentifier list" where
  "page_cell pin varlen sz body p =
     (if sz = 1 then (show_int (sint (rd8 body p)), [])
      else if sz = 2 then (show_int (sint (rd16 body p)), [])
      else if sz = 4 then (show_int (sint (rd32 body p)), [])
      else if sz = 8 then (show_int (sint (rd64 body p)), [])
      else if varlen_IsInline body p then (bytes_text (rd_bytes body (varlen_GetInline p) (unat (varlen_GetSize body p))), [])
      else let i = \<lparr>tbl_id = varlen, pid = ref_pid (varlen_GetRef body p)\<rparr>
           in (bytes_text (rd_bytes (pin i) (unat (ref_offset (varlen_GetRef body p))) (unat (varlen_GetSize body p))), [i]))"

fun page_cells ::
    "(PageIdentifier \<Rightarrow> mem) \<Rightarrow> Table \<Rightarrow> mem \<Rightarrow> u32 \<Rightarrow> SchemaColumn list \<Rightarrow> u16 \<Rightarrow> string \<times> PageIdentifier list" where
  "page_cells pin t body i [] col_idx = ([], [])"
| "page_cells pin t body i (c # cs) col_idx =
     (let (v, pinned) = page_cell pin (varlen_oid t) (type_size c) body (pax_Get (tbl_layout t) col_idx i);
          (rest, pinned') = page_cells pin t body i cs (col_idx + 1)
      in (col_name c @ ''='' @ v @ replicate 12 CHR '' '' @ ''| '' @ rest, pinned @ pinned'))"

definition row_deleted :: "mem \<Rightarrow> u32 \<Rightarrow> bool" where
  "row_deleted body i \<longleftrightarrow> drop_bit (unat (i mod 8)) (body (unat (HEADER_SIZE + i div 8))) AND 1 \<noteq> 0"

definition page_line :: "(PageIdentifier \<Rightarrow> mem) \<Rightarrow> Table \<Rightarrow> mem \<Rightarrow> u32 \<Rightarrow> string \<times> PageIdentifier list" where
  "page_line pin t body i =
     (let (cells, pinned) = page_cells pin t body i (schema_columns (tbl_schema t)) 0
      in (''  Row '' @ pad_left 3 (show_unsigned (ucast i)) @ (if row_deleted body i then ''  [DELETED]  '' else replicate 13 CHR '' '') @
          ''| '' @ cells @ newline, pinned))"

definition PrintPage :: "(PageIdentifier \<Rightarrow> mem) \<Rightarrow> Table \<Rightarrow> PageIdentifier \<Rightarrow> mem \<Rightarrow> string \<times> PageIdentifier list" where
  "PrintPage pin t i body =
     (let row_count = pax_count body;
          lines = map (\<lambda>r. page_line pin t body (word_of_nat r)) [0..<unat row_count]
      in (''=== Page Contents ==='' @ newline @
          ''  Row count : '' @ show_unsigned (ucast row_count) @ newline @
          ''  Table id  : '' @ show_unsigned (ucast (tbl_id i)) @ newline @
          ''  Page id   : '' @ show_unsigned (ucast (pid i)) @ newline @ newline @
          concat (map fst lines) @ ''====================='' @ newline, concat (map snd lines)))"

section \<open>The dump of a layout\<close>

definition hex_digit :: "nat \<Rightarrow> char" where
  "hex_digit n = (if n < 10 then char_of (48 + n) else char_of (87 + n))"

definition printable :: "u8 \<Rightarrow> char" where
  "printable b = (if 32 \<le> b \<and> b \<le> 126 then char_of (unat b) else CHR ''.'')"

definition debug_cell :: "mem \<Rightarrow> u16 \<Rightarrow> nat \<Rightarrow> string" where
  "debug_cell d sz p =
     (if sz = 1 then show_int (sint (rd8 d p))
      else if sz = 2 then show_int (sint (rd16 d p))
      else if sz = 4 then show_unsigned (ucast (rd32 d p))
      else if sz = 8 then show_unsigned (rd64 d p)
      else if sz = 16 then
        ''vlen(sz='' @ show_unsigned (ucast (varlen_GetSize d p)) @
        (if varlen_IsInline d p
         then '','' @ [CHR 0x22] @
              map printable (rd_bytes d (varlen_GetInline p) (min (unat (varlen_GetSize d p)) INLINE_SIZE_CAP)) @ [CHR 0x22]
         else '',pid='' @ show_unsigned (ucast (ref_pid (varlen_GetRef d p))) @
              '',off='' @ show_unsigned (ucast (ref_offset (varlen_GetRef d p)))) @ '')''
      else concat (map (\<lambda>b. [hex_digit (unat b div 16), hex_digit (unat b mod 16)]) (rd_bytes d p (unat sz))))"

definition debug_row :: "PaxLayout \<Rightarrow> mem \<Rightarrow> u32 \<Rightarrow> string" where
  "debug_row l d i =
     ''row '' @ pad_left 2 (show_unsigned (ucast i)) @ (if pax_IsDeleted d i then '' [DEL]'' else ''      '') @
     (if i \<ge> pax_count d then '' [past count]'' else []) @ '' | '' @
     concat (map (\<lambda>col. debug_cell d (sizes l ! col) (pax_Get l (word_of_nat col) i) @ '' | '') [0..<length (sizes l)]) @ newline"

text \<open>Two columns are taken for granted; \<^verbatim>\<open>sizes_[1]\<close> of a shorter vector is \<open>OutOfRange\<close> here.\<close>

definition PrintDebug :: "PaxLayout \<Rightarrow> mem \<Rightarrow> string res" where
  "PrintDebug l d =
     (if length (sizes l) < 2 then Inl OutOfRange
      else let rows = min (pax_count d + 2) (max_row_count l)
           in Inr (show_unsigned (ucast (sizes l ! 0)) @ show_unsigned (ucast (sizes l ! 1)) @ newline @
                ''=== PaxLayout dump (count='' @ show_unsigned (ucast (pax_count d)) @ '', max='' @
                show_unsigned (ucast (max_row_count l)) @ '') ==='' @ newline @
                concat (map (\<lambda>i. debug_row l d (word_of_nat i)) [0..<unat rows]) @ ''==='' @ newline))"

section \<open>The debug printer\<close>

text \<open>\<^verbatim>\<open>src/debug/printer.cpp\<close>, on \<^verbatim>\<open>printf\<close>; the dumps of index pages are commented out there.\<close>

definition pad_right :: "nat \<Rightarrow> string \<Rightarrow> string" where
  "pad_right n s = s @ replicate (n - length s) CHR '' ''"

definition print_pid :: "PageIdentifier \<Rightarrow> string" where
  "print_pid i = ''PageId{tbl='' @ show_unsigned (ucast (tbl_id i)) @ '', page='' @ show_unsigned (ucast (pid i)) @ ''}'' @ newline"

definition print_page :: "Page \<Rightarrow> string" where
  "print_page p =
     ''Page{table_id='' @ pad_right 4 (show_unsigned (ucast (tbl_id (pg_id p)))) @
     ''  page_id='' @ pad_right 6 (show_unsigned (ucast (pid (pg_id p)))) @
     ''  ref='' @ pad_right 3 (show_unsigned (ucast (ref_count p))) @
     ''  io_in_progress='' @ (if IsIOInProgress p then ''true'' else ''false'') @ ''}'' @ newline"

definition print_pool :: "BufferPool \<Rightarrow> string" where
  "print_pool bp =
     replicate 59 CHR ''='' @ newline @
     pad_right 10 ''table_id'' @ '' '' @ pad_right 8 ''page_id'' @ '' '' @ pad_right 5 ''ref'' @ '' io_in_progress'' @ newline @
     replicate 59 CHR ''-'' @ newline @
     concat (map (\<lambda>f. print_page (pages bp (word_of_nat f))) [0..<unat BUFFER_POOL_PAGE_NUM]) @
     replicate 59 CHR ''='' @ newline"

section \<open>Properties\<close>

text \<open>The output has the row as the layout has it: \<^verbatim>\<open>PrintPage\<close> marks exactly the rows that \<^verbatim>\<open>IsDeleted\<close> finds deleted.\<close>

lemma row_deleted_iff: "row_deleted body i \<longleftrightarrow> pax_IsDeleted body i"
proof -
  have "(b AND push_bit k 1 > 0) \<longleftrightarrow> bit b k" for b :: u8 and k
    by (simp add: word_gt_0 bit_eq_iff) (auto simp: bit_simps dest: bit_imp_le_length)
  moreover have "(drop_bit k b AND 1 \<noteq> 0) \<longleftrightarrow> bit b k" for b :: u8 and k
    by (simp add: and_one_eq bit_iff_odd_drop_bit odd_iff_mod_2_eq_one)
  ultimately show ?thesis by (simp add: row_deleted_def pax_IsDeleted_def row_mask_def)
qed

text \<open>A page is left pinned for every string outside of its row.\<close>

lemma page_cell_pins:
  assumes "sz \<notin> {1, 2, 4, 8}" "\<not> varlen_IsInline body p"
  shows "length (snd (page_cell pin varlen sz body p)) = 1"
  using assms by (simp add: page_cell_def Let_def)

text \<open>A negative number in an INTEGER, SMALLINT or TINYINT column is printed as a number near \<open>2 ^ 64\<close>.\<close>

lemma unat_scast_negative:
  fixes v :: "'a::len word"
  assumes "LENGTH('a) \<le> 64" "sint v < 0"
  shows "unat (scast v :: u64) = nat (2 ^ 64 + sint v)"
proof -
  have "(2 :: int) ^ (LENGTH('a) - 1) \<le> 2 ^ 63" using assms(1) by (intro power_increasing) auto
  then have "- (2 ^ 63) \<le> sint v" using sint_ge [of v] by simp
  then have "sint v mod 2 ^ 64 = 2 ^ 64 + sint v"
    using assms(2) mod_pos_pos_trivial [of "2 ^ 64 + sint v" "2 ^ 64"] by simp
  moreover have "unat (scast v :: u64) = nat (sint v mod 2 ^ 64)"
    unfolding scast_eq by (simp only: uint_word_of_int unat_eq_nat_uint) simp
  ultimately show ?thesis by simp
qed

lemma dec_value_unsigned: "dec_value (show_unsigned v) = unat v"
  by (simp only: show_unsigned_def dec_value_digits)

lemma show_column_signed:
  "show_column sd m p TINYINT = show_unsigned (scast (rd8 m p))"
  "show_column sd m p SMALLINT = show_unsigned (scast (rd16 m p))"
  "show_column sd m p INTEGER = show_unsigned (scast (rd32 m p))"
  "show_column sd m p BIGINT = show_signed (rd64 m p)"
  by (simp_all add: show_column_def SizeOf_def)

lemma negative_column_printed:
  fixes sd :: "u64 \<Rightarrow> string"
  shows "sint (rd8 m p) < 0 \<Longrightarrow> dec_value (show_column sd m p TINYINT) = nat (2 ^ 64 + sint (rd8 m p))"
    "sint (rd16 m p) < 0 \<Longrightarrow> dec_value (show_column sd m p SMALLINT) = nat (2 ^ 64 + sint (rd16 m p))"
    "sint (rd32 m p) < 0 \<Longrightarrow> dec_value (show_column sd m p INTEGER) = nat (2 ^ 64 + sint (rd32 m p))"
    "sint (rd64 m p) < 0 \<Longrightarrow> show_column sd m p BIGINT = ''-'' @ dec_digits (nat (- sint (rd64 m p)))"
  by (simp_all only: show_column_signed dec_value_unsigned unat_scast_negative show_signed_def len_of_numeral_defs if_True)

end
