(* ===== verification/Program.thy ===== *)
theory Program
  imports Display
begin

text \<open>
  The entry point (\<^verbatim>\<open>src/main.cpp\<close>): one transaction creates a database, a namespace, a table, an index and a constraint,
  the system tables are shown, and two transactions commit. The disk, the buffer pool and the scheduler thread are below the
  session: which files can be opened, the fresh pages of an index and the bytes of fresh memory are arguments.
\<close>

record program_env =
  catalog_env :: cat_env
  openable :: "rel_oid_t \<Rightarrow> bool"
  column_order :: "col_oid_t list \<Rightarrow> col_oid_t list"
  index_pages :: "rel_oid_t \<Rightarrow> page_id \<Rightarrow> mem"
  tl_start :: TlState
  double_text :: "u64 \<Rightarrow> string"
  chain_fuel :: nat
  pad_word :: "undo_ptr \<Rightarrow> u32"

text \<open>\<^verbatim>\<open>DB7_ASSERT(res.success, msg)\<close> on the result of a statement.\<close>

definition expect ::
    "('v ResultObj \<times> 's) res option \<Rightarrow> string \<Rightarrow> ('v \<Rightarrow> 's \<Rightarrow> 'b res option) \<Rightarrow> 'b res option" where
  "expect m msg k = obind m (\<lambda>(r, s). case r of Ok v \<Rightarrow> k v s | Fail _ \<Rightarrow> Some (Inl (AssertFailed msg)))"

fun select_all :: "program_env \<Rightarrow> int list \<Rightarrow> DatabaseCatalog \<Rightarrow> (string \<times> DatabaseCatalog) res option" where
  "select_all e [] dc = Some (Inr ([], dc))"
| "select_all e (t # ts) dc =
     obind (db_Select (double_text e) (chain_fuel e) (catalog_env e) t dc) (\<lambda>(text, dc1).
     obind (select_all e ts dc1) (\<lambda>(rest, dc2). Some (Inr (text @ rest, dc2))))"

definition IndexSchema_new ::
    "(col_oid_t list \<Rightarrow> col_oid_t list) \<Rightarrow> SchemaColumn list \<Rightarrow> bool \<Rightarrow> bool \<Rightarrow> bool \<Rightarrow> bool \<Rightarrow> IndexSchema" where
  "IndexSchema_new order columns uniq prim excl imm =
     Schema.extend (Schema_new order columns) (IndexSchema.fields uniq prim excl imm)"

text \<open>The schema of the index: one column with an oid of its own.\<close>

definition program_index :: "program_env \<Rightarrow> IndexSchema" where
  "program_index e = IndexSchema_new (column_order e) [SchemaColumn_new 7000 INTEGER ''typlen''] False False False False"

text \<open>The statements of the first transaction on the database catalog.\<close>

definition program_ddl :: "program_env \<Rightarrow> DatabaseCatalog \<Rightarrow> (string \<times> DatabaseCatalog) res option" where
  "program_ddl e dc =
     expect (CreateNamespace (catalog_env e) None (name_bytes ''Jovo'') dc) ''Failed namespace'' (\<lambda>ns dc1.
     expect (db_CreateTable (catalog_env e) None (name_bytes ''Jovo2'') ns (CreateTypeSchema (column_order e)) dc1)
       ''Failed table'' (\<lambda>tbl dc2.
     expect (db_CreateIndex (catalog_env e) None (name_bytes ''ssss33'') tbl ns (program_index e) dc2) ''Failed index'' (\<lambda>idx dc3.
     let props = \<lparr>cp_name = name_bytes ''ssss44'', ns_oid = ns, con_type = PRIMARY_KEY, defferable = False, deffered = False,
                  validated = False, cp_rel_oid = tbl, cp_ind_oid = idx, cp_for_oid = tbl\<rparr>
     in expect (CreateConstraint (catalog_env e) None props dc3) ''Failed namespace'' (\<lambda>_ dc4.
          select_all e [0, 1, 2, 3, 4] dc4))))"

definition INITIAL_TXN_TIMESTAMP :: timestamp_t where
  "INITIAL_TXN_TIMESTAMP = 0"

text \<open>\<^verbatim>\<open>main\<close> from the construction of the pool on: the output, the two commit times and the undo store at the end. The catalog
  is constructed before the transactions begin; it uses neither the pool nor the clock.\<close>

definition program_main :: "program_env \<Rightarrow> FreeSpaceManagerIndex \<Rightarrow> UndoStore \<Rightarrow> FreeSpaceManagerVarlen \<Rightarrow> TablePages \<Rightarrow>
    (string \<times> timestamp_t \<times> timestamp_t \<times> UndoStore) res option" where
  "program_main e ifsm st fsm ps =
     obind (Some (BeginTransaction (st\<lparr>arena_pool := ObjectPool_new 10000 2000\<rparr>) INITIAL_TXN_TIMESTAMP)) (\<lambda>(st1, clock1, context).
     obind (Some (BeginTransaction st1 clock1)) (\<lambda>(st2, clock2, context1).
     let s = \<lparr>txn = context, mvcc = \<lparr>undo = st2, version_table = Map.empty\<rparr>, heap_fsm = fsm, heap_pages = ps,
              sys_tables = Map.empty, sys_indexes = Map.empty\<rparr>;
         builder = (\<lambda>c oid. CreateDatabaseCatalog (openable e) (column_order e) (index_pages e) (tl_start e)
                      (case sys_indexes c PG_INDEX_DATABASE_DATNAME of None \<Rightarrow> ifsm | Some t \<Rightarrow> bt_fsm t) c oid)
     in obind (Some (Catalog_new (openable e) (column_order e) (index_pages e) (tl_start e) ifsm s)) (\<lambda>cat.
        expect (CreateDatabase (catalog_env e) builder (name_bytes ''ssss'') cat) ''Failed database'' (\<lambda>db cat1.
        case GetDatabaseCatalog cat1 db of
          (None, _) \<Rightarrow> Some (Inl NullDeref)
        | (Some dc, _) \<Rightarrow>
            obind (program_ddl e dc) (\<lambda>(text, dc1).
            obind (Commit (chain_fuel e) (pad_word e) clock2 (undo (mvcc dc1)) (txn dc1)) (\<lambda>(t, clock3, st3).
            obind (Commit (chain_fuel e) (pad_word e) clock3 st3 context1) (\<lambda>(t1, clock4, st4).
              Some (Inr (''Hello, world!'' @ newline @ text, t, t1, st4)))))))))"

end
