(* ===== verification/Errors.thy ===== *)
theory Errors
  imports Prelude
begin

text \<open>
  Error reporting (\<^verbatim>\<open>shared/error/\<close>): the SQL error codes with their SQLSTATE strings, the severities and fields of
  an error message, and the exception classes. The engine itself throws only standard exceptions; these are the types
  its clients report errors with.

  An enumerator of \<^verbatim>\<open>ErrorCode\<close> is a 16-bit value, its position in the enumeration; the tables below list the
  enumerators and the cases of the switch in the order of the source.
\<close>

section \<open>Error codes (error_code.hpp)\<close>

type_synonym ErrorCode = u16

definition ErrorCode_enumerators_1 :: "string list" where
  "ErrorCode_enumerators_1 =
    [''ERRCODE_SUCCESSFUL_COMPLETION'',
     ''ERRCODE_WARNING'',
     ''ERRCODE_WARNING_DYNAMIC_RESULT_SETS_RETURNED'',
     ''ERRCODE_WARNING_IMPLICIT_ZERO_BIT_PADDING'',
     ''ERRCODE_WARNING_NULL_VALUE_ELIMINATED_IN_SET_FUNCTION'',
     ''ERRCODE_WARNING_PRIVILEGE_NOT_GRANTED'',
     ''ERRCODE_WARNING_PRIVILEGE_NOT_REVOKED'',
     ''ERRCODE_WARNING_STRING_DATA_RIGHT_TRUNCATION'',
     ''ERRCODE_WARNING_DEPRECATED_FEATURE'',
     ''ERRCODE_NO_DATA'',
     ''ERRCODE_NO_ADDITIONAL_DYNAMIC_RESULT_SETS_RETURNED'',
     ''ERRCODE_SQL_STATEMENT_NOT_YET_COMPLETE'',
     ''ERRCODE_CONNECTION_EXCEPTION'',
     ''ERRCODE_CONNECTION_DOES_NOT_EXIST'',
     ''ERRCODE_CONNECTION_FAILURE'',
     ''ERRCODE_SQLCLIENT_UNABLE_TO_ESTABLISH_SQLCONNECTION'',
     ''ERRCODE_SQLSERVER_REJECTED_ESTABLISHMENT_OF_SQLCONNECTION'',
     ''ERRCODE_TRANSACTION_RESOLUTION_UNKNOWN'',
     ''ERRCODE_PROTOCOL_VIOLATION'',
     ''ERRCODE_TRIGGERED_ACTION_EXCEPTION'',
     ''ERRCODE_FEATURE_NOT_SUPPORTED'',
     ''ERRCODE_INVALID_TRANSACTION_INITIATION'',
     ''ERRCODE_LOCATOR_EXCEPTION'',
     ''ERRCODE_L_E_INVALID_SPECIFICATION'',
     ''ERRCODE_INVALID_GRANTOR'',
     ''ERRCODE_INVALID_GRANT_OPERATION'',
     ''ERRCODE_INVALID_ROLE_SPECIFICATION'',
     ''ERRCODE_DIAGNOSTICS_EXCEPTION'',
     ''ERRCODE_STACKED_DIAGNOSTICS_ACCESSED_WITHOUT_ACTIVE_HANDLER'',
     ''ERRCODE_CASE_NOT_FOUND'',
     ''ERRCODE_CARDINALITY_VIOLATION'',
     ''ERRCODE_DATA_EXCEPTION'',
     ''ERRCODE_ARRAY_ELEMENT_ERROR'',
     ''ERRCODE_ARRAY_SUBSCRIPT_ERROR'',
     ''ERRCODE_CHARACTER_NOT_IN_REPERTOIRE'',
     ''ERRCODE_DATETIME_FIELD_OVERFLOW'',
     ''ERRCODE_DATETIME_VALUE_OUT_OF_RANGE'',
     ''ERRCODE_DIVISION_BY_ZERO'',
     ''ERRCODE_ERROR_IN_ASSIGNMENT'',
     ''ERRCODE_ESCAPE_CHARACTER_CONFLICT'',
     ''ERRCODE_INDICATOR_OVERFLOW'',
     ''ERRCODE_INTERVAL_FIELD_OVERFLOW'',
     ''ERRCODE_INVALID_ARGUMENT_FOR_LOG'',
     ''ERRCODE_INVALID_ARGUMENT_FOR_NTILE'',
     ''ERRCODE_INVALID_ARGUMENT_FOR_NTH_VALUE'',
     ''ERRCODE_INVALID_ARGUMENT_FOR_POWER_FUNCTION'',
     ''ERRCODE_INVALID_ARGUMENT_FOR_WIDTH_BUCKET_FUNCTION'',
     ''ERRCODE_INVALID_CHARACTER_VALUE_FOR_CAST'',
     ''ERRCODE_INVALID_DATETIME_FORMAT'',
     ''ERRCODE_INVALID_ESCAPE_CHARACTER'',
     ''ERRCODE_INVALID_ESCAPE_OCTET'',
     ''ERRCODE_INVALID_ESCAPE_SEQUENCE'',
     ''ERRCODE_NONSTANDARD_USE_OF_ESCAPE_CHARACTER'',
     ''ERRCODE_INVALID_INDICATOR_PARAMETER_VALUE'',
     ''ERRCODE_INVALID_PARAMETER_VALUE'',
     ''ERRCODE_INVALID_PRECEDING_OR_FOLLOWING_SIZE'',
     ''ERRCODE_INVALID_REGULAR_EXPRESSION'',
     ''ERRCODE_INVALID_ROW_COUNT_IN_LIMIT_CLAUSE'',
     ''ERRCODE_INVALID_ROW_COUNT_IN_RESULT_OFFSET_CLAUSE'',
     ''ERRCODE_INVALID_TABLESAMPLE_ARGUMENT'',
     ''ERRCODE_INVALID_TABLESAMPLE_REPEAT'',
     ''ERRCODE_INVALID_TIME_ZONE_DISPLACEMENT_VALUE'',
     ''ERRCODE_INVALID_USE_OF_ESCAPE_CHARACTER'',
     ''ERRCODE_MOST_SPECIFIC_TYPE_MISMATCH'',
     ''ERRCODE_NULL_VALUE_NOT_ALLOWED'',
     ''ERRCODE_NULL_VALUE_NO_INDICATOR_PARAMETER'',
     ''ERRCODE_NUMERIC_VALUE_OUT_OF_RANGE'',
     ''ERRCODE_SEQUENCE_GENERATOR_LIMIT_EXCEEDED'',
     ''ERRCODE_STRING_DATA_LENGTH_MISMATCH'',
     ''ERRCODE_STRING_DATA_RIGHT_TRUNCATION'',
     ''ERRCODE_SUBSTRING_ERROR'',
     ''ERRCODE_TRIM_ERROR'',
     ''ERRCODE_UNTERMINATED_C_STRING'',
     ''ERRCODE_ZERO_LENGTH_CHARACTER_STRING'',
     ''ERRCODE_FLOATING_POINT_EXCEPTION'',
     ''ERRCODE_INVALID_TEXT_REPRESENTATION'',
     ''ERRCODE_INVALID_BINARY_REPRESENTATION'',
     ''ERRCODE_BAD_COPY_FILE_FORMAT'',
     ''ERRCODE_UNTRANSLATABLE_CHARACTER'',
     ''ERRCODE_NOT_AN_XML_DOCUMENT'',
     ''ERRCODE_INVALID_XML_DOCUMENT'',
     ''ERRCODE_INVALID_XML_CONTENT'',
     ''ERRCODE_INVALID_XML_COMMENT'',
     ''ERRCODE_INVALID_XML_PROCESSING_INSTRUCTION'',
     ''ERRCODE_DUPLICATE_JSON_OBJECT_KEY_VALUE'',
     ''ERRCODE_INVALID_ARGUMENT_FOR_SQL_JSON_DATETIME_FUNCTION'',
     ''ERRCODE_INVALID_JSON_TEXT'',
     ''ERRCODE_INVALID_SQL_JSON_SUBSCRIPT'',
     ''ERRCODE_MORE_THAN_ONE_SQL_JSON_ITEM'',
     ''ERRCODE_NO_SQL_JSON_ITEM'',
     ''ERRCODE_NON_NUMERIC_SQL_JSON_ITEM'',
     ''ERRCODE_NON_UNIQUE_KEYS_IN_A_JSON_OBJECT'',
     ''ERRCODE_SINGLETON_SQL_JSON_ITEM_REQUIRED'',
     ''ERRCODE_SQL_JSON_ARRAY_NOT_FOUND'',
     ''ERRCODE_SQL_JSON_MEMBER_NOT_FOUND'',
     ''ERRCODE_SQL_JSON_NUMBER_NOT_FOUND'',
     ''ERRCODE_SQL_JSON_OBJECT_NOT_FOUND'',
     ''ERRCODE_TOO_MANY_JSON_ARRAY_ELEMENTS'',
     ''ERRCODE_TOO_MANY_JSON_OBJECT_MEMBERS'',
     ''ERRCODE_SQL_JSON_SCALAR_REQUIRED'']"

definition ErrorCode_enumerators_2 :: "string list" where
  "ErrorCode_enumerators_2 =
    [''ERRCODE_INTEGRITY_CONSTRAINT_VIOLATION'',
     ''ERRCODE_RESTRICT_VIOLATION'',
     ''ERRCODE_NOT_NULL_VIOLATION'',
     ''ERRCODE_FOREIGN_KEY_VIOLATION'',
     ''ERRCODE_UNIQUE_VIOLATION'',
     ''ERRCODE_CHECK_VIOLATION'',
     ''ERRCODE_EXCLUSION_VIOLATION'',
     ''ERRCODE_INVALID_CURSOR_STATE'',
     ''ERRCODE_INVALID_TRANSACTION_STATE'',
     ''ERRCODE_ACTIVE_SQL_TRANSACTION'',
     ''ERRCODE_BRANCH_TRANSACTION_ALREADY_ACTIVE'',
     ''ERRCODE_HELD_CURSOR_REQUIRES_SAME_ISOLATION_LEVEL'',
     ''ERRCODE_INAPPROPRIATE_ACCESS_MODE_FOR_BRANCH_TRANSACTION'',
     ''ERRCODE_INAPPROPRIATE_ISOLATION_LEVEL_FOR_BRANCH_TRANSACTION'',
     ''ERRCODE_NO_ACTIVE_SQL_TRANSACTION_FOR_BRANCH_TRANSACTION'',
     ''ERRCODE_READ_ONLY_SQL_TRANSACTION'',
     ''ERRCODE_SCHEMA_AND_DATA_STATEMENT_MIXING_NOT_SUPPORTED'',
     ''ERRCODE_NO_ACTIVE_SQL_TRANSACTION'',
     ''ERRCODE_IN_FAILED_SQL_TRANSACTION'',
     ''ERRCODE_IDLE_IN_TRANSACTION_SESSION_TIMEOUT'',
     ''ERRCODE_INVALID_SQL_STATEMENT_NAME'',
     ''ERRCODE_TRIGGERED_DATA_CHANGE_VIOLATION'',
     ''ERRCODE_INVALID_AUTHORIZATION_SPECIFICATION'',
     ''ERRCODE_INVALID_PASSWORD'',
     ''ERRCODE_DEPENDENT_PRIVILEGE_DESCRIPTORS_STILL_EXIST'',
     ''ERRCODE_DEPENDENT_OBJECTS_STILL_EXIST'',
     ''ERRCODE_INVALID_TRANSACTION_TERMINATION'',
     ''ERRCODE_SQL_ROUTINE_EXCEPTION'',
     ''ERRCODE_S_R_E_FUNCTION_EXECUTED_NO_RETURN_STATEMENT'',
     ''ERRCODE_S_R_E_MODIFYING_SQL_DATA_NOT_PERMITTED'',
     ''ERRCODE_S_R_E_PROHIBITED_SQL_STATEMENT_ATTEMPTED'',
     ''ERRCODE_S_R_E_READING_SQL_DATA_NOT_PERMITTED'',
     ''ERRCODE_INVALID_CURSOR_NAME'',
     ''ERRCODE_EXTERNAL_ROUTINE_EXCEPTION'',
     ''ERRCODE_E_R_E_CONTAINING_SQL_NOT_PERMITTED'',
     ''ERRCODE_E_R_E_MODIFYING_SQL_DATA_NOT_PERMITTED'',
     ''ERRCODE_E_R_E_PROHIBITED_SQL_STATEMENT_ATTEMPTED'',
     ''ERRCODE_E_R_E_READING_SQL_DATA_NOT_PERMITTED'',
     ''ERRCODE_EXTERNAL_ROUTINE_INVOCATION_EXCEPTION'',
     ''ERRCODE_E_R_I_E_INVALID_SQLSTATE_RETURNED'',
     ''ERRCODE_E_R_I_E_NULL_VALUE_NOT_ALLOWED'',
     ''ERRCODE_E_R_I_E_TRIGGER_PROTOCOL_VIOLATED'',
     ''ERRCODE_E_R_I_E_SRF_PROTOCOL_VIOLATED'',
     ''ERRCODE_E_R_I_E_EVENT_TRIGGER_PROTOCOL_VIOLATED'',
     ''ERRCODE_SAVEPOINT_EXCEPTION'',
     ''ERRCODE_S_E_INVALID_SPECIFICATION'',
     ''ERRCODE_INVALID_CATALOG_NAME'',
     ''ERRCODE_INVALID_SCHEMA_NAME'',
     ''ERRCODE_TRANSACTION_ROLLBACK'',
     ''ERRCODE_T_R_INTEGRITY_CONSTRAINT_VIOLATION'',
     ''ERRCODE_T_R_SERIALIZATION_FAILURE'',
     ''ERRCODE_T_R_STATEMENT_COMPLETION_UNKNOWN'',
     ''ERRCODE_T_R_DEADLOCK_DETECTED'',
     ''ERRCODE_SYNTAX_ERROR_OR_ACCESS_RULE_VIOLATION'',
     ''ERRCODE_SYNTAX_ERROR'',
     ''ERRCODE_INSUFFICIENT_PRIVILEGE'',
     ''ERRCODE_CANNOT_COERCE'',
     ''ERRCODE_GROUPING_ERROR'',
     ''ERRCODE_WINDOWING_ERROR'',
     ''ERRCODE_INVALID_RECURSION'',
     ''ERRCODE_INVALID_FOREIGN_KEY'',
     ''ERRCODE_INVALID_NAME'',
     ''ERRCODE_NAME_TOO_LONG'',
     ''ERRCODE_RESERVED_NAME'',
     ''ERRCODE_DATATYPE_MISMATCH'',
     ''ERRCODE_INDETERMINATE_DATATYPE'',
     ''ERRCODE_COLLATION_MISMATCH'',
     ''ERRCODE_INDETERMINATE_COLLATION'',
     ''ERRCODE_WRONG_OBJECT_TYPE'',
     ''ERRCODE_GENERATED_ALWAYS'',
     ''ERRCODE_UNDEFINED_COLUMN'',
     ''ERRCODE_UNDEFINED_CURSOR'',
     ''ERRCODE_UNDEFINED_DATABASE'',
     ''ERRCODE_UNDEFINED_FUNCTION'',
     ''ERRCODE_UNDEFINED_PSTATEMENT'',
     ''ERRCODE_UNDEFINED_SCHEMA'',
     ''ERRCODE_UNDEFINED_TABLE'',
     ''ERRCODE_UNDEFINED_PARAMETER'',
     ''ERRCODE_UNDEFINED_OBJECT'',
     ''ERRCODE_DUPLICATE_COLUMN'',
     ''ERRCODE_DUPLICATE_CURSOR'',
     ''ERRCODE_DUPLICATE_DATABASE'',
     ''ERRCODE_DUPLICATE_FUNCTION'',
     ''ERRCODE_DUPLICATE_PSTATEMENT'',
     ''ERRCODE_DUPLICATE_SCHEMA'']"

definition ErrorCode_enumerators_3 :: "string list" where
  "ErrorCode_enumerators_3 =
    [''ERRCODE_DUPLICATE_TABLE'',
     ''ERRCODE_DUPLICATE_ALIAS'',
     ''ERRCODE_DUPLICATE_OBJECT'',
     ''ERRCODE_AMBIGUOUS_COLUMN'',
     ''ERRCODE_AMBIGUOUS_FUNCTION'',
     ''ERRCODE_AMBIGUOUS_PARAMETER'',
     ''ERRCODE_AMBIGUOUS_ALIAS'',
     ''ERRCODE_INVALID_COLUMN_REFERENCE'',
     ''ERRCODE_INVALID_COLUMN_DEFINITION'',
     ''ERRCODE_INVALID_CURSOR_DEFINITION'',
     ''ERRCODE_INVALID_DATABASE_DEFINITION'',
     ''ERRCODE_INVALID_FUNCTION_DEFINITION'',
     ''ERRCODE_INVALID_PSTATEMENT_DEFINITION'',
     ''ERRCODE_INVALID_SCHEMA_DEFINITION'',
     ''ERRCODE_INVALID_TABLE_DEFINITION'',
     ''ERRCODE_INVALID_OBJECT_DEFINITION'',
     ''ERRCODE_WITH_CHECK_OPTION_VIOLATION'',
     ''ERRCODE_INSUFFICIENT_RESOURCES'',
     ''ERRCODE_DISK_FULL'',
     ''ERRCODE_OUT_OF_MEMORY'',
     ''ERRCODE_TOO_MANY_CONNECTIONS'',
     ''ERRCODE_CONFIGURATION_LIMIT_EXCEEDED'',
     ''ERRCODE_PROGRAM_LIMIT_EXCEEDED'',
     ''ERRCODE_STATEMENT_TOO_COMPLEX'',
     ''ERRCODE_TOO_MANY_COLUMNS'',
     ''ERRCODE_TOO_MANY_ARGUMENTS'',
     ''ERRCODE_OBJECT_NOT_IN_PREREQUISITE_STATE'',
     ''ERRCODE_OBJECT_IN_USE'',
     ''ERRCODE_CANT_CHANGE_RUNTIME_PARAM'',
     ''ERRCODE_LOCK_NOT_AVAILABLE'',
     ''ERRCODE_UNSAFE_NEW_ENUM_VALUE_USAGE'',
     ''ERRCODE_OPERATOR_INTERVENTION'',
     ''ERRCODE_QUERY_CANCELED'',
     ''ERRCODE_ADMIN_SHUTDOWN'',
     ''ERRCODE_CRASH_SHUTDOWN'',
     ''ERRCODE_CANNOT_CONNECT_NOW'',
     ''ERRCODE_DATABASE_DROPPED'',
     ''ERRCODE_SYSTEM_ERROR'',
     ''ERRCODE_IO_ERROR'',
     ''ERRCODE_UNDEFINED_FILE'',
     ''ERRCODE_DUPLICATE_FILE'',
     ''ERRCODE_SNAPSHOT_TOO_OLD'',
     ''ERRCODE_CONFIG_FILE_ERROR'',
     ''ERRCODE_LOCK_FILE_EXISTS'',
     ''ERRCODE_FDW_ERROR'',
     ''ERRCODE_FDW_COLUMN_NAME_NOT_FOUND'',
     ''ERRCODE_FDW_DYNAMIC_PARAMETER_VALUE_NEEDED'',
     ''ERRCODE_FDW_FUNCTION_SEQUENCE_ERROR'',
     ''ERRCODE_FDW_INCONSISTENT_DESCRIPTOR_INFORMATION'',
     ''ERRCODE_FDW_INVALID_ATTRIBUTE_VALUE'',
     ''ERRCODE_FDW_INVALID_COLUMN_NAME'',
     ''ERRCODE_FDW_INVALID_COLUMN_NUMBER'',
     ''ERRCODE_FDW_INVALID_DATA_TYPE'',
     ''ERRCODE_FDW_INVALID_DATA_TYPE_DESCRIPTORS'',
     ''ERRCODE_FDW_INVALID_DESCRIPTOR_FIELD_IDENTIFIER'',
     ''ERRCODE_FDW_INVALID_HANDLE'',
     ''ERRCODE_FDW_INVALID_OPTION_INDEX'',
     ''ERRCODE_FDW_INVALID_OPTION_NAME'',
     ''ERRCODE_FDW_INVALID_STRING_LENGTH_OR_BUFFER_LENGTH'',
     ''ERRCODE_FDW_INVALID_STRING_FORMAT'',
     ''ERRCODE_FDW_INVALID_USE_OF_NULL_POINTER'',
     ''ERRCODE_FDW_TOO_MANY_HANDLES'',
     ''ERRCODE_FDW_OUT_OF_MEMORY'',
     ''ERRCODE_FDW_NO_SCHEMAS'',
     ''ERRCODE_FDW_OPTION_NAME_NOT_FOUND'',
     ''ERRCODE_FDW_REPLY_HANDLE'',
     ''ERRCODE_FDW_SCHEMA_NOT_FOUND'',
     ''ERRCODE_FDW_TABLE_NOT_FOUND'',
     ''ERRCODE_FDW_UNABLE_TO_CREATE_EXECUTION'',
     ''ERRCODE_FDW_UNABLE_TO_CREATE_REPLY'',
     ''ERRCODE_FDW_UNABLE_TO_ESTABLISH_CONNECTION'',
     ''ERRCODE_PLPGSQL_ERROR'',
     ''ERRCODE_RAISE_EXCEPTION'',
     ''ERRCODE_NO_DATA_FOUND'',
     ''ERRCODE_TOO_MANY_ROWS'',
     ''ERRCODE_ASSERT_FAILURE'',
     ''ERRCODE_INTERNAL_ERROR'',
     ''ERRCODE_DATA_CORRUPTED'',
     ''ERRCODE_INDEX_CORRUPTED'']"

definition ErrorCode_enumerators :: "string list" where
  "ErrorCode_enumerators = ErrorCode_enumerators_1 @ ErrorCode_enumerators_2 @ ErrorCode_enumerators_3"

text \<open>The cases of the switch, in the order of the source: the label and the string it returns.\<close>

definition ErrorCode_cases_1 :: "(string \<times> string) list" where
  "ErrorCode_cases_1 =
    [(''ERRCODE_SUCCESSFUL_COMPLETION'', ''00000''),
     (''ERRCODE_WARNING'', ''01000''),
     (''ERRCODE_WARNING_DYNAMIC_RESULT_SETS_RETURNED'', ''0100C''),
     (''ERRCODE_WARNING_IMPLICIT_ZERO_BIT_PADDING'', ''01008''),
     (''ERRCODE_WARNING_NULL_VALUE_ELIMINATED_IN_SET_FUNCTION'', ''01003''),
     (''ERRCODE_WARNING_PRIVILEGE_NOT_GRANTED'', ''01007''),
     (''ERRCODE_WARNING_PRIVILEGE_NOT_REVOKED'', ''01006''),
     (''ERRCODE_WARNING_STRING_DATA_RIGHT_TRUNCATION'', ''01004''),
     (''ERRCODE_WARNING_DEPRECATED_FEATURE'', ''01P01''),
     (''ERRCODE_NO_DATA'', ''02000''),
     (''ERRCODE_NO_ADDITIONAL_DYNAMIC_RESULT_SETS_RETURNED'', ''02001''),
     (''ERRCODE_SQL_STATEMENT_NOT_YET_COMPLETE'', ''03000''),
     (''ERRCODE_CONNECTION_EXCEPTION'', ''08000''),
     (''ERRCODE_CONNECTION_DOES_NOT_EXIST'', ''08003''),
     (''ERRCODE_CONNECTION_FAILURE'', ''08006''),
     (''ERRCODE_SQLCLIENT_UNABLE_TO_ESTABLISH_SQLCONNECTION'', ''08001''),
     (''ERRCODE_SQLSERVER_REJECTED_ESTABLISHMENT_OF_SQLCONNECTION'', ''08004''),
     (''ERRCODE_TRANSACTION_RESOLUTION_UNKNOWN'', ''08007''),
     (''ERRCODE_PROTOCOL_VIOLATION'', ''08P01''),
     (''ERRCODE_TRIGGERED_ACTION_EXCEPTION'', ''09000''),
     (''ERRCODE_FEATURE_NOT_SUPPORTED'', ''0A000''),
     (''ERRCODE_INVALID_TRANSACTION_INITIATION'', ''0B000''),
     (''ERRCODE_LOCATOR_EXCEPTION'', ''0F000''),
     (''ERRCODE_L_E_INVALID_SPECIFICATION'', ''0F001''),
     (''ERRCODE_INVALID_GRANTOR'', ''0L000''),
     (''ERRCODE_INVALID_GRANT_OPERATION'', ''0LP01''),
     (''ERRCODE_INVALID_ROLE_SPECIFICATION'', ''0P000''),
     (''ERRCODE_DIAGNOSTICS_EXCEPTION'', ''0Z000''),
     (''ERRCODE_STACKED_DIAGNOSTICS_ACCESSED_WITHOUT_ACTIVE_HANDLER'', ''0Z002''),
     (''ERRCODE_CASE_NOT_FOUND'', ''20000''),
     (''ERRCODE_CARDINALITY_VIOLATION'', ''21000''),
     (''ERRCODE_DATA_EXCEPTION'', ''22000''),
     (''ERRCODE_ARRAY_ELEMENT_ERROR'', ''2202E''),
     (''ERRCODE_ARRAY_SUBSCRIPT_ERROR'', ''2202E''),
     (''ERRCODE_CHARACTER_NOT_IN_REPERTOIRE'', ''22021''),
     (''ERRCODE_DATETIME_FIELD_OVERFLOW'', ''22008''),
     (''ERRCODE_DATETIME_VALUE_OUT_OF_RANGE'', ''22008''),
     (''ERRCODE_DIVISION_BY_ZERO'', ''22012''),
     (''ERRCODE_ERROR_IN_ASSIGNMENT'', ''22005''),
     (''ERRCODE_ESCAPE_CHARACTER_CONFLICT'', ''2200B''),
     (''ERRCODE_INDICATOR_OVERFLOW'', ''22022''),
     (''ERRCODE_INTERVAL_FIELD_OVERFLOW'', ''22015''),
     (''ERRCODE_INVALID_ARGUMENT_FOR_LOG'', ''2201E''),
     (''ERRCODE_INVALID_ARGUMENT_FOR_NTILE'', ''22014''),
     (''ERRCODE_INVALID_ARGUMENT_FOR_NTH_VALUE'', ''22016''),
     (''ERRCODE_INVALID_ARGUMENT_FOR_POWER_FUNCTION'', ''2201F''),
     (''ERRCODE_INVALID_ARGUMENT_FOR_WIDTH_BUCKET_FUNCTION'', ''2201G''),
     (''ERRCODE_INVALID_CHARACTER_VALUE_FOR_CAST'', ''22018''),
     (''ERRCODE_INVALID_DATETIME_FORMAT'', ''22007''),
     (''ERRCODE_INVALID_ESCAPE_CHARACTER'', ''22019''),
     (''ERRCODE_INVALID_ESCAPE_OCTET'', ''2200D''),
     (''ERRCODE_INVALID_ESCAPE_SEQUENCE'', ''22025''),
     (''ERRCODE_NONSTANDARD_USE_OF_ESCAPE_CHARACTER'', ''22P06''),
     (''ERRCODE_INVALID_INDICATOR_PARAMETER_VALUE'', ''22010''),
     (''ERRCODE_INVALID_PARAMETER_VALUE'', ''22023''),
     (''ERRCODE_INVALID_PRECEDING_OR_FOLLOWING_SIZE'', ''22013''),
     (''ERRCODE_INVALID_REGULAR_EXPRESSION'', ''2201B''),
     (''ERRCODE_INVALID_ROW_COUNT_IN_LIMIT_CLAUSE'', ''2201W''),
     (''ERRCODE_INVALID_ROW_COUNT_IN_RESULT_OFFSET_CLAUSE'', ''2201X''),
     (''ERRCODE_INVALID_TABLESAMPLE_ARGUMENT'', ''2202H''),
     (''ERRCODE_INVALID_TABLESAMPLE_REPEAT'', ''2202G''),
     (''ERRCODE_INVALID_TIME_ZONE_DISPLACEMENT_VALUE'', ''22009''),
     (''ERRCODE_INVALID_USE_OF_ESCAPE_CHARACTER'', ''2200C''),
     (''ERRCODE_MOST_SPECIFIC_TYPE_MISMATCH'', ''2200G''),
     (''ERRCODE_NULL_VALUE_NOT_ALLOWED'', ''22004''),
     (''ERRCODE_NULL_VALUE_NO_INDICATOR_PARAMETER'', ''22002''),
     (''ERRCODE_NUMERIC_VALUE_OUT_OF_RANGE'', ''22003''),
     (''ERRCODE_SEQUENCE_GENERATOR_LIMIT_EXCEEDED'', ''2200H''),
     (''ERRCODE_STRING_DATA_LENGTH_MISMATCH'', ''22026''),
     (''ERRCODE_STRING_DATA_RIGHT_TRUNCATION'', ''22001''),
     (''ERRCODE_SUBSTRING_ERROR'', ''22011''),
     (''ERRCODE_TRIM_ERROR'', ''22027''),
     (''ERRCODE_UNTERMINATED_C_STRING'', ''22024''),
     (''ERRCODE_ZERO_LENGTH_CHARACTER_STRING'', ''2200F'')]"

definition ErrorCode_cases_2 :: "(string \<times> string) list" where
  "ErrorCode_cases_2 =
    [(''ERRCODE_FLOATING_POINT_EXCEPTION'', ''22P01''),
     (''ERRCODE_INVALID_TEXT_REPRESENTATION'', ''22P02''),
     (''ERRCODE_INVALID_BINARY_REPRESENTATION'', ''22P03''),
     (''ERRCODE_BAD_COPY_FILE_FORMAT'', ''22P04''),
     (''ERRCODE_UNTRANSLATABLE_CHARACTER'', ''22P05''),
     (''ERRCODE_NOT_AN_XML_DOCUMENT'', ''2200L''),
     (''ERRCODE_INVALID_XML_DOCUMENT'', ''2200M''),
     (''ERRCODE_INVALID_XML_CONTENT'', ''2200N''),
     (''ERRCODE_INVALID_XML_COMMENT'', ''2200S''),
     (''ERRCODE_INVALID_XML_PROCESSING_INSTRUCTION'', ''2200T''),
     (''ERRCODE_DUPLICATE_JSON_OBJECT_KEY_VALUE'', ''22030''),
     (''ERRCODE_INVALID_ARGUMENT_FOR_SQL_JSON_DATETIME_FUNCTION'', ''22031''),
     (''ERRCODE_INVALID_JSON_TEXT'', ''22032''),
     (''ERRCODE_INVALID_SQL_JSON_SUBSCRIPT'', ''22033''),
     (''ERRCODE_MORE_THAN_ONE_SQL_JSON_ITEM'', ''22034''),
     (''ERRCODE_NO_SQL_JSON_ITEM'', ''22035''),
     (''ERRCODE_NON_NUMERIC_SQL_JSON_ITEM'', ''22036''),
     (''ERRCODE_NON_UNIQUE_KEYS_IN_A_JSON_OBJECT'', ''22037''),
     (''ERRCODE_SINGLETON_SQL_JSON_ITEM_REQUIRED'', ''22038''),
     (''ERRCODE_SQL_JSON_ARRAY_NOT_FOUND'', ''22039''),
     (''ERRCODE_SQL_JSON_MEMBER_NOT_FOUND'', ''2203A''),
     (''ERRCODE_SQL_JSON_NUMBER_NOT_FOUND'', ''2203B''),
     (''ERRCODE_SQL_JSON_OBJECT_NOT_FOUND'', ''2203C''),
     (''ERRCODE_TOO_MANY_JSON_ARRAY_ELEMENTS'', ''2203D''),
     (''ERRCODE_TOO_MANY_JSON_OBJECT_MEMBERS'', ''2203E''),
     (''ERRCODE_SQL_JSON_SCALAR_REQUIRED'', ''2203F''),
     (''ERRCODE_INTEGRITY_CONSTRAINT_VIOLATION'', ''23000''),
     (''ERRCODE_RESTRICT_VIOLATION'', ''23001''),
     (''ERRCODE_NOT_NULL_VIOLATION'', ''23502''),
     (''ERRCODE_FOREIGN_KEY_VIOLATION'', ''23503''),
     (''ERRCODE_UNIQUE_VIOLATION'', ''23505''),
     (''ERRCODE_CHECK_VIOLATION'', ''23514''),
     (''ERRCODE_EXCLUSION_VIOLATION'', ''23P01''),
     (''ERRCODE_INVALID_CURSOR_STATE'', ''24000''),
     (''ERRCODE_INVALID_TRANSACTION_STATE'', ''25000''),
     (''ERRCODE_ACTIVE_SQL_TRANSACTION'', ''25001''),
     (''ERRCODE_BRANCH_TRANSACTION_ALREADY_ACTIVE'', ''25002''),
     (''ERRCODE_HELD_CURSOR_REQUIRES_SAME_ISOLATION_LEVEL'', ''25008''),
     (''ERRCODE_INAPPROPRIATE_ACCESS_MODE_FOR_BRANCH_TRANSACTION'', ''25003''),
     (''ERRCODE_INAPPROPRIATE_ISOLATION_LEVEL_FOR_BRANCH_TRANSACTION'', ''25004''),
     (''ERRCODE_NO_ACTIVE_SQL_TRANSACTION_FOR_BRANCH_TRANSACTION'', ''25005''),
     (''ERRCODE_READ_ONLY_SQL_TRANSACTION'', ''25006''),
     (''ERRCODE_SCHEMA_AND_DATA_STATEMENT_MIXING_NOT_SUPPORTED'', ''25007''),
     (''ERRCODE_NO_ACTIVE_SQL_TRANSACTION'', ''25P01''),
     (''ERRCODE_IN_FAILED_SQL_TRANSACTION'', ''25P02''),
     (''ERRCODE_IDLE_IN_TRANSACTION_SESSION_TIMEOUT'', ''25P03''),
     (''ERRCODE_INVALID_SQL_STATEMENT_NAME'', ''26000''),
     (''ERRCODE_TRIGGERED_DATA_CHANGE_VIOLATION'', ''27000''),
     (''ERRCODE_INVALID_AUTHORIZATION_SPECIFICATION'', ''28000''),
     (''ERRCODE_INVALID_PASSWORD'', ''28P01''),
     (''ERRCODE_DEPENDENT_PRIVILEGE_DESCRIPTORS_STILL_EXIST'', ''2B000''),
     (''ERRCODE_DEPENDENT_OBJECTS_STILL_EXIST'', ''2BP01''),
     (''ERRCODE_INVALID_TRANSACTION_TERMINATION'', ''2D000''),
     (''ERRCODE_SQL_ROUTINE_EXCEPTION'', ''2F000''),
     (''ERRCODE_S_R_E_FUNCTION_EXECUTED_NO_RETURN_STATEMENT'', ''2F005''),
     (''ERRCODE_S_R_E_MODIFYING_SQL_DATA_NOT_PERMITTED'', ''2F002''),
     (''ERRCODE_S_R_E_PROHIBITED_SQL_STATEMENT_ATTEMPTED'', ''2F003''),
     (''ERRCODE_S_R_E_READING_SQL_DATA_NOT_PERMITTED'', ''2F004''),
     (''ERRCODE_INVALID_CURSOR_NAME'', ''34000''),
     (''ERRCODE_EXTERNAL_ROUTINE_EXCEPTION'', ''38000''),
     (''ERRCODE_E_R_E_CONTAINING_SQL_NOT_PERMITTED'', ''38001''),
     (''ERRCODE_E_R_E_MODIFYING_SQL_DATA_NOT_PERMITTED'', ''38002''),
     (''ERRCODE_E_R_E_PROHIBITED_SQL_STATEMENT_ATTEMPTED'', ''38003''),
     (''ERRCODE_E_R_E_READING_SQL_DATA_NOT_PERMITTED'', ''38004''),
     (''ERRCODE_EXTERNAL_ROUTINE_INVOCATION_EXCEPTION'', ''39000''),
     (''ERRCODE_E_R_I_E_INVALID_SQLSTATE_RETURNED'', ''39001''),
     (''ERRCODE_E_R_I_E_NULL_VALUE_NOT_ALLOWED'', ''39004''),
     (''ERRCODE_E_R_I_E_TRIGGER_PROTOCOL_VIOLATED'', ''39P01''),
     (''ERRCODE_E_R_I_E_SRF_PROTOCOL_VIOLATED'', ''39P02''),
     (''ERRCODE_E_R_I_E_EVENT_TRIGGER_PROTOCOL_VIOLATED'', ''39P03''),
     (''ERRCODE_SAVEPOINT_EXCEPTION'', ''3B000''),
     (''ERRCODE_S_E_INVALID_SPECIFICATION'', ''3B001''),
     (''ERRCODE_INVALID_CATALOG_NAME'', ''3D000''),
     (''ERRCODE_INVALID_SCHEMA_NAME'', ''3F000'')]"

definition ErrorCode_cases_3 :: "(string \<times> string) list" where
  "ErrorCode_cases_3 =
    [(''ERRCODE_TRANSACTION_ROLLBACK'', ''40000''),
     (''ERRCODE_T_R_INTEGRITY_CONSTRAINT_VIOLATION'', ''40002''),
     (''ERRCODE_T_R_SERIALIZATION_FAILURE'', ''40001''),
     (''ERRCODE_T_R_STATEMENT_COMPLETION_UNKNOWN'', ''40003''),
     (''ERRCODE_T_R_DEADLOCK_DETECTED'', ''40P01''),
     (''ERRCODE_SYNTAX_ERROR_OR_ACCESS_RULE_VIOLATION'', ''42000''),
     (''ERRCODE_SYNTAX_ERROR'', ''42601''),
     (''ERRCODE_INSUFFICIENT_PRIVILEGE'', ''42501''),
     (''ERRCODE_CANNOT_COERCE'', ''42846''),
     (''ERRCODE_GROUPING_ERROR'', ''42803''),
     (''ERRCODE_WINDOWING_ERROR'', ''42P20''),
     (''ERRCODE_INVALID_RECURSION'', ''42P19''),
     (''ERRCODE_INVALID_FOREIGN_KEY'', ''42830''),
     (''ERRCODE_INVALID_NAME'', ''42602''),
     (''ERRCODE_NAME_TOO_LONG'', ''42622''),
     (''ERRCODE_RESERVED_NAME'', ''42939''),
     (''ERRCODE_DATATYPE_MISMATCH'', ''42804''),
     (''ERRCODE_INDETERMINATE_DATATYPE'', ''42P18''),
     (''ERRCODE_COLLATION_MISMATCH'', ''42P21''),
     (''ERRCODE_INDETERMINATE_COLLATION'', ''42P22''),
     (''ERRCODE_WRONG_OBJECT_TYPE'', ''42809''),
     (''ERRCODE_GENERATED_ALWAYS'', ''428C9''),
     (''ERRCODE_UNDEFINED_COLUMN'', ''42703''),
     (''ERRCODE_UNDEFINED_CURSOR'', ''34000''),
     (''ERRCODE_UNDEFINED_DATABASE'', ''3D000''),
     (''ERRCODE_UNDEFINED_FUNCTION'', ''42883''),
     (''ERRCODE_UNDEFINED_PSTATEMENT'', ''26000''),
     (''ERRCODE_UNDEFINED_SCHEMA'', ''3F000''),
     (''ERRCODE_UNDEFINED_TABLE'', ''42P01''),
     (''ERRCODE_UNDEFINED_PARAMETER'', ''42P02''),
     (''ERRCODE_UNDEFINED_OBJECT'', ''42704''),
     (''ERRCODE_DUPLICATE_COLUMN'', ''42701''),
     (''ERRCODE_DUPLICATE_CURSOR'', ''42P03''),
     (''ERRCODE_DUPLICATE_DATABASE'', ''42P04''),
     (''ERRCODE_DUPLICATE_FUNCTION'', ''42723''),
     (''ERRCODE_DUPLICATE_PSTATEMENT'', ''42P05''),
     (''ERRCODE_DUPLICATE_SCHEMA'', ''42P06''),
     (''ERRCODE_DUPLICATE_TABLE'', ''42P07''),
     (''ERRCODE_DUPLICATE_ALIAS'', ''42712''),
     (''ERRCODE_DUPLICATE_OBJECT'', ''42710''),
     (''ERRCODE_AMBIGUOUS_COLUMN'', ''42702''),
     (''ERRCODE_AMBIGUOUS_FUNCTION'', ''42725''),
     (''ERRCODE_AMBIGUOUS_PARAMETER'', ''42P08''),
     (''ERRCODE_AMBIGUOUS_ALIAS'', ''42P09''),
     (''ERRCODE_INVALID_COLUMN_REFERENCE'', ''42P10''),
     (''ERRCODE_INVALID_COLUMN_DEFINITION'', ''42611''),
     (''ERRCODE_INVALID_CURSOR_DEFINITION'', ''42P11''),
     (''ERRCODE_INVALID_DATABASE_DEFINITION'', ''42P12''),
     (''ERRCODE_INVALID_FUNCTION_DEFINITION'', ''42P13''),
     (''ERRCODE_INVALID_PSTATEMENT_DEFINITION'', ''42P14''),
     (''ERRCODE_INVALID_SCHEMA_DEFINITION'', ''42P15''),
     (''ERRCODE_INVALID_TABLE_DEFINITION'', ''42P16''),
     (''ERRCODE_INVALID_OBJECT_DEFINITION'', ''42P17''),
     (''ERRCODE_WITH_CHECK_OPTION_VIOLATION'', ''44000''),
     (''ERRCODE_INSUFFICIENT_RESOURCES'', ''53000''),
     (''ERRCODE_DISK_FULL'', ''53100''),
     (''ERRCODE_OUT_OF_MEMORY'', ''53200''),
     (''ERRCODE_TOO_MANY_CONNECTIONS'', ''53300''),
     (''ERRCODE_CONFIGURATION_LIMIT_EXCEEDED'', ''53400''),
     (''ERRCODE_PROGRAM_LIMIT_EXCEEDED'', ''54000''),
     (''ERRCODE_STATEMENT_TOO_COMPLEX'', ''54001''),
     (''ERRCODE_TOO_MANY_COLUMNS'', ''54011''),
     (''ERRCODE_TOO_MANY_ARGUMENTS'', ''54023''),
     (''ERRCODE_OBJECT_NOT_IN_PREREQUISITE_STATE'', ''55000''),
     (''ERRCODE_OBJECT_IN_USE'', ''55006''),
     (''ERRCODE_CANT_CHANGE_RUNTIME_PARAM'', ''55P02''),
     (''ERRCODE_LOCK_NOT_AVAILABLE'', ''55P03''),
     (''ERRCODE_UNSAFE_NEW_ENUM_VALUE_USAGE'', ''55P04''),
     (''ERRCODE_OPERATOR_INTERVENTION'', ''57000''),
     (''ERRCODE_QUERY_CANCELED'', ''57014''),
     (''ERRCODE_ADMIN_SHUTDOWN'', ''57P01''),
     (''ERRCODE_CRASH_SHUTDOWN'', ''57P02''),
     (''ERRCODE_CANNOT_CONNECT_NOW'', ''57P03''),
     (''ERRCODE_DATABASE_DROPPED'', ''57P04'')]"

definition ErrorCode_cases_4 :: "(string \<times> string) list" where
  "ErrorCode_cases_4 =
    [(''ERRCODE_SYSTEM_ERROR'', ''58000''),
     (''ERRCODE_IO_ERROR'', ''58030''),
     (''ERRCODE_UNDEFINED_FILE'', ''58P01''),
     (''ERRCODE_DUPLICATE_FILE'', ''58P02''),
     (''ERRCODE_SNAPSHOT_TOO_OLD'', ''72000''),
     (''ERRCODE_CONFIG_FILE_ERROR'', ''F0000''),
     (''ERRCODE_LOCK_FILE_EXISTS'', ''F0001''),
     (''ERRCODE_FDW_ERROR'', ''HV000''),
     (''ERRCODE_FDW_COLUMN_NAME_NOT_FOUND'', ''HV005''),
     (''ERRCODE_FDW_DYNAMIC_PARAMETER_VALUE_NEEDED'', ''HV002''),
     (''ERRCODE_FDW_FUNCTION_SEQUENCE_ERROR'', ''HV010''),
     (''ERRCODE_FDW_INCONSISTENT_DESCRIPTOR_INFORMATION'', ''HV021''),
     (''ERRCODE_FDW_INVALID_ATTRIBUTE_VALUE'', ''HV024''),
     (''ERRCODE_FDW_INVALID_COLUMN_NAME'', ''HV007''),
     (''ERRCODE_FDW_INVALID_COLUMN_NUMBER'', ''HV008''),
     (''ERRCODE_FDW_INVALID_DATA_TYPE'', ''HV004''),
     (''ERRCODE_FDW_INVALID_DATA_TYPE_DESCRIPTORS'', ''HV006''),
     (''ERRCODE_FDW_INVALID_DESCRIPTOR_FIELD_IDENTIFIER'', ''HV091''),
     (''ERRCODE_FDW_INVALID_HANDLE'', ''HV00B''),
     (''ERRCODE_FDW_INVALID_OPTION_INDEX'', ''HV00C''),
     (''ERRCODE_FDW_INVALID_OPTION_NAME'', ''HV00D''),
     (''ERRCODE_FDW_INVALID_STRING_LENGTH_OR_BUFFER_LENGTH'', ''HV090''),
     (''ERRCODE_FDW_INVALID_STRING_FORMAT'', ''HV00A''),
     (''ERRCODE_FDW_INVALID_USE_OF_NULL_POINTER'', ''HV009''),
     (''ERRCODE_FDW_TOO_MANY_HANDLES'', ''HV014''),
     (''ERRCODE_FDW_OUT_OF_MEMORY'', ''HV001''),
     (''ERRCODE_FDW_NO_SCHEMAS'', ''HV00P''),
     (''ERRCODE_FDW_OPTION_NAME_NOT_FOUND'', ''HV00J''),
     (''ERRCODE_FDW_REPLY_HANDLE'', ''HV00K''),
     (''ERRCODE_FDW_SCHEMA_NOT_FOUND'', ''HV00Q''),
     (''ERRCODE_FDW_TABLE_NOT_FOUND'', ''HV00R''),
     (''ERRCODE_FDW_UNABLE_TO_CREATE_EXECUTION'', ''HV00L''),
     (''ERRCODE_FDW_UNABLE_TO_CREATE_REPLY'', ''HV00M''),
     (''ERRCODE_FDW_UNABLE_TO_ESTABLISH_CONNECTION'', ''HV00N''),
     (''ERRCODE_PLPGSQL_ERROR'', ''P0000''),
     (''ERRCODE_RAISE_EXCEPTION'', ''P0001''),
     (''ERRCODE_NO_DATA_FOUND'', ''P0002''),
     (''ERRCODE_TOO_MANY_ROWS'', ''P0003''),
     (''ERRCODE_ASSERT_FAILURE'', ''P0004''),
     (''ERRCODE_INTERNAL_ERROR'', ''XX000''),
     (''ERRCODE_DATA_CORRUPTED'', ''XX001''),
     (''ERRCODE_INDEX_CORRUPTED'', ''XX002'')]"

definition ErrorCode_cases :: "(string \<times> string) list" where
  "ErrorCode_cases = ErrorCode_cases_1 @ ErrorCode_cases_2 @ ErrorCode_cases_3 @ ErrorCode_cases_4"

definition ErrorCodeToString :: "ErrorCode \<Rightarrow> string" where
  "ErrorCodeToString code =
     (if unat code < length ErrorCode_enumerators
      then case map_of ErrorCode_cases (ErrorCode_enumerators ! unat code) of Some s \<Rightarrow> s | None \<Rightarrow> ''UNKNOWN''
      else ''UNKNOWN'')"

lemma ErrorCode_labels: "map fst ErrorCode_cases = ErrorCode_enumerators"
  by (simp only: list.map fst_conv append.simps ErrorCode_cases_def ErrorCode_enumerators_def ErrorCode_cases_1_def ErrorCode_cases_2_def
      ErrorCode_cases_3_def ErrorCode_cases_4_def ErrorCode_enumerators_1_def ErrorCode_enumerators_2_def
      ErrorCode_enumerators_3_def)

lemma ErrorCode_states: "list_all (\<lambda>x. length (snd x) = 5) ErrorCode_cases"
  by (simp add: ErrorCode_cases_def ErrorCode_cases_1_def ErrorCode_cases_2_def ErrorCode_cases_3_def ErrorCode_cases_4_def)

lemma ErrorCode_count: "length ErrorCode_enumerators = 264"
  by (simp add: ErrorCode_enumerators_def ErrorCode_enumerators_1_def ErrorCode_enumerators_2_def ErrorCode_enumerators_3_def)

text \<open>The switch over the error codes is exhaustive: every one of the 264 enumerators has a SQLSTATE of five characters
from the table, and any other 16-bit value is reported as unknown.\<close>

theorem ErrorCodeToString_total:
  "if unat code < 264
   then length (ErrorCodeToString code) = 5 \<and>
     (ErrorCode_enumerators ! unat code, ErrorCodeToString code) \<in> set ErrorCode_cases
   else ErrorCodeToString code = ''UNKNOWN''"
proof (cases "unat code < 264")
  case True
  then have "ErrorCode_enumerators ! unat code \<in> fst ` set ErrorCode_cases"
    using nth_mem [of "unat code" ErrorCode_enumerators] unfolding ErrorCode_labels [symmetric] set_map
    by (simp add: ErrorCode_labels ErrorCode_count)
  then obtain s where s: "map_of ErrorCode_cases (ErrorCode_enumerators ! unat code) = Some s"
    by (metis map_of_eq_None_iff not_None_eq)
  then have "(ErrorCode_enumerators ! unat code, s) \<in> set ErrorCode_cases" by (rule map_of_SomeD)
  moreover from this have "length s = 5" using ErrorCode_states by (auto simp: list_all_iff)
  ultimately show ?thesis using True s by (simp add: ErrorCodeToString_def ErrorCode_count)
next
  case False
  then show ?thesis by (simp add: ErrorCodeToString_def ErrorCode_count)
qed

section \<open>Severities and fields (error_defs.hpp)\<close>

datatype ErrorSeverity = ERROR | FATAL | PANIC | WARNING | NOTICE | DEBUG | INFO | LOG

primrec ErrorSeverityToString :: "ErrorSeverity \<Rightarrow> string" where
  "ErrorSeverityToString ERROR = ''ERROR''"
| "ErrorSeverityToString FATAL = ''FATAL''"
| "ErrorSeverityToString PANIC = ''PANIC''"
| "ErrorSeverityToString WARNING = ''WARNING''"
| "ErrorSeverityToString NOTICE = ''NOTICE''"
| "ErrorSeverityToString DEBUG = ''DEBUG''"
| "ErrorSeverityToString INFO = ''INFO''"
| "ErrorSeverityToString LOG = ''LOG''"

datatype ErrorField =
    SEVERITY | SEVERITY_LOCALIZED | CODE | HUMAN_READABLE_ERROR | DETAIL | HINT | POSITION | INTERNAL_POSITION
  | INTERNAL_QUERY | WHERE | SCHEMA_NAME | TABLE_NAME | COLUMN_NAME | DATA_TYPE_NAME | CONSTRAINT_NAME | FILE | LINE
  | ROUTINE

text \<open>The value of a field is the byte that announces it in the wire protocol.\<close>

primrec field_byte :: "ErrorField \<Rightarrow> char" where
  "field_byte SEVERITY = CHR ''S''"
| "field_byte SEVERITY_LOCALIZED = CHR ''V''"
| "field_byte CODE = CHR ''C''"
| "field_byte HUMAN_READABLE_ERROR = CHR ''M''"
| "field_byte DETAIL = CHR ''D''"
| "field_byte HINT = CHR ''H''"
| "field_byte POSITION = CHR ''P''"
| "field_byte INTERNAL_POSITION = CHR ''p''"
| "field_byte INTERNAL_QUERY = CHR ''q''"
| "field_byte WHERE = CHR ''W''"
| "field_byte SCHEMA_NAME = CHR ''s''"
| "field_byte TABLE_NAME = CHR ''t''"
| "field_byte COLUMN_NAME = CHR ''c''"
| "field_byte DATA_TYPE_NAME = CHR ''d''"
| "field_byte CONSTRAINT_NAME = CHR ''n''"
| "field_byte FILE = CHR ''F''"
| "field_byte LINE = CHR ''L''"
| "field_byte ROUTINE = CHR ''R''"

lemma field_byte_inject: "field_byte f = field_byte g \<longleftrightarrow> f = g"
  by (cases f; cases g) simp_all

section \<open>Error messages (error_data.hpp)\<close>

record ErrorData =
  severity :: ErrorSeverity
  message :: string
  err_code :: ErrorCode
  err_fields :: "(ErrorField \<times> string) list"

definition ErrorData_new :: "ErrorSeverity \<Rightarrow> string \<Rightarrow> ErrorCode \<Rightarrow> ErrorData" where
  "ErrorData_new sev msg code =
     \<lparr>severity = sev, message = msg, err_code = code,
      err_fields = [(SEVERITY, ErrorSeverityToString sev), (SEVERITY_LOCALIZED, ErrorSeverityToString sev)]\<rparr>"

definition AddField :: "ErrorData \<Rightarrow> ErrorField \<Rightarrow> string \<Rightarrow> ErrorData res" where
  "AddField e field msg =
     DB7_ASSERT (field \<noteq> HUMAN_READABLE_ERROR) ''ErrorData already contains a required message.''
     (DB7_ASSERT (field \<noteq> CODE) ''ErrorData already contains a required code.''
     (Inr (e\<lparr>err_fields := err_fields e @ [(field, msg)]\<rparr>)))"

fun AddFields :: "ErrorData \<Rightarrow> (ErrorField \<times> string) list \<Rightarrow> ErrorData res" where
  "AddFields e [] = Inr e"
| "AddFields e ((f, m) # fs) = ebind (AddField e f m) (\<lambda>e'. AddFields e' fs)"

lemma AddField_Inr_iff:
  "AddField e f m = Inr e' \<longleftrightarrow> f \<noteq> HUMAN_READABLE_ERROR \<and> f \<noteq> CODE \<and> e' = e\<lparr>err_fields := err_fields e @ [(f, m)]\<rparr>"
  by (auto simp: AddField_def DB7_ASSERT_Inr_iff)

text \<open>However many fields are added to an error, its message and its code stay the ones it was made with and appear in
no field, its first two fields are the severity, and the added fields follow in order; adding either required field fails.\<close>

theorem error_fields_invariant:
  "case AddFields (ErrorData_new sev msg code) fs of
     Inr e \<Rightarrow> message e = msg \<and> err_code e = code \<and> severity e = sev \<and>
       err_fields e = (SEVERITY, ErrorSeverityToString sev) # (SEVERITY_LOCALIZED, ErrorSeverityToString sev) # fs \<and>
       fst ` set (err_fields e) \<inter> {CODE, HUMAN_READABLE_ERROR} = {}
   | Inl err \<Rightarrow> fst ` set fs \<inter> {CODE, HUMAN_READABLE_ERROR} \<noteq> {}"
proof -
  have add: "case AddFields e fs of
      Inr e' \<Rightarrow> e' = e\<lparr>err_fields := err_fields e @ fs\<rparr> \<and> fst ` set fs \<inter> {CODE, HUMAN_READABLE_ERROR} = {}
    | Inl err \<Rightarrow> fst ` set fs \<inter> {CODE, HUMAN_READABLE_ERROR} \<noteq> {}" for e
  proof (induction e fs rule: AddFields.induct)
    case (2 e f m fs)
    then show ?case
    proof (cases "f \<in> {CODE, HUMAN_READABLE_ERROR}")
      case True
      then show ?thesis by (auto simp: AddField_def)
    next
      case False
      then have "AddField e f m = Inr (e\<lparr>err_fields := err_fields e @ [(f, m)]\<rparr>)" by (auto simp: AddField_def)
      with 2 [OF this] False show ?thesis by (auto split: sum.splits)
    qed
  qed simp
  show ?thesis using add [of "ErrorData_new sev msg code"] by (auto simp: ErrorData_new_def split: sum.splits)
qed

section \<open>Exceptions (exception.hpp)\<close>

datatype ExceptionType =
    RESERVED | NOT_IMPLEMENTED | BINDER | CATALOG | CONVERSION | MESSENGER | PILOT | NETWORK | PARSER | REPLICATION
  | SETTINGS | OPTIMIZER | SYNTAX | EXECUTION | IO | MEMORY

record Exception =
  exc_type :: ExceptionType
  exc_what :: string
  exc_file :: string
  exc_line :: int

definition GetType :: "Exception \<Rightarrow> string" where
  "GetType e =
     (case exc_type e of
        NOT_IMPLEMENTED \<Rightarrow> ''Not Implemented''
      | CATALOG \<Rightarrow> ''Catalog''
      | PARSER \<Rightarrow> ''Parser''
      | MESSENGER \<Rightarrow> ''Messenger''
      | NETWORK \<Rightarrow> ''Network''
      | REPLICATION \<Rightarrow> ''Replication''
      | SETTINGS \<Rightarrow> ''Settings''
      | BINDER \<Rightarrow> ''Binder''
      | OPTIMIZER \<Rightarrow> ''Optimizer''
      | EXECUTION \<Rightarrow> ''Execution''
      | PILOT \<Rightarrow> ''Pilot''
      | _ \<Rightarrow> ''Unknown exception type'')"

text \<open>Decimal output of an integer.\<close>

fun dec_nat :: "nat \<Rightarrow> string" where
  "dec_nat n = (if n < 10 then [char_of (48 + n)] else dec_nat (n div 10) @ [char_of (48 + n mod 10)])"

definition dec_int :: "int \<Rightarrow> string" where
  "dec_int i = (if i < 0 then CHR ''-'' # dec_nat (nat (- i)) else dec_nat (nat i))"

definition print_exception :: "Exception \<Rightarrow> string" where
  "print_exception e =
     GetType e @ '' exception:'' @ exc_file e @ '':'' @ dec_int (exc_line e) @ '':'' @ exc_what e"

text \<open>The derived classes of \<^verbatim>\<open>DEFINE_EXCEPTION\<close> and \<^verbatim>\<open>DEFINE_EXCEPTION_WITH_ERRCODE\<close>, and the parser exception.\<close>

datatype exception_class =
    NotImplementedException | CatalogException | MessengerException | ReplicationException | NetworkProcessException
  | OptimizerException | ConversionException | SyntaxException | AbortException | IOException | MemoryException

datatype coded_class = ExecutionException | BinderException | SettingsException | PilotException

primrec class_type :: "exception_class \<Rightarrow> ExceptionType" where
  "class_type NotImplementedException = NOT_IMPLEMENTED"
| "class_type CatalogException = CATALOG"
| "class_type MessengerException = MESSENGER"
| "class_type ReplicationException = REPLICATION"
| "class_type NetworkProcessException = NETWORK"
| "class_type OptimizerException = OPTIMIZER"
| "class_type ConversionException = CONVERSION"
| "class_type SyntaxException = SYNTAX"
| "class_type AbortException = EXECUTION"
| "class_type IOException = IO"
| "class_type MemoryException = MEMORY"

primrec coded_type :: "coded_class \<Rightarrow> ExceptionType" where
  "coded_type ExecutionException = EXECUTION"
| "coded_type BinderException = BINDER"
| "coded_type SettingsException = SETTINGS"
| "coded_type PilotException = PILOT"

definition make_exception :: "exception_class \<Rightarrow> string \<Rightarrow> string \<Rightarrow> int \<Rightarrow> Exception" where
  "make_exception c msg file line = \<lparr>exc_type = class_type c, exc_what = msg, exc_file = file, exc_line = line\<rparr>"

record CodedException = Exception +
  exc_code :: ErrorCode

definition make_coded_exception :: "coded_class \<Rightarrow> string \<Rightarrow> string \<Rightarrow> int \<Rightarrow> ErrorCode \<Rightarrow> CodedException" where
  "make_coded_exception c msg file line code =
     \<lparr>exc_type = coded_type c, exc_what = msg, exc_file = file, exc_line = line, exc_code = code\<rparr>"

record ParserException = Exception +
  cursorpos :: u32

definition ParserException_new :: "string \<Rightarrow> string \<Rightarrow> int \<Rightarrow> ParserException" where
  "ParserException_new msg file line =
     \<lparr>exc_type = PARSER, exc_what = msg, exc_file = file, exc_line = line, cursorpos = 0\<rparr>"

definition ParserException_new_at :: "string \<Rightarrow> string \<Rightarrow> int \<Rightarrow> u32 \<Rightarrow> ParserException" where
  "ParserException_new_at msg file line pos =
     \<lparr>exc_type = PARSER, exc_what = msg, exc_file = file, exc_line = line, cursorpos = pos\<rparr>"

definition GetCursorPos :: "ParserException \<Rightarrow> u32" where
  "GetCursorPos e = cursorpos e"

text \<open>An exception of the conversion, syntax, I/O and memory classes is reported as an unknown exception type: their types
have no case in \<^verbatim>\<open>GetType\<close>. The other seven simple classes, and all classes with an error code, are named.\<close>

theorem unnamed_exception_types:
  "(GetType (make_exception c msg file line) = ''Unknown exception type'' \<longleftrightarrow>
      c \<in> {ConversionException, SyntaxException, IOException, MemoryException}) \<and>
   GetType (Exception.truncate (make_coded_exception d msg file line code)) \<noteq> ''Unknown exception type''"
  by (cases c; cases d) (simp_all add: GetType_def make_exception_def make_coded_exception_def Exception.truncate_def)

end
