(* ===== verification/Spec2Isabelle.thy ===== *)
theory Spec2Isabelle
  imports IndexContract BTreeRace PoolClaims SchedClaims MvccTheorems TxnProtocol CatalogCreate Redo Program Errors
begin

text \<open>
  A verification development for DB7, a disk-based relational storage engine in C++ (sources under \<^verbatim>\<open>src/\<close>, paths below
  without \<^verbatim>\<open>include/\<close> and \<^verbatim>\<open>src/\<close> in front).

  \<^bold>\<open>The program.\<close> A table stores rows in pages of 8192 bytes, column by column; old versions of a row are undo records that a
  per-page version array points to. Indexes are B-link trees over order-preserving byte keys. Pages are held in a buffer
  pool that reads them through a disk scheduler on io\_uring. A catalog keeps the descriptions of databases, namespaces,
  tables, columns, indexes and constraints as rows of system tables with indexes of their own. Transactions take their
  start and commit times from one clock and meet at a counter latch.

  \<^bold>\<open>Conventions.\<close> Machine integers are words of their width, so sums wrap as in the code. Memory is a function from addresses
  to bytes, little endian. A result \<open>'a res\<close> is \<open>Inr\<close> a value or \<open>Inl\<close> an error: a failed \<^verbatim>\<open>DB7_ASSERT\<close> (active in this build), a
  thrown exception or a null dereference. A loop that need not end has the result type \<open>'a res option\<close> and is a
  \<^verbatim>\<open>partial_function\<close>: \<open>None\<close> is a loop that never ends, so a theorem that states \<open>Some\<close> states termination. C++ containers
  that iterate in an unspecified order take the order as an argument. Names are the ones of the code, with the class in
  front where they would clash.

  \<^bold>\<open>Parts and theories\<close>, in the order in which they build on each other:

  \<^item> \<open>Prelude\<close>, \<open>Shared\<close>, \<open>Errors\<close>: words, memory, results that may fail or not end; \<^verbatim>\<open>shared/\<close> utilities (byte swapping,
    tuple ids, \<^verbatim>\<open>ResultObj\<close>, hashing, alignment, arena, object pool); \<^verbatim>\<open>shared/error/\<close>.
  \<^item> \<open>Locks\<close>: \<^verbatim>\<open>shared/thread_local_util.hpp\<close> (the descent stack) and \<^verbatim>\<open>shared/locks/adaptive_version_lock.hpp\<close>, the latter also as a
    step relation of its atomic actions.
  \<^item> \<open>SlottedPage\<close>, \<open>SlottedSplit\<close>, \<open>NodeLayout\<close>, \<open>LeafLayout\<close>, \<open>InterLayout\<close>: the node pages of an index,
    \<^verbatim>\<open>access/index/layouts/varlen/\<close> and \<^verbatim>\<open>access/index/header.hpp\<close>. A page is memory with a header, a slot array from the left and a
    heap of records from the right; \<open>page_ents\<close> reads it as a sorted list of entries. The locale \<open>node_layout\<close> states once what
    a layout has to provide, and is interpreted on both layouts; their operations are shown to be the list operations.
  \<^item> \<open>DataChunk\<close>, \<open>ChunkRows\<close>, \<open>Pax\<close>, \<open>ChunkUtils\<close>: \<^verbatim>\<open>access/data_chunk\<close>, \<^verbatim>\<open>access/schema.hpp\<close>, \<^verbatim>\<open>storage/layouts/pax\<close>,
    \<^verbatim>\<open>access/chunk_utils.hpp\<close>. A chunk is read as a finite map from columns to bytes (\<open>chunk_row\<close>), a page row likewise
    (\<open>pax_row\<close>); copying is map update.
  \<^item> \<open>KeyEncoder\<close>: \<^verbatim>\<open>access/key_encoder.hpp\<close>, \<^verbatim>\<open>storage/varlen_entry.hpp\<close>. The locale \<open>fixed_code\<close> collects the laws of an
    order-preserving code of fixed width and is interpreted on every numeric type.
  \<^item> \<open>FreeSpace\<close>: \<^verbatim>\<open>storage/fsm/\<close>, both managers.
  \<^item> \<open>BTree\<close> (definitions), \<open>BTreeNodes\<close>, \<open>BTreeRows\<close>, \<open>BTreeInsert\<close>, \<open>BTreeOps\<close>, \<open>BTreeSearch\<close>, \<open>BTreeClaims\<close>:
    \<^verbatim>\<open>access/index/btree.hpp\<close>. \<open>tree_ok t rows\<close> is the invariant: \<open>rows\<close> are the levels from the leaves up, each a chain of pages
    whose key ranges touch, each routed to by the level above; \<open>tree_keys\<close> are the keys along the leaves. The
    locale \<open>page_row\<close> has the laws of a chain of pages, \<open>link_walk\<close> extends it by a search that walks to the right; it is
    interpreted on the descent, on insertion and on lookup, for leaves and inner pages.
  \<^item> \<open>BTreeRace\<close>: the same operations interleaved, as critical sections on single pages: \<open>page_step\<close> changes pages with the
    functions of \<open>BTree\<close>, \<open>race_step\<close> puts such sections between the visits of a search.
  \<^item> \<open>IndexContract\<close>: what an index promises, as the locale \<open>tuple_index\<close> over a finite set of entries (key, tuple id),
    interpreted on the B-link tree for the keys that the encoder makes of rows.
  \<^item> \<open>Undo\<close>, \<open>Mvcc\<close>, \<open>MvccProofs\<close>, \<open>MvccTheorems\<close>, \<open>MvccInsert\<close>: \<^verbatim>\<open>storage/undo_buffer.hpp\<close>, \<^verbatim>\<open>storage/mvcc/\<close>, \<^verbatim>\<open>transaction/\<close>, \<^verbatim>\<open>access/table\<close>.
    The records reachable from a version head are a \<open>chain\<close>; \<open>snapshot\<close> is the row that a start time sees through it.
  \<^item> \<open>Redo\<close>: \<^verbatim>\<open>storage/wal/log_record.hpp\<close>, \<^verbatim>\<open>storage/redo_buffer.hpp\<close> and \<^verbatim>\<open>TransactionContext::StageWrite\<close>. Nothing else in
    the program writes log records.
  \<^item> \<open>TxnProtocol\<close>: \<^verbatim>\<open>transaction/transaction_manager.cpp\<close> with \<^verbatim>\<open>shared/locks/adaptive_spin_lock.hpp\<close>: \<open>tm_step\<close> has one event for
    each access to shared state, \<open>tm_run\<close> runs any interleaving.
  \<^item> \<open>BufferPool\<close>, \<open>PoolProofs\<close>, \<open>PoolClaims\<close>: \<^verbatim>\<open>storage/buffer_pool/\<close>, \<^verbatim>\<open>storage/page.hpp\<close>. One thread at a time as functions;
    the race between an optimistic pin and the clock sweep as the step relation \<open>race_step\<close>.
  \<^item> \<open>DiskManager\<close>, \<open>DiskScheduler\<close>, \<open>DiskClaims\<close>, \<open>SchedClaims\<close>: \<^verbatim>\<open>storage/disk_manager/\<close>. The operating system and io\_uring
    are records of functions over states of their own (\<open>os\<close>, \<open>uring\<close>), arguments of every operation; the laws assumed of
    them (\<open>open_law\<close>, \<open>pwrite_law\<close>, \<open>ring_laws\<close> and others) are the documented behaviour of the calls, and the witnesses run
    on a concrete one.
  \<^item> \<open>CatalogSchema\<close>, \<open>CatalogOps\<close>, \<open>CatalogClaims\<close>, \<open>CatalogLookup\<close>, \<open>CatalogCreate\<close>: \<^verbatim>\<open>catalog/\<close>. A \<open>Session\<close> is what an operation works on: the
    calling transaction, versions, heap pages and the system tables and indexes by oid; \<open>DatabaseCatalog\<close> and \<open>Catalog\<close>
    extend it by the fields of the classes. \<open>CatalogLookup\<close> composes row layout, key encoding, tree search and versions,
    \<open>CatalogCreate\<close> does so for a whole \<^verbatim>\<open>CreateNamespace\<close>: free space, row, version record and the entries of both indexes.
  \<^item> \<open>Display\<close>: \<^verbatim>\<open>debug/printer.cpp\<close>, the printing of chunks, pages and tables and \<^verbatim>\<open>Select\<close> of the catalog, as functions to text.
  \<^item> \<open>Program\<close>: \<^verbatim>\<open>main.cpp\<close>, from the construction of all parts to the statements that it runs.

  \<^bold>\<open>What the lemmas show.\<close>
  \<^item> Index: inserting, deleting, looking up and inserting uniquely are the operations on the sorted key list, for a tree of
    any shape, splits up to a new root included; node splits keep exactly the entries; keys are ordered like the rows.
    An entry written for a row is found by the rows with the same key columns only, and deleting it undoes the insertion.
    Interleaved operations keep the linked structure, and a search overtaken by them still ends on the right leaf.
  \<^item> Table: a read returns the snapshot of its start; insertions, updates and deletions are invisible to older snapshots; the second
    of two concurrent updaters is refused; commit stamps every record and publishes the rows to later starts only.
  \<^item> Transactions: after passing the latch a transaction's snapshot never changes, in any interleaving, and waiting at the
    latch always ends once the commits in progress go on.
  \<^item> Buffer pool: pin and unpin keep page table and frames consistent, a pinned page stays, pinning returns exactly when a
    frame can be found.
  \<^item> Disk: file names and pages are read back, requests are neither lost nor repeated by a round of the scheduler.
  \<^item> Catalog: rows hold their arguments, indexes have the types of their columns, a namespace exists exactly when a live
    row is indexed under its oid, exists once created, and is gone once deleted.
  \<^item> Where the code falls short, a theorem says how: the lookup that repeats entries and the second split of a
    growing root, the optimistic pin race, the pool that never writes, the short read behind the first page, the retry of an update that leaves its values behind, the deletion visible before commit,
    and the catalog lock that is never released. More are lemmas beside the operations (\<open>unpin_dirty_lost\<close>, \<open>long_string_overread\<close>, \<open>ddl_without_lock_succeeds\<close>, \<open>leaf_Delete_twice_stale_slot\<close>, \<open>leaf_HasSpace_wraps\<close>,
    \<open>commit_iterator_overruns\<close>, \<open>fsm_oversized_wraps\<close>, \<open>attribute_type_short_write\<close>, \<open>io_offset_aliases\<close>,
    \<open>failed_namespace_keeps_row\<close>, \<open>staged_chunk_overwritten\<close>, \<open>StageWrite_full\<close>, \<open>page_cell_pins\<close>, \<open>negative_column_printed\<close>).

  \<^bold>\<open>Bounds.\<close> The tree theorems ask for at most 17 levels, the depth of the 16-slot descent stack and a root, and for page ids
  below 80000, the size of the pool; keys are 9 to 120 bytes, which keeps two records of a full page on either side of a
  split. Reading a version chain takes fuel above its length, restamping fuel above the number of records; the theorems
  state that this is enough. Timestamps stay below \<open>2 ^ 63\<close>, from where on they mark unfinished transactions.

  \<^bold>\<open>Concurrency.\<close> Tree, table and catalog operations are modelled for a thread that runs alone, with latches free and optimistic
  reads valid; the places where others interfere are arguments (the values found by a compare-and-swap) or step relations
  (critical sections of the tree, version lock, pin against sweep, begin and commit). A critical section is atomic, which is what
  the latches and the validation of optimistic reads give.

  \<^bold>\<open>Not modelled.\<close> The benchmarks of \<^verbatim>\<open>main.cpp\<close> that its \<^verbatim>\<open>main\<close> does not call and the test programs, the threads as such (the
  scheduler's loop is modelled by its rounds), the declarations of \<^verbatim>\<open>debug/inspect.hpp\<close>, destructors and allocation, the vendored
  containers, Unicode normalisation (an argument of the key encoder), the kernel behind the system calls, the digits that
  the standard library prints for a double (an argument of the printing functions).
\<close>

end
